(* ===== verification/Prelude.thy ===== *)
theory Prelude
  imports Main "HOL-Library.Word"
begin

text \<open>
  Shared vocabulary of the development: the machine integers of the Rust sources as words of
  their width, byte strings, big- and little-endian byte images of words, the element-wise
  \<open>Option\<close> traversal that \<open>?\<close> inside a loop amounts to, and the generic facts on lists, words
  and invariants that the component theories use.
\<close>

unbundle bit_operations_syntax

section \<open>Machine types\<close>

type_synonym u8 = "8 word"
type_synonym u16 = "16 word"
type_synonym u32 = "32 word"
type_synonym u64 = "64 word"
type_synonym u128 = "128 word"
type_synonym i32 = "32 word"
type_synonym bytes = "u8 list"

text \<open>Floating-point numbers by their bit patterns.\<close>

type_synonym f32 = "32 word"
type_synonym f64 = "64 word"

text \<open>\<open>usize\<close> values that only count elements of an in-memory container are natural numbers: such
  a count never exceeds \<open>isize::MAX\<close>, so no operation of the code on them wraps.\<close>

type_synonym usize = nat

named_theorems codec_simps \<open>byte and digit codecs\<close>
named_theorems ops_defs \<open>definitions of the operations of a state component\<close>
named_theorems inv_intros \<open>preservation facts of a state component\<close>

text \<open>A byte string literal \<open>b"..."\<close> of the sources.\<close>

definition bytes_of :: "string \<Rightarrow> bytes" where
  "bytes_of s = map of_char s"

lemma length_bytes_of [simp]: "length (bytes_of s) = length s"
  by (simp add: bytes_of_def)

lemma bytes_of_append [simp]: "bytes_of (s @ t) = bytes_of s @ bytes_of t"
  by (simp add: bytes_of_def)

lemma bytes_of_Nil [simp]: "bytes_of [] = []"
  by (simp add: bytes_of_def)

lemma take3_nth: "3 \<le> length xs \<Longrightarrow> take 3 xs = [xs ! 0, xs ! 1, xs ! 2]"
  by (rule nth_equalityI) (auto simp: less_Suc_eq numeral_3_eq_3 numeral_2_eq_2)

section \<open>Outcomes of code with unsafe blocks\<close>

text \<open>\<open>UB\<close> is the outcome of an \<open>unsafe\<close> block whose precondition does not hold, \<open>Panic\<close> that of a checked
  operation that fails.\<close>

datatype 'a outcome = UB | Panic | Done 'a

fun bind_outcome :: "'a outcome \<Rightarrow> ('a \<Rightarrow> 'b outcome) \<Rightarrow> 'b outcome" where
  "bind_outcome UB f = UB"
| "bind_outcome Panic f = Panic"
| "bind_outcome (Done x) f = f x"

lemma bind_outcome_Done_iff: "bind_outcome x f = Done z \<longleftrightarrow> (\<exists>y. x = Done y \<and> f y = Done z)"
  by (cases x) auto

lemma count_list_remove1: "p \<in> set xs \<Longrightarrow> count_list (remove1 p xs) q = (if q = p then count_list xs p - 1 else count_list xs q)"
  by (induction xs) auto

section \<open>Byte images of words\<close>

definition u32_to_be_bytes :: "u32 \<Rightarrow> bytes" where
  "u32_to_be_bytes w = [ucast (drop_bit 24 w), ucast (drop_bit 16 w), ucast (drop_bit 8 w), ucast w]"

fun u32_from_be_bytes :: "bytes \<Rightarrow> u32" where
  "u32_from_be_bytes [a, b, c, d] =
     push_bit 24 (ucast a) OR push_bit 16 (ucast b) OR push_bit 8 (ucast c) OR ucast d"
| "u32_from_be_bytes _ = 0"

definition u32_from_le_bytes :: "bytes \<Rightarrow> u32" where
  "u32_from_le_bytes bs = u32_from_be_bytes (rev bs)"

definition u32_to_le_bytes :: "u32 \<Rightarrow> bytes" where
  "u32_to_le_bytes w = rev (u32_to_be_bytes w)"

lemma length_u32_to_be_bytes [simp]: "length (u32_to_be_bytes w) = 4"
  by (simp add: u32_to_be_bytes_def)

lemma length_u32_to_le_bytes [simp]: "length (u32_to_le_bytes w) = 4"
  by (simp add: u32_to_le_bytes_def)

lemma u32_be_roundtrip [simp]: "u32_from_be_bytes (u32_to_be_bytes w) = w"
proof (rule bit_word_eqI)
  fix n assume "n < LENGTH(32)"
  then consider "n < 8" | "8 \<le> n" "n < 16" | "16 \<le> n" "n < 24" | "24 \<le> n" "n < 32"
    by fastforce
  then show "bit (u32_from_be_bytes (u32_to_be_bytes w)) n \<longleftrightarrow> bit w n"
    by cases (auto simp: u32_to_be_bytes_def bit_simps)
qed

lemma u32_le_roundtrip [simp]: "u32_from_le_bytes (u32_to_le_bytes w) = w"
  by (simp add: u32_from_le_bytes_def u32_to_le_bytes_def)

section \<open>Feeding a component one input at a time\<close>

text \<open>Run a component over a list of inputs, collecting its outputs in order.\<close>

fun run_chunks :: "('s \<Rightarrow> 'i \<Rightarrow> 'o list \<times> 's) \<Rightarrow> 's \<Rightarrow> 'i list \<Rightarrow> 'o list \<times> 's" where
  "run_chunks f s [] = ([], s)"
| "run_chunks f s (i # is) =
     (let (os, s') = f s i; (os', s'') = run_chunks f s' is in (os @ os', s''))"

text \<open>
  The contract of an incremental decoder: it keeps the unconsumed input \<open>pending\<close>, and one step on
  \<open>data\<close> delivers what the reference function \<open>parse\<close> finds at the front of \<open>pending @ data\<close>.
  \<open>parse_append\<close> says that parsing may stop and resume anywhere in the input.
\<close>

locale incremental_decoder =
  fixes feed :: "'s \<Rightarrow> 'i list \<Rightarrow> 'o list \<times> 's"
    and pending :: "'s \<Rightarrow> 'i list"
    and invar :: "'s \<Rightarrow> bool"
    and parse :: "'i list \<Rightarrow> 'o list \<times> 'i list"
  assumes feed_parse: "invar s \<Longrightarrow> feed s d = (os, s') \<Longrightarrow> parse (pending s @ d) = (os, pending s')"
    and feed_invar: "invar s \<Longrightarrow> feed s d = (os, s') \<Longrightarrow> invar s'"
    and parse_append: "parse xs = (os, r) \<Longrightarrow> parse (r @ ys) = (os', r') \<Longrightarrow>
      parse (xs @ ys) = (os @ os', r')"
    and parse_pending: "invar s \<Longrightarrow> parse (pending s) = ([], pending s)"
begin

lemma run_chunks_parse:
  "invar s \<Longrightarrow> run_chunks feed s cs = (os, s') \<Longrightarrow>
   parse (pending s @ concat cs) = (os, pending s') \<and> invar s'"
proof (induction cs arbitrary: s os)
  case Nil
  then show ?case by (simp add: parse_pending)
next
  case (Cons c cs)
  obtain os1 s1 where f: "feed s c = (os1, s1)" by fastforce
  obtain os2 where r: "run_chunks feed s1 cs = (os2, s')" and os: "os = os1 @ os2"
    using Cons.prems(2) f by (auto split: prod.splits)
  have "parse (pending s1 @ concat cs) = (os2, pending s') \<and> invar s'"
    using Cons.IH feed_invar [OF Cons.prems(1) f] r by blast
  moreover have "parse (pending s @ c) = (os1, pending s1)"
    by (rule feed_parse [OF Cons.prems(1) f])
  ultimately show ?case using parse_append os by fastforce
qed

text \<open>How the input is cut into chunks does not matter.\<close>

lemma run_chunks_concat:
  assumes "invar s" and "run_chunks feed s cs = (os, s1)" and "feed s (concat cs) = (os', s2)"
  shows "os = os' \<and> pending s1 = pending s2 \<and> invar s1"
  using run_chunks_parse [OF assms(1,2)] feed_parse [OF assms(1,3)] by simp

end

section \<open>Mutually inverse indexes\<close>

text \<open>Two partial maps that are each other's converse, such as an index and the entries it points to.\<close>

definition inverse_maps :: "('k \<Rightarrow> 'i option) \<Rightarrow> ('i \<Rightarrow> 'k option) \<Rightarrow> bool" where
  "inverse_maps f g \<longleftrightarrow> (\<forall>k i. f k = Some i \<longleftrightarrow> g i = Some k)"

lemma inverse_mapsD: "inverse_maps f g \<Longrightarrow> f k = Some i \<longleftrightarrow> g i = Some k"
  by (simp add: inverse_maps_def)

lemma inverse_maps_empty: "inverse_maps (\<lambda>_. None) (\<lambda>_. None)"
  by (simp add: inverse_maps_def)

lemma inverse_maps_inj: "inverse_maps f g \<Longrightarrow> g i = Some k \<Longrightarrow> g j = Some k \<Longrightarrow> i = j"
  using inverse_mapsD [of f g k i] inverse_mapsD [of f g k j] by simp

lemma inverse_maps_free:
  assumes "inverse_maps f g"
  shows "f k = None \<longleftrightarrow> k \<notin> ran g"
  using inverse_mapsD [OF assms, symmetric] by (cases "f k") (simp_all add: ran_def)

lemma inverse_maps_insert:
  assumes "inverse_maps f g" and "f k = None" and "g i = None"
  shows "inverse_maps (f(k \<mapsto> i)) (g(i \<mapsto> k))"
  unfolding inverse_maps_def
proof (intro allI)
  fix k' i'
  show "(f(k \<mapsto> i)) k' = Some i' \<longleftrightarrow> (g(i \<mapsto> k)) i' = Some k'"
    using inverse_mapsD [OF assms(1), of k' i'] assms(2,3)
    by (cases "k' = k"; cases "i' = i") auto
qed

lemma inverse_maps_delete:
  assumes "inverse_maps f g" and "g i = Some k"
  shows "inverse_maps (f(k := None)) (g(i := None))"
  unfolding inverse_maps_def
proof (intro allI)
  fix k' i'
  show "(f(k := None)) k' = Some i' \<longleftrightarrow> (g(i := None)) i' = Some k'"
    using inverse_mapsD [OF assms(1), of k' i'] inverse_maps_inj [OF assms(1), of i k i'] assms(2)
    by (cases "k' = k"; cases "i' = i") auto
qed

lemma inverse_maps_rename:
  assumes "inverse_maps f g" and "g i = Some k" and "f k' = None"
  shows "inverse_maps (f(k := None, k' \<mapsto> i)) (g(i \<mapsto> k'))"
  using inverse_maps_insert [OF inverse_maps_delete [OF assms(1,2)], of k' i] assms(3) by simp

section \<open>State machines\<close>

text \<open>The contract of a component with state: an invariant that its initial states have and every step
  keeps.  It then holds in every reachable state.\<close>

locale state_machine =
  fixes init :: "'s \<Rightarrow> bool"
    and step :: "'s \<Rightarrow> 's \<Rightarrow> bool"
    and inv :: "'s \<Rightarrow> bool"
  assumes init_inv: "init s \<Longrightarrow> inv s"
    and step_inv: "inv s \<Longrightarrow> step s s' \<Longrightarrow> inv s'"
begin

lemma steps_inv: "step\<^sup>*\<^sup>* s s' \<Longrightarrow> inv s \<Longrightarrow> inv s'"
  by (induction rule: rtranclp_induct) (auto intro: step_inv)

lemma reachable_inv: "init s \<Longrightarrow> step\<^sup>*\<^sup>* s s' \<Longrightarrow> inv s'"
  using init_inv steps_inv by blast

end

end
