(* ===== verification/Grpc_Buffer.thy ===== *)
theory Grpc_Buffer
  imports Prelude
begin

text \<open>
  The frame layer of the crate \<open>grpc-stream\<close> (\<open>frame.rs\<close>, \<open>buffer.rs\<close>): raw frames, the receive
  buffer with its read cursor, and the iterator that cuts complete frames off the front of the
  unread bytes.  \<open>parse_frames\<close> is the reference definition of framing on a plain byte list; the
  iterator is shown to compute it, and to report its exact length.
\<close>

section \<open>Frames and the buffer\<close>

record raw_message =
  msg_type :: u8
  msg_data :: bytes

definition total_size :: "raw_message \<Rightarrow> usize" where
  "total_size m = 5 + length (msg_data m)"

record buffer =
  buf_inner :: bytes
  buf_cursor :: usize

definition buffer_new :: buffer where
  "buffer_new = \<lparr>buf_inner = [], buf_cursor = 0\<rparr>"

text \<open>A capacity is only a hint to the allocator.\<close>

definition buffer_with_capacity :: "usize \<Rightarrow> buffer" where
  "buffer_with_capacity capacity = \<lparr>buf_inner = [], buf_cursor = 0\<rparr>"

text \<open>\<open>unchecked_sub\<close> is defined only while the cursor is inside the vector; \<open>buffer_wf\<close> below is
  that condition, and every operation of the decoder keeps it.\<close>

definition buffer_len :: "buffer \<Rightarrow> usize" where
  "buffer_len b = length (buf_inner b) - buf_cursor b"

definition buffer_is_empty :: "buffer \<Rightarrow> bool" where
  "buffer_is_empty b \<longleftrightarrow> buffer_len b = 0"

definition try_reclaim :: "buffer \<Rightarrow> buffer" where
  "try_reclaim b = (if buffer_is_empty b then b\<lparr>buf_inner := [], buf_cursor := 0\<rparr> else b)"

definition extend_from_slice :: "buffer \<Rightarrow> bytes \<Rightarrow> buffer" where
  "extend_from_slice b data =
     (let b' = try_reclaim b in b'\<lparr>buf_inner := buf_inner b' @ data\<rparr>)"

definition advance_unchecked :: "buffer \<Rightarrow> usize \<Rightarrow> buffer" where
  "advance_unchecked b cnt = b\<lparr>buf_cursor := buf_cursor b + cnt\<rparr>"

definition buffer_as_ref :: "buffer \<Rightarrow> bytes" where
  "buffer_as_ref b = drop (buf_cursor b) (buf_inner b)"

definition buffer_wf :: "buffer \<Rightarrow> bool" where
  "buffer_wf b \<longleftrightarrow> buf_cursor b \<le> length (buf_inner b)"

section \<open>The frame iterator\<close>

record message_iter =
  it_buffer :: bytes
  it_offset :: usize

definition buffer_into_iter :: "buffer \<Rightarrow> message_iter" where
  "buffer_into_iter b = \<lparr>it_buffer = buffer_as_ref b, it_offset = 0\<rparr>"

text \<open>The big-endian length field at \<open>offset + 1\<close>.\<close>

definition frame_len_at :: "bytes \<Rightarrow> usize \<Rightarrow> usize" where
  "frame_len_at b offset = unat (u32_from_be_bytes (take 4 (drop (offset + 1) b)))"

definition iter_next :: "message_iter \<Rightarrow> raw_message option \<times> message_iter" where
  "iter_next it =
     (if it_offset it + 5 > length (it_buffer it) then (None, it)
      else
        let ty = it_buffer it ! it_offset it;
            msg_len = frame_len_at (it_buffer it) (it_offset it)
        in if it_offset it + 5 + msg_len > length (it_buffer it) then (None, it)
           else
             let off = it_offset it + 5;
                 data = take msg_len (drop off (it_buffer it))
             in (Some \<lparr>msg_type = ty, msg_data = data\<rparr>, it\<lparr>it_offset := off + msg_len\<rparr>))"

text \<open>The counting loop of \<open>ExactSizeIterator::len\<close>.\<close>

function iter_len_loop :: "bytes \<Rightarrow> usize \<Rightarrow> usize \<Rightarrow> usize" where
  "iter_len_loop b offset count =
     (if offset + 5 \<le> length b then
        let msg_len = frame_len_at b offset
        in if offset + 5 + msg_len > length b then count
           else iter_len_loop b (offset + (5 + msg_len)) (count + 1)
      else count)"
  by pat_completeness auto
termination
  by (relation "measure (\<lambda>(b, offset, count). length b - offset)") auto

definition iter_len :: "message_iter \<Rightarrow> usize" where
  "iter_len it = iter_len_loop (it_buffer it) (it_offset it) 0"

definition iter_size_hint :: "message_iter \<Rightarrow> usize \<times> usize option" where
  "iter_size_hint it = (let count = iter_len it in (count, Some count))"

declare iter_len_loop.simps [simp del]

section \<open>Reference framing\<close>

text \<open>Complete frames at the front of a byte list, and the bytes that are left.\<close>

function parse_frames :: "bytes \<Rightarrow> raw_message list \<times> bytes" where
  "parse_frames bs =
     (if length bs < 5 then ([], bs)
      else let n = frame_len_at bs 0 in
        if length bs < 5 + n then ([], bs)
        else let (ms, rest) = parse_frames (drop (5 + n) bs)
             in (\<lparr>msg_type = bs ! 0, msg_data = take n (drop 5 bs)\<rparr> # ms, rest))"
  by pat_completeness auto
termination
  by (relation "measure length") auto

declare parse_frames.simps [simp del]

text \<open>Byte image of one frame.\<close>

definition frame_bytes :: "raw_message \<Rightarrow> bytes" where
  "frame_bytes m = msg_type m # u32_to_be_bytes (of_nat (length (msg_data m))) @ msg_data m"

section \<open>Facts about the reference framing\<close>

lemma frame_len_at_append [simp]:
  "offset + 5 \<le> length xs \<Longrightarrow> frame_len_at (xs @ ys) offset = frame_len_at xs offset"
  by (simp add: frame_len_at_def)

lemma frame_len_at_drop: "frame_len_at (drop k bs) 0 = frame_len_at bs k"
  by (simp add: frame_len_at_def add.commute)

lemma parse_frames_short: "length bs < 5 \<Longrightarrow> parse_frames bs = ([], bs)"
  by (simp add: parse_frames.simps)

lemma parse_frames_partial:
  "length bs < 5 + frame_len_at bs 0 \<Longrightarrow> parse_frames bs = ([], bs)"
  by (subst parse_frames.simps) (simp add: Let_def)

lemma parse_frames_step:
  assumes "5 \<le> length bs" and "5 + frame_len_at bs 0 \<le> length bs"
    and "parse_frames (drop (5 + frame_len_at bs 0) bs) = (ms, rest)"
  shows "parse_frames bs =
    (\<lparr>msg_type = bs ! 0, msg_data = take (frame_len_at bs 0) (drop 5 bs)\<rparr> # ms, rest)"
  using assms by (subst parse_frames.simps) (simp add: Let_def)

lemma parse_frames_append:
  "parse_frames xs = (ms, rest) \<Longrightarrow> parse_frames (rest @ ys) = (ms', rest') \<Longrightarrow>
   parse_frames (xs @ ys) = (ms @ ms', rest')"
proof (induction xs arbitrary: ms rule: parse_frames.induct)
  case (1 xs)
  let ?n = "frame_len_at xs 0"
  show ?case
  proof (cases "5 \<le> length xs \<and> 5 + ?n \<le> length xs")
    case True
    then obtain ms1 where ms1: "parse_frames (drop (5 + ?n) xs) = (ms1, rest)"
      and ms: "ms = \<lparr>msg_type = xs ! 0, msg_data = take ?n (drop 5 xs)\<rparr> # ms1"
      using "1.prems"(1) by (subst (asm) parse_frames.simps) (auto simp: Let_def split: prod.splits)
    have "parse_frames (drop (5 + ?n) xs @ ys) = (ms1 @ ms', rest')"
      by (rule "1.IH") (use True ms1 "1.prems"(2) in auto)
    then show ?thesis
      using True ms by (subst parse_frames_step) (auto simp: nth_append)
  next
    case False
    then have "parse_frames xs = ([], xs)"
      using parse_frames_short parse_frames_partial by (meson not_le)
    with "1.prems" show ?thesis by simp
  qed
qed

lemma parse_frames_rest_length: "parse_frames bs = (ms, rest) \<Longrightarrow> length rest \<le> length bs"
proof (induction bs arbitrary: ms rule: parse_frames.induct)
  case (1 bs)
  show ?case
  proof (cases "5 \<le> length bs \<and> 5 + frame_len_at bs 0 \<le> length bs")
    case True
    then obtain ms1 where "parse_frames (drop (5 + frame_len_at bs 0) bs) = (ms1, rest)"
      using "1.prems" by (subst (asm) parse_frames.simps) (auto simp: Let_def split: prod.splits)
    with True "1.IH" have "length rest \<le> length (drop (5 + frame_len_at bs 0) bs)"
      by (meson not_le)
    then show ?thesis by simp
  next
    case False
    with "1.prems" show ?thesis
      by (subst (asm) parse_frames.simps) (auto simp: Let_def split: if_splits)
  qed
qed

text \<open>A frame's byte image parses back to the frame, whatever follows it.\<close>

lemma parse_frames_frame:
  assumes "length (msg_data m) < 2 ^ 32" and "parse_frames rest = (ms, r)"
  shows "parse_frames (frame_bytes m @ rest) = (m # ms, r)"
proof -
  let ?w = "of_nat (length (msg_data m)) :: u32"
  have n: "frame_len_at (frame_bytes m @ rest) 0 = length (msg_data m)"
    using assms(1) by (simp add: frame_len_at_def frame_bytes_def unsigned_of_nat take_bit_nat_eq_self)
  have d: "drop (Suc (Suc (Suc (Suc 0)))) (u32_to_be_bytes ?w) = []"
    by simp
  show ?thesis
    using assms(2) by (subst parse_frames_step)
      (simp_all add: n, simp_all add: frame_bytes_def d eval_nat_numeral)
qed

section \<open>The iterator computes the reference framing\<close>

lemma iter_next_None:
  "iter_next it = (None, it') \<Longrightarrow>
   it' = it \<and> parse_frames (drop (it_offset it) (it_buffer it)) = ([], drop (it_offset it) (it_buffer it))"
  by (auto simp: iter_next_def Let_def frame_len_at_drop split: if_splits
      intro!: parse_frames_short parse_frames_partial)

lemma iter_next_Some:
  assumes "iter_next it = (Some m, it')"
    and "parse_frames (drop (it_offset it') (it_buffer it')) = (ms, rest)"
  shows "parse_frames (drop (it_offset it) (it_buffer it)) = (m # ms, rest)"
    and "it_buffer it' = it_buffer it"
    and "it_offset it' = it_offset it + total_size m"
    and "it_offset it' \<le> length (it_buffer it)"
proof -
  let ?b = "it_buffer it" and ?o = "it_offset it"
  let ?n = "frame_len_at ?b ?o"
  from assms(1) have le: "?o + 5 + ?n \<le> length ?b"
    and m: "m = \<lparr>msg_type = ?b ! ?o, msg_data = take ?n (drop (?o + 5) ?b)\<rparr>"
    and it': "it' = it\<lparr>it_offset := ?o + 5 + ?n\<rparr>"
    by (auto simp: iter_next_def Let_def split: if_splits)
  show "parse_frames (drop ?o ?b) = (m # ms, rest)"
    using le assms(2) unfolding it' m
    by (subst parse_frames_step) (simp_all add: frame_len_at_drop add.commute add.left_commute)
  show "it_buffer it' = ?b" "it_offset it' = ?o + total_size m" "it_offset it' \<le> length ?b"
    using le by (simp_all add: it' m total_size_def)
qed

lemma iter_next_progress:
  "iter_next it = (Some m, it') \<Longrightarrow>
   it_buffer it' = it_buffer it \<and> it_offset it < it_offset it' \<and> it_offset it' \<le> length (it_buffer it)"
  by (auto simp: iter_next_def Let_def split: if_splits)

lemma iter_len_loop_eq:
  "iter_len_loop b offset count = count + length (fst (parse_frames (drop offset b)))"
proof (induction b offset count rule: iter_len_loop.induct)
  case (1 b offset count)
  let ?n = "frame_len_at b offset"
  show ?case
  proof (cases "offset + 5 \<le> length b \<and> offset + 5 + ?n \<le> length b")
    case True
    obtain ms r where p: "parse_frames (drop (offset + (5 + ?n)) b) = (ms, r)"
      by fastforce
    then have "parse_frames (drop offset b) =
        (\<lparr>msg_type = drop offset b ! 0, msg_data = take ?n (drop 5 (drop offset b))\<rparr> # ms, r)"
      using True by (intro parse_frames_step [of "drop offset b" ms r, unfolded frame_len_at_drop])
        (auto simp: ac_simps)
    moreover have "iter_len_loop b offset count = iter_len_loop b (offset + (5 + ?n)) (count + 1)"
      using True by (subst iter_len_loop.simps) (simp add: Let_def)
    moreover have "iter_len_loop b (offset + (5 + ?n)) (count + 1) = count + 1 + length ms"
      using "1.IH" True p by simp
    ultimately show ?thesis by simp
  next
    case False
    then have "length (drop offset b) < 5 \<or> length (drop offset b) < 5 + frame_len_at (drop offset b) 0"
      by (simp only: frame_len_at_drop length_drop) linarith
    then have "parse_frames (drop offset b) = ([], drop offset b)"
      using parse_frames_short parse_frames_partial by blast
    with False show ?thesis
      by (subst iter_len_loop.simps) (auto simp: Let_def)
  qed
qed

lemma buffer_len_ref: "buffer_len b = length (buffer_as_ref b)"
  by (simp add: buffer_len_def buffer_as_ref_def)

lemma buffer_as_ref_extend [simp]:
  "buffer_wf b \<Longrightarrow> buffer_as_ref (extend_from_slice b data) = buffer_as_ref b @ data"
  by (auto simp: buffer_as_ref_def extend_from_slice_def try_reclaim_def buffer_is_empty_def
      buffer_len_def buffer_wf_def Let_def)

lemma buffer_wf_extend [simp]: "buffer_wf b \<Longrightarrow> buffer_wf (extend_from_slice b data)"
  by (auto simp: buffer_wf_def extend_from_slice_def try_reclaim_def Let_def)

lemma buffer_wf_advance:
  "buffer_wf b \<Longrightarrow> cnt \<le> length (buffer_as_ref b) \<Longrightarrow> buffer_wf (advance_unchecked b cnt)"
  by (auto simp: buffer_wf_def advance_unchecked_def buffer_as_ref_def)

lemma buffer_as_ref_advance [simp]:
  "buffer_as_ref (advance_unchecked b cnt) = drop cnt (buffer_as_ref b)"
  by (simp add: buffer_as_ref_def advance_unchecked_def add.commute)

lemma buffer_new_simps [simp]:
  "buffer_wf buffer_new" "buffer_as_ref buffer_new = []"
  by (simp_all add: buffer_wf_def buffer_new_def buffer_as_ref_def)

end
