(* ===== verification/Grpc_Decoder.thy ===== *)
theory Grpc_Decoder
  imports Grpc_Buffer
begin

text \<open>
  The streaming decoder of \<open>grpc-stream\<close> (\<open>decoder.rs\<close>, \<open>compression.rs\<close>) and the framed encoder
  of \<open>src/common/utils/proto_encode.rs\<close> that produces what it reads.  The protobuf codec of a
  message type (\<open>prost\<close>) and the deflate codec (\<open>flate2\<close>) are parameters; \<open>prost_contract\<close> and
  \<open>gzip_contract\<close> name what the code relies on of them.
\<close>

section \<open>Compression\<close>

definition MAX_DECOMPRESSED_SIZE_BYTES :: usize where
  "MAX_DECOMPRESSED_SIZE_BYTES = 0x400000"

text \<open>\<open>GzEncoder\<close> at level 6 writing into a vector cannot fail.\<close>

definition compress_gzip :: "(bytes \<Rightarrow> bytes) \<Rightarrow> bytes \<Rightarrow> bytes" where
  "compress_gzip gz_encode data = gz_encode data"

definition gzip_isize :: "bytes \<Rightarrow> usize" where
  "gzip_isize data = unat (u32_from_le_bytes (drop (length data - 4) data))"

definition decompress_gzip :: "(bytes \<Rightarrow> bytes option) \<Rightarrow> bytes \<Rightarrow> bytes option" where
  "decompress_gzip gz_read_to_end data =
     (if length data < 20 then None
      else if data ! 0 \<noteq> 0x1f \<or> data ! 1 \<noteq> 0x8b \<or> data ! 2 \<noteq> 0x08 then None
      else
        let capacity = gzip_isize data
        in if capacity > MAX_DECOMPRESSED_SIZE_BYTES then None
           else gz_read_to_end data)"

section \<open>Stream decoder\<close>

record stream_decoder =
  sd_buffer :: buffer

definition stream_decoder_new :: stream_decoder where
  "stream_decoder_new = \<lparr>sd_buffer = buffer_new\<rparr>"

text \<open>The loop \<open>for raw_msg in &mut iter\<close> of \<open>decode\<close>.\<close>

function decode_loop ::
    "(raw_message \<Rightarrow> 't option) \<Rightarrow> message_iter \<Rightarrow> 't list \<Rightarrow> 't list \<times> message_iter" where
  "decode_loop processor it messages =
     (case iter_next it of
        (None, it') \<Rightarrow> (messages, it')
      | (Some raw_msg, it') \<Rightarrow>
          decode_loop processor it'
            (case processor raw_msg of Some msg \<Rightarrow> messages @ [msg] | None \<Rightarrow> messages))"
  by pat_completeness auto
termination
  by (relation "measure (\<lambda>(p, it, ms). length (it_buffer it) - it_offset it)")
    (auto dest!: sym [of "(_, _)" "iter_next _"] iter_next_progress)

declare decode_loop.simps [simp del]

definition decode ::
    "(raw_message \<Rightarrow> 't option) \<Rightarrow> stream_decoder \<Rightarrow> bytes \<Rightarrow> 't list \<times> stream_decoder" where
  "decode processor self data =
     (let buffer = extend_from_slice (sd_buffer self) data;
          iter = buffer_into_iter buffer;
          (messages, iter') = decode_loop processor iter []
      in (messages, self\<lparr>sd_buffer := advance_unchecked buffer (it_offset iter')\<rparr>))"

definition decode_message :: "(bytes \<Rightarrow> 'm option) \<Rightarrow> bytes \<Rightarrow> 'm option" where
  "decode_message prost_decode data = prost_decode data"

definition decode_compressed_message ::
    "(bytes \<Rightarrow> bytes option) \<Rightarrow> (bytes \<Rightarrow> 'm option) \<Rightarrow> bytes \<Rightarrow> 'm option" where
  "decode_compressed_message gz_read_to_end prost_decode data =
     (case decompress_gzip gz_read_to_end data of
        None \<Rightarrow> None
      | Some decompressed \<Rightarrow> decode_message prost_decode decompressed)"

definition default_processor ::
    "(bytes \<Rightarrow> bytes option) \<Rightarrow> (bytes \<Rightarrow> 'm option) \<Rightarrow> raw_message \<Rightarrow> 'm option" where
  "default_processor gz_read_to_end prost_decode raw_msg =
     (if msg_type raw_msg = 0 then decode_message prost_decode (msg_data raw_msg)
      else if msg_type raw_msg = 1
        then decode_compressed_message gz_read_to_end prost_decode (msg_data raw_msg)
      else None)"

definition decode_default ::
    "(bytes \<Rightarrow> bytes option) \<Rightarrow> (bytes \<Rightarrow> 'm option) \<Rightarrow> stream_decoder \<Rightarrow> bytes \<Rightarrow>
     'm list \<times> stream_decoder" where
  "decode_default gz_read_to_end prost_decode self data =
     decode (default_processor gz_read_to_end prost_decode) self data"

section \<open>Framed encoder\<close>

datatype exceed_size_limit = ExceedSizeLimit

definition COMPRESSION_THRESHOLD :: usize where
  "COMPRESSION_THRESHOLD = 1024"

definition try_compress_if_beneficial :: "(bytes \<Rightarrow> bytes) \<Rightarrow> bytes \<Rightarrow> bytes option" where
  "try_compress_if_beneficial gz_encode data =
     (if length data \<le> COMPRESSION_THRESHOLD then None
      else
        let compressed = compress_gzip gz_encode data
        in if length compressed < length data then Some compressed else None)"

text \<open>\<open>encode_message\<close> lets the message write itself into a vector, which has undefined behaviour for some messages
  (\<open>Prost_Vec\<close>); \<open>encode_message_framed\<close> lets it write into a slice.\<close>

definition encode_message ::
    "(bytes \<Rightarrow> bytes) \<Rightarrow> ('m \<Rightarrow> usize) \<Rightarrow> ('m \<Rightarrow> bytes outcome) \<Rightarrow> 'm \<Rightarrow> (exceed_size_limit + bytes \<times> bool) outcome" where
  "encode_message gz_encode encoded_len encode_raw_vec message =
     (let estimated_size = encoded_len message
      in if estimated_size > MAX_DECOMPRESSED_SIZE_BYTES then Done (Inl ExceedSizeLimit)
         else bind_outcome (encode_raw_vec message) (\<lambda>encoded.
           case try_compress_if_beneficial gz_encode encoded of
             Some compressed \<Rightarrow> Done (Inr (compressed, True))
           | None \<Rightarrow> Done (Inr (encoded, False))))"

text \<open>The five header bytes are written in front of the body, which occupies
  \<open>estimated_size\<close> bytes, or the compressed length when the body was overwritten.\<close>

definition encode_message_framed ::
    "(bytes \<Rightarrow> bytes) \<Rightarrow> ('m \<Rightarrow> usize) \<Rightarrow> ('m \<Rightarrow> bytes) \<Rightarrow> 'm \<Rightarrow> exceed_size_limit + bytes" where
  "encode_message_framed gz_encode encoded_len encode_raw message =
     (let estimated_size = encoded_len message
      in if estimated_size > MAX_DECOMPRESSED_SIZE_BYTES then Inl ExceedSizeLimit
         else
           let body_slice = encode_raw message;
               (compression_flag, final_len, body) =
                 (case try_compress_if_beneficial gz_encode body_slice of
                    Some compressed \<Rightarrow> (0x01, length compressed, compressed)
                  | None \<Rightarrow> (0x00, estimated_size, body_slice))
           in Inr (compression_flag # u32_to_be_bytes (of_nat final_len) @ body))"

section \<open>What is relied on of the protobuf and deflate codecs\<close>

text \<open>\<open>prost\<close>: \<open>encoded_len\<close> is the number of bytes \<open>encode_raw\<close> writes, and decoding is its left
  inverse on the messages \<open>ok\<close>.  \<open>Message_Stream\<close> discharges it for the messages of the protocol.\<close>

definition prost_contract :: "('m \<Rightarrow> bool) \<Rightarrow> ('m \<Rightarrow> usize) \<Rightarrow> ('m \<Rightarrow> bytes) \<Rightarrow> (bytes \<Rightarrow> 'm option) \<Rightarrow> bool" where
  "prost_contract ok encoded_len encode_raw prost_decode \<longleftrightarrow>
     (\<forall>m. encoded_len m = length (encode_raw m)) \<and> (\<forall>m. ok m \<longrightarrow> prost_decode (encode_raw m) = Some m)"

text \<open>RFC 1952: a member starts with the magic bytes and the deflate method, is at least 20 bytes
  long and ends with the input length modulo \<open>2^32\<close> in little-endian order; reading it back gives
  the input.\<close>

definition gzip_contract :: "(bytes \<Rightarrow> bytes) \<Rightarrow> (bytes \<Rightarrow> bytes option) \<Rightarrow> bool" where
  "gzip_contract gz_encode gz_read_to_end \<longleftrightarrow>
     (\<forall>d. 20 \<le> length (gz_encode d) \<and> take 3 (gz_encode d) = [0x1f, 0x8b, 0x08]
        \<and> drop (length (gz_encode d) - 4) (gz_encode d) = u32_to_le_bytes (of_nat (length d))
        \<and> gz_read_to_end (gz_encode d) = Some d)"

section \<open>The decoder delivers the reference framing\<close>

lemma decode_loop_eq:
  assumes "parse_frames (drop (it_offset it) (it_buffer it)) = (ms, rest)"
    and "it_offset it \<le> length (it_buffer it)"
  shows "decode_loop p it acc =
    (acc @ List.map_filter p ms, it\<lparr>it_offset := length (it_buffer it) - length rest\<rparr>)"
  using assms
proof (induction p it acc arbitrary: ms rule: decode_loop.induct)
  case (1 p it acc)
  show ?case
  proof (cases "iter_next it")
    case (Pair o_m it')
    show ?thesis
    proof (cases o_m)
      case None
      with Pair iter_next_None [of it it'] "1.prems" show ?thesis
        by (subst decode_loop.simps) (auto simp: map_filter_simps)
    next
      case (Some m)
      obtain ms' r where p': "parse_frames (drop (it_offset it') (it_buffer it')) = (ms', r)"
        by fastforce
      note nx = iter_next_Some [OF Pair [unfolded Some] p']
      have eq: "m # ms' = ms" "r = rest" using nx(1) "1.prems"(1) by auto
      let ?acc = "case p m of Some msg \<Rightarrow> acc @ [msg] | None \<Rightarrow> acc"
      have "decode_loop p it' ?acc = (?acc @ List.map_filter p ms',
          it'\<lparr>it_offset := length (it_buffer it') - length rest\<rparr>)"
        by (rule "1.IH" [OF Pair [symmetric] Some]) (use p' nx eq in auto)
      moreover have "it'\<lparr>it_offset := k\<rparr> = it\<lparr>it_offset := k\<rparr>" for k
        using nx(2) by (cases it, cases it') simp
      ultimately show ?thesis
        using Pair Some eq nx(2) by (subst decode_loop.simps)
          (auto simp: map_filter_simps split: option.splits)
    qed
  qed
qed

definition parse_with :: "(raw_message \<Rightarrow> 't option) \<Rightarrow> bytes \<Rightarrow> 't list \<times> bytes" where
  "parse_with p bs = (let (ms, rest) = parse_frames bs in (List.map_filter p ms, rest))"

definition sd_pending :: "stream_decoder \<Rightarrow> bytes" where
  "sd_pending d = buffer_as_ref (sd_buffer d)"

text \<open>The cursor stays inside the vector and no complete frame is left unread.\<close>

definition sd_invar :: "stream_decoder \<Rightarrow> bool" where
  "sd_invar d \<longleftrightarrow> buffer_wf (sd_buffer d) \<and> parse_frames (sd_pending d) = ([], sd_pending d)"

lemma parse_frames_suffix:
  "parse_frames bs = (ms, rest) \<Longrightarrow> drop (length bs - length rest) bs = rest"
proof (induction bs arbitrary: ms rule: parse_frames.induct)
  case (1 bs)
  let ?n = "frame_len_at bs 0"
  show ?case
  proof (cases "5 \<le> length bs \<and> 5 + ?n \<le> length bs")
    case True
    then obtain ms1 where p: "parse_frames (drop (5 + ?n) bs) = (ms1, rest)"
      using "1.prems" by (subst (asm) parse_frames.simps) (auto simp: Let_def split: prod.splits)
    with True "1.IH" have
      "drop (length (drop (5 + ?n) bs) - length rest) (drop (5 + ?n) bs) = rest"
      by (meson not_le)
    moreover have "length (drop (5 + ?n) bs) - length rest + (5 + ?n) = length bs - length rest"
      using True parse_frames_rest_length [OF p] by (simp only: length_drop) linarith
    ultimately show ?thesis by (simp only: drop_drop)
  next
    case False
    with "1.prems" show ?thesis
      by (subst (asm) parse_frames.simps) (auto simp: Let_def split: if_splits)
  qed
qed

lemma parse_frames_rest_stuck: "parse_frames bs = (ms, rest) \<Longrightarrow> parse_frames rest = ([], rest)"
proof (induction bs arbitrary: ms rule: parse_frames.induct)
  case (1 bs)
  let ?n = "frame_len_at bs 0"
  show ?case
  proof (cases "5 \<le> length bs \<and> 5 + ?n \<le> length bs")
    case True
    then obtain ms1 where "parse_frames (drop (5 + ?n) bs) = (ms1, rest)"
      using "1.prems" by (subst (asm) parse_frames.simps) (auto simp: Let_def split: prod.splits)
    with True "1.IH" show ?thesis by (meson not_le)
  next
    case False
    then have "parse_frames bs = ([], bs)"
      using parse_frames_short parse_frames_partial by (meson not_le)
    with "1.prems" show ?thesis by simp
  qed
qed

lemma decode_eq:
  assumes "buffer_wf (sd_buffer d)" and "parse_frames (sd_pending d @ data) = (ms, rest)"
  shows "\<exists>d'. decode p d data = (List.map_filter p ms, d') \<and> sd_pending d' = rest
    \<and> buffer_wf (sd_buffer d')"
proof -
  let ?b = "extend_from_slice (sd_buffer d) data"
  let ?it = "buffer_into_iter ?b"
  have it: "it_buffer ?it = sd_pending d @ data" "it_offset ?it = 0"
    using assms(1) by (simp_all add: buffer_into_iter_def sd_pending_def)
  have "decode_loop p ?it [] = (List.map_filter p ms,
      ?it\<lparr>it_offset := length (sd_pending d @ data) - length rest\<rparr>)"
    using decode_loop_eq [of ?it ms rest p "[]"] assms(2) it by simp
  then show ?thesis
    using assms parse_frames_suffix [OF assms(2)]
    by (auto simp: decode_def Let_def sd_pending_def intro!: buffer_wf_advance)
qed

interpretation sd: incremental_decoder "decode p" sd_pending sd_invar "parse_with p"
  for p :: "raw_message \<Rightarrow> 't option"
proof unfold_locales
  fix s d os s'
  assume s: "sd_invar s" and f: "decode p s d = (os, s')"
  obtain ms rest where pf: "parse_frames (sd_pending s @ d) = (ms, rest)" by fastforce
  with decode_eq [of s d ms rest p] s f
  have *: "os = List.map_filter p ms" "sd_pending s' = rest" "buffer_wf (sd_buffer s')"
    by (auto simp: sd_invar_def)
  with pf show "parse_with p (sd_pending s @ d) = (os, sd_pending s')"
    by (simp add: parse_with_def)
  from * pf show "sd_invar s'"
    by (simp add: sd_invar_def parse_frames_rest_stuck)
next
  fix xs os r ys os' r'
  assume "parse_with p xs = (os, r)" and "parse_with p (r @ ys) = (os', r')"
  then show "parse_with p (xs @ ys) = (os @ os', r')"
    using parse_frames_append [of xs _ r ys _ r']
    by (fastforce simp: parse_with_def map_filter_def split: prod.splits)
next
  fix s assume "sd_invar s"
  then show "parse_with p (sd_pending s) = ([], sd_pending s)"
    by (simp add: parse_with_def sd_invar_def map_filter_simps)
qed

lemma stream_decoder_new_simps [simp]:
  "sd_invar stream_decoder_new" "sd_pending stream_decoder_new = []"
  by (simp_all add: sd_invar_def sd_pending_def stream_decoder_new_def parse_frames_short)

section \<open>Framing and compression facts\<close>

lemma gzip_contractD:
  assumes "gzip_contract gz_encode gz_read_to_end" and "length d \<le> MAX_DECOMPRESSED_SIZE_BYTES"
  shows "decompress_gzip gz_read_to_end (compress_gzip gz_encode d) = Some d"
proof -
  let ?z = "gz_encode d"
  from assms(1) have len: "20 \<le> length ?z" and magic: "take 3 ?z = [0x1f, 0x8b, 0x08]"
    and tail: "drop (length ?z - 4) ?z = u32_to_le_bytes (of_nat (length d))"
    and rd: "gz_read_to_end ?z = Some d"
    by (auto simp: gzip_contract_def)
  have "?z ! i = take 3 ?z ! i" if "i < 3" for i using that by simp
  then have "?z ! 0 = 0x1f" "?z ! 1 = 0x8b" "?z ! 2 = 0x08"
    unfolding magic by simp_all
  moreover have "gzip_isize ?z = length d"
    using assms(2) by (simp add: gzip_isize_def tail unsigned_of_nat take_bit_nat_eq_self
        MAX_DECOMPRESSED_SIZE_BYTES_def)
  ultimately show ?thesis
    using len rd assms(2) by (simp add: decompress_gzip_def compress_gzip_def Let_def)
qed

lemma encode_message_framed_frame:
  assumes "prost_contract ok encoded_len encode_raw prost_decode"
    and "encode_message_framed gz_encode encoded_len encode_raw m = Inr f"
  obtains ty body where "f = frame_bytes \<lparr>msg_type = ty, msg_data = body\<rparr>"
    and "length body \<le> MAX_DECOMPRESSED_SIZE_BYTES"
    and "ty = 0 \<and> body = encode_raw m \<or>
      ty = 1 \<and> body = compress_gzip gz_encode (encode_raw m)"
    and "length (encode_raw m) \<le> MAX_DECOMPRESSED_SIZE_BYTES"
  using assms
  by (auto simp: encode_message_framed_def prost_contract_def Let_def frame_bytes_def
      try_compress_if_beneficial_def split: if_splits option.splits)

lemma default_processor_frame:
  assumes "prost_contract ok encoded_len encode_raw prost_decode"
    and "gzip_contract gz_encode gz_read_to_end"
    and "encode_message_framed gz_encode encoded_len encode_raw m = Inr f" and "ok m"
  obtains r where "f = frame_bytes r" and "length (msg_data r) < 2 ^ 32"
    and "default_processor gz_read_to_end prost_decode r = Some m"
proof (rule encode_message_framed_frame [OF assms(1,3)])
  fix ty body
  assume *: "f = frame_bytes \<lparr>msg_type = ty, msg_data = body\<rparr>"
    "length body \<le> MAX_DECOMPRESSED_SIZE_BYTES"
    "ty = 0 \<and> body = encode_raw m \<or> ty = 1 \<and> body = compress_gzip gz_encode (encode_raw m)"
    "length (encode_raw m) \<le> MAX_DECOMPRESSED_SIZE_BYTES"
  have "default_processor gz_read_to_end prost_decode \<lparr>msg_type = ty, msg_data = body\<rparr> = Some m"
    using * assms(1,4) gzip_contractD [OF assms(2) *(4)]
    by (auto simp: default_processor_def decode_message_def decode_compressed_message_def
        prost_contract_def)
  with * show thesis
    by (intro that) (auto simp: MAX_DECOMPRESSED_SIZE_BYTES_def)
qed

section \<open>Properties\<close>

text \<open>C6: the messages a fresh decoder delivers, and the bytes it keeps for later, do not depend on
  how the transport cuts the byte stream into chunks; they are those of the reference framing.\<close>

theorem decode_chunking:
  "fst (run_chunks (decode p) stream_decoder_new cs) = fst (decode p stream_decoder_new (concat cs)) \<and>
   fst (run_chunks (decode p) stream_decoder_new cs) =
     List.map_filter p (fst (parse_frames (concat cs))) \<and>
   sd_pending (snd (run_chunks (decode p) stream_decoder_new cs)) = snd (parse_frames (concat cs)) \<and>
   buffer_wf (sd_buffer (snd (run_chunks (decode p) stream_decoder_new cs)))"
proof -
  obtain os s1 os' s2 where r: "run_chunks (decode p) stream_decoder_new cs = (os, s1)"
    and f: "decode p stream_decoder_new (concat cs) = (os', s2)" by fastforce
  from sd.run_chunks_concat [OF stream_decoder_new_simps(1) r f]
  have "os = os'" "sd_invar s1" by simp_all
  moreover from sd.run_chunks_parse [OF stream_decoder_new_simps(1) r]
  have "parse_with p (concat cs) = (os, sd_pending s1)" by simp
  ultimately show ?thesis
    using r f by (auto simp: parse_with_def sd_invar_def split: prod.splits)
qed

lemma parse_frames_frames:
  assumes "list_all (\<lambda>r. length (msg_data r) < 2 ^ 32) rs"
  shows "parse_frames (concat (map frame_bytes rs)) = (rs, [])"
  using assms
  by (induction rs) (simp_all add: parse_frames_short parse_frames_frame)

lemma framed_stream_frames:
  assumes "prost_contract ok encoded_len encode_raw prost_decode"
    and "gzip_contract gz_encode gz_read_to_end"
    and "list_all2 (\<lambda>m f. encode_message_framed gz_encode encoded_len encode_raw m = Inr f) ms fs" and "list_all ok ms"
  obtains rs where "fs = map frame_bytes rs"
    and "list_all (\<lambda>r. length (msg_data r) < 2 ^ 32) rs"
    and "List.map_filter (default_processor gz_read_to_end prost_decode) rs = ms"
  using assms(3,4)
proof (induction ms fs arbitrary: thesis rule: list_all2_induct)
  case Nil
  show ?case by (rule Nil(1) [of "[]"]) (simp_all add: map_filter_simps)
next
  case (Cons m ms f fs)
  obtain rs where "fs = map frame_bytes rs" "list_all (\<lambda>r. length (msg_data r) < 2 ^ 32) rs"
    "List.map_filter (default_processor gz_read_to_end prost_decode) rs = ms"
    using Cons.IH Cons.prems(2) by auto
  moreover obtain r where "f = frame_bytes r" "length (msg_data r) < 2 ^ 32"
    "default_processor gz_read_to_end prost_decode r = Some m"
    using default_processor_frame [OF assms(1,2) Cons.hyps(1)] Cons.prems(2) by auto
  ultimately show ?case by (intro Cons.prems(1) [of "r # rs"]) (simp_all add: map_filter_simps)
qed

text \<open>Whatever sequence of messages is framed by the encoder (compressed or not), and however the frames
  are cut into chunks on the way, the default decoder delivers exactly that sequence.\<close>

lemma framed_stream_decode:
  assumes "prost_contract ok encoded_len encode_raw prost_decode"
    and "gzip_contract gz_encode gz_read_to_end"
    and "list_all2 (\<lambda>m f. encode_message_framed gz_encode encoded_len encode_raw m = Inr f) ms fs"
    and "list_all ok ms" and "concat cs = concat fs"
  shows "fst (run_chunks (decode_default gz_read_to_end prost_decode) stream_decoder_new cs) = ms \<and>
    sd_pending (snd (run_chunks (decode_default gz_read_to_end prost_decode) stream_decoder_new cs)) = []"
proof -
  let ?p = "default_processor gz_read_to_end prost_decode"
  obtain rs where rs: "fs = map frame_bytes rs"
    "list_all (\<lambda>r. length (msg_data r) < 2 ^ 32) rs" "List.map_filter ?p rs = ms"
    using framed_stream_frames [OF assms(1-4)] by blast
  have dd: "decode_default gz_read_to_end prost_decode = decode ?p"
    by (intro ext) (simp add: decode_default_def)
  obtain os s1 where r: "run_chunks (decode ?p) stream_decoder_new cs = (os, s1)" by fastforce
  from sd.run_chunks_parse [OF stream_decoder_new_simps(1) r]
  have "parse_with ?p (concat cs) = (os, sd_pending s1)" by simp
  moreover have "parse_with ?p (concat cs) = (ms, [])"
    using rs assms(5) by (simp add: parse_with_def parse_frames_frames)
  ultimately show ?thesis using r dd by simp
qed

text \<open>A gzip member that stores its input, to evaluate the codecs on.\<close>

definition stored_gz_encode :: "bytes \<Rightarrow> bytes" where
  "stored_gz_encode d = [0x1f, 0x8b, 0x08] @ replicate 13 0 @ d @ u32_to_le_bytes (of_nat (length d))"

definition stored_gz_read :: "bytes \<Rightarrow> bytes option" where
  "stored_gz_read z = Some (take (length z - 20) (drop 16 z))"

lemma stored_gz_contract: "gzip_contract stored_gz_encode stored_gz_read"
  by (simp add: gzip_contract_def stored_gz_encode_def stored_gz_read_def numeral_eq_Suc)

lemma iter_next_stuck:
  assumes "parse_frames (drop (it_offset it) (it_buffer it)) = ([], rest)"
  shows "iter_next it = (None, it)"
proof (cases "iter_next it")
  case (Pair o_m it')
  obtain ms r where "parse_frames (drop (it_offset it') (it_buffer it')) = (ms, r)" by fastforce
  with assms Pair iter_next_Some(1) [of it _ it' ms r] have "o_m = None"
    by (cases o_m) auto
  with Pair iter_next_None [of it it'] show ?thesis by simp
qed

lemma map_filter_Some [simp]: "List.map_filter Some xs = xs"
  by (induction xs) (simp_all add: map_filter_simps)

text \<open>The exact-size iterator reports the number of frames it still yields, and is fused: once
  it has run dry it stays dry.\<close>

theorem iter_len_exact:
  "iter_len it = length (fst (decode_loop Some it [])) \<and>
   iter_next (snd (decode_loop Some it [])) = (None, snd (decode_loop Some it []))"
proof (cases "it_offset it \<le> length (it_buffer it)")
  case True
  let ?b = "it_buffer it" and ?o = "it_offset it"
  obtain ms rest where p: "parse_frames (drop ?o ?b) = (ms, rest)" by fastforce
  let ?it = "it\<lparr>it_offset := length ?b - length rest\<rparr>"
  have loop: "decode_loop Some it [] = (ms, ?it)"
    using decode_loop_eq [OF p True, of Some "[]"] by simp
  have "length ?b - ?o - length rest + ?o = length ?b - length rest"
    using True parse_frames_rest_length [OF p] by simp
  then have "drop (length ?b - length rest) ?b = rest"
    using parse_frames_suffix [OF p] by (simp add: add.commute)
  then have "iter_next ?it = (None, ?it)"
    using parse_frames_rest_stuck [OF p] by (intro iter_next_stuck) simp
  with loop p show ?thesis
    by (simp add: iter_len_def iter_len_loop_eq)
next
  case False
  then have "iter_next it = (None, it)" by (simp add: iter_next_def)
  with False show ?thesis
    by (subst (1 2 3) decode_loop.simps)
      (simp add: iter_len_def iter_len_loop_eq parse_frames_short)
qed

text \<open>A gzip body is only inflated when it is at least 20 bytes long, carries the deflate magic
  and declares at most 4 MiB; what comes out has the declared length modulo \<open>2^32\<close>, provided the
  reader checks the trailer as RFC 1952 requires.\<close>

theorem decompress_gzip_guard:
  assumes "\<forall>z out. gz_read_to_end z = Some out \<longrightarrow> length out mod 2 ^ 32 = gzip_isize z"
    and "decompress_gzip gz_read_to_end data = Some out"
  shows "20 \<le> length data \<and> take 3 data = [0x1f, 0x8b, 0x08] \<and>
    (length out \<le> MAX_DECOMPRESSED_SIZE_BYTES \<or> 2 ^ 32 \<le> length out)"
proof -
  from assms(2) have len: "20 \<le> length data"
    and magic: "data ! 0 = 0x1f" "data ! 1 = 0x8b" "data ! 2 = 0x08"
    and cap: "gzip_isize data \<le> MAX_DECOMPRESSED_SIZE_BYTES"
    and rd: "gz_read_to_end data = Some out"
    by (auto simp: decompress_gzip_def Let_def split: if_splits)
  have "take 3 data = [data ! 0, data ! 1, data ! 2]"
    using len by (intro take3_nth) simp
  moreover have "length out \<le> MAX_DECOMPRESSED_SIZE_BYTES \<or> 2 ^ 32 \<le> length out"
    using assms(1) rd cap by (metis linorder_not_le mod_less)
  ultimately show ?thesis using len magic by simp
qed

lemma gzip_isize_stored: "gzip_isize (stored_gz_encode d) = length d mod 2 ^ 32"
proof -
  let ?x = "[0x1f, 0x8b, 0x08] @ replicate 13 0 @ d" and ?t = "u32_to_le_bytes (of_nat (length d))"
  have "stored_gz_encode d = ?x @ ?t" by (simp add: stored_gz_encode_def)
  moreover have "drop (length (?x @ ?t) - 4) (?x @ ?t) = ?t"
    by (simp del: append.simps append_assoc)
  ultimately show ?thesis
    by (simp only: gzip_isize_def u32_le_roundtrip) (simp add: unsigned_of_nat take_bit_eq_mod)
qed

theorem decompress_gzip_guard_witness:
  "20 \<le> length (stored_gz_encode [1, 2]) \<and> take 3 (stored_gz_encode [1, 2]) = [0x1f, 0x8b, 0x08] \<and>
    (length [1, 2 :: u8] \<le> MAX_DECOMPRESSED_SIZE_BYTES \<or> 2 ^ 32 \<le> length [1, 2 :: u8])"
proof (rule decompress_gzip_guard)
  let ?rd = "\<lambda>z. if z = stored_gz_encode [1, 2] then Some [1, 2 :: u8] else None"
  show "\<forall>z out. ?rd z = Some out \<longrightarrow> length out mod 2 ^ 32 = gzip_isize z"
    by (auto simp: gzip_isize_stored split: if_splits)
  show "decompress_gzip ?rd (stored_gz_encode [1, 2]) = Some [1, 2]"
    by (simp add: decompress_gzip_def gzip_isize_stored MAX_DECOMPRESSED_SIZE_BYTES_def)
      (simp add: stored_gz_encode_def)
qed

text \<open>Framing fails exactly on messages above 4 MiB; a frame is never longer than header plus
  encoded message, and its length field counts the bytes after the header.\<close>

lemma framed_size:
  assumes "prost_contract ok encoded_len encode_raw prost_decode"
  shows "(encode_message_framed gz_encode encoded_len encode_raw m = Inl ExceedSizeLimit \<longleftrightarrow>
      encoded_len m > MAX_DECOMPRESSED_SIZE_BYTES) \<and>
    (\<forall>f. encode_message_framed gz_encode encoded_len encode_raw m = Inr f \<longrightarrow>
      length f = 5 + frame_len_at f 0 \<and> length f \<le> 5 + encoded_len m)"
proof (intro conjI allI impI)
  show "encode_message_framed gz_encode encoded_len encode_raw m = Inl ExceedSizeLimit \<longleftrightarrow>
      encoded_len m > MAX_DECOMPRESSED_SIZE_BYTES"
    by (auto simp: encode_message_framed_def Let_def split: prod.splits)
next
  fix f assume f: "encode_message_framed gz_encode encoded_len encode_raw m = Inr f"
  then show "length f \<le> 5 + encoded_len m"
    using assms by (auto simp: encode_message_framed_def prost_contract_def Let_def
        try_compress_if_beneficial_def split: if_splits)
  obtain ty body where "f = frame_bytes \<lparr>msg_type = ty, msg_data = body\<rparr>"
    and "length body \<le> MAX_DECOMPRESSED_SIZE_BYTES"
    using encode_message_framed_frame [OF assms f] by blast
  then show "length f = 5 + frame_len_at f 0"
    by (simp add: frame_bytes_def frame_len_at_def unsigned_of_nat take_bit_nat_eq_self
        MAX_DECOMPRESSED_SIZE_BYTES_def)
qed

end
