(* ===== verification/Codec_Tables.thy ===== *)
theory Codec_Tables
  imports Prelude
begin

text \<open>
  The digit codecs of the sources (base64, base62, ULID) share one device: an alphabet of distinct
  bytes, and a 256-entry reverse table, filled by a compile-time loop, that maps a byte to its digit
  value and every other byte to \<open>0xFF\<close>.  The loop is modelled here once; the locale
  \<open>digit_alphabet\<close> states what the codecs need of an alphabet and derives what the table does.
\<close>

section \<open>The table loop\<close>

function fill_table :: "bytes \<Rightarrow> nat \<Rightarrow> bytes \<Rightarrow> bytes" where
  "fill_table chars i table =
     (if i < length chars then fill_table chars (i + 1) (table[unat (chars ! i) := of_nat i])
      else table)"
  by pat_completeness auto
termination
  by (relation "measure (\<lambda>(chars, i, table). length chars - i)") auto

declare fill_table.simps [simp del]

definition decode_table :: "bytes \<Rightarrow> bytes" where
  "decode_table chars = fill_table chars 0 (replicate 256 0xFF)"

section \<open>What the loop computes\<close>

lemma u8_lt_256 [simp]: "unat (b :: u8) < 256"
  using unsigned_less [of b] by simp

lemma u128_lt: "unat (x :: u128) < 2 ^ 128"
  using unsigned_less [of x] by simp

lemma length_fill_table [simp]: "length (fill_table chars i table) = length table"
  by (induction chars i table rule: fill_table.induct) (subst fill_table.simps, auto)

lemma length_decode_table [simp]: "length (decode_table chars) = 256"
  by (simp add: decode_table_def)

lemma fill_table_other:
  "b \<notin> set (drop i chars) \<Longrightarrow> fill_table chars i table ! unat b = table ! unat b"
proof (induction chars i table rule: fill_table.induct)
  case (1 chars i table)
  show ?case
  proof (cases "i < length chars")
    case True
    with "1.prems" have ne: "chars ! i \<noteq> b" and "b \<notin> set (drop (i + 1) chars)"
      by (auto simp: Cons_nth_drop_Suc [symmetric])
    with "1.IH" True have "fill_table chars (i + 1) (table[unat (chars ! i) := of_nat i]) ! unat b =
        table[unat (chars ! i) := of_nat i] ! unat b"
      by blast
    moreover from ne have "unat (chars ! i) \<noteq> unat b" by (simp add: word_unat_eq_iff)
    ultimately show ?thesis using True
      by (subst fill_table.simps) simp
  next
    case False
    then show ?thesis by (subst fill_table.simps) simp
  qed
qed

lemma fill_table_digit:
  assumes "distinct chars"
  shows "i \<le> k \<Longrightarrow> k < length chars \<Longrightarrow> length table = 256 \<Longrightarrow>
    fill_table chars i table ! unat (chars ! k) = of_nat k"
proof (induction "k - i" arbitrary: i table)
  case 0
  then have "chars ! k \<notin> set (drop (Suc i) chars)"
    using assms by (auto simp: distinct_conv_nth in_set_conv_nth)
  with 0 show ?case
    by (subst fill_table.simps) (simp add: fill_table_other)
next
  case (Suc d)
  then show ?case by (subst fill_table.simps) simp
qed

section \<open>Digits and the numbers they denote\<close>

definition digit_of :: "bytes \<Rightarrow> u8 \<Rightarrow> nat" where
  "digit_of chars b = unat (decode_table chars ! unat b)"

text \<open>The number a digit string denotes, most significant digit first, continuing from \<open>a\<close>.\<close>

definition radix_value :: "bytes \<Rightarrow> nat \<Rightarrow> bytes \<Rightarrow> nat" where
  "radix_value chars a bs = foldl (\<lambda>r b. r * length chars + digit_of chars b) a bs"

lemma radix_value_simps [simp]:
  "radix_value chars a [] = a"
  "radix_value chars a (b # bs) = radix_value chars (a * length chars + digit_of chars b) bs"
  "radix_value chars a (bs @ cs) = radix_value chars (radix_value chars a bs) cs"
  by (simp_all add: radix_value_def)

lemma digit_of_lt_256 [simp]: "digit_of chars b < 256"
  by (simp add: digit_of_def)

lemma base_digit_unique:
  fixes v w d e m :: nat
  assumes "v * m + d = w * m + e" and "d < m" and "e < m"
  shows "v = w \<and> d = e"
proof -
  from assms(2,3) have "v = (v * m + d) div m" and "w = (w * m + e) div m" by simp_all
  then have "v = w" using arg_cong [OF assms(1), of "\<lambda>x. x div m"] by linarith
  with assms(1) show ?thesis by simp
qed

section \<open>Alphabets\<close>

locale digit_alphabet =
  fixes chars :: bytes
  assumes distinct_chars: "distinct chars"
    and length_chars: "length chars \<le> 255"
begin

lemma table_digit: "k < length chars \<Longrightarrow> decode_table chars ! unat (chars ! k) = of_nat k"
  unfolding decode_table_def using distinct_chars by (rule fill_table_digit) simp_all

lemma table_other: "b \<notin> set chars \<Longrightarrow> decode_table chars ! unat b = 0xFF"
  unfolding decode_table_def by (subst fill_table_other) simp_all

lemma unat_of_digit: "k < length chars \<Longrightarrow> unat (of_nat k :: u8) = k"
  using length_chars by (simp add: unsigned_of_nat take_bit_nat_eq_self)

text \<open>\<open>0xFF\<close> marks exactly the bytes outside the alphabet.\<close>

lemma table_invalid_iff: "decode_table chars ! unat b = 0xFF \<longleftrightarrow> b \<notin> set chars"
proof
  assume ff: "decode_table chars ! unat b = 0xFF"
  show "b \<notin> set chars"
  proof
    assume "b \<in> set chars"
    then obtain k where k: "k < length chars" "chars ! k = b" by (auto simp: in_set_conv_nth)
    with ff table_digit have "unat (of_nat k :: u8) = unat (0xFF :: u8)" by auto
    with unat_of_digit [OF k(1)] k(1) length_chars show False by simp
  qed
qed (rule table_other)

lemma table_valid:
  assumes "b \<in> set chars"
  shows "unat (decode_table chars ! unat b) < length chars"
    and "chars ! unat (decode_table chars ! unat b) = b"
proof -
  from assms obtain k where k: "k < length chars" "chars ! k = b" by (auto simp: in_set_conv_nth)
  then have "unat (decode_table chars ! unat b) = k"
    using table_digit unat_of_digit by auto
  with k show "unat (decode_table chars ! unat b) < length chars"
    and "chars ! unat (decode_table chars ! unat b) = b" by simp_all
qed

lemma digit_of_char: "k < length chars \<Longrightarrow> digit_of chars (chars ! k) = k"
  by (simp add: digit_of_def table_digit unat_of_digit)

lemma digit_of_inj:
  "b \<in> set chars \<Longrightarrow> c \<in> set chars \<Longrightarrow> digit_of chars b = digit_of chars c \<Longrightarrow> b = c"
  unfolding digit_of_def by (metis table_valid(2))

lemma digit_of_lt: "b \<in> set chars \<Longrightarrow> digit_of chars b < length chars"
  unfolding digit_of_def by (rule table_valid(1))

lemma radix_value_ge: "bs \<noteq> [] \<longrightarrow> chars \<noteq> [] \<Longrightarrow> a \<le> radix_value chars a bs"
proof (induction bs arbitrary: a)
  case (Cons b bs)
  then have "a \<le> a * length chars + digit_of chars b" by (cases chars) simp_all
  also have "\<dots> \<le> radix_value chars \<dots> bs" using Cons by simp
  finally show ?case by simp
qed simp

lemma radix_value_power: "a * length chars ^ length bs \<le> radix_value chars a bs"
proof (induction bs arbitrary: a)
  case (Cons b bs)
  have "a * length chars ^ length (b # bs) \<le> (a * length chars + digit_of chars b) * length chars ^ length bs"
    by (simp add: algebra_simps)
  also have "\<dots> \<le> radix_value chars a (b # bs)" using Cons by simp
  finally show ?case .
qed simp

lemma radix_value_lt:
  "set bs \<subseteq> set chars \<Longrightarrow> radix_value chars a bs < (a + 1) * length chars ^ length bs"
proof (induction bs arbitrary: a)
  case (Cons b bs)
  then have "radix_value chars a (b # bs) < (a * length chars + digit_of chars b + 1) * length chars ^ length bs"
    by simp
  also have "\<dots> \<le> ((a + 1) * length chars) * length chars ^ length bs"
    using digit_of_lt [of b] Cons.prems by (intro mult_right_mono) auto
  finally show ?case by (simp add: algebra_simps)
qed simp

lemma radix_value_inj:
  "length bs = length cs \<Longrightarrow> set bs \<subseteq> set chars \<Longrightarrow> set cs \<subseteq> set chars \<Longrightarrow>
   radix_value chars a bs = radix_value chars a cs \<Longrightarrow> bs = cs"
proof (induction bs arbitrary: cs rule: rev_induct)
  case (snoc b bs)
  then obtain c cs' where cs: "cs = cs' @ [c]" by (cases cs rule: rev_cases) auto
  with snoc.prems have
    "radix_value chars a bs * length chars + digit_of chars b = radix_value chars a cs' * length chars + digit_of chars c"
    and "digit_of chars b < length chars" "digit_of chars c < length chars"
    by (simp_all add: digit_of_lt)
  then have "radix_value chars a bs = radix_value chars a cs' \<and> digit_of chars b = digit_of chars c"
    by (rule base_digit_unique)
  with snoc cs show ?case by (auto dest: digit_of_inj)
qed simp

end

end
