(* ===== verification/Base62_Codec.thy ===== *)
theory Base62_Codec
  imports Codec_Tables
begin

text \<open>
  \<open>src/common/utils/base62.rs\<close>: fixed-length base62 for \<open>u128\<close>.  The arithmetic is kept at its
  width: \<open>mulh\<close> computes with 128-bit words, and \<open>fast_div_base_to_10\<close> multiplies by a magic
  constant instead of dividing.  Both are shown to compute the exact quotient, so no intermediate
  value wraps, and encoding and decoding are shown to be mutually inverse.
\<close>

section \<open>Constants and errors\<close>

definition BASE :: u64 where
  "BASE = 62"

definition BASE62_LEN :: usize where
  "BASE62_LEN = 22"

definition BASE_TO_10 :: u64 where
  "BASE_TO_10 = 839299365868340224"

definition BASE_TO_10_U128 :: u128 where
  "BASE_TO_10_U128 = ucast BASE_TO_10"

definition DIV_BASE_TO_10_MULTIPLY :: u128 where
  "DIV_BASE_TO_10_MULTIPLY = 233718071534448225491982379416108680074"

definition DIV_BASE_TO_10_SHIFT :: nat where
  "DIV_BASE_TO_10_SHIFT = 59"

definition CHARSET :: bytes where
  "CHARSET = bytes_of ''0123456789ABCDEFGHIJKLMNOPQRSTUVWXYZabcdefghijklmnopqrstuvwxyz''"

definition DECODE_LUT :: bytes where
  "DECODE_LUT = decode_table CHARSET"

datatype base62_error = ArithmeticOverflow | InvalidCharacter u8 usize

section \<open>Operations\<close>

definition mulh :: "u128 \<Rightarrow> u128 \<Rightarrow> u128" where
  "mulh x y =
     (let x_lo = ucast (ucast x :: u64); x_hi = drop_bit 64 x;
          y_lo = ucast (ucast y :: u64); y_hi = drop_bit 64 y;
          z0 = x_lo * y_lo; z1 = x_lo * y_hi; z2 = x_hi * y_lo; z3 = x_hi * y_hi;
          carry = drop_bit 64 z0 + ucast (ucast z1 :: u64) + ucast (ucast z2 :: u64)
      in z3 + drop_bit 64 z1 + drop_bit 64 z2 + drop_bit 64 carry)"

definition fast_div_base_to_10 :: "u128 \<Rightarrow> u128 \<times> u64" where
  "fast_div_base_to_10 num =
     (let quotient = drop_bit DIV_BASE_TO_10_SHIFT (mulh num DIV_BASE_TO_10_MULTIPLY);
          remainder = num - quotient * BASE_TO_10_U128
      in (quotient, ucast remainder))"

text \<open>The loop writes \<open>ptr[len - 1]\<close> first; the digits are returned in address order.\<close>

primrec encode_u64_chunk :: "u64 \<Rightarrow> usize \<Rightarrow> bytes" where
  "encode_u64_chunk num 0 = []"
| "encode_u64_chunk num (Suc i) = encode_u64_chunk (num div BASE) i @ [CHARSET ! unat (num mod BASE)]"

definition encode_fixed :: "u128 \<Rightarrow> bytes" where
  "encode_fixed num =
     (let (quotient, low) = fast_div_base_to_10 num;
          (high, mid) = fast_div_base_to_10 quotient
      in encode_u64_chunk (ucast high) 2 @ encode_u64_chunk mid 10 @ encode_u64_chunk low 10)"

definition checked_mul_u128 :: "u128 \<Rightarrow> u128 \<Rightarrow> u128 option" where
  "checked_mul_u128 a b = (if unat a * unat b < 2 ^ 128 then Some (a * b) else None)"

definition checked_add_u128 :: "u128 \<Rightarrow> u128 \<Rightarrow> u128 option" where
  "checked_add_u128 a b = (if unat a + unat b < 2 ^ 128 then Some (a + b) else None)"

fun decode_fixed_loop :: "bytes \<Rightarrow> usize \<Rightarrow> u128 \<Rightarrow> base62_error + u128" where
  "decode_fixed_loop [] position result = Inr result"
| "decode_fixed_loop (byte # rest) position result =
     (let value = DECODE_LUT ! unat byte
      in if value = 0xFF then Inl (InvalidCharacter byte position)
         else case Option.bind (checked_mul_u128 result (ucast BASE))
                     (\<lambda>r. checked_add_u128 r (ucast value)) of
             None \<Rightarrow> Inl ArithmeticOverflow
           | Some result' \<Rightarrow> decode_fixed_loop rest (position + 1) result')"

definition decode_fixed :: "bytes \<Rightarrow> base62_error + u128" where
  "decode_fixed buf = decode_fixed_loop buf 0 0"

section \<open>The high half of a product\<close>

lemma unat_ucast_lo: "unat (ucast (ucast (x :: u128) :: u64) :: u128) = unat x mod 2 ^ 64"
  by (simp add: unsigned_ucast_eq take_bit_eq_mod mod_mod_cancel unat_mod_distrib)

lemma unat_drop_64: "unat (drop_bit 64 (x :: u128)) = unat x div 2 ^ 64"
  by (simp add: drop_bit_eq_div unat_div_distrib)

lemma mulh_nat:
  fixes x1 x0 y1 y0 B :: nat
  assumes "B > 0"
  shows "(x1 * B + x0) * (y1 * B + y0) div (B * B) =
    x1 * y1 + (x0 * y1) div B + (x1 * y0) div B
      + ((x0 * y0) div B + (x0 * y1) mod B + (x1 * y0) mod B) div B"
proof -
  let ?a = "x0 * y1" and ?b = "x1 * y0" and ?c = "x0 * y0"
  have a: "?a = ?a div B * B + ?a mod B" and b: "?b = ?b div B * B + ?b mod B" by simp_all
  have "(x1 * B + x0) * (y1 * B + y0) = x1 * y1 * (B * B) + (?a + ?b) * B + ?c"
    by (simp add: algebra_simps)
  also have "\<dots> = (x1 * y1 + ?a div B + ?b div B) * (B * B) + ((?a mod B + ?b mod B) * B + ?c)"
  proof -
    have "?a + ?b = (?a div B + ?b div B) * B + (?a mod B + ?b mod B)"
      using a b by (simp only: distrib_right; linarith)
    then have "(?a + ?b) * B = ((?a div B + ?b div B) * B + (?a mod B + ?b mod B)) * B" by simp
    then show ?thesis by (simp only: distrib_right distrib_left mult.assoc add.assoc add.commute; simp)
  qed
  finally have "(x1 * B + x0) * (y1 * B + y0) div (B * B) =
      x1 * y1 + ?a div B + ?b div B + ((?a mod B + ?b mod B) * B + ?c) div (B * B)"
    using assms by (simp only: div_mult_self3 mult_eq_0_iff) simp
  also have "((?a mod B + ?b mod B) * B + ?c) div (B * B) = (?c div B + ?a mod B + ?b mod B) div B"
    using assms by (simp add: div_mult2_eq add.commute add.left_commute)
  finally show ?thesis .
qed

lemma lo_mult_lt: "(a mod 2 ^ 64) * b < (2 ^ 128 :: nat)" if "b < 2 ^ 64" for a b
proof -
  have "(a mod 2 ^ 64) * b < 2 ^ 64 * 2 ^ 64"
    using that by (intro mult_strict_mono) auto
  then show ?thesis by simp
qed

lemma unat_mult_u64: "unat x < 2 ^ 64 \<Longrightarrow> unat y < 2 ^ 64 \<Longrightarrow> unat (x * y :: u128) = unat x * unat y"
  using lo_mult_lt [of "unat y" "unat x"] by (simp add: unat_word_ariths)

lemma unat_add_u128: "unat (a + b :: u128) = (unat a + unat b) mod 2 ^ 128"
  by (simp add: unat_word_ariths)

lemma unat_add3_u128: "unat (a + b + c :: u128) = (unat a + unat b + unat c) mod 2 ^ 128"
  by (simp only: unat_add_u128 mod_add_left_eq)

lemma unat_add4_u128: "unat (a + b + c + d :: u128) = (unat a + unat b + unat c + unat d) mod 2 ^ 128"
  by (simp only: unat_add_u128 mod_add_left_eq)

lemma unat_mulh: "unat (mulh x y) = unat x * unat y div 2 ^ 128"
proof -
  let ?B = "2 ^ 64 :: nat"
  define x1 x0 y1 y0 where "x1 = unat x div ?B" and "x0 = unat x mod ?B"
    and "y1 = unat y div ?B" and "y0 = unat y mod ?B"
  have lt: "x1 < ?B" "x0 < ?B" "y1 < ?B" "y0 < ?B"
    using u128_lt [of x] u128_lt [of y] by (auto simp: x1_def x0_def y1_def y0_def less_mult_imp_div_less)
  have xy: "unat x = x1 * ?B + x0" "unat y = y1 * ?B + y0"
    by (simp_all add: x1_def x0_def y1_def y0_def)
  have "unat x * unat y div 2 ^ 128 < 2 ^ 128"
    using u128_lt [of x] u128_lt [of y]
    by (intro less_mult_imp_div_less mult_strict_mono) simp_all
  moreover have "unat x * unat y div 2 ^ 128 = unat x * unat y div (?B * ?B)" by simp
  moreover have "\<dots> = x1 * y1 + (x0 * y1) div ?B + (x1 * y0) div ?B
      + ((x0 * y0) div ?B + (x0 * y1) mod ?B + (x1 * y0) mod ?B) div ?B"
    unfolding xy by (rule mulh_nat) simp
  moreover
  let ?xl = "ucast (ucast x :: u64) :: u128" and ?yl = "ucast (ucast y :: u64) :: u128"
  let ?xh = "drop_bit 64 x" and ?yh = "drop_bit 64 y"
  have un: "unat ?xl = x0" "unat ?yl = y0" "unat ?xh = x1" "unat ?yh = y1"
    by (simp_all only: unat_ucast_lo unat_drop_64 x1_def x0_def y1_def y0_def)
  have z: "unat (?xl * ?yl) = x0 * y0" "unat (?xl * ?yh) = x0 * y1" "unat (?xh * ?yl) = x1 * y0"
    "unat (?xh * ?yh) = x1 * y1"
    using lt by (simp_all only: unat_mult_u64 un)
  let ?carry = "drop_bit 64 (?xl * ?yl) + ucast (ucast (?xl * ?yh) :: u64) + ucast (ucast (?xh * ?yl) :: u64)"
  have "x0 * y0 div ?B < ?B" "(x0 * y1) mod ?B < ?B" "(x1 * y0) mod ?B < ?B"
    using lt by (auto intro!: less_mult_imp_div_less mult_strict_mono)
  then have carry: "unat ?carry = (x0 * y0) div ?B + (x0 * y1) mod ?B + (x1 * y0) mod ?B"
    by (simp only: unat_add3_u128 unat_drop_64 unat_ucast_lo z) simp
  have "unat (mulh x y) = (x1 * y1 + (x0 * y1) div ?B + (x1 * y0) div ?B
      + ((x0 * y0) div ?B + (x0 * y1) mod ?B + (x1 * y0) mod ?B) div ?B) mod 2 ^ 128"
    unfolding mulh_def Let_def unat_add4_u128 by (simp only: unat_drop_64 carry z)
  ultimately show ?thesis by (simp only: mod_less)
qed

section \<open>Division by a multiplication\<close>

text \<open>If \<open>m * d\<close> exceeds \<open>s\<close> by little enough, \<open>n * m div s\<close> is \<open>n div d\<close>.\<close>

lemma magic_div:
  fixes n m d s e :: nat
  assumes "m * d = s + e" and "n * e < s" and "d > 0"
  shows "n * m div s = n div d"
proof -
  let ?q = "n div d"
  have nmd: "n * m * d = n * s + n * e" using assms(1) by (simp add: mult.assoc distrib_left)
  have "?q * s * d \<le> n * s"
    using mult_le_mono1 [OF div_times_less_eq_dividend [of n d], of s] by (simp add: ac_simps)
  also have "\<dots> \<le> n * m * d" using nmd by simp
  finally have lo: "?q * s \<le> n * m" using assms(3) by simp
  have "n + 1 \<le> (?q + 1) * d" using assms(3) by (simp add: dividend_less_div_times Suc_leI)
  then have "(n + 1) * s \<le> (?q + 1) * d * s" by (rule mult_le_mono1)
  moreover have "n * m * d < (n + 1) * s" using nmd assms(2) by simp
  moreover have "(?q + 1) * d * s = (?q + 1) * s * d" by (simp only: mult.assoc mult.commute [of d s])
  ultimately have "n * m * d < (?q + 1) * s * d" by linarith
  then have "n * m < (?q + 1) * s" by simp
  with lo show ?thesis by (intro div_nat_eqI) (simp_all add: mult.commute)
qed

lemma unat_consts:
  "unat DIV_BASE_TO_10_MULTIPLY = 233718071534448225491982379416108680074"
  "unat BASE_TO_10_U128 = 62 ^ 10" "unat BASE = 62"
  by (simp_all add: DIV_BASE_TO_10_MULTIPLY_def BASE_TO_10_U128_def BASE_TO_10_def BASE_def)

lemma fast_div_quotient:
  "unat (fst (fast_div_base_to_10 num)) = unat num div 62 ^ 10"
proof -
  let ?m = "233718071534448225491982379416108680074 :: nat"
  have "unat (fst (fast_div_base_to_10 num)) = unat num * ?m div 2 ^ 128 div 2 ^ 59"
    by (simp add: fast_div_base_to_10_def Let_def DIV_BASE_TO_10_SHIFT_def drop_bit_eq_div
        unat_div_distrib unat_mulh unat_consts)
  also have "\<dots> = unat num * ?m div 2 ^ 187"
    by (simp add: div_mult2_eq [symmetric])
  also have "\<dots> = unat num div 62 ^ 10"
  proof (rule magic_div)
    show "?m * 62 ^ 10 = 2 ^ 187 + 134545834300418048" by simp
    have "unat num * 134545834300418048 < 2 ^ 128 * (2 ^ 59 :: nat)"
      using u128_lt [of num] by (intro mult_strict_mono) simp_all
    then show "unat num * 134545834300418048 < 2 ^ 187" by simp
  qed simp
  finally show ?thesis .
qed

lemma fast_div_remainder:
  "unat (snd (fast_div_base_to_10 num)) = unat num mod 62 ^ 10"
proof -
  let ?q = "fst (fast_div_base_to_10 num)"
  have q: "unat (?q * BASE_TO_10_U128) = unat num div 62 ^ 10 * 62 ^ 10"
  proof -
    have "unat num div 62 ^ 10 * 62 ^ 10 < 2 ^ 128"
      using u128_lt [of num] by (meson div_times_less_eq_dividend le_less_trans)
    then show ?thesis by (simp add: unat_word_ariths fast_div_quotient unat_consts)
  qed
  then have "?q * BASE_TO_10_U128 \<le> num" by (simp add: word_le_nat_alt)
  then have "unat (num - ?q * BASE_TO_10_U128) = unat num mod 62 ^ 10"
    by (simp add: unat_sub q minus_div_mult_eq_mod)
  moreover have "snd (fast_div_base_to_10 num) = ucast (num - ?q * BASE_TO_10_U128)"
    by (simp add: fast_div_base_to_10_def Let_def)
  moreover have "unat num mod 62 ^ 10 < 2 ^ 64"
    by (rule less_trans [of _ "62 ^ 10"]) simp_all
  ultimately show ?thesis by (simp add: unsigned_ucast_eq take_bit_nat_eq_self)
qed

section \<open>Digits\<close>

lemma length_CHARSET [simp]: "length CHARSET = 62"
  by (simp add: CHARSET_def)

interpretation b62: digit_alphabet CHARSET
proof unfold_locales
  show "distinct CHARSET" by (simp add: CHARSET_def bytes_of_def of_char_def)
qed simp

abbreviation digit62 :: "u8 \<Rightarrow> nat" where
  "digit62 \<equiv> digit_of CHARSET"

abbreviation value62 :: "nat \<Rightarrow> bytes \<Rightarrow> nat" where
  "value62 \<equiv> radix_value CHARSET"

lemmas value62_simps = radix_value_simps [of CHARSET, unfolded length_CHARSET]

lemmas digit62_CHARSET = b62.digit_of_char [unfolded length_CHARSET]

lemma digit62_lut: "unat (DECODE_LUT ! unat b) = digit62 b"
  by (simp add: digit_of_def DECODE_LUT_def)

lemma value62_ge: "a \<le> value62 a bs"
  by (rule b62.radix_value_ge) (simp flip: length_greater_0_conv)

lemma lut_invalid_iff: "DECODE_LUT ! unat b = 0xFF \<longleftrightarrow> b \<notin> set CHARSET"
  unfolding DECODE_LUT_def by (rule b62.table_invalid_iff)

lemma value62_chunk:
  "value62 a (encode_u64_chunk num n) = a * 62 ^ n + unat num mod 62 ^ n"
proof (induction n arbitrary: num)
  case (Suc n)
  have "unat num mod 62 ^ Suc n = 62 * (unat num div 62 mod 62 ^ n) + unat num mod 62"
    by (simp add: mod_mult2_eq)
  with Suc show ?case
    by (simp add: digit62_CHARSET unat_mod_distrib unat_div_distrib unat_consts algebra_simps)
qed simp

lemma set_chunk: "set (encode_u64_chunk num n) \<subseteq> set CHARSET"
  by (induction n arbitrary: num) (auto simp: unat_mod_distrib unat_consts)

lemma length_chunk [simp]: "length (encode_u64_chunk num n) = n"
  by (induction n arbitrary: num) simp_all


section \<open>Encoder and decoder\<close>

lemma encode_fixed_chunks:
  "encode_fixed n = encode_u64_chunk (ucast (fst (fast_div_base_to_10 (fst (fast_div_base_to_10 n))))) 2
     @ encode_u64_chunk (snd (fast_div_base_to_10 (fst (fast_div_base_to_10 n)))) 10
     @ encode_u64_chunk (snd (fast_div_base_to_10 n)) 10"
  by (simp add: encode_fixed_def Let_def split: prod.splits)

lemma set_encode_fixed: "set (encode_fixed n) \<subseteq> set CHARSET"
  using set_chunk by (simp add: encode_fixed_chunks)

lemma length_encode_fixed [simp]: "length (encode_fixed n) = BASE62_LEN"
  by (simp add: encode_fixed_chunks BASE62_LEN_def)

lemma value62_encode_fixed: "value62 0 (encode_fixed n) = unat n"
proof -
  let ?n = "unat n" and ?D = "62 ^ 10 :: nat"
  have high: "?n div ?D div ?D < 3844"
    using u128_lt [of n] by (simp add: less_mult_imp_div_less)
  have "unat (ucast (fst (fast_div_base_to_10 (fst (fast_div_base_to_10 n)))) :: u64) = ?n div ?D div ?D"
    using high by (simp add: unsigned_ucast_eq fast_div_quotient take_bit_nat_eq_self)
  then have "value62 0 (encode_fixed n) = (?n div ?D div ?D * ?D + ?n div ?D mod ?D) * ?D + ?n mod ?D"
    using high unfolding encode_fixed_chunks
    by (simp only: value62_simps value62_chunk fast_div_quotient fast_div_remainder) simp
  then show ?thesis by (simp only: div_mult_mod_eq)
qed

lemma decode_loop_ok:
  assumes "set bs \<subseteq> set CHARSET" and "value62 (unat r) bs < 2 ^ 128"
  shows "decode_fixed_loop bs pos r = Inr (of_nat (value62 (unat r) bs))"
  using assms
proof (induction bs arbitrary: pos r)
  case (Cons b bs)
  let ?v = "DECODE_LUT ! unat b"
  have "unat r * 62 + digit62 b \<le> value62 (unat r) (b # bs)" using value62_ge by simp
  with Cons.prems(2) have lt: "unat r * 62 + digit62 b < 2 ^ 128" by simp
  let ?r = "r * ucast BASE + ucast ?v :: u128"
  have r62: "unat (r * ucast BASE :: u128) = unat r * 62"
    using lt by (simp add: unat_word_ariths BASE_def)
  moreover have "unat (ucast ?v :: u128) = digit62 b"
    by (simp add: digit62_lut unsigned_ucast_eq take_bit_nat_eq_self less_trans [OF digit_of_lt_256])
  ultimately have r': "unat ?r = unat r * 62 + digit62 b"
    and bind: "Option.bind (checked_mul_u128 r (ucast BASE)) (\<lambda>r. checked_add_u128 r (ucast ?v)) = Some ?r"
    using lt by (simp_all add: unat_word_ariths checked_mul_u128_def checked_add_u128_def BASE_def)
  have "?v \<noteq> 0xFF" using Cons.prems(1) lut_invalid_iff by simp
  with bind have "decode_fixed_loop (b # bs) pos r = decode_fixed_loop bs (pos + 1) ?r"
    by (simp add: Let_def)
  also have "\<dots> = Inr (of_nat (value62 (unat ?r) bs))"
    using Cons.prems by (intro Cons.IH) (simp_all only: r', simp_all)
  finally show ?case by (simp only: r' value62_simps)
qed simp


lemma decode_loop_overflow:
  assumes "set bs \<subseteq> set CHARSET" and "value62 (unat r) bs \<ge> 2 ^ 128"
  shows "decode_fixed_loop bs pos r = Inl ArithmeticOverflow"
  using assms
proof (induction bs arbitrary: pos r)
  case Nil
  then show ?case using u128_lt [of r] by simp
next
  case (Cons b bs)
  let ?v = "DECODE_LUT ! unat b"
  have v: "unat (ucast ?v :: u128) = digit62 b"
    by (simp add: digit62_lut unsigned_ucast_eq take_bit_nat_eq_self less_trans [OF digit_of_lt_256])
  have "?v \<noteq> 0xFF" using Cons.prems(1) lut_invalid_iff by simp
  moreover have "decode_fixed_loop bs (pos + 1) (r * ucast BASE + ucast ?v) = Inl ArithmeticOverflow"
    if "unat r * 62 + digit62 b < 2 ^ 128"
  proof -
    have "unat (r * ucast BASE + ucast ?v) = unat r * 62 + digit62 b"
      using that v by (simp add: unat_word_ariths BASE_def)
    with Cons.prems show ?thesis by (intro Cons.IH) simp_all
  qed
  ultimately show ?case
    using v by (auto simp: Let_def checked_mul_u128_def checked_add_u128_def BASE_def unat_word_ariths
        split: bind_splits if_splits)
qed

lemma decode_loop_valid:
  "decode_fixed_loop bs pos r = Inr n \<Longrightarrow> set bs \<subseteq> set CHARSET"
  by (induction bs arbitrary: pos r) (auto simp: Let_def lut_invalid_iff split: if_splits option.splits)

lemma decode_loop_invalid:
  "decode_fixed_loop bs pos r = Inl (InvalidCharacter b p) \<Longrightarrow>
   pos \<le> p \<and> p - pos < length bs \<and> bs ! (p - pos) = b \<and> b \<notin> set CHARSET \<and>
   set (take (p - pos) bs) \<subseteq> set CHARSET"
proof (induction bs arbitrary: pos r)
  case (Cons c bs)
  show ?case
  proof (cases "c \<in> set CHARSET")
    case True
    with Cons.prems obtain r' where "decode_fixed_loop bs (pos + 1) r' = Inl (InvalidCharacter b p)"
      by (auto simp: Let_def lut_invalid_iff split: option.splits)
    note IH = Cons.IH [OF this]
    then have "p - pos = Suc (p - (pos + 1))" by linarith
    with IH True show ?thesis by simp
  next
    case False
    with Cons.prems show ?thesis by (auto simp: Let_def lut_invalid_iff)
  qed
qed simp

text \<open>A byte outside the alphabet is reported with its position when what comes before it fits.\<close>

lemma decode_loop_append:
  "decode_fixed_loop (xs @ ys) pos r =
     (case decode_fixed_loop xs pos r of Inl e \<Rightarrow> Inl e | Inr r' \<Rightarrow> decode_fixed_loop ys (pos + length xs) r')"
  by (induction xs arbitrary: pos r) (auto simp: Let_def split: option.splits sum.splits)

lemma decode_foreign:
  assumes "set xs \<subseteq> set CHARSET" and "length xs \<le> 21" and "b \<notin> set CHARSET"
  shows "decode_fixed (xs @ b # ys) = Inl (InvalidCharacter b (length xs))"
proof -
  have "value62 0 xs < 62 ^ length xs" using b62.radix_value_lt [OF assms(1), of 0] by simp
  also have "\<dots> \<le> 62 ^ 21" using assms(2) by (intro power_increasing) simp_all
  also have "\<dots> < (2 ^ 128 :: nat)" by simp
  finally have "decode_fixed_loop xs 0 0 = Inr (of_nat (value62 0 xs))" using decode_loop_ok [OF assms(1), of 0 0] by simp
  then show ?thesis using assms(3) by (simp add: decode_fixed_def decode_loop_append lut_invalid_iff)
qed

section \<open>Properties\<close>

text \<open>The multiplication by the magic constant divides every 128-bit number exactly by \<open>62^10\<close>
  and leaves its remainder, no intermediate sum or product wrapping around.\<close>

theorem fast_div_exact:
  "unat (fst (fast_div_base_to_10 num)) = unat num div 62 ^ 10 \<and>
   unat (snd (fast_div_base_to_10 num)) = unat num mod 62 ^ 10 \<and>
   unat (mulh num DIV_BASE_TO_10_MULTIPLY) = unat num * unat DIV_BASE_TO_10_MULTIPLY div 2 ^ 128"
  by (simp add: fast_div_quotient fast_div_remainder unat_mulh)

text \<open>Every \<open>u128\<close> is encoded in exactly 22 characters of the alphabet and decoded back.\<close>

theorem base62_roundtrip:
  "decode_fixed (encode_fixed n) = Inr n \<and> length (encode_fixed n) = BASE62_LEN"
proof -
  have "decode_fixed (encode_fixed n) = Inr (of_nat (value62 (unat (0 :: u128)) (encode_fixed n)))"
    unfolding decode_fixed_def using value62_encode_fixed [of n] u128_lt [of n]
    by (intro decode_loop_ok set_encode_fixed) simp
  then show ?thesis
    by (simp add: value62_encode_fixed)
qed

text \<open>C36: decoding a text of 22 bytes accepts exactly the encoder's own outputs.  A text with a byte outside the alphabet is
  rejected with its first such byte and the position of it, and a text of the alphabet is rejected as an overflow
  exactly if its value is above \<open>u128::MAX\<close>.\<close>

theorem base62_decode_exact:
  assumes "length buf = BASE62_LEN"
  shows "(decode_fixed buf = Inr n \<longleftrightarrow> encode_fixed n = buf) \<and>
    (decode_fixed buf = Inl (InvalidCharacter b p) \<longleftrightarrow>
       p < length buf \<and> buf ! p = b \<and> b \<notin> set CHARSET \<and> set (take p buf) \<subseteq> set CHARSET) \<and>
    (decode_fixed buf = Inl ArithmeticOverflow \<longleftrightarrow> set buf \<subseteq> set CHARSET \<and> 2 ^ 128 \<le> value62 0 buf)"
proof (intro conjI)
  have enc: "decode_fixed_loop (encode_fixed n) 0 0 = Inr n" for n
    using decode_loop_ok [of "encode_fixed n" 0 0] set_encode_fixed value62_encode_fixed u128_lt [of n]
    by simp
  show "decode_fixed buf = Inr n \<longleftrightarrow> encode_fixed n = buf"
  proof
    assume d: "decode_fixed buf = Inr n"
    then have v: "set buf \<subseteq> set CHARSET" unfolding decode_fixed_def by (rule decode_loop_valid)
    have "value62 0 buf < 2 ^ 128"
      using d v decode_loop_overflow [of buf 0 0] unfolding decode_fixed_def by fastforce
    with d decode_loop_ok [OF v, of 0 0] have "unat n = value62 0 buf"
      by (simp add: decode_fixed_def unsigned_of_nat take_bit_nat_eq_self)
    then show "encode_fixed n = buf"
      using assms v set_encode_fixed
      by (intro b62.radix_value_inj [of _ _ 0]) (simp_all add: value62_encode_fixed)
  qed (auto simp: decode_fixed_def enc)
next
  show "decode_fixed buf = Inl (InvalidCharacter b p) \<longleftrightarrow>
    p < length buf \<and> buf ! p = b \<and> b \<notin> set CHARSET \<and> set (take p buf) \<subseteq> set CHARSET" (is "?L \<longleftrightarrow> ?R")
  proof
    assume ?R
    then have "buf = take p buf @ b # drop (Suc p) buf" using id_take_nth_drop [of p buf] by simp
    then show ?L using decode_foreign [of "take p buf" b "drop (Suc p) buf"] assms \<open>?R\<close> by (simp add: BASE62_LEN_def)
  qed (use decode_loop_invalid [of buf 0 0 b p] in \<open>simp add: decode_fixed_def\<close>)
next
  have valid: "set buf \<subseteq> set CHARSET" if "decode_fixed buf = Inl ArithmeticOverflow"
  proof (rule ccontr)
    assume "\<not> set buf \<subseteq> set CHARSET"
    then obtain xs b ys where "buf = xs @ b # ys" "set xs \<subseteq> set CHARSET" "b \<notin> set CHARSET"
      using split_list_first_prop [of buf "\<lambda>b. b \<notin> set CHARSET"] by blast
    then show False using that decode_foreign [of xs b ys] assms by (simp add: BASE62_LEN_def)
  qed
  show "decode_fixed buf = Inl ArithmeticOverflow \<longleftrightarrow> set buf \<subseteq> set CHARSET \<and> 2 ^ 128 \<le> value62 0 buf"
    using valid decode_loop_overflow [of buf 0 0] decode_loop_ok [of buf 0 0]
    by (cases "2 ^ 128 \<le> value62 0 buf") (auto simp: decode_fixed_def not_le)
qed

theorem base62_decode_exact_witness:
  "length (replicate 21 (CHARSET ! 0) @ [CHARSET ! 61]) = BASE62_LEN \<and>
   decode_fixed (replicate 21 (CHARSET ! 0) @ [CHARSET ! 61]) = Inr 61 \<and>
   decode_fixed (replicate 22 0x2D) = Inl (InvalidCharacter 0x2D 0)"
proof -
  let ?b = "replicate 21 (CHARSET ! 0) @ [CHARSET ! 61]"
  have len: "length ?b = BASE62_LEN" by (simp add: BASE62_LEN_def)
  have z: "value62 0 (replicate k (CHARSET ! 0)) = 0" for k
    by (induction k) (simp_all add: digit62_CHARSET)
  have "encode_fixed 61 = ?b"
    using set_encode_fixed [of 61] value62_encode_fixed [of 61] len
    by (intro b62.radix_value_inj [of _ _ 0]) (simp_all add: z digit62_CHARSET)
  moreover have "0x2D \<notin> set CHARSET" by code_simp
  ultimately show ?thesis using len base62_decode_exact [OF len, of 61]
      base62_decode_exact [of "replicate 22 0x2D" 0 "0x2D" 0] by (simp add: BASE62_LEN_def)
qed

end
