(* ===== verification/Hash_Hex.thy ===== *)
theory Hash_Hex
  imports Codec_Tables
begin

text \<open>
  Hexadecimal hashes: the lookup tables of \<open>src/common/utils/hex.rs\<close> and the 32-byte \<open>Hash\<close> of
  \<open>src/app/model/hash.rs\<close> with its text form.  A \<open>Hash\<close> is the list of its bytes; arrays whose length
  the Rust type fixes are lists of that length.
\<close>

section \<open>Tables\<close>

definition hex_digit_value :: "u8 \<Rightarrow> u8" where
  "hex_digit_value i =
     (if 0x30 \<le> i \<and> i \<le> 0x39 then i - 0x30
      else if 0x61 \<le> i \<and> i \<le> 0x66 then i - 0x61 + 10
      else if 0x41 \<le> i \<and> i \<le> 0x46 then i - 0x41 + 10
      else 0xFF)"

lemma unat_Suc_u8: "i \<noteq> 255 \<Longrightarrow> unat ((i :: u8) + 1) = unat i + 1"
proof -
  assume "i \<noteq> 255"
  then have "unat i \<noteq> 255" by (simp add: word_unat_eq_iff)
  then have "unat i + 1 < 256" using u8_lt_256 [of i] by linarith
  then show ?thesis by (simp add: unat_word_ariths)
qed

function hex_table_loop :: "u8 \<Rightarrow> bytes \<Rightarrow> bytes" where
  "hex_table_loop i buf =
     (let buf = buf[unat i := hex_digit_value i]
      in if i = 255 then buf else hex_table_loop (i + 1) buf)"
  by pat_completeness auto
termination
proof (relation "measure (\<lambda>(i, buf). 255 - unat i)", goal_cases)
  case (2 i buf x)
  then show ?case using u8_lt_256 [of "i + 1"] unat_Suc_u8 [of i] by auto
qed simp

declare hex_table_loop.simps [simp del]

definition HEX_TABLE :: bytes where
  "HEX_TABLE = hex_table_loop 0 (replicate 256 0xFF)"

definition HEX_CHARS :: bytes where
  "HEX_CHARS = bytes_of ''0123456789abcdef''"

definition hex_to_byte :: "u8 \<Rightarrow> u8 \<Rightarrow> u8 option" where
  "hex_to_byte hi lo =
     (let high = HEX_TABLE ! unat hi
      in if high = 0xFF then None
         else let low = HEX_TABLE ! unat lo
              in if low = 0xFF then None else Some (push_bit 4 high OR low))"

section \<open>Hashes\<close>

type_synonym hash = bytes

datatype hash_error = InvalidLength | InvalidUtf8 | InvalidHex

definition hash_nil :: hash where
  "hash_nil = replicate 32 0"

definition hash_is_nil :: "hash \<Rightarrow> bool" where
  "hash_is_nil h \<longleftrightarrow> h = hash_nil"

text \<open>\<open>draw\<close> is what the random generator delivers, \<open>sha256\<close> the external digest.\<close>

definition hash_random :: "bool \<Rightarrow> (bytes \<Rightarrow> bytes) \<Rightarrow> bytes \<Rightarrow> hash" where
  "hash_random SAFE_HASH sha256 draw = (if SAFE_HASH then sha256 draw else draw)"

definition hash_to_str :: "hash \<Rightarrow> bytes" where
  "hash_to_str h = concat (map (\<lambda>byte. [HEX_CHARS ! unat (drop_bit 4 byte), HEX_CHARS ! unat (byte AND 0x0f)]) h)"

fun hash_from_str_loop :: "bytes \<Rightarrow> hash_error + bytes" where
  "hash_from_str_loop (hi # lo # rest) =
     (case hex_to_byte hi lo of
        None \<Rightarrow> Inl InvalidHex
      | Some byte \<Rightarrow> map_sum id (\<lambda>result. byte # result) (hash_from_str_loop rest))"
| "hash_from_str_loop _ = Inr []"

definition hash_from_str :: "bytes \<Rightarrow> hash_error + hash" where
  "hash_from_str s = (if length s \<noteq> 64 then Inl InvalidLength else hash_from_str_loop s)"

section \<open>What the tables hold\<close>

lemma length_hex_table_loop: "length (hex_table_loop i buf) = length buf"
  by (induction i buf rule: hex_table_loop.induct) (subst hex_table_loop.simps, simp add: Let_def)

lemma hex_table_loop_nth:
  "length buf = 256 \<Longrightarrow>
   hex_table_loop i buf ! unat b = (if i \<le> b then hex_digit_value b else buf ! unat b)"
proof (induction i buf rule: hex_table_loop.induct)
  case (1 i buf)
  let ?buf = "buf[unat i := hex_digit_value i]"
  have upd: "?buf ! unat b = (if b = i then hex_digit_value b else buf ! unat b)"
    using "1.prems" word_unat_eq_iff [of b i] by (auto simp: nth_list_update)
  show ?case
  proof (cases "i = 255")
    case True
    moreover have "unat b \<le> 255" using u8_lt_256 [of b] by linarith
    ultimately have "i \<le> b \<longleftrightarrow> b = i" by (auto simp: word_le_nat_alt word_unat_eq_iff)
    with True upd show ?thesis by (subst hex_table_loop.simps) (simp add: Let_def)
  next
    case False
    then have "i + 1 \<le> b \<longleftrightarrow> i \<le> b \<and> b \<noteq> i"
      using unat_Suc_u8 [of i] by (auto simp: word_le_nat_alt word_unat_eq_iff)
    with False upd "1.IH" [OF refl False] "1.prems" show ?thesis
      by (subst hex_table_loop.simps) (auto simp: Let_def)
  qed
qed

lemma HEX_TABLE_nth: "HEX_TABLE ! unat b = hex_digit_value b"
  by (simp add: HEX_TABLE_def hex_table_loop_nth)

lemma hex_to_byte_eq:
  "hex_to_byte hi lo = (if hex_digit_value hi = 0xFF \<or> hex_digit_value lo = 0xFF then None
     else Some (push_bit 4 (hex_digit_value hi) OR hex_digit_value lo))"
  by (simp add: hex_to_byte_def HEX_TABLE_nth Let_def)

text \<open>The sixteen digits the encoder writes.\<close>

lemma hex_char_value: "unat d < 16 \<Longrightarrow> hex_digit_value (HEX_CHARS ! unat d) = d"
proof -
  assume "unat d < 16"
  then have "unat d \<in> set [0..<16]" by simp
  then have "\<exists>k \<in> set [0..<16]. d = of_nat k" by (metis of_nat_unat ucast_id)
  then show ?thesis
    by (simp add: upt_rec, elim disjE)
      (simp_all add: HEX_CHARS_def bytes_of_def of_char_def hex_digit_value_def)
qed

definition is_hexdigit :: "u8 \<Rightarrow> bool" where
  "is_hexdigit b \<longleftrightarrow> 0x30 \<le> b \<and> b \<le> 0x39 \<or> 0x61 \<le> b \<and> b \<le> 0x66 \<or> 0x41 \<le> b \<and> b \<le> 0x46"

definition to_lower :: "u8 \<Rightarrow> u8" where
  "to_lower b = (if 0x41 \<le> b \<and> b \<le> 0x5A then b + 0x20 else b)"

definition hexdigits :: "nat list" where
  "hexdigits = [0x30..<0x3A] @ [0x61..<0x67] @ [0x41..<0x47]"

lemma hexdigit_cases: "is_hexdigit b \<Longrightarrow> unat b \<in> set hexdigits"
  unfolding hexdigits_def is_hexdigit_def word_le_nat_alt set_append set_upt Un_iff atLeastLessThan_iff
  by (elim disjE conjE) simp_all

lemma hex_digit_value_cases:
  "is_hexdigit b \<and> unat (hex_digit_value b) < 16 \<and> HEX_CHARS ! unat (hex_digit_value b) = to_lower b \<or>
   \<not> is_hexdigit b \<and> hex_digit_value b = 0xFF"
proof (cases "is_hexdigit b")
  case True
  have "\<forall>k \<in> set hexdigits.
      unat (hex_digit_value (of_nat k)) < 16 \<and> HEX_CHARS ! unat (hex_digit_value (of_nat k)) = to_lower (of_nat k)"
    by (simp add: hexdigits_def upt_rec HEX_CHARS_def bytes_of_def of_char_def hex_digit_value_def to_lower_def)
  with hexdigit_cases [OF True] have
    "unat (hex_digit_value (of_nat (unat b))) < 16 \<and>
     HEX_CHARS ! unat (hex_digit_value (of_nat (unat b))) = to_lower (of_nat (unat b))" by blast
  with True show ?thesis by simp
qed (auto simp: is_hexdigit_def hex_digit_value_def)

section \<open>Bytes and digit pairs\<close>

lemma unat_nibbles: "unat (drop_bit 4 (b :: u8)) < 16" "unat (b AND 0x0f) < 16"
proof -
  have "unat (drop_bit 4 b) = unat b div 16" by (simp only: unat_drop_bit_eq) (simp add: drop_bit_eq_div)
  then show "unat (drop_bit 4 b) < 16" using u8_lt_256 [of b] by linarith
  have "b AND 0x0f = take_bit 4 b" by (simp add: take_bit_eq_mask mask_eq_exp_minus_1)
  then have "unat (b AND 0x0f) = take_bit 4 (unat b)" by (simp only: unsigned_take_bit_eq)
  then show "unat (b AND 0x0f) < 16" by (simp add: take_bit_eq_mod)
qed

lemma join_nibbles: "push_bit 4 (drop_bit 4 b) OR (b AND 0x0f) = (b :: u8)"
proof -
  have "b AND 0x0f = take_bit 4 b" by (simp add: take_bit_eq_mask mask_eq_exp_minus_1)
  then show ?thesis by (simp only:) (rule bit_word_eqI, auto simp: bit_simps)
qed

lemma split_nibbles:
  fixes h l :: u8
  assumes "unat h < 16" "unat l < 16"
  shows "drop_bit 4 (push_bit 4 h OR l) = h" "(push_bit 4 h OR l) AND 0x0f = l"
proof -
  have b: "take_bit 4 h = h" "take_bit 4 l = l"
    using assms by (simp_all add: word_unat_eq_iff unsigned_take_bit_eq take_bit_nat_eq_self)
  have bits: "\<not> bit h n" "\<not> bit l n" if "4 \<le> n" for n
    using b that by (metis bit_take_bit_iff not_le)+
  have m: "x AND 0x0f = take_bit 4 x" for x :: u8 by (simp add: take_bit_eq_mask mask_eq_exp_minus_1)
  show "drop_bit 4 (push_bit 4 h OR l) = h"
    by (rule bit_word_eqI) (use bits in \<open>auto simp: bit_simps not_le [symmetric]\<close>)
  show "(push_bit 4 h OR l) AND 0x0f = l"
    unfolding m by (rule bit_word_eqI) (use bits in \<open>auto simp: bit_simps not_le\<close>)
qed

lemma hex_to_byte_chars:
  "hex_to_byte (HEX_CHARS ! unat (drop_bit 4 b)) (HEX_CHARS ! unat (b AND 0x0f)) = Some b"
proof -
  have ne: "d \<noteq> 0xFF" if "unat (d :: u8) < 16" for d using that by (auto simp: word_unat_eq_iff)
  show ?thesis
    using unat_nibbles [of b]
    by (simp only: hex_to_byte_eq hex_char_value ne join_nibbles) simp
qed

lemma hex_to_byte_Some_iff:
  "hex_to_byte hi lo = Some b \<longleftrightarrow> is_hexdigit hi \<and> is_hexdigit lo \<and>
     HEX_CHARS ! unat (drop_bit 4 b) = to_lower hi \<and> HEX_CHARS ! unat (b AND 0x0f) = to_lower lo"
  (is "?L \<longleftrightarrow> ?R")
proof
  assume ?L
  then have v: "hex_digit_value hi \<noteq> 0xFF" "hex_digit_value lo \<noteq> 0xFF"
    "b = push_bit 4 (hex_digit_value hi) OR hex_digit_value lo"
    by (auto simp: hex_to_byte_eq split: if_splits)
  with hex_digit_value_cases [of hi] hex_digit_value_cases [of lo] show ?R
    by (simp only: split_nibbles simp_thms)
next
  have ne: "d \<noteq> 0xFF" if "unat (d :: u8) < 16" for d using that by (auto simp: word_unat_eq_iff)
  have low: "hex_digit_value (to_lower c) = hex_digit_value c" if "is_hexdigit c" for c
    using hex_digit_value_cases [of c] hex_char_value [of "hex_digit_value c"] that by auto
  assume r: ?R
  then have "hex_digit_value hi = drop_bit 4 b" "hex_digit_value lo = b AND 0x0f"
    using low hex_char_value unat_nibbles [of b] by metis+
  then show ?L using ne unat_nibbles [of b] by (simp only: hex_to_byte_eq join_nibbles) simp
qed

section \<open>Hash texts\<close>

lemma hash_to_str_simps [simp]:
  "hash_to_str [] = []"
  "hash_to_str (b # bs) = HEX_CHARS ! unat (drop_bit 4 b) # HEX_CHARS ! unat (b AND 0x0f) # hash_to_str bs"
  by (simp_all add: hash_to_str_def)

lemma length_hash_to_str [simp]: "length (hash_to_str h) = 2 * length h"
  by (induction h) simp_all

lemma hash_loop_to_str: "hash_from_str_loop (hash_to_str h) = Inr h"
  by (induction h) (simp_all add: hex_to_byte_chars)

lemma hash_from_to: "length h = 32 \<Longrightarrow> hash_from_str (hash_to_str h) = Inr h"
  by (simp add: hash_from_str_def hash_loop_to_str)

lemma hash_loop_Inr_iff:
  "even (length s) \<Longrightarrow> hash_from_str_loop s = Inr h \<longleftrightarrow>
     (\<forall>b \<in> set s. is_hexdigit b) \<and> hash_to_str h = map to_lower s"
proof (induction s arbitrary: h rule: hash_from_str_loop.induct)
  case (1 hi lo rest)
  show ?case
  proof (cases h)
    case Nil
    then show ?thesis by (auto split: option.splits sum.splits simp: map_sum_def)
  next
    case (Cons b h')
    have "hash_from_str_loop (hi # lo # rest) = Inr h \<longleftrightarrow>
        hex_to_byte hi lo = Some b \<and> hash_from_str_loop rest = Inr h'"
      using Cons by (cases "hash_from_str_loop rest") (auto split: option.splits)
    then show ?thesis using 1 Cons by (auto simp: hex_to_byte_Some_iff)
  qed
qed (auto simp: hash_to_str_def)

lemma hash_loop_cases: "hash_from_str_loop s = Inl e \<Longrightarrow> e = InvalidHex"
  by (induction s arbitrary: e rule: hash_from_str_loop.induct)
    (auto split: option.splits sum.splits simp: map_sum_def)

lemma hash_from_str_Inr_iff:
  "hash_from_str s = Inr h \<longleftrightarrow>
     length s = 64 \<and> (\<forall>b \<in> set s. is_hexdigit b) \<and> hash_to_str h = map to_lower s"
  by (auto simp: hash_from_str_def hash_loop_Inr_iff)

lemma hash_loop_hexdigits: "list_all is_hexdigit s \<Longrightarrow> \<exists>h. hash_from_str_loop s = Inr h"
proof (induction s rule: hash_from_str_loop.induct)
  case (1 hi lo rest)
  then have "hex_digit_value hi \<noteq> 0xFF" "hex_digit_value lo \<noteq> 0xFF"
    using hex_digit_value_cases [of hi] hex_digit_value_cases [of lo] by (auto simp: word_unat_eq_iff)
  with 1 show ?case by (auto simp: hex_to_byte_eq)
qed simp_all

lemma hash_from_str_length: "hash_from_str s = Inr h \<Longrightarrow> length h = 32"
  by (auto simp: hash_from_str_Inr_iff dest: arg_cong [where f = length])

section \<open>Properties\<close>

text \<open>Parsing a hash accepts exactly the 64-character texts of hexadecimal digits, in either case, and
  printing the result gives the text back in lower case; a wrong length and a wrong character are
  told apart.\<close>

theorem hash_from_str_exact:
  "(hash_from_str s = Inr h \<longleftrightarrow>
      length s = 64 \<and> list_all is_hexdigit s \<and> hash_to_str h = map to_lower s) \<and>
   (hash_from_str s = Inl e \<longleftrightarrow>
      e = InvalidLength \<and> length s \<noteq> 64 \<or>
      e = InvalidHex \<and> length s = 64 \<and> \<not> list_all is_hexdigit s)"
proof (intro conjI)
  show "hash_from_str s = Inr h \<longleftrightarrow>
      length s = 64 \<and> list_all is_hexdigit s \<and> hash_to_str h = map to_lower s"
    by (simp add: hash_from_str_Inr_iff list_all_iff)
  have "list_all is_hexdigit s \<longleftrightarrow> (\<exists>h. hash_from_str_loop s = Inr h)" if "length s = 64"
    using hash_loop_hexdigits [of s] that by (auto simp: hash_loop_Inr_iff list_all_iff)
  then show "hash_from_str s = Inl e \<longleftrightarrow>
      e = InvalidLength \<and> length s \<noteq> 64 \<or>
      e = InvalidHex \<and> length s = 64 \<and> \<not> list_all is_hexdigit s"
    using hash_loop_cases [of s] by (cases "hash_from_str_loop s") (auto simp: hash_from_str_def)
qed

end
