(* ===== verification/Ulid_Codec.thy ===== *)
theory Ulid_Codec
  imports Codec_Tables
begin

text \<open>
  \<open>src/common/utils/ulid.rs\<close>: 26-character Crockford base32 text of a \<open>u128\<close>.  The decoder defers the
  check of all but the first character: it ORs the table entries together and tests the union once
  after the loop.  Encoding and decoding are shown to be inverse, and the decoder to accept exactly
  the encoder's texts.
\<close>

section \<open>Constants and errors\<close>

definition ULID_LEN :: usize where
  "ULID_LEN = 26"

definition ALPHABET :: bytes where
  "ALPHABET = bytes_of ''0123456789ABCDEFGHJKMNPQRSTVWXYZ''"

definition LOOKUP :: bytes where
  "LOOKUP = decode_table ALPHABET"

datatype ulid_decode_error = InvalidChar

section \<open>Operations\<close>

text \<open>The \<open>while i < ULID_LEN\<close> loop of \<open>from_bytes\<close> over the characters after the first.\<close>

fun ulid_from_bytes_loop :: "bytes \<Rightarrow> u8 \<Rightarrow> u128 \<Rightarrow> u8 \<times> u128" where
  "ulid_from_bytes_loop [] check v = (check, v)"
| "ulid_from_bytes_loop (byte # rest) check v =
     (let val = LOOKUP ! unat byte
      in ulid_from_bytes_loop rest (check OR val) (push_bit 5 v OR ucast (val AND 0x1f)))"

definition ulid_from_bytes :: "bytes \<Rightarrow> ulid_decode_error + u128" where
  "ulid_from_bytes encoded =
     (let v0 = LOOKUP ! unat (encoded ! 0)
      in if v0 > 7 then Inl InvalidChar
         else let (check, v) = ulid_from_bytes_loop (drop 1 (take ULID_LEN encoded)) 0 (ucast v0)
              in if check > 31 then Inl InvalidChar else Inr v)"

text \<open>The encoder writes \<open>buffer[i]\<close> from the last position to the first.\<close>

primrec ulid_to_str_loop :: "u128 \<Rightarrow> usize \<Rightarrow> bytes" where
  "ulid_to_str_loop v 0 = []"
| "ulid_to_str_loop v (Suc i) = ulid_to_str_loop (drop_bit 5 v) i @ [ALPHABET ! unat (v AND 0x1f)]"

definition ulid_to_str :: "u128 \<Rightarrow> bytes" where
  "ulid_to_str v = ulid_to_str_loop v ULID_LEN"

section \<open>Digits\<close>

lemma length_ALPHABET [simp]: "length ALPHABET = 32"
  by (simp add: ALPHABET_def)

interpretation b32: digit_alphabet ALPHABET
proof unfold_locales
  show "distinct ALPHABET" by (simp add: ALPHABET_def bytes_of_def of_char_def)
qed simp

abbreviation digit32 :: "u8 \<Rightarrow> nat" where
  "digit32 \<equiv> digit_of ALPHABET"

abbreviation value32 :: "nat \<Rightarrow> bytes \<Rightarrow> nat" where
  "value32 \<equiv> radix_value ALPHABET"

lemmas digit32_ALPHABET = b32.digit_of_char [unfolded length_ALPHABET]

lemma digit32_lookup: "unat (LOOKUP ! unat b) = digit32 b"
  by (simp add: digit_of_def LOOKUP_def)

lemma lookup_cases: "b \<in> set ALPHABET \<and> unat (LOOKUP ! unat b) < 32 \<or> b \<notin> set ALPHABET \<and> LOOKUP ! unat b = 0xFF"
  using b32.digit_of_lt [of b] b32.table_other [of b] by (auto simp: LOOKUP_def digit_of_def)

lemma unat_and_1f: "unat (v AND 0x1f :: 'a::len word) = unat v mod 32" if "LENGTH('a) > 5"
proof -
  have "(0x1f :: 'a word) = mask 5" by (simp add: mask_eq_exp_minus_1)
  then have "v AND 0x1f = take_bit 5 v" by (simp only: take_bit_eq_mask)
  then have "unat (v AND 0x1f) = take_bit 5 (unat v)"
    using that by (simp only: unsigned_take_bit_eq)
  then show ?thesis by (simp add: take_bit_eq_mod)
qed

lemma shift_or_add:
  fixes v :: u128
  assumes "unat v < 2 ^ 123" and "unat d < 32"
  shows "unat (push_bit 5 v OR ucast (d AND 0x1f :: u8)) = unat v * 32 + unat d"
proof -
  let ?d = "ucast (d AND 0x1f) :: u128"
  have d: "unat ?d = unat d"
    using assms(2) by (simp add: unsigned_ucast_eq unat_and_1f take_bit_nat_eq_self)
  have p: "unat (push_bit 5 v) = unat v * 32"
    using assms(1) by (simp add: push_bit_eq_mult unat_word_ariths)
  have "bit (31 :: u8) n \<longleftrightarrow> n < 5" for n
    using bit_mask_iff [of 5 n, where ?'a = u8] by (auto simp: mask_eq_exp_minus_1)
  then have "push_bit 5 v AND ?d = 0"
    by (intro bit_word_eqI) (auto simp: bit_simps)
  then have "push_bit 5 v OR ?d = push_bit 5 v + ?d" by (simp add: disjunctive_add_eq_or)
  then show ?thesis using assms d p by (simp add: unat_word_ariths)
qed

text \<open>The deferred check: a union of bytes is at most 31 exactly when every byte is.\<close>

lemma le_31_drop: "(x :: u8) \<le> 31 \<longleftrightarrow> drop_bit 5 x = 0"
  by (simp add: word_le_nat_alt word_unat_eq_iff drop_bit_eq_div unat_div_distrib div_eq_0_iff) linarith

lemma or_le_31: "(x :: u8) OR y \<le> 31 \<longleftrightarrow> x \<le> 31 \<and> y \<le> 31"
  by (simp add: le_31_drop or_eq_0_iff)

section \<open>The decoding loop\<close>

lemma ulid_loop_check: "fst (ulid_from_bytes_loop bs check v) \<le> 31 \<longleftrightarrow> check \<le> 31 \<and> set bs \<subseteq> set ALPHABET"
proof (induction bs arbitrary: check v)
  case (Cons b bs)
  have "check OR LOOKUP ! unat b \<le> 31 \<longleftrightarrow> check \<le> 31 \<and> b \<in> set ALPHABET"
    using lookup_cases [of b] by (auto simp: or_le_31) (simp_all add: word_le_nat_alt)
  with Cons show ?case by (simp add: Let_def conj_assoc)
qed simp

lemma ulid_loop_value:
  "set bs \<subseteq> set ALPHABET \<Longrightarrow> value32 (unat v) bs < 2 ^ 128 \<Longrightarrow>
   unat (snd (ulid_from_bytes_loop bs check v)) = value32 (unat v) bs"
proof (induction bs arbitrary: check v)
  case (Cons b bs)
  let ?v = "push_bit 5 v OR ucast (LOOKUP ! unat b AND 0x1f)"
  have "unat v * 32 + digit32 b \<le> value32 (unat v) (b # bs)"
    using b32.radix_value_ge [of bs] by (simp flip: length_greater_0_conv)
  with Cons.prems(2) have "unat v < 2 ^ 123" by simp
  moreover have "unat (LOOKUP ! unat b) < 32" using Cons.prems(1) lookup_cases [of b] by auto
  ultimately have "unat ?v = unat v * 32 + digit32 b" by (simp only: shift_or_add digit32_lookup)
  with Cons show ?case by (simp add: Let_def)
qed simp

lemma ulid_first: "LOOKUP ! unat b \<le> 7 \<longleftrightarrow> b \<in> set ALPHABET \<and> digit32 b \<le> 7"
  using lookup_cases [of b] by (auto simp: word_le_nat_alt digit32_lookup [symmetric])

text \<open>With a first digit of at most 7 the 26 digits denote a number below \<open>2^128\<close>.\<close>

lemma ulid_value_lt:
  assumes "set bs \<subseteq> set ALPHABET" and "length bs = 25" and "d \<le> 7"
  shows "value32 d bs < 2 ^ 128"
proof -
  have "value32 d bs < (d + 1) * 32 ^ 25" using b32.radix_value_lt [OF assms(1), of d] assms(2) by simp
  also have "\<dots> \<le> 8 * 32 ^ 25" using assms(3) by (intro mult_right_mono) simp_all
  finally show ?thesis by simp
qed

text \<open>The decoder accepts a text exactly when its characters are digits and the first is at most 7.\<close>

lemma ulid_from_bytes_Cons:
  assumes "length bs = 25"
  shows "ulid_from_bytes (b # bs) =
    (if b \<in> set ALPHABET \<and> digit32 b \<le> 7 \<and> set bs \<subseteq> set ALPHABET
     then Inr (of_nat (value32 0 (b # bs))) else Inl InvalidChar)"
proof -
  let ?r = "ulid_from_bytes_loop bs 0 (ucast (LOOKUP ! unat b))"
  have v0: "unat (ucast (LOOKUP ! unat b) :: u128) = digit32 b"
    by (simp add: unsigned_ucast_eq digit32_lookup take_bit_nat_eq_self less_trans [OF digit_of_lt_256])
  have snd: "snd ?r = of_nat (value32 (digit32 b) bs)" if "set bs \<subseteq> set ALPHABET" "digit32 b \<le> 7"
  proof -
    have "unat (snd ?r) = value32 (digit32 b) bs"
      using ulid_loop_value [OF that(1), of "ucast (LOOKUP ! unat b)" 0]
        ulid_value_lt [OF that(1) assms that(2)] by (simp only: v0)
    then show ?thesis by (metis of_nat_unat ucast_id)
  qed
  have "ulid_from_bytes (b # bs) =
      (if LOOKUP ! unat b \<le> 7 \<and> fst ?r \<le> 31 then Inr (snd ?r) else Inl InvalidChar)"
    using assms by (auto simp: ulid_from_bytes_def Let_def ULID_LEN_def not_less not_le split: prod.splits)
  also have "\<dots> = (if b \<in> set ALPHABET \<and> digit32 b \<le> 7 \<and> set bs \<subseteq> set ALPHABET
     then Inr (snd ?r) else Inl InvalidChar)"
    by (simp add: ulid_loop_check ulid_first)
  finally show ?thesis by (simp add: snd)
qed

section \<open>The encoder\<close>

lemma length_ulid_loop [simp]: "length (ulid_to_str_loop v n) = n"
  by (induction n arbitrary: v) simp_all

lemma set_ulid_loop: "set (ulid_to_str_loop v n) \<subseteq> set ALPHABET"
  by (induction n arbitrary: v) (auto simp: unat_and_1f)

lemma unat_drop_5: "unat (drop_bit 5 (v :: u128)) = unat v div 32"
  using unat_div_distrib [of v 32] by (simp add: drop_bit_eq_div)

lemma value32_ulid_loop: "value32 a (ulid_to_str_loop v n) = a * 32 ^ n + unat v mod 32 ^ n"
proof (induction n arbitrary: v)
  case (Suc n)
  have "unat v mod 32 ^ Suc n = 32 * (unat v div 32 mod 32 ^ n) + unat v mod 32"
    by (simp add: mod_mult2_eq)
  with Suc show ?case
    by (simp add: digit32_ALPHABET unat_and_1f unat_drop_5 algebra_simps)
qed simp

lemma length_ulid_to_str [simp]: "length (ulid_to_str v) = 26"
  by (simp add: ulid_to_str_def ULID_LEN_def)

lemma value32_ulid_to_str: "value32 0 (ulid_to_str v) = unat v"
proof -
  have "unat v < 32 ^ 26" using u128_lt [of v] by simp
  then show ?thesis by (simp add: ulid_to_str_def ULID_LEN_def value32_ulid_loop)
qed

lemma ulid_from_to: "ulid_from_bytes (ulid_to_str v) = Inr v"
proof -
  obtain b bs where s: "ulid_to_str v = b # bs" "length bs = 25"
    using length_ulid_to_str [of v] by (cases "ulid_to_str v") simp_all
  have set: "set (b # bs) \<subseteq> set ALPHABET"
    using set_ulid_loop [of v 26] by (simp add: s(1) [symmetric] ulid_to_str_def ULID_LEN_def)
  have "digit32 b * 32 ^ 25 \<le> value32 0 (b # bs)"
    using b32.radix_value_power [of "digit32 b" bs] s(2) by simp
  also have "\<dots> = unat v" using value32_ulid_to_str [of v] by (simp only: s)
  also have "\<dots> < 8 * 32 ^ 25" using u128_lt [of v] by simp
  finally have "digit32 b < 8" by simp
  with set value32_ulid_to_str [of v] show ?thesis
    by (simp only: s ulid_from_bytes_Cons) simp
qed

section \<open>Properties\<close>

text \<open>A 26-character text decodes to \<open>v\<close> exactly when it is the encoding of \<open>v\<close>; in particular every
  \<open>u128\<close> survives the round trip, and the deferred check rejects every other text.\<close>

theorem ulid_decode_exact:
  assumes "length encoded = ULID_LEN"
  shows "ulid_from_bytes encoded = Inr v \<longleftrightarrow> ulid_to_str v = encoded"
proof
  assume r: "ulid_from_bytes encoded = Inr v"
  from assms obtain b bs where s: "encoded = b # bs" "length bs = 25"
    by (cases encoded) (simp_all add: ULID_LEN_def)
  with r have set: "set (b # bs) \<subseteq> set ALPHABET" "digit32 b \<le> 7" "v = of_nat (value32 0 (b # bs))"
    by (auto simp: ulid_from_bytes_Cons split: if_splits)
  then have "unat v = value32 0 (b # bs)"
    using ulid_value_lt [of bs "digit32 b"] s by (simp add: unsigned_of_nat take_bit_nat_eq_self)
  then show "ulid_to_str v = encoded"
    using set(1) s set_ulid_loop [of v 26]
    by (intro b32.radix_value_inj [of _ _ 0])
      (simp_all add: value32_ulid_to_str, simp add: ulid_to_str_def ULID_LEN_def)
qed (auto simp: ulid_from_to)

theorem ulid_decode_exact_witness:
  "length (ulid_to_str 42) = ULID_LEN \<and> ulid_from_bytes (ulid_to_str 42) = Inr 42"
  using ulid_decode_exact [of "ulid_to_str 42" 42] by (simp add: ULID_LEN_def)

end
