(* ===== verification/Base64_Codec.thy ===== *)
theory Base64_Codec
  imports Codec_Tables
begin

text \<open>
  \<open>src/common/utils/base64.rs\<close>: the unpadded base64 codec with the program's own alphabet.  The
  output slices are written strictly left to right, so the model returns the bytes written; the
  length theorems show that exactly the buffer reserved by the caller is filled.
\<close>

section \<open>Definitions\<close>

definition BASE64_CHARS :: bytes where
  "BASE64_CHARS = bytes_of ''-AaBbCcDdEeFfGgHhIiJjKkLlMmNnOoPpQqRrSsTtUuVvWwXxYyZz1032547698_''"

definition BASE64_DECODE_TABLE :: bytes where
  "BASE64_DECODE_TABLE = decode_table BASE64_CHARS"

definition encoded_len :: "usize \<Rightarrow> usize" where
  "encoded_len input_len =
     (let d = input_len div 3; r = input_len mod 3
      in (if r > 0 then d + 1 else d) * 4 - (if r = 1 then 2 else if r = 2 then 1 else 0))"

definition decoded_len :: "usize \<Rightarrow> usize option" where
  "decoded_len len =
     (if len mod 4 = 0 then Some (len div 4 * 3)
      else if len mod 4 = 2 then Some (len div 4 * 3 + 1)
      else if len mod 4 = 3 then Some (len div 4 * 3 + 2)
      else None)"

fun encode_to_slice_unchecked :: "bytes \<Rightarrow> bytes" where
  "encode_to_slice_unchecked (b1 # b2 # b3 # rest) =
     (let n = push_bit 16 (ucast b1 :: u32) OR push_bit 8 (ucast b2) OR ucast b3
      in BASE64_CHARS ! unat (drop_bit 18 n)
         # BASE64_CHARS ! unat (drop_bit 12 n AND 0x3F)
         # BASE64_CHARS ! unat (drop_bit 6 n AND 0x3F)
         # BASE64_CHARS ! unat (n AND 0x3F)
         # encode_to_slice_unchecked rest)"
| "encode_to_slice_unchecked [b1, b2] =
     (let n = push_bit 16 (ucast b1 :: u32) OR push_bit 8 (ucast b2)
      in [BASE64_CHARS ! unat (drop_bit 18 n),
          BASE64_CHARS ! unat (drop_bit 12 n AND 0x3F),
          BASE64_CHARS ! unat (drop_bit 6 n AND 0x3F)])"
| "encode_to_slice_unchecked [b1] =
     (let n = push_bit 16 (ucast b1 :: u32)
      in [BASE64_CHARS ! unat (drop_bit 18 n),
          BASE64_CHARS ! unat (drop_bit 12 n AND 0x3F)])"
| "encode_to_slice_unchecked [] = []"

text \<open>A remainder of one character is excluded by the callers (\<open>unreachable_unchecked\<close>).\<close>

fun decode_to_slice_unchecked :: "bytes \<Rightarrow> bytes" where
  "decode_to_slice_unchecked (i1 # i2 # i3 # i4 # rest) =
     (let c1 = BASE64_DECODE_TABLE ! unat i1; c2 = BASE64_DECODE_TABLE ! unat i2;
          c3 = BASE64_DECODE_TABLE ! unat i3; c4 = BASE64_DECODE_TABLE ! unat i4;
          n = push_bit 18 (ucast c1 :: u32) OR push_bit 12 (ucast c2) OR push_bit 6 (ucast c3)
              OR ucast c4
      in ucast (drop_bit 16 n) # ucast (drop_bit 8 n) # ucast n
         # decode_to_slice_unchecked rest)"
| "decode_to_slice_unchecked [i1, i2, i3] =
     (let c1 = BASE64_DECODE_TABLE ! unat i1; c2 = BASE64_DECODE_TABLE ! unat i2;
          c3 = BASE64_DECODE_TABLE ! unat i3
      in [push_bit 2 c1 OR drop_bit 4 c2, push_bit 4 c2 OR drop_bit 2 c3])"
| "decode_to_slice_unchecked [i1, i2] =
     (let c1 = BASE64_DECODE_TABLE ! unat i1; c2 = BASE64_DECODE_TABLE ! unat i2
      in [push_bit 2 c1 OR drop_bit 4 c2])"
| "decode_to_slice_unchecked _ = []"

definition to_base64 :: "bytes \<Rightarrow> bytes" where
  "to_base64 bs = (if bs = [] then [] else encode_to_slice_unchecked bs)"

definition from_base64 :: "bytes \<Rightarrow> bytes option" where
  "from_base64 input =
     (let len = length input
      in if len = 0 then Some []
         else case decoded_len len of
             None \<Rightarrow> None
           | Some output_len \<Rightarrow>
               if \<exists>b \<in> set input. BASE64_DECODE_TABLE ! unat b = 0xFF then None
               else Some (decode_to_slice_unchecked input))"

section \<open>The alphabet\<close>

lemma length_BASE64_CHARS [simp]: "length BASE64_CHARS = 64"
  by (simp add: BASE64_CHARS_def)

interpretation b64: digit_alphabet BASE64_CHARS
proof unfold_locales
  show "distinct BASE64_CHARS"
    by (simp add: BASE64_CHARS_def bytes_of_def of_char_def)
qed simp


section \<open>Bits of the three-byte group\<close>

definition pack24 :: "u8 \<Rightarrow> u8 \<Rightarrow> u8 \<Rightarrow> u32" where
  "pack24 b1 b2 b3 = push_bit 16 (ucast b1) OR push_bit 8 (ucast b2) OR ucast b3"

lemma bit_pack24:
  "bit (pack24 b1 b2 b3) i \<longleftrightarrow> (if i < 8 then bit b3 i else if i < 16 then bit b2 (i - 8)
     else i < 24 \<and> bit b1 (i - 16))"
proof -
  consider "i < 8" | "8 \<le> i" "i < 16" | "16 \<le> i" "i < 24" | "24 \<le> i" by linarith
  then show ?thesis
    by cases (auto simp: pack24_def bit_simps dest: bit_imp_le_length)
qed

lemma and_63: "(w :: 'a::len word) AND 0x3F = take_bit 6 w"
  by (simp add: take_bit_eq_mask mask_eq_exp_minus_1)

lemma join_sextets:
  fixes n :: u32
  assumes "\<And>i. 24 \<le> i \<Longrightarrow> \<not> bit n i"
  shows "push_bit 18 (ucast (ucast (drop_bit 18 n) :: u8) :: u32)
     OR push_bit 12 (ucast (ucast (take_bit 6 (drop_bit 12 n)) :: u8))
     OR push_bit 6 (ucast (ucast (take_bit 6 (drop_bit 6 n)) :: u8)) OR ucast (ucast (take_bit 6 n) :: u8)
     = n" (is "?m = n")
proof (rule bit_word_eqI)
  fix i assume "i < LENGTH(32)"
  then consider "i < 6" | "6 \<le> i" "i < 12" | "12 \<le> i" "i < 18" | "18 \<le> i" "i < 24"
    | "24 \<le> i" "i < 32" by fastforce
  then show "bit ?m i \<longleftrightarrow> bit n i"
    by cases (simp_all add: bit_simps assms, linarith+)
qed

lemma split_pack24:
  "ucast (drop_bit 16 (pack24 b1 b2 b3)) = b1" "ucast (drop_bit 8 (pack24 b1 b2 b3)) = b2"
  "ucast (pack24 b1 b2 b3) = b3"
  by ((rule bit_word_eqI, simp add: bit_unsigned_iff bit_drop_bit_eq bit_pack24)+)

lemma unat_take_bit_6: "unat (take_bit 6 (w :: u32)) < 64"
  by (simp add: unsigned_take_bit_eq take_bit_nat_less_exp [of 6, simplified])

lemma drop_18_pack24: "drop_bit 18 (pack24 b1 b2 b3) = take_bit 6 (drop_bit 18 (pack24 b1 b2 b3))"
  by (rule bit_word_eqI) (auto simp: bit_take_bit_iff bit_drop_bit_eq bit_pack24)

lemma drop_18_lt: "unat (drop_bit 18 (pack24 b1 b2 b3)) < 64"
  by (subst drop_18_pack24) (rule unat_take_bit_6)

lemma digit_table: "unat w < 64 \<Longrightarrow> BASE64_DECODE_TABLE ! unat (BASE64_CHARS ! unat (w :: u32)) = ucast w"
  by (simp add: BASE64_DECODE_TABLE_def b64.table_digit)

lemma digit_table_pack24 [codec_simps]:
  "BASE64_DECODE_TABLE ! unat (BASE64_CHARS ! unat (drop_bit 18 (pack24 b1 b2 b3)))
     = ucast (drop_bit 18 (pack24 b1 b2 b3))"
  "BASE64_DECODE_TABLE ! unat (BASE64_CHARS ! unat (take_bit 6 (w :: u32))) = ucast (take_bit 6 w)"
  by (subst drop_18_pack24, subst digit_table, simp add: unat_take_bit_6, subst drop_18_pack24, simp)
    (simp add: digit_table unat_take_bit_6)

lemma pack24_short:
  "push_bit 16 (ucast b1 :: u32) OR push_bit 8 (ucast b2) OR ucast b3 = pack24 b1 b2 b3"
  "push_bit 16 (ucast b1 :: u32) OR push_bit 8 (ucast b2) = pack24 b1 b2 0"
  "push_bit 16 (ucast b1 :: u32) = pack24 b1 0 0"
  by (simp_all add: pack24_def)

lemma tail_bytes [codec_simps]:
  fixes b1 b2 :: u8
  shows "push_bit 2 (ucast (drop_bit 18 (pack24 b1 b2 0)) :: u8)
      OR drop_bit 4 (ucast (take_bit 6 (drop_bit 12 (pack24 b1 b2 0)))) = b1" (is ?A)
    and "push_bit 4 (ucast (take_bit 6 (drop_bit 12 (pack24 b1 b2 0))) :: u8)
      OR drop_bit 2 (ucast (take_bit 6 (drop_bit 6 (pack24 b1 b2 0)))) = b2" (is ?B)
proof -
  have u8: "i < LENGTH(8) \<Longrightarrow> i = 0 \<or> i = 1 \<or> i = 2 \<or> i = 3 \<or> i = 4 \<or> i = 5 \<or> i = 6 \<or> i = 7"
    for i by auto
  show ?A by (rule bit_word_eqI, drule u8, elim disjE)
    (simp_all add: bit_or_iff bit_push_bit_iff bit_drop_bit_eq bit_unsigned_iff bit_take_bit_iff
      bit_pack24 exp_eq_zero_iff)
  show ?B by (rule bit_word_eqI, drule u8, elim disjE)
    (simp_all add: bit_or_iff bit_push_bit_iff bit_drop_bit_eq bit_unsigned_iff bit_take_bit_iff
      bit_pack24 exp_eq_zero_iff)
qed

section \<open>Round trip\<close>

lemma encode_group3:
  "encode_to_slice_unchecked (b1 # b2 # b3 # rest) =
     BASE64_CHARS ! unat (drop_bit 18 (pack24 b1 b2 b3))
     # BASE64_CHARS ! unat (take_bit 6 (drop_bit 12 (pack24 b1 b2 b3)))
     # BASE64_CHARS ! unat (take_bit 6 (drop_bit 6 (pack24 b1 b2 b3)))
     # BASE64_CHARS ! unat (take_bit 6 (pack24 b1 b2 b3))
     # encode_to_slice_unchecked rest"
  by (simp only: encode_to_slice_unchecked.simps Let_def and_63 pack24_def)

lemma encode_group2:
  "encode_to_slice_unchecked [b1, b2] =
     [BASE64_CHARS ! unat (drop_bit 18 (pack24 b1 b2 0)),
      BASE64_CHARS ! unat (take_bit 6 (drop_bit 12 (pack24 b1 b2 0))),
      BASE64_CHARS ! unat (take_bit 6 (drop_bit 6 (pack24 b1 b2 0)))]"
  by (simp only: encode_to_slice_unchecked.simps Let_def and_63 pack24_short(2))

lemma encode_group1:
  "encode_to_slice_unchecked [b1] =
     [BASE64_CHARS ! unat (drop_bit 18 (pack24 b1 0 0)),
      BASE64_CHARS ! unat (take_bit 6 (drop_bit 12 (pack24 b1 0 0)))]"
  by (simp only: encode_to_slice_unchecked.simps Let_def and_63 pack24_short(3))

lemma decode_encode: "decode_to_slice_unchecked (encode_to_slice_unchecked bs) = bs"
proof (induction bs rule: encode_to_slice_unchecked.induct)
  case (1 b1 b2 b3 rest)
  have "push_bit 18 (ucast (ucast (drop_bit 18 (pack24 b1 b2 b3)) :: u8) :: u32)
     OR push_bit 12 (ucast (ucast (take_bit 6 (drop_bit 12 (pack24 b1 b2 b3))) :: u8))
     OR push_bit 6 (ucast (ucast (take_bit 6 (drop_bit 6 (pack24 b1 b2 b3))) :: u8))
     OR ucast (ucast (take_bit 6 (pack24 b1 b2 b3)) :: u8) = pack24 b1 b2 b3"
    by (rule join_sextets) (simp add: bit_pack24)
  with 1 show ?case
    by (simp only: encode_group3 decode_to_slice_unchecked.simps Let_def codec_simps split_pack24)
qed (simp_all only: encode_group2 encode_group1 encode_to_slice_unchecked.simps(4)
    decode_to_slice_unchecked.simps Let_def codec_simps)

lemma div_mod_forms:
  fixes q :: nat
  shows "(3 * q) div 3 = q" "(3 * q + 1) div 3 = q" "(3 * q + 2) div 3 = q"
    "(3 * q) mod 3 = 0" "(3 * q + 1) mod 3 = 1" "(3 * q + 2) mod 3 = 2"
    "(4 * q) div 4 = q" "(4 * q + 1) div 4 = q" "(4 * q + 2) div 4 = q" "(4 * q + 3) div 4 = q"
    "(4 * q) mod 4 = 0" "(4 * q + 1) mod 4 = 1" "(4 * q + 2) mod 4 = 2" "(4 * q + 3) mod 4 = 3"
  by presburger+

lemma encoded_len_forms:
  "encoded_len (3 * q) = 4 * q" "encoded_len (3 * q + 1) = 4 * q + 2" "encoded_len (3 * q + 2) = 4 * q + 3"
  unfolding encoded_len_def Let_def div_mod_forms by simp_all

lemma decoded_len_forms:
  "decoded_len (4 * q) = Some (3 * q)" "decoded_len (4 * q + 1) = None"
  "decoded_len (4 * q + 2) = Some (3 * q + 1)" "decoded_len (4 * q + 3) = Some (3 * q + 2)"
  unfolding decoded_len_def div_mod_forms by simp_all

lemma mod3_forms: obtains q where "n = 3 * q" | q where "n = 3 * q + 1" | q where "n = 3 * q + (2::nat)"
proof -
  have "n = 3 * (n div 3) + n mod 3" by simp
  moreover consider "n mod 3 = 0" | "n mod 3 = 1" | "n mod 3 = 2" by linarith
  ultimately show thesis using that by (metis add.right_neutral)
qed

lemma mod4_forms:
  obtains q where "n = 4 * q" | q where "n = 4 * q + 1" | q where "n = 4 * q + 2" | q where "n = 4 * q + (3::nat)"
proof -
  have "n = 4 * (n div 4) + n mod 4" by simp
  moreover consider "n mod 4 = 0" | "n mod 4 = 1" | "n mod 4 = 2" | "n mod 4 = 3" by linarith
  ultimately show thesis using that by (metis add.right_neutral)
qed

lemma encoded_len_step: "encoded_len (Suc (Suc (Suc n))) = encoded_len n + 4"
proof (cases n rule: mod3_forms)
  case (1 q)
  then have "Suc (Suc (Suc n)) = 3 * (q + 1)" by simp
  with 1 show ?thesis by (simp only: encoded_len_forms; simp)
next
  case (2 q)
  then have "Suc (Suc (Suc n)) = 3 * (q + 1) + 1" by simp
  with 2 show ?thesis by (simp only: encoded_len_forms; simp)
next
  case (3 q)
  then have "Suc (Suc (Suc n)) = 3 * (q + 1) + 2" by simp
  with 3 show ?thesis by (simp only: encoded_len_forms; simp)
qed

lemma decoded_len_step:
  "decoded_len (Suc (Suc (Suc (Suc n)))) = map_option (\<lambda>k. k + 3) (decoded_len n)"
proof -
  have e: "Suc (Suc (Suc (Suc n))) = n + 4" by simp
  have "(n + 4) div 4 = n div 4 + 1" "(n + 4) mod 4 = n mod 4" by simp_all
  then show ?thesis unfolding e decoded_len_def by simp
qed

lemma length_encode: "length (encode_to_slice_unchecked bs) = encoded_len (length bs)"
  by (induction bs rule: encode_to_slice_unchecked.induct)
    (simp_all add: Let_def encoded_len_step, simp_all add: encoded_len_def)

lemma length_decode:
  "decoded_len (length bs) = Some k \<Longrightarrow> length (decode_to_slice_unchecked bs) = k"
  by (induction bs arbitrary: k rule: decode_to_slice_unchecked.induct)
    (auto simp: Let_def decoded_len_step, simp_all add: decoded_len_def)

lemma set_encode: "set (encode_to_slice_unchecked bs) \<subseteq> set BASE64_CHARS"
proof (induction bs rule: encode_to_slice_unchecked.induct)
  case (1 b1 b2 b3 rest)
  then show ?case
    by (subst encode_group3) (simp add: drop_18_lt unat_take_bit_6)
qed (simp_all only: encode_group2 encode_group1, simp_all add: drop_18_lt unat_take_bit_6)


lemma decoded_len_encoded_len: "decoded_len (encoded_len n) = Some n"
  by (cases n rule: mod3_forms) (simp_all only: encoded_len_forms decoded_len_forms)

lemma decoded_len_None_iff: "decoded_len n = None \<longleftrightarrow> n mod 4 = 1"
  by (cases n rule: mod4_forms) (simp_all only: decoded_len_forms div_mod_forms, simp_all)

lemma from_base64_None_iff:
  "from_base64 s = None \<longleftrightarrow> length s mod 4 = 1 \<or> \<not> set s \<subseteq> set BASE64_CHARS"
proof -
  have "BASE64_DECODE_TABLE ! unat b = 0xFF \<longleftrightarrow> b \<notin> set BASE64_CHARS" for b
    unfolding BASE64_DECODE_TABLE_def by (rule b64.table_invalid_iff)
  then show ?thesis
    unfolding from_base64_def Let_def decoded_len_None_iff [symmetric]
    by (cases "decoded_len (length s)") (auto simp: decoded_len_def [of 0])
qed

section \<open>Properties\<close>

text \<open>Decoding undoes encoding on every byte string, and the encoder fills exactly the
  \<open>encoded_len\<close> bytes its caller reserved.\<close>

theorem base64_roundtrip:
  "from_base64 (to_base64 bs) = Some bs \<and> length (to_base64 bs) = encoded_len (length bs)"
proof (cases "bs = []")
  case True
  then show ?thesis by (simp add: to_base64_def from_base64_def encoded_len_def)
next
  case False
  have "BASE64_DECODE_TABLE ! unat b \<noteq> 0xFF" if "b \<in> set (encode_to_slice_unchecked bs)" for b
    using that set_encode b64.table_invalid_iff unfolding BASE64_DECODE_TABLE_def by blast
  moreover have "length (encode_to_slice_unchecked bs) \<noteq> 0"
    using False decode_encode [of bs] by (cases "encode_to_slice_unchecked bs") auto
  ultimately show ?thesis
    using False by (auto simp: from_base64_def to_base64_def Let_def length_encode decode_encode
        decoded_len_encoded_len)
qed

text \<open>Decoding rejects exactly the inputs with a character outside the alphabet and those whose
  length is 1 modulo 4; otherwise it fills exactly \<open>decoded_len\<close> bytes.\<close>

theorem from_base64_total:
  "(from_base64 s = None \<longleftrightarrow> length s mod 4 = 1 \<or> (\<exists>b \<in> set s. b \<notin> set BASE64_CHARS)) \<and>
   (case from_base64 s of None \<Rightarrow> True | Some bs \<Rightarrow> decoded_len (length s) = Some (length bs))"
  unfolding from_base64_None_iff subset_iff
  by (cases "decoded_len (length s)")
    (auto simp: from_base64_def Let_def decoded_len_def [of 0] dest: length_decode)

text \<open>The alphabet is the program's own: the base64 texts and the rejected input that the unit
  tests of the module name are not what the codec computes.\<close>

theorem base64_tests_disagree:
  "to_base64 (bytes_of ''f'') = bytes_of ''Mp'' \<and> to_base64 (bytes_of ''f'') \<noteq> bytes_of ''Zg'' \<and>
   from_base64 (bytes_of ''ABC'') \<noteq> None"
proof -
  have "to_base64 (bytes_of ''f'') = bytes_of ''Mp''"
    by (simp add: to_base64_def BASE64_CHARS_def bytes_of_def of_char_def)
  moreover have "set (bytes_of ''ABC'') \<subseteq> set BASE64_CHARS"
    by (simp add: BASE64_CHARS_def bytes_of_def)
  ultimately show ?thesis
    by (auto simp: from_base64_None_iff) (simp add: bytes_of_def of_char_def)
qed

end
