(* ===== verification/Text_Utils.thy ===== *)
theory Text_Utils
  imports Codec_Tables
begin

text \<open>
  The parts of Rust's standard library that the text-handling code relies on: decimal printing and
  parsing of unsigned integers, native-endian byte images, and the \<open>str\<close> searches \<open>split_once\<close>,
  \<open>split\<close>, \<open>strip_prefix\<close>, \<open>starts_with\<close> and \<open>trim\<close>.  A \<open>str\<close> is the list of its UTF-8 bytes.
\<close>

type_synonym str = bytes

section \<open>Decimal numbers\<close>

definition DIGITS :: bytes where
  "DIGITS = bytes_of ''0123456789''"

lemma length_DIGITS [simp]: "length DIGITS = 10"
  by (simp add: DIGITS_def)

interpretation dec: digit_alphabet DIGITS
proof unfold_locales
  show "distinct DIGITS" by (simp add: DIGITS_def bytes_of_def of_char_def)
qed simp

fun decimal :: "nat \<Rightarrow> str" where
  "decimal n = (if n < 10 then [DIGITS ! n] else decimal (n div 10) @ [DIGITS ! (n mod 10)])"

declare decimal.simps [simp del]

definition is_ascii_digit :: "u8 \<Rightarrow> bool" where
  "is_ascii_digit b \<longleftrightarrow> b \<in> set DIGITS"

text \<open>\<open>str::parse\<close> for an unsigned type with the values below \<open>bound\<close>.\<close>

definition parse_unsigned :: "nat \<Rightarrow> str \<Rightarrow> nat option" where
  "parse_unsigned bound s =
     (let ds = (case s of b # r \<Rightarrow> if b = 0x2B \<and> r \<noteq> [] then r else s | [] \<Rightarrow> [])
      in if ds \<noteq> [] \<and> list_all is_ascii_digit ds \<and> radix_value DIGITS 0 ds < bound
         then Some (radix_value DIGITS 0 ds) else None)"

lemma decimal_not_Nil [simp]: "decimal n \<noteq> []"
  by (subst decimal.simps) simp

lemma set_decimal: "set (decimal n) \<subseteq> set DIGITS"
  by (induction n rule: decimal.induct) (subst decimal.simps, auto)

lemma decimal_digits [simp]: "list_all is_ascii_digit (decimal n)"
  using set_decimal by (auto simp: list_all_iff is_ascii_digit_def)

lemma radix_value_decimal [simp]: "radix_value DIGITS 0 (decimal n) = n"
proof (induction n rule: decimal.induct)
  case (1 n)
  then show ?case
    by (subst decimal.simps) (simp add: dec.digit_of_char [unfolded length_DIGITS])
qed

lemma decimal_inj [simp]: "decimal m = decimal n \<longleftrightarrow> m = n"
  by (metis radix_value_decimal)

lemma length_decimal: "n < 10 ^ k \<Longrightarrow> 0 < k \<Longrightarrow> length (decimal n) \<le> k"
proof (induction n arbitrary: k rule: decimal.induct)
  case (1 n)
  show ?case
  proof (cases "n < 10")
    case True
    then show ?thesis using "1.prems" by (subst decimal.simps) simp
  next
    case False
    with "1.prems" obtain j where k: "k = Suc j" "0 < j"
      by (metis (no_types) Suc_pred gr0I power_one_right One_nat_def)
    with "1.prems"(1) have "n div 10 < 10 ^ j" by (simp add: less_mult_imp_div_less mult.commute)
    with "1.IH" False k have "length (decimal (n div 10)) \<le> j" by blast
    with False k show ?thesis by (subst decimal.simps) simp
  qed
qed

lemma digit_not_plus: "is_ascii_digit b \<Longrightarrow> b \<noteq> 0x2B"
  by (auto simp: is_ascii_digit_def DIGITS_def bytes_of_def of_char_def)

lemma parse_decimal: "parse_unsigned bound (decimal n) = (if n < bound then Some n else None)"
proof -
  obtain b r where "decimal n = b # r" by (cases "decimal n") auto
  moreover from this have "b \<noteq> 0x2B" using decimal_digits [of n] digit_not_plus by auto
  ultimately have "(case decimal n of b # r \<Rightarrow> if b = 0x2B \<and> r \<noteq> [] then r else decimal n | [] \<Rightarrow> []) = decimal n"
    by simp
  then show ?thesis by (simp only: parse_unsigned_def Let_def) simp
qed

section \<open>Native-endian byte images\<close>

datatype endian = Little | Big

primrec to_le :: "nat \<Rightarrow> nat \<Rightarrow> bytes" where
  "to_le 0 v = []"
| "to_le (Suc n) v = of_nat (v mod 256) # to_le n (v div 256)"

fun of_le :: "bytes \<Rightarrow> nat" where
  "of_le [] = 0"
| "of_le (b # bs) = unat b + 256 * of_le bs"

definition to_ne :: "endian \<Rightarrow> nat \<Rightarrow> nat \<Rightarrow> bytes" where
  "to_ne e n v = (case e of Little \<Rightarrow> to_le n v | Big \<Rightarrow> rev (to_le n v))"

definition of_ne :: "endian \<Rightarrow> bytes \<Rightarrow> nat" where
  "of_ne e bs = (case e of Little \<Rightarrow> of_le bs | Big \<Rightarrow> of_le (rev bs))"

lemma length_to_le [simp]: "length (to_le n v) = n"
  by (induction n arbitrary: v) simp_all

lemma length_to_ne [simp]: "length (to_ne e n v) = n"
  by (simp add: to_ne_def split: endian.splits)

lemma of_le_lt: "of_le bs < 256 ^ length bs"
proof (induction bs)
  case (Cons b bs)
  then have "of_le bs + 1 \<le> 256 ^ length bs" by simp
  then have "256 * (of_le bs + 1) \<le> 256 ^ length (b # bs)" by simp
  then show ?case using u8_lt_256 [of b] by (simp del: u8_lt_256)
qed simp

lemma of_to_le: "of_le (to_le n v) = v mod 256 ^ n"
proof (induction n arbitrary: v)
  case (Suc n)
  have "unat (of_nat (v mod 256) :: u8) = v mod 256"
    by (simp add: unsigned_of_nat take_bit_nat_eq_self)
  with Suc show ?case by (simp add: mod_mult2_eq del: unsigned_of_nat)
qed simp

lemma to_of_le: "to_le (length bs) (of_le bs) = bs"
proof (induction bs)
  case (Cons b bs)
  have "(unat b + 256 * of_le bs) mod 256 = unat b" "(unat b + 256 * of_le bs) div 256 = of_le bs"
    by simp_all
  with Cons show ?case by simp
qed simp

lemma of_to_ne: "v < 256 ^ n \<Longrightarrow> of_ne e (to_ne e n v) = v"
  by (simp add: of_ne_def to_ne_def of_to_le split: endian.splits)

lemma to_of_ne: "length bs = n \<Longrightarrow> to_ne e n (of_ne e bs) = bs"
  using to_of_le [of bs] to_of_le [of "rev bs"]
  by (auto simp: of_ne_def to_ne_def split: endian.splits)

lemma of_ne_lt: "of_ne e bs < 256 ^ length bs"
  using of_le_lt [of bs] of_le_lt [of "rev bs"] by (simp add: of_ne_def split: endian.splits)

section \<open>Searching in text\<close>

definition starts_with :: "str \<Rightarrow> str \<Rightarrow> bool" where
  "starts_with s p \<longleftrightarrow> take (length p) s = p"

definition strip_prefix :: "str \<Rightarrow> str \<Rightarrow> str option" where
  "strip_prefix s p = (if starts_with s p then Some (drop (length p) s) else None)"

fun split_once :: "u8 \<Rightarrow> str \<Rightarrow> (str \<times> str) option" where
  "split_once c [] = None"
| "split_once c (b # s) =
     (if b = c then Some ([], s)
      else map_option (\<lambda>(l, r). (b # l, r)) (split_once c s))"

fun split_on :: "u8 \<Rightarrow> str \<Rightarrow> str list" where
  "split_on c [] = [[]]"
| "split_on c (b # s) =
     (if b = c then [] # split_on c s
      else case split_on c s of [] \<Rightarrow> [[b]] | p # ps \<Rightarrow> (b # p) # ps)"

text \<open>\<open>str::contains\<close> with a text pattern.\<close>

fun str_contains :: "str \<Rightarrow> str \<Rightarrow> bool" where
  "str_contains [] p = (p = [])"
| "str_contains (b # s) p = (starts_with (b # s) p \<or> str_contains s p)"

lemma starts_with_append [simp]: "starts_with (p @ s) p"
  by (simp add: starts_with_def)

lemma strip_prefix_append [simp]: "strip_prefix (p @ s) p = Some s"
  by (simp add: strip_prefix_def)

lemma strip_prefix_Some_iff: "strip_prefix s p = Some r \<longleftrightarrow> s = p @ r"
  by (auto simp: strip_prefix_def starts_with_def) (metis append_take_drop_id)

lemma split_once_append [simp]: "c \<notin> set l \<Longrightarrow> split_once c (l @ c # r) = Some (l, r)"
  by (induction l) auto

lemma split_once_Some_iff: "split_once c s = Some (l, r) \<longleftrightarrow> s = l @ c # r \<and> c \<notin> set l"
proof
  show "split_once c s = Some (l, r) \<Longrightarrow> s = l @ c # r \<and> c \<notin> set l"
    by (induction s arbitrary: l) (auto split: if_splits)
qed auto

lemma starts_with_iff: "starts_with s p \<longleftrightarrow> (\<exists>r. s = p @ r)"
  by (auto simp: starts_with_def) (metis append_take_drop_id)

lemma str_contains_iff: "str_contains s p \<longleftrightarrow> (\<exists>l r. s = l @ p @ r)"
proof (induction s)
  case (Cons b s)
  have "(\<exists>l r. b # s = l @ p @ r) \<longleftrightarrow> (\<exists>r. b # s = p @ r) \<or> (\<exists>l r. s = l @ p @ r)"
    by (metis append_Cons append_Nil list.inject neq_Nil_conv)
  with Cons show ?case by (simp add: starts_with_iff)
qed simp

lemma split_on_not_Nil [simp]: "split_on c s \<noteq> []"
  by (induction s) (auto split: list.splits)

lemma split_once_None_iff: "split_once c s = None \<longleftrightarrow> c \<notin> set s"
  by (induction s) auto

section \<open>White space\<close>

definition is_ascii_space :: "u8 \<Rightarrow> bool" where
  "is_ascii_space b \<longleftrightarrow> 0x09 \<le> b \<and> b \<le> 0x0D \<or> b = 0x20"

text \<open>The bytes of the white space character (\<open>char::is_whitespace\<close>) a text starts with, 0 if there is none.\<close>

fun ws_len :: "str \<Rightarrow> nat" where
  "ws_len [] = 0"
| "ws_len (a # s) =
     (if is_ascii_space a then 1
      else case s of
          [] \<Rightarrow> 0
        | b # t \<Rightarrow>
            if a = 0xC2 \<and> (b = 0x85 \<or> b = 0xA0) then 2
            else case t of
                [] \<Rightarrow> 0
              | c # _ \<Rightarrow>
                  if a = 0xE1 \<and> b = 0x9A \<and> c = 0x80 \<or>
                     a = 0xE2 \<and> b = 0x80 \<and> (0x80 \<le> c \<and> c \<le> 0x8A \<or> c = 0xA8 \<or> c = 0xA9 \<or> c = 0xAF) \<or>
                     a = 0xE2 \<and> b = 0x81 \<and> c = 0x9F \<or>
                     a = 0xE3 \<and> b = 0x80 \<and> c = 0x80 then 3
                  else 0)"

text \<open>The same for the end of a text.\<close>

definition ws_len_end :: "str \<Rightarrow> nat" where
  "ws_len_end s =
     (if ws_len (drop (length s - 1) s) = 1 then 1
      else if 2 \<le> length s \<and> ws_len (drop (length s - 2) s) = 2 then 2
      else if 3 \<le> length s \<and> ws_len (drop (length s - 3) s) = 3 then 3
      else 0)"

lemma ws_len_le: "ws_len s \<le> length s"
  by (induction s rule: ws_len.induct) (auto split: list.splits)

function trim_start :: "str \<Rightarrow> str" where
  "trim_start s = (if ws_len s = 0 then s else trim_start (drop (ws_len s) s))"
  by pat_completeness auto
termination
proof (relation "measure length")
  fix s assume "ws_len s \<noteq> 0"
  moreover from this have "s \<noteq> []" by auto
  ultimately show "(drop (ws_len s) s, s) \<in> measure length" by simp
qed simp

function trim_end :: "str \<Rightarrow> str" where
  "trim_end s = (if ws_len_end s = 0 then s else trim_end (take (length s - ws_len_end s) s))"
  by pat_completeness auto
termination
proof (relation "measure length")
  fix s assume "ws_len_end s \<noteq> 0"
  moreover from this have "s \<noteq> []" by (auto simp: ws_len_end_def)
  ultimately show "(take (length s - ws_len_end s) s, s) \<in> measure length" by simp
qed simp

declare trim_start.simps [simp del] trim_end.simps [simp del]

definition trim :: "str \<Rightarrow> str" where
  "trim s = trim_end (trim_start s)"

lemma ws_len_plain: "a < 0x80 \<Longrightarrow> \<not> is_ascii_space a \<Longrightarrow> ws_len (a # s) = 0"
  by (auto split: list.splits)

lemma trim_start_plain: "ws_len s = 0 \<Longrightarrow> trim_start s = s"
  by (subst trim_start.simps) simp

lemma trim_start_space: "trim_start (0x20 # s) = trim_start s"
  by (subst trim_start.simps) (simp add: is_ascii_space_def)

lemma ws_len_end_plain:
  assumes "a < 0x80" and "\<not> is_ascii_space a"
  shows "ws_len_end (s @ [a]) = 0"
proof -
  have w: "ws_len [a] \<noteq> 1" "ws_len [x, a] \<noteq> 2" "ws_len [y, x, a] \<noteq> 3" for x y using assms by auto
  consider "s = []" | x where "s = [x]" | t y x where "s = t @ [y, x]"
    by (metis append.assoc append_Cons append_Nil rev_exhaust)
  then show ?thesis using w by cases (simp_all add: ws_len_end_def)
qed

lemma trim_end_plain: "a < 0x80 \<Longrightarrow> \<not> is_ascii_space a \<Longrightarrow> trim_end (s @ [a]) = s @ [a]"
  by (subst trim_end.simps) (simp add: ws_len_end_plain)

declare ws_len.simps(2) [simp del]

end
