(* ===== verification/Token_Identity.thy ===== *)
theory Token_Identity
  imports Hash_Hex Ulid_Codec Base64_Codec Text_Utils
begin

text \<open>
  What identifies a token, from \<open>src/app/model/token.rs\<close>, \<open>token/provider.rs\<close> and \<open>token/cache.rs\<close>:
  the \<open>Randomness\<close>, the \<open>UserId\<close> in its two text formats, the provider list, the \<open>Subject\<close>, the
  \<open>TokenKey\<close> with its two text forms, and the token text itself.  \<open>from_ne_bytes\<close> depends on the
  target, so the definitions take the endianness.  The JSON and base64 crates are parameters.
\<close>

section \<open>Randomness\<close>

datatype randomness_error = RInvalidLength | RInvalidFormat

definition BYTE_OFFSETS :: "usize list" where
  "BYTE_OFFSETS = [0, 2, 4, 6, 9, 11, 14, 16]"

text \<open>The buffer of \<open>to_str\<close>: eight digit pairs at \<open>BYTE_OFFSETS\<close>, then the two separators.\<close>

fun randomness_write :: "bytes \<Rightarrow> usize list \<Rightarrow> bytes \<Rightarrow> bytes" where
  "randomness_write (byte # bytes) (pos # offsets) buf =
     randomness_write bytes offsets
       (buf[pos := HEX_CHARS ! unat (drop_bit 4 byte), pos + 1 := HEX_CHARS ! unat (byte AND 0x0F)])"
| "randomness_write _ _ buf = buf"

definition randomness_to_str :: "endian \<Rightarrow> u64 \<Rightarrow> str" where
  "randomness_to_str e r =
     (randomness_write (to_ne e 8 (unat r)) BYTE_OFFSETS (replicate 18 0))[8 := 0x2D, 13 := 0x2D]"

fun randomness_read :: "bytes \<Rightarrow> usize list \<Rightarrow> bytes option" where
  "randomness_read bytes [] = Some []"
| "randomness_read bytes (pos # offsets) =
     (case hex_to_byte (bytes ! pos) (bytes ! (pos + 1)) of
        None \<Rightarrow> None
      | Some b \<Rightarrow> map_option (\<lambda>r. b # r) (randomness_read bytes offsets))"

definition randomness_from_str :: "endian \<Rightarrow> str \<Rightarrow> randomness_error + u64" where
  "randomness_from_str e s =
     (if length s \<noteq> 18 then Inl RInvalidLength
      else if s ! 8 \<noteq> 0x2D \<or> s ! 13 \<noteq> 0x2D then Inl RInvalidFormat
      else case randomness_read s BYTE_OFFSETS of
          None \<Rightarrow> Inl RInvalidFormat
        | Some result \<Rightarrow> Inr (of_nat (of_ne e result)))"

section \<open>Providers\<close>

datatype subject_error =
  MissingProvider | MissingUserId | SInvalidFormat | InvalidUlid | SInvalidHex | UnsupportedProvider

definition AUTH0 :: str where "AUTH0 = bytes_of ''auth0''"
definition GOOGLE_OAUTH2 :: str where "GOOGLE_OAUTH2 = bytes_of ''google-oauth2''"
definition GITHUB :: str where "GITHUB = bytes_of ''github''"

definition DEFAULT_PROVIDERS :: "str list" where
  "DEFAULT_PROVIDERS = [AUTH0, GOOGLE_OAUTH2, GITHUB]"

text \<open>A provider is an index into the global list \<open>PROVIDERS\<close>.\<close>

fun position_of :: "str \<Rightarrow> str list \<Rightarrow> usize option" where
  "position_of s [] = None"
| "position_of s (p # ps) = (if s = p then Some 0 else map_option Suc (position_of s ps))"

definition provider_from_str :: "str list \<Rightarrow> str \<Rightarrow> subject_error + usize" where
  "provider_from_str PROVIDERS s =
     (case position_of s PROVIDERS of None \<Rightarrow> Inl UnsupportedProvider | Some i \<Rightarrow> Inr i)"

definition provider_as_str :: "str list \<Rightarrow> usize \<Rightarrow> str" where
  "provider_as_str PROVIDERS p = PROVIDERS ! p"

datatype provider_helper = HAuth0 | HGithub | HGoogle | HOther str

definition provider_to_helper :: "str list \<Rightarrow> usize \<Rightarrow> provider_helper" where
  "provider_to_helper PROVIDERS p =
     (let s = provider_as_str PROVIDERS p
      in if s = AUTH0 then HAuth0 else if s = GITHUB then HGithub
         else if s = GOOGLE_OAUTH2 then HGoogle else HOther s)"

fun provider_try_extract :: "str list \<Rightarrow> provider_helper \<Rightarrow> subject_error + usize" where
  "provider_try_extract PROVIDERS HAuth0 = provider_from_str PROVIDERS AUTH0"
| "provider_try_extract PROVIDERS HGithub = provider_from_str PROVIDERS GITHUB"
| "provider_try_extract PROVIDERS HGoogle = provider_from_str PROVIDERS GOOGLE_OAUTH2"
| "provider_try_extract PROVIDERS (HOther s) = provider_from_str PROVIDERS s"

text \<open>\<open>parse_providers\<close>: the new list, from the environment variable if it is set.\<close>

definition parse_providers :: "str option \<Rightarrow> str list \<Rightarrow> str list" where
  "parse_providers ALLOWED_PROVIDERS PROVIDERS =
     (case ALLOWED_PROVIDERS of
        None \<Rightarrow> PROVIDERS
      | Some env \<Rightarrow>
          let v = filter (\<lambda>s. s \<noteq> []) (map trim (split_on 0x2C env));
              custom_count = length (filter (\<lambda>s. s \<notin> {AUTH0, GOOGLE_OAUTH2, GITHUB}) v);
              default_flags_all = (AUTH0 \<in> set v \<and> GOOGLE_OAUTH2 \<in> set v \<and> GITHUB \<in> set v)
          in if custom_count = 0 \<and> default_flags_all then PROVIDERS else v)"

section \<open>User ids\<close>

text \<open>A \<open>UserId\<close> is its 16 bytes.\<close>

type_synonym user_id = bytes

definition PREFIX :: str where "PREFIX = bytes_of ''user_''"

definition user_id_from_u128 :: "endian \<Rightarrow> u128 \<Rightarrow> user_id" where
  "user_id_from_u128 e v = to_ne e 16 (unat v)"

definition user_id_as_u128 :: "endian \<Rightarrow> user_id \<Rightarrow> u128" where
  "user_id_as_u128 e u = of_nat (of_ne e u)"

text \<open>\<open>parts[HIGH_INDEX] == 0\<close>: the word of bytes 12 to 15 on a little-endian target, of bytes 0 to 3
  on a big-endian one.\<close>

definition is_legacy :: "endian \<Rightarrow> user_id \<Rightarrow> bool" where
  "is_legacy e u \<longleftrightarrow> (case e of Little \<Rightarrow> drop 12 u = replicate 4 0 | Big \<Rightarrow> take 4 u = replicate 4 0)"

definition user_id_to_str :: "endian \<Rightarrow> user_id \<Rightarrow> str" where
  "user_id_to_str e u =
     (if is_legacy e u then hash_to_str (drop 4 u)
      else PREFIX @ ulid_to_str (user_id_as_u128 e u))"

definition user_id_from_str :: "endian \<Rightarrow> str \<Rightarrow> subject_error + user_id" where
  "user_id_from_str e s =
     (if length s = 31
      then case strip_prefix s PREFIX of
          None \<Rightarrow> Inl SInvalidFormat
        | Some id_str \<Rightarrow>
            (case ulid_from_bytes id_str of
               Inl _ \<Rightarrow> Inl InvalidUlid
             | Inr v \<Rightarrow> Inr (user_id_from_u128 e v))
      else if length s = 24
      then case hash_from_str_loop s of
          Inl _ \<Rightarrow> Inl SInvalidHex
        | Inr result \<Rightarrow> Inr (replicate 4 0 @ result)
      else Inl MissingUserId)"

section \<open>Subjects\<close>

record subject =
  provider :: usize
  sub_id :: user_id

definition subject_display :: "str list \<Rightarrow> endian \<Rightarrow> subject \<Rightarrow> str" where
  "subject_display PROVIDERS e s =
     provider_as_str PROVIDERS (provider s) @ [0x7C] @ user_id_to_str e (sub_id s)"

definition subject_from_str :: "str list \<Rightarrow> endian \<Rightarrow> str \<Rightarrow> subject_error + subject" where
  "subject_from_str PROVIDERS e s =
     (case split_once 0x7C s of
        None \<Rightarrow> Inl SInvalidFormat
      | Some (p, id_str) \<Rightarrow>
          if p = [] then Inl MissingProvider
          else if id_str = [] then Inl MissingUserId
          else case provider_from_str PROVIDERS p of
              Inl err \<Rightarrow> Inl err
            | Inr pr \<Rightarrow>
                (case user_id_from_str e id_str of
                   Inl _ \<Rightarrow> Inl InvalidUlid
                 | Inr u \<Rightarrow> Inr \<lparr> provider = pr, sub_id = u \<rparr>))"

section \<open>Token keys\<close>

record token_key =
  user_id :: user_id
  randomness :: u64

definition token_key_to_string :: "endian \<Rightarrow> token_key \<Rightarrow> str" where
  "token_key_to_string e k = to_base64 (user_id k @ to_ne e 8 (unat (randomness k)))"

definition token_key_to_string2 :: "(nat \<Rightarrow> str) \<Rightarrow> endian \<Rightarrow> token_key \<Rightarrow> str" where
  "token_key_to_string2 itoa e k =
     itoa (unat (user_id_as_u128 e (user_id k))) @ [0x2D] @ itoa (unat (randomness k))"

text \<open>The two loops of \<open>from_string\<close> leave the digits before the first other byte, and the text from
  the next digit on.\<close>

definition token_key_from_string :: "endian \<Rightarrow> str \<Rightarrow> token_key option" where
  "token_key_from_string e s =
     (if length s > 60 then None
      else if length s = 32
      then case from_base64 s of
          None \<Rightarrow> None
        | Some decoded \<Rightarrow>
            Some \<lparr> user_id = take 16 decoded, randomness = of_nat (of_ne e (drop 16 decoded)) \<rparr>
      else let first_part = takeWhile is_ascii_digit s;
               rest = dropWhile is_ascii_digit s
           in if rest = [] then None
              else let second_part = dropWhile (\<lambda>b. \<not> is_ascii_digit b) (tl rest)
                   in if second_part = [] then None
                      else case parse_unsigned (2 ^ 128) first_part of
                          None \<Rightarrow> None
                        | Some user_id_val \<Rightarrow>
                            (case parse_unsigned (2 ^ 64) second_part of
                               None \<Rightarrow> None
                             | Some randomness_val \<Rightarrow>
                                 Some \<lparr> user_id = user_id_from_u128 e (of_nat user_id_val),
                                        randomness = of_nat randomness_val \<rparr>))"

section \<open>Raw tokens\<close>

record duration =
  dur_start :: int
  dur_end :: int

record raw_token =
  rt_subject :: subject
  rt_signature :: bytes
  rt_duration :: duration
  rt_randomness :: u64
  rt_is_session :: bool

definition raw_token_key :: "raw_token \<Rightarrow> token_key" where
  "raw_token_key r = \<lparr> user_id = sub_id (rt_subject r), randomness = rt_randomness r \<rparr>"

definition raw_token_is_web :: "raw_token \<Rightarrow> bool" where
  "raw_token_is_web r \<longleftrightarrow> \<not> rt_is_session r"

text \<open>\<open>TokenPayload\<close>, what the JSON part of a token carries.\<close>

record token_payload =
  tp_sub :: subject
  tp_time :: int
  tp_randomness :: u64
  tp_exp :: int
  tp_is_session :: bool

definition to_token_payload :: "raw_token \<Rightarrow> token_payload" where
  "to_token_payload r =
     \<lparr> tp_sub = rt_subject r, tp_time = dur_start (rt_duration r), tp_randomness = rt_randomness r,
       tp_exp = dur_end (rt_duration r), tp_is_session = rt_is_session r \<rparr>"

datatype 'je token_error =
  InvalidHeader | TInvalidFormat | InvalidBase64 | InvalidPayload 'je | InvalidSignatureLength

definition HEADER_B64 :: str where
  "HEADER_B64 = bytes_of ''eyJhbGciOiJIUzI1NiIsInR5cCI6IkpXVCJ9.''"

text \<open>\<open>json_print\<close>/\<open>json_parse\<close> stand for serde_json on the payload (its errors \<open>'je\<close> carry the subject and
  randomness errors), \<open>b64_enc\<close>/\<open>b64_dec\<close> for the URL-safe engine of base64_simd.\<close>

definition raw_token_display ::
  "(token_payload \<Rightarrow> bytes) \<Rightarrow> (bytes \<Rightarrow> str) \<Rightarrow> raw_token \<Rightarrow> str" where
  "raw_token_display json_print b64_enc r =
     HEADER_B64 @ b64_enc (json_print (to_token_payload r)) @ [0x2E] @ b64_enc (rt_signature r)"

definition raw_token_from_str ::
  "(bytes \<Rightarrow> 'je + token_payload) \<Rightarrow> (str \<Rightarrow> bytes option) \<Rightarrow> str \<Rightarrow> 'je token_error + raw_token" where
  "raw_token_from_str json_parse b64_dec token =
     (case strip_prefix token HEADER_B64 of
        None \<Rightarrow> Inl InvalidHeader
      | Some parts \<Rightarrow>
          (case split_once 0x2E parts of
             None \<Rightarrow> Inl TInvalidFormat
           | Some (payload_b64, signature_b64) \<Rightarrow>
               if length signature_b64 \<noteq> 43 then Inl InvalidSignatureLength
               else case b64_dec payload_b64 of
                   None \<Rightarrow> Inl InvalidBase64
                 | Some payload \<Rightarrow>
                     (case b64_dec signature_b64 of
                        None \<Rightarrow> Inl InvalidBase64
                      | Some signature \<Rightarrow>
                          (case json_parse payload of
                             Inl err \<Rightarrow> Inl (InvalidPayload err)
                           | Inr p \<Rightarrow>
                               Inr \<lparr> rt_subject = tp_sub p, rt_signature = signature,
                                     rt_duration = \<lparr> dur_start = tp_time p, dur_end = tp_exp p \<rparr>,
                                     rt_randomness = tp_randomness p,
                                     rt_is_session = tp_is_session p \<rparr>))))"

section \<open>Randomness texts\<close>

lemma randomness_to_str_forms:
  assumes "to_ne e 8 (unat r) = [b0, b1, b2, b3, b4, b5, b6, b7]"
  shows "randomness_to_str e r =
    hash_to_str [b0, b1, b2, b3] @ [0x2D] @ hash_to_str [b4, b5] @ [0x2D] @ hash_to_str [b6, b7]"
  using assms by (simp add: randomness_to_str_def BYTE_OFFSETS_def numeral_eq_Suc)

lemma length_8: "length bs = 8 \<longleftrightarrow> (\<exists>a b c d e f g h. bs = [a, b, c, d, e, f, g, h])"
  by (auto simp: numeral_eq_Suc length_Suc_conv)

lemma to_ne_8: obtains b0 b1 b2 b3 b4 b5 b6 b7 where "to_ne e 8 v = [b0, b1, b2, b3, b4, b5, b6, b7]"
  using length_8 [of "to_ne e 8 v"] by auto

lemma u64_lt: "unat (x :: u64) < 256 ^ 8"
  using unsigned_less [of x] by simp

lemma randomness_from_to: "randomness_from_str e (randomness_to_str e r) = Inr r"
proof -
  obtain b0 b1 b2 b3 b4 b5 b6 b7 where b: "to_ne e 8 (unat r) = [b0, b1, b2, b3, b4, b5, b6, b7]"
    by (rule to_ne_8)
  then have "randomness_read (randomness_to_str e r) BYTE_OFFSETS = Some [b0, b1, b2, b3, b4, b5, b6, b7]"
    unfolding randomness_to_str_forms [OF b] by (simp add: BYTE_OFFSETS_def hex_to_byte_chars)
  moreover have "of_ne e [b0, b1, b2, b3, b4, b5, b6, b7] = unat r"
    using of_to_ne [OF u64_lt [of r], of e] b by simp
  ultimately show ?thesis
    by (simp add: randomness_from_str_def) (simp add: randomness_to_str_forms [OF b])
qed

section \<open>User id texts\<close>

lemma u128_pow: "unat (x :: u128) < 256 ^ 16"
  using u128_lt [of x] by simp

lemma user_id_from_as: "length u = 16 \<Longrightarrow> user_id_from_u128 e (user_id_as_u128 e u) = u"
  using of_ne_lt [of e u] to_of_ne [of u 16 e]
  by (simp add: user_id_from_u128_def user_id_as_u128_def unsigned_of_nat take_bit_nat_eq_self)

lemma user_id_as_from: "user_id_as_u128 e (user_id_from_u128 e v) = v"
  using of_to_ne [OF u128_pow [of v], of e] by (simp add: user_id_from_u128_def user_id_as_u128_def)

lemma length_user_id_from_u128 [simp]: "length (user_id_from_u128 e v) = 16"
  by (simp add: user_id_from_u128_def)

lemma length_PREFIX [simp]: "length PREFIX = 5"
  by (simp add: PREFIX_def)

lemma user_id_from_to_ulid:
  "length u = 16 \<Longrightarrow> \<not> is_legacy e u \<Longrightarrow> user_id_from_str e (user_id_to_str e u) = Inr u"
  by (simp add: user_id_to_str_def user_id_from_str_def ulid_from_to user_id_from_as)

lemma user_id_from_to_legacy:
  "length u = 16 \<Longrightarrow> is_legacy e u \<Longrightarrow>
   user_id_from_str e (user_id_to_str e u) = Inr (replicate 4 0 @ drop 4 u)"
  by (simp add: user_id_to_str_def user_id_from_str_def hash_loop_to_str)

lemma user_id_from_to_iff:
  assumes "length u = 16"
  shows "user_id_from_str e (user_id_to_str e u) = Inr u \<longleftrightarrow> \<not> is_legacy e u \<or> take 4 u = replicate 4 0"
proof -
  have "replicate 4 0 @ drop 4 u = u \<longleftrightarrow> take 4 u = replicate 4 0"
    using assms by (metis append_same_eq append_take_drop_id)
  then show ?thesis
    using user_id_from_to_ulid [OF assms, of e] user_id_from_to_legacy [OF assms, of e]
    by (cases "is_legacy e u") auto
qed

lemma user_id_to_str_not_Nil: "length u = 16 \<Longrightarrow> user_id_to_str e u \<noteq> []"
proof -
  assume "length u = 16"
  then have "0 < length (user_id_to_str e u)" by (simp add: user_id_to_str_def del: length_greater_0_conv)
  then show ?thesis by (rule length_greater_0_conv [THEN iffD1])
qed

section \<open>Provider lists\<close>

lemma position_of_nth: "position_of s ps = Some i \<Longrightarrow> i < length ps \<and> ps ! i = s"
  by (induction ps arbitrary: i) (auto split: if_splits)

lemma position_of_None_iff: "position_of s ps = None \<longleftrightarrow> s \<notin> set ps"
  by (induction ps) auto

text \<open>The provider values the program has: those \<open>from_str\<close> delivers.\<close>

definition wf_provider :: "str list \<Rightarrow> usize \<Rightarrow> bool" where
  "wf_provider PROVIDERS p \<longleftrightarrow> position_of (provider_as_str PROVIDERS p) PROVIDERS = Some p"

lemma provider_from_str_wf: "provider_from_str PROVIDERS s = Inr p \<Longrightarrow> wf_provider PROVIDERS p"
  by (auto simp: provider_from_str_def wf_provider_def provider_as_str_def split: option.splits
      dest: position_of_nth)

lemma provider_helper_roundtrip:
  "wf_provider PROVIDERS p \<Longrightarrow> provider_try_extract PROVIDERS (provider_to_helper PROVIDERS p) = Inr p"
  by (auto simp: provider_to_helper_def wf_provider_def provider_from_str_def Let_def)

section \<open>Key texts\<close>

lemma length_to_base64: "length (to_base64 bs) = encoded_len (length bs)"
  by (simp add: to_base64_def length_encode encoded_len_def)

lemma from_to_base64: "from_base64 (to_base64 bs) = Some bs"
proof (cases "bs = []")
  case False
  have "BASE64_DECODE_TABLE ! unat b \<noteq> 0xFF" if "b \<in> set (encode_to_slice_unchecked bs)" for b
    using that set_encode b64.table_invalid_iff unfolding BASE64_DECODE_TABLE_def by blast
  moreover have "length (encode_to_slice_unchecked bs) \<noteq> 0"
    using False decode_encode [of bs] by (cases "encode_to_slice_unchecked bs") auto
  ultimately show ?thesis
    using False by (auto simp: from_base64_def to_base64_def Let_def length_encode decode_encode
        decoded_len_encoded_len)
qed (simp add: to_base64_def from_base64_def)

lemma token_key_from_to_string:
  assumes "length (user_id k) = 16"
  shows "token_key_from_string e (token_key_to_string e k) = Some k"
proof -
  have "length (token_key_to_string e k) = 32"
    using assms by (simp add: token_key_to_string_def length_to_base64 encoded_len_def)
  moreover have "of_ne e (to_ne e 8 (unat (randomness k))) = unat (randomness k)"
    by (rule of_to_ne [OF u64_lt])
  ultimately show ?thesis
    using assms by (simp add: token_key_from_string_def token_key_to_string_def from_to_base64)
qed

lemma dash_not_digit: "\<not> is_ascii_digit 0x2D"
  by (simp add: is_ascii_digit_def DIGITS_def bytes_of_def of_char_def)

lemma length_token_key_to_string2: "length (token_key_to_string2 decimal e k) \<le> 60"
proof -
  have "unat (user_id_as_u128 e (user_id k)) < 10 ^ 39"
    using u128_lt [of "user_id_as_u128 e (user_id k)"] by simp
  moreover have "unat (randomness k) < 10 ^ 20" using u64_lt [of "randomness k"] by simp
  ultimately have "length (decimal (unat (user_id_as_u128 e (user_id k)))) \<le> 39"
    "length (decimal (unat (randomness k))) \<le> 20" by (simp_all add: length_decimal)
  then show ?thesis by (simp add: token_key_to_string2_def)
qed

lemma token_key_from_to_string2:
  assumes "length (user_id k) = 16" and "length (token_key_to_string2 decimal e k) \<noteq> 32"
  shows "token_key_from_string e (token_key_to_string2 decimal e k) = Some k"
proof -
  let ?a = "decimal (unat (user_id_as_u128 e (user_id k)))" and ?b = "decimal (unat (randomness k))"
  have a: "takeWhile is_ascii_digit (?a @ 0x2D # ?b) = ?a" "dropWhile is_ascii_digit (?a @ 0x2D # ?b) = 0x2D # ?b"
    using decimal_digits [of "unat (user_id_as_u128 e (user_id k))"] dash_not_digit
    by (auto simp: list_all_iff takeWhile_append dropWhile_append)
  obtain d r where b: "?b = d # r" by (cases ?b) auto
  have "is_ascii_digit d" using decimal_digits [of "unat (randomness k)"] unfolding b by simp
  then have "dropWhile (\<lambda>b. \<not> is_ascii_digit b) ?b = ?b" unfolding b by simp
  moreover have "length (token_key_to_string2 decimal e k) \<le> 60"
    by (rule length_token_key_to_string2)
  ultimately show ?thesis
    using assms a u128_lt [of "user_id_as_u128 e (user_id k)"] u64_lt [of "randomness k"]
    by (simp add: token_key_from_string_def token_key_to_string2_def Let_def parse_decimal user_id_from_as)
qed

section \<open>Properties\<close>

text \<open>The text of a \<open>Randomness\<close> parses back to it, on targets of either byte order, and is
  18 characters long.\<close>

theorem randomness_roundtrip:
  "randomness_from_str e (randomness_to_str e r) = Inr r \<and> length (randomness_to_str e r) = 18"
proof -
  obtain b0 b1 b2 b3 b4 b5 b6 b7 where b: "to_ne e 8 (unat r) = [b0, b1, b2, b3, b4, b5, b6, b7]"
    by (rule to_ne_8)
  have "length (randomness_to_str e r) = 18" by (simp add: randomness_to_str_forms [OF b])
  with randomness_from_to show ?thesis by blast
qed

text \<open>The text of a user id parses back to it on a big-endian target; on a little-endian one it does
  exactly when the id is not printed in the legacy format or starts with four zero bytes.\<close>

theorem user_id_roundtrip:
  assumes "length u = 16"
  shows "user_id_from_str Big (user_id_to_str Big u) = Inr u \<and>
    (user_id_from_str Little (user_id_to_str Little u) = Inr u \<longleftrightarrow>
       \<not> is_legacy Little u \<or> take 4 u = replicate 4 0)"
  using user_id_from_to_iff [OF assms] by (simp add: is_legacy_def)

theorem user_id_roundtrip_witness:
  "length (user_id_from_u128 Little (2 ^ 100)) = 16 \<and>
   user_id_from_str Big (user_id_to_str Big (user_id_from_u128 Little (2 ^ 100))) =
     Inr (user_id_from_u128 Little (2 ^ 100))"
  using user_id_roundtrip [of "user_id_from_u128 Little (2 ^ 100)"] by simp

text \<open>A 24-digit legacy id that was read is printed again as a legacy id (the text that was read, in
  lower case) on a big-endian target, but on a little-endian one only if its last eight digits are zero:
  \<open>is_legacy\<close> looks at bytes 12 to 15 there while the parser clears bytes 0 to 3.\<close>

theorem legacy_user_id_reprint:
  assumes "length s = 24" and "user_id_from_str e s = Inr u"
  shows "user_id_to_str e u = map to_lower s \<longleftrightarrow> e = Big \<or> drop 12 u = replicate 4 0"
proof -
  from assms obtain r where r: "hash_from_str_loop s = Inr r" "u = replicate 4 0 @ r"
    by (auto simp: user_id_from_str_def split: sum.splits)
  then have low: "hash_to_str r = map to_lower s"
    using assms(1) by (simp add: hash_loop_Inr_iff)
  have len: "length (user_id_to_str e u) = 31" if "\<not> is_legacy e u"
    using that by (simp add: user_id_to_str_def)
  have "is_legacy e u \<longleftrightarrow> e = Big \<or> drop 12 u = replicate 4 0"
    using r(2) by (cases e) (simp_all add: is_legacy_def)
  moreover have "user_id_to_str e u = map to_lower s \<longleftrightarrow> is_legacy e u"
    using low r(2) len assms(1) by (cases "is_legacy e u") (auto simp: user_id_to_str_def dest: arg_cong [where f = length])
  ultimately show ?thesis by blast
qed

theorem legacy_user_id_reprint_witness:
  "user_id_to_str Big (replicate 4 0 @ replicate 12 1) = map to_lower (hash_to_str (replicate 12 1)) \<and>
   user_id_to_str Little (replicate 4 0 @ replicate 12 1) \<noteq> map to_lower (hash_to_str (replicate 12 1))"
proof -
  have "user_id_from_str e (hash_to_str (replicate 12 1)) = Inr (replicate 4 0 @ replicate 12 1)" for e
    by (simp add: user_id_from_str_def hash_loop_to_str)
  from legacy_user_id_reprint [OF _ this, of Big] legacy_user_id_reprint [OF _ this, of Little]
  show ?thesis by simp
qed

text \<open>A subject parses back from its text when its provider is one of the configured names, none of
  which contains the separator, and its id survives its own text form; the persisted provider is
  found again too.\<close>

theorem subject_roundtrip:
  assumes "wf_provider PROVIDERS (provider s)" and "\<forall>p \<in> set PROVIDERS. p \<noteq> [] \<and> 0x7C \<notin> set p"
    and "length (sub_id s) = 16" and "\<not> is_legacy e (sub_id s)"
  shows "subject_from_str PROVIDERS e (subject_display PROVIDERS e s) = Inr s \<and>
    provider_try_extract PROVIDERS (provider_to_helper PROVIDERS (provider s)) = Inr (provider s)"
proof -
  let ?p = "provider_as_str PROVIDERS (provider s)"
  have pos: "position_of ?p PROVIDERS = Some (provider s)" using assms(1) by (simp add: wf_provider_def)
  then have "?p \<in> set PROVIDERS" using position_of_None_iff [of ?p PROVIDERS] by auto
  with assms(2) have "?p \<noteq> []" "0x7C \<notin> set ?p" by auto
  with assms pos show ?thesis
    by (simp add: subject_from_str_def subject_display_def provider_from_str_def user_id_to_str_not_Nil
        user_id_from_to_ulid provider_helper_roundtrip)
qed

theorem subject_roundtrip_witness:
  "subject_from_str DEFAULT_PROVIDERS Little
     (subject_display DEFAULT_PROVIDERS Little \<lparr> provider = 2, sub_id = replicate 16 7 \<rparr>) =
     Inr \<lparr> provider = 2, sub_id = replicate 16 7 \<rparr>"
proof -
  have "wf_provider DEFAULT_PROVIDERS 2"
    by (simp add: wf_provider_def provider_as_str_def DEFAULT_PROVIDERS_def AUTH0_def GOOGLE_OAUTH2_def
        GITHUB_def bytes_of_def of_char_def)
  moreover have "\<forall>p \<in> set DEFAULT_PROVIDERS. p \<noteq> [] \<and> 0x7C \<notin> set p"
    by (simp add: DEFAULT_PROVIDERS_def AUTH0_def GOOGLE_OAUTH2_def GITHUB_def bytes_of_def of_char_def)
  moreover have "\<not> is_legacy Little (replicate 16 7)"
    by (simp add: is_legacy_def)
  ultimately show ?thesis
    using subject_roundtrip [of DEFAULT_PROVIDERS "\<lparr> provider = 2, sub_id = replicate 16 7 \<rparr>" Little] by simp
qed

text \<open>The base64 text of a token key always parses back to it; the readable text
  \<open>user_id-randomness\<close> does unless it happens to be 32 characters long.\<close>

theorem token_key_roundtrip:
  assumes "length (user_id k) = 16" and "\<And>n. itoa n = decimal n"
  shows "token_key_from_string e (token_key_to_string e k) = Some k \<and>
    (length (token_key_to_string2 itoa e k) \<noteq> 32 \<longrightarrow>
       token_key_from_string e (token_key_to_string2 itoa e k) = Some k)"
proof -
  from assms(2) have "itoa = decimal" by (rule ext)
  then show ?thesis
    using assms(1) token_key_from_to_string token_key_from_to_string2 by blast
qed

theorem token_key_roundtrip_witness:
  "token_key_from_string Little (token_key_to_string2 decimal Little
     \<lparr> user_id = user_id_from_u128 Little 5, randomness = 7 \<rparr>) =
     Some \<lparr> user_id = user_id_from_u128 Little 5, randomness = 7 \<rparr>"
proof -
  let ?k = "\<lparr> user_id = user_id_from_u128 Little 5, randomness = 7 \<rparr>"
  have "length (token_key_to_string2 decimal Little ?k) \<noteq> 32"
    by (simp add: token_key_to_string2_def user_id_as_from decimal.simps)
  then show ?thesis using token_key_roundtrip [of ?k decimal Little] by simp
qed

lemma token_key_eq_iff: "\<lparr> user_id = a, randomness = b \<rparr> = k \<longleftrightarrow> a = user_id k \<and> b = randomness k"
  by (cases k) auto

lemma digits_01: "DIGITS ! 0 = 0x30" "DIGITS ! Suc 0 = 0x31"
  by (simp_all add: DIGITS_def bytes_of_def of_char_def)

definition misread_key :: token_key where
  "misread_key = \<lparr> user_id = user_id_from_u128 Little (10 ^ 19), randomness = 10 ^ 10 \<rparr>"

lemma misread_text:
  "token_key_to_string2 decimal Little misread_key =
     0x31 # replicate 19 0x30 @ 0x2D # 0x31 # replicate 10 0x30"
  by (simp add: misread_key_def token_key_to_string2_def user_id_as_from decimal.simps digits_01)
    (simp add: numeral_eq_Suc)

lemma misread_decoded: "hd (decode_to_slice_unchecked (0x31 # replicate 19 0x30 @ r)) = 215"
proof -
  have "BASE64_CHARS ! 53 = 0x31" "BASE64_CHARS ! 54 = 0x30"
    by (simp_all add: BASE64_CHARS_def bytes_of_def of_char_def)
  then have t: "BASE64_DECODE_TABLE ! 0x31 = 53" "BASE64_DECODE_TABLE ! 0x30 = 54"
    using b64.table_digit [of 53] b64.table_digit [of 54] by (simp_all add: BASE64_DECODE_TABLE_def)
  have "replicate 19 0x30 @ r = (0x30 :: u8) # 0x30 # 0x30 # replicate 16 0x30 @ r"
    by (simp add: numeral_eq_Suc)
  then show ?thesis by (simp only: decode_to_slice_unchecked.simps) (simp add: Let_def t)
qed

lemma misread_first: "hd (user_id misread_key) = 0"
proof -
  have "to_le 16 v = of_nat (v mod 256) # to_le 15 (v div 256)" for v
    using to_le.simps(2) [of 15 v] by simp
  then show ?thesis by (simp add: misread_key_def user_id_from_u128_def to_ne_def)
qed

text \<open>A readable key text of exactly 32 characters is taken for base64 and read as another key.\<close>

theorem token_key_string2_misread:
  "length (token_key_to_string2 decimal Little misread_key) = 32 \<and>
   token_key_from_string Little (token_key_to_string2 decimal Little misread_key) \<noteq> Some misread_key"
proof -
  let ?s = "token_key_to_string2 decimal Little misread_key"
  have len: "length ?s = 32" by (simp add: misread_text)
  have "hd (take 16 (decode_to_slice_unchecked ?s)) = 215"
    unfolding misread_text by (subst hd_take) (simp_all only: misread_decoded zero_less_numeral)
  then have ne: "user_id misread_key \<noteq> take 16 (decode_to_slice_unchecked ?s)"
    using misread_first by fastforce
  have "from_base64 ?s = None \<or> from_base64 ?s = Some (decode_to_slice_unchecked ?s)"
    using len by (simp add: from_base64_def decoded_len_def Let_def)
  then show ?thesis using len ne by (auto simp: token_key_from_string_def token_key_eq_iff)
qed

text \<open>The text of a raw token parses back to it, given that the JSON text of its payload parses back
  and that the base64 engine is invertible, never writes a dot and turns 32 bytes into 43 characters.\<close>

theorem raw_token_roundtrip:
  assumes json: "json_parse (json_print (to_token_payload r)) = Inr (to_token_payload r)"
    and b64: "\<And>x. b64_dec (b64_enc x) = Some x" "\<And>x. 0x2E \<notin> set (b64_enc x)"
      "\<And>x. length x = 32 \<Longrightarrow> length (b64_enc x) = 43"
    and sig: "length (rt_signature r) = 32"
  shows "raw_token_from_str json_parse b64_dec (raw_token_display json_print b64_enc r) = Inr r"
  using assms by (simp add: raw_token_from_str_def raw_token_display_def to_token_payload_def)

lemma to_base64_no_dot: "0x2E \<notin> set (to_base64 bs)"
proof
  assume "0x2E \<in> set (to_base64 bs)"
  then have "0x2E \<in> set BASE64_CHARS" using set_encode by (auto simp: to_base64_def split: if_splits)
  then show False by (simp add: BASE64_CHARS_def bytes_of_def of_char_def)
qed

definition sample_raw_token :: raw_token where
  "sample_raw_token = \<lparr> rt_subject = \<lparr> provider = 0, sub_id = replicate 16 1 \<rparr>, rt_signature = replicate 32 2,
    rt_duration = \<lparr> dur_start = 1, dur_end = 2 \<rparr>, rt_randomness = 3, rt_is_session = True \<rparr>"

theorem raw_token_roundtrip_witness:
  "raw_token_from_str (\<lambda>j. Inr (to_token_payload sample_raw_token) :: unit + token_payload) from_base64
     (raw_token_display (\<lambda>p. []) to_base64 sample_raw_token) = Inr sample_raw_token"
  by (rule raw_token_roundtrip)
    (simp_all add: from_to_base64 to_base64_no_dot length_to_base64 encoded_len_def sample_raw_token_def)

end
