(* ===== verification/Checksum.thy ===== *)
theory Checksum
  imports Hash_Hex
begin

text \<open>
  The client checksum \<open>x-cursor-checksum\<close>: the obfuscated timestamp header of
  \<open>src/app/model/timestamp_header.rs\<close> (a global cell holding eight base64 characters) and the pair of
  hashes of \<open>src/app/model/checksum.rs\<close> with its printer, its strict parser and its lenient \<open>repair\<close>.
  Random hashes are an argument: \<open>rng k\<close> is the \<open>k\<close>-th hash drawn.
\<close>

section \<open>Timestamp header\<close>

definition B64_ENCODE :: bytes where
  "B64_ENCODE = bytes_of ''ABCDEFGHIJKLMNOPQRSTUVWXYZabcdefghijklmnopqrstuvwxyz0123456789-_''"

text \<open>The six unrolled steps \<open>bytes[i] = (bytes[i] ^ prev).wrapping_add(i); prev = bytes[i]\<close>.\<close>

fun obfuscate_step :: "u8 \<Rightarrow> u8 \<Rightarrow> bytes \<Rightarrow> bytes" where
  "obfuscate_step prev i [] = []"
| "obfuscate_step prev i (b # bs) = (let b' = (b XOR prev) + i in b' # obfuscate_step b' (i + 1) bs)"

definition obfuscate_bytes :: "bytes \<Rightarrow> bytes" where
  "obfuscate_bytes bytes = obfuscate_step 165 0 bytes"

fun encode_chunk :: "bytes \<Rightarrow> bytes" where
  "encode_chunk [b0, b1, b2] =
     [B64_ENCODE ! unat (drop_bit 2 b0),
      B64_ENCODE ! unat (push_bit 4 (b0 AND 0x03) OR drop_bit 4 b1),
      B64_ENCODE ! unat (push_bit 2 (b1 AND 0x0F) OR drop_bit 6 b2),
      B64_ENCODE ! unat (b2 AND 0x3F)]"
| "encode_chunk _ = []"

definition encode_base64 :: "bytes \<Rightarrow> bytes" where
  "encode_base64 input = encode_chunk (take 3 input) @ encode_chunk (take 3 (drop 3 input))"

definition timestamp_bytes :: "u64 \<Rightarrow> bytes" where
  "timestamp_bytes kilo_seconds =
     [ucast (drop_bit 8 kilo_seconds AND 0xFF), ucast (kilo_seconds AND 0xFF),
      ucast (drop_bit 24 kilo_seconds AND 0xFF), ucast (drop_bit 16 kilo_seconds AND 0xFF),
      ucast (drop_bit 8 kilo_seconds AND 0xFF), ucast (kilo_seconds AND 0xFF)]"

text \<open>The atomic stores the eight characters as a \<open>u64\<close> in native byte order and \<open>read\<close> undoes it; the
  cell is the eight bytes.\<close>

definition timestamp_new :: "u64 \<Rightarrow> bytes" where
  "timestamp_new kilo_seconds = encode_base64 (obfuscate_bytes (timestamp_bytes kilo_seconds))"

definition timestamp_header_init :: bytes where
  "timestamp_header_init = replicate 8 0"

definition update_global_with :: "u64 \<Rightarrow> bytes \<Rightarrow> bytes" where
  "update_global_with kilo_seconds TIMESTAMP_HEADER = timestamp_new kilo_seconds"

text \<open>The inverse kept in \<open>src/common/utils/checksum.rs\<close>; \<open>idx\<close> counts from \<open>i\<close>.\<close>

fun deobfuscate_step :: "u8 \<Rightarrow> nat \<Rightarrow> bytes \<Rightarrow> bytes" where
  "deobfuscate_step prev idx [] = []"
| "deobfuscate_step prev idx (b # bs) =
     ((b - of_nat (idx mod 256)) XOR prev) # deobfuscate_step b (idx + 1) bs"

definition deobfuscate_bytes :: "bytes \<Rightarrow> bytes" where
  "deobfuscate_bytes bytes = deobfuscate_step 165 0 bytes"

section \<open>Checksums\<close>

record checksum =
  first :: hash
  second :: hash

datatype checksum_error = InvalidFormat | HashError hash_error

definition checksum_random :: "(nat \<Rightarrow> hash) \<Rightarrow> checksum" where
  "checksum_random rng = \<lparr> first = rng 0, second = rng 1 \<rparr>"

definition checksum_default :: "(nat \<Rightarrow> hash) \<Rightarrow> checksum" where
  "checksum_default rng = checksum_random rng"

definition is_ascii_alphanumeric :: "u8 \<Rightarrow> bool" where
  "is_ascii_alphanumeric b \<longleftrightarrow>
     0x30 \<le> b \<and> b \<le> 0x39 \<or> 0x41 \<le> b \<and> b \<le> 0x5A \<or> 0x61 \<le> b \<and> b \<le> 0x7A"

definition is_valid_timestamp :: "bytes \<Rightarrow> bool" where
  "is_valid_timestamp bytes \<longleftrightarrow> list_all (\<lambda>b. is_ascii_alphanumeric b \<or> b = 0x2D \<or> b = 0x5F) bytes"

function decode_hex_hash_loop :: "bytes \<Rightarrow> usize \<Rightarrow> bytes \<Rightarrow> hash option" where
  "decode_hex_hash_loop hex_bytes i result =
     (if i < 32
      then let pos = i * 2; hi = hex_bytes ! pos; lo = hex_bytes ! (pos + 1);
               high = HEX_TABLE ! unat hi; low = HEX_TABLE ! unat lo
           in if high = 0xFF \<or> low = 0xFF then None
              else decode_hex_hash_loop hex_bytes (i + 1) (result[i := push_bit 4 high OR low])
      else Some result)"
  by pat_completeness auto
termination
  by (relation "measure (\<lambda>(hex_bytes, i, result). 32 - i)") auto

declare decode_hex_hash_loop.simps [simp del]

definition decode_hex_hash :: "bytes \<Rightarrow> hash option" where
  "decode_hex_hash hex_bytes = decode_hex_hash_loop hex_bytes 0 (replicate 32 0)"

definition repair_short :: "(nat \<Rightarrow> hash) \<Rightarrow> bytes \<Rightarrow> checksum" where
  "repair_short rng bytes =
     (if \<not> is_valid_timestamp (take 8 bytes) then checksum_random rng
      else case decode_hex_hash (drop 8 bytes) of
          None \<Rightarrow> checksum_random rng
        | Some hash \<Rightarrow> \<lparr> first = hash, second = rng 0 \<rparr>)"

definition repair_normal :: "(nat \<Rightarrow> hash) \<Rightarrow> bytes \<Rightarrow> checksum" where
  "repair_normal rng bytes =
     (if bytes ! 64 \<noteq> 0x2F then checksum_default rng
      else case decode_hex_hash (take 64 bytes) of
          None \<Rightarrow> checksum_random rng
        | Some h1 \<Rightarrow>
            (case decode_hex_hash (take 64 (drop 65 bytes)) of
               None \<Rightarrow> checksum_random rng
             | Some h2 \<Rightarrow> \<lparr> first = h1, second = h2 \<rparr>))"

definition repair_full :: "(nat \<Rightarrow> hash) \<Rightarrow> bytes \<Rightarrow> checksum" where
  "repair_full rng bytes =
     (if \<not> is_valid_timestamp (take 8 bytes) then checksum_random rng
      else if bytes ! 72 \<noteq> 0x2F then checksum_random rng
      else case decode_hex_hash (take 64 (drop 8 bytes)) of
          None \<Rightarrow> checksum_random rng
        | Some h1 \<Rightarrow>
            (case decode_hex_hash (take 64 (drop 73 bytes)) of
               None \<Rightarrow> checksum_random rng
             | Some h2 \<Rightarrow> \<lparr> first = h1, second = h2 \<rparr>))"

definition repair :: "(nat \<Rightarrow> hash) \<Rightarrow> bytes \<Rightarrow> checksum" where
  "repair rng bytes =
     (if length bytes = 72 then repair_short rng bytes
      else if length bytes = 129 then repair_normal rng bytes
      else if length bytes = 137 then repair_full rng bytes
      else checksum_random rng)"

definition checksum_from_bytes :: "bytes \<Rightarrow> checksum" where
  "checksum_from_bytes bytes = \<lparr> first = take 32 bytes, second = take 32 (drop 32 bytes) \<rparr>"

definition checksum_into_bytes :: "checksum \<Rightarrow> bytes" where
  "checksum_into_bytes c = first c @ second c"

definition checksum_to_str :: "bytes \<Rightarrow> checksum \<Rightarrow> bytes" where
  "checksum_to_str TIMESTAMP_HEADER c =
     TIMESTAMP_HEADER @ hash_to_str (first c) @ [0x2F] @ hash_to_str (second c)"

definition checksum_from_str :: "bytes \<Rightarrow> checksum_error + checksum" where
  "checksum_from_str s =
     (let parse = (\<lambda>bytes.
        case hash_from_str (take 64 bytes) of
          Inl e \<Rightarrow> Inl (HashError e)
        | Inr h1 \<Rightarrow>
            (case hash_from_str (drop 65 bytes) of
               Inl e \<Rightarrow> Inl (HashError e)
             | Inr h2 \<Rightarrow> Inr \<lparr> first = h1, second = h2 \<rparr>))
      in if length s = 129 \<and> s ! 64 = 0x2F then parse s
         else if length s = 137 \<and> s ! 72 = 0x2F then parse (drop 8 s)
         else Inl InvalidFormat)"

section \<open>The two hash decoders agree\<close>

lemma decode_hex_hash_loop_rest:
  assumes "length hex = 64" and "length result = 32"
  shows "i \<le> 32 \<Longrightarrow> decode_hex_hash_loop hex i result =
    (case hash_from_str_loop (drop (2 * i) hex) of Inl e \<Rightarrow> None | Inr h \<Rightarrow> Some (take i result @ h))"
  using assms
proof (induction hex i result rule: decode_hex_hash_loop.induct)
  case (1 hex i result)
  show ?case
  proof (cases "i < 32")
    case True
    let ?hi = "hex ! (2 * i)" and ?lo = "hex ! (2 * i + 1)"
    let ?b = "push_bit 4 (HEX_TABLE ! unat ?hi) OR HEX_TABLE ! unat ?lo"
    have "drop (2 * i) hex = ?hi # ?lo # drop (2 * (i + 1)) hex"
      using True 1 by (simp add: Cons_nth_drop_Suc)
    moreover have "take (i + 1) (result[i := ?b]) = take i result @ [?b]"
      using True 1 by (simp add: take_Suc_conv_app_nth)
    ultimately show ?thesis
      using True 1 by (subst decode_hex_hash_loop.simps)
        (auto simp: Let_def hex_to_byte_def mult.commute [of i] split: sum.splits option.splits)
  next
    case False
    then have "i = 32" using 1 by simp
    then show ?thesis using 1 by (subst decode_hex_hash_loop.simps) simp
  qed
qed

lemma decode_hex_hash_eq:
  "length hex = 64 \<Longrightarrow> decode_hex_hash hex = (case hash_from_str hex of Inl e \<Rightarrow> None | Inr h \<Rightarrow> Some h)"
  by (simp add: decode_hex_hash_def decode_hex_hash_loop_rest hash_from_str_def split: sum.splits)

definition wf_checksum :: "checksum \<Rightarrow> bool" where
  "wf_checksum c \<longleftrightarrow> length (first c) = 32 \<and> length (second c) = 32"

lemma checksum_from_to:
  assumes "wf_checksum c" and "length ts = 8"
  shows "checksum_from_str (checksum_to_str ts c) = Inr c"
  using assms by (simp add: checksum_from_str_def checksum_to_str_def wf_checksum_def Let_def
      nth_append hash_from_to)

section \<open>The timestamp text\<close>

lemma length_B64_ENCODE [simp]: "length B64_ENCODE = 64"
  by (simp add: B64_ENCODE_def)

interpretation url64: digit_alphabet B64_ENCODE
proof unfold_locales
  show "distinct B64_ENCODE" by (simp add: B64_ENCODE_def bytes_of_def of_char_def)
qed simp

text \<open>The sextets of a three-byte chunk.\<close>

definition sextets :: "u8 \<Rightarrow> u8 \<Rightarrow> u8 \<Rightarrow> u8 list" where
  "sextets b0 b1 b2 =
     [drop_bit 2 b0, push_bit 4 (b0 AND 0x03) OR drop_bit 4 b1,
      push_bit 2 (b1 AND 0x0F) OR drop_bit 6 b2, b2 AND 0x3F]"

lemma u8_masks: "(x :: u8) AND 0x03 = take_bit 2 x" "x AND 0x0F = take_bit 4 x" "x AND 0x3F = take_bit 6 x"
  by (simp_all add: take_bit_eq_mask mask_eq_exp_minus_1)

lemma u8_bits: "i < LENGTH(8) \<Longrightarrow> i = 0 \<or> i = 1 \<or> i = 2 \<or> i = 3 \<or> i = 4 \<or> i = 5 \<or> i = 6 \<or> i = 7"
  by auto

lemmas u8_bit_simps = bit_or_iff bit_push_bit_iff bit_drop_bit_eq bit_take_bit_iff exp_eq_zero_iff

lemma encode_chunk_sextets: "encode_chunk [b0, b1, b2] = map (\<lambda>d. B64_ENCODE ! unat d) (sextets b0 b1 b2)"
  by (simp add: sextets_def)

lemma u8_high: "8 \<le> n \<Longrightarrow> \<not> bit (x :: u8) n"
  by (auto dest: bit_imp_le_length)

lemma sextets_take_bit:
  "take_bit 6 (drop_bit 2 b) = drop_bit 2 (b :: u8)"
  "take_bit 6 (push_bit 4 (take_bit 2 b) OR drop_bit 4 c) = push_bit 4 (take_bit 2 b) OR drop_bit 4 (c :: u8)"
  "take_bit 6 (push_bit 2 (take_bit 4 b) OR drop_bit 6 c) = push_bit 2 (take_bit 4 b) OR drop_bit 6 (c :: u8)"
  by (rule bit_word_eqI, drule u8_bits, elim disjE, simp_all only: u8_bit_simps, simp_all add: u8_high)+

lemma sextets_lt: "d \<in> set (sextets b0 b1 b2) \<Longrightarrow> unat d < 64"
proof -
  assume "d \<in> set (sextets b0 b1 b2)"
  then have "take_bit 6 d = d"
    unfolding sextets_def u8_masks
    by (simp only: set_simps insert_iff empty_iff, elim disjE)
      (simp_all only: sextets_take_bit, simp_all)
  then have "unat d = take_bit 6 (unat d)" by (metis unsigned_take_bit_eq)
  then show ?thesis by (metis take_bit_nat_less_exp [of 6, simplified])
qed

lemma sextets_inj: "sextets b0 b1 b2 = sextets c0 c1 c2 \<Longrightarrow> b0 = c0 \<and> b1 = c1 \<and> b2 = c2"
proof -
  have "push_bit 2 (sextets b0 b1 b2 ! 0) OR drop_bit 4 (sextets b0 b1 b2 ! 1) = b0"
    "push_bit 4 (sextets b0 b1 b2 ! 1) OR drop_bit 2 (sextets b0 b1 b2 ! 2) = b1"
    "push_bit 6 (sextets b0 b1 b2 ! 2) OR sextets b0 b1 b2 ! 3 = b2" for b0 b1 b2
    unfolding sextets_def u8_masks
    by (simp only: nth.simps nth_Cons_0 nth_Cons_numeral One_nat_def nth_Cons_Suc)
      (rule bit_word_eqI, drule u8_bits, elim disjE, simp_all add: u8_bit_simps)+
  then show "sextets b0 b1 b2 = sextets c0 c1 c2 \<Longrightarrow> b0 = c0 \<and> b1 = c1 \<and> b2 = c2" by metis
qed

lemma encode_chunk_inj:
  "encode_chunk [b0, b1, b2] = encode_chunk [c0, c1, c2] \<longleftrightarrow> [b0, b1, b2] = [c0, c1, c2]"
proof
  assume "encode_chunk [b0, b1, b2] = encode_chunk [c0, c1, c2]"
  moreover have "inj_on (\<lambda>d. B64_ENCODE ! unat d) {d :: u8. unat d < 64}"
    using url64.distinct_chars
    by (auto simp: inj_on_def nth_eq_iff_index_eq word_unat_eq_iff [where 'a = 8, symmetric])
  ultimately have "sextets b0 b1 b2 = sextets c0 c1 c2"
    unfolding encode_chunk_sextets
    by (elim map_inj_on) (auto elim!: inj_on_subset dest: sextets_lt)
  then show "[b0, b1, b2] = [c0, c1, c2]" using sextets_inj by simp
qed simp

lemma set_encode_chunk: "set (encode_chunk [b0, b1, b2]) \<subseteq> set B64_ENCODE"
  unfolding encode_chunk_sextets using sextets_lt by auto

lemma length_encode_chunk [simp]: "length (encode_chunk [b0, b1, b2]) = 4"
  by simp

lemma deobfuscate_step_obfuscate:
  "idx + length bs \<le> 256 \<Longrightarrow> deobfuscate_step prev idx (obfuscate_step prev (of_nat idx) bs) = bs"
proof (induction bs arbitrary: prev idx)
  case (Cons b bs)
  let ?b = "(b XOR prev) + of_nat idx"
  have idx: "of_nat idx + 1 = (of_nat (idx + 1) :: u8)" "idx mod 256 = idx"
    using Cons.prems by simp_all
  have "deobfuscate_step ?b (idx + 1) (obfuscate_step ?b (of_nat (idx + 1)) bs) = bs"
    using Cons.prems by (intro Cons.IH) simp
  moreover have "(?b - of_nat idx) XOR prev = b" by (simp add: xor.assoc)
  ultimately show ?case
    by (simp only: obfuscate_step.simps Let_def deobfuscate_step.simps idx)
qed simp

lemma deobfuscate_obfuscate: "length bs \<le> 256 \<Longrightarrow> deobfuscate_bytes (obfuscate_bytes bs) = bs"
  using deobfuscate_step_obfuscate [of 0 bs 165] by (simp add: deobfuscate_bytes_def obfuscate_bytes_def)

lemma length_obfuscate_step [simp]: "length (obfuscate_step prev i bs) = length bs"
  by (induction bs arbitrary: prev i) (simp_all add: Let_def)

lemma length_6: "length bs = 6 \<longleftrightarrow> (\<exists>a b c d e f. bs = [a, b, c, d, e, f])"
  by (auto simp: numeral_eq_Suc length_Suc_conv)

lemma encode_base64_6: "encode_base64 [a, b, c, d, e, f] = encode_chunk [a, b, c] @ encode_chunk [d, e, f]"
  by (simp add: encode_base64_def)

lemma encode_base64_inj:
  "length bs = 6 \<Longrightarrow> length cs = 6 \<Longrightarrow> encode_base64 bs = encode_base64 cs \<longleftrightarrow> bs = cs"
  unfolding length_6
  by (elim exE, hypsubst)
    (simp only: encode_base64_6 append_eq_append_conv length_encode_chunk encode_chunk_inj simp_thms list.inject conj_assoc)

lemma bit_byte_at: "bit (ucast (drop_bit j k AND 0xFF :: u64) :: u8) n \<longleftrightarrow> n < 8 \<and> bit k (j + n)"
proof -
  have "drop_bit j k AND 0xFF = take_bit 8 (drop_bit j k)"
    by (simp add: take_bit_eq_mask mask_eq_exp_minus_1)
  then show ?thesis by (simp only: bit_unsigned_iff bit_take_bit_iff bit_drop_bit_eq) auto
qed

lemma timestamp_bytes_eq_iff: "timestamp_bytes k = timestamp_bytes k' \<longleftrightarrow> take_bit 32 k = take_bit 32 k'"
proof
  assume "timestamp_bytes k = timestamp_bytes k'"
  then have "ucast (drop_bit j k AND 0xFF) = (ucast (drop_bit j k' AND 0xFF) :: u8)" if "j \<in> {0, 8, 16, 24}" for j
    using that by (auto simp: timestamp_bytes_def)
  then have b: "bit k (j + n) \<longleftrightarrow> bit k' (j + n)" if "j \<in> {0, 8, 16, 24}" "n < 8" for j n
    using that bit_byte_at [of j _ n] by metis
  have "bit k i \<longleftrightarrow> bit k' i" if "i < 32" for i
  proof -
    have "i div 8 * 8 \<in> {0, 8, 16, 24}" using that by auto
    from b [OF this, of "i mod 8"] show ?thesis by simp
  qed
  then show "take_bit 32 k = take_bit 32 k'"
    by (intro bit_word_eqI) (auto simp: bit_take_bit_iff)
next
  assume t: "take_bit 32 k = take_bit 32 k'"
  have b: "bit k i \<longleftrightarrow> bit k' i" if "i < 32" for i
    using arg_cong [OF t, of "\<lambda>w. bit w i"] that by (simp add: bit_take_bit_iff)
  have byte: "ucast (drop_bit j k AND 0xFF) = (ucast (drop_bit j k' AND 0xFF) :: u8)" if "j + 8 \<le> 32" for j
    by (rule bit_word_eqI) (use b that in \<open>simp add: bit_byte_at\<close>)
  show "timestamp_bytes k = timestamp_bytes k'"
    using byte [of 0] byte [of 8] byte [of 16] byte [of 24] by (simp add: timestamp_bytes_def)
qed

lemma timestamp_new_eq_iff: "timestamp_new k = timestamp_new k' \<longleftrightarrow> take_bit 32 k = take_bit 32 k'"
proof -
  have len_ts: "length (timestamp_bytes k) \<le> 256" for k by (simp add: timestamp_bytes_def)
  have len: "length (obfuscate_bytes (timestamp_bytes k)) = 6" for k
    by (simp only: obfuscate_bytes_def length_obfuscate_step) (simp add: timestamp_bytes_def)
  have "obfuscate_bytes (timestamp_bytes k) = obfuscate_bytes (timestamp_bytes k') \<longleftrightarrow>
      timestamp_bytes k = timestamp_bytes k'"
    using deobfuscate_obfuscate [of "timestamp_bytes k"] deobfuscate_obfuscate [of "timestamp_bytes k'"]
    by (metis len_ts)
  then show ?thesis
    by (simp add: timestamp_new_def encode_base64_inj len timestamp_bytes_eq_iff)
qed

lemma B64_ENCODE_valid: "is_valid_timestamp B64_ENCODE"
  by (simp add: is_valid_timestamp_def B64_ENCODE_def bytes_of_def of_char_def is_ascii_alphanumeric_def)

lemma timestamp_new_valid: "is_valid_timestamp (timestamp_new k) \<and> length (timestamp_new k) = 8"
proof -
  obtain a b c d e f where o: "obfuscate_bytes (timestamp_bytes k) = [a, b, c, d, e, f]"
    using length_6 [of "obfuscate_bytes (timestamp_bytes k)"]
    by (simp only: obfuscate_bytes_def length_obfuscate_step) (auto simp: timestamp_bytes_def)
  have "set (timestamp_new k) \<subseteq> set B64_ENCODE"
    unfolding timestamp_new_def o encode_base64_6 using set_encode_chunk by simp
  with B64_ENCODE_valid show ?thesis
    by (auto simp: is_valid_timestamp_def list_all_iff timestamp_new_def o encode_base64_6
        simp del: encode_chunk.simps)
qed

lemma repair_full_parsed:
  assumes "length s = 137" and "is_valid_timestamp (take 8 s)"
  shows "repair rng s = (case checksum_from_str s of Inl e \<Rightarrow> checksum_random rng | Inr c \<Rightarrow> c)"
  using assms
  by (auto simp: repair_def repair_full_def checksum_from_str_def Let_def decode_hex_hash_eq
      split: sum.splits option.splits)

lemma repair_normal_parsed:
  assumes "length s = 129"
  shows "repair rng s = (case checksum_from_str s of Inl e \<Rightarrow> checksum_random rng | Inr c \<Rightarrow> c)"
  using assms
  by (auto simp: repair_def repair_normal_def checksum_from_str_def Let_def decode_hex_hash_eq
      checksum_default_def split: sum.splits option.splits)

section \<open>Properties\<close>

text \<open>The printed checksum (with the header of any time stamp) parses back to the two hashes, and the
  lenient repair keeps them whatever the random generator delivers.\<close>

theorem checksum_roundtrip:
  assumes "wf_checksum c"
  shows "checksum_from_str (checksum_to_str (update_global_with k ts) c) = Inr c \<and>
    repair rng (checksum_to_str (update_global_with k ts) c) = c \<and>
    checksum_from_bytes (checksum_into_bytes c) = c"
proof -
  let ?s = "checksum_to_str (timestamp_new k) c"
  have "length (timestamp_new k) = 8" "is_valid_timestamp (timestamp_new k)"
    using timestamp_new_valid by simp_all
  moreover have "length ?s = 137" "take 8 ?s = timestamp_new k"
    using assms timestamp_new_valid by (simp_all add: checksum_to_str_def wf_checksum_def)
  ultimately show ?thesis
    using assms checksum_from_to [OF assms, of "timestamp_new k"]
    by (simp add: repair_full_parsed update_global_with_def checksum_from_bytes_def
        checksum_into_bytes_def wf_checksum_def)
qed

theorem checksum_roundtrip_witness:
  "wf_checksum \<lparr> first = hash_nil, second = replicate 32 0xAB \<rparr> \<and>
   checksum_from_str (checksum_to_str (update_global_with 1700000 timestamp_header_init)
     \<lparr> first = hash_nil, second = replicate 32 0xAB \<rparr>) =
     Inr \<lparr> first = hash_nil, second = replicate 32 0xAB \<rparr>"
proof -
  have "wf_checksum \<lparr> first = hash_nil, second = replicate 32 0xAB \<rparr>"
    by (simp add: wf_checksum_def hash_nil_def)
  then show ?thesis using checksum_roundtrip by blast
qed

text \<open>On a text of 129 bytes, and on one of 137 bytes with a well-formed time stamp, repair keeps
  exactly what the strict parser accepts and replaces everything else by a random checksum.\<close>

theorem repair_agrees_with_parser:
  assumes "length s = 129 \<or> length s = 137 \<and> is_valid_timestamp (take 8 s)"
  shows "repair rng s = (case checksum_from_str s of Inl e \<Rightarrow> checksum_random rng | Inr c \<Rightarrow> c)"
  using assms repair_normal_parsed repair_full_parsed by blast

theorem repair_agrees_with_parser_witness:
  "repair (\<lambda>k. hash_nil) (replicate 129 0x30) = checksum_random (\<lambda>k. hash_nil)"
proof -
  have "checksum_from_str (replicate 129 0x30) = Inl InvalidFormat"
    by (simp add: checksum_from_str_def)
  then show ?thesis using repair_agrees_with_parser [of "replicate 129 0x30" "\<lambda>k. hash_nil"] by simp
qed

text \<open>The time stamp header is eight URL-safe base64 characters that determine the low 32 bits of the
  kilo-second count (the obfuscation is undone by its inverse), and nothing else of it.\<close>

theorem timestamp_header_determines:
  "(timestamp_new k = timestamp_new k' \<longleftrightarrow> take_bit 32 k = take_bit 32 k') \<and>
   length (timestamp_new k) = 8 \<and> is_valid_timestamp (timestamp_new k) \<and>
   deobfuscate_bytes (obfuscate_bytes (timestamp_bytes k)) = timestamp_bytes k"
proof -
  have "length (timestamp_bytes k) \<le> 256" by (simp add: timestamp_bytes_def)
  from deobfuscate_obfuscate [OF this] show ?thesis
    using timestamp_new_valid by (simp only: timestamp_new_eq_iff)
qed

end
