(* ===== verification/Token_Types.thy ===== *)
theory Token_Types
  imports Token_Identity Checksum
begin

text \<open>
  The data the token store keeps, from \<open>src/app/model.rs\<close> and \<open>src/app/model/state/token/queue.rs\<close>:
  tokens, the bundle \<open>ExtToken\<close>, \<open>TokenInfo\<close> with its status and health, and the persisted helper forms.
  A \<open>Token\<close> is immutable, so it is its contents here (its reference-counted cell is the subject of
  \<open>Token_Cache\<close>).  UUIDs are 128-bit words; usage and session profiles, and the Stripe profile
  but for its membership type, are only carried along and stay opaque texts.
\<close>

section \<open>Health\<close>

record token_health =
  backoff_until :: u64
  consecutive_failures :: u32

definition health_new :: token_health where
  "health_new = \<lparr> backoff_until = 0, consecutive_failures = 0 \<rparr>"

definition is_available :: "u64 \<Rightarrow> token_health \<Rightarrow> bool" where
  "is_available now_secs h \<longleftrightarrow> backoff_until h \<le> now_secs"

definition set_backoff :: "u64 \<Rightarrow> u64 \<Rightarrow> token_health \<Rightarrow> token_health" where
  "set_backoff now_secs seconds h = h\<lparr> backoff_until := now_secs + seconds \<rparr>"

definition set_permanent_backoff :: "token_health \<Rightarrow> token_health" where
  "set_permanent_backoff h = h\<lparr> backoff_until := - 1 \<rparr>"

definition clear_backoff :: "token_health \<Rightarrow> token_health" where
  "clear_backoff h = h\<lparr> backoff_until := 0, consecutive_failures := 0 \<rparr>"

definition inc_failures :: "token_health \<Rightarrow> u32 \<times> token_health" where
  "inc_failures h =
     (consecutive_failures h + 1, h\<lparr> consecutive_failures := consecutive_failures h + 1 \<rparr>)"

section \<open>Bundles and token information\<close>

record token =
  raw :: raw_token
  token_str :: str

type_synonym uuid = u128

datatype gcpp_host = Asia | EU | US

record ext_token =
  primary_token :: token
  secondary_token :: "token option"
  ext_checksum :: checksum
  client_key :: hash
  config_version :: "uuid option"
  session_id :: uuid
  proxy :: "str option"
  timezone :: "str option"
  gcpp_host :: "gcpp_host option"

record token_status =
  enabled :: bool
  health :: token_health

record user_profile =
  up_user_id :: int
  email :: "str option"
  first_name :: "str option"
  last_name :: "str option"
  workos_id :: "user_id option"
  team_id :: "int option"
  created_at :: "int option"
  is_enterprise_user :: bool
  is_on_new_pricing :: bool
  privacy_mode_info :: str

type_synonym usage_profile = str

datatype membership_type = Free | FreeTrial | Pro | ProPlus | Ultra | Enterprise

record stripe_profile =
  membership_type :: membership_type
  stripe_rest :: str

type_synonym session = str

record token_info =
  info_bundle :: ext_token
  status :: token_status
  usage :: "usage_profile option"
  user :: "user_profile option"
  stripe :: "stripe_profile option"
  sessions :: "session list"

definition token_key_of :: "token \<Rightarrow> token_key" where
  "token_key_of t = raw_token_key (raw t)"

definition info_key :: "token_info \<Rightarrow> token_key" where
  "info_key i = token_key_of (primary_token (info_bundle i))"

definition is_enabled :: "token_info \<Rightarrow> bool" where
  "is_enabled i \<longleftrightarrow> enabled (status i)"

definition status_default :: token_status where
  "status_default = \<lparr> enabled = True, health = health_new \<rparr>"

text \<open>The inherent \<open>ExtToken::clone\<close> drops the secondary token (the derived one keeps it).\<close>

definition ext_token_clone :: "ext_token \<Rightarrow> ext_token" where
  "ext_token_clone b = b\<lparr> secondary_token := None \<rparr>"

definition clone_without_config_version :: "ext_token \<Rightarrow> ext_token" where
  "clone_without_config_version b = b\<lparr> secondary_token := None, config_version := None \<rparr>"

definition web_token :: "ext_token \<Rightarrow> token" where
  "web_token b = (case secondary_token b of Some t \<Rightarrow> t | None \<Rightarrow> primary_token b)"

definition user_profile_alias :: "user_profile \<Rightarrow> str option" where
  "user_profile_alias u =
     (case email u of
        Some e \<Rightarrow> Some e
      | None \<Rightarrow> (case first_name u of Some n \<Rightarrow> Some n | None \<Rightarrow> last_name u))"

section \<open>Persisted form\<close>

record raw_token_helper =
  rth_provider :: provider_helper
  rth_id :: user_id
  rth_signature :: bytes
  rth_duration :: duration
  rth_randomness :: u64
  rth_is_session :: bool

definition raw_token_to_helper :: "str list \<Rightarrow> raw_token \<Rightarrow> raw_token_helper" where
  "raw_token_to_helper PROVIDERS r =
     \<lparr> rth_provider = provider_to_helper PROVIDERS (provider (rt_subject r)), rth_id = sub_id (rt_subject r),
       rth_signature = rt_signature r, rth_duration = rt_duration r, rth_randomness = rt_randomness r,
       rth_is_session = rt_is_session r \<rparr>"

text \<open>\<open>__unwrap_panic!\<close>: an unknown provider in the file panics.\<close>

definition raw_token_extract :: "str list \<Rightarrow> raw_token_helper \<Rightarrow> raw_token outcome" where
  "raw_token_extract PROVIDERS h =
     (case provider_try_extract PROVIDERS (rth_provider h) of
        Inl _ \<Rightarrow> Panic
      | Inr p \<Rightarrow>
          Done \<lparr> rt_subject = \<lparr> provider = p, sub_id = rth_id h \<rparr>, rt_signature = rth_signature h,
                 rt_duration = rth_duration h, rt_randomness = rth_randomness h,
                 rt_is_session = rth_is_session h \<rparr>)"

record ext_token_helper =
  eth_primary :: raw_token_helper
  eth_secondary :: "raw_token_helper option"
  eth_checksum :: checksum
  eth_client_key :: hash
  eth_config_version :: "uuid option"
  eth_session_id :: uuid
  eth_proxy :: "str option"
  eth_timezone :: "str option"
  eth_gcpp_host :: "gcpp_host option"

definition ext_token_helper_new :: "str list \<Rightarrow> ext_token \<Rightarrow> ext_token_helper" where
  "ext_token_helper_new PROVIDERS b =
     \<lparr> eth_primary = raw_token_to_helper PROVIDERS (raw (primary_token b)),
       eth_secondary = map_option (\<lambda>t. raw_token_to_helper PROVIDERS (raw t)) (secondary_token b),
       eth_checksum = ext_checksum b, eth_client_key = client_key b, eth_config_version = config_version b,
       eth_session_id = session_id b, eth_proxy = proxy b, eth_timezone = timezone b,
       eth_gcpp_host = gcpp_host b \<rparr>"

text \<open>\<open>print\<close> is the token's text (\<open>Token::new\<close> with no text given prints the raw token).  Time zones are
  held by name; \<open>tz_known\<close> is \<open>chrono_tz\<close>'s parser, whose failure panics.\<close>

definition ext_token_extract ::
  "str list \<Rightarrow> (raw_token \<Rightarrow> str) \<Rightarrow> (str \<Rightarrow> bool) \<Rightarrow> ext_token_helper \<Rightarrow> ext_token outcome" where
  "ext_token_extract PROVIDERS print tz_known h =
     bind_outcome (raw_token_extract PROVIDERS (eth_primary h)) (\<lambda>r1.
     bind_outcome (case eth_secondary h of
         None \<Rightarrow> Done None
       | Some s \<Rightarrow> bind_outcome (raw_token_extract PROVIDERS s) (\<lambda>r. Done (Some \<lparr> raw = r, token_str = print r \<rparr>)))
       (\<lambda>sec.
     if (case eth_timezone h of None \<Rightarrow> True | Some tz \<Rightarrow> tz_known tz)
     then Done \<lparr> primary_token = \<lparr> raw = r1, token_str = print r1 \<rparr>, secondary_token = sec,
            ext_checksum = eth_checksum h, client_key = eth_client_key h,
            config_version = eth_config_version h, session_id = eth_session_id h, proxy = eth_proxy h,
            timezone = eth_timezone h, gcpp_host = eth_gcpp_host h \<rparr>
     else Panic))"

record token_info_helper =
  tih_alias :: str
  tih_bundle :: ext_token_helper
  tih_status :: token_status
  tih_usage :: "usage_profile option"
  tih_user :: "user_profile option"
  tih_stripe :: "stripe_profile option"
  tih_sessions :: "session list"

definition token_info_helper_new :: "str list \<Rightarrow> token_info \<Rightarrow> str \<Rightarrow> token_info_helper" where
  "token_info_helper_new PROVIDERS i a =
     \<lparr> tih_alias = a, tih_bundle = ext_token_helper_new PROVIDERS (info_bundle i), tih_status = status i,
       tih_usage = usage i, tih_user = user i, tih_stripe = stripe i, tih_sessions = sessions i \<rparr>"

definition token_info_extract ::
  "str list \<Rightarrow> (raw_token \<Rightarrow> str) \<Rightarrow> (str \<Rightarrow> bool) \<Rightarrow> token_info_helper \<Rightarrow> (token_info \<times> str) outcome" where
  "token_info_extract PROVIDERS print tz_known h =
     bind_outcome (ext_token_extract PROVIDERS print tz_known (tih_bundle h)) (\<lambda>b.
       Done (\<lparr> info_bundle = b, status = tih_status h, usage = tih_usage h, user = tih_user h,
               stripe = tih_stripe h, sessions = tih_sessions h \<rparr>, tih_alias h))"

section \<open>What persisting keeps\<close>

text \<open>A token with its canonical text and a known provider; a bundle of such tokens with a known zone.\<close>

definition wf_token :: "str list \<Rightarrow> (raw_token \<Rightarrow> str) \<Rightarrow> token \<Rightarrow> bool" where
  "wf_token PROVIDERS print t \<longleftrightarrow>
     wf_provider PROVIDERS (provider (rt_subject (raw t))) \<and> token_str t = print (raw t)"

definition wf_bundle :: "str list \<Rightarrow> (raw_token \<Rightarrow> str) \<Rightarrow> (str \<Rightarrow> bool) \<Rightarrow> ext_token \<Rightarrow> bool" where
  "wf_bundle PROVIDERS print tz_known b \<longleftrightarrow>
     wf_token PROVIDERS print (primary_token b) \<and>
     (case secondary_token b of None \<Rightarrow> True | Some t \<Rightarrow> wf_token PROVIDERS print t) \<and>
     (case timezone b of None \<Rightarrow> True | Some tz \<Rightarrow> tz_known tz)"

lemma raw_token_extract_to_helper:
  "wf_provider PROVIDERS (provider (rt_subject r)) \<Longrightarrow>
   raw_token_extract PROVIDERS (raw_token_to_helper PROVIDERS r) = Done r"
  by (simp add: raw_token_extract_def raw_token_to_helper_def provider_helper_roundtrip)

lemma ext_token_extract_new:
  assumes "wf_bundle PROVIDERS print tz_known b"
  shows "ext_token_extract PROVIDERS print tz_known (ext_token_helper_new PROVIDERS b) = Done b"
proof -
  have t: "\<lparr> raw = raw t, token_str = print (raw t) \<rparr> = t" if "wf_token PROVIDERS print t" for t
    using that by (cases t) (simp add: wf_token_def)
  have r: "raw_token_extract PROVIDERS (raw_token_to_helper PROVIDERS (raw t)) = Done (raw t)"
    if "wf_token PROVIDERS print t" for t
    using that by (simp add: wf_token_def raw_token_extract_to_helper)
  show ?thesis
    using assms by (cases "secondary_token b"; cases b)
      (auto simp: ext_token_extract_def ext_token_helper_new_def wf_bundle_def r t)
qed

lemma token_info_extract_new:
  "wf_bundle PROVIDERS print tz_known (info_bundle i) \<Longrightarrow>
   token_info_extract PROVIDERS print tz_known (token_info_helper_new PROVIDERS i a) = Done (i, a)"
  by (simp add: token_info_extract_def token_info_helper_new_def ext_token_extract_new)

section \<open>Sample data\<close>

text \<open>A token of user 1 with the given randomness, used where a statement is applied to concrete data.\<close>

definition sample_info :: "u64 \<Rightarrow> bool \<Rightarrow> token_info" where
  "sample_info n en =
     \<lparr> info_bundle =
         \<lparr> primary_token =
             \<lparr> raw = \<lparr> rt_subject = \<lparr> provider = 0, sub_id = replicate 16 1 \<rparr>, rt_signature = replicate 32 0,
                        rt_duration = \<lparr> dur_start = 0, dur_end = 0 \<rparr>, rt_randomness = n, rt_is_session = True \<rparr>,
               token_str = [] \<rparr>,
           secondary_token = None, ext_checksum = \<lparr> first = hash_nil, second = hash_nil \<rparr>,
           client_key = hash_nil, config_version = None, session_id = 0, proxy = None, timezone = None,
           gcpp_host = None \<rparr>,
       status = \<lparr> enabled = en, health = health_new \<rparr>, usage = None, user = None, stripe = None,
       sessions = [] \<rparr>"

lemma sample_info_simps [simp]:
  "info_key (sample_info n en) = \<lparr> user_id = replicate 16 1, randomness = n \<rparr>"
  "is_enabled (sample_info n en) = en" "is_available now (health (status (sample_info n en)))"
  by (simp_all add: sample_info_def info_key_def token_key_of_def raw_token_key_def is_enabled_def
      is_available_def health_new_def)

end
