(* ===== verification/Token_Queue.thy ===== *)
theory Token_Queue
  imports Token_Types
begin

text \<open>
  \<open>src/app/model/state/token/queue.rs\<close> (with the default feature \<open>horizon\<close>): the round-robin queue.  All
  queue types share one vector of token ids; each has its own head in the global \<open>QUEUE_HEADS\<close>.  The
  locale \<open>token_index\<close> states what the token manager needs of the queue: an index over the keys of the
  stored tokens that stays consistent as tokens come, go and change their key.
\<close>

section \<open>Data\<close>

datatype queue_type = PrivilegedPaid | PrivilegedFree | NormalPaid | NormalFree

primrec as_index :: "queue_type \<Rightarrow> usize" where
  "as_index PrivilegedPaid = 0"
| "as_index PrivilegedFree = 1"
| "as_index NormalPaid = 2"
| "as_index NormalFree = 3"

type_synonym queue_heads = "usize list"

definition QUEUE_HEADS :: queue_heads where
  "QUEUE_HEADS = [0, 0, 0, 0]"

record token_queue =
  tq_vec :: "usize list"
  tq_map :: "token_key \<Rightarrow> usize option"

definition queue_with_capacity :: "usize \<Rightarrow> token_queue" where
  "queue_with_capacity capacity = \<lparr> tq_vec = [], tq_map = (\<lambda>_. None) \<rparr>"

section \<open>Operations\<close>

definition queue_push :: "token_key \<Rightarrow> usize \<Rightarrow> token_queue \<Rightarrow> token_queue" where
  "queue_push token_key token_id q =
     (let vec_index = length (tq_vec q)
      in q\<lparr> tq_vec := tq_vec q @ [token_id], tq_map := (tq_map q)(token_key \<mapsto> vec_index) \<rparr>)"

definition queue_set_key :: "token_key \<Rightarrow> token_key \<Rightarrow> token_queue \<Rightarrow> bool \<times> token_queue" where
  "queue_set_key old_key new_key q =
     (case tq_map q old_key of
        None \<Rightarrow> (False, q)
      | Some vec_index \<Rightarrow>
          let m = (tq_map q)(old_key := None)
          in (m new_key = None, q\<lparr> tq_map := m(new_key \<mapsto> vec_index) \<rparr>))"

text \<open>\<open>get_unchecked\<close> followed by \<open>unwrap_unchecked\<close> on the slots of the manager.\<close>

definition slot :: "token_info option list \<Rightarrow> usize \<Rightarrow> token_info option" where
  "slot tokens tid = (if tid < length tokens then tokens ! tid else None)"

definition adjust_heads :: "usize \<Rightarrow> queue_heads \<Rightarrow> queue_heads" where
  "adjust_heads vec_index heads = map (\<lambda>current. if current > vec_index then current - 1 else current) heads"

fun reindex :: "token_info option list \<Rightarrow> usize \<Rightarrow> usize list \<Rightarrow> (token_key \<Rightarrow> usize option) \<Rightarrow>
    (token_key \<Rightarrow> usize option) outcome" where
  "reindex tokens pos [] m = Done m"
| "reindex tokens pos (tid # ids) m =
     (case slot tokens tid of
        None \<Rightarrow> UB
      | Some info \<Rightarrow>
          if m (info_key info) = None then UB
          else reindex tokens (pos + 1) ids (m(info_key info \<mapsto> pos)))"

definition queue_remove :: "token_key \<Rightarrow> token_info option list \<Rightarrow> queue_heads \<Rightarrow> token_queue \<Rightarrow>
    (usize option \<times> queue_heads \<times> token_queue) outcome" where
  "queue_remove token_key tokens heads q =
     (case tq_map q token_key of
        None \<Rightarrow> Done (None, heads, q)
      | Some vec_index \<Rightarrow>
          let m = (tq_map q)(token_key := None);
              heads = adjust_heads vec_index heads
          in if vec_index < length (tq_vec q)
             then let removed = tq_vec q ! vec_index;
                      vec = take vec_index (tq_vec q) @ drop (vec_index + 1) (tq_vec q)
                  in bind_outcome (reindex tokens vec_index (drop vec_index vec) m) (\<lambda>m.
                       Done (Some removed, heads, \<lparr> tq_vec = vec, tq_map = m \<rparr>))
             else Panic)"

definition selectable :: "u64 \<Rightarrow> token_info \<Rightarrow> bool" where
  "selectable now info \<longleftrightarrow> \<not> (\<not> is_enabled info \<or> \<not> is_available now (health (status info)))"

text \<open>The search loop over \<open>i\<close> in \<open>0..len\<close>; it delivers the position and the token found.\<close>

fun select_loop :: "u64 \<Rightarrow> token_info option list \<Rightarrow> usize list \<Rightarrow> usize \<Rightarrow> usize list \<Rightarrow>
    (usize \<times> token_info) option outcome" where
  "select_loop now tokens vec start [] = Done None"
| "select_loop now tokens vec start (i # is) =
     (let index = (start + i) mod length vec
      in case slot tokens (vec ! index) of
          None \<Rightarrow> UB
        | Some info \<Rightarrow>
            if \<not> selectable now info then select_loop now tokens vec start is
            else Done (Some (index, info)))"

definition queue_select :: "u64 \<Rightarrow> queue_type \<Rightarrow> token_info option list \<Rightarrow> queue_heads \<Rightarrow> token_queue \<Rightarrow>
    (ext_token option \<times> queue_heads) outcome" where
  "queue_select now queue_type tokens heads q =
     (if tq_vec q = [] then Done (None, heads)
      else let start = heads ! as_index queue_type;
               len = length (tq_vec q)
           in bind_outcome (select_loop now tokens (tq_vec q) start [0..<len]) (\<lambda>found.
                case found of
                  None \<Rightarrow> Done (None, heads)
                | Some (index, info) \<Rightarrow>
                    Done (Some (ext_token_clone (info_bundle info)),
                          heads[as_index queue_type := (index + 1) mod len])))"

section \<open>The interface to the manager\<close>

text \<open>\<open>keys\<close> is the view the queue has of the manager: which id holds a token of which key.\<close>

definition keys_of :: "token_info option list \<Rightarrow> usize \<Rightarrow> token_key option" where
  "keys_of tokens tid = map_option info_key (slot tokens tid)"

text \<open>An index over the keys of the stored tokens.  The laws ask for fresh keys, and promise that the
  operations then succeed and keep the index consistent, whatever the token slots hold besides keys.\<close>

locale token_index =
  fixes invar :: "(usize \<Rightarrow> token_key option) \<Rightarrow> 'q \<Rightarrow> bool"
    and empty :: 'q
    and push :: "token_key \<Rightarrow> usize \<Rightarrow> 'q \<Rightarrow> 'q"
    and set_key :: "token_key \<Rightarrow> token_key \<Rightarrow> 'q \<Rightarrow> bool \<times> 'q"
    and remove :: "token_key \<Rightarrow> token_info option list \<Rightarrow> 'h \<Rightarrow> 'q \<Rightarrow> (usize option \<times> 'h \<times> 'q) outcome"
  assumes empty_invar: "invar (\<lambda>_. None) empty"
    and push_invar: "invar keys q \<Longrightarrow> keys tid = None \<Longrightarrow> k \<notin> ran keys \<Longrightarrow> invar (keys(tid \<mapsto> k)) (push k tid q)"
    and set_key_invar: "invar keys q \<Longrightarrow> keys tid = Some k \<Longrightarrow> k' \<notin> ran keys \<Longrightarrow>
      \<exists>q'. set_key k k' q = (True, q') \<and> invar (keys(tid \<mapsto> k')) q'"
    and remove_invar: "invar keys q \<Longrightarrow> keys tid = Some k \<Longrightarrow> keys_of tokens = keys(tid := None) \<Longrightarrow>
      \<exists>h' q'. remove k tokens h q = Done (Some tid, h', q') \<and> invar (keys(tid := None)) q'"
begin

text \<open>A token that is taken out can be put back under another fresh key.\<close>

lemma replace_invar:
  assumes "invar keys q" and "keys tid = Some k" and "keys_of tokens = keys(tid := None)"
    and "k' \<notin> ran (keys(tid := None))"
  shows "\<exists>h' q'. remove k tokens h q = Done (Some tid, h', q') \<and>
    invar (keys(tid \<mapsto> k')) (push k' tid q')"
proof -
  obtain h' q' where "remove k tokens h q = Done (Some tid, h', q')" and inv: "invar (keys(tid := None)) q'"
    using remove_invar [OF assms(1-3)] by blast
  then show ?thesis using push_invar [OF inv _ assms(4), of tid] by auto
qed

end

section \<open>The queue is such an index\<close>

definition queue_inv :: "(usize \<Rightarrow> token_key option) \<Rightarrow> token_queue \<Rightarrow> bool" where
  "queue_inv keys q \<longleftrightarrow>
     distinct (tq_vec q) \<and> set (tq_vec q) = dom keys \<and>
     (\<forall>k i. tq_map q k = Some i \<longleftrightarrow> i < length (tq_vec q) \<and> keys (tq_vec q ! i) = Some k)"

lemma queue_inv_map: "queue_inv keys q \<Longrightarrow> tq_map q k = Some i \<longleftrightarrow> i < length (tq_vec q) \<and> keys (tq_vec q ! i) = Some k"
  by (simp add: queue_inv_def)

text \<open>Distinct ids have distinct keys.\<close>

lemma queue_inv_inj:
  assumes "queue_inv keys q" and "keys a = Some k" and "keys b = Some k"
  shows "a = b"
proof -
  obtain i j where "i < length (tq_vec q)" "tq_vec q ! i = a" "j < length (tq_vec q)" "tq_vec q ! j = b"
    using assms by (metis domI in_set_conv_nth queue_inv_def)
  moreover from this have "tq_map q k = Some i" "tq_map q k = Some j"
    using assms by (auto simp: queue_inv_map)
  ultimately show ?thesis by auto
qed

lemma queue_push_inv:
  assumes "queue_inv keys q" and "keys tid = None" and "k \<notin> ran keys"
  shows "queue_inv (keys(tid \<mapsto> k)) (queue_push k tid q)"
proof -
  have tid: "tid \<notin> set (tq_vec q)" using assms by (auto simp: queue_inv_def)
  then have nth: "tq_vec q ! i \<noteq> tid" if "i < length (tq_vec q)" for i using that by auto
  have "((tq_map q)(k \<mapsto> length (tq_vec q))) k' = Some i \<longleftrightarrow>
      i < length (tq_vec q @ [tid]) \<and> (keys(tid \<mapsto> k)) ((tq_vec q @ [tid]) ! i) = Some k'" for k' i
  proof (cases "i < length (tq_vec q)")
    case True
    then show ?thesis
      using nth assms by (auto simp: queue_inv_map nth_append ran_def)
  next
    case False
    then show ?thesis
      using assms(1) by (auto simp: queue_inv_map nth_append)
  qed
  then show ?thesis
    using assms tid by (auto simp: queue_inv_def queue_push_def Let_def)
qed

lemma queue_set_key_inv:
  assumes "queue_inv keys q" and "keys tid = Some k" and "k' \<notin> ran keys"
  shows "\<exists>q'. queue_set_key k k' q = (True, q') \<and> queue_inv (keys(tid \<mapsto> k')) q'"
proof -
  obtain i where i: "i < length (tq_vec q)" "tq_vec q ! i = tid"
    using assms by (metis domI in_set_conv_nth queue_inv_def)
  then have m: "tq_map q k = Some i" using assms by (simp add: queue_inv_map)
  have k': "tq_map q k' = None"
    using assms(1,3) queue_inv_map [OF assms(1), of k'] by (cases "tq_map q k'") (auto simp: ran_def)
  let ?m = "(tq_map q)(k := None, k' \<mapsto> i)"
  have other: "j = i" if "j < length (tq_vec q)" "tq_vec q ! j = tid" for j
    using that i assms(1) by (auto simp: queue_inv_def distinct_conv_nth)
  have "?m k'' = Some j \<longleftrightarrow> j < length (tq_vec q) \<and> (keys(tid \<mapsto> k')) (tq_vec q ! j) = Some k''" for k'' j
  proof (cases "tq_vec q ! j = tid \<and> j < length (tq_vec q)")
    case True
    with other have "j = i" by blast
    moreover have "tq_map q k'' = Some i \<longleftrightarrow> k'' = k" using i assms by (auto simp: queue_inv_map)
    ultimately show ?thesis using i by auto
  next
    case False
    moreover have "keys (tq_vec q ! j) \<noteq> Some k'" using assms(3) by (auto simp: ran_def)
    moreover have "keys (tq_vec q ! j) = Some k \<Longrightarrow> tq_vec q ! j = tid"
      using queue_inv_inj [OF assms(1)] assms(2) by blast
    ultimately show ?thesis using i assms(1) by (auto simp: queue_inv_map)
  qed
  then have "queue_inv (keys(tid \<mapsto> k')) (q\<lparr> tq_map := ?m \<rparr>)"
    using assms by (auto simp: queue_inv_def)
  moreover have "queue_set_key k k' q = (True, q\<lparr> tq_map := ?m \<rparr>)"
    using m k' by (auto simp: queue_set_key_def Let_def)
  ultimately show ?thesis by blast
qed

lemma reindex_Done:
  assumes "\<And>tid. tid \<in> set ids \<Longrightarrow> \<exists>k. keys_of tokens tid = Some k \<and> m k \<noteq> None"
    and "distinct ids" and "inj_on (keys_of tokens) (set ids)"
  shows "\<exists>m'. reindex tokens pos ids m = Done m' \<and>
    (\<forall>j k. j < length ids \<longrightarrow> keys_of tokens (ids ! j) = Some k \<longrightarrow> m' k = Some (pos + j)) \<and>
    (\<forall>k. (\<forall>tid \<in> set ids. keys_of tokens tid \<noteq> Some k) \<longrightarrow> m' k = m k)"
  using assms
proof (induction ids arbitrary: pos m)
  case (Cons tid ids)
  obtain k where k: "keys_of tokens tid = Some k" "m k \<noteq> None"
    using Cons.prems(1) [of tid] by auto
  then obtain info where info: "slot tokens tid = Some info" "info_key info = k"
    by (auto simp: keys_of_def)
  have new: "keys_of tokens t \<noteq> Some k" if "t \<in> set ids" for t
    using that k(1) Cons.prems(2,3) by (metis distinct.simps(2) inj_onD list.set_intros)
  obtain m' where m': "reindex tokens (pos + 1) ids (m(k \<mapsto> pos)) = Done m'"
    "\<And>j k. j < length ids \<Longrightarrow> keys_of tokens (ids ! j) = Some k \<Longrightarrow> m' k = Some (pos + 1 + j)"
    "\<And>k'. (\<forall>t \<in> set ids. keys_of tokens t \<noteq> Some k') \<Longrightarrow> m' k' = (m(k \<mapsto> pos)) k'"
  proof -
    have "\<exists>k'. keys_of tokens t = Some k' \<and> (m(k \<mapsto> pos)) k' \<noteq> None" if "t \<in> set ids" for t
      using Cons.prems(1) [of t] that by (auto split: if_splits)
    from Cons.IH [OF this, of "pos + 1"] Cons.prems(2,3) that show thesis
      by (simp only: distinct.simps list.set inj_on_insert) metis
  qed
  have "m' k = Some pos" using m'(3) [of k] new by simp
  moreover have "reindex tokens pos (tid # ids) m = Done m'" using info k(2) m'(1) by simp
  moreover have "m' k'' = Some (pos + j)"
    if "j < length (tid # ids)" "keys_of tokens ((tid # ids) ! j) = Some k''" for j k''
    using that \<open>m' k = Some pos\<close> k(1) m'(2) by (cases j) auto
  moreover have "m' k' = m k'" if "\<forall>t \<in> set (tid # ids). keys_of tokens t \<noteq> Some k'" for k'
    using that k(1) m'(3) [of k'] by auto
  ultimately show ?case by blast
qed simp

lemma queue_invI:
  assumes "distinct (tq_vec q)" and "set (tq_vec q) = dom keys"
    and "\<And>j k. j < length (tq_vec q) \<Longrightarrow> keys (tq_vec q ! j) = Some k \<Longrightarrow> tq_map q k = Some j"
    and "\<And>k. k \<notin> ran keys \<Longrightarrow> tq_map q k = None"
  shows "queue_inv keys q"
proof -
  have "i < length (tq_vec q) \<and> keys (tq_vec q ! i) = Some k" if m: "tq_map q k = Some i" for k i
  proof -
    have "k \<in> ran keys" using m assms(4) [of k] by (cases "k \<in> ran keys") simp_all
    then obtain tid where tid: "keys tid = Some k" unfolding ran_def by blast
    then have "tid \<in> set (tq_vec q)" unfolding assms(2) by (rule domI)
    then obtain j where j: "j < length (tq_vec q)" "tq_vec q ! j = tid" by (meson in_set_conv_nth)
    with tid assms(3) [of j k] m have "i = j" by simp
    with j tid show ?thesis by simp
  qed
  with assms(1-3) show ?thesis unfolding queue_inv_def by blast
qed

lemma remove_nth:
  assumes "i < length v"
  shows "length (take i v @ drop (Suc i) v) = length v - 1"
    and "j < length v - 1 \<Longrightarrow> (take i v @ drop (Suc i) v) ! j = (if j < i then v ! j else v ! Suc j)"
    and "drop i (take i v @ drop (Suc i) v) = drop (Suc i) v"
    and "distinct v \<Longrightarrow> distinct (take i v @ drop (Suc i) v)"
    and "distinct v \<Longrightarrow> set (take i v @ drop (Suc i) v) = set v - {v ! i}"
    and "distinct v \<Longrightarrow> t \<in> set (drop (Suc i) v) \<Longrightarrow> t \<noteq> v ! i"
proof -
  have v: "v = take i v @ v ! i # drop (Suc i) v" by (rule id_take_nth_drop [OF assms])
  show "distinct v \<Longrightarrow> distinct (take i v @ drop (Suc i) v)"
    by (subst (asm) v) auto
  assume "distinct v"
  then have d: "distinct (take i v @ v ! i # drop (Suc i) v)" using v by simp
  then show "t \<in> set (drop (Suc i) v) \<Longrightarrow> t \<noteq> v ! i" by auto
  have "set v = set (take i v) \<union> insert (v ! i) (set (drop (Suc i) v))"
    by (subst v) simp
  with d show "set (take i v @ drop (Suc i) v) = set v - {v ! i}" by auto
qed (use assms in \<open>auto simp: nth_append min_def\<close>)

text \<open>What removal does to the vector and the map, once the positions behind the hole are renumbered.\<close>

lemma removed_inv:
  assumes inv: "queue_inv keys q" and i: "i < length (tq_vec q)" and k: "keys (tq_vec q ! i) = Some k"
    and tail: "\<And>j k'. j < length (tq_vec q) - 1 - i \<Longrightarrow> keys (tq_vec q ! (Suc (i + j))) = Some k' \<Longrightarrow>
      m' k' = Some (i + j)"
    and other: "\<And>k'. \<forall>t \<in> set (drop (Suc i) (tq_vec q)). keys t \<noteq> Some k' \<Longrightarrow>
      m' k' = ((tq_map q)(k := None)) k'"
  shows "queue_inv (keys(tq_vec q ! i := None))
    \<lparr> tq_vec = take i (tq_vec q) @ drop (Suc i) (tq_vec q), tq_map = m' \<rparr>"
proof (rule queue_invI; simp only: token_queue.simps)
  let ?v = "tq_vec q"
  have dist: "distinct ?v" and dom: "set ?v = dom keys" using inv by (auto simp: queue_inv_def)
  show "distinct (take i ?v @ drop (Suc i) ?v)" by (rule remove_nth [OF i]) (rule dist)
  show "set (take i ?v @ drop (Suc i) ?v) = dom (keys(?v ! i := None))"
    unfolding remove_nth(5) [OF i dist] using dom by auto
  show "m' k'' = Some j" if j: "j < length (take i ?v @ drop (Suc i) ?v)"
    and k'': "(keys(?v ! i := None)) ((take i ?v @ drop (Suc i) ?v) ! j) = Some k''" for j k''
  proof (cases "j < i")
    case True
    then have vj: "keys (?v ! j) = Some k''" "?v ! j \<noteq> ?v ! i"
      using j k'' i by (simp_all add: remove_nth split: if_splits)
    have "keys t \<noteq> Some k''" if "t \<in> set (drop (Suc i) ?v)" for t
    proof
      assume "keys t = Some k''"
      then have "t = ?v ! j" using queue_inv_inj [OF inv] vj by blast
      moreover obtain n where "n < length (drop (Suc i) ?v)" "drop (Suc i) ?v ! n = t"
        using \<open>t \<in> set (drop (Suc i) ?v)\<close> by (meson in_set_conv_nth)
      ultimately have "j = Suc (i + n)" using dist True i by (auto simp: nth_eq_iff_index_eq)
      with True show False by simp
    qed
    moreover have "k'' \<noteq> k" using queue_inv_inj [OF inv] vj k by blast
    ultimately show ?thesis using other [of k''] vj True i inv by (simp add: queue_inv_map)
  next
    case False
    then have "keys (?v ! Suc (i + (j - i))) = Some k''"
      using j k'' i by (simp add: remove_nth split: if_splits)
    then show ?thesis using tail [of "j - i" k''] False j i by (simp add: remove_nth)
  qed
  show "m' k'' = None" if "k'' \<notin> ran (keys(?v ! i := None))" for k''
  proof -
    have "keys t \<noteq> Some k''" if "t \<in> set (drop (Suc i) ?v)" for t
      using \<open>k'' \<notin> _\<close> remove_nth(6) [OF i dist that] by (metis fun_upd_other ranI)
    then have "\<forall>t \<in> set (drop (Suc i) ?v). keys t \<noteq> Some k''" by blast
    moreover have "tq_map q k'' = None" if "k'' \<noteq> k"
    proof (cases "tq_map q k''")
      case (Some n)
      then have n: "keys (?v ! n) = Some k''" using queue_inv_map [OF inv] by blast
      with k that have "?v ! n \<noteq> ?v ! i" by auto
      with n have "k'' \<in> ran (keys(?v ! i := None))" by (metis fun_upd_other ranI)
      with \<open>k'' \<notin> _\<close> show ?thesis by blast
    qed
    ultimately show ?thesis using other [of k''] by auto
  qed
qed

lemma queue_remove_inv:
  assumes inv: "queue_inv keys q" and k: "keys tid = Some k" and tok: "keys_of tokens = keys(tid := None)"
  shows "\<exists>h' q'. queue_remove k tokens h q = Done (Some tid, h', q') \<and> queue_inv (keys(tid := None)) q'"
proof -
  let ?v = "tq_vec q" and ?m = "(tq_map q)(k := None)"
  obtain i where i: "i < length ?v" "?v ! i = tid"
    using inv k by (metis domI in_set_conv_nth queue_inv_def)
  have dist: "distinct ?v" and dom: "set ?v = dom keys" using inv by (auto simp: queue_inv_def)
  let ?t = "drop (Suc i) ?v"
  have ne: "t \<noteq> tid" if "t \<in> set ?t" for t
    using remove_nth(6) [OF i(1) dist that] i(2) by simp
  then have keys_t: "keys_of tokens t = keys t" if "t \<in> set ?t" for t
    using that tok by simp
  have "\<exists>k'. keys_of tokens t = Some k' \<and> ?m k' \<noteq> None" if "t \<in> set ?t" for t
  proof -
    have "t \<in> dom keys" using in_set_dropD [OF that] dom by simp
    then obtain k' where "keys t = Some k'" by auto
    moreover from this have "k' \<noteq> k" using queue_inv_inj [OF inv] k ne [OF that] by blast
    moreover have "t \<in> set ?v" using that by (rule in_set_dropD)
    then obtain n where "n < length ?v" "?v ! n = t" by (meson in_set_conv_nth)
    ultimately show ?thesis using keys_t [OF that] queue_inv_map [OF inv, of k' n] by simp
  qed
  moreover have "inj_on (keys_of tokens) (set ?t)"
  proof (rule inj_onI)
    fix x y assume x: "x \<in> set ?t" and y: "y \<in> set ?t" and eq: "keys_of tokens x = keys_of tokens y"
    have "x \<in> dom keys" using in_set_dropD [OF x] dom by simp
    then obtain k' where "keys x = Some k'" by blast
    moreover from this have "keys y = Some k'" using eq x y by (simp add: keys_t)
    ultimately show "x = y" by (rule queue_inv_inj [OF inv])
  qed
  ultimately obtain m' where m': "reindex tokens i ?t ?m = Done m'"
    "\<And>j k. j < length ?t \<Longrightarrow> keys_of tokens (?t ! j) = Some k \<Longrightarrow> m' k = Some (i + j)"
    "\<And>k. \<forall>t \<in> set ?t. keys_of tokens t \<noteq> Some k \<Longrightarrow> m' k = ?m k"
    using reindex_Done [of ?t tokens ?m i, OF _ distinct_drop [OF dist]] by blast
  have "queue_inv (keys(?v ! i := None)) \<lparr> tq_vec = take i ?v @ drop (Suc i) ?v, tq_map = m' \<rparr>"
  proof (rule removed_inv [OF inv i(1)])
    show "keys (?v ! i) = Some k" using k i by simp
    show "m' k' = Some (i + j)" if "j < length ?v - 1 - i" "keys (?v ! (Suc (i + j))) = Some k'" for j k'
    proof -
      have "?t ! j = ?v ! (Suc (i + j))" "j < length ?t" using that i by auto
      moreover from this have "?t ! j \<in> set ?t" by (metis nth_mem)
      ultimately show ?thesis using m'(2) [of j k'] keys_t [of "?t ! j"] that(2) by simp
    qed
    show "m' k' = ?m k'" if "\<forall>t \<in> set ?t. keys t \<noteq> Some k'" for k'
      using that keys_t m'(3) [of k'] by simp
  qed
  moreover have "tq_map q k = Some i" using inv k i by (simp add: queue_inv_map)
  ultimately show ?thesis
    using i m'(1) remove_nth(3) [OF i(1)] by (simp add: queue_remove_def Let_def)
qed

interpretation tq: token_index queue_inv "queue_with_capacity n" queue_push queue_set_key queue_remove for n
proof unfold_locales
  show "queue_inv (\<lambda>_. None) (queue_with_capacity n)"
    by (simp add: queue_inv_def queue_with_capacity_def)
qed (rule queue_push_inv queue_set_key_inv queue_remove_inv; assumption)+

section \<open>Round-robin selection\<close>

definition ready :: "u64 \<Rightarrow> token_info option list \<Rightarrow> usize \<Rightarrow> bool" where
  "ready now tokens tid \<longleftrightarrow> (case slot tokens tid of None \<Rightarrow> False | Some info \<Rightarrow> selectable now info)"

text \<open>The positions of the vector that hold a usable token, in cyclic order from \<open>start\<close>.\<close>

definition candidates :: "u64 \<Rightarrow> token_info option list \<Rightarrow> usize list \<Rightarrow> usize \<Rightarrow> usize list" where
  "candidates now tokens vec start =
     filter (\<lambda>i. ready now tokens (vec ! i)) (rotate start [0..<length vec])"

lemma rotate_upt: "0 < n \<Longrightarrow> rotate h [0..<n] = map (\<lambda>i. (h + i) mod n) [0..<n]"
  by (rule nth_equalityI) (auto simp: nth_rotate)

lemma select_loop_first:
  assumes "\<And>i. i \<in> set is \<Longrightarrow> slot tokens (vec ! ((start + i) mod length vec)) \<noteq> None"
  shows "select_loop now tokens vec start is =
    (case filter (\<lambda>i. ready now tokens (vec ! i)) (map (\<lambda>i. (start + i) mod length vec) is) of
       [] \<Rightarrow> Done None
     | index # _ \<Rightarrow> Done (Some (index, the (slot tokens (vec ! index)))))"
  using assms
proof (induction "is")
  case (Cons i "is")
  then obtain info where "slot tokens (vec ! ((start + i) mod length vec)) = Some info" by fastforce
  with Cons show ?case by (simp add: Let_def ready_def)
qed simp

definition all_present :: "token_info option list \<Rightarrow> usize list \<Rightarrow> bool" where
  "all_present tokens vec \<longleftrightarrow> (\<forall>tid \<in> set vec. slot tokens tid \<noteq> None)"

lemma queue_inv_present: "queue_inv (keys_of tokens) q \<Longrightarrow> all_present tokens (tq_vec q)"
  by (auto simp: all_present_def queue_inv_def keys_of_def)

lemma queue_select_candidates:
  assumes "all_present tokens (tq_vec q)" and "length heads = 4"
  shows "queue_select now qt tokens heads q =
    (case candidates now tokens (tq_vec q) (heads ! as_index qt) of
       [] \<Rightarrow> Done (None, heads)
     | c # cs \<Rightarrow> Done (Some (ext_token_clone (info_bundle (the (slot tokens (tq_vec q ! c))))),
         heads[as_index qt := (c + 1) mod length (tq_vec q)]))"
proof (cases "tq_vec q = []")
  case False
  let ?v = "tq_vec q" and ?h = "heads ! as_index qt"
  have "slot tokens (?v ! ((?h + i) mod length ?v)) \<noteq> None" for i
    using assms(1) False by (simp add: all_present_def)
  then have "select_loop now tokens ?v ?h [0..<length ?v] =
    (case candidates now tokens ?v ?h of [] \<Rightarrow> Done None
     | c # _ \<Rightarrow> Done (Some (c, the (slot tokens (?v ! c)))))"
    using False by (simp add: select_loop_first candidates_def rotate_upt)
  then show ?thesis using False by (simp add: queue_select_def Let_def split: list.splits)
qed (simp add: queue_select_def candidates_def)

text \<open>Moving the head behind the token found rotates the candidates by one.\<close>

lemma candidates_rotate1:
  assumes "candidates now tokens vec h = c # cs"
  shows "candidates now tokens vec ((c + 1) mod length vec) = cs @ [c]"
proof -
  let ?P = "\<lambda>i. ready now tokens (vec ! i)" and ?xs = "[0..<length vec]"
  from assms obtain pre post where split: "rotate h ?xs = pre @ c # post" "filter ?P pre = []" "?P c" "filter ?P post = cs"
    unfolding candidates_def by (auto simp: filter_eq_Cons_iff)
  have len: "length pre < length vec" using arg_cong [OF split(1), of length] by simp
  have "c = rotate h ?xs ! length pre" by (simp add: split(1))
  also have "\<dots> = (h + length pre) mod length vec"
    using len by (cases vec) (simp_all add: nth_rotate del: upt_Suc)
  finally have "(c + 1) mod length vec = (h + length pre + 1) mod length vec" by (simp add: mod_Suc_eq)
  then have "rotate ((c + 1) mod length vec) ?xs = rotate (length pre + 1) (rotate h ?xs)"
    by (metis add.assoc add.commute length_upt minus_nat.diff_0 rotate_conv_mod rotate_rotate)
  also have "\<dots> = post @ (pre @ [c])"
    unfolding split(1) using rotate_append [of "pre @ [c]" post] by simp
  finally show ?thesis using split by (simp add: candidates_def)
qed

text \<open>A series of selections on an unchanged store.\<close>

fun select_many :: "u64 \<Rightarrow> queue_type \<Rightarrow> token_info option list \<Rightarrow> token_queue \<Rightarrow> nat \<Rightarrow> queue_heads \<Rightarrow>
    ext_token option list outcome" where
  "select_many now qt tokens q 0 heads = Done []"
| "select_many now qt tokens q (Suc n) heads =
     bind_outcome (queue_select now qt tokens heads q) (\<lambda>(r, heads').
     bind_outcome (select_many now qt tokens q n heads') (\<lambda>rs. Done (r # rs)))"

lemma as_index_lt: "as_index qt < 4"
  by (cases qt) simp_all

lemma select_many_cyclic:
  assumes "all_present tokens (tq_vec q)" and "length heads = 4"
    and "candidates now tokens (tq_vec q) (heads ! as_index qt) = cs" and "cs \<noteq> []"
  shows "select_many now qt tokens q n heads =
    Done (map (\<lambda>i. Some (ext_token_clone (info_bundle (the (slot tokens (tq_vec q ! (cs ! (i mod length cs)))))))) [0..<n])"
  using assms
proof (induction n arbitrary: heads cs)
  case (Suc n)
  let ?b = "\<lambda>c. Some (ext_token_clone (info_bundle (the (slot tokens (tq_vec q ! c)))))"
  obtain c cs' where cs: "cs = c # cs'" using Suc.prems(4) by (cases cs) auto
  let ?h = "heads[as_index qt := (c + 1) mod length (tq_vec q)]"
  have "candidates now tokens (tq_vec q) (?h ! as_index qt) = cs' @ [c]"
    using Suc.prems(2,3) cs as_index_lt [of qt] candidates_rotate1 by simp
  then have "select_many now qt tokens q n ?h =
      Done (map (\<lambda>i. ?b ((cs' @ [c]) ! (i mod length (cs' @ [c])))) [0..<n])"
    using Suc.prems by (intro Suc.IH) auto
  moreover have "(cs' @ [c]) ! (i mod length (cs' @ [c])) = cs ! (Suc i mod length cs)" for i
    using nth_rotate1 [of "i mod length cs" cs] cs by (simp add: mod_Suc_eq)
  moreover have "queue_select now qt tokens heads q = Done (?b c, ?h)"
    using Suc.prems cs by (simp add: queue_select_candidates)
  moreover have "[0..<Suc n] = 0 # map Suc [0..<n]" by (simp add: upt_conv_Cons map_Suc_upt del: upt_Suc)
  ultimately show ?case using cs by (simp del: upt_Suc add: comp_def)
qed simp

lemma candidates_set: "set (candidates now tokens vec h) = {i. i < length vec \<and> ready now tokens (vec ! i)}"
  by (auto simp: candidates_def)

lemma candidates_distinct: "distinct (candidates now tokens vec h)"
  by (simp add: candidates_def)

section \<open>Properties\<close>

text \<open>C2: selection is fair.  On a consistent store every usable token (enabled and not backing off) occurs
  exactly once among the positions \<open>cs\<close> that follow the head in cyclic order, and consecutive selections
  of one queue type deliver them in that order, round after round, never touching an empty slot.\<close>

theorem round_robin_fair:
  assumes "queue_inv (keys_of tokens) q" and "length heads = 4"
    and "cs = candidates now tokens (tq_vec q) (heads ! as_index qt)" and "cs \<noteq> []"
  shows "distinct cs \<and> set cs = {i. i < length (tq_vec q) \<and> ready now tokens (tq_vec q ! i)} \<and>
    select_many now qt tokens q n heads =
      Done (map (\<lambda>i. Some (ext_token_clone (info_bundle (the (slot tokens (tq_vec q ! (cs ! (i mod length cs)))))))) [0..<n])"
  using select_many_cyclic [OF queue_inv_present [OF assms(1)] assms(2) assms(3) [symmetric] assms(4)]
  by (simp only: assms(3) candidates_set candidates_distinct)

definition sample_tokens :: "token_info option list" where
  "sample_tokens = [Some (sample_info 1 True), Some (sample_info 2 False), Some (sample_info 3 True)]"

definition sample_queue :: token_queue where
  "sample_queue = fold (\<lambda>i. queue_push (info_key (the (sample_tokens ! i))) i) [0, 1, 2] (queue_with_capacity 3)"

lemma sample_queue_inv: "queue_inv (keys_of sample_tokens) sample_queue"
proof -
  let ?k = "\<lambda>i. info_key (the (sample_tokens ! i))"
  have e: "queue_inv (\<lambda>_. None) (queue_with_capacity 3)" by (rule tq.empty_invar)
  have "queue_inv ((\<lambda>_. None)(0 \<mapsto> ?k 0, 1 \<mapsto> ?k 1, 2 \<mapsto> ?k 2)) sample_queue"
    unfolding sample_queue_def fold.simps comp_apply id_apply
    by (intro tq.push_invar e) (auto simp: ran_def sample_tokens_def split: if_splits)
  moreover have "keys_of sample_tokens = (\<lambda>_. None)(0 \<mapsto> ?k 0, 1 \<mapsto> ?k 1, 2 \<mapsto> ?k 2)"
    by (rule ext) (auto simp: keys_of_def slot_def sample_tokens_def nth_Cons' less_Suc_eq numeral_3_eq_3)
  ultimately show ?thesis by simp
qed

theorem round_robin_fair_witness:
  "queue_inv (keys_of sample_tokens) sample_queue \<and>
   select_many 100 NormalFree sample_tokens sample_queue 3 QUEUE_HEADS =
     Done [Some (info_bundle (sample_info 1 True)), Some (info_bundle (sample_info 3 True)),
           Some (info_bundle (sample_info 1 True))]"
proof -
  have "candidates 100 sample_tokens (tq_vec sample_queue) (QUEUE_HEADS ! as_index NormalFree) = [0, 2]"
    by (simp add: candidates_def QUEUE_HEADS_def sample_queue_def queue_push_def queue_with_capacity_def Let_def
        ready_def slot_def sample_tokens_def selectable_def upt_rec)
  then show ?thesis
    using round_robin_fair [OF sample_queue_inv, of QUEUE_HEADS "[0, 2]" 100 NormalFree 3] sample_queue_inv
    by (simp add: QUEUE_HEADS_def sample_queue_def queue_push_def queue_with_capacity_def Let_def slot_def
        sample_tokens_def upt_rec ext_token_clone_def) (simp add: sample_info_def)
qed

text \<open>On a consistent store selection fails exactly when no stored token is usable, and then leaves the
  heads alone.\<close>

theorem select_none_iff:
  assumes "queue_inv (keys_of tokens) q" and "length heads = 4"
  shows "queue_select now qt tokens heads q = Done (None, heads) \<longleftrightarrow> (\<forall>tid. \<not> ready now tokens tid)"
proof -
  have "candidates now tokens (tq_vec q) (heads ! as_index qt) = [] \<longleftrightarrow> (\<forall>tid. \<not> ready now tokens tid)"
  proof -
    have "tid \<in> set (tq_vec q)" if "ready now tokens tid" for tid
      using that assms(1) by (auto simp: ready_def queue_inv_def keys_of_def split: option.splits)
    then have "(\<exists>i < length (tq_vec q). ready now tokens (tq_vec q ! i)) \<longleftrightarrow> (\<exists>tid. ready now tokens tid)"
      by (metis in_set_conv_nth)
    then show ?thesis unfolding set_empty [symmetric] candidates_set by auto
  qed
  then show ?thesis
    using queue_select_candidates [OF queue_inv_present [OF assms(1)] assms(2)] by (auto split: list.splits)
qed

theorem select_none_iff_witness:
  "queue_select 100 NormalPaid sample_tokens QUEUE_HEADS sample_queue \<noteq> Done (None, QUEUE_HEADS)"
proof -
  have "ready 100 sample_tokens 0" by (simp add: ready_def slot_def sample_tokens_def selectable_def)
  then show ?thesis
    using select_none_iff [OF sample_queue_inv, of QUEUE_HEADS 100 NormalPaid] by (auto simp: QUEUE_HEADS_def)
qed

end
