(* ===== verification/Token_Manager.thy ===== *)
theory Token_Manager
  imports Token_Queue
begin

text \<open>
  \<open>src/app/model/state/token.rs\<close>: the token manager.  Tokens live in slots; the manager keeps an index by
  key, one by alias with its reverse, the FIFO of free slots and the selection queue.  Unchecked accesses
  are guarded here and yield \<open>UB\<close> outside their precondition.  The invariant is the one the source
  documents, completed so that the operations preserve it; it needs keys to be distinct.
\<close>

section \<open>State\<close>

datatype manager_error = AliasExists | InvalidId

record token_manager =
  tokens :: "token_info option list"
  id_map :: "token_key \<Rightarrow> usize option"
  alias_map :: "str \<Rightarrow> usize option"
  id_to_alias :: "str option list"
  free_ids :: "usize list"
  queue :: token_queue

definition manager_new :: "usize \<Rightarrow> token_manager" where
  "manager_new capacity =
     \<lparr> tokens = [], id_map = (\<lambda>_. None), alias_map = (\<lambda>_. None), id_to_alias = [], free_ids = [],
       queue = queue_with_capacity capacity \<rparr>"

section \<open>Generated aliases\<close>

definition UNNAMED_PATTERN :: str where
  "UNNAMED_PATTERN = bytes_of ''unnamed-''"

definition UNNAMED :: str where
  "UNNAMED = take 7 UNNAMED_PATTERN"

text \<open>The loop that pushes the digits of \<open>n\<close>, last digit first.\<close>

fun push_digits :: "nat \<Rightarrow> str" where
  "push_digits n = (if n > 0 then (0x30 + of_nat (n mod 10)) # push_digits (n div 10) else [])"

declare push_digits.simps [simp del]

definition generate_unnamed_alias :: "usize \<Rightarrow> str" where
  "generate_unnamed_alias tid =
     UNNAMED_PATTERN @ (if tid = 0 then [0x30] else rev (push_digits tid))"

definition alias_is_unnamed :: "str \<Rightarrow> bool" where
  "alias_is_unnamed a \<longleftrightarrow> starts_with a UNNAMED_PATTERN"

definition resolve_alias :: "str \<Rightarrow> usize \<Rightarrow> str" where
  "resolve_alias a tid =
     (if a = UNNAMED \<or> starts_with a UNNAMED_PATTERN then generate_unnamed_alias tid else a)"

section \<open>Operations\<close>

definition alias_at :: "token_manager \<Rightarrow> usize \<Rightarrow> str option" where
  "alias_at m tid = (if tid < length (id_to_alias m) then id_to_alias m ! tid else None)"

text \<open>\<open>free_ids.front()\<close>, or the end of the vector.\<close>

definition next_id :: "token_manager \<Rightarrow> usize" where
  "next_id m = (case free_ids m of [] \<Rightarrow> length (tokens m) | f # _ \<Rightarrow> f)"

definition take_id :: "token_manager \<Rightarrow> usize \<times> token_manager" where
  "take_id m =
     (case free_ids m of
        reused_id # rest \<Rightarrow> (reused_id, m\<lparr> free_ids := rest \<rparr>)
      | [] \<Rightarrow>
          (length (tokens m),
           m\<lparr> tokens := tokens m @ [None], id_to_alias := id_to_alias m @ [None] \<rparr>))"

definition manager_add :: "token_info \<Rightarrow> str \<Rightarrow> token_manager \<Rightarrow>
    ((manager_error + usize) \<times> token_manager) outcome" where
  "manager_add info alias m =
     (let alias = resolve_alias alias (next_id m)
      in if alias_map m alias \<noteq> None then Done (Inl AliasExists, m)
         else let (tid, m1) = take_id m; key = info_key info
              in if tid < length (tokens m1) \<and> tid < length (id_to_alias m1)
                 then Done (Inr tid,
                   m1\<lparr> id_map := (id_map m1)(key \<mapsto> tid),
                       queue := queue_push key tid (queue m1),
                       tokens := (tokens m1)[tid := Some info],
                       alias_map := (alias_map m1)(alias \<mapsto> tid),
                       id_to_alias := (id_to_alias m1)[tid := Some alias] \<rparr>)
                 else UB)"

definition get_by_alias :: "str \<Rightarrow> token_manager \<Rightarrow> token_info option outcome" where
  "get_by_alias alias m =
     (case alias_map m alias of
        None \<Rightarrow> Done None
      | Some tid \<Rightarrow> (case slot (tokens m) tid of None \<Rightarrow> UB | Some info \<Rightarrow> Done (Some info)))"

definition manager_remove :: "usize \<Rightarrow> queue_heads \<Rightarrow> token_manager \<Rightarrow>
    (token_info option \<times> queue_heads \<times> token_manager) outcome" where
  "manager_remove tid heads m =
     (case slot (tokens m) tid of
        None \<Rightarrow> Done (None, heads, m)
      | Some info \<Rightarrow>
          let key = info_key info; toks = (tokens m)[tid := None]
          in bind_outcome (queue_remove key toks heads (queue m)) (\<lambda>(_, heads', q).
               case alias_at m tid of
                 None \<Rightarrow> UB
               | Some alias \<Rightarrow>
                   Done (Some info, heads',
                     m\<lparr> tokens := toks, id_map := (id_map m)(key := None), queue := q,
                        id_to_alias := (id_to_alias m)[tid := None],
                        alias_map := (alias_map m)(alias := None),
                        free_ids := free_ids m @ [tid] \<rparr>)))"

definition manager_set_alias :: "usize \<Rightarrow> str \<Rightarrow> token_manager \<Rightarrow>
    ((manager_error + unit) \<times> token_manager) outcome" where
  "manager_set_alias tid alias m =
     (if slot (tokens m) tid = None then Done (Inl InvalidId, m)
      else let alias = resolve_alias alias tid
           in if alias_map m alias \<noteq> None then Done (Inl AliasExists, m)
              else case alias_at m tid of
                  None \<Rightarrow> UB
                | Some old_alias \<Rightarrow>
                    Done (Inr (),
                      m\<lparr> alias_map := (alias_map m)(old_alias := None, alias \<mapsto> tid),
                         id_to_alias := (id_to_alias m)[tid := Some alias] \<rparr>))"

definition manager_select :: "u64 \<Rightarrow> queue_type \<Rightarrow> queue_heads \<Rightarrow> token_manager \<Rightarrow>
    (ext_token option \<times> queue_heads) outcome" where
  "manager_select now queue_type heads m = queue_select now queue_type (tokens m) heads (queue m)"

fun list_loop :: "token_manager \<Rightarrow> (usize \<times> token_info option) list \<Rightarrow> (usize \<times> str \<times> token_info) list outcome" where
  "list_loop m [] = Done []"
| "list_loop m ((tid, None) # rest) = list_loop m rest"
| "list_loop m ((tid, Some info) # rest) =
     (case alias_at m tid of
        None \<Rightarrow> UB
      | Some alias \<Rightarrow> bind_outcome (list_loop m rest) (\<lambda>l. Done ((tid, alias, info) # l)))"

definition manager_list :: "token_manager \<Rightarrow> (usize \<times> str \<times> token_info) list outcome" where
  "manager_list m = list_loop m (enumerate 0 (tokens m))"

text \<open>The fresh client key and session id of slot \<open>i\<close> are arguments.\<close>

definition update_client_key :: "(usize \<Rightarrow> hash) \<Rightarrow> (usize \<Rightarrow> uuid) \<Rightarrow> token_manager \<Rightarrow> token_manager" where
  "update_client_key random_hash new_v4 m =
     m\<lparr> tokens := map (\<lambda>(i, t). map_option (\<lambda>info.
          info\<lparr> info_bundle := (info_bundle info)\<lparr> client_key := random_hash i, session_id := new_v4 i \<rparr> \<rparr>) t)
          (enumerate 0 (tokens m)) \<rparr>"

text \<open>\<open>TokensWriter::get_unchecked_mut\<close>: the callers change the token through the reference by \<open>f\<close>.\<close>

definition with_token_mut :: "usize \<Rightarrow> (token_info \<Rightarrow> token_info) \<Rightarrow> token_manager \<Rightarrow> token_manager outcome" where
  "with_token_mut tid f m =
     (case slot (tokens m) tid of
        None \<Rightarrow> UB
      | Some info \<Rightarrow> Done (m\<lparr> tokens := (tokens m)[tid := Some (f info)] \<rparr>))"

text \<open>\<open>into_token_writer\<close>, a change of the bundle by \<open>g\<close>, and the \<open>Drop\<close> of the writer.\<close>

definition token_writer :: "usize \<Rightarrow> (ext_token \<Rightarrow> ext_token) \<Rightarrow> token_manager \<Rightarrow> token_manager outcome" where
  "token_writer tid g m =
     (case slot (tokens m) tid of
        None \<Rightarrow> UB
      | Some info \<Rightarrow>
          let old_key = info_key info;
              info' = info\<lparr> info_bundle := g (info_bundle info) \<rparr>;
              key = info_key info';
              m1 = m\<lparr> tokens := (tokens m)[tid := Some info'] \<rparr>
          in if key \<noteq> old_key
             then case id_map m1 old_key of
                 None \<Rightarrow> UB
               | Some i \<Rightarrow>
                   let (inserted, q) = queue_set_key old_key key (queue m1)
                   in if inserted
                      then Done (m1\<lparr> id_map := (id_map m1)(old_key := None, key \<mapsto> i), queue := q \<rparr>)
                      else UB
             else Done m1)"




section \<open>Generated aliases are numbered by slot\<close>

lemma rev_push_digits: "n > 0 \<Longrightarrow> rev (push_digits n) = decimal n"
proof (induction n rule: decimal.induct)
  case (1 n)
  have d: "DIGITS ! k = 0x30 + of_nat k" if "k < 10" for k
  proof -
    have "\<forall>k \<in> set [0..<10]. DIGITS ! k = 0x30 + of_nat k"
      by (simp add: upt_rec DIGITS_def bytes_of_def of_char_def)
    with that show ?thesis by simp
  qed
  show ?case
  proof (cases "n < 10")
    case True
    then show ?thesis using 1 d by (simp add: push_digits.simps [of n] decimal.simps [of n]) (simp add: push_digits.simps)
  next
    case False
    then show ?thesis using 1 d by (simp add: push_digits.simps [of n] decimal.simps [of n])
  qed
qed

lemma generate_unnamed_alias_decimal: "generate_unnamed_alias n = UNNAMED_PATTERN @ decimal n"
  by (cases "n = 0") (simp_all add: generate_unnamed_alias_def rev_push_digits decimal.simps [of 0] digits_01)

lemma generate_unnamed_alias_inj [simp]: "generate_unnamed_alias a = generate_unnamed_alias b \<longleftrightarrow> a = b"
  by (simp add: generate_unnamed_alias_decimal)

definition unnamed_form :: "str \<Rightarrow> bool" where
  "unnamed_form a \<longleftrightarrow> a = UNNAMED \<or> starts_with a UNNAMED_PATTERN"

lemma unnamed_generated [simp]: "unnamed_form (generate_unnamed_alias n)"
  by (simp add: unnamed_form_def generate_unnamed_alias_decimal)

lemma resolve_alias_eq: "resolve_alias a n = (if unnamed_form a then generate_unnamed_alias n else a)"
  by (simp add: resolve_alias_def unnamed_form_def)

section \<open>The invariant\<close>

lemma slot_update [simp]: "slot (toks[i := x]) j = (if j = i \<and> i < length toks then x else slot toks j)"
  by (simp add: slot_def)

lemma slot_append_None [simp]: "slot (toks @ [None]) j = slot toks j"
  by (auto simp: slot_def nth_append)

lemma slot_Some_length: "slot toks j = Some x \<Longrightarrow> j < length toks"
  by (simp add: slot_def split: if_splits)

lemma keys_of_update:
  "i < length toks \<Longrightarrow> keys_of (toks[i := x]) = (keys_of toks)(i := map_option info_key x)"
  by (rule ext) (simp add: keys_of_def)

lemma keys_of_append_None [simp]: "keys_of (toks @ [None]) = keys_of toks"
  by (rule ext) (simp add: keys_of_def)

lemma keys_of_None_iff [simp]: "keys_of toks i = None \<longleftrightarrow> slot toks i = None"
  by (simp add: keys_of_def)


text \<open>The documented invariants, completed: the indexes are exact, aliases mirror tokens, the free list is
  exactly the empty slots, and an automatic alias carries the number of its slot.\<close>

definition manager_inv :: "token_manager \<Rightarrow> bool" where
  "manager_inv m \<longleftrightarrow>
     length (id_to_alias m) = length (tokens m) \<and>
     inverse_maps (id_map m) (keys_of (tokens m)) \<and>
     inverse_maps (alias_map m) (alias_at m) \<and>
     (\<forall>tid. alias_at m tid = None \<longleftrightarrow> slot (tokens m) tid = None) \<and>
     distinct (free_ids m) \<and> set (free_ids m) = {tid. tid < length (tokens m) \<and> slot (tokens m) tid = None} \<and>
     (\<forall>tid a. alias_at m tid = Some a \<longrightarrow> unnamed_form a \<longrightarrow> a = generate_unnamed_alias tid) \<and>
     queue_inv (keys_of (tokens m)) (queue m)"

lemma manager_invD:
  assumes "manager_inv m"
  shows "length (id_to_alias m) = length (tokens m)"
    and "inverse_maps (id_map m) (keys_of (tokens m))"
    and "inverse_maps (alias_map m) (alias_at m)"
    and "alias_at m tid = None \<longleftrightarrow> slot (tokens m) tid = None"
    and "distinct (free_ids m)"
    and "set (free_ids m) = {tid. tid < length (tokens m) \<and> slot (tokens m) tid = None}"
    and "alias_at m tid = Some a \<Longrightarrow> unnamed_form a \<Longrightarrow> a = generate_unnamed_alias tid"
    and "queue_inv (keys_of (tokens m)) (queue m)"
  using assms by (auto simp: manager_inv_def)

lemma manager_invI:
  assumes "length (id_to_alias m) = length (tokens m)"
    and "inverse_maps (id_map m) (keys_of (tokens m))"
    and "inverse_maps (alias_map m) (alias_at m)"
    and "\<And>tid. alias_at m tid = None \<longleftrightarrow> slot (tokens m) tid = None"
    and "distinct (free_ids m)"
    and "set (free_ids m) = {tid. tid < length (tokens m) \<and> slot (tokens m) tid = None}"
    and "\<And>tid a. alias_at m tid = Some a \<Longrightarrow> unnamed_form a \<Longrightarrow> a = generate_unnamed_alias tid"
    and "queue_inv (keys_of (tokens m)) (queue m)"
  shows "manager_inv m"
  using assms by (simp add: manager_inv_def)

text \<open>What a client sees: the alias and the token of each id.\<close>

definition contents :: "token_manager \<Rightarrow> usize \<Rightarrow> (str \<times> token_info) option" where
  "contents m tid =
     (case (alias_at m tid, slot (tokens m) tid) of (Some a, Some info) \<Rightarrow> Some (a, info) | _ \<Rightarrow> None)"

lemma contents_None_iff: "manager_inv m \<Longrightarrow> contents m tid = None \<longleftrightarrow> slot (tokens m) tid = None"
  using manager_invD(4) [of m tid] by (auto simp: contents_def split: option.splits)

lemma contents_Some_iff: "contents m tid = Some (a, info) \<longleftrightarrow> alias_at m tid = Some a \<and> slot (tokens m) tid = Some info"
  by (auto simp: contents_def split: option.splits)

lemma manager_new_inv: "manager_inv (manager_new n)"
proof -
  have "keys_of [] = (\<lambda>_. None)" "alias_at (manager_new n) = (\<lambda>_. None)"
    by (simp_all add: fun_eq_iff keys_of_def slot_def alias_at_def manager_new_def)
  then show ?thesis
    using tq.empty_invar [of n]
    by (simp add: manager_inv_def inverse_maps_empty) (simp add: manager_new_def slot_def inverse_maps_empty)
qed

section \<open>Adding\<close>

lemma next_id_free:
  assumes "manager_inv m"
  shows "slot (tokens m) (next_id m) = None" and "alias_at m (next_id m) = None"
    and "next_id m \<le> length (tokens m)"
proof -
  have "next_id m \<in> set (free_ids m) \<or> next_id m = length (tokens m)"
    by (auto simp: next_id_def split: list.splits)
  moreover have "slot (tokens m) (length (tokens m)) = None" by (simp add: slot_def)
  ultimately have "slot (tokens m) (next_id m) = None \<and> next_id m \<le> length (tokens m)"
    unfolding manager_invD(6) [OF assms] by auto
  then show "slot (tokens m) (next_id m) = None" "next_id m \<le> length (tokens m)" by blast+
  then show "alias_at m (next_id m) = None" using manager_invD(4) [OF assms] by blast
qed

text \<open>A generated alias is never taken: this is why adding an unnamed token cannot clash.\<close>

lemma generated_alias_free:
  assumes "manager_inv m" and "slot (tokens m) tid = None"
  shows "alias_map m (generate_unnamed_alias tid) = None"
proof (cases "alias_map m (generate_unnamed_alias tid)")
  case (Some i)
  then have "alias_at m i = Some (generate_unnamed_alias tid)"
    using inverse_mapsD [OF manager_invD(3) [OF assms(1)]] by blast
  then have "i = tid" "alias_at m i \<noteq> None" using manager_invD(7) [OF assms(1)] by fastforce+
  then show ?thesis using manager_invD(4) [OF assms(1), of i] assms(2) by simp
qed

text \<open>The state after filling the free slot \<open>tid\<close>.\<close>

definition filled :: "token_info \<Rightarrow> str \<Rightarrow> usize \<Rightarrow> token_manager \<Rightarrow> token_manager \<Rightarrow> bool" where
  "filled info a tid m m' \<longleftrightarrow>
     keys_of (tokens m') = (keys_of (tokens m))(tid \<mapsto> info_key info) \<and>
     (\<forall>j. slot (tokens m') j = (if j = tid then Some info else slot (tokens m) j)) \<and>
     alias_at m' = (alias_at m)(tid \<mapsto> a) \<and>
     id_map m' = (id_map m)(info_key info \<mapsto> tid) \<and> alias_map m' = (alias_map m)(a \<mapsto> tid) \<and>
     queue m' = queue_push (info_key info) tid (queue m) \<and>
     length (tokens m') = max (length (tokens m)) (Suc tid) \<and> length (id_to_alias m') = length (tokens m') \<and>
     free_ids m' = tl (free_ids m)"

lemma manager_add_filled:
  assumes inv: "manager_inv m" and free: "alias_map m (resolve_alias a (next_id m)) = None"
  shows "\<exists>m'. manager_add info a m = Done (Inr (next_id m), m') \<and>
    filled info (resolve_alias a (next_id m)) (next_id m) m m'"
proof (cases "free_ids m")
  case Nil
  have len: "length (id_to_alias m) = length (tokens m)" by (rule manager_invD(1) [OF inv])
  have n: "next_id m = length (tokens m)" using Nil by (simp add: next_id_def)
  show ?thesis
    using free Nil len unfolding n
    by (auto simp: manager_add_def take_id_def next_id_def filled_def alias_at_def nth_append slot_def
        keys_of_def nth_list_update Let_def fun_eq_iff)
next
  case (Cons f fs)
  have len: "length (id_to_alias m) = length (tokens m)" by (rule manager_invD(1) [OF inv])
  have n: "next_id m = f" using Cons by (simp add: next_id_def)
  have "f < length (tokens m)" using manager_invD(6) [OF inv] Cons by auto
  then show ?thesis
    using free Cons len unfolding n
    by (auto simp: manager_add_def take_id_def next_id_def filled_def alias_at_def
        keys_of_update nth_list_update Let_def fun_eq_iff)
qed

lemma filled_inv:
  assumes inv: "manager_inv m" and f: "filled info a (next_id m) m m'"
    and a: "alias_map m a = None" "unnamed_form a \<Longrightarrow> a = generate_unnamed_alias (next_id m)"
    and k: "info_key info \<notin> ran (keys_of (tokens m))"
  shows "manager_inv m'"
proof -
  let ?n = "next_id m"
  note D = manager_invD [OF inv] and F = f [unfolded filled_def]
  have none: "slot (tokens m) ?n = None" "alias_at m ?n = None" "?n \<le> length (tokens m)"
    using next_id_free [OF inv] by auto
  have "inverse_maps (id_map m') (keys_of (tokens m'))"
    using F k none(1) inverse_maps_insert [OF D(2)] inverse_maps_free [OF D(2)] by simp
  moreover have "inverse_maps (alias_map m') (alias_at m')"
    using F inverse_maps_insert [OF D(3) a(1) none(2)] by simp
  moreover have "alias_at m' tid = None \<longleftrightarrow> slot (tokens m') tid = None" for tid
    using F D(4) [of tid] by auto
  moreover have "alias_at m' tid = Some a' \<Longrightarrow> unnamed_form a' \<Longrightarrow> a' = generate_unnamed_alias tid" for tid a'
    using F D(7) [of tid a'] a(2) by (auto split: if_splits)
  moreover have "queue_inv (keys_of (tokens m')) (queue m')"
    using F tq.push_invar [OF D(8), of ?n "info_key info"] k none(1) by simp
  moreover have "distinct (free_ids m') \<and> set (free_ids m') = {tid. tid < length (tokens m') \<and> slot (tokens m') tid = None}"
  proof (cases "free_ids m")
    case Nil
    then have "?n = length (tokens m)" by (simp add: next_id_def)
    then show ?thesis using F D(6) Nil by (auto simp: less_Suc_eq)
  next
    case (Cons g gs)
    then have "?n = g" "g < length (tokens m)" using D(6) by (auto simp: next_id_def)
    then show ?thesis using F D(5,6) Cons by (auto simp: max_def)
  qed
  ultimately show ?thesis using F by (simp add: manager_inv_def)
qed

lemma manager_add_ok:
  assumes inv: "manager_inv m" and free: "alias_map m (resolve_alias a (next_id m)) = None"
    and k: "info_key info \<notin> ran (keys_of (tokens m))"
  shows "\<exists>m'. manager_add info a m = Done (Inr (next_id m), m') \<and> manager_inv m' \<and>
    contents m' = (contents m)(next_id m \<mapsto> (resolve_alias a (next_id m), info)) \<and>
    keys_of (tokens m') = (keys_of (tokens m))(next_id m \<mapsto> info_key info) \<and>
    free_ids m' = tl (free_ids m) \<and> length (tokens m') = max (length (tokens m)) (Suc (next_id m))"
proof -
  obtain m' where m': "manager_add info a m = Done (Inr (next_id m), m')"
    "filled info (resolve_alias a (next_id m)) (next_id m) m m'"
    using manager_add_filled [OF inv free] by blast
  have "manager_inv m'"
    by (rule filled_inv [OF inv m'(2) free _ k]) (auto simp: resolve_alias_eq split: if_splits)
  moreover have "contents m' = (contents m)(next_id m \<mapsto> (resolve_alias a (next_id m), info))"
    using m'(2) by (intro ext) (simp add: contents_def filled_def)
  ultimately show ?thesis using m' by (simp add: filled_def)
qed

lemma manager_add_exists:
  "alias_map m (resolve_alias a (next_id m)) \<noteq> None \<Longrightarrow> manager_add info a m = Done (Inl AliasExists, m)"
  by (simp add: manager_add_def Let_def)

lemma manager_add_unnamed_free:
  "manager_inv m \<Longrightarrow> unnamed_form a \<Longrightarrow> alias_map m (resolve_alias a (next_id m)) = None"
  by (simp add: resolve_alias_eq generated_alias_free next_id_free)

section \<open>Removing\<close>

lemma alias_at_update:
  "alias_at (m\<lparr> id_to_alias := (id_to_alias m)[tid := x] \<rparr>) j =
     (if j = tid \<and> tid < length (id_to_alias m) then x else alias_at m j)"
  by (simp add: alias_at_def)

lemma manager_remove_ok:
  assumes inv: "manager_inv m" and s: "slot (tokens m) tid = Some info"
  shows "\<exists>heads' m'. manager_remove tid heads m = Done (Some info, heads', m') \<and> manager_inv m' \<and>
    contents m' = (contents m)(tid := None) \<and> free_ids m' = free_ids m @ [tid] \<and>
    keys_of (tokens m') = (keys_of (tokens m))(tid := None) \<and> length (tokens m') = length (tokens m)"
proof -
  note D = manager_invD [OF inv]
  let ?k = "info_key info" and ?t = "(tokens m)[tid := None]"
  have lt: "tid < length (tokens m)" by (rule slot_Some_length [OF s])
  have key: "keys_of (tokens m) tid = Some ?k" using s by (simp add: keys_of_def)
  have kt: "keys_of ?t = (keys_of (tokens m))(tid := None)" using lt by (simp add: keys_of_update)
  obtain heads' q' where q': "queue_remove ?k ?t heads (queue m) = Done (Some tid, heads', q')"
    "queue_inv ((keys_of (tokens m))(tid := None)) q'"
    using tq.remove_invar [OF D(8) key kt] by blast
  obtain a where a: "alias_at m tid = Some a" using D(4) [of tid] s by auto
  let ?m = "m\<lparr> tokens := ?t, id_map := (id_map m)(?k := None), queue := q',
    id_to_alias := (id_to_alias m)[tid := None], alias_map := (alias_map m)(a := None),
    free_ids := free_ids m @ [tid] \<rparr>"
  have al: "alias_at ?m = (alias_at m)(tid := None)"
    using lt D(1) by (simp add: alias_at_def fun_eq_iff)
  have "manager_inv ?m"
  proof (rule manager_invI)
    show "length (id_to_alias ?m) = length (tokens ?m)" using D(1) by simp
    show "inverse_maps (id_map ?m) (keys_of (tokens ?m))"
      using inverse_maps_delete [OF D(2) key] by (simp add: kt)
    show "inverse_maps (alias_map ?m) (alias_at ?m)"
      unfolding al using inverse_maps_delete [OF D(3) a] by simp
    show "alias_at ?m j = None \<longleftrightarrow> slot (tokens ?m) j = None" for j
      unfolding al using D(4) [of j] lt by auto
    show "distinct (free_ids ?m)" using D(5,6) s by simp
    show "set (free_ids ?m) = {j. j < length (tokens ?m) \<and> slot (tokens ?m) j = None}" using D(6) lt by auto
    show "alias_at ?m j = Some b \<Longrightarrow> unnamed_form b \<Longrightarrow> b = generate_unnamed_alias j" for j b
      unfolding al using D(7) [of j b] by (simp split: if_splits)
    show "queue_inv (keys_of (tokens ?m)) (queue ?m)" using q'(2) kt by simp
  qed
  moreover have "manager_remove tid heads m = Done (Some info, heads', ?m)"
    using s a q'(1) by (simp add: manager_remove_def Let_def)
  moreover have "contents ?m = (contents m)(tid := None)"
    unfolding contents_def al by (rule ext) (simp add: lt)
  moreover have "free_ids ?m = free_ids m @ [tid]" "length (tokens ?m) = length (tokens m)"
    "keys_of (tokens ?m) = (keys_of (tokens m))(tid := None)" by (simp_all add: kt)
  ultimately show ?thesis by blast
qed

section \<open>Renaming and changing\<close>

lemma manager_set_alias_ok:
  assumes inv: "manager_inv m" and s: "slot (tokens m) tid = Some info"
    and free: "alias_map m (resolve_alias a tid) = None"
  shows "\<exists>m'. manager_set_alias tid a m = Done (Inr (), m') \<and> manager_inv m' \<and> tokens m' = tokens m \<and>
    contents m' = (contents m)(tid \<mapsto> (resolve_alias a tid, info))"
proof -
  note D = manager_invD [OF inv]
  let ?a = "resolve_alias a tid"
  have lt: "tid < length (tokens m)" by (rule slot_Some_length [OF s])
  obtain old where old: "alias_at m tid = Some old" using D(4) [of tid] s by auto
  let ?m = "m\<lparr> alias_map := (alias_map m)(old := None, ?a \<mapsto> tid), id_to_alias := (id_to_alias m)[tid := Some ?a] \<rparr>"
  have al: "alias_at ?m = (alias_at m)(tid \<mapsto> ?a)"
    using lt D(1) by (simp add: alias_at_def fun_eq_iff)
  have "manager_inv ?m"
  proof (rule manager_invI)
    show "length (id_to_alias ?m) = length (tokens ?m)" using D(1) by simp
    show "inverse_maps (id_map ?m) (keys_of (tokens ?m))" using D(2) by simp
    show "inverse_maps (alias_map ?m) (alias_at ?m)"
      unfolding al using inverse_maps_rename [OF D(3) old free] by simp
    show "alias_at ?m j = None \<longleftrightarrow> slot (tokens ?m) j = None" for j
      unfolding al using D(4) [of j] s by simp
    show "distinct (free_ids ?m)" using D(5) by simp
    show "set (free_ids ?m) = {j. j < length (tokens ?m) \<and> slot (tokens ?m) j = None}" using D(6) by simp
    show "alias_at ?m j = Some b \<Longrightarrow> unnamed_form b \<Longrightarrow> b = generate_unnamed_alias j" for j b
      unfolding al using D(7) [of j b] by (auto simp: resolve_alias_eq split: if_splits)
    show "queue_inv (keys_of (tokens ?m)) (queue ?m)" using D(8) by simp
  qed
  moreover have "manager_set_alias tid a m = Done (Inr (), ?m)"
    using s free old by (simp add: manager_set_alias_def Let_def)
  moreover have "contents ?m = (contents m)(tid \<mapsto> (?a, info))"
    unfolding contents_def al using s by (intro ext) simp
  moreover have "tokens ?m = tokens m" by simp
  ultimately show ?thesis by blast
qed

text \<open>Replacing the tokens of occupied slots by tokens of the same key keeps the invariant.\<close>

lemma same_keys_inv:
  assumes inv: "manager_inv m" and len: "length toks = length (tokens m)" and k: "keys_of toks = keys_of (tokens m)"
  shows "manager_inv (m\<lparr> tokens := toks \<rparr>)"
proof -
  have "slot toks j = None \<longleftrightarrow> slot (tokens m) j = None" for j using fun_cong [OF k, of j] by (metis keys_of_None_iff)
  moreover have "alias_at (m\<lparr> tokens := toks \<rparr>) = alias_at m" by (simp add: alias_at_def fun_eq_iff)
  ultimately show ?thesis using inv len k by (simp add: manager_inv_def)
qed

lemma with_token_mut_ok:
  assumes inv: "manager_inv m" and s: "slot (tokens m) tid = Some info" and k: "info_key (f info) = info_key info"
  shows "\<exists>m'. with_token_mut tid f m = Done m' \<and> manager_inv m' \<and>
    contents m' = (contents m)(tid := map_option (\<lambda>(a, i). (a, f i)) (contents m tid))"
proof -
  have lt: "tid < length (tokens m)" by (rule slot_Some_length [OF s])
  let ?m = "m\<lparr> tokens := (tokens m)[tid := Some (f info)] \<rparr>"
  have "keys_of ((tokens m)[tid := Some (f info)]) = keys_of (tokens m)"
    using lt s k by (simp add: keys_of_update fun_eq_iff keys_of_def)
  then have "manager_inv ?m" by (intro same_keys_inv [OF inv]) simp_all
  moreover have "contents ?m = (contents m)(tid := map_option (\<lambda>(a, i). (a, f i)) (contents m tid))"
    using s lt by (intro ext) (simp add: contents_def alias_at_def split: option.splits)
  moreover have "with_token_mut tid f m = Done ?m" using s by (simp add: with_token_mut_def)
  ultimately show ?thesis by blast
qed

lemma token_writer_ok:
  assumes inv: "manager_inv m" and s: "slot (tokens m) tid = Some info"
    and i': "info' = info\<lparr> info_bundle := g (info_bundle info) \<rparr>"
    and k: "info_key info' \<notin> ran ((keys_of (tokens m))(tid := None))"
  shows "\<exists>m'. token_writer tid g m = Done m' \<and> manager_inv m' \<and>
    contents m' = (contents m)(tid := map_option (\<lambda>(a, _). (a, info')) (contents m tid))"
proof -
  note D = manager_invD [OF inv]
  let ?t = "(tokens m)[tid := Some info']" and ?k = "info_key info" and ?k' = "info_key info'"
  have lt: "tid < length (tokens m)" by (rule slot_Some_length [OF s])
  have key: "keys_of (tokens m) tid = Some ?k" using s by (simp add: keys_of_def)
  have kt: "keys_of ?t = (keys_of (tokens m))(tid \<mapsto> ?k')" using lt by (simp add: keys_of_update)
  have cont: "contents m' = (contents m)(tid := map_option (\<lambda>(a, _). (a, info')) (contents m tid))"
    if "tokens m' = ?t" "id_to_alias m' = id_to_alias m" for m'
    using that s lt by (intro ext) (simp add: contents_def alias_at_def split: option.splits)
  show ?thesis
  proof (cases "?k' = ?k")
    case True
    then have "keys_of ?t = keys_of (tokens m)" using key kt by (simp add: fun_upd_idem)
    then have "manager_inv (m\<lparr> tokens := ?t \<rparr>)" by (intro same_keys_inv [OF inv]) simp_all
    moreover have "token_writer tid g m = Done (m\<lparr> tokens := ?t \<rparr>)"
      using s True i' by (simp add: token_writer_def)
    ultimately show ?thesis using cont [of "m\<lparr> tokens := ?t \<rparr>"] by simp
  next
    case False
    have fresh: "?k' \<notin> ran (keys_of (tokens m))"
    proof
      assume "?k' \<in> ran (keys_of (tokens m))"
      then obtain j where j: "keys_of (tokens m) j = Some ?k'" unfolding ran_def by blast
      with False key have "j \<noteq> tid" by auto
      with j k show False by (metis fun_upd_other ranI)
    qed
    obtain q' where q': "queue_set_key ?k ?k' (queue m) = (True, q')"
      "queue_inv ((keys_of (tokens m))(tid \<mapsto> ?k')) q'"
      using tq.set_key_invar [OF D(8) key fresh] by blast
    let ?m = "m\<lparr> tokens := ?t, id_map := (id_map m)(?k := None, ?k' \<mapsto> tid), queue := q' \<rparr>"
    have al: "alias_at ?m = alias_at m" by (simp add: alias_at_def fun_eq_iff)
    have st: "slot ?t j = None \<longleftrightarrow> slot (tokens m) j = None" for j using s by simp
    have "manager_inv ?m"
    proof (rule manager_invI)
      show "length (id_to_alias ?m) = length (tokens ?m)" using D(1) by simp
      show "inverse_maps (id_map ?m) (keys_of (tokens ?m))"
        using inverse_maps_rename [OF D(2) key, of ?k'] fresh inverse_maps_free [OF D(2)] by (simp add: kt)
      show "inverse_maps (alias_map ?m) (alias_at ?m)" unfolding al using D(3) by simp
      show "alias_at ?m j = None \<longleftrightarrow> slot (tokens ?m) j = None" for j
        unfolding al using D(4) [of j] st [of j] by simp
      show "distinct (free_ids ?m)" using D(5) by simp
      show "set (free_ids ?m) = {j. j < length (tokens ?m) \<and> slot (tokens ?m) j = None}"
        using D(6) st by (simp del: slot_update)
      show "alias_at ?m j = Some b \<Longrightarrow> unnamed_form b \<Longrightarrow> b = generate_unnamed_alias j" for j b
        unfolding al by (rule D(7))
      show "queue_inv (keys_of (tokens ?m)) (queue ?m)" using q'(2) kt by simp
    qed
    moreover have "id_map m ?k = Some tid" using inverse_mapsD [OF D(2)] key by blast
    then have "token_writer tid g m = Done ?m"
      using s False q'(1) i' by (simp add: token_writer_def Let_def)
    ultimately show ?thesis using cont [of ?m] by simp
  qed
qed

lemma enumerate_conv: "enumerate 0 xs = map (\<lambda>i. (i, xs ! i)) [0..<length xs]"
  by (rule nth_equalityI) (simp_all add: nth_enumerate_eq)

lemma update_client_key_ok:
  assumes inv: "manager_inv m"
  shows "manager_inv (update_client_key rh nv m)"
proof -
  let ?f = "\<lambda>(i, t). map_option (\<lambda>info.
    info\<lparr> info_bundle := (info_bundle info)\<lparr> client_key := rh i, session_id := nv i \<rparr> \<rparr>) t"
  let ?t = "map ?f (enumerate 0 (tokens m))"
  have "keys_of ?t = keys_of (tokens m)"
    by (rule ext) (auto simp: keys_of_def slot_def enumerate_conv info_key_def token_key_of_def
        map_option_case split: option.splits)
  then show ?thesis unfolding update_client_key_def by (intro same_keys_inv [OF inv]) simp_all
qed

section \<open>Listing\<close>

lemma list_loop_ok:
  assumes "manager_inv m"
  shows "list_loop m (map (\<lambda>i. (i, slot (tokens m) i)) ids) =
    Done (List.map_filter (\<lambda>tid. map_option (\<lambda>(a, info). (tid, a, info)) (contents m tid)) ids)"
proof (induction ids)
  case (Cons i ids)
  show ?case
  proof (cases "slot (tokens m) i")
    case None
    then show ?thesis using Cons contents_None_iff [OF assms, of i] by (simp add: map_filter_simps)
  next
    case (Some info)
    then obtain a where "alias_at m i = Some a" using manager_invD(4) [OF assms, of i] by auto
    with Some show ?thesis using Cons contents_Some_iff [of m i a info] by (simp add: map_filter_simps)
  qed
qed (simp add: map_filter_simps)

definition listing :: "token_manager \<Rightarrow> (usize \<times> str \<times> token_info) list" where
  "listing m = List.map_filter (\<lambda>tid. map_option (\<lambda>(a, info). (tid, a, info)) (contents m tid)) [0..<length (tokens m)]"

lemma manager_list_ok: "manager_inv m \<Longrightarrow> manager_list m = Done (listing m)"
proof -
  assume "manager_inv m"
  moreover have "enumerate 0 (tokens m) = map (\<lambda>i. (i, slot (tokens m) i)) [0..<length (tokens m)]"
    by (simp add: enumerate_conv slot_def)
  ultimately show ?thesis by (simp add: manager_list_def listing_def list_loop_ok)
qed

section \<open>Saving and loading\<close>












section \<open>The manager as a state machine\<close>

text \<open>Every operation of the manager on the pair of the global heads and the store.  Keys that enter the store
  are required to be new; \<open>reset\<close> is the replacement of the whole store by an empty one, which leaves
  the heads as they are.\<close>

inductive mgr_step :: "queue_heads \<times> token_manager \<Rightarrow> queue_heads \<times> token_manager \<Rightarrow> bool" where
  add: "info_key info \<notin> ran (keys_of (tokens m)) \<Longrightarrow> manager_add info a m = Done (r, m') \<Longrightarrow>
    mgr_step (h, m) (h, m')"
| remove: "manager_remove tid h m = Done (r, h', m') \<Longrightarrow> mgr_step (h, m) (h', m')"
| rename: "manager_set_alias tid a m = Done (r, m') \<Longrightarrow> mgr_step (h, m) (h, m')"
| mutate: "slot (tokens m) tid = Some info \<Longrightarrow> info_key (f info) = info_key info \<Longrightarrow>
    with_token_mut tid f m = Done m' \<Longrightarrow> mgr_step (h, m) (h, m')"
| rewrite: "slot (tokens m) tid = Some info \<Longrightarrow>
    info_key (info\<lparr> info_bundle := g (info_bundle info) \<rparr>) \<notin> ran ((keys_of (tokens m))(tid := None)) \<Longrightarrow>
    token_writer tid g m = Done m' \<Longrightarrow> mgr_step (h, m) (h, m')"
| select: "manager_select now qt h m = Done (r, h') \<Longrightarrow> mgr_step (h, m) (h', m)"
| refresh: "mgr_step (h, m) (h, update_client_key rh nv m)"
| reset: "mgr_step (h, m) (h, manager_new n)"

lemma queue_remove_heads: "queue_remove k t h q = Done (r, h', q') \<Longrightarrow> length h' = length h"
  by (auto simp: queue_remove_def Let_def adjust_heads_def bind_outcome_Done_iff split: option.splits if_splits)

lemma queue_select_heads: "queue_select now qt t h q = Done (r, h') \<Longrightarrow> length h' = length h"
  by (auto simp: queue_select_def Let_def bind_outcome_Done_iff split: option.splits if_splits prod.splits)

lemma manager_remove_None: "slot (tokens m) tid = None \<Longrightarrow> manager_remove tid h m = Done (None, h, m)"
  by (simp add: manager_remove_def)

lemma manager_remove_heads: "manager_remove tid h m = Done (r, h', m') \<Longrightarrow> length h' = length h"
  by (auto simp: manager_remove_def Let_def bind_outcome_Done_iff dest: queue_remove_heads split: option.splits)

lemma manager_add_inv:
  assumes "manager_inv m" "info_key info \<notin> ran (keys_of (tokens m))"
  shows "\<exists>r m'. manager_add info a m = Done (r, m') \<and> manager_inv m'"
  using manager_add_ok [OF assms(1) _ assms(2), of a] manager_add_exists [of m a info] assms(1)
  by (cases "alias_map m (resolve_alias a (next_id m))") auto

lemma manager_remove_inv:
  assumes "manager_inv m"
  shows "\<exists>r h' m'. manager_remove tid h m = Done (r, h', m') \<and> manager_inv m'"
  using manager_remove_ok [OF assms, of tid _ h] manager_remove_None [of m tid h] assms
  by (cases "slot (tokens m) tid") auto

lemma manager_set_alias_inv:
  assumes "manager_inv m"
  shows "\<exists>r m'. manager_set_alias tid a m = Done (r, m') \<and> manager_inv m'"
proof (cases "slot (tokens m) tid")
  case None
  then show ?thesis using assms by (simp add: manager_set_alias_def)
next
  case (Some info)
  then show ?thesis
    using manager_set_alias_ok [OF assms Some, of a] assms
    by (cases "alias_map m (resolve_alias a tid)") (auto simp: manager_set_alias_def Let_def)
qed

definition mgr_inv :: "queue_heads \<times> token_manager \<Rightarrow> bool" where
  "mgr_inv s \<longleftrightarrow> manager_inv (snd s) \<and> length (fst s) = 4"

lemma mgr_step_inv: "mgr_step s s' \<Longrightarrow> mgr_inv s \<Longrightarrow> mgr_inv s'"
proof (induction rule: mgr_step.induct)
  case (add info m a r m' h)
  then show ?case using manager_add_inv [of m info a] by (auto simp: mgr_inv_def)
next
  case (remove tid h m r h' m')
  then show ?case
    using manager_remove_inv [of m tid h] manager_remove_heads [of tid h m r h' m'] by (auto simp: mgr_inv_def)
next
  case (rename tid a m r m' h)
  then show ?case using manager_set_alias_inv [of m tid a] by (auto simp: mgr_inv_def)
next
  case (mutate m tid info f m' h)
  then show ?case using with_token_mut_ok [of m tid info f] by (auto simp: mgr_inv_def)
next
  case (rewrite m tid info g m' h)
  then show ?case using token_writer_ok [of m tid info _ g] by (auto simp: mgr_inv_def)
next
  case (select now qt h m r h')
  then show ?case using queue_select_heads by (fastforce simp: mgr_inv_def manager_select_def)
qed (auto simp: mgr_inv_def update_client_key_ok manager_new_inv)

interpretation tm: state_machine "\<lambda>s. \<exists>n. s = (QUEUE_HEADS, manager_new n)" mgr_step mgr_inv
proof unfold_locales
  show "\<exists>n. s = (QUEUE_HEADS, manager_new n) \<Longrightarrow> mgr_inv s" for s
    by (auto simp: mgr_inv_def QUEUE_HEADS_def manager_new_inv)
qed (rule mgr_step_inv)

definition defined :: "'a outcome \<Rightarrow> bool" where
  "defined x \<longleftrightarrow> (case x of Done _ \<Rightarrow> True | _ \<Rightarrow> False)"

lemma definedI: "x = Done y \<Longrightarrow> defined x"
  by (simp add: defined_def)

lemma select_defined: "mgr_inv (h, m) \<Longrightarrow> defined (manager_select now qt h m)"
  using queue_select_candidates [OF queue_inv_present [OF manager_invD(8)], of m h now qt]
  by (auto simp: mgr_inv_def manager_select_def defined_def split: list.splits)

lemma get_by_alias_ok:
  assumes "manager_inv m"
  shows "get_by_alias a m = Done (case alias_map m a of None \<Rightarrow> None | Some tid \<Rightarrow> slot (tokens m) tid)"
proof (cases "alias_map m a")
  case (Some tid)
  then have "alias_at m tid = Some a" using inverse_mapsD [OF manager_invD(3) [OF assms]] by blast
  then obtain i where "slot (tokens m) tid = Some i" using manager_invD(4) [OF assms, of tid] by auto
  with Some show ?thesis by (simp add: get_by_alias_def)
qed (simp add: get_by_alias_def)

section \<open>Properties\<close>

text \<open>C1: as long as every key that enters the store is new, all documented invariants hold in every state the
  manager can reach from an empty store, and no operation there runs into undefined behaviour or a
  panic: removal, renaming, selection, look-up, listing, adding a token with a new key, changing a stored token
  in place, and the writer of a stored token when the key it writes is not that of another token.\<close>

theorem manager_reachable_safe:
  assumes "mgr_step\<^sup>*\<^sup>* (QUEUE_HEADS, manager_new n) (h, m)"
  shows "manager_inv m \<and> defined (manager_remove tid h m) \<and> defined (manager_set_alias tid a m) \<and>
    defined (manager_select now qt h m) \<and> defined (get_by_alias a m) \<and> defined (manager_list m) \<and>
    (info_key info \<notin> ran (keys_of (tokens m)) \<longrightarrow> defined (manager_add info a m)) \<and>
    (\<forall>old. slot (tokens m) tid = Some old \<longrightarrow> defined (with_token_mut tid f m) \<and>
       (info_key (old\<lparr> info_bundle := g (info_bundle old) \<rparr>) \<notin> ran ((keys_of (tokens m))(tid := None)) \<longrightarrow>
          defined (token_writer tid g m)))"
proof -
  have inv: "mgr_inv (h, m)" using tm.reachable_inv [OF _ assms] by blast
  then have m: "manager_inv m" by (simp add: mgr_inv_def)
  have "defined (with_token_mut tid f m)" if "slot (tokens m) tid = Some old" for old
    using that by (simp add: with_token_mut_def defined_def)
  moreover have "defined (token_writer tid g m)" if "slot (tokens m) tid = Some old"
    "info_key (old\<lparr> info_bundle := g (info_bundle old) \<rparr>) \<notin> ran ((keys_of (tokens m))(tid := None))" for old
    using token_writer_ok [OF m that(1), of "old\<lparr> info_bundle := g (info_bundle old) \<rparr>" g] that(2) by (auto intro: definedI)
  ultimately show ?thesis
    using m select_defined [OF inv] manager_remove_inv [OF m, of tid h] manager_set_alias_inv [OF m, of tid a]
      get_by_alias_ok [OF m, of a] manager_list_ok [OF m] manager_add_inv [OF m, of info a]
    by (auto intro: definedI)
qed

text \<open>A store that a token was added to, and then one was selected from.\<close>

lemma sample_reached:
  obtains h m where "mgr_step\<^sup>*\<^sup>* (QUEUE_HEADS, manager_new 4) (h, m)" "slot (tokens m) 0 = Some (sample_info 1 True)"
    "keys_of (tokens m) = (keys_of [])(0 \<mapsto> info_key (sample_info 1 True))"
proof -
  have new: "next_id (manager_new 4) = 0" "tokens (manager_new 4) = []" "free_ids (manager_new 4) = []"
    by (simp_all add: next_id_def manager_new_def)
  have fresh: "info_key (sample_info 1 True) \<notin> ran (keys_of (tokens (manager_new 4)))"
    by (auto simp: ran_def keys_of_def slot_def new)
  have "unnamed_form UNNAMED" by (simp add: unnamed_form_def)
  from manager_add_ok [OF manager_new_inv manager_add_unnamed_free [OF manager_new_inv this] fresh]
  obtain m where m: "manager_add (sample_info 1 True) UNNAMED (manager_new 4) = Done (Inr 0, m)" "manager_inv m"
    "contents m = (contents (manager_new 4))(0 \<mapsto> (resolve_alias UNNAMED 0, sample_info 1 True))"
    "keys_of (tokens m) = (keys_of [])(0 \<mapsto> info_key (sample_info 1 True))"
    unfolding new by auto
  have s: "slot (tokens m) 0 = Some (sample_info 1 True)"
    using fun_cong [OF m(3), of 0] by (auto simp: contents_def split: option.splits)
  have "defined (manager_select 9 NormalFree QUEUE_HEADS m)"
    by (rule select_defined) (simp add: mgr_inv_def m(2) QUEUE_HEADS_def)
  then obtain r h where "manager_select 9 NormalFree QUEUE_HEADS m = Done (r, h)"
    by (auto simp: defined_def split: outcome.splits)
  then have "mgr_step\<^sup>*\<^sup>* (QUEUE_HEADS, manager_new 4) (h, m)"
    using mgr_step.add [OF fresh m(1)] mgr_step.select by (meson r_into_rtranclp rtranclp.rtrancl_into_rtrancl)
  then show thesis using s m(4) by (rule that)
qed

theorem manager_reachable_safe_witness:
  "\<exists>h m. slot (tokens m) 0 = Some (sample_info 1 True) \<and> defined (manager_remove 0 h m) \<and> defined (manager_select 9 NormalFree h m) \<and>
     defined (manager_add (sample_info 2 True) UNNAMED m) \<and> defined (with_token_mut 0 (\<lambda>i. i) m) \<and> defined (token_writer 0 (\<lambda>b. b) m)"
proof -
  obtain h m where s: "mgr_step\<^sup>*\<^sup>* (QUEUE_HEADS, manager_new 4) (h, m)" "slot (tokens m) 0 = Some (sample_info 1 True)"
    and k: "keys_of (tokens m) = (keys_of [])(0 \<mapsto> info_key (sample_info 1 True))" by (rule sample_reached)
  have "info_key (sample_info 2 True) \<notin> ran (keys_of (tokens m))"
    "info_key (sample_info 1 True) \<notin> ran ((keys_of (tokens m))(0 := None))"
    unfolding k by (auto simp: ran_def keys_of_def slot_def)
  then show ?thesis
    using s(2) manager_reachable_safe [OF s(1), of 0 UNNAMED 9 NormalFree "sample_info 2 True" "\<lambda>i. i" "\<lambda>b. b"]
    by (intro exI [of _ h] exI [of _ m]) simp
qed

text \<open>C4: adding a token.  The id is the oldest free one, or the next new one; an automatic alias carries that
  number and never clashes; a taken alias is reported and changes nothing; otherwise the store gains
  exactly this entry.\<close>

theorem manager_add_spec:
  assumes "manager_inv m" and "info_key info \<notin> ran (keys_of (tokens m))"
  shows "(unnamed_form a \<longrightarrow> alias_map m (resolve_alias a (next_id m)) = None \<and>
      resolve_alias a (next_id m) = UNNAMED_PATTERN @ decimal (next_id m)) \<and>
    (alias_map m (resolve_alias a (next_id m)) \<noteq> None \<longrightarrow> manager_add info a m = Done (Inl AliasExists, m)) \<and>
    (alias_map m (resolve_alias a (next_id m)) = None \<longrightarrow>
      (\<exists>m'. manager_add info a m = Done (Inr (next_id m), m') \<and> manager_inv m' \<and>
         contents m' = (contents m)(next_id m \<mapsto> (resolve_alias a (next_id m), info)) \<and>
         free_ids m' = tl (free_ids m)))"
  using manager_add_ok [OF assms(1) _ assms(2), of a] manager_add_exists [of m a info]
    manager_add_unnamed_free [OF assms(1)] generate_unnamed_alias_decimal
  by (auto simp: resolve_alias_eq)

theorem manager_add_spec_witness:
  "manager_inv (manager_new 0) \<and>
   (\<exists>m'. manager_add (sample_info 1 True) UNNAMED (manager_new 0) = Done (Inr 0, m') \<and>
      contents m' 0 = Some (bytes_of ''unnamed-0'', sample_info 1 True))"
proof -
  have fresh: "info_key (sample_info 1 True) \<notin> ran (keys_of (tokens (manager_new 0)))"
    by (auto simp: ran_def keys_of_def slot_def manager_new_def)
  have n: "next_id (manager_new 0) = 0" by (simp add: next_id_def manager_new_def)
  have "resolve_alias UNNAMED 0 = bytes_of ''unnamed-0''"
    by (simp add: resolve_alias_def generate_unnamed_alias_def UNNAMED_PATTERN_def bytes_of_def of_char_def)
  moreover have "unnamed_form UNNAMED" by (simp add: unnamed_form_def)
  ultimately show ?thesis
    using manager_add_spec [OF manager_new_inv fresh, of UNNAMED] manager_new_inv unfolding n by auto
qed

text \<open>C5: removing a token.  Exactly the entry of that id disappears from the store and from every index, the
  removed token is returned, the id is queued for reuse behind the ids freed before, and removing an
  empty or unknown slot changes nothing.\<close>

theorem manager_remove_spec:
  assumes "manager_inv m"
  shows "(contents m tid = None \<longrightarrow> manager_remove tid h m = Done (None, h, m)) \<and>
    (\<forall>a info. contents m tid = Some (a, info) \<longrightarrow>
      (\<exists>h' m'. manager_remove tid h m = Done (Some info, h', m') \<and> manager_inv m' \<and>
         contents m' = (contents m)(tid := None) \<and> free_ids m' = free_ids m @ [tid] \<and>
         id_map m' (info_key info) = None \<and> alias_map m' a = None))"
proof (intro conjI allI impI)
  show "contents m tid = None \<Longrightarrow> manager_remove tid h m = Done (None, h, m)"
    by (simp add: contents_None_iff [OF assms] manager_remove_None)
  fix a info assume c: "contents m tid = Some (a, info)"
  then have s: "slot (tokens m) tid = Some info" "alias_at m tid = Some a" by (simp_all add: contents_Some_iff)
  obtain h' m' where m': "manager_remove tid h m = Done (Some info, h', m')" "manager_inv m'"
    "contents m' = (contents m)(tid := None)" "free_ids m' = free_ids m @ [tid]"
    "keys_of (tokens m') = (keys_of (tokens m))(tid := None)"
    using manager_remove_ok [OF assms s(1)] by blast
  have "info_key info \<notin> ran (keys_of (tokens m'))"
  proof
    assume "info_key info \<in> ran (keys_of (tokens m'))"
    then obtain j where "keys_of (tokens m) j = Some (info_key info)" "j \<noteq> tid"
      using m'(5) by (auto simp: ran_def split: if_splits)
    then show False
      using inverse_maps_inj [OF manager_invD(2) [OF assms], of j "info_key info" tid] s(1) by (simp add: keys_of_def)
  qed
  moreover have "a \<notin> ran (alias_at m')"
  proof
    assume "a \<in> ran (alias_at m')"
    then obtain j where j: "alias_at m' j = Some a" by (auto simp: ran_def)
    then obtain i where "contents m' j = Some (a, i)"
      using manager_invD(4) [OF m'(2), of j] by (auto simp: contents_def split: option.splits)
    then have "alias_at m j = Some a" "j \<noteq> tid"
      using m'(3) by (auto simp: contents_Some_iff split: if_splits)
    then show False using inverse_maps_inj [OF manager_invD(3) [OF assms], of j a tid] s(2) by simp
  qed
  ultimately show "\<exists>h' m'. manager_remove tid h m = Done (Some info, h', m') \<and> manager_inv m' \<and>
      contents m' = (contents m)(tid := None) \<and> free_ids m' = free_ids m @ [tid] \<and>
      id_map m' (info_key info) = None \<and> alias_map m' a = None"
    using m' inverse_maps_free [OF manager_invD(2) [OF m'(2)]] inverse_maps_free [OF manager_invD(3) [OF m'(2)]]
    by auto
qed

theorem manager_remove_spec_witness:
  "manager_inv (manager_new 3) \<and> manager_remove 5 QUEUE_HEADS (manager_new 3) = Done (None, QUEUE_HEADS, manager_new 3)"
proof -
  have "contents (manager_new 3) 5 = None" by (simp add: contents_def manager_new_def alias_at_def)
  then show ?thesis using manager_remove_spec [OF manager_new_inv] manager_new_inv by blast
qed



text \<open>A search in which every token but an empty slot is passed over.\<close>

lemma select_loop_reaches:
  assumes "i \<in> set is" and "slot toks (vec ! ((start + i) mod length vec)) = None"
    and "\<And>j info. j \<in> set is \<Longrightarrow> slot toks (vec ! ((start + j) mod length vec)) = Some info \<Longrightarrow> \<not> selectable now info"
  shows "select_loop now toks vec start is = UB"
  using assms
proof (induction "is")
  case (Cons j js)
  then show ?case by (cases "slot toks (vec ! ((start + j) mod length vec))") (auto simp: Let_def)
qed simp

lemma select_undefined:
  assumes "tid \<in> set (tq_vec (queue m))" and "slot (tokens m) tid = None"
    and "\<And>j info. j \<in> set (tq_vec (queue m)) \<Longrightarrow> slot (tokens m) j = Some info \<Longrightarrow> \<not> selectable now info"
  shows "manager_select now qt h m = UB"
proof -
  let ?v = "tq_vec (queue m)" and ?s = "h ! as_index qt"
  obtain p where p: "p < length ?v" "?v ! p = tid" using assms(1) by (meson in_set_conv_nth)
  let ?i = "(p + length ?v - ?s mod length ?v) mod length ?v"
  have le: "?s mod length ?v \<le> length ?v" using p(1) by (intro order_less_imp_le mod_less_divisor) auto
  have "(?s + ?i) mod length ?v = (?s mod length ?v + (p + length ?v - ?s mod length ?v)) mod length ?v"
    by (simp add: mod_add_left_eq mod_add_right_eq)
  also have "\<dots> = p" using p(1) le by simp
  finally have i: "(?s + ?i) mod length ?v = p" .
  have i': "?i \<in> set [0..<length ?v]" using p(1) by (simp add: mod_less_divisor [OF order_le_less_trans [OF le0 p(1)]])
  have "select_loop now (tokens m) ?v ?s [0..<length ?v] = UB"
  proof (rule select_loop_reaches [OF i'])
    show "slot (tokens m) (?v ! ((?s + ?i) mod length ?v)) = None" using i p assms(2) by simp
    show "\<not> selectable now info" if "slot (tokens m) (?v ! ((?s + j) mod length ?v)) = Some info" for j info
      using assms(3) [OF nth_mem that] p(1) by (simp add: mod_less_divisor [OF order_le_less_trans [OF le0 p(1)]])
  qed
  then show ?thesis using p(1) by (auto simp: manager_select_def queue_select_def Let_def)
qed

text \<open>C39: distinct keys are needed.  In any store, add a token whose key an entry already has, and remove that older entry.
  Both operations succeed, but the queue then holds the id of the emptied slot and has lost the id of the newer
  token, which is still stored; a selection that finds no other token ready dereferences the empty slot.\<close>

theorem duplicate_key_undefined:
  assumes "manager_inv m" and "slot (tokens m) tid = Some info" and "info_key copy = info_key info"
    and "manager_add copy a m = Done (Inr tid', m2)"
  shows "\<exists>h' m3. manager_remove tid h m2 = Done (Some info, h', m3) \<and>
     slot (tokens m3) tid = None \<and> tid \<in> set (tq_vec (queue m3)) \<and>
     slot (tokens m3) tid' = Some copy \<and> tid' \<notin> set (tq_vec (queue m3)) \<and>
     ((\<forall>j i. slot (tokens m) j = Some i \<longrightarrow> j = tid \<or> \<not> selectable now i) \<longrightarrow> manager_select now qt h' m3 = UB)"
proof -
  note D = manager_invD [OF assms(1)]
  have free: "alias_map m (resolve_alias a (next_id m)) = None"
    using assms(4) manager_add_exists [of m a copy] by (cases "alias_map m (resolve_alias a (next_id m))") auto
  have tid': "tid' = next_id m" and F: "filled copy (resolve_alias a tid') tid' m m2"
    using manager_add_filled [OF assms(1) free, of copy] assms(4) by auto
  have ne: "tid' \<noteq> tid" "slot (tokens m) tid' = None" using next_id_free(1) [OF assms(1)] assms(2) tid' by auto
  note F = F [unfolded filled_def]
  let ?v = "tq_vec (queue m)" and ?k = "info_key info"
  have v: "set ?v = dom (keys_of (tokens m))" using D(8) by (simp add: queue_inv_def)
  obtain al where al: "alias_at m2 tid = Some al" using F ne(1) D(4) [of tid] assms(2) by (cases "alias_at m tid") auto
  have s2: "slot (tokens m2) tid = Some info" "tid < length (tokens m2)" using F ne assms(2) slot_Some_length [OF assms(2)] by auto
  define m3 where "m3 = m2\<lparr> tokens := (tokens m2)[tid := None], id_map := (id_map m2)(?k := None),
    queue := \<lparr> tq_vec = ?v, tq_map = (tq_map (queue m))(?k := None) \<rparr>, id_to_alias := (id_to_alias m2)[tid := None],
    alias_map := (alias_map m2)(al := None), free_ids := free_ids m2 @ [tid] \<rparr>"
  have "queue_remove ?k ((tokens m2)[tid := None]) h (queue m2) =
      Done (Some tid', adjust_heads (length ?v) h, \<lparr> tq_vec = ?v, tq_map = (tq_map (queue m))(?k := None) \<rparr>)"
    using F assms(3) by (simp add: queue_remove_def queue_push_def Let_def)
  then have rem: "manager_remove tid h m2 = Done (Some info, adjust_heads (length ?v) h, m3)"
    using s2 al by (simp add: manager_remove_def Let_def m3_def)
  have slots: "slot (tokens m3) j = (if j = tid then None else if j = tid' then Some copy else slot (tokens m) j)" for j
    using s2 ne F by (simp add: m3_def)
  have q3: "tq_vec (queue m3) = ?v" by (simp add: m3_def)
  have "tid \<in> set ?v" "tid' \<notin> set ?v" using v assms(2) ne by (auto simp: dom_def keys_of_def)
  moreover have "manager_select now qt h' m3 = UB" if "\<forall>j i. slot (tokens m) j = Some i \<longrightarrow> j = tid \<or> \<not> selectable now i" for h'
    using that \<open>tid \<in> set ?v\<close> \<open>tid' \<notin> set ?v\<close> by (intro select_undefined [of tid]) (auto simp: q3 slots split: if_splits)
  ultimately show ?thesis using rem slots q3 ne by (intro exI [of _ "adjust_heads (length ?v) h"] exI [of _ m3]) simp
qed

theorem duplicate_key_undefined_witness:
  "\<exists>m m2 h' m3. slot (tokens m) 0 = Some (sample_info 1 True) \<and> manager_add (sample_info 1 True) UNNAMED m = Done (Inr 1, m2) \<and>
     manager_remove 0 QUEUE_HEADS m2 = Done (Some (sample_info 1 True), h', m3) \<and> manager_select 9 NormalFree h' m3 = UB"
proof -
  let ?i = "sample_info 1 True"
  have new: "next_id (manager_new 0) = 0" "tokens (manager_new 0) = []" "free_ids (manager_new 0) = []"
    by (simp_all add: next_id_def manager_new_def)
  have u: "unnamed_form UNNAMED" by (simp add: unnamed_form_def)
  have fresh: "info_key ?i \<notin> ran (keys_of (tokens (manager_new 0)))" by (auto simp: ran_def keys_of_def slot_def new)
  from manager_add_ok [OF manager_new_inv manager_add_unnamed_free [OF manager_new_inv u] fresh]
  obtain m where m: "manager_inv m" "contents m = (contents (manager_new 0))(0 \<mapsto> (resolve_alias UNNAMED 0, ?i))"
    "keys_of (tokens m) = (keys_of [])(0 \<mapsto> info_key ?i)" "free_ids m = []" "length (tokens m) = 1"
    unfolding new by auto
  have s: "slot (tokens m) 0 = Some ?i" using fun_cong [OF m(2), of 0] by (auto simp: contents_def split: option.splits)
  have only: "j = 0" if "slot (tokens m) j = Some i" for i j using slot_Some_length [OF that] m(5) by simp
  obtain m2 where m2: "manager_add ?i UNNAMED m = Done (Inr 1, m2)"
    using manager_add_filled [OF m(1) manager_add_unnamed_free [OF m(1) u], of ?i] m(4,5) by (auto simp: next_id_def)
  show ?thesis using duplicate_key_undefined [OF m(1) s refl m2, of QUEUE_HEADS 9 NormalFree] s m2 only by fast
qed

text \<open>Changing a token's key, through the writer, to the key of another stored token is undefined: the queue
  already has that key, and the writer asserts that it has not.\<close>

theorem writer_key_clash_undefined:
  assumes "manager_inv m" and "slot (tokens m) tid = Some info" and "slot (tokens m) tid' = Some info'"
    and "tid' \<noteq> tid" and "info_key (info\<lparr> info_bundle := g (info_bundle info) \<rparr>) = info_key info'"
  shows "token_writer tid g m = UB"
proof -
  note D = manager_invD [OF assms(1)]
  let ?k = "info_key info" and ?k' = "info_key info'"
  have k: "keys_of (tokens m) tid = Some ?k" "keys_of (tokens m) tid' = Some ?k'"
    using assms(2,3) by (simp_all add: keys_of_def)
  have ne: "?k' \<noteq> ?k" using inverse_maps_inj [OF D(2) k(1), of tid'] k(2) assms(4) by auto
  have "tq_map (queue m) x \<noteq> None" if "keys_of (tokens m) j = Some x" for j x
  proof -
    have "j \<in> set (tq_vec (queue m))" using D(8) that by (auto simp: queue_inv_def)
    then obtain i where "i < length (tq_vec (queue m))" "tq_vec (queue m) ! i = j" by (meson in_set_conv_nth)
    with that show ?thesis using queue_inv_map [OF D(8), of x i] by simp
  qed
  from this [OF k(1)] this [OF k(2)] have "fst (queue_set_key ?k ?k' (queue m)) = False"
    using ne by (auto simp: queue_set_key_def Let_def)
  then show ?thesis
    using assms(2,5) ne by (auto simp: token_writer_def Let_def split: option.splits prod.splits)
qed

theorem writer_key_clash_undefined_witness:
  "\<exists>m. manager_inv m \<and> contents m 1 = Some (bytes_of ''unnamed-1'', sample_info 2 True) \<and>
     token_writer 0 (\<lambda>b. info_bundle (sample_info 2 True)) m = UB"
proof -
  have u: "unnamed_form UNNAMED" by (simp add: unnamed_form_def)
  have new: "next_id (manager_new 0) = 0" "tokens (manager_new 0) = []" "free_ids (manager_new 0) = []"
    by (simp_all add: next_id_def manager_new_def)
  have fresh: "info_key (sample_info 1 True) \<notin> ran (keys_of (tokens (manager_new 0)))"
    by (auto simp: ran_def keys_of_def slot_def new)
  obtain m1 where m1: "manager_inv m1" "contents m1 = (contents (manager_new 0))(0 \<mapsto> (resolve_alias UNNAMED 0, sample_info 1 True))"
    "keys_of (tokens m1) = (keys_of [])(0 \<mapsto> info_key (sample_info 1 True))"
    "free_ids m1 = []" "length (tokens m1) = 1"
    using manager_add_ok [OF manager_new_inv manager_add_unnamed_free [OF manager_new_inv u] fresh]
    unfolding new by auto
  have n1: "next_id m1 = 1" using m1(4,5) by (simp add: next_id_def)
  have "info_key (sample_info 2 True) \<notin> ran (keys_of (tokens m1))"
    unfolding m1(3) by (auto simp: ran_def keys_of_def slot_def split: if_splits)
  from manager_add_ok [OF m1(1) manager_add_unnamed_free [OF m1(1) u] this]
  obtain m2 where m2: "manager_inv m2" "contents m2 = (contents m1)(1 \<mapsto> (resolve_alias UNNAMED 1, sample_info 2 True))"
    unfolding n1 by blast
  have s: "slot (tokens m2) 0 = Some (sample_info 1 True)" "slot (tokens m2) 1 = Some (sample_info 2 True)"
    using fun_cong [OF m2(2), of 0] fun_cong [OF m2(2), of 1] m1(2) by (auto simp: contents_Some_iff)
  have "resolve_alias UNNAMED 1 = bytes_of ''unnamed-1''"
    by (simp add: resolve_alias_def generate_unnamed_alias_def push_digits.simps UNNAMED_PATTERN_def bytes_of_def of_char_def)
  then show ?thesis
    using writer_key_clash_undefined [OF m2(1) s, of "\<lambda>b. info_bundle (sample_info 2 True)"] m2
    by (auto simp: info_key_def)
qed

end
