(* ===== verification/Token_Routes.thy ===== *)
theory Token_Routes
  imports Token_Manager
begin

text \<open>
  The management routes of \<open>src/core/route/tokens.rs\<close> and \<open>get_new_token\<close> of \<open>src/common/utils.rs\<close>, on the
  state of the token manager.  A route holds the write lock throughout, so it is a function of the state.
  Requests that arrive as hash maps or sets are lists in iteration order.  \<open>save_ok\<close> says whether writing
  the file succeeds; the answers of the remote services are arguments.  The many routes that act on a list
  of aliases share one loop, whose properties are proved once in the locale \<open>alias_action\<close>.
\<close>

section \<open>Answers\<close>

datatype route_error =
    NoTokensProvided | SaveTokenData | SaveTokenProfiles | SaveTokenConfigVersion | SaveTokens
  | SaveTokenStatuses | SaveTokenAliases | SaveTokenProxies | SaveTokenTimezones | InternalServerError

text \<open>The success messages, by the counts they report (updated, failed).\<close>

datatype route_message =
    ProfilesUpdated nat nat | ConfigVersionsUpdated nat nat nat | TokensRefreshed nat nat
  | StatusSet nat nat | AliasesSet nat nat | ProxiesSet nat nat | TimezonesSet nat nat | TokensMerged nat nat

record tokens_add_response =
  tokens_count :: nat
  added :: bool

text \<open>Save only if something was updated; a failed save is reported, the store stays changed.\<close>

definition finish :: "bool \<Rightarrow> nat \<Rightarrow> route_error \<Rightarrow> route_message \<Rightarrow> route_error + route_message" where
  "finish save_ok updated_count err msg = (if updated_count > 0 \<and> \<not> save_ok then Inl err else Inr msg)"

section \<open>The loop over aliases\<close>

text \<open>\<open>act\<close> is what the route does with the id an alias maps to; it tells whether that counts as updated.\<close>

fun by_alias_loop :: "('p \<Rightarrow> bool) \<Rightarrow> ('p \<Rightarrow> usize \<Rightarrow> token_manager \<Rightarrow> (bool \<times> token_manager) outcome) \<Rightarrow>
    (str \<times> 'p) list \<Rightarrow> nat \<Rightarrow> nat \<Rightarrow> token_manager \<Rightarrow> (nat \<times> nat \<times> token_manager) outcome" where
  "by_alias_loop guard act [] updated failed m = Done (updated, failed, m)"
| "by_alias_loop guard act ((alias, p) # rest) updated failed m =
     (if guard p
      then case alias_map m alias of
          None \<Rightarrow> by_alias_loop guard act rest updated (failed + 1) m
        | Some tid \<Rightarrow>
            bind_outcome (act p tid m) (\<lambda>(ok, m').
              if ok then by_alias_loop guard act rest (updated + 1) failed m'
              else by_alias_loop guard act rest updated (failed + 1) m')
      else by_alias_loop guard act rest updated (failed + 1) m)"

definition mutate_action :: "(token_info \<Rightarrow> token_info) \<Rightarrow> 'p \<Rightarrow> usize \<Rightarrow> token_manager \<Rightarrow> (bool \<times> token_manager) outcome" where
  "mutate_action f p tid m = bind_outcome (with_token_mut tid f m) (\<lambda>m'. Done (True, m'))"

definition plain :: "str list \<Rightarrow> (str \<times> unit) list" where
  "plain aliases = map (\<lambda>a. (a, ())) aliases"

section \<open>Routes that set a field\<close>

definition set_enabled :: "bool \<Rightarrow> token_info \<Rightarrow> token_info" where
  "set_enabled e info = info\<lparr> status := (status info)\<lparr> enabled := e \<rparr> \<rparr>"

definition set_proxy :: "str option \<Rightarrow> token_info \<Rightarrow> token_info" where
  "set_proxy p info = info\<lparr> info_bundle := (info_bundle info)\<lparr> proxy := p \<rparr> \<rparr>"

definition set_timezone :: "str option \<Rightarrow> token_info \<Rightarrow> token_info" where
  "set_timezone tz info = info\<lparr> info_bundle := (info_bundle info)\<lparr> timezone := tz \<rparr> \<rparr>"

definition handle_set_tokens_status :: "bool \<Rightarrow> str list \<Rightarrow> bool \<Rightarrow> token_manager \<Rightarrow>
    ((route_error + route_message) \<times> token_manager) outcome" where
  "handle_set_tokens_status save_ok aliases e m =
     (if aliases = [] then Done (Inl NoTokensProvided, m)
      else bind_outcome (by_alias_loop (\<lambda>_. True) (mutate_action (set_enabled e)) (plain aliases) 0 0 m) (\<lambda>(u, f, m').
        Done (finish save_ok u SaveTokenStatuses (StatusSet u f), m')))"

definition handle_set_tokens_proxy :: "bool \<Rightarrow> str list \<Rightarrow> str option \<Rightarrow> token_manager \<Rightarrow>
    ((route_error + route_message) \<times> token_manager) outcome" where
  "handle_set_tokens_proxy save_ok aliases p m =
     (if aliases = [] then Done (Inl NoTokensProvided, m)
      else bind_outcome (by_alias_loop (\<lambda>_. True) (mutate_action (set_proxy p)) (plain aliases) 0 0 m) (\<lambda>(u, f, m').
        Done (finish save_ok u SaveTokenProxies (ProxiesSet u f), m')))"

definition handle_set_tokens_timezone :: "bool \<Rightarrow> str list \<Rightarrow> str option \<Rightarrow> token_manager \<Rightarrow>
    ((route_error + route_message) \<times> token_manager) outcome" where
  "handle_set_tokens_timezone save_ok aliases tz m =
     (if aliases = [] then Done (Inl NoTokensProvided, m)
      else bind_outcome (by_alias_loop (\<lambda>_. True) (mutate_action (set_timezone tz)) (plain aliases) 0 0 m) (\<lambda>(u, f, m').
        Done (finish save_ok u SaveTokenTimezones (TimezonesSet u f), m')))"

section \<open>Renaming\<close>

definition alias_action_of :: "str \<Rightarrow> usize \<Rightarrow> token_manager \<Rightarrow> (bool \<times> token_manager) outcome" where
  "alias_action_of new_alias tid m =
     bind_outcome (manager_set_alias tid new_alias m) (\<lambda>(r, m').
       Done (case r of Inr _ \<Rightarrow> True | Inl _ \<Rightarrow> False, m'))"

definition handle_set_tokens_alias :: "bool \<Rightarrow> (str \<times> str) list \<Rightarrow> token_manager \<Rightarrow>
    ((route_error + route_message) \<times> token_manager) outcome" where
  "handle_set_tokens_alias save_ok request m =
     (if request = [] then Done (Inl NoTokensProvided, m)
      else bind_outcome (by_alias_loop (\<lambda>_. True) alias_action_of request 0 0 m) (\<lambda>(u, f, m').
        Done (finish save_ok u SaveTokenAliases (AliasesSet u f), m')))"

section \<open>Refreshing and merging\<close>

text \<open>\<open>refresh\<close> and \<open>upgrade\<close> are the answers of the remote services for a bundle.\<close>

definition get_new_token :: "(ext_token \<Rightarrow> token option) \<Rightarrow> (ext_token \<Rightarrow> token option) \<Rightarrow> ext_token \<Rightarrow> bool \<times> ext_token" where
  "get_new_token refresh upgrade b =
     (let is_session = rt_is_session (raw (primary_token b))
      in case (if is_session then refresh b else upgrade b) of
          Some new_token \<Rightarrow>
            if \<not> is_session \<and> secondary_token b = None
            then (True, b\<lparr> primary_token := new_token, secondary_token := Some (primary_token b) \<rparr>)
            else (True, b\<lparr> primary_token := new_token \<rparr>)
        | None \<Rightarrow>
            if is_session \<and> secondary_token b \<noteq> None
            then case upgrade b of
                Some new_token \<Rightarrow> (True, b\<lparr> primary_token := new_token \<rparr>)
              | None \<Rightarrow> (False, b)
            else (False, b))"

text \<open>The writer is dropped, and so synchronises the indexes, whether or not the refresh succeeds.\<close>

definition refresh_action :: "(ext_token \<Rightarrow> token option) \<Rightarrow> (ext_token \<Rightarrow> token option) \<Rightarrow> 'p \<Rightarrow> usize \<Rightarrow>
    token_manager \<Rightarrow> (bool \<times> token_manager) outcome" where
  "refresh_action refresh upgrade p tid m =
     (case slot (tokens m) tid of
        None \<Rightarrow> UB
      | Some info \<Rightarrow>
          bind_outcome (token_writer tid (\<lambda>b. snd (get_new_token refresh upgrade b)) m) (\<lambda>m'.
            Done (fst (get_new_token refresh upgrade (info_bundle info)), m')))"

definition handle_refresh_tokens :: "(ext_token \<Rightarrow> token option) \<Rightarrow> (ext_token \<Rightarrow> token option) \<Rightarrow> bool \<Rightarrow> str list \<Rightarrow>
    token_manager \<Rightarrow> ((route_error + route_message) \<times> token_manager) outcome" where
  "handle_refresh_tokens refresh upgrade save_ok aliases m =
     (if aliases = [] then Done (Inl NoTokensProvided, m)
      else bind_outcome (by_alias_loop (\<lambda>_. True) (refresh_action refresh upgrade) (plain aliases) 0 0 m) (\<lambda>(u, f, m').
        Done (finish save_ok u SaveTokens (TokensRefreshed u f), m')))"

record merge_info =
  mi_primary_token :: "token option"
  mi_secondary_token :: "token option"
  mi_checksum :: "checksum option"
  mi_client_key :: "hash option"
  mi_config_version :: "uuid option"
  mi_session_id :: "uuid option"
  mi_proxy :: "str option"
  mi_timezone :: "str option"
  mi_gcpp_host :: "gcpp_host option"

definition has_some :: "merge_info \<Rightarrow> bool" where
  "has_some t \<longleftrightarrow> \<not> (mi_primary_token t = None \<and> mi_secondary_token t = None \<and> mi_checksum t = None \<and>
     mi_client_key t = None \<and> mi_config_version t = None \<and> mi_session_id t = None \<and> mi_proxy t = None \<and>
     mi_timezone t = None \<and> mi_gcpp_host t = None)"

definition keep_or :: "'a \<Rightarrow> 'a option \<Rightarrow> 'a" where
  "keep_or old new = (case new of None \<Rightarrow> old | Some x \<Rightarrow> x)"

definition keep_opt :: "'a option \<Rightarrow> 'a option \<Rightarrow> 'a option" where
  "keep_opt old new = (case new of None \<Rightarrow> old | Some x \<Rightarrow> Some x)"

definition merge_bundle :: "merge_info \<Rightarrow> ext_token \<Rightarrow> ext_token" where
  "merge_bundle t b =
     \<lparr> primary_token = keep_or (primary_token b) (mi_primary_token t),
       secondary_token = keep_opt (secondary_token b) (mi_secondary_token t),
       ext_checksum = keep_or (ext_checksum b) (mi_checksum t),
       client_key = keep_or (client_key b) (mi_client_key t),
       config_version = keep_opt (config_version b) (mi_config_version t),
       session_id = keep_or (session_id b) (mi_session_id t),
       proxy = keep_opt (proxy b) (mi_proxy t),
       timezone = keep_opt (timezone b) (mi_timezone t),
       gcpp_host = keep_opt (gcpp_host b) (mi_gcpp_host t) \<rparr>"

definition merge_action :: "merge_info \<Rightarrow> usize \<Rightarrow> token_manager \<Rightarrow> (bool \<times> token_manager) outcome" where
  "merge_action t tid m = bind_outcome (token_writer tid (merge_bundle t) m) (\<lambda>m'. Done (True, m'))"

definition handle_merge_tokens :: "bool \<Rightarrow> (str \<times> merge_info) list \<Rightarrow> token_manager \<Rightarrow>
    ((route_error + route_message) \<times> token_manager) outcome" where
  "handle_merge_tokens save_ok request m =
     (if request = [] then Done (Inl NoTokensProvided, m)
      else bind_outcome (by_alias_loop has_some merge_action request 0 0 m) (\<lambda>(u, f, m').
        Done (finish save_ok u SaveTokens (TokensMerged u f), m')))"

section \<open>Profiles and configuration versions\<close>

text \<open>\<open>fetch\<close> is the answer of the profile services: usage, Stripe profile, user, sessions.\<close>

definition set_profile :: "usage_profile option \<Rightarrow> stripe_profile option \<Rightarrow> user_profile option \<Rightarrow> session list option \<Rightarrow>
    token_info \<Rightarrow> token_info" where
  "set_profile us st ur se info =
     info\<lparr> usage := us, user := ur, stripe := st, sessions := keep_or (sessions info) se \<rparr>"

fun profile_loop :: "(ext_token \<Rightarrow> usage_profile option \<times> stripe_profile option \<times> user_profile option \<times> session list option) \<Rightarrow>
    str list \<Rightarrow> nat \<Rightarrow> nat \<Rightarrow> (usize \<times> str) list \<Rightarrow> token_manager \<Rightarrow>
    (nat \<times> nat \<times> (usize \<times> str) list \<times> token_manager) outcome" where
  "profile_loop fetch [] u f alias_updaters m = Done (u, f, alias_updaters, m)"
| "profile_loop fetch (alias # rest) u f alias_updaters m =
     (case alias_map m alias of
        None \<Rightarrow> profile_loop fetch rest u (f + 1) alias_updaters m
      | Some tid \<Rightarrow>
          (case (alias_at m tid, slot (tokens m) tid) of
             (Some cur, Some info) \<Rightarrow>
               let (us, st, ur, se) = fetch (info_bundle info);
                   new_alias = (if alias_is_unnamed cur then Option.bind ur user_profile_alias else None);
                   alias_updaters' = alias_updaters @ (case new_alias of None \<Rightarrow> [] | Some a \<Rightarrow> [(tid, a)])
               in bind_outcome (with_token_mut tid (set_profile us st ur se) m) (\<lambda>m'.
                    profile_loop fetch rest (u + 1) f alias_updaters' m')
           | _ \<Rightarrow> UB))"

fun rename_loop :: "(usize \<times> str) list \<Rightarrow> token_manager \<Rightarrow> token_manager outcome" where
  "rename_loop [] m = Done m"
| "rename_loop ((tid, alias) # rest) m =
     bind_outcome (manager_set_alias tid alias m) (\<lambda>(_, m'). rename_loop rest m')"

definition handle_update_tokens_profile ::
  "(ext_token \<Rightarrow> usage_profile option \<times> stripe_profile option \<times> user_profile option \<times> session list option) \<Rightarrow>
    bool \<Rightarrow> str list \<Rightarrow> token_manager \<Rightarrow> ((route_error + route_message) \<times> token_manager) outcome" where
  "handle_update_tokens_profile fetch save_ok aliases m =
     (if aliases = [] then Done (Inl NoTokensProvided, m)
      else bind_outcome (profile_loop fetch aliases 0 0 [] m) (\<lambda>(u, f, alias_updaters, m').
           bind_outcome (rename_loop alias_updaters m') (\<lambda>m''.
        Done (finish save_ok u SaveTokenProfiles (ProfilesUpdated u f), m''))))"

fun config_version_loop :: "(ext_token \<Rightarrow> uuid option) \<Rightarrow> str list \<Rightarrow> nat \<Rightarrow> nat \<Rightarrow> nat \<Rightarrow> token_manager \<Rightarrow>
    (nat \<times> nat \<times> nat \<times> token_manager) outcome" where
  "config_version_loop get_server_config [] u f short m = Done (u, f, short, m)"
| "config_version_loop get_server_config (alias # rest) u f short m =
     (case alias_map m alias of
        None \<Rightarrow> config_version_loop get_server_config rest u (f + 1) short m
      | Some tid \<Rightarrow>
          (case slot (tokens m) tid of
             None \<Rightarrow> UB
           | Some info \<Rightarrow>
               if raw_token_is_web (raw (primary_token (info_bundle info)))
               then config_version_loop get_server_config rest u (f + 1) (short + 1) m
               else case get_server_config (clone_without_config_version (info_bundle info)) of
                   Some v \<Rightarrow>
                     bind_outcome (with_token_mut tid (\<lambda>i. i\<lparr> info_bundle := (info_bundle i)\<lparr> config_version := Some v \<rparr> \<rparr>) m)
                       (\<lambda>m'. config_version_loop get_server_config rest (u + 1) f short m')
                 | None \<Rightarrow> config_version_loop get_server_config rest u (f + 1) short m))"

definition handle_update_tokens_config_version :: "(ext_token \<Rightarrow> uuid option) \<Rightarrow> bool \<Rightarrow> str list \<Rightarrow> token_manager \<Rightarrow>
    ((route_error + route_message) \<times> token_manager) outcome" where
  "handle_update_tokens_config_version get_server_config save_ok aliases m =
     (if aliases = [] then Done (Inl NoTokensProvided, m)
      else bind_outcome (config_version_loop get_server_config aliases 0 0 0 m) (\<lambda>(u, f, short, m').
        Done (finish save_ok u SaveTokenConfigVersion (ConfigVersionsUpdated u f short), m')))"

section \<open>Deleting, replacing, adding\<close>

fun delete_loop :: "str list \<Rightarrow> bool \<Rightarrow> str list \<Rightarrow> queue_heads \<Rightarrow> token_manager \<Rightarrow>
    (bool \<times> str list \<times> queue_heads \<times> token_manager) outcome" where
  "delete_loop [] has_updates failed h m = Done (has_updates, failed, h, m)"
| "delete_loop (alias # rest) has_updates failed h m =
     (case alias_map m alias of
        Some tid \<Rightarrow> bind_outcome (manager_remove tid h m) (\<lambda>(_, h', m'). delete_loop rest True failed h' m')
      | None \<Rightarrow> delete_loop rest has_updates (failed @ [alias]) h m)"

text \<open>The failed aliases are collected only on request; dropping them at the end is the same.\<close>

definition handle_delete_tokens :: "bool \<Rightarrow> str list \<Rightarrow> bool \<Rightarrow> queue_heads \<Rightarrow> token_manager \<Rightarrow>
    ((route_error + str list option) \<times> queue_heads \<times> token_manager) outcome" where
  "handle_delete_tokens save_ok aliases include_failed_tokens h m =
     bind_outcome (delete_loop aliases False [] h m) (\<lambda>(has_updates, failed, h', m').
       Done (if has_updates \<and> \<not> save_ok then Inl SaveTokenData
             else Inr (if include_failed_tokens then Some failed else None), h', m'))"

fun add_loop :: "(token_info \<times> str) list \<Rightarrow> token_manager \<Rightarrow> token_manager outcome" where
  "add_loop [] m = Done m"
| "add_loop ((info, alias) # rest) m = bind_outcome (manager_add info alias m) (\<lambda>(_, m'). add_loop rest m')"

definition handle_set_tokens :: "bool \<Rightarrow> (str \<times> token_info) list \<Rightarrow> token_manager \<Rightarrow>
    ((route_error + tokens_add_response) \<times> token_manager) outcome" where
  "handle_set_tokens save_ok request m =
     bind_outcome (add_loop (map (\<lambda>(a, i). (i, a)) request) (manager_new (length request))) (\<lambda>m'.
       Done (if save_ok then Inr \<lparr> tokens_count = length (tokens m'), added = True \<rparr> else Inl InternalServerError, m'))"

definition handle_get_tokens :: "token_manager \<Rightarrow> (usize \<times> str \<times> token_info) list outcome" where
  "handle_get_tokens m = manager_list m"

record add_request_token =
  ar_alias :: "str option"
  ar_token :: str
  ar_checksum :: "str option"
  ar_client_key :: "str option"
  ar_config_version :: "str option"
  ar_session_id :: "str option"
  ar_proxy :: "str option"
  ar_timezone :: "str option"
  ar_gcpp_host :: "str option"

definition HTTPS_PREFIX :: str where
  "HTTPS_PREFIX = bytes_of ''https://''"

definition gcpp_host_from_str :: "str \<Rightarrow> gcpp_host option" where
  "gcpp_host_from_str s =
     (let s = (case strip_prefix s HTTPS_PREFIX of Some r \<Rightarrow> r | None \<Rightarrow> s)
      in if s = bytes_of ''us-asia.gcpp.cursor.sh'' \<or> s = bytes_of ''Asia'' then Some Asia
         else if s = bytes_of ''us-eu.gcpp.cursor.sh'' \<or> s = bytes_of ''EU'' then Some EU
         else if s = bytes_of ''us-only.gcpp.cursor.sh'' \<or> s = bytes_of ''US'' then Some US
         else None)"

text \<open>The parsers of UUIDs and time zones and the random draws for one token are arguments.\<close>

record token_sources =
  parse_raw :: "str \<Rightarrow> raw_token option"
  parse_uuid :: "str \<Rightarrow> uuid option"
  parse_tz :: "str \<Rightarrow> str option"
  rng :: "nat \<Rightarrow> hash"
  random_uuid :: uuid

definition ok_of :: "'e + 'a \<Rightarrow> 'a option" where
  "ok_of r = (case r of Inl _ \<Rightarrow> None | Inr x \<Rightarrow> Some x)"

definition request_info :: "token_sources \<Rightarrow> bool \<Rightarrow> add_request_token \<Rightarrow> raw_token \<Rightarrow> token_info" where
  "request_info src en t r =
     \<lparr> info_bundle =
         \<lparr> primary_token = \<lparr> raw = r, token_str = ar_token t \<rparr>, secondary_token = None,
           ext_checksum = (case ar_checksum t of Some s \<Rightarrow> repair (rng src) s | None \<Rightarrow> checksum_default (rng src)),
           client_key = keep_or (rng src 2) (Option.bind (ar_client_key t) (\<lambda>s. ok_of (hash_from_str s))),
           config_version = Option.bind (ar_config_version t) (parse_uuid src),
           session_id = keep_or (random_uuid src) (Option.bind (ar_session_id t) (parse_uuid src)),
           proxy = ar_proxy t, timezone = Option.bind (ar_timezone t) (parse_tz src),
           gcpp_host = Option.bind (ar_gcpp_host t) gcpp_host_from_str \<rparr>,
       status = \<lparr> enabled = en, health = health_new \<rparr>, usage = None, user = None, stripe = None, sessions = [] \<rparr>"

definition request_alias :: "add_request_token \<Rightarrow> str" where
  "request_alias t =
     (case ar_alias t of
        Some s \<Rightarrow> if list_ex (\<lambda>b. \<not> is_ascii_space b) s then s else UNNAMED
      | None \<Rightarrow> UNNAMED)"

text \<open>\<open>existing\<close> is computed once, before the loop.\<close>

definition new_tokens :: "(nat \<Rightarrow> token_sources) \<Rightarrow> bool \<Rightarrow> str set \<Rightarrow> add_request_token list \<Rightarrow> (token_info \<times> str) list" where
  "new_tokens src en existing request =
     List.map_filter (\<lambda>(i, t).
       if ar_token t \<notin> existing
       then map_option (\<lambda>r. (request_info (src i) en t r, request_alias t)) (parse_raw (src i) (ar_token t))
       else None) (enumerate 0 request)"

definition existing_tokens :: "token_manager \<Rightarrow> str set" where
  "existing_tokens m = set (List.map_filter (map_option (\<lambda>i. token_str (primary_token (info_bundle i)))) (tokens m))"

definition handle_add_tokens :: "(nat \<Rightarrow> token_sources) \<Rightarrow> bool \<Rightarrow> add_request_token list \<Rightarrow> bool \<Rightarrow> token_manager \<Rightarrow>
    ((route_error + tokens_add_response) \<times> token_manager) outcome" where
  "handle_add_tokens src save_ok request en m =
     (let new = new_tokens src en (existing_tokens m) request
      in if new \<noteq> []
         then bind_outcome (add_loop new m) (\<lambda>m'.
           Done (if save_ok then Inr \<lparr> tokens_count = length (tokens m'), added = True \<rparr> else Inl SaveTokenData, m'))
         else Done (Inr \<lparr> tokens_count = length (tokens m), added = False \<rparr>, m))"

section \<open>The shared loop\<close>

lemma contents_alias_unique:
  assumes "manager_inv m" and "contents m x = Some (a, i)" and "contents m y = Some (a, j)"
  shows "x = y"
proof (rule inverse_maps_inj [OF manager_invD(3) [OF assms(1)]])
  show "alias_at m x = Some a" "alias_at m y = Some a" using assms(2,3) by (simp_all add: contents_Some_iff)
qed

lemma contents_of_alias:
  assumes "manager_inv m" and "alias_map m a = Some t"
  obtains info where "contents m t = Some (a, info)" and "slot (tokens m) t = Some info"
proof -
  have at: "alias_at m t = Some a" using assms inverse_mapsD [OF manager_invD(3)] by blast
  then obtain info where "slot (tokens m) t = Some info" using manager_invD(4) [OF assms(1), of t] by auto
  with at that show thesis by (simp add: contents_Some_iff)
qed

lemma contents_no_alias:
  assumes "manager_inv m" and "alias_map m a = None" and "contents m t = Some (b, i)"
  shows "b \<noteq> a"
proof
  assume "b = a"
  with assms(3) have "alias_at m t = Some a" by (simp add: contents_Some_iff)
  with inverse_mapsD [OF manager_invD(3) [OF assms(1)], of a t] assms(2) show False by simp
qed

locale alias_action =
  fixes guard :: "'p \<Rightarrow> bool"
    and act :: "'p \<Rightarrow> usize \<Rightarrow> token_manager \<Rightarrow> (bool \<times> token_manager) outcome"
  assumes act_ok: "manager_inv m \<Longrightarrow> slot (tokens m) tid = Some info \<Longrightarrow>
    \<exists>ok m'. act p tid m = Done (ok, m') \<and> manager_inv m'"
begin

text \<open>The loop never fails, keeps the store consistent, and every alias is counted exactly once.\<close>

lemma loop_ok:
  "manager_inv m \<Longrightarrow> \<exists>u' f' m'. by_alias_loop guard act items u f m = Done (u', f', m') \<and>
     u' + f' = u + f + length items \<and> manager_inv m'"
proof (induction items arbitrary: u f m)
  case (Cons x items)
  obtain a p where x: "x = (a, p)" by (cases x)
  show ?case
  proof (cases "guard p \<and> alias_map m a \<noteq> None")
    case True
    then obtain tid where tid: "alias_map m a = Some tid" by auto
    then have "alias_at m tid = Some a" using inverse_mapsD [OF manager_invD(3) [OF Cons.prems]] by blast
    then obtain info where "slot (tokens m) tid = Some info" using manager_invD(4) [OF Cons.prems, of tid] by auto
    then obtain ok m1 where m1: "act p tid m = Done (ok, m1)" "manager_inv m1" using act_ok [OF Cons.prems] by blast
    show ?thesis
      using Cons.IH [OF m1(2), of "u + 1" f] Cons.IH [OF m1(2), of u "f + 1"] m1(1) x tid True
      by (cases ok) auto
  next
    case False
    then show ?thesis using Cons.IH [OF Cons.prems, of u "f + 1"] x by auto
  qed
qed simp

end

text \<open>Updates of a field that is neither the key nor depends on its old value.\<close>

locale field_update =
  fixes f :: "token_info \<Rightarrow> token_info"
  assumes key_f: "info_key (f i) = info_key i"
    and idem_f: "f (f i) = f i"

lemma mutate_action_ok:
  assumes "\<And>i. info_key (f i) = info_key i" and "manager_inv m" and "slot (tokens m) tid = Some info"
  shows "\<exists>m'. mutate_action f p tid m = Done (True, m') \<and> manager_inv m' \<and> alias_map m' = alias_map m \<and>
    contents m' = (contents m)(tid := map_option (\<lambda>(a, i). (a, f i)) (contents m tid))"
proof -
  obtain m' where m': "with_token_mut tid f m = Done m'" "manager_inv m'"
    "contents m' = (contents m)(tid := map_option (\<lambda>(a, i). (a, f i)) (contents m tid))"
    using with_token_mut_ok [where f = f, OF assms(2,3) assms(1)] by blast
  moreover have "alias_map m' = alias_map m" using m'(1) assms(3) by (auto simp: with_token_mut_def)
  ultimately show ?thesis by (simp add: mutate_action_def)
qed

sublocale field_update \<subseteq> act: alias_action "\<lambda>_ :: unit. True" "mutate_action f"
proof unfold_locales
  show "\<exists>ok m'. mutate_action f p tid m = Done (ok, m') \<and> manager_inv m'"
    if "manager_inv m" and "slot (tokens m) tid = Some info" for m tid info and p :: unit
    using mutate_action_ok [of f m tid info p, OF key_f that] by blast
qed

context field_update
begin

text \<open>After the loop exactly the tokens of the listed aliases are updated, and the count is the number of
  list entries that name a stored token.\<close>

lemma loop_contents:
  "manager_inv m \<Longrightarrow>
   \<exists>m'. by_alias_loop (\<lambda>_. True) (mutate_action f) (plain aliases) u n m =
       Done (u + length (filter (\<lambda>a. alias_map m a \<noteq> None) aliases),
             n + length (filter (\<lambda>a. alias_map m a = None) aliases), m') \<and>
     manager_inv m' \<and> alias_map m' = alias_map m \<and>
     (\<forall>tid. contents m' tid = map_option (\<lambda>(a, i). (a, if a \<in> set aliases then f i else i)) (contents m tid))"
proof (induction aliases arbitrary: u n m)
  case Nil
  then show ?case by (simp add: plain_def option.map_ident)
next
  case (Cons a aliases)
  note inv = Cons.prems
  show ?case
  proof (cases "alias_map m a")
    case None
    note no = contents_no_alias [OF inv None]
    have "map_option (\<lambda>(b, i). (b, if b \<in> set (a # aliases) then f i else i)) (contents m tid) =
        map_option (\<lambda>(b, i). (b, if b \<in> set aliases then f i else i)) (contents m tid)" for tid
      using no [of tid] by (cases "contents m tid") auto
    then show ?thesis using Cons.IH [OF inv, of u "n + 1"] None by (simp add: plain_def)
  next
    case (Some t)
    obtain info where ct: "contents m t = Some (a, info)" and s: "slot (tokens m) t = Some info"
      by (rule contents_of_alias [OF inv Some])
    obtain m1 where m1: "mutate_action f () t m = Done (True, m1)" "manager_inv m1" "alias_map m1 = alias_map m"
      "contents m1 = (contents m)(t := map_option (\<lambda>(a, i). (a, f i)) (contents m t))"
      using mutate_action_ok [of f m t info "()", OF key_f inv s] by blast
    have diff: "b \<noteq> a" if "contents m tid = Some (b, i)" and "tid \<noteq> t" for tid b i
      using contents_alias_unique [OF inv _ ct] that by blast
    have "map_option (\<lambda>(b, i). (b, if b \<in> set aliases then f i else i)) (contents m1 tid) =
        map_option (\<lambda>(b, i). (b, if b \<in> set (a # aliases) then f i else i)) (contents m tid)" for tid
    proof (cases "tid = t")
      case True
      then show ?thesis using ct idem_f by (simp add: m1(4))
    next
      case False
      then show ?thesis using diff [OF _ False] by (cases "contents m tid") (auto simp: m1(4))
    qed
    then show ?thesis using Cons.IH [OF m1(2), of "u + 1" n] m1(1,3) Some by (simp add: plain_def)
  qed
qed

end

interpretation st: field_update "set_enabled e" for e
  by unfold_locales (simp_all add: set_enabled_def info_key_def)

interpretation px: field_update "set_proxy p" for p
  by unfold_locales (simp_all add: set_proxy_def info_key_def)

interpretation tz: field_update "set_timezone z" for z
  by unfold_locales (simp_all add: set_timezone_def info_key_def)

interpretation ra: alias_action "\<lambda>_ :: str. True" alias_action_of
proof unfold_locales
  show "\<exists>ok m'. alias_action_of p tid m = Done (ok, m') \<and> manager_inv m'"
    if "manager_inv m" for m tid p
    using manager_set_alias_inv [OF that, of tid p] by (auto simp: alias_action_of_def)
qed

section \<open>Deleting and adding\<close>

lemma delete_loop_ok:
  "manager_inv m \<Longrightarrow>
   \<exists>up failed' h' m'. delete_loop aliases up0 failed h m = Done (up, failed', h', m') \<and> manager_inv m' \<and>
     (\<forall>tid. contents m' tid = (case contents m tid of None \<Rightarrow> None | Some (a, i) \<Rightarrow> if a \<in> set aliases then None else Some (a, i)))"
proof (induction aliases arbitrary: up0 failed h m)
  case Nil
  then show ?case by (auto split: option.splits)
next
  case (Cons a aliases)
  note inv = Cons.prems
  show ?case
  proof (cases "alias_map m a")
    case None
    note no = contents_no_alias [OF inv None]
    obtain up f' h' m' where r: "delete_loop aliases up0 (failed @ [a]) h m = Done (up, f', h', m')" "manager_inv m'"
      "\<And>tid. contents m' tid = (case contents m tid of None \<Rightarrow> None | Some (a, i) \<Rightarrow> if a \<in> set aliases then None else Some (a, i))"
      using Cons.IH [OF inv, of up0 "failed @ [a]" h] by blast
    have "contents m' tid = (case contents m tid of None \<Rightarrow> None
        | Some (b, i) \<Rightarrow> if b \<in> set (a # aliases) then None else Some (b, i))" for tid
      using r(3) [of tid] no [of tid] by (cases "contents m tid") auto
    then show ?thesis using r(1,2) None by auto
  next
    case (Some t)
    obtain info where ct: "contents m t = Some (a, info)" and s: "slot (tokens m) t = Some info"
      by (rule contents_of_alias [OF inv Some])
    obtain h1 m1 where m1: "manager_remove t h m = Done (Some info, h1, m1)" "manager_inv m1"
      "contents m1 = (contents m)(t := None)"
      using manager_remove_ok [OF inv s] by blast
    have diff: "b \<noteq> a" if "contents m tid = Some (b, i)" and "tid \<noteq> t" for tid b i
      using contents_alias_unique [OF inv _ ct] that by blast
    obtain up f' h' m' where r: "delete_loop aliases True failed h1 m1 = Done (up, f', h', m')" "manager_inv m'"
      "\<And>tid. contents m' tid = (case contents m1 tid of None \<Rightarrow> None | Some (a, i) \<Rightarrow> if a \<in> set aliases then None else Some (a, i))"
      using Cons.IH [OF m1(2), of True failed h1] by blast
    have "contents m' tid = (case contents m tid of None \<Rightarrow> None
        | Some (b, i) \<Rightarrow> if b \<in> set (a # aliases) then None else Some (b, i))" for tid
    proof (cases "tid = t")
      case True
      then show ?thesis using r(3) [of tid] ct by (simp add: m1(3))
    next
      case False
      then show ?thesis using r(3) [of tid] diff [OF _ False] by (cases "contents m tid") (auto simp: m1(3))
    qed
    then show ?thesis using r(1,2) m1(1) Some by auto
  qed
qed

lemma manager_add_keys:
  assumes "manager_inv m" "info_key info \<notin> ran (keys_of (tokens m))"
  shows "\<exists>r m'. manager_add info a m = Done (r, m') \<and> manager_inv m' \<and>
    ran (keys_of (tokens m')) \<subseteq> insert (info_key info) (ran (keys_of (tokens m)))"
proof (cases "alias_map m (resolve_alias a (next_id m))")
  case None
  obtain m' where m': "manager_add info a m = Done (Inr (next_id m), m')" "manager_inv m'"
    "keys_of (tokens m') = (keys_of (tokens m))(next_id m \<mapsto> info_key info)"
    using manager_add_ok [OF assms(1) None assms(2)] by blast
  moreover have "ran (keys_of (tokens m')) \<subseteq> insert (info_key info) (ran (keys_of (tokens m)))"
    unfolding m'(3) by (auto simp: ran_def split: if_splits)
  ultimately show ?thesis by blast
next
  case (Some t)
  then show ?thesis using manager_add_exists [of m a info] assms(1) by auto
qed

lemma add_loop_ok:
  "manager_inv m \<Longrightarrow> distinct (map (\<lambda>(i, a). info_key i) xs) \<Longrightarrow>
   \<forall>(i, a) \<in> set xs. info_key i \<notin> ran (keys_of (tokens m)) \<Longrightarrow>
   \<exists>m'. add_loop xs m = Done m' \<and> manager_inv m'"
proof (induction xs arbitrary: m)
  case (Cons x xs)
  obtain info a where x: "x = (info, a)" by (cases x)
  obtain r m1 where m1: "manager_add info a m = Done (r, m1)" "manager_inv m1"
    "ran (keys_of (tokens m1)) \<subseteq> insert (info_key info) (ran (keys_of (tokens m)))"
    using manager_add_keys [OF Cons.prems(1), of info a] Cons.prems(3) x by auto
  have "\<forall>(i, a) \<in> set xs. info_key i \<notin> ran (keys_of (tokens m1))"
  proof clarify
    fix i b assume ib: "(i, b) \<in> set xs" "info_key i \<in> ran (keys_of (tokens m1))"
    have "info_key i \<noteq> info_key info" using Cons.prems(2) x ib(1) by force
    with ib m1(3) Cons.prems(3) show False by auto
  qed
  then show ?case using Cons.IH [OF m1(2)] Cons.prems(2) m1(1) x by auto
qed simp

section \<open>Properties\<close>

text \<open>Setting the status by alias.  On a consistent store the route answers with the number of list entries
  that name a stored token and the number that do not, enables or disables exactly the tokens named, and
  leaves every alias and every other token as it was, also when the file cannot be written.\<close>

theorem set_status_effect:
  assumes "manager_inv m" and "aliases \<noteq> []"
  shows "\<exists>m' u f. handle_set_tokens_status save_ok aliases e m =
      Done (if u > 0 \<and> \<not> save_ok then Inl SaveTokenStatuses else Inr (StatusSet u f), m') \<and>
    u = length (filter (\<lambda>a. alias_map m a \<noteq> None) aliases) \<and> u + f = length aliases \<and> manager_inv m' \<and>
    (\<forall>tid. contents m' tid =
       map_option (\<lambda>(a, i). (a, if a \<in> set aliases then set_enabled e i else i)) (contents m tid))"
proof -
  let ?P = "\<lambda>a. alias_map m a \<noteq> None"
  obtain m' where m': "by_alias_loop (\<lambda>_. True) (mutate_action (set_enabled e)) (plain aliases) 0 0 m =
      Done (length (filter ?P aliases), length (filter (\<lambda>a. alias_map m a = None) aliases), m')" "manager_inv m'"
    "\<forall>tid. contents m' tid = map_option (\<lambda>(a, i). (a, if a \<in> set aliases then set_enabled e i else i)) (contents m tid)"
    using st.loop_contents [OF assms(1), of e aliases 0 0] by auto
  have "length (filter ?P aliases) + length (filter (\<lambda>a. alias_map m a = None) aliases) = length aliases"
    using sum_length_filter_compl [of ?P aliases] by simp
  with m' assms(2) show ?thesis
    by (intro exI [of _ m'] exI [of _ "length (filter ?P aliases)"] exI [of _ "length (filter (\<lambda>a. alias_map m a = None) aliases)"])
      (simp add: handle_set_tokens_status_def finish_def)
qed

theorem set_status_effect_witness:
  "\<exists>m'. handle_set_tokens_status False [bytes_of ''x''] True (manager_new 1) = Done (Inr (StatusSet 0 1), m')"
proof -
  have "alias_map (manager_new 1) a = None" for a by (simp add: manager_new_def)
  then show ?thesis
    using set_status_effect [OF manager_new_inv, of "[bytes_of ''x'']" False True 1] by auto
qed

text \<open>Deleting by alias.  On a consistent store the route always completes and afterwards exactly the entries
  whose alias was listed are gone; all other entries keep their id, alias and token.\<close>

theorem delete_tokens_effect:
  assumes "manager_inv m"
  shows "\<exists>r h' m'. handle_delete_tokens save_ok aliases inc h m = Done (r, h', m') \<and> manager_inv m' \<and>
    (\<forall>tid. contents m' tid =
       (case contents m tid of None \<Rightarrow> None | Some (a, i) \<Rightarrow> if a \<in> set aliases then None else Some (a, i)))"
  using delete_loop_ok [OF assms, of aliases False "[]" h] by (auto simp: handle_delete_tokens_def)

theorem delete_tokens_effect_witness:
  "\<exists>r h' m'. handle_delete_tokens True [bytes_of ''x''] True QUEUE_HEADS (manager_new 1) = Done (r, h', m') \<and> manager_inv m'"
  using delete_tokens_effect [OF manager_new_inv, of True "[bytes_of ''x'']" True QUEUE_HEADS 1] by blast

text \<open>Replacing the store by a list of tokens with pairwise different keys succeeds and leaves a consistent
  store; renaming by alias always does, and counts every request entry once.\<close>

theorem set_tokens_consistent:
  assumes "distinct (map (\<lambda>(a, i). info_key i) request)" and "manager_inv m0"
  shows "(\<exists>r m'. handle_set_tokens save_ok request m = Done (r, m') \<and> manager_inv m') \<and>
    (renames \<noteq> [] \<longrightarrow> (\<exists>u f m'. handle_set_tokens_alias True renames m0 = Done (Inr (AliasesSet u f), m') \<and>
       u + f = length renames \<and> manager_inv m'))"
proof
  let ?xs = "map (\<lambda>(a, i). (i, a)) request"
  have "map (\<lambda>(i, a). info_key i) ?xs = map (\<lambda>(a, i). info_key i) request" by auto
  then have "distinct (map (\<lambda>(i, a). info_key i) ?xs)" using assms(1) by (simp only:)
  moreover have "ran (keys_of (tokens (manager_new n))) = {}" for n
    by (auto simp: ran_def keys_of_def slot_def manager_new_def)
  ultimately obtain m' where "add_loop ?xs (manager_new (length request)) = Done m'" "manager_inv m'"
    using add_loop_ok [OF manager_new_inv, of ?xs "length request"] by blast
  then show "\<exists>r m'. handle_set_tokens save_ok request m = Done (r, m') \<and> manager_inv m'"
    by (simp add: handle_set_tokens_def)
  show "renames \<noteq> [] \<longrightarrow> (\<exists>u f m'. handle_set_tokens_alias True renames m0 = Done (Inr (AliasesSet u f), m') \<and>
      u + f = length renames \<and> manager_inv m')"
    using ra.loop_ok [OF assms(2), of renames 0 0] by (auto simp: handle_set_tokens_alias_def finish_def)
qed

theorem set_tokens_consistent_witness:
  "\<exists>r m'. handle_set_tokens True [(UNNAMED, sample_info 1 True), (UNNAMED, sample_info 2 True)] (manager_new 0) = Done (r, m') \<and>
     manager_inv m'"
  using set_tokens_consistent [of "[(UNNAMED, sample_info 1 True), (UNNAMED, sample_info 2 True)]" "manager_new 0" True "manager_new 0" "[]"]
    manager_new_inv by simp

text \<open>The route that adds tokens compares them with the stored ones only: a token that occurs twice in one
  request is added twice, under the same key.\<close>

theorem add_tokens_keeps_duplicates:
  assumes "ar_token t \<notin> existing" and "parse_raw (src 0) (ar_token t) = Some r" and "parse_raw (src 1) (ar_token t) = Some r"
  shows "\<exists>i j. new_tokens src en existing [t, t] = [(i, request_alias t), (j, request_alias t)] \<and> info_key i = info_key j"
  using assms by (simp add: new_tokens_def map_filter_simps request_info_def info_key_def token_key_of_def)

definition sample_request :: add_request_token where
  "sample_request = \<lparr> ar_alias = None, ar_token = [1], ar_checksum = None, ar_client_key = None,
     ar_config_version = None, ar_session_id = None, ar_proxy = None, ar_timezone = None, ar_gcpp_host = None \<rparr>"

definition sample_sources :: token_sources where
  "sample_sources = \<lparr> parse_raw = (\<lambda>_. Some sample_raw_token), parse_uuid = (\<lambda>_. None), parse_tz = (\<lambda>_. None),
     rng = (\<lambda>_. hash_nil), random_uuid = 0 \<rparr>"

theorem add_tokens_keeps_duplicates_witness:
  "\<exists>i j. new_tokens (\<lambda>_. sample_sources) True {} [sample_request, sample_request] =
     [(i, UNNAMED), (j, UNNAMED)] \<and> info_key i = info_key j"
  using add_tokens_keeps_duplicates [of sample_request "{}" "\<lambda>_. sample_sources" sample_raw_token True]
  by (simp add: sample_sources_def request_alias_def) (simp add: sample_request_def)

text \<open>Refreshing keeps the rule that a secondary token, if present, is a web token.\<close>

theorem get_new_token_secondary_web:
  assumes "\<And>s. secondary_token b = Some s \<Longrightarrow> raw_token_is_web (raw s)"
    and "secondary_token (snd (get_new_token refresh upgrade b)) = Some t"
  shows "raw_token_is_web (raw t)"
  using assms by (auto simp: get_new_token_def Let_def raw_token_is_web_def split: option.splits if_splits)

theorem get_new_token_secondary_web_witness:
  "raw_token_is_web (raw \<lparr> raw = sample_raw_token\<lparr> rt_is_session := False \<rparr>, token_str = [] \<rparr>)"
proof -
  let ?w = "\<lparr> raw = sample_raw_token\<lparr> rt_is_session := False \<rparr>, token_str = [] \<rparr>"
  let ?b = "(info_bundle (sample_info 1 True))\<lparr> primary_token := ?w \<rparr>"
  have "secondary_token (snd (get_new_token (\<lambda>_. None) (\<lambda>_. Some ?w) ?b)) = Some ?w"
    by (simp add: get_new_token_def sample_info_def)
  moreover have "raw_token_is_web (raw s)" if "secondary_token ?b = Some s" for s
    using that by (simp add: sample_info_def)
  ultimately show ?thesis using get_new_token_secondary_web by blast
qed

end
