(* ===== verification/Log_Manager.thy ===== *)
theory Log_Manager
  imports Token_Types
begin

text \<open>
  The request log of \<open>src/app/model/log.rs\<close>, \<open>log/limit.rs\<close>, \<open>log/storage.rs\<close>, \<open>log/command.rs\<close> and
  \<open>log/manager.rs\<close>: an actor that owns a bounded queue of logs and the reference-counted tokens they belong to,
  and serves one command after the other.  \<open>None\<close> stands for a command that never returns, \<open>Panic\<close> for a
  panic of the actor.  Instants are integers (nanoseconds since the epoch), \<open>i32\<close> and \<open>usize\<close> counters
  are words, floating-point numbers their bit patterns; arithmetic on floats is an argument.
\<close>

section \<open>Floating-point numbers\<close>

text \<open>IEEE 754 comparison on bit patterns: false on NaN, sign-magnitude otherwise (so the two zeros are equal).\<close>

definition f64_is_nan :: "f64 \<Rightarrow> bool" where
  "f64_is_nan a \<longleftrightarrow> take_bit 63 a > 0x7FF0000000000000"

definition f64_key :: "f64 \<Rightarrow> int" where
  "f64_key a = (if bit a 63 then - uint (take_bit 63 a) else uint (take_bit 63 a))"

definition f64_lt :: "f64 \<Rightarrow> f64 \<Rightarrow> bool" where
  "f64_lt a b \<longleftrightarrow> \<not> f64_is_nan a \<and> \<not> f64_is_nan b \<and> f64_key a < f64_key b"

record f64_arith =
  f64_mul :: "f64 \<Rightarrow> f64 \<Rightarrow> f64"
  f64_div :: "f64 \<Rightarrow> f64 \<Rightarrow> f64"
  f64_round :: "f64 \<Rightarrow> f64"

definition f64_1000 :: f64 where
  "f64_1000 = 0x408F400000000000"

definition format_time_ms :: "f64_arith \<Rightarrow> f64 \<Rightarrow> f64" where
  "format_time_ms F seconds = f64_div F (f64_round F (f64_mul F seconds f64_1000)) f64_1000"

section \<open>Logs\<close>

datatype log_status = Pending | Success | Failure

record chain_usage =
  cu_input :: i32
  cu_output :: i32
  cu_cache_write :: i32
  cu_cache_read :: i32
  cu_cents :: f32

text \<open>\<open>ChainUsage::total\<close>, wrapping as in a release build.\<close>

definition chain_usage_total :: "chain_usage \<Rightarrow> i32" where
  "chain_usage_total u = cu_input u + cu_output u + cu_cache_read u + cu_cache_write u"

record chain =
  delays :: "(str \<times> (u32 \<times> f32) list) option"
  chain_usage :: "chain_usage option"
  think :: "str option"

definition chain_has_some :: "chain \<Rightarrow> bool" where
  "chain_has_some c \<longleftrightarrow> \<not> (delays c = None \<and> chain_usage c = None \<and> think c = None)"

datatype error_info = ErrEmpty | ErrSimple str | ErrDetailed str str

definition error_info_new :: "str \<Rightarrow> str option \<Rightarrow> error_info" where
  "error_info_new e d = (case d of Some details \<Rightarrow> ErrDetailed e details | None \<Rightarrow> ErrSimple e)"

fun error_contains :: "error_info \<Rightarrow> str \<Rightarrow> bool" where
  "error_contains ErrEmpty pat = False"
| "error_contains (ErrSimple e) pat = str_contains e pat"
| "error_contains (ErrDetailed e d) pat = (str_contains e pat \<or> str_contains d pat)"

definition error_is_some :: "error_info \<Rightarrow> bool" where
  "error_is_some e \<longleftrightarrow> e \<noteq> ErrEmpty"

record log_token_info =
  lt_key :: token_key
  lt_usage :: "usage_profile option"
  lt_user :: "user_profile option"
  lt_stripe :: "stripe_profile option"

record request_log =
  log_id :: u64
  timestamp :: int
  model :: str
  log_token :: log_token_info
  log_chain :: chain
  total_time :: f64
  stream :: bool
  log_status :: log_status
  log_error :: error_info

definition log_key :: "request_log \<Rightarrow> token_key" where
  "log_key l = lt_key (log_token l)"

section \<open>Storage\<close>

record associated_token =
  assoc_token :: ext_token
  ref_count :: u64

record log_manager =
  logs :: "request_log list"
  log_tokens :: "token_key \<Rightarrow> associated_token option"

definition log_manager_new :: log_manager where
  "log_manager_new = \<lparr> logs = [], log_tokens = (\<lambda>_. None) \<rparr>"

definition error_count :: "log_manager \<Rightarrow> nat" where
  "error_count m = length (filter (\<lambda>l. log_status l \<noteq> Success) (logs m))"

definition total_count :: "log_manager \<Rightarrow> nat" where
  "total_count m = length (logs m)"

datatype logs_limit = LimitDisabled | Limited usize

definition limit_from_usize :: "usize \<Rightarrow> logs_limit" where
  "limit_from_usize n = (if n = 0 then LimitDisabled else Limited n)"

fun should_log :: "logs_limit \<Rightarrow> bool" where
  "should_log LimitDisabled = False"
| "should_log (Limited n) = True"

fun get_limit :: "logs_limit \<Rightarrow> usize" where
  "get_limit LimitDisabled = 0"
| "get_limit (Limited n) = n"

section \<open>Commands\<close>

record get_logs_params =
  p_token_key :: "token_key option"
  p_log_status :: "log_status option"
  p_membership :: "membership_type option"
  p_user_id :: "user_id option"
  p_from_date :: "int option"
  p_to_date :: "int option"
  p_email :: "str option"
  p_model :: "str option"
  p_include :: "str list option"
  p_exclude :: "str list option"
  p_stream :: "bool option"
  p_has_chain :: "bool option"
  p_has_error :: "bool option"
  p_error :: "str option"
  p_min_time :: "f64 option"
  p_max_time :: "f64 option"
  p_min_tokens :: "i32 option"
  p_max_tokens :: "i32 option"
  p_reverse :: bool
  p_offset :: usize
  p_limit :: usize

datatype log_update =
    TokenProfile "user_profile option" "usage_profile option" "stripe_profile option"
  | UpFailure error_info
  | UpSuccess
  | Timing f64
  | Failure2 error_info f64
  | Delays "(str \<times> (u32 \<times> f32) list) option" "str option"
  | UpUsage chain_usage
  | TimingChain f64 chain

text \<open>A command that expects an answer says whether its receiver still waits (\<open>oneshot\<close> channels: sending to a
  dropped receiver fails).\<close>

datatype log_command =
    GetLogs get_logs_params bool
  | AddLog request_log ext_token
  | GetNextLogId bool
  | GetToken token_key bool
  | GetTokens "(str \<times> token_key) list" bool
  | CloneToSave bool
  | UpdateLog u64 log_update

section \<open>Filtering\<close>

definition opt_fails :: "'a option \<Rightarrow> ('a \<Rightarrow> bool) \<Rightarrow> bool" where
  "opt_fails p bad \<longleftrightarrow> (case p of None \<Rightarrow> False | Some x \<Rightarrow> bad x)"

text \<open>The tests before and after the one that looks the token up.\<close>

definition rejected_early :: "get_logs_params \<Rightarrow> request_log \<Rightarrow> bool" where
  "rejected_early p l \<longleftrightarrow>
     opt_fails (p_token_key p) (\<lambda>k. log_key l \<noteq> k) \<or>
     opt_fails (p_from_date p) (\<lambda>t. timestamp l < t) \<or>
     opt_fails (p_to_date p) (\<lambda>t. timestamp l > t)"

definition rejected_late :: "get_logs_params \<Rightarrow> request_log \<Rightarrow> bool" where
  "rejected_late p l \<longleftrightarrow>
     opt_fails (p_email p) (\<lambda>e. \<not> (case lt_user (log_token l) of None \<Rightarrow> False
         | Some u \<Rightarrow> (case email u of None \<Rightarrow> False | Some s \<Rightarrow> str_contains s e))) \<or>
     opt_fails (p_membership p) (\<lambda>ms. case lt_stripe (log_token l) of None \<Rightarrow> True
         | Some s \<Rightarrow> membership_type s \<noteq> ms) \<or>
     opt_fails (p_log_status p) (\<lambda>st. log_status l \<noteq> st) \<or>
     opt_fails (p_model p) (\<lambda>s. \<not> str_contains (model l) s) \<or>
     opt_fails (p_include p) (\<lambda>ms. list_all (\<lambda>s. model l \<noteq> s) ms) \<or>
     opt_fails (p_exclude p) (\<lambda>ms. list_ex (\<lambda>s. model l = s) ms) \<or>
     opt_fails (p_stream p) (\<lambda>b. stream l \<noteq> b) \<or>
     opt_fails (p_has_chain p) (\<lambda>b. chain_has_some (log_chain l) \<noteq> b) \<or>
     opt_fails (p_has_error p) (\<lambda>b. error_is_some (log_error l) \<noteq> b) \<or>
     opt_fails (p_error p) (\<lambda>s. \<not> error_contains (log_error l) s) \<or>
     opt_fails (p_min_time p) (\<lambda>t. f64_lt (total_time l) t) \<or>
     opt_fails (p_max_time p) (\<lambda>t. f64_lt t (total_time l)) \<or>
     opt_fails (p_min_tokens p) (\<lambda>n. case chain_usage (log_chain l) of None \<Rightarrow> True
         | Some u \<Rightarrow> chain_usage_total u <s n) \<or>
     opt_fails (p_max_tokens p) (\<lambda>n. case chain_usage (log_chain l) of None \<Rightarrow> True
         | Some u \<Rightarrow> n <s chain_usage_total u)"

definition token_user :: "ext_token \<Rightarrow> user_id" where
  "token_user t = sub_id (rt_subject (raw (primary_token t)))"

definition log_filter :: "get_logs_params \<Rightarrow> (token_key \<Rightarrow> associated_token option) \<Rightarrow> request_log \<Rightarrow> bool outcome" where
  "log_filter p toks l =
     (if rejected_early p l then Done False
      else case p_user_id p of
          None \<Rightarrow> Done (\<not> rejected_late p l)
        | Some u \<Rightarrow> (case toks (log_key l) of
              None \<Rightarrow> Panic
            | Some a \<Rightarrow> Done (token_user (assoc_token a) = u \<and> \<not> rejected_late p l)))"

fun filter_outcome :: "('a \<Rightarrow> bool outcome) \<Rightarrow> 'a list \<Rightarrow> 'a list outcome" where
  "filter_outcome f [] = Done []"
| "filter_outcome f (x # xs) =
     bind_outcome (f x) (\<lambda>b. bind_outcome (filter_outcome f xs) (\<lambda>ys. Done (if b then x # ys else ys)))"

definition page :: "get_logs_params \<Rightarrow> request_log list \<Rightarrow> request_log list" where
  "page p ls = take (p_limit p) (drop (p_offset p) (if p_reverse p then rev ls else ls))"

section \<open>Adding and updating\<close>

definition release_token :: "token_key \<Rightarrow> (token_key \<Rightarrow> associated_token option) \<Rightarrow> (token_key \<Rightarrow> associated_token option)" where
  "release_token k toks =
     (case toks k of
        Some a \<Rightarrow> (if ref_count a - 1 = 0 then toks(k := None) else toks(k \<mapsto> a\<lparr> ref_count := ref_count a - 1 \<rparr>))
      | None \<Rightarrow> toks)"

definition retain_token :: "token_key \<Rightarrow> ext_token \<Rightarrow> (token_key \<Rightarrow> associated_token option) \<Rightarrow>
    (token_key \<Rightarrow> associated_token option)" where
  "retain_token k t toks =
     (case toks k of
        Some a \<Rightarrow> toks(k \<mapsto> \<lparr> assoc_token = t, ref_count = ref_count a + 1 \<rparr>)
      | None \<Rightarrow> toks(k \<mapsto> \<lparr> assoc_token = t, ref_count = 1 \<rparr>))"

text \<open>\<open>while mgr.logs.len() >= limit\<close>: with an empty queue an iteration does nothing.\<close>

partial_function (option) evict :: "usize \<Rightarrow> log_manager \<Rightarrow> log_manager option" where
  "evict limit m =
     (if length (logs m) \<ge> limit
      then case logs m of
          [] \<Rightarrow> evict limit m
        | l # ls \<Rightarrow> evict limit \<lparr> logs = ls, log_tokens = release_token (log_key l) (log_tokens m) \<rparr>
      else Some m)"

definition add_log :: "usize \<Rightarrow> request_log \<Rightarrow> ext_token \<Rightarrow> log_manager \<Rightarrow> log_manager option" where
  "add_log limit l t m =
     (case evict limit m of
        None \<Rightarrow> None
      | Some m' \<Rightarrow> Some \<lparr> logs = logs m' @ [l], log_tokens = retain_token (log_key l) t (log_tokens m') \<rparr>)"

fun apply_update :: "f64_arith \<Rightarrow> log_update \<Rightarrow> request_log \<Rightarrow> request_log" where
  "apply_update F (TokenProfile ur us st) l =
     l\<lparr> log_token := (log_token l)\<lparr> lt_user := ur, lt_usage := us, lt_stripe := st \<rparr> \<rparr>"
| "apply_update F (UpFailure e) l = l\<lparr> log_status := Failure, log_error := e \<rparr>"
| "apply_update F UpSuccess l = l\<lparr> log_status := Success \<rparr>"
| "apply_update F (Timing t) l = l\<lparr> total_time := format_time_ms F t \<rparr>"
| "apply_update F (Failure2 e t) l = l\<lparr> log_status := Failure, log_error := e, total_time := format_time_ms F t \<rparr>"
| "apply_update F (Delays d th) l = l\<lparr> log_chain := (log_chain l)\<lparr> delays := d, think := th \<rparr> \<rparr>"
| "apply_update F (UpUsage u) l = l\<lparr> log_chain := (log_chain l)\<lparr> chain_usage := Some u \<rparr> \<rparr>"
| "apply_update F (TimingChain t c) l = l\<lparr> total_time := format_time_ms F t, log_chain := c \<rparr>"

text \<open>\<open>iter_mut().rev().find(..)\<close>: change the first element from the back that satisfies \<open>P\<close>.\<close>

fun update_first :: "('a \<Rightarrow> bool) \<Rightarrow> ('a \<Rightarrow> 'a) \<Rightarrow> 'a list \<Rightarrow> 'a list" where
  "update_first P f [] = []"
| "update_first P f (x # xs) = (if P x then f x # xs else x # update_first P f xs)"

definition update_log :: "f64_arith \<Rightarrow> u64 \<Rightarrow> log_update \<Rightarrow> log_manager \<Rightarrow> log_manager" where
  "update_log F i ops m =
     m\<lparr> logs := rev (update_first (\<lambda>l. log_id l = i) (apply_update F ops) (rev (logs m))) \<rparr>"

text \<open>\<open>log.id + 1\<close> wraps as in a release build.\<close>

definition next_log_id :: "log_manager \<Rightarrow> u64" where
  "next_log_id m = (if logs m = [] then 1 else log_id (last (logs m)) + 1)"

fun get_tokens_loop :: "(str \<times> token_key) list \<Rightarrow> log_manager \<Rightarrow> (str \<Rightarrow> ext_token option option) \<Rightarrow>
    (str \<Rightarrow> ext_token option option)" where
  "get_tokens_loop [] m acc = acc"
| "get_tokens_loop ((s, k) # rest) m acc =
     get_tokens_loop rest m (acc(s \<mapsto> map_option (\<lambda>a. ext_token_clone (assoc_token a)) (log_tokens m k)))"

section \<open>Persisted form\<close>

datatype error_info_helper = HEmpty | HSimple str | HDetailed str str

fun error_from_helper :: "error_info_helper \<Rightarrow> error_info" where
  "error_from_helper HEmpty = ErrEmpty"
| "error_from_helper (HSimple e) = error_info_new e None"
| "error_from_helper (HDetailed e d) = error_info_new e (Some d)"

fun error_to_helper :: "error_info \<Rightarrow> error_info_helper" where
  "error_to_helper ErrEmpty = HEmpty"
| "error_to_helper (ErrSimple e) = HSimple e"
| "error_to_helper (ErrDetailed e d) = HDetailed e d"

record request_log_helper =
  h_id :: u64
  h_timestamp :: int
  h_model :: str
  h_token_info :: log_token_info
  h_chain :: chain
  h_timing :: f64
  h_stream :: bool
  h_status :: log_status
  h_error :: error_info_helper

definition log_from_helper :: "request_log_helper \<Rightarrow> request_log" where
  "log_from_helper h =
     \<lparr> log_id = h_id h, timestamp = h_timestamp h, model = h_model h, log_token = h_token_info h,
       log_chain = h_chain h, total_time = h_timing h, stream = h_stream h, log_status = h_status h,
       log_error = error_from_helper (h_error h) \<rparr>"

definition log_to_helper :: "request_log \<Rightarrow> request_log_helper" where
  "log_to_helper l =
     \<lparr> h_id = log_id l, h_timestamp = timestamp l, h_model = model l, h_token_info = log_token l,
       h_chain = log_chain l, h_timing = total_time l, h_stream = stream l, h_status = log_status l,
       h_error = error_to_helper (log_error l) \<rparr>"

record associated_token_helper =
  ah_token :: ext_token_helper
  ah_ref_count :: u64

definition assoc_to_helper :: "str list \<Rightarrow> associated_token \<Rightarrow> associated_token_helper" where
  "assoc_to_helper PROVIDERS a = \<lparr> ah_token = ext_token_helper_new PROVIDERS (assoc_token a), ah_ref_count = ref_count a \<rparr>"

definition assoc_from_helper ::
  "str list \<Rightarrow> (raw_token \<Rightarrow> str) \<Rightarrow> (str \<Rightarrow> bool) \<Rightarrow> associated_token_helper \<Rightarrow> associated_token outcome" where
  "assoc_from_helper PROVIDERS print tz_known h =
     bind_outcome (ext_token_extract PROVIDERS print tz_known (ah_token h)) (\<lambda>t.
       Done \<lparr> assoc_token = t, ref_count = ah_ref_count h \<rparr>)"

text \<open>The tokens of the archive, as its list of entries.\<close>

record log_manager_helper =
  lmh_logs :: "request_log_helper list"
  lmh_tokens :: "(token_key \<times> associated_token_helper) list"

fun tokens_from_helper :: "str list \<Rightarrow> (raw_token \<Rightarrow> str) \<Rightarrow> (str \<Rightarrow> bool) \<Rightarrow> (token_key \<times> associated_token_helper) list \<Rightarrow>
    (token_key \<Rightarrow> associated_token option) \<Rightarrow> (token_key \<Rightarrow> associated_token option) outcome" where
  "tokens_from_helper PROVIDERS print tz_known [] acc = Done acc"
| "tokens_from_helper PROVIDERS print tz_known ((k, h) # rest) acc =
     bind_outcome (assoc_from_helper PROVIDERS print tz_known h) (\<lambda>a.
       tokens_from_helper PROVIDERS print tz_known rest (acc(k \<mapsto> a)))"

definition manager_from_helper ::
  "str list \<Rightarrow> (raw_token \<Rightarrow> str) \<Rightarrow> (str \<Rightarrow> bool) \<Rightarrow> log_manager_helper \<Rightarrow> log_manager outcome" where
  "manager_from_helper PROVIDERS print tz_known h =
     bind_outcome (tokens_from_helper PROVIDERS print tz_known (lmh_tokens h) (\<lambda>_. None)) (\<lambda>toks.
       Done \<lparr> logs = map log_from_helper (lmh_logs h), log_tokens = toks \<rparr>)"

text \<open>\<open>ks\<close> is the order in which the hash map of tokens is iterated.\<close>

definition manager_to_helper :: "str list \<Rightarrow> token_key list \<Rightarrow> log_manager \<Rightarrow> log_manager_helper" where
  "manager_to_helper PROVIDERS ks m =
     \<lparr> lmh_logs = map log_to_helper (logs m),
       lmh_tokens = List.map_filter (\<lambda>k. map_option (\<lambda>a. (k, assoc_to_helper PROVIDERS a)) (log_tokens m k)) ks \<rparr>"

section \<open>The actor\<close>

datatype log_reply =
    ReplyLogs nat "request_log list"
  | ReplyId u64
  | ReplyToken "ext_token option"
  | ReplyTokens "str \<Rightarrow> ext_token option option"
  | ReplyHelper log_manager_helper

text \<open>\<open>unwrap!(tx.send(..))\<close>: a receiver that is gone panics the actor.\<close>

definition send :: "bool \<Rightarrow> log_reply \<Rightarrow> log_manager \<Rightarrow> (log_reply option \<times> log_manager) outcome" where
  "send waiting r m = (if waiting then Done (Some r, m) else Panic)"

text \<open>What the actor runs with: the configured limit, float arithmetic, the provider table and the hash map's
  iteration order.\<close>

record log_env =
  env_limit :: logs_limit
  env_f64 :: f64_arith
  env_providers :: "str list"
  env_order :: "log_manager \<Rightarrow> token_key list"

fun handle_command :: "log_env \<Rightarrow> log_command \<Rightarrow> log_manager \<Rightarrow> (log_reply option \<times> log_manager) outcome option" where
  "handle_command E (GetLogs p tx) m =
     Some (bind_outcome (filter_outcome (log_filter p (log_tokens m)) (logs m)) (\<lambda>ls.
       send tx (ReplyLogs (length ls) (page p ls)) m))"
| "handle_command E (AddLog l t) m =
     map_option (\<lambda>m'. Done (None, m')) (add_log (get_limit (env_limit E)) l t m)"
| "handle_command E (GetNextLogId tx) m = Some (send tx (ReplyId (next_log_id m)) m)"
| "handle_command E (GetToken k tx) m =
     Some (send tx (ReplyToken (map_option (\<lambda>a. ext_token_clone (assoc_token a)) (log_tokens m k))) m)"
| "handle_command E (GetTokens ks tx) m = Some (send tx (ReplyTokens (get_tokens_loop ks m (\<lambda>_. None))) m)"
| "handle_command E (CloneToSave tx) m =
     Some (send tx (ReplyHelper (manager_to_helper (env_providers E) (env_order E m) m)) m)"
| "handle_command E (UpdateLog i ops) m = Some (Done (None, update_log (env_f64 E) i ops m))"

text \<open>The receive loop: the commands in the order in which they were queued, with the answers given.\<close>

fun run_actor :: "log_env \<Rightarrow> log_command list \<Rightarrow> log_manager \<Rightarrow> (log_reply option list \<times> log_manager) outcome option" where
  "run_actor E [] m = Some (Done ([], m))"
| "run_actor E (c # cs) m =
     (case handle_command E c m of
        None \<Rightarrow> None
      | Some UB \<Rightarrow> Some UB
      | Some Panic \<Rightarrow> Some Panic
      | Some (Done (r, m')) \<Rightarrow>
          (case run_actor E cs m' of
             Some (Done (rs, m'')) \<Rightarrow> Some (Done (r # rs, m''))
           | bad \<Rightarrow> bad))"

text \<open>\<open>LogManager::load\<close> and \<open>save\<close>, up to the bytes of the archive.\<close>

datatype log_file = FileNotFound | FileIoError | FileTooLarge | FileCorrupt | FileData log_manager_helper

datatype log_load_error = LoadIoError | LoadTooLarge | LoadCorrupt

definition log_load :: "logs_limit \<Rightarrow> str list \<Rightarrow> (raw_token \<Rightarrow> str) \<Rightarrow> (str \<Rightarrow> bool) \<Rightarrow> log_file \<Rightarrow>
    (log_load_error + log_manager) outcome" where
  "log_load lim PROVIDERS print tz_known file =
     (if \<not> should_log lim then Done (Inr log_manager_new)
      else case file of
          FileNotFound \<Rightarrow> Done (Inr log_manager_new)
        | FileIoError \<Rightarrow> Done (Inl LoadIoError)
        | FileTooLarge \<Rightarrow> Done (Inl LoadTooLarge)
        | FileCorrupt \<Rightarrow> Done (Inl LoadCorrupt)
        | FileData h \<Rightarrow> bind_outcome (manager_from_helper PROVIDERS print tz_known h) (\<lambda>m. Done (Inr m)))"

definition log_save :: "log_env \<Rightarrow> log_manager \<Rightarrow> log_manager_helper option" where
  "log_save E m =
     (if \<not> should_log (env_limit E) then None
      else Some (manager_to_helper (env_providers E) (env_order E m) m))"

section \<open>Reference counts\<close>

definition key_count :: "token_key \<Rightarrow> request_log list \<Rightarrow> nat" where
  "key_count k ls = length (filter (\<lambda>l. log_key l = k) ls)"

definition refs :: "(token_key \<Rightarrow> associated_token option) \<Rightarrow> token_key \<Rightarrow> nat" where
  "refs toks k = (case toks k of None \<Rightarrow> 0 | Some a \<Rightarrow> unat (ref_count a))"

definition counted :: "(token_key \<Rightarrow> associated_token option) \<Rightarrow> request_log list \<Rightarrow> bool" where
  "counted toks ls \<longleftrightarrow> refs toks = (\<lambda>k. key_count k ls) \<and> (\<forall>k a. toks k = Some a \<longrightarrow> ref_count a \<noteq> 0)"

definition log_inv :: "log_manager \<Rightarrow> bool" where
  "log_inv m \<longleftrightarrow> length (logs m) < 2 ^ 64 \<and> counted (log_tokens m) (logs m)"

lemma key_count_simps [simp]:
  "key_count k [] = 0"
  "key_count k (l # ls) = (if log_key l = k then Suc (key_count k ls) else key_count k ls)"
  "key_count k (ls @ ls') = key_count k ls + key_count k ls'"
  by (simp_all add: key_count_def)

lemma key_count_le: "key_count k ls \<le> length ls"
  by (simp add: key_count_def)

lemma counted_lookup: "counted toks ls \<Longrightarrow> l \<in> set ls \<Longrightarrow> \<exists>a. toks (log_key l) = Some a"
proof (rule ccontr)
  assume c: "counted toks ls" and l: "l \<in> set ls" and "\<nexists>a. toks (log_key l) = Some a"
  then have "refs toks (log_key l) = 0" by (simp add: refs_def split: option.splits)
  with c have "filter (\<lambda>l'. log_key l' = log_key l) ls = []" by (simp add: counted_def key_count_def)
  with l show False by (auto simp: filter_empty_conv)
qed

lemma counted_release:
  assumes "counted toks (l # ls)"
  shows "counted (release_token (log_key l) toks) ls"
proof -
  obtain a where a: "toks (log_key l) = Some a" using counted_lookup [OF assms] by auto
  have r: "refs toks k = key_count k (l # ls)" for k using assms by (simp add: counted_def)
  have nz: "ref_count a \<noteq> 0" using assms a by (simp add: counted_def)
  have "unat (ref_count a) = Suc (key_count (log_key l) ls)" using r [of "log_key l"] a by (simp add: refs_def)
  then have u: "unat (ref_count a - 1) = key_count (log_key l) ls" using nz by (simp add: unat_minus_one)
  have "refs (release_token (log_key l) toks) k = key_count k ls" for k
  proof (cases "k = log_key l")
    case True
    then show ?thesis using a u by (auto simp: release_token_def refs_def)
  next
    case False
    then show ?thesis using a r [of k] by (simp add: release_token_def refs_def)
  qed
  moreover have "ref_count a' \<noteq> 0" if "release_token (log_key l) toks k = Some a'" for k a'
    using that assms a by (auto simp: release_token_def counted_def split: if_splits)
  ultimately show ?thesis by (auto simp: counted_def)
qed

lemma counted_retain:
  assumes "counted toks ls" and "Suc (length ls) < 2 ^ 64"
  shows "counted (retain_token (log_key l) t toks) (ls @ [l])"
proof -
  have r: "refs toks k = key_count k ls" for k using assms(1) by (simp add: counted_def)
  have succ: "unat (ref_count a + 1) = Suc (unat (ref_count a))" "ref_count a + 1 \<noteq> 0"
    if "toks (log_key l) = Some a" for a
  proof -
    have "unat (ref_count a) \<le> length ls" using that r [of "log_key l"] key_count_le [of "log_key l" ls]
      by (simp add: refs_def)
    with assms(2) have "Suc (unat (ref_count a)) < 2 ^ 64" by linarith
    then show "unat (ref_count a + 1) = Suc (unat (ref_count a))" by (simp add: unat_word_ariths)
    then show "ref_count a + 1 \<noteq> 0" by (metis nat.distinct(1) unsigned_0)
  qed
  have "refs (retain_token (log_key l) t toks) k = key_count k (ls @ [l])" for k
    using r [of k] succ by (auto simp: retain_token_def refs_def split: option.splits)
  moreover have "ref_count a' \<noteq> 0" if "retain_token (log_key l) t toks k = Some a'" for k a'
    using that assms(1) succ(2) by (auto simp: retain_token_def counted_def split: option.splits if_splits)
  ultimately show ?thesis by (auto simp: counted_def)
qed

section \<open>Eviction\<close>

lemma evict_ok:
  assumes "0 < limit" and "counted (log_tokens m) (logs m)"
  shows "\<exists>m'. evict limit m = Some m' \<and> counted (log_tokens m') (logs m') \<and>
    logs m' = drop (Suc (length (logs m)) - limit) (logs m)"
  using assms(2)
proof (induction "length (logs m)" arbitrary: m)
  case 0
  then show ?case using assms(1) by (subst evict.simps) simp
next
  case (Suc n)
  show ?case
  proof (cases "length (logs m) \<ge> limit")
    case True
    obtain l ls where ls: "logs m = l # ls" using Suc.hyps(2) by (cases "logs m") auto
    let ?m = "\<lparr> logs = ls, log_tokens = release_token (log_key l) (log_tokens m) \<rparr>"
    have "counted (log_tokens ?m) (logs ?m)" using counted_release Suc.prems ls by simp
    moreover have "n = length (logs ?m)" using Suc.hyps(2) ls by simp
    ultimately obtain m' where m': "evict limit ?m = Some m'" "counted (log_tokens m') (logs m')"
      "logs m' = drop (Suc (length (logs ?m)) - limit) (logs ?m)" using Suc.hyps(1) by blast
    have "evict limit m = evict limit ?m" using True ls by (subst evict.simps) simp
    moreover have "Suc (length (logs m)) - limit = Suc (Suc (length ls) - limit)"
      using True ls by (simp add: Suc_diff_le)
    ultimately show ?thesis using m' ls by simp
  next
    case False
    then show ?thesis using Suc.prems by (subst evict.simps) simp
  qed
qed

lemma evict_returns_below: "evict limit m = Some m' \<Longrightarrow> length (logs m') < limit"
  by (erule evict.raw_induct [rotated]) (auto split: if_splits list.splits)

lemma add_log_ok:
  assumes "0 < limit" and "limit < 2 ^ 64" and "log_inv m"
  shows "\<exists>m'. add_log limit l t m = Some m' \<and> log_inv m' \<and>
    logs m' = drop (Suc (length (logs m)) - limit) (logs m) @ [l] \<and>
    map_option assoc_token (log_tokens m' (log_key l)) = Some t"
proof -
  obtain m1 where m1: "evict limit m = Some m1" "counted (log_tokens m1) (logs m1)"
    "logs m1 = drop (Suc (length (logs m)) - limit) (logs m)"
    using evict_ok [OF assms(1), of m] assms(3) unfolding log_inv_def by blast
  have "Suc (length (logs m1)) < 2 ^ 64" using evict_returns_below [OF m1(1)] assms(2) by linarith
  from counted_retain [OF m1(2) this, of l t] this
  have "log_inv \<lparr> logs = logs m1 @ [l], log_tokens = retain_token (log_key l) t (log_tokens m1) \<rparr>"
    by (simp add: log_inv_def)
  then show ?thesis using m1 by (simp add: add_log_def retain_token_def split: option.splits)
qed

section \<open>Every command\<close>

definition log_ok :: "get_logs_params \<Rightarrow> log_manager \<Rightarrow> request_log \<Rightarrow> bool" where
  "log_ok p m l \<longleftrightarrow> \<not> rejected_early p l \<and> \<not> rejected_late p l \<and>
     (case p_user_id p of None \<Rightarrow> True
      | Some u \<Rightarrow> map_option (\<lambda>a. token_user (assoc_token a)) (log_tokens m (log_key l)) = Some u)"

lemma filter_outcome_ok: "(\<And>x. x \<in> set xs \<Longrightarrow> f x = Done (P x)) \<Longrightarrow> filter_outcome f xs = Done (filter P xs)"
  by (induction xs) auto

lemma log_filter_ok:
  assumes "log_inv m" and "l \<in> set (logs m)"
  shows "log_filter p (log_tokens m) l = Done (log_ok p m l)"
proof -
  obtain a where "log_tokens m (log_key l) = Some a"
    using counted_lookup [of "log_tokens m" "logs m" l] assms unfolding log_inv_def by blast
  then show ?thesis by (auto simp: log_filter_def log_ok_def split: option.splits)
qed

lemma filter_logs_ok: "log_inv m \<Longrightarrow> filter_outcome (log_filter p (log_tokens m)) (logs m) = Done (filter (log_ok p m) (logs m))"
  by (rule filter_outcome_ok) (rule log_filter_ok)

lemma apply_update_key [simp]: "log_key (apply_update F ops l) = log_key l" "log_id (apply_update F ops l) = log_id l"
  by (cases ops; simp add: log_key_def)+

lemma update_first_split: "P x \<Longrightarrow> \<forall>y\<in>set xs. \<not> P y \<Longrightarrow> update_first P f (xs @ x # ys) = xs @ f x # ys"
  by (induction xs) auto

lemma update_first_none: "\<forall>y\<in>set xs. \<not> P y \<Longrightarrow> update_first P f xs = xs"
  by (induction xs) auto

lemma update_first_map: "(\<And>x. g (f x) = g x) \<Longrightarrow> map g (update_first P f xs) = map g xs"
  by (induction xs) auto

lemma key_count_map: "map log_key ls = map log_key ls' \<Longrightarrow> key_count k ls = key_count k ls'"
proof -
  have "key_count k xs = length (filter (\<lambda>x. x = k) (map log_key xs))" for xs
    by (simp add: key_count_def filter_map comp_def)
  then show "map log_key ls = map log_key ls' \<Longrightarrow> key_count k ls = key_count k ls'" by metis
qed

lemma update_log_keys: "map log_key (logs (update_log F i ops m)) = map log_key (logs m)"
  by (simp add: update_log_def rev_map [symmetric] update_first_map)

lemma update_log_inv: "log_inv m \<Longrightarrow> log_inv (update_log F i ops m)"
  using key_count_map [OF update_log_keys] map_eq_imp_length_eq [OF update_log_keys, of F i ops m]
  by (simp add: log_inv_def counted_def) (simp add: update_log_def)

fun waiting :: "log_command \<Rightarrow> bool" where
  "waiting (GetLogs p tx) = tx"
| "waiting (AddLog l t) = True"
| "waiting (GetNextLogId tx) = tx"
| "waiting (GetToken k tx) = tx"
| "waiting (GetTokens ks tx) = tx"
| "waiting (CloneToSave tx) = tx"
| "waiting (UpdateLog i ops) = True"

text \<open>Logging is on, and the limit is a \<open>usize\<close>.\<close>

definition env_ok :: "log_env \<Rightarrow> bool" where
  "env_ok E \<longleftrightarrow> 0 < get_limit (env_limit E) \<and> get_limit (env_limit E) < 2 ^ 64"

lemma handle_command_ok:
  assumes "env_ok E" and "log_inv m" and "waiting c"
  shows "\<exists>r m'. handle_command E c m = Some (Done (r, m')) \<and> log_inv m'"
proof (cases c)
  case (GetLogs p tx)
  with assms show ?thesis by (simp add: filter_logs_ok send_def)
next
  case (AddLog l t)
  with assms show ?thesis using add_log_ok [of "get_limit (env_limit E)" m l t] by (auto simp: env_ok_def)
next
  case (UpdateLog i ops)
  with assms show ?thesis by (simp add: update_log_inv)
qed (use assms in \<open>simp_all add: send_def\<close>)

inductive log_step :: "log_env \<times> log_manager \<Rightarrow> log_env \<times> log_manager \<Rightarrow> bool" where
  "handle_command E c m = Some (Done (r, m')) \<Longrightarrow> log_step (E, m) (E, m')"

inductive_cases log_stepE: "log_step s s'"

lemma handle_command_inv:
  assumes "env_ok E" and "log_inv m" and "handle_command E c m = Some (Done (r, m'))"
  shows "log_inv m'"
proof -
  have "waiting c" using assms by (cases c) (auto simp: send_def filter_logs_ok split: if_splits)
  then show ?thesis using handle_command_ok [OF assms(1,2)] assms(3) by fastforce
qed

lemma log_manager_new_inv: "log_inv log_manager_new"
  by (simp add: log_inv_def log_manager_new_def counted_def refs_def fun_eq_iff)

definition within_limit :: "log_env \<Rightarrow> log_manager \<Rightarrow> bool" where
  "within_limit E m \<longleftrightarrow> length (logs m) \<le> get_limit (env_limit E)"

lemma handle_command_within_limit:
  assumes "within_limit E m" and "handle_command E c m = Some (Done (r, m'))"
  shows "within_limit E m'"
proof (cases c)
  case (AddLog l t)
  with assms(2) obtain m1 where "evict (get_limit (env_limit E)) m = Some m1" "logs m' = logs m1 @ [l]"
    by (auto simp: add_log_def split: option.splits)
  then show ?thesis using evict_returns_below by (simp add: within_limit_def Suc_leI)
next
  case (GetLogs p tx)
  with assms show ?thesis by (auto simp: bind_outcome_Done_iff send_def split: if_splits)
next
  case (UpdateLog i ops)
  with assms map_eq_imp_length_eq [OF update_log_keys] show ?thesis by (auto simp: within_limit_def)
qed (use assms in \<open>auto simp: send_def split: if_splits\<close>)

interpretation lg: state_machine "\<lambda>(E, m). env_ok E \<and> m = log_manager_new" log_step
  "\<lambda>(E, m). env_ok E \<and> log_inv m \<and> within_limit E m"
proof (unfold_locales, goal_cases)
  case (1 s)
  then show ?case by (auto simp: log_manager_new_inv within_limit_def) (simp add: log_manager_new_def)
next
  case (2 s s')
  then show ?case by (auto elim!: log_stepE intro: handle_command_inv handle_command_within_limit)
qed

lemma run_actor_steps: "run_actor E cs m = Some (Done (rs, m')) \<Longrightarrow> log_step\<^sup>*\<^sup>* (E, m) (E, m')"
proof (induction cs arbitrary: m rs)
  case (Cons c cs)
  then obtain r m1 rs' where h: "handle_command E c m = Some (Done (r, m1))"
    and "run_actor E cs m1 = Some (Done (rs', m'))"
    by (auto split: option.splits outcome.splits)
  with Cons.IH have "log_step\<^sup>*\<^sup>* (E, m1) (E, m')" by blast
  with log_step.intros [OF h] show ?case by (rule converse_rtranclp_into_rtranclp)
qed simp

lemma run_actor_ok:
  assumes "env_ok E" and "log_inv m" and "list_all waiting cs"
  shows "\<exists>rs m'. run_actor E cs m = Some (Done (rs, m')) \<and> log_inv m' \<and> length rs = length cs"
  using assms(2,3)
proof (induction cs arbitrary: m)
  case (Cons c cs)
  then obtain r m1 where h: "handle_command E c m = Some (Done (r, m1))" "log_inv m1"
    using handle_command_ok [OF assms(1)] by fastforce
  with Cons obtain rs m' where "run_actor E cs m1 = Some (Done (rs, m'))" "log_inv m'" "length rs = length cs"
    by fastforce
  with h show ?case by simp
qed simp

lemma counted_domain: "counted toks ls \<Longrightarrow> dom toks = log_key ` set ls"
proof (intro equalityI subsetI)
  fix k assume c: "counted toks ls" and "k \<in> dom toks"
  then obtain a where a: "toks k = Some a" "ref_count a \<noteq> 0" by (auto simp: counted_def)
  have "refs toks k = key_count k ls" using c by (simp add: counted_def)
  then have "key_count k ls = unat (ref_count a)" using a(1) by (simp add: refs_def)
  then have "key_count k ls \<noteq> 0" using a(2) by (simp add: unsigned_eq_0_iff)
  then show "k \<in> log_key ` set ls" by (auto simp: key_count_def filter_empty_conv)
next
  fix k assume "counted toks ls" and "k \<in> log_key ` set ls"
  then show "k \<in> dom toks" using counted_lookup by blast
qed

section \<open>What the actor guarantees\<close>

definition sample_log :: "u64 \<Rightarrow> u64 \<Rightarrow> request_log" where
  "sample_log i n =
     \<lparr> log_id = i, timestamp = 0, model = bytes_of ''m'',
       log_token = \<lparr> lt_key = info_key (sample_info n True), lt_usage = None, lt_user = None, lt_stripe = None \<rparr>,
       log_chain = \<lparr> delays = None, chain_usage = None, think = None \<rparr>, total_time = 0, stream = False,
       log_status = Pending, log_error = ErrEmpty \<rparr>"

definition sample_env :: "usize \<Rightarrow> log_env" where
  "sample_env n =
     \<lparr> env_limit = limit_from_usize n,
       env_f64 = \<lparr> f64_mul = (\<lambda>a b. a), f64_div = (\<lambda>a b. a), f64_round = (\<lambda>a. a) \<rparr>,
       env_providers = DEFAULT_PROVIDERS, env_order = (\<lambda>m. map log_key (logs m)) \<rparr>"

lemma sample_env_ok: "env_ok (sample_env 2)"
  by (simp add: env_ok_def sample_env_def limit_from_usize_def)

text \<open>C10: the log actor does not fail.  Started empty with a limit above zero, it answers every sequence of commands
  whose receivers still wait when the answer is sent, never panics and never loops; the queue stays within the limit, and the associated
  tokens are those of the logs kept, each counted as often as it occurs.\<close>

theorem log_actor_safe:
  assumes "env_ok E" and "list_all waiting cs"
  shows "\<exists>rs m. run_actor E cs log_manager_new = Some (Done (rs, m)) \<and> length rs = length cs \<and>
    length (logs m) \<le> get_limit (env_limit E) \<and> dom (log_tokens m) = log_key ` set (logs m) \<and>
    refs (log_tokens m) = (\<lambda>k. key_count k (logs m))"
proof -
  obtain rs m where r: "run_actor E cs log_manager_new = Some (Done (rs, m))" "length rs = length cs"
    using run_actor_ok [OF assms(1) log_manager_new_inv assms(2)] by blast
  have "log_inv m \<and> within_limit E m" using lg.reachable_inv [OF _ run_actor_steps [OF r(1)]] assms(1) by simp
  then have "counted (log_tokens m) (logs m)" "length (logs m) \<le> get_limit (env_limit E)"
    by (simp_all add: log_inv_def within_limit_def)
  then show ?thesis using r counted_domain by (auto simp: counted_def)
qed

theorem log_actor_safe_witness:
  "\<exists>rs m. run_actor (sample_env 2) [AddLog (sample_log 1 7) (info_bundle (sample_info 7 True)), GetNextLogId True]
       log_manager_new = Some (Done (rs, m)) \<and> length (logs m) \<le> 2"
  using log_actor_safe [OF sample_env_ok,
      of "[AddLog (sample_log 1 7) (info_bundle (sample_info 7 True)), GetNextLogId True]"]
  by (fastforce simp: sample_env_def limit_from_usize_def)

text \<open>C11: with a limit above zero, adding a log ends and keeps a window of the most recent ones.  The oldest logs beyond the limit go, the new one
  is last, its token is the one given, and a token goes exactly when its last log does.\<close>

theorem add_log_window:
  assumes "env_ok E" and "log_inv m"
  shows "\<exists>m'. handle_command E (AddLog l t) m = Some (Done (None, m')) \<and> log_inv m' \<and>
    logs m' = drop (Suc (length (logs m)) - get_limit (env_limit E)) (logs m) @ [l] \<and>
    length (logs m') \<le> get_limit (env_limit E) \<and>
    map_option assoc_token (log_tokens m' (log_key l)) = Some t \<and>
    dom (log_tokens m') = log_key ` set (logs m')"
proof -
  obtain m' where m': "add_log (get_limit (env_limit E)) l t m = Some m'" "log_inv m'"
    "logs m' = drop (Suc (length (logs m)) - get_limit (env_limit E)) (logs m) @ [l]"
    "map_option assoc_token (log_tokens m' (log_key l)) = Some t"
    using add_log_ok [of "get_limit (env_limit E)" m l t] assms by (auto simp: env_ok_def)
  moreover have "length (logs m') \<le> get_limit (env_limit E)" using m'(3) assms(1) by (auto simp: env_ok_def)
  moreover have "dom (log_tokens m') = log_key ` set (logs m')" using m'(2) counted_domain by (auto simp: log_inv_def)
  ultimately show ?thesis by simp
qed

theorem add_log_window_witness:
  "\<exists>m'. handle_command (sample_env 2) (AddLog (sample_log 1 7) (info_bundle (sample_info 7 True))) log_manager_new =
     Some (Done (None, m')) \<and> logs m' = [sample_log 1 7]"
  using add_log_window [OF sample_env_ok log_manager_new_inv, of "sample_log 1 7"] by (fastforce simp: log_manager_new_def)

text \<open>With logging off (limit 0) adding a log never returns, whatever the state; only the callers' test of
  \<open>is_enabled\<close> keeps the actor from it.\<close>

theorem add_log_disabled_diverges:
  "handle_command (E\<lparr> env_limit := limit_from_usize 0 \<rparr>) (AddLog l t) m = None"
  using evict_returns_below [of 0 m] by (cases "evict 0 m") (auto simp: add_log_def limit_from_usize_def)

text \<open>Queries.  The answer has the number of logs that pass every given test, and the requested page of
  them, oldest first or, reversed, newest first; the state does not change.\<close>

theorem get_logs_exact:
  assumes "log_inv m"
  shows "handle_command E (GetLogs p True) m =
    Some (Done (Some (ReplyLogs (length (filter (log_ok p m) (logs m))) (page p (filter (log_ok p m) (logs m)))), m))"
  using assms by (simp add: filter_logs_ok send_def)

theorem get_logs_exact_witness:
  "log_inv log_manager_new \<and>
   (\<exists>p. handle_command (sample_env 2) (GetLogs p True) log_manager_new = Some (Done (Some (ReplyLogs 0 []), log_manager_new)))"
proof -
  have "logs log_manager_new = []" by (simp add: log_manager_new_def)
  then show ?thesis
    using get_logs_exact [OF log_manager_new_inv, of "sample_env 2"] log_manager_new_inv
    by (simp add: page_def send_def del: handle_command.simps)
qed

text \<open>An update reaches exactly the newest log with its id and no other log, no id and no token changes; an
  unknown id changes nothing.\<close>

theorem update_log_newest:
  "(log_id l = i \<and> i \<notin> log_id ` set ys \<longrightarrow>
     handle_command E (UpdateLog i ops) \<lparr> logs = xs @ l # ys, log_tokens = toks \<rparr> =
       Some (Done (None, \<lparr> logs = xs @ apply_update (env_f64 E) ops l # ys, log_tokens = toks \<rparr>))) \<and>
   (i \<notin> log_id ` set (logs m) \<longrightarrow> handle_command E (UpdateLog i ops) m = Some (Done (None, m)))"
proof (intro conjI impI)
  assume "log_id l = i \<and> i \<notin> log_id ` set ys"
  then have "update_first (\<lambda>l. log_id l = i) (apply_update (env_f64 E) ops) (rev ys @ l # rev xs) =
    rev ys @ apply_update (env_f64 E) ops l # rev xs" by (intro update_first_split) (simp, metis imageI set_rev)
  then show "handle_command E (UpdateLog i ops) \<lparr> logs = xs @ l # ys, log_tokens = toks \<rparr> =
      Some (Done (None, \<lparr> logs = xs @ apply_update (env_f64 E) ops l # ys, log_tokens = toks \<rparr>))"
    by (simp add: update_log_def)
next
  assume "i \<notin> log_id ` set (logs m)"
  then have "update_first (\<lambda>l. log_id l = i) (apply_update (env_f64 E) ops) (rev (logs m)) = rev (logs m)"
    by (intro update_first_none) (metis imageI set_rev)
  then show "handle_command E (UpdateLog i ops) m = Some (Done (None, m))" by (simp add: update_log_def)
qed

theorem update_log_newest_witness:
  "handle_command (sample_env 2) (UpdateLog 1 UpSuccess) \<lparr> logs = [sample_log 1 7, sample_log 2 7], log_tokens = (\<lambda>_. None) \<rparr> =
     Some (Done (None, \<lparr> logs = [(sample_log 1 7)\<lparr> log_status := Success \<rparr>, sample_log 2 7], log_tokens = (\<lambda>_. None) \<rparr>)) \<and>
   handle_command (sample_env 2) (UpdateLog 5 UpSuccess) log_manager_new = Some (Done (None, log_manager_new))"
proof -
  have "log_id (sample_log 1 7) = 1 \<and> 1 \<notin> log_id ` set [sample_log 2 7]"
    "5 \<notin> log_id ` set (logs log_manager_new)"
    by (simp_all add: sample_log_def log_manager_new_def)
  then show ?thesis
    using update_log_newest [of "sample_log 1 7" 1 "[sample_log 2 7]" "sample_env 2" UpSuccess "[]" "\<lambda>_. None" log_manager_new]
      update_log_newest [of "sample_log 1 7" 1 "[sample_log 2 7]" "sample_env 2" UpSuccess "[]" "\<lambda>_. None" log_manager_new]
      update_log_newest [of "sample_log 1 7" 5 "[]" "sample_env 2" UpSuccess "[]" "\<lambda>_. None" log_manager_new]
    by simp
qed

text \<open>Asking for an id and adding the log are two commands.  Of two requests that interleave, both get the
  same id, and an update for the first lands in the log of the second.\<close>

theorem interleaved_ids_collide:
  assumes "env_ok E" and "1 < get_limit (env_limit E)" and "log_inv m"
    and "log_id l1 = next_log_id m" and "log_id l2 = next_log_id m"
  shows "\<exists>m'. run_actor E [GetNextLogId True, GetNextLogId True, AddLog l1 t1, AddLog l2 t2,
      UpdateLog (next_log_id m) ops] m =
      Some (Done ([Some (ReplyId (next_log_id m)), Some (ReplyId (next_log_id m)), None, None, None], m')) \<and>
    (\<exists>ls. logs m' = ls @ [l1, apply_update (env_f64 E) ops l2])"
proof -
  let ?n = "get_limit (env_limit E)"
  have n: "0 < ?n" "?n < 2 ^ 64" using assms(1) by (simp_all add: env_ok_def)
  obtain m1 where m1: "add_log ?n l1 t1 m = Some m1" "log_inv m1"
    "logs m1 = drop (Suc (length (logs m)) - ?n) (logs m) @ [l1]"
    using add_log_ok [OF n assms(3), of l1 t1] by blast
  obtain m2 where m2: "add_log ?n l2 t2 m1 = Some m2"
    "logs m2 = drop (Suc (length (logs m1)) - ?n) (logs m1) @ [l2]"
    using add_log_ok [OF n m1(2), of l2 t2] by blast
  have "Suc (length (logs m1)) - ?n \<le> length (drop (Suc (length (logs m)) - ?n) (logs m))"
    using m1(3) assms(2) by simp
  then obtain ls where ls: "logs m2 = ls @ [l1, l2]" using m2(2) m1(3) by simp
  have "update_first (\<lambda>l. log_id l = next_log_id m) f (rev (logs m2)) = f l2 # l1 # rev ls" for f
    using ls assms(5) by simp
  then show ?thesis using m1(1) m2(1) by (simp add: send_def update_log_def)
qed

theorem interleaved_ids_collide_witness:
  "\<exists>rs m' ls. run_actor (sample_env 2) [GetNextLogId True, GetNextLogId True,
      AddLog (sample_log 1 7) (info_bundle (sample_info 7 True)),
      AddLog (sample_log 1 8) (info_bundle (sample_info 8 True)), UpdateLog 1 UpSuccess] log_manager_new =
      Some (Done (rs, m')) \<and>
    logs m' = ls @ [sample_log 1 7, (sample_log 1 8)\<lparr> log_status := Success \<rparr>]"
proof -
  have n: "next_log_id log_manager_new = 1" by (simp add: next_log_id_def log_manager_new_def)
  have i: "log_id (sample_log 1 k) = next_log_id log_manager_new" for k by (simp add: sample_log_def n)
  have "1 < get_limit (env_limit (sample_env 2))" by (simp add: sample_env_def limit_from_usize_def)
  from interleaved_ids_collide [OF sample_env_ok this log_manager_new_inv i [of 7] i [of 8], of _ _ UpSuccess]
  show ?thesis unfolding n by (simp del: run_actor.simps) blast
qed

text \<open>A caller that goes away while it waits (a client that disconnects) takes the actor with it: the answer
  cannot be sent, the actor panics, and no later command is served.\<close>

theorem dropped_receiver_stops_actor:
  assumes "env_ok E" and "log_inv m" and "list_all waiting before" and "\<not> waiting c"
  shows "run_actor E (before @ c # later) m = Some Panic"
  using assms(2,3)
proof (induction before arbitrary: m)
  case Nil
  then show ?case using assms(4) by (cases c) (auto simp: filter_logs_ok send_def)
next
  case (Cons b before)
  then obtain r m1 where "handle_command E b m = Some (Done (r, m1))" "log_inv m1"
    using handle_command_ok [OF assms(1)] by fastforce
  with Cons show ?case by simp
qed

theorem dropped_receiver_stops_actor_witness:
  "run_actor (sample_env 2) [AddLog (sample_log 1 7) (info_bundle (sample_info 7 True)), GetNextLogId False,
     GetNextLogId True] log_manager_new = Some Panic"
  using dropped_receiver_stops_actor [OF sample_env_ok log_manager_new_inv,
      of "[AddLog (sample_log 1 7) (info_bundle (sample_info 7 True))]" "GetNextLogId False" "[GetNextLogId True]"]
  by (simp del: run_actor.simps)

section \<open>Saving and loading\<close>

lemma log_helper_roundtrip: "log_from_helper (log_to_helper l) = l"
  by (cases "log_error l"; cases l) (simp_all add: log_from_helper_def log_to_helper_def error_info_new_def)

lemma tokens_helper_roundtrip:
  assumes "\<And>k a. toks k = Some a \<Longrightarrow> wf_bundle PROVIDERS print tz_known (assoc_token a)"
  shows "tokens_from_helper PROVIDERS print tz_known
      (List.map_filter (\<lambda>k. map_option (\<lambda>a. (k, assoc_to_helper PROVIDERS a)) (toks k)) ks) acc =
    Done (\<lambda>k. if k \<in> set ks \<and> toks k \<noteq> None then toks k else acc k)"
proof (induction ks arbitrary: acc)
  case (Cons k ks)
  show ?case
  proof (cases "toks k")
    case None
    then show ?thesis using Cons by (auto simp: fun_eq_iff)
  next
    case (Some a)
    have "assoc_from_helper PROVIDERS print tz_known (assoc_to_helper PROVIDERS a) = Done a"
      using ext_token_extract_new [OF assms [OF Some]] by (simp add: assoc_from_helper_def assoc_to_helper_def)
    then show ?thesis using Cons Some by (auto simp: fun_eq_iff)
  qed
qed (simp add: map_filter_def)

text \<open>Saving and loading the log.  Whatever order the hash map of tokens is written in, loading the saved
  archive gives back the same logs and tokens.\<close>

theorem log_save_load_roundtrip:
  assumes "should_log (env_limit E)" and "set (env_order E m) = dom (log_tokens m)"
    and "\<And>k a. log_tokens m k = Some a \<Longrightarrow> wf_bundle (env_providers E) print tz_known (assoc_token a)"
  shows "\<exists>h. log_save E m = Some h \<and>
    log_load (env_limit E) (env_providers E) print tz_known (FileData h) = Done (Inr m)"
proof -
  have "(\<lambda>k. if k \<in> dom (log_tokens m) \<and> log_tokens m k \<noteq> None then log_tokens m k else None) = log_tokens m"
    by (rule ext) (simp add: domIff)
  then have "manager_from_helper (env_providers E) print tz_known
      (manager_to_helper (env_providers E) (env_order E m) m) = Done m"
    using tokens_helper_roundtrip [of "log_tokens m" "env_providers E" print tz_known "env_order E m" "\<lambda>_. None",
        OF assms(3)] assms(2)
    by (simp add: manager_from_helper_def manager_to_helper_def comp_def log_helper_roundtrip)
  then show ?thesis using assms(1) by (simp add: log_save_def log_load_def)
qed

definition sample_manager :: log_manager where
  "sample_manager = \<lparr> logs = [sample_log 1 7], log_tokens =
     (\<lambda>_. None)(info_key (sample_info 7 True) \<mapsto> \<lparr> assoc_token = info_bundle (sample_info 7 True), ref_count = 1 \<rparr>) \<rparr>"

lemma sample_bundle_wf: "wf_bundle DEFAULT_PROVIDERS (\<lambda>_. []) (\<lambda>_. True) (info_bundle (sample_info n en))"
  by (simp add: wf_bundle_def wf_token_def sample_info_def wf_provider_def provider_as_str_def DEFAULT_PROVIDERS_def)

theorem log_save_load_roundtrip_witness:
  "\<exists>h. log_save (sample_env 2) sample_manager = Some h \<and>
     log_load (Limited 2) DEFAULT_PROVIDERS (\<lambda>_. []) (\<lambda>_. True) (FileData h) = Done (Inr sample_manager)"
proof -
  have e: "env_limit (sample_env 2) = Limited 2" "env_providers (sample_env 2) = DEFAULT_PROVIDERS"
    by (simp_all add: sample_env_def limit_from_usize_def)
  have "set (env_order (sample_env 2) sample_manager) = dom (log_tokens sample_manager)"
    by (simp add: sample_env_def sample_manager_def sample_log_def log_key_def)
  moreover have "wf_bundle (env_providers (sample_env 2)) (\<lambda>_. []) (\<lambda>_. True) (assoc_token a)"
    if "log_tokens sample_manager k = Some a" for k a
    using that by (auto simp: e sample_manager_def sample_bundle_wf split: if_splits)
  ultimately show ?thesis
    using log_save_load_roundtrip [of "sample_env 2" sample_manager "\<lambda>_. []" "\<lambda>_. True"] unfolding e by fastforce
qed

end
