(* ===== verification/Log_Routes.thy ===== *)
theory Log_Routes
  imports Log_Manager
begin

text \<open>
  The log routes of \<open>src/core/route/logs.rs\<close>: authorisation, reading of the query, the command to the actor and
  the answer.  \<open>header\<close> is the authorisation header if it is present and printable, \<open>AUTH_TOKEN\<close> the
  administrator's token, and \<open>dynamic_key\<close> the key that a dynamic token (a decoded and validated
  configuration) stands for.
\<close>

section \<open>Text forms of the query\<close>

fun log_status_as_str_name :: "log_status \<Rightarrow> str" where
  "log_status_as_str_name Pending = bytes_of ''pending''"
| "log_status_as_str_name Success = bytes_of ''success''"
| "log_status_as_str_name Failure = bytes_of ''failure''"

definition log_status_from_str_name :: "str \<Rightarrow> log_status option" where
  "log_status_from_str_name s =
     (if s = bytes_of ''pending'' then Some Pending
      else if s = bytes_of ''success'' then Some Success
      else if s = bytes_of ''failure'' then Some Failure
      else None)"

fun membership_as_str :: "membership_type \<Rightarrow> str" where
  "membership_as_str Free = bytes_of ''free''"
| "membership_as_str FreeTrial = bytes_of ''free_trial''"
| "membership_as_str Pro = bytes_of ''pro''"
| "membership_as_str ProPlus = bytes_of ''pro_plus''"
| "membership_as_str Ultra = bytes_of ''ultra''"
| "membership_as_str Enterprise = bytes_of ''enterprise''"

definition membership_from_str :: "str \<Rightarrow> membership_type option" where
  "membership_from_str s =
     (if s = bytes_of ''free'' then Some Free
      else if s = bytes_of ''free_trial'' then Some FreeTrial
      else if s = bytes_of ''pro'' then Some Pro
      else if s = bytes_of ''pro_plus'' then Some ProPlus
      else if s = bytes_of ''ultra'' then Some Ultra
      else if s = bytes_of ''enterprise'' then Some Enterprise
      else None)"

section \<open>Authorisation\<close>

datatype logs_error = Unauthorized | BadRequest

definition AUTHORIZATION_BEARER_PREFIX :: str where
  "AUTHORIZATION_BEARER_PREFIX = bytes_of ''Bearer ''"

definition bearer :: "str option \<Rightarrow> str option" where
  "bearer header = (case header of None \<Rightarrow> None | Some h \<Rightarrow> strip_prefix h AUTHORIZATION_BEARER_PREFIX)"

record route_env =
  AUTH_TOKEN :: str
  dynamic_key :: "str \<Rightarrow> token_key option"
  route_endian :: endian

definition caller_key :: "route_env \<Rightarrow> str \<Rightarrow> logs_error + token_key" where
  "caller_key R auth_token =
     (case token_key_from_string (route_endian R) auth_token of
        Some k \<Rightarrow> Inr k
      | None \<Rightarrow> (case dynamic_key R auth_token of Some k \<Rightarrow> Inr k | None \<Rightarrow> Inl Unauthorized))"

section \<open>Querying logs\<close>

record logs_query =
  q_limit :: "usize option"
  q_offset :: "usize option"
  q_reverse :: "bool option"
  q_from_date :: "int option"
  q_to_date :: "int option"
  q_user_id :: "str option"
  q_email :: "str option"
  q_membership :: "str option"
  q_status :: "str option"
  q_model :: "str option"
  q_include :: "str list option"
  q_exclude :: "str list option"
  q_stream :: "bool option"
  q_has_chain :: "bool option"
  q_has_error :: "bool option"
  q_error :: "str option"
  q_min_time :: "f64 option"
  q_max_time :: "f64 option"
  q_min_tokens :: "i32 option"
  q_max_tokens :: "i32 option"

definition unwrap_or :: "'a option \<Rightarrow> 'a \<Rightarrow> 'a" where
  "unwrap_or x d = (case x of Some v \<Rightarrow> v | None \<Rightarrow> d)"

definition query_params :: "token_key option \<Rightarrow> log_status option \<Rightarrow> membership_type option \<Rightarrow> user_id option \<Rightarrow>
    logs_query \<Rightarrow> get_logs_params" where
  "query_params user_token st ms uid q =
     \<lparr> p_token_key = user_token, p_log_status = st, p_membership = ms, p_user_id = uid,
       p_from_date = q_from_date q, p_to_date = q_to_date q, p_email = q_email q, p_model = q_model q,
       p_include = q_include q, p_exclude = q_exclude q, p_stream = q_stream q, p_has_chain = q_has_chain q,
       p_has_error = q_has_error q, p_error = q_error q, p_min_time = q_min_time q, p_max_time = q_max_time q,
       p_min_tokens = q_min_tokens q, p_max_tokens = q_max_tokens q, p_reverse = unwrap_or (q_reverse q) False,
       p_offset = unwrap_or (q_offset q) 0, p_limit = unwrap_or (q_limit q) (2 ^ 64 - 1) \<rparr>"

record logs_response =
  lr_total :: nat
  lr_active :: "u64 option"
  lr_error :: "u64 option"
  lr_logs :: "request_log list"

definition empty_response :: logs_response where
  "empty_response = \<lparr> lr_total = 0, lr_active = None, lr_error = None, lr_logs = [] \<rparr>"

text \<open>A given text that does not parse ends the request with an answer of its own.\<close>

definition parse_or :: "'r \<Rightarrow> ('t \<Rightarrow> 'a option) \<Rightarrow> 't option \<Rightarrow> 'r + 'a option" where
  "parse_or early f q = (case q of None \<Rightarrow> Inr None | Some t \<Rightarrow> (case f t of Some a \<Rightarrow> Inr (Some a) | None \<Rightarrow> Inl early))"

definition ok_value :: "'e + 'a \<Rightarrow> 'a option" where
  "ok_value r = (case r of Inl _ \<Rightarrow> None | Inr a \<Rightarrow> Some a)"

text \<open>\<open>counters\<close> are the numbers of active and failed requests.\<close>

definition read_query :: "route_env \<Rightarrow> str option \<Rightarrow> logs_query \<Rightarrow>
    (logs_error + logs_response) + (token_key option \<times> get_logs_params)" where
  "read_query R header q =
     (case bearer header of
        None \<Rightarrow> Inl (Inl Unauthorized)
      | Some auth_token \<Rightarrow>
     (case (if auth_token \<noteq> AUTH_TOKEN R then map_sum (\<lambda>e. e) Some (caller_key R auth_token) else Inr None) of
        Inl e \<Rightarrow> Inl (Inl e)
      | Inr user_token \<Rightarrow>
     (case parse_or (Inr empty_response) log_status_from_str_name (q_status q) of
        Inl r \<Rightarrow> Inl r
      | Inr st \<Rightarrow>
     (case parse_or (Inr empty_response) membership_from_str (q_membership q) of
        Inl r \<Rightarrow> Inl r
      | Inr ms \<Rightarrow>
     (case parse_or (Inl BadRequest) (\<lambda>s. ok_value (user_id_from_str (route_endian R) s)) (q_user_id q) of
        Inl r \<Rightarrow> Inl r
      | Inr uid \<Rightarrow> Inr (user_token, query_params user_token st ms uid q))))))"

definition handle_get_logs :: "route_env \<Rightarrow> log_env \<Rightarrow> u64 \<times> u64 \<Rightarrow> str option \<Rightarrow> logs_query \<Rightarrow> log_manager \<Rightarrow>
    (logs_error + logs_response) outcome option" where
  "handle_get_logs R E counters header q m =
     (case read_query R header q of
        Inl answer \<Rightarrow> Some (Done answer)
      | Inr (user_token, p) \<Rightarrow>
          (let (active, err) = (if user_token \<noteq> None then (None, None) else (Some (fst counters), Some (snd counters)))
           in map_option (\<lambda>out. bind_outcome out (\<lambda>(r, m').
                case r of
                  Some (ReplyLogs n ls) \<Rightarrow>
                    Done (Inr \<lparr> lr_total = n, lr_active = active, lr_error = err, lr_logs = ls \<rparr>)
                | _ \<Rightarrow> Panic))
              (handle_command E (GetLogs p True) m)))"

section \<open>Querying tokens\<close>

text \<open>\<open>keys\<close> is the set of the request, in iteration order.  The answer maps texts to tokens.\<close>

record logs_tokens_response =
  ltr_tokens :: "str \<Rightarrow> ext_token option option"
  ltr_total :: nat

definition handle_get_logs_tokens :: "route_env \<Rightarrow> log_env \<Rightarrow> str option \<Rightarrow> str list \<Rightarrow> log_manager \<Rightarrow>
    (logs_error + logs_tokens_response) outcome option" where
  "handle_get_logs_tokens R E header keys m =
     (case bearer header of
        None \<Rightarrow> Some (Done (Inl Unauthorized))
      | Some auth_token \<Rightarrow>
          if auth_token = AUTH_TOKEN R
          then (let ks = List.map_filter (\<lambda>s. map_option (\<lambda>k. (s, k)) (token_key_from_string (route_endian R) s)) keys
                in map_option (\<lambda>out. bind_outcome out (\<lambda>(r, m').
                     case r of Some (ReplyTokens t) \<Rightarrow> Done (Inr \<lparr> ltr_tokens = t, ltr_total = length ks \<rparr>) | _ \<Rightarrow> Panic))
                   (handle_command E (GetTokens ks True) m))
          else (case caller_key R auth_token of
              Inl e \<Rightarrow> Some (Done (Inl e))
            | Inr own_key \<Rightarrow>
                (case keys of
                   [key_str] \<Rightarrow>
                     (case token_key_from_string (route_endian R) key_str of
                        None \<Rightarrow> Some (Done (Inl BadRequest))
                      | Some key \<Rightarrow>
                          if key = own_key
                          then map_option (\<lambda>out. bind_outcome out (\<lambda>(r, m').
                                 case r of Some (ReplyToken t) \<Rightarrow>
                                     Done (Inr \<lparr> ltr_tokens = (\<lambda>_. None)(key_str \<mapsto> t), ltr_total = 1 \<rparr>)
                                 | _ \<Rightarrow> Panic))
                               (handle_command E (GetToken own_key True) m)
                          else Some (Done (Inl Unauthorized)))
                 | _ \<Rightarrow> Some (Done (Inl Unauthorized)))))"

section \<open>What callers can see\<close>

text \<open>The names of statuses and memberships read back.\<close>

theorem query_names_roundtrip:
  "log_status_from_str_name (log_status_as_str_name st) = Some st \<and>
   membership_from_str (membership_as_str ms) = Some ms"
  by (cases st; cases ms) (simp_all add: log_status_from_str_name_def membership_from_str_def bytes_of_def of_char_def)

lemma read_query_caller:
  assumes "bearer header = Some a" and "a \<noteq> AUTH_TOKEN R" and "read_query R header q = Inr (t, p)"
  shows "\<exists>k. caller_key R a = Inr k \<and> t = Some k \<and> p_token_key p = Some k"
  using assms by (cases "caller_key R a") (auto simp: read_query_def query_params_def split: sum.splits)

lemma length_filter_le_if: "(\<And>x. P x \<Longrightarrow> Q x) \<Longrightarrow> length (filter P xs) \<le> length (filter Q xs)"
  by (induction xs) (auto intro: le_SucI)

lemma parse_or_Inl: "parse_or early f q = Inl r \<Longrightarrow> r = early"
  by (auto simp: parse_or_def split: option.splits)

lemma read_query_answer: "read_query R header q = Inl (Inr r) \<Longrightarrow> r = empty_response"
  by (auto simp: read_query_def split: option.splits sum.splits if_splits dest!: parse_or_Inl)

text \<open>C12: a caller with a token of its own sees its own logs only.  Whatever it queries, the logs it gets are stored
  ones of its key, and the server's counters stay hidden.\<close>

theorem get_logs_scoped:
  assumes "log_inv m" and "bearer header = Some a" and "a \<noteq> AUTH_TOKEN R" and "caller_key R a = Inr k"
    and "handle_get_logs R E counters header q m = Some (Done (Inr r))"
  shows "set (lr_logs r) \<subseteq> {l \<in> set (logs m). log_key l = k} \<and>
    lr_total r \<le> key_count k (logs m) \<and> lr_active r = None \<and> lr_error r = None"
proof (cases "read_query R header q")
  case (Inl ans)
  then have "r = empty_response" using assms(5) read_query_answer by (auto simp: handle_get_logs_def)
  then show ?thesis by (simp add: empty_response_def)
next
  case (Inr tp)
  then obtain t p where q: "read_query R header q = Inr (t, p)" by (cases tp) simp
  with assms(4) have p: "p_token_key p = Some k" "t = Some k" using read_query_caller [OF assms(2,3)] by auto
  let ?ls = "filter (log_ok p m) (logs m)"
  have r: "r = \<lparr> lr_total = length ?ls, lr_active = None, lr_error = None, lr_logs = page p ?ls \<rparr>"
    using assms(5) by (simp add: handle_get_logs_def q p(2) filter_logs_ok [OF assms(1)] send_def)
  have ok: "log_key l = k" if "log_ok p m l" for l
    using that p(1) by (simp add: log_ok_def rejected_early_def opt_fails_def)
  have "set (page p ?ls) \<subseteq> set ?ls"
    by (auto simp: page_def dest!: in_set_takeD in_set_dropD)
  moreover have "length ?ls \<le> key_count k (logs m)"
    unfolding key_count_def using ok by (rule length_filter_le_if)
  ultimately show ?thesis using r ok by auto
qed

definition sample_route :: route_env where
  "sample_route = \<lparr> AUTH_TOKEN = bytes_of ''admin'', dynamic_key = (\<lambda>_. Some (info_key (sample_info 7 True))),
     route_endian = Little \<rparr>"

definition sample_query :: logs_query where
  "sample_query = \<lparr> q_limit = None, q_offset = None, q_reverse = None, q_from_date = None, q_to_date = None,
     q_user_id = None, q_email = None, q_membership = None, q_status = None, q_model = None, q_include = None,
     q_exclude = None, q_stream = None, q_has_chain = None, q_has_error = None, q_error = None, q_min_time = None,
     q_max_time = None, q_min_tokens = None, q_max_tokens = None \<rparr>"

definition sample_header :: "str option" where
  "sample_header = Some (AUTHORIZATION_BEARER_PREFIX @ bytes_of ''key'')"

lemma sample_manager_inv: "log_inv sample_manager"
  by (auto simp: log_inv_def sample_manager_def counted_def refs_def sample_log_def log_key_def fun_eq_iff)

lemma sample_caller:
  "bearer sample_header = Some (bytes_of ''key'')" "bytes_of ''key'' \<noteq> AUTH_TOKEN sample_route"
  "caller_key sample_route (bytes_of ''key'') = Inr (info_key (sample_info 7 True))"
proof -
  show "bearer sample_header = Some (bytes_of ''key'')" by (simp add: bearer_def sample_header_def)
  show "bytes_of ''key'' \<noteq> AUTH_TOKEN sample_route" by (simp add: sample_route_def bytes_of_def)
  have "token_key_from_string Little (bytes_of ''key'') = None"
    by (simp add: token_key_from_string_def is_ascii_digit_def DIGITS_def bytes_of_def of_char_def)
  then show "caller_key sample_route (bytes_of ''key'') = Inr (info_key (sample_info 7 True))"
    by (simp add: caller_key_def sample_route_def)
qed

lemma sample_answer:
  "\<exists>r. handle_get_logs sample_route (sample_env 2) (3, 4) sample_header sample_query sample_manager = Some (Done (Inr r))"
proof -
  have "read_query sample_route sample_header sample_query =
    Inr (Some (info_key (sample_info 7 True)), query_params (Some (info_key (sample_info 7 True))) None None None sample_query)"
    by (simp add: read_query_def sample_caller [simplified] parse_or_def sample_query_def)
  then show ?thesis by (simp add: handle_get_logs_def filter_logs_ok [OF sample_manager_inv] send_def)
qed

theorem get_logs_scoped_witness:
  "\<exists>r. handle_get_logs sample_route (sample_env 2) (3, 4) sample_header sample_query sample_manager = Some (Done (Inr r)) \<and>
     set (lr_logs r) \<subseteq> {sample_log 1 7} \<and> lr_active r = None"
proof -
  obtain r where r: "handle_get_logs sample_route (sample_env 2) (3, 4) sample_header sample_query sample_manager =
    Some (Done (Inr r))" using sample_answer by blast
  moreover have "logs sample_manager = [sample_log 1 7]" by (simp add: sample_manager_def)
  ultimately show ?thesis using get_logs_scoped [OF sample_manager_inv sample_caller r] by auto
qed

text \<open>Nor does it get another key's token: it may ask for one text, which must denote its own key.\<close>

lemma get_logs_tokens_scoped:
  assumes "bearer header = Some a" and "a \<noteq> AUTH_TOKEN R" and "caller_key R a = Inr k"
    and "handle_get_logs_tokens R E header keys m = Some (Done (Inr r))"
  shows "\<exists>s. keys = [s] \<and> token_key_from_string (route_endian R) s = Some k \<and>
    ltr_tokens r = (\<lambda>_. None)(s \<mapsto> map_option (\<lambda>a. ext_token_clone (assoc_token a)) (log_tokens m k))"
  using assms by (auto simp: handle_get_logs_tokens_def send_def split: list.splits option.splits if_splits)

end
