(* ===== verification/Token_Cache.thy ===== *)
theory Token_Cache
  imports Token_Types
begin

text \<open>
  The cell behind a \<open>Token\<close>, from \<open>src/app/model/token/cache.rs\<close>: an allocation with a raw token, its text and an
  atomic reference count, shared through a global map from keys to cells.  The heap is explicit: a read of
  an address that is not allocated is undefined behaviour.  \<open>Token::new\<close> and \<open>Drop\<close> are split where another thread
  can interleave: at the end of each lookup, whose entry is locked, and after each atomic operation.
\<close>

section \<open>State\<close>

type_synonym addr = nat

record token_inner =
  inner_raw :: raw_token
  count :: u64
  inner_str :: str

record token_cache =
  heap :: "addr \<Rightarrow> token_inner option"
  TOKEN_MAP :: "token_key \<Rightarrow> addr option"

definition cache_init :: token_cache where
  "cache_init = \<lparr> heap = (\<lambda>_. None), TOKEN_MAP = (\<lambda>_. None) \<rparr>"

definition ISIZE_MAX :: u64 where
  "ISIZE_MAX = 0x7FFFFFFFFFFFFFFF"

text \<open>The longest text that fits behind a cell, which depends on the target's layout, and the printer of raw
  tokens.\<close>

record cache_env =
  STRING_MAX_LEN :: usize
  print_raw :: "raw_token \<Rightarrow> str"

section \<open>Operations\<close>

definition deref :: "addr \<Rightarrow> token_cache \<Rightarrow> token_inner outcome" where
  "deref p s = (case heap s p of None \<Rightarrow> UB | Some c \<Rightarrow> Done c)"

text \<open>\<open>fetch_add\<close> with the overflow check, which aborts.\<close>

definition share :: "addr \<Rightarrow> token_cache \<Rightarrow> token_cache outcome" where
  "share p s =
     bind_outcome (deref p s) (\<lambda>c.
       if count c > ISIZE_MAX then Panic
       else Done (s\<lparr> heap := (heap s)(p \<mapsto> c\<lparr> count := count c + 1 \<rparr>) \<rparr>))"

definition token_clone :: "addr \<Rightarrow> token_cache \<Rightarrow> (addr \<times> token_cache) outcome" where
  "token_clone p s = bind_outcome (share p s) (\<lambda>s'. Done (p, s'))"

definition new_fast :: "raw_token \<Rightarrow> token_cache \<Rightarrow> (addr option \<times> token_cache) outcome" where
  "new_fast r s =
     (case TOKEN_MAP s (raw_token_key r) of
        None \<Rightarrow> Done (None, s)
      | Some p \<Rightarrow>
          bind_outcome (deref p s) (\<lambda>c.
            if inner_raw c = r then bind_outcome (share p s) (\<lambda>s'. Done (Some p, s'))
            else Done (None, s)))"

text \<open>\<open>a\<close> is the address the allocator returns.\<close>

definition new_slow :: "cache_env \<Rightarrow> addr \<Rightarrow> raw_token \<Rightarrow> str option \<Rightarrow> token_cache \<Rightarrow> (addr \<times> token_cache) outcome" where
  "new_slow V a r string s =
     (case TOKEN_MAP s (raw_token_key r) of
        Some p \<Rightarrow>
          bind_outcome (deref p s) (\<lambda>c.
            if inner_raw c = r then bind_outcome (share p s) (\<lambda>s'. Done (p, s'))
            else Done (p, s))
      | None \<Rightarrow>
          (let text = (case string of Some t \<Rightarrow> t | None \<Rightarrow> print_raw V r)
           in if length text > STRING_MAX_LEN V then Panic
              else Done (a, s\<lparr> heap := (heap s)(a \<mapsto> \<lparr> inner_raw = r, count = 1, inner_str = text \<rparr>),
                               TOKEN_MAP := (TOKEN_MAP s)(raw_token_key r \<mapsto> a) \<rparr>)))"

definition token_new :: "cache_env \<Rightarrow> addr \<Rightarrow> raw_token \<Rightarrow> str option \<Rightarrow> token_cache \<Rightarrow> (addr \<times> token_cache) outcome" where
  "token_new V a r string s =
     bind_outcome (new_fast r s) (\<lambda>(found, s').
       case found of Some p \<Rightarrow> Done (p, s') | None \<Rightarrow> new_slow V a r string s')"

text \<open>The first half of \<open>Drop\<close> tells whether it gave up the last reference.\<close>

definition drop_release :: "addr \<Rightarrow> token_cache \<Rightarrow> (bool \<times> token_cache) outcome" where
  "drop_release p s =
     bind_outcome (deref p s) (\<lambda>c.
       Done (count c = 1, s\<lparr> heap := (heap s)(p \<mapsto> c\<lparr> count := count c - 1 \<rparr>) \<rparr>))"

definition drop_free :: "addr \<Rightarrow> token_cache \<Rightarrow> token_cache outcome" where
  "drop_free p s =
     bind_outcome (deref p s) (\<lambda>c.
       let key = raw_token_key (inner_raw c)
       in case TOKEN_MAP s key of
            None \<Rightarrow> Done s
          | Some _ \<Rightarrow>
              if count c \<noteq> 0 then Done s
              else Done (s\<lparr> TOKEN_MAP := (TOKEN_MAP s)(key := None), heap := (heap s)(p := None) \<rparr>))"

definition token_drop :: "addr \<Rightarrow> token_cache \<Rightarrow> token_cache outcome" where
  "token_drop p s = bind_outcome (drop_release p s) (\<lambda>(last_one, s'). if last_one then drop_free p s' else Done s')"

definition token_raw :: "addr \<Rightarrow> token_cache \<Rightarrow> raw_token outcome" where
  "token_raw p s = bind_outcome (deref p s) (\<lambda>c. Done (inner_raw c))"

definition token_as_str :: "addr \<Rightarrow> token_cache \<Rightarrow> str outcome" where
  "token_as_str p s = bind_outcome (deref p s) (\<lambda>c. Done (inner_str c))"

section \<open>Reference counts\<close>

text \<open>\<open>live\<close> lists the tokens in use.  Every allocated cell is in the map, and its count is the number of its tokens.\<close>

definition cell_ok :: "addr list \<Rightarrow> token_cache \<Rightarrow> addr \<Rightarrow> token_inner \<Rightarrow> bool" where
  "cell_ok live s p c \<longleftrightarrow>
     TOKEN_MAP s (raw_token_key (inner_raw c)) = Some p \<and> unat (count c) = count_list live p \<and> p \<in> set live"

definition cache_inv :: "addr list \<Rightarrow> token_cache \<Rightarrow> bool" where
  "cache_inv live s \<longleftrightarrow>
     length live \<le> 2 ^ 63 \<and> set live \<subseteq> dom (heap s) \<and>
     (\<forall>k p. TOKEN_MAP s k = Some p \<longrightarrow> (\<exists>c. heap s p = Some c \<and> raw_token_key (inner_raw c) = k)) \<and>
     (\<forall>p c. heap s p = Some c \<longrightarrow> cell_ok live s p c)"

lemma cache_init_inv: "cache_inv [] cache_init"
  by (simp add: cache_inv_def cache_init_def)

lemma cache_inv_deref:
  "cache_inv live s \<Longrightarrow> p \<in> set live \<Longrightarrow> \<exists>c. heap s p = Some c \<and> deref p s = Done c \<and> cell_ok live s p c"
  by (auto simp: cache_inv_def deref_def dom_def subset_iff)

lemma cache_inv_cached:
  assumes "cache_inv live s" and "TOKEN_MAP s k = Some p"
  shows "\<exists>c. heap s p = Some c \<and> raw_token_key (inner_raw c) = k \<and> p \<in> set live"
  using assms by (force simp: cache_inv_def cell_ok_def)

lemma cache_inv_recount:
  assumes inv: "cache_inv live s" and c: "heap s p = Some c"
    and n: "unat n = count_list live' p" "p \<in> set live'" "length live' \<le> 2 ^ 63"
    and others: "\<And>q. q \<noteq> p \<Longrightarrow> count_list live' q = count_list live q"
  shows "cache_inv live' (s\<lparr> heap := (heap s)(p \<mapsto> c\<lparr> count := n \<rparr>) \<rparr>)"
proof -
  let ?s = "s\<lparr> heap := (heap s)(p \<mapsto> c\<lparr> count := n \<rparr>) \<rparr>"
  have set: "q \<in> set live' \<longleftrightarrow> q \<in> set live" if "q \<noteq> p" for q
    using others [OF that] by (metis count_list_0_iff)
  have "\<exists>c'. heap ?s q = Some c' \<and> raw_token_key (inner_raw c') = k" if "TOKEN_MAP ?s k = Some q" for k q
    using that cache_inv_cached [OF inv, of k q] c by (cases "q = p") auto
  moreover have "cell_ok live' ?s q c'" if "heap ?s q = Some c'" for q c'
    using that inv c n others [of q] set [of q] by (cases "q = p") (auto simp: cache_inv_def cell_ok_def)
  moreover have "set live' \<subseteq> dom (heap ?s)" using inv set by (auto simp: cache_inv_def)
  ultimately show ?thesis using n(3) by (simp add: cache_inv_def)
qed

lemma share_ok:
  assumes "cache_inv live s" and "p \<in> set live" and "length live < 2 ^ 63"
  shows "\<exists>c s'. heap s p = Some c \<and> share p s = Done s' \<and> cache_inv (p # live) s' \<and>
    s' = s\<lparr> heap := (heap s)(p \<mapsto> c\<lparr> count := count c + 1 \<rparr>) \<rparr>"
proof -
  obtain c where c: "heap s p = Some c" "deref p s = Done c" "cell_ok live s p c"
    using cache_inv_deref [OF assms(1,2)] by blast
  have n: "unat (count c) = count_list live p" using c(3) by (simp add: cell_ok_def)
  with count_le_length [of live p] assms(3) have b: "unat (count c) < 2 ^ 63" by linarith
  then have "\<not> count c > ISIZE_MAX" by (simp add: ISIZE_MAX_def word_less_nat_alt)
  moreover have u: "unat (count c + 1) = Suc (count_list live p)" using b n by (simp add: unat_word_ariths)
  have "cache_inv (p # live) (s\<lparr> heap := (heap s)(p \<mapsto> c\<lparr> count := count c + 1 \<rparr>) \<rparr>)"
    using assms(3) u by (intro cache_inv_recount [OF assms(1) c(1)]) auto
  ultimately show ?thesis using c by (simp add: share_def)
qed

text \<open>Tokens of one key have one raw form.\<close>

definition coherent :: "raw_token \<Rightarrow> token_cache \<Rightarrow> bool" where
  "coherent r s \<longleftrightarrow>
     (case TOKEN_MAP s (raw_token_key r) of
        None \<Rightarrow> True
      | Some p \<Rightarrow> map_option inner_raw (heap s p) = Some r)"

lemma new_alloc_inv:
  assumes inv: "cache_inv live s" and a: "heap s a = None" and k: "TOKEN_MAP s (raw_token_key r) = None"
    and l: "length live < 2 ^ 63"
  shows "cache_inv (a # live) (s\<lparr> heap := (heap s)(a \<mapsto> \<lparr> inner_raw = r, count = 1, inner_str = t \<rparr>),
    TOKEN_MAP := (TOKEN_MAP s)(raw_token_key r \<mapsto> a) \<rparr>)" (is "cache_inv _ ?s")
proof -
  have fresh: "a \<notin> set live" using inv a by (auto simp: cache_inv_def)
  have "\<exists>c. heap ?s p = Some c \<and> raw_token_key (inner_raw c) = k'" if "TOKEN_MAP ?s k' = Some p" for k' p
    using that cache_inv_cached [OF inv, of k' p] a by (cases "k' = raw_token_key r") auto
  moreover have "cell_ok (a # live) ?s p c" if "heap ?s p = Some c" for p c
  proof (cases "p = a")
    case False
    then have ok: "cell_ok live s p c" using that inv by (simp add: cache_inv_def)
    then have "raw_token_key (inner_raw c) \<noteq> raw_token_key r" using k by (auto simp: cell_ok_def)
    with ok False show ?thesis by (simp add: cell_ok_def)
  qed (use that fresh in \<open>auto simp: cell_ok_def\<close>)
  ultimately show ?thesis using inv l by (auto simp: cache_inv_def)
qed

lemma token_new_cached:
  assumes "cache_inv live s" and "coherent r s" and "length live < 2 ^ 63" and "TOKEN_MAP s (raw_token_key r) = Some q"
  shows "\<exists>s'. token_new V a r t s = Done (q, s') \<and> cache_inv (q # live) s' \<and> token_raw q s' = Done r"
proof -
  have r: "map_option inner_raw (heap s q) = Some r" using assms(2,4) by (simp add: coherent_def)
  have "q \<in> set live" using cache_inv_cached [OF assms(1,4)] by blast
  then obtain c s' where s': "heap s q = Some c" "share q s = Done s'" "cache_inv (q # live) s'"
    "s' = s\<lparr> heap := (heap s)(q \<mapsto> c\<lparr> count := count c + 1 \<rparr>) \<rparr>"
    using share_ok [OF assms(1) _ assms(3)] by blast
  have "new_fast r s = Done (Some q, s')" using assms(4) r s'(1,2) by (simp add: new_fast_def deref_def)
  moreover have "token_raw q s' = Done r" using r s'(1,4) by (simp add: token_raw_def deref_def)
  ultimately show ?thesis using s'(3) by (simp add: token_new_def)
qed

lemma token_new_ok:
  assumes "cache_inv live s" and "coherent r s" and "heap s a = None" and "length live < 2 ^ 63"
    and "length (case t of Some t \<Rightarrow> t | None \<Rightarrow> print_raw V r) \<le> STRING_MAX_LEN V"
  shows "\<exists>p s'. token_new V a r t s = Done (p, s') \<and> cache_inv (p # live) s' \<and> token_raw p s' = Done r"
proof (cases "TOKEN_MAP s (raw_token_key r)")
  case None
  then show ?thesis
    using new_alloc_inv [OF assms(1,3) None assms(4)] assms(5)
    by (simp add: token_new_def new_fast_def new_slow_def token_raw_def deref_def Let_def not_less)
next
  case (Some q)
  then show ?thesis using token_new_cached [OF assms(1,2,4)] by blast
qed

lemma token_clone_ok:
  assumes "cache_inv live s" and "p \<in> set live" and "length live < 2 ^ 63"
  shows "\<exists>s'. token_clone p s = Done (p, s') \<and> cache_inv (p # live) s'"
  using share_ok [OF assms] by (auto simp: token_clone_def)

lemma drop_last_inv:
  assumes inv: "cache_inv live s" and c: "heap s p = Some c" and n: "count_list live p = 1"
  shows "cache_inv (remove1 p live)
    (s\<lparr> TOKEN_MAP := (TOKEN_MAP s)(raw_token_key (inner_raw c) := None), heap := (heap s)(p := None) \<rparr>)"
    (is "cache_inv _ ?s")
proof -
  have p: "p \<in> set live" "TOKEN_MAP s (raw_token_key (inner_raw c)) = Some p"
    using inv c by (auto simp: cache_inv_def cell_ok_def)
  have gone: "p \<notin> set (remove1 p live)"
    using count_list_remove1 [OF p(1), of p] n by (metis count_list_0_iff diff_self_eq_0)
  have keep: "q \<in> set (remove1 p live) \<longleftrightarrow> q \<in> set live" if "q \<noteq> p" for q using that by simp
  have "\<exists>c'. heap ?s q = Some c' \<and> raw_token_key (inner_raw c') = k" if "TOKEN_MAP ?s k = Some q" for k q
  proof -
    have "TOKEN_MAP s k = Some q" "k \<noteq> raw_token_key (inner_raw c)" using that by (auto split: if_splits)
    then show ?thesis using cache_inv_cached [OF inv, of k q] c by (cases "q = p") auto
  qed
  moreover have "cell_ok (remove1 p live) ?s q c'" if "heap ?s q = Some c'" for q c'
  proof -
    have q: "q \<noteq> p" "heap s q = Some c'" using that by (auto split: if_splits)
    then have ok: "cell_ok live s q c'" using inv by (simp add: cache_inv_def)
    have "raw_token_key (inner_raw c') \<noteq> raw_token_key (inner_raw c)"
      using ok p(2) q(1) by (auto simp: cell_ok_def)
    then show ?thesis using ok q(1) count_list_remove1 [OF p(1), of q] by (simp add: cell_ok_def)
  qed
  moreover have "set (remove1 p live) \<subseteq> dom (heap ?s)"
    using inv gone set_remove1_subset [of p live] by (auto simp: cache_inv_def)
  moreover have "length (remove1 p live) \<le> 2 ^ 63"
    using inv by (auto simp: cache_inv_def length_remove1)
  ultimately show ?thesis by (simp add: cache_inv_def)
qed

lemma token_drop_ok:
  assumes inv: "cache_inv live s" and p: "p \<in> set live"
  shows "\<exists>s'. token_drop p s = Done s' \<and> cache_inv (remove1 p live) s'"
proof -
  obtain c where c: "heap s p = Some c" "deref p s = Done c" "cell_ok live s p c"
    using cache_inv_deref [OF inv p] by blast
  have n: "unat (count c) = count_list live p" using c(3) by (simp add: cell_ok_def)
  have nz: "count_list live p \<noteq> 0" using p by (simp add: count_list_0_iff)
  show ?thesis
  proof (cases "count c = 1")
    case True
    then have "cache_inv (remove1 p live)
      (s\<lparr> TOKEN_MAP := (TOKEN_MAP s)(raw_token_key (inner_raw c) := None), heap := (heap s)(p := None) \<rparr>)"
      using drop_last_inv [OF inv c(1)] n by simp
    then show ?thesis
      using c True by (simp add: token_drop_def drop_release_def drop_free_def deref_def cell_ok_def Let_def)
  next
    case False
    have "count c \<noteq> 0" using n nz by auto
    then have u: "unat (count c - 1) = count_list (remove1 p live) p"
      using n count_list_remove1 [OF p, of p] by (simp add: unat_minus_one)
    have "unat (count c) \<noteq> unat (1 :: u64)" using False unsigned_word_eqI by blast
    then have "count_list live p \<noteq> 1" using n by simp
    then have "p \<in> set (remove1 p live)"
      using nz count_list_remove1 [OF p, of p] count_list_0_iff [of "remove1 p live" p] by simp
    then have "cache_inv (remove1 p live) (s\<lparr> heap := (heap s)(p \<mapsto> c\<lparr> count := count c - 1 \<rparr>) \<rparr>)"
      using inv p count_list_remove1 [OF p] u
      by (intro cache_inv_recount [OF inv c(1)]) (auto simp: cache_inv_def length_remove1)
    then show ?thesis using c False by (simp add: token_drop_def drop_release_def)
  qed
qed

section \<open>Programs that finish one operation before the next\<close>

inductive cache_step :: "cache_env \<times> addr list \<times> token_cache \<Rightarrow> cache_env \<times> addr list \<times> token_cache \<Rightarrow> bool" where
  New: "coherent r s \<Longrightarrow> heap s a = None \<Longrightarrow> length live < 2 ^ 63 \<Longrightarrow> token_new V a r t s = Done (p, s') \<Longrightarrow>
    cache_step (V, live, s) (V, p # live, s')"
| Clone: "p \<in> set live \<Longrightarrow> length live < 2 ^ 63 \<Longrightarrow> token_clone p s = Done (q, s') \<Longrightarrow>
    cache_step (V, live, s) (V, q # live, s')"
| Drop: "p \<in> set live \<Longrightarrow> token_drop p s = Done s' \<Longrightarrow> cache_step (V, live, s) (V, remove1 p live, s')"

lemma token_new_Done_len:
  "token_new V a r t s = Done (p, s') \<Longrightarrow> TOKEN_MAP s (raw_token_key r) = None \<Longrightarrow>
   length (case t of Some t \<Rightarrow> t | None \<Rightarrow> print_raw V r) \<le> STRING_MAX_LEN V"
  by (auto simp: token_new_def new_fast_def new_slow_def Let_def split: if_splits)


lemma cache_step_inv:
  assumes "cache_step st st'" and "case st of (V, live, s) \<Rightarrow> cache_inv live s"
  shows "case st' of (V, live, s) \<Rightarrow> cache_inv live s"
  using assms
proof (induction rule: cache_step.induct)
  case (New r s a live V t p s')
  then have inv: "cache_inv live s" by simp
  have "\<exists>p s'. token_new V a r t s = Done (p, s') \<and> cache_inv (p # live) s'"
  proof (cases "TOKEN_MAP s (raw_token_key r)")
    case None
    show ?thesis using token_new_ok [OF inv New(1,2,3) token_new_Done_len [OF New(4) None]] by blast
  next
    case (Some q)
    show ?thesis using token_new_cached [OF inv New(1,3) Some] by blast
  qed
  then show ?case using New(4) by simp
next
  case (Clone p live s q s' V)
  then show ?case using token_clone_ok [of live s p] by fastforce
next
  case (Drop p live s s' V)
  then show ?case using token_drop_ok [of live s p] by fastforce
qed

interpretation tc: state_machine "\<lambda>(V, live, s). live = [] \<and> s = cache_init" cache_step "\<lambda>(V, live, s). cache_inv live s"
  by unfold_locales (auto simp: cache_init_inv dest: cache_step_inv)

section \<open>What the cache guarantees\<close>

text \<open>C25: reference counting is exact as long as operations do not interleave (\<open>token_drop_race\<close> is about those that do) and a
  key has one raw token.  In every
  reachable state the allocated cells are those of the live tokens, each counted as often as it is live, so
  nothing leaks and nothing dangles; every operation on a live token is defined, and \<open>Token::new\<close> delivers the
  raw token it was given.\<close>

theorem token_cache_safe:
  assumes "cache_step\<^sup>*\<^sup>* (V, [], cache_init) (V, live, s)"
  shows "dom (heap s) = set live \<and>
    (p \<in> set live \<longrightarrow>
       (\<exists>c s1 s2. heap s p = Some c \<and> unat (count c) = count_list live p \<and> token_raw p s = Done (inner_raw c) \<and>
          token_as_str p s = Done (inner_str c) \<and> token_drop p s = Done s1 \<and>
          (length live < 2 ^ 63 \<longrightarrow> token_clone p s = Done (p, s2)))) \<and>
    (coherent r s \<and> heap s a = None \<and> length live < 2 ^ 63 \<and>
       length (case t of Some t \<Rightarrow> t | None \<Rightarrow> print_raw V r) \<le> STRING_MAX_LEN V \<longrightarrow>
       (\<exists>q s'. token_new V a r t s = Done (q, s') \<and> token_raw q s' = Done r))"
proof (intro conjI impI)
  have inv: "cache_inv live s" using tc.reachable_inv [OF _ assms] by simp
  show "dom (heap s) = set live" using inv by (auto simp: cache_inv_def cell_ok_def)
  show "\<exists>c s1 s2. heap s p = Some c \<and> unat (count c) = count_list live p \<and> token_raw p s = Done (inner_raw c) \<and>
      token_as_str p s = Done (inner_str c) \<and> token_drop p s = Done s1 \<and>
      (length live < 2 ^ 63 \<longrightarrow> token_clone p s = Done (p, s2))" if p: "p \<in> set live"
  proof -
    obtain c where c: "heap s p = Some c" "deref p s = Done c" "cell_ok live s p c"
      using cache_inv_deref [OF inv p] by blast
    obtain s1 where "token_drop p s = Done s1" using token_drop_ok [OF inv p] by blast
    moreover obtain s2 where "length live < 2 ^ 63 \<longrightarrow> token_clone p s = Done (p, s2)"
      using token_clone_ok [OF inv p] by blast
    ultimately show ?thesis using c by (auto simp: token_raw_def token_as_str_def cell_ok_def)
  qed
  show "\<exists>q s'. token_new V a r t s = Done (q, s') \<and> token_raw q s' = Done r"
    if "coherent r s \<and> heap s a = None \<and> length live < 2 ^ 63 \<and>
      length (case t of Some t \<Rightarrow> t | None \<Rightarrow> print_raw V r) \<le> STRING_MAX_LEN V"
    using that token_new_ok [OF inv, of r a V t] by blast
qed

definition sample_raw :: "bool \<Rightarrow> raw_token" where
  "sample_raw session = \<lparr> rt_subject = \<lparr> provider = 0, sub_id = replicate 16 1 \<rparr>, rt_signature = replicate 32 0,
     rt_duration = \<lparr> dur_start = 0, dur_end = 0 \<rparr>, rt_randomness = 5, rt_is_session = session \<rparr>"

definition sample_cache_env :: cache_env where
  "sample_cache_env = \<lparr> STRING_MAX_LEN = 1000, print_raw = (\<lambda>_. bytes_of ''t'') \<rparr>"

definition one_cell :: "u64 \<Rightarrow> token_cache" where
  "one_cell n = \<lparr> heap = (\<lambda>_. None)(0 \<mapsto> \<lparr> inner_raw = sample_raw True, count = n, inner_str = bytes_of ''t'' \<rparr>),
     TOKEN_MAP = (\<lambda>_. None)(raw_token_key (sample_raw True) \<mapsto> 0) \<rparr>"

lemma sample_key: "raw_token_key (sample_raw b) = raw_token_key (sample_raw True)" "sample_raw False \<noteq> sample_raw True"
  by (simp_all add: raw_token_key_def sample_raw_def)

lemma sample_new: "token_new sample_cache_env 0 (sample_raw True) None cache_init = Done (0, one_cell 1)"
  by (simp add: token_new_def new_fast_def new_slow_def cache_init_def one_cell_def sample_cache_env_def Let_def)

lemma one_cell_share: "n \<le> ISIZE_MAX \<Longrightarrow> share 0 (one_cell n) = Done (one_cell (n + 1))"
  by (simp add: share_def deref_def one_cell_def not_less)

lemma one_cell_release: "drop_release 0 (one_cell n) = Done (n = 1, one_cell (n - 1))"
  by (simp add: drop_release_def deref_def one_cell_def)

lemma one_cell_free: "drop_free 0 (one_cell 0) = Done cache_init"
  by (simp add: drop_free_def deref_def one_cell_def Let_def cache_init_def fun_eq_iff)

theorem token_cache_safe_witness:
  "cache_step\<^sup>*\<^sup>* (sample_cache_env, [], cache_init) (sample_cache_env, [0], one_cell 1) \<and> dom (heap (one_cell 1)) = {0}"
proof -
  have "coherent (sample_raw True) cache_init" "heap cache_init 0 = None"
    by (simp_all add: coherent_def cache_init_def)
  then have "cache_step (sample_cache_env, [], cache_init) (sample_cache_env, [0], one_cell 1)"
    using cache_step.New [OF _ _ _ sample_new, of "[]"] by simp
  then have r: "cache_step\<^sup>*\<^sup>* (sample_cache_env, [], cache_init) (sample_cache_env, [0], one_cell 1)" by (rule r_into_rtranclp)
  with token_cache_safe [OF r] show ?thesis by simp
qed

text \<open>A second raw token with the key of a cached one does not get a cell of its own: \<open>Token::new\<close> returns the
  cached cell without counting the new reference.  The token then has the wrong contents, and once the first
  one is dropped it points to freed memory.\<close>

theorem token_new_mismatch_dangles:
  "\<exists>s1 s2. token_new sample_cache_env 0 (sample_raw True) None cache_init = Done (0, s1) \<and>
     token_new sample_cache_env 1 (sample_raw False) None s1 = Done (0, s1) \<and>
     token_raw 0 s1 = Done (sample_raw True) \<and>
     token_drop 0 s1 = Done s2 \<and> token_raw 0 s2 = UB"
proof (intro exI conjI)
  show "token_new sample_cache_env 0 (sample_raw True) None cache_init = Done (0, one_cell 1)" by (rule sample_new)
  show "token_new sample_cache_env 1 (sample_raw False) None (one_cell 1) = Done (0, one_cell 1)"
    using sample_key(2) by (simp add: token_new_def new_fast_def new_slow_def one_cell_def deref_def sample_key(1) [of False])
  show "token_raw 0 (one_cell 1) = Done (sample_raw True)" by (simp add: token_raw_def deref_def one_cell_def)
  show "token_drop 0 (one_cell 1) = Done cache_init" by (simp add: token_drop_def one_cell_release one_cell_free)
  show "token_raw 0 cache_init = UB" by (simp add: token_raw_def deref_def cache_init_def)
qed

text \<open>Two threads that drop the last reference.  Thread A gives up the last reference; before it cleans up, thread B
  obtains the cell from the map and drops it again, so that it also held the last reference.  Both then
  clean up: A frees the cell, and B reads it afterwards.\<close>

theorem token_drop_race:
  "\<exists>s1 s2 s3 s4.
     drop_release 0 (one_cell 1) = Done (True, s1) \<and>
     new_fast (sample_raw True) s1 = Done (Some 0, s2) \<and>
     drop_release 0 s2 = Done (True, s3) \<and>
     drop_free 0 s3 = Done s4 \<and>
     drop_free 0 s4 = UB"
proof (intro exI conjI)
  show "drop_release 0 (one_cell 1) = Done (True, one_cell 0)" by (simp add: one_cell_release)
  have "new_fast (sample_raw True) (one_cell 0) = bind_outcome (share 0 (one_cell 0)) (\<lambda>s. Done (Some 0, s))"
    by (simp add: new_fast_def one_cell_def deref_def)
  then show "new_fast (sample_raw True) (one_cell 0) = Done (Some 0, one_cell 1)" by (simp add: one_cell_share)
  show "drop_release 0 (one_cell 1) = Done (True, one_cell 0)" by (simp add: one_cell_release)
  show "drop_free 0 (one_cell 0) = Done cache_init" by (rule one_cell_free)
  show "drop_free 0 cache_init = UB" by (simp add: drop_free_def deref_def cache_init_def)
qed

end
