(* ===== verification/Utf8.thy ===== *)
theory Utf8
  imports Text_Utils
begin

text \<open>
  Validation of UTF-8, from \<open>crates/byte_str\<close> (\<open>utf8.rs\<close>, \<open>utf8/ascii.rs\<close> in the SSE2 version, which is the one that is built
  on x86-64).  Reads without bounds check outside of the slice, and aligned loads from unaligned addresses, are undefined
  behaviour; \<open>addr\<close> is the address of the slice.  A vector is the list of its 16 bytes, a mask the list of its bits, lowest
  first.
\<close>

section \<open>ASCII\<close>

definition byte_at :: "bytes \<Rightarrow> nat \<Rightarrow> u8 outcome" where
  "byte_at s i = (if i < length s then Done (s ! i) else UB)"

definition load16_unaligned :: "bytes \<Rightarrow> nat \<Rightarrow> bytes outcome" where
  "load16_unaligned s off = (if off + 16 \<le> length s then Done (take 16 (drop off s)) else UB)"

definition load16_aligned :: "nat \<Rightarrow> bytes \<Rightarrow> nat \<Rightarrow> bytes outcome" where
  "load16_aligned addr s off = (if (addr + off) mod 16 = 0 then load16_unaligned s off else UB)"

definition mask_ascii :: "bytes \<Rightarrow> bool list" where
  "mask_ascii block = map (\<lambda>b. bit b 7) block"

definition mask_zero :: "bool list \<Rightarrow> bool" where
  "mask_zero m \<longleftrightarrow> True \<notin> set m"

definition trailing_zeros :: "bool list \<Rightarrow> nat" where
  "trailing_zeros m = length (takeWhile Not m)"

definition simd_or :: "bytes \<Rightarrow> bytes \<Rightarrow> bytes" where
  "simd_or a b = map2 (OR) a b"

definition simd_is_ascii :: "bytes \<Rightarrow> bool" where
  "simd_is_ascii block \<longleftrightarrow> mask_zero (mask_ascii block)"

definition non_ascii_at :: "bytes \<Rightarrow> nat \<Rightarrow> (u8 \<times> nat) option outcome" where
  "non_ascii_at s off = bind_outcome (byte_at s off) (\<lambda>b. Done (Some (b, off)))"

text \<open>A block: either it contains a byte that is not ASCII, or the search goes on.\<close>

definition check_block :: "bytes \<Rightarrow> bytes outcome \<Rightarrow> nat \<Rightarrow> (unit \<Rightarrow> (u8 \<times> nat) option outcome) \<Rightarrow> (u8 \<times> nat) option outcome" where
  "check_block s block off k =
     bind_outcome block (\<lambda>simd.
       let mask = mask_ascii simd in if \<not> mask_zero mask then non_ascii_at s (off + trailing_zeros mask) else k ())"

function scan_ascii :: "bytes \<Rightarrow> nat \<Rightarrow> (u8 \<times> nat) option outcome" where
  "scan_ascii s off =
     (if off < length s then if s ! off > 127 then Done (Some (s ! off, off)) else scan_ascii s (off + 1) else Done None)"
  by auto
termination
  by (relation "measure (\<lambda>(s, off). length s - off)") auto

declare scan_ascii.simps [simp del]

text \<open>Two aligned blocks at a time; the result is an answer or the offset that was reached.\<close>

function aligned_loop :: "nat \<Rightarrow> bytes \<Rightarrow> nat \<Rightarrow> ((u8 \<times> nat) option + nat) outcome" where
  "aligned_loop addr s off =
     (case (load16_aligned addr s off, load16_aligned addr s (off + 16)) of
        (Done fst_block, Done snd_block) \<Rightarrow>
          if \<not> simd_is_ascii (simd_or fst_block snd_block)
          then (let mask_first = mask_ascii fst_block
                in bind_outcome (if \<not> mask_zero mask_first then non_ascii_at s (off + trailing_zeros mask_first)
                                 else non_ascii_at s (off + (16 + trailing_zeros (mask_ascii snd_block)))) (\<lambda>r. Done (Inl r)))
          else if off + 32 > length s - 32 then Done (Inr (off + 32))
          else aligned_loop addr s (off + 32)
      | _ \<Rightarrow> UB)"
  by auto
termination
  by (relation "measure (\<lambda>(addr, s, off). length s - off)") auto

declare aligned_loop.simps [simp del]

definition validate_ascii :: "nat \<Rightarrow> bytes \<Rightarrow> (u8 \<times> nat) option outcome" where
  "validate_ascii addr s =
     (let len = length s
      in if 16 \<le> len
         then check_block s (load16_unaligned s 0) 0 (\<lambda>_.
           let until_alignment = (16 - (addr + 16) mod 16) mod 16
           in if until_alignment + 48 \<le> len
              then (let go_on = (\<lambda>off.
                      case aligned_loop addr s off of
                        UB \<Rightarrow> UB | Panic \<Rightarrow> Panic
                      | Done (Inl r) \<Rightarrow> Done r
                      | Done (Inr off) \<Rightarrow>
                          if off + 16 \<le> len then check_block s (load16_aligned addr s off) off (\<lambda>_. scan_ascii s (off + 16))
                          else scan_ascii s off)
                    in if until_alignment \<noteq> 0
                       then check_block s (load16_unaligned s 16) 16 (\<lambda>_. go_on (16 + until_alignment))
                       else go_on 16)
              else if 32 \<le> len
              then check_block s (load16_unaligned s 16) 16 (\<lambda>_.
                     if 48 \<le> len then check_block s (load16_unaligned s 32) 32 (\<lambda>_. scan_ascii s 48) else scan_ascii s 32)
              else scan_ascii s 16)
         else scan_ascii s 0)"

definition is_valid_ascii :: "nat \<Rightarrow> bytes \<Rightarrow> bool outcome" where
  "is_valid_ascii addr v = bind_outcome (validate_ascii addr v) (\<lambda>r. Done (r = None))"

section \<open>UTF-8\<close>

text \<open>The table: entry \<open>b\<close> says which restrictions the second byte \<open>b\<close> violates, entry \<open>0x80 + b\<close> which one the lead \<open>b\<close> has.\<close>

definition UTF8_DATA :: bytes where
  "UTF8_DATA =
     replicate 128 252 @ replicate 16 84 @ replicate 16 148 @ replicate 32 164 @ replicate 64 252 @
     replicate 66 4 @ replicate 30 8 @ [16] @ replicate 12 8 @ [32] @ replicate 2 8 @ [64] @ replicate 3 8 @ [128] @ replicate 11 4"

definition in_inclusive_range8 :: "u8 \<Rightarrow> u8 \<Rightarrow> u8 \<Rightarrow> bool" where
  "in_inclusive_range8 i start stop \<longleftrightarrow> i - start \<le> stop - start"

definition lead_and_second :: "u8 \<Rightarrow> u8 \<Rightarrow> u8" where
  "lead_and_second byte second = (UTF8_DATA ! unat second) AND (UTF8_DATA ! (unat byte + 0x80))"

definition three_byte_ok :: "u8 \<Rightarrow> u8 \<Rightarrow> u8 \<Rightarrow> bool" where
  "three_byte_ok byte second third \<longleftrightarrow> (lead_and_second byte second OR drop_bit 6 third) = 2"

definition four_byte_ok :: "u8 \<Rightarrow> u8 \<Rightarrow> u8 \<Rightarrow> u8 \<Rightarrow> bool" where
  "four_byte_ok byte second third fourth \<longleftrightarrow>
     ((ucast (lead_and_second byte second) :: 16 word) OR ucast (drop_bit 6 third) OR push_bit 2 (ucast (fourth AND 0xC0))) = 0x202"

text \<open>Where the nested loops are: at the head of \<open>'outer\<close>, \<open>'inner\<close> or \<open>'three\<close> with the lead byte that was read, or \<open>'tail\<close>.\<close>

datatype utf8_phase = Outer | Inner u8 | Three u8 | Tail

text \<open>\<open>Next lead\<close>: the byte at \<open>read\<close> when four bytes remain, the tail otherwise; after an ASCII byte the outer loop continues.\<close>

definition next_lead :: "bytes \<Rightarrow> bool \<Rightarrow> nat \<Rightarrow> (utf8_phase \<times> nat) outcome" where
  "next_lead src three read =
     (if read + 4 \<le> length src
      then bind_outcome (byte_at src read) (\<lambda>byte.
             if three \<and> in_inclusive_range8 byte 0xE0 0xEF then Done (Three byte, read)
             else if byte < 0x80 then Done (Outer, read + 1)
             else Done (Inner byte, read))
      else Done (Tail, read))"

text \<open>One pass: the phase and the offset to go on with, or the offset at which \<open>'outer\<close> is left.\<close>

fun utf8_step :: "nat \<Rightarrow> bytes \<Rightarrow> utf8_phase \<Rightarrow> nat \<Rightarrow> ((utf8_phase \<times> nat) + nat) outcome" where
  "utf8_step addr src Outer read =
     (if read \<le> length src
      then bind_outcome (validate_ascii (addr + read) (drop read src)) (\<lambda>r.
        case r of
          None \<Rightarrow> Done (Inr (length src))
        | Some (non_ascii, consumed) \<Rightarrow>
            (let read = read + consumed in Done (Inl (if read + 4 \<le> length src then Inner non_ascii else Tail, read))))
      else Panic)"
| "utf8_step addr src (Inner byte) read =
     (if in_inclusive_range8 byte 0xC2 0xDF
      then bind_outcome (byte_at src (read + 1)) (\<lambda>second.
        if \<not> in_inclusive_range8 second 0x80 0xBF then Done (Inr read)
        else bind_outcome (next_lead src False (read + 2)) (\<lambda>r. Done (Inl r)))
      else if byte < 0xF0 then Done (Inl (Three byte, read))
      else bind_outcome (byte_at src (read + 1)) (\<lambda>second.
        bind_outcome (byte_at src (read + 2)) (\<lambda>third.
        bind_outcome (byte_at src (read + 3)) (\<lambda>fourth.
          if \<not> four_byte_ok byte second third fourth then Done (Inr read)
          else bind_outcome (next_lead src False (read + 4)) (\<lambda>r. Done (Inl r))))))"
| "utf8_step addr src (Three byte) read =
     bind_outcome (byte_at src (read + 1)) (\<lambda>second.
     bind_outcome (byte_at src (read + 2)) (\<lambda>third.
       if \<not> three_byte_ok byte second third then Done (Inr read)
       else bind_outcome (next_lead src True (read + 3)) (\<lambda>r. Done (Inl r))))"
| "utf8_step addr src Tail read =
     (if read \<ge> length src then Done (Inr read)
      else let byte = src ! read
      in if byte < 0x80 then Done (Inl (Tail, read + 1))
         else if in_inclusive_range8 byte 0xC2 0xDF
         then if read + 2 > length src then Done (Inr read)
              else if \<not> in_inclusive_range8 (src ! (read + 1)) 0x80 0xBF then Done (Inr read)
              else Done (Inl (Tail, read + 2))
         else if byte < 0xF0
         then if read + 3 > length src then Done (Inr read)
              else if \<not> three_byte_ok byte (src ! (read + 1)) (src ! (read + 2)) then Done (Inr read)
              else Done (Inr (read + 3))
         else Done (Inr read))"

fun phase_rank :: "utf8_phase \<Rightarrow> nat" where
  "phase_rank Outer = 3"
| "phase_rank (Inner _) = 2"
| "phase_rank (Three _) = 1"
| "phase_rank Tail = 0"

lemma byte_at_Done [simp]: "byte_at s i = Done b \<longleftrightarrow> i < length s \<and> b = s ! i"
  by (auto simp: byte_at_def)

lemma next_lead_offset: "next_lead src three read = Done (phase, read') \<Longrightarrow> read \<le> read'"
  by (auto simp: next_lead_def bind_outcome_Done_iff split: if_splits)

lemma utf8_step_decreases:
  assumes "utf8_step addr src phase read = Done (Inl (phase', read'))"
  shows "length src - read' < length src - read \<or> length src - read' \<le> length src - read \<and> phase_rank phase' < phase_rank phase"
proof (cases phase)
  case Outer
  with assms obtain r where r: "validate_ascii (addr + read) (drop read src) = Done r" by (auto simp: bind_outcome_Done_iff split: if_splits)
  with assms Outer show ?thesis by (cases r) (auto simp: Let_def split: if_splits)
qed (use assms in \<open>auto simp: bind_outcome_Done_iff Let_def split: if_splits dest!: next_lead_offset\<close>)

function utf8_loop :: "nat \<Rightarrow> bytes \<Rightarrow> utf8_phase \<Rightarrow> nat \<Rightarrow> nat outcome" where
  "utf8_loop addr src phase read =
     (case utf8_step addr src phase read of
        UB \<Rightarrow> UB
      | Panic \<Rightarrow> Panic
      | Done (Inr read') \<Rightarrow> Done read'
      | Done (Inl (phase', read')) \<Rightarrow> utf8_loop addr src phase' read')"
  by auto
termination
  by (relation "measures [\<lambda>(addr, src, phase, read). length src - read, \<lambda>(addr, src, phase, read). phase_rank phase]")
     (use utf8_step_decreases in \<open>fastforce+\<close>)

declare utf8_loop.simps [simp del]

definition utf8_valid_up_to :: "nat \<Rightarrow> bytes \<Rightarrow> nat outcome" where
  "utf8_valid_up_to addr src =
     bind_outcome (utf8_loop addr src Outer 0) (\<lambda>read. if read \<le> length src then Done read else UB)"

definition is_valid_utf8 :: "nat \<Rightarrow> bytes \<Rightarrow> bool outcome" where
  "is_valid_utf8 addr v = bind_outcome (utf8_valid_up_to addr v) (\<lambda>n. Done (n = length v))"

section \<open>The search is exact\<close>

definition first_non_ascii :: "bytes \<Rightarrow> (u8 \<times> nat) option" where
  "first_non_ascii s = (let n = length (takeWhile (\<lambda>b. b < 0x80) s) in if n < length s then Some (s ! n, n) else None)"

definition ascii_up_to :: "bytes \<Rightarrow> nat \<Rightarrow> bool" where
  "ascii_up_to s off \<longleftrightarrow> off \<le> length s \<and> (\<forall>i<off. s ! i < 0x80)"

lemma bit7_iff: "bit (b :: u8) 7 \<longleftrightarrow> \<not> b < 0x80"
proof -
  have "unat b < 256" using unsigned_less [of b, where ?'a = nat] by simp
  then have "unat b div 128 = (if unat b < 128 then 0 else 1)" by (auto intro: div_nat_eqI)
  moreover have "bit (unat b) 7 \<longleftrightarrow> odd (unat b div 128)" by (simp only: bit_iff_odd) simp
  moreover have "bit b 7 \<longleftrightarrow> bit (unat b) 7" by (simp add: bit_unsigned_iff)
  ultimately show ?thesis by (simp add: word_less_nat_alt)
qed

lemma mask_zero_iff: "mask_zero (mask_ascii block) \<longleftrightarrow> (\<forall>b \<in> set block. b < 0x80)"
  by (auto simp: mask_zero_def mask_ascii_def bit7_iff)

lemma trailing_zeros_eq: "trailing_zeros (mask_ascii block) = length (takeWhile (\<lambda>b. b < 0x80) block)"
  by (simp add: trailing_zeros_def mask_ascii_def takeWhile_map comp_def bit7_iff)

lemma first_non_asciiI:
  assumes "n < length s" and "\<forall>i<n. s ! i < 0x80" and "\<not> s ! n < 0x80"
  shows "first_non_ascii s = Some (s ! n, n)"
proof -
  have "length (takeWhile (\<lambda>b. b < 0x80) s) = n" using assms by (intro takeWhile_eq_take_P_nth [THEN arg_cong [where f = length], THEN trans]) auto
  then show ?thesis using assms(1) by (simp add: first_non_ascii_def)
qed

lemma first_non_ascii_None:
  assumes "ascii_up_to s (length s)"
  shows "first_non_ascii s = None"
proof -
  have "takeWhile (\<lambda>b. b < 0x80) s = s" using assms by (auto simp: takeWhile_eq_all_conv ascii_up_to_def in_set_conv_nth)
  then show ?thesis unfolding first_non_ascii_def by (simp del: takeWhile_eq_all_conv)
qed

lemma takeWhile_stops: "\<not> (\<forall>x \<in> set xs. P x) \<Longrightarrow> length (takeWhile P xs) < length xs"
  by (induction xs) auto

lemma block_found:
  assumes "ascii_up_to s off" and "off + 16 \<le> length s" and "\<not> mask_zero (mask_ascii (take 16 (drop off s)))"
  shows "non_ascii_at s (off + trailing_zeros (mask_ascii (take 16 (drop off s)))) = Done (first_non_ascii s)"
proof -
  define n where "n = trailing_zeros (mask_ascii (take 16 (drop off s)))"
  let ?b = "take 16 (drop off s)"
  have n: "n = length (takeWhile (\<lambda>b. b < 0x80) ?b)" by (simp add: n_def trailing_zeros_eq)
  have lt: "n < length ?b" using assms(3) unfolding n mask_zero_iff by (rule takeWhile_stops)
  have bad: "\<not> ?b ! n < 0x80" using lt unfolding n by (rule nth_length_takeWhile)
  have good: "?b ! i < 0x80" if "i < n" for i using that unfolding n by (metis nth_mem set_takeWhileD takeWhile_nth)
  have nth: "?b ! i = s ! (off + i)" if "i \<le> n" for i using that lt assms(2) by simp
  have "s ! i < 0x80" if "i < off + n" for i
  proof (cases "i < off")
    case False
    then show ?thesis using that good [of "i - off"] nth [of "i - off"] by simp
  qed (use assms(1) in \<open>simp add: ascii_up_to_def\<close>)
  then have "first_non_ascii s = Some (s ! (off + n), off + n)"
    using lt bad nth [of n] assms(2) by (intro first_non_asciiI) auto
  then show ?thesis using lt assms(2) unfolding n_def [symmetric] by (simp add: non_ascii_at_def byte_at_def)
qed

lemma block_clean:
  assumes "ascii_up_to s off" and "off + 16 \<le> length s" and "mask_zero (mask_ascii (take 16 (drop off s)))" and "k \<le> 16"
  shows "ascii_up_to s (off + k)"
proof -
  have "s ! i < 0x80" if "i < off + k" for i
  proof (cases "i < off")
    case False
    then have "take 16 (drop off s) ! (i - off) \<in> set (take 16 (drop off s))" using that assms(2,4) by (intro nth_mem) simp
    moreover have "take 16 (drop off s) ! (i - off) = s ! i" using False that assms(2,4) by simp
    ultimately show ?thesis using assms(3) by (simp add: mask_zero_iff)
  qed (use assms(1) in \<open>simp add: ascii_up_to_def\<close>)
  then show ?thesis using assms(2,4) by (simp add: ascii_up_to_def)
qed

lemma scan_ascii_exact: "ascii_up_to s off \<Longrightarrow> scan_ascii s off = Done (first_non_ascii s)"
proof (induction s off rule: scan_ascii.induct)
  case (1 s off)
  show ?case
  proof (cases "off < length s")
    case True
    show ?thesis
    proof (cases "s ! off > 127")
      case True
      then have "\<not> s ! off < 0x80" by (simp add: word_less_nat_alt)
      then have "first_non_ascii s = Some (s ! off, off)" using 1(2) \<open>off < length s\<close> by (intro first_non_asciiI) (simp_all add: ascii_up_to_def)
      then show ?thesis using True \<open>off < length s\<close> by (subst scan_ascii.simps) simp
    next
      case False
      then have "s ! off < 0x80" by (simp add: word_less_nat_alt)
      then have "ascii_up_to s (off + 1)" using 1(2) True by (auto simp: ascii_up_to_def less_Suc_eq)
      then show ?thesis using 1(1) [OF True False] True False by (subst scan_ascii.simps) simp
    qed
  next
    case False
    then have "first_non_ascii s = None" using 1(2) by (intro first_non_ascii_None) (simp add: ascii_up_to_def)
    then show ?thesis using False by (subst scan_ascii.simps) simp
  qed
qed

lemma check_block_exact:
  assumes "ascii_up_to s off" and "off + 16 \<le> length s" and "block = Done (take 16 (drop off s))"
    and "mask_zero (mask_ascii (take 16 (drop off s))) \<Longrightarrow> k () = Done (first_non_ascii s)"
  shows "check_block s block off k = Done (first_non_ascii s)"
  using assms block_found [OF assms(1,2)] by (simp add: check_block_def Let_def)

lemma simd_or_ascii:
  assumes "length a = length b"
  shows "simd_is_ascii (simd_or a b) \<longleftrightarrow> mask_zero (mask_ascii a) \<and> mask_zero (mask_ascii b)"
  using assms
proof (induction a b rule: list_induct2)
  case (Cons x xs y ys)
  then show ?case by (auto simp: simd_is_ascii_def simd_or_def mask_zero_def mask_ascii_def bit_or_iff)
qed (simp add: simd_is_ascii_def simd_or_def mask_zero_def mask_ascii_def)

lemma aligned_loop_exact:
  assumes "ascii_up_to s off" and "off + 32 \<le> length s" and "(addr + off) mod 16 = 0"
  shows "aligned_loop addr s off = Done (Inl (first_non_ascii s)) \<or>
    (\<exists>off'. aligned_loop addr s off = Done (Inr off') \<and> ascii_up_to s off' \<and> (addr + off') mod 16 = 0)"
  using assms
proof (induction addr s off rule: aligned_loop.induct)
  case (1 addr s off)
  let ?a = "take 16 (drop off s)" and ?b = "take 16 (drop (off + 16) s)"
  have al: "(addr + (off + 16)) mod 16 = 0" "(addr + (off + 32)) mod 16 = 0" using 1(4) by presburger+
  have ld: "load16_aligned addr s off = Done ?a" "load16_aligned addr s (off + 16) = Done ?b"
    using 1(3,4) al by (simp_all add: load16_aligned_def load16_unaligned_def)
  have "length ?a = length ?b" using 1(3) by simp
  note or = simd_or_ascii [OF this]
  show ?case
  proof (cases "mask_zero (mask_ascii ?a)")
    case False
    then show ?thesis using block_found [OF 1(2) _ False] 1(3) by (subst aligned_loop.simps) (simp add: ld or)
  next
    case a: True
    have mid: "ascii_up_to s (off + 16)" using block_clean [OF 1(2) _ a, of 16] 1(3) by simp
    show ?thesis
    proof (cases "mask_zero (mask_ascii ?b)")
      case False
      have "non_ascii_at s (off + (16 + trailing_zeros (mask_ascii ?b))) = Done (first_non_ascii s)"
        using block_found [OF mid _ False] 1(3) by (simp add: ac_simps)
      then show ?thesis using False a by (subst aligned_loop.simps) (simp add: ld or)
    next
      case b: True
      have up: "ascii_up_to s (off + 32)" using block_clean [OF mid _ b, of 16] 1(3) by (simp add: add.commute)
      show ?thesis
      proof (cases "off + 32 > length s - 32")
        case True
        then show ?thesis using a b up al by (subst aligned_loop.simps, subst (2) aligned_loop.simps) (simp add: ld or)
      next
        case False
        have "simd_is_ascii (simd_or ?a ?b)" using a b or by simp
        then have "\<not> \<not> simd_is_ascii (simd_or ?a ?b)" by simp
        note ih = 1(1) [OF _ _ _ this False up _ al(2)]
        have "aligned_loop addr s off = aligned_loop addr s (off + 32)" using a b False by (subst aligned_loop.simps) (simp add: ld or)
        then show ?thesis using ih False 1(3) by (simp add: ld)
      qed
    qed
  qed
qed

lemma until_alignment_aligns: "(addr + (16 + (16 - (addr + 16) mod 16) mod 16)) mod 16 = (0 :: nat)"
proof (cases "addr mod 16 = 0")
  case False
  define q m where "q = addr div 16" and "m = addr mod 16"
  have "addr = 16 * q + m" "m < 16" "0 < m" using False by (simp_all add: q_def m_def)
  moreover from this have "addr + (16 + (16 - m)) = 16 * (q + 2)" by simp
  ultimately show ?thesis by (simp only: mod_add_self2 m_def [symmetric]) simp
qed auto

lemma validate_ascii_tail:
  assumes "ascii_up_to s off" and "(addr + off) mod 16 = 0"
  shows "(if off + 16 \<le> length s then check_block s (load16_aligned addr s off) off (\<lambda>_. scan_ascii s (off + 16)) else scan_ascii s off) =
    Done (first_non_ascii s)"
proof (cases "off + 16 \<le> length s")
  case True
  have "check_block s (load16_aligned addr s off) off (\<lambda>_. scan_ascii s (off + 16)) = Done (first_non_ascii s)"
  proof (rule check_block_exact [OF assms(1) True])
    show "load16_aligned addr s off = Done (take 16 (drop off s))" using True assms(2) by (simp add: load16_aligned_def load16_unaligned_def)
    show "scan_ascii s (off + 16) = Done (first_non_ascii s)" if z: "mask_zero (mask_ascii (take 16 (drop off s)))"
      using block_clean [OF assms(1) True z] by (intro scan_ascii_exact) simp
  qed
  then show ?thesis using True by simp
qed (use scan_ascii_exact [OF assms(1)] in simp)

lemma unaligned_block_exact:
  assumes "ascii_up_to s off" and "off + 16 \<le> length s" and "n \<le> 16"
    and "ascii_up_to s (off + n) \<Longrightarrow> k () = Done (first_non_ascii s)"
  shows "check_block s (load16_unaligned s off) off k = Done (first_non_ascii s)"
  using assms block_clean [OF assms(1,2) _ assms(3)] by (intro check_block_exact [OF assms(1,2)]) (auto simp: load16_unaligned_def)

lemma validate_ascii_aligned:
  assumes "ascii_up_to s off" and "off + 32 \<le> length s" and "(addr + off) mod 16 = 0"
  shows "(case aligned_loop addr s off of UB \<Rightarrow> UB | Panic \<Rightarrow> Panic | Done (Inl r) \<Rightarrow> Done r
      | Done (Inr off) \<Rightarrow> if off + 16 \<le> length s then check_block s (load16_aligned addr s off) off (\<lambda>_. scan_ascii s (off + 16))
                         else scan_ascii s off) = Done (first_non_ascii s)"
  using aligned_loop_exact [OF assms] by (auto simp: validate_ascii_tail)

lemma validate_ascii_unaligned:
  assumes "ascii_up_to s 16"
  shows "(if 32 \<le> length s
          then check_block s (load16_unaligned s 16) 16 (\<lambda>_.
                 if 48 \<le> length s then check_block s (load16_unaligned s 32) 32 (\<lambda>_. scan_ascii s 48) else scan_ascii s 32)
          else scan_ascii s 16) = Done (first_non_ascii s)" (is "?lhs = _")
proof -
  have third: "check_block s (load16_unaligned s 32) 32 (\<lambda>_. scan_ascii s 48) = Done (first_non_ascii s)"
    if up: "ascii_up_to s 32" and "48 \<le> length s"
    by (rule unaligned_block_exact [OF up, where n = 16]) (use that in \<open>auto intro: scan_ascii_exact\<close>)
  have second: "check_block s (load16_unaligned s 16) 16 (\<lambda>_.
      if 48 \<le> length s then check_block s (load16_unaligned s 32) 32 (\<lambda>_. scan_ascii s 48) else scan_ascii s 32) = Done (first_non_ascii s)"
    if "32 \<le> length s"
  proof (rule unaligned_block_exact [OF assms, where n = 16])
    assume "ascii_up_to s (16 + 16)"
    then show "(if 48 \<le> length s then check_block s (load16_unaligned s 32) 32 (\<lambda>_. scan_ascii s 48) else scan_ascii s 32) =
      Done (first_non_ascii s)" by (simp add: third scan_ascii_exact)
  qed (use that in simp_all)
  show ?thesis using second scan_ascii_exact [OF assms] by simp
qed

text \<open>For every slice, at every address, the vectorised search returns the first byte above 0x7F with its offset; no read leaves
  the slice and every aligned load is at an address divisible by 16.\<close>

lemma validate_ascii_exact: "validate_ascii addr s = Done (first_non_ascii s)"
proof (cases "16 \<le> length s")
  case True
  define u where "u = (16 - (addr + 16) mod 16) mod 16"
  have u: "u \<le> 16" "(addr + (16 + u)) mod 16 = 0" using until_alignment_aligns [of addr] unfolding u_def by (simp_all add: less_imp_le)
  define go_on where "go_on = (\<lambda>off. case aligned_loop addr s off of UB \<Rightarrow> UB | Panic \<Rightarrow> Panic | Done (Inl r) \<Rightarrow> Done r
      | Done (Inr off) \<Rightarrow> if off + 16 \<le> length s then check_block s (load16_aligned addr s off) off (\<lambda>_. scan_ascii s (off + 16))
                         else scan_ascii s off)"
  have go: "go_on (16 + u) = Done (first_non_ascii s)" if "ascii_up_to s (16 + u)" "u + 48 \<le> length s"
    unfolding go_on_def using that u(2) by (intro validate_ascii_aligned) simp_all
  have first: "(if u + 48 \<le> length s
      then if u \<noteq> 0 then check_block s (load16_unaligned s 16) 16 (\<lambda>_. go_on (16 + u)) else go_on 16
      else if 32 \<le> length s
      then check_block s (load16_unaligned s 16) 16 (\<lambda>_.
             if 48 \<le> length s then check_block s (load16_unaligned s 32) 32 (\<lambda>_. scan_ascii s 48) else scan_ascii s 32)
      else scan_ascii s 16) = Done (first_non_ascii s)" if up: "ascii_up_to s 16"
  proof (cases "u + 48 \<le> length s")
    case len: True
    have "check_block s (load16_unaligned s 16) 16 (\<lambda>_. go_on (16 + u)) = Done (first_non_ascii s)"
      by (rule unaligned_block_exact [OF up, where n = u]) (use len u(1) in \<open>auto intro: go\<close>)
    then show ?thesis using len go up by (cases "u = 0") simp_all
  qed (simp add: validate_ascii_unaligned [OF up])
  show ?thesis unfolding validate_ascii_def Let_def u_def [symmetric] if_P [OF True]
    by (rule unaligned_block_exact [where n = 16]) (use True first [unfolded go_on_def] in \<open>simp_all add: ascii_up_to_def\<close>)
next
  case False
  then show ?thesis by (simp add: validate_ascii_def scan_ascii_exact ascii_up_to_def)
qed

section \<open>The reference: Unicode's table of well-formed sequences\<close>

definition trail :: "u8 \<Rightarrow> bool" where
  "trail b \<longleftrightarrow> 0x80 \<le> b \<and> b \<le> 0xBF"

definition second_ok :: "u8 \<Rightarrow> u8 \<Rightarrow> bool" where
  "second_ok lead b \<longleftrightarrow>
     (if lead = 0xE0 then 0xA0 \<le> b \<and> b \<le> 0xBF
      else if lead = 0xED then 0x80 \<le> b \<and> b \<le> 0x9F
      else if lead = 0xF0 then 0x90 \<le> b \<and> b \<le> 0xBF
      else if lead = 0xF4 then 0x80 \<le> b \<and> b \<le> 0x8F
      else trail b)"

definition sequence_length :: "u8 \<Rightarrow> nat" where
  "sequence_length lead =
     (if lead \<le> 0x7F then 1
      else if 0xC2 \<le> lead \<and> lead \<le> 0xDF then 2
      else if 0xE0 \<le> lead \<and> lead \<le> 0xEF then 3
      else if 0xF0 \<le> lead \<and> lead \<le> 0xF4 then 4
      else 0)"

text \<open>The length of the well-formed sequence that a text starts with, 0 when there is none.\<close>

definition well_formed :: "bytes \<Rightarrow> nat" where
  "well_formed s =
     (case s of
        [] \<Rightarrow> 0
      | lead # rest \<Rightarrow>
          (let n = sequence_length lead
           in if n \<le> length s \<and> (n < 2 \<or> second_ok lead (s ! 1)) \<and> (n < 3 \<or> trail (s ! 2)) \<and> (n < 4 \<or> trail (s ! 3))
              then n else 0))"

function valid_prefix :: "bytes \<Rightarrow> nat" where
  "valid_prefix s = (if well_formed s = 0 then 0 else well_formed s + valid_prefix (drop (well_formed s) s))"
  by auto
termination
  by (relation "measure length") (auto simp: well_formed_def Let_def split: list.splits if_splits)

declare valid_prefix.simps [simp del]

lemma nth_replicate_append: "(replicate k x @ ys) ! n = (if n < k then x else ys ! (n - k))"
  by (simp add: nth_append)

lemma nth_single_append: "([x] @ ys) ! n = (if n = 0 then x else ys ! (n - 1))"
  by (cases n) simp_all

lemma table_second:
  assumes "n < 256"
  shows "UTF8_DATA ! n = (if n < 128 then 252 else if n < 144 then 84 else if n < 160 then 148 else if n < 192 then 164 else 252)"
  using assms unfolding UTF8_DATA_def nth_replicate_append
  by (intro if_cong) auto

lemma table_lead:
  assumes "n < 128"
  shows "UTF8_DATA ! (n + 256) =
    (if n < 66 then 4 else if n < 96 then 8 else if n = 96 then 16 else if n < 109 then 8 else if n = 109 then 32
     else if n < 112 then 8 else if n = 112 then 64 else if n < 116 then 8 else if n = 116 then 128 else 4)"
proof -
  have "UTF8_DATA ! (n + 256) = (replicate 66 4 @ replicate 30 8 @ [16] @ replicate 12 8 @ [32] @ replicate 2 8 @ [64] @ replicate 3 8 @ [128] @ replicate 11 4) ! n"
    unfolding UTF8_DATA_def nth_replicate_append by simp
  also have "\<dots> = (replicate 66 4 @ replicate 30 8 @ [16] @ replicate 12 8 @ [32] @ replicate 2 8 @ [64] @ replicate 3 8 @ [128] @ replicate 11 4 @ []) ! n"
    by (simp only: append_Nil2)
  also have "\<dots> = (if n < 66 then 4 else if n < 96 then 8 else if n = 96 then 16 else if n < 109 then 8 else if n = 109 then 32
     else if n < 112 then 8 else if n = 112 then 64 else if n < 116 then 8 else if n = 116 then 128 else 4)"
    using assms unfolding nth_replicate_append nth_single_append by (intro if_cong) auto
  finally show ?thesis .
qed

lemma range8_iff:
  assumes "a \<le> b"
  shows "in_inclusive_range8 i a b \<longleftrightarrow> a \<le> i \<and> i \<le> b"
proof -
  have "unat b < 256" using unsigned_less [of b, where ?'a = nat] by simp
  then have over: "\<not> unat i + 256 - unat a \<le> unat b - unat a" using assms unfolding word_le_nat_alt by arith
  show ?thesis using assms over by (auto simp: in_inclusive_range8_def word_le_nat_alt unat_sub_if')
qed

lemma top_bits: "drop_bit 6 b = (if b < 0x40 then 0 else if b < 0x80 then 1 else if b \<le> 0xBF then 2 else (3 :: u8))"
proof -
  have "unat (drop_bit 6 b) = unat b div 64" by (simp add: drop_bit_eq_div unat_div)
  moreover have "unat b < 256" using unsigned_less [of b, where ?'a = nat] by simp
  moreover have "n div 64 = (if n < 64 then 0 else if n < 128 then 1 else if n \<le> 191 then 2 else 3)" if "n < 256" for n :: nat
    using that by (auto intro: div_nat_eqI)
  ultimately show ?thesis by (simp add: word_less_nat_alt word_le_nat_alt word_unat_eq_iff)
qed

lemma top_bits_and: "b AND 0xC0 = (if b < 0x40 then 0 else if b < 0x80 then 0x40 else if b \<le> 0xBF then 0x80 else (0xC0 :: u8))"
proof -
  have "b AND push_bit 6 m = push_bit 6 (drop_bit 6 b AND m)" for m :: u8 by (auto simp: bit_eq_iff bit_simps)
  from this [of 3] have "b AND push_bit 6 3 = push_bit 6 (drop_bit 6 b AND 3)" .
  moreover have "push_bit 6 3 = (0xC0 :: u8)" by code_simp
  ultimately have "b AND 0xC0 = push_bit 6 (drop_bit 6 b AND 3)" by simp
  moreover have "push_bit 6 (0 AND 3) = (0 :: u8)" "push_bit 6 (1 AND 3) = (0x40 :: u8)" "push_bit 6 (2 AND 3) = (0x80 :: u8)" "push_bit 6 (3 AND 3) = (0xC0 :: u8)"
    by code_simp+
  ultimately show ?thesis unfolding top_bits by (simp split: if_splits)
qed

lemma trail_top: "drop_bit 6 b = 2 \<longleftrightarrow> trail b"
  unfolding top_bits trail_def by (auto simp: word_less_nat_alt word_le_nat_alt)

lemma trail_top_and: "b AND 0xC0 = 0x80 \<longleftrightarrow> trail b"
  unfolding top_bits_and trail_def by (auto simp: word_less_nat_alt word_le_nat_alt)

lemma lead_value:
  fixes lead :: u8
  assumes "0x80 \<le> lead"
  shows "UTF8_DATA ! (unat lead + 0x80) =
    (if 0xC2 \<le> lead \<and> lead \<le> 0xF4
     then if lead = 0xE0 then 16 else if lead = 0xED then 32 else if lead = 0xF0 then 64 else if lead = 0xF4 then 128 else 8
     else 4)"
proof -
  define n where "n = unat lead - 128"
  have "unat lead < 256" using unsigned_less [of lead, where ?'a = nat] by simp
  moreover have "128 \<le> unat lead" using assms by (simp add: word_le_nat_alt)
  ultimately have l: "unat lead = n + 128" "n < 128" unfolding n_def by arith+
  then have eq: "UTF8_DATA ! (unat lead + 0x80) = UTF8_DATA ! (n + 256)" by (simp add: add.commute)
  have c: "lead = 0xE0 \<longleftrightarrow> n = 96" "lead = 0xED \<longleftrightarrow> n = 109" "lead = 0xF0 \<longleftrightarrow> n = 112" "lead = 0xF4 \<longleftrightarrow> n = 116"
    "0xC2 \<le> lead \<longleftrightarrow> 66 \<le> n" "lead \<le> 0xF4 \<longleftrightarrow> n \<le> 116" by (auto simp: word_unat_eq_iff word_le_nat_alt l)
  show ?thesis unfolding eq table_lead [OF l(2)] c by auto
qed

lemma second_value:
  "UTF8_DATA ! unat (b :: u8) = (if b < 0x80 then 252 else if b < 0x90 then 84 else if b < 0xA0 then 148 else if b < 0xC0 then 164 else 252)"
proof -
  have "unat b < 256" using unsigned_less [of b, where ?'a = nat] by simp
  from table_second [OF this] show ?thesis by (simp add: word_less_nat_alt)
qed

lemma lead_and_second_single: "0x80 \<le> lead \<Longrightarrow> lead_and_second lead b \<in> {0, 4, 8, 16, 32, 64, 128}"
  unfolding lead_and_second_def by (simp add: lead_value second_value)

lemma lead_and_second_zero:
  assumes "0x80 \<le> lead"
  shows "lead_and_second lead b = 0 \<longleftrightarrow> 0xC2 \<le> lead \<and> lead \<le> 0xF4 \<and> second_ok lead b"
  unfolding lead_and_second_def lead_value [OF assms] second_value second_ok_def trail_def
  by (auto simp: word_less_nat_alt word_le_nat_alt)

lemma three_byte_ok_iff:
  assumes "0x80 \<le> lead"
  shows "three_byte_ok lead b c \<longleftrightarrow> 0xC2 \<le> lead \<and> lead \<le> 0xF4 \<and> second_ok lead b \<and> trail c"
proof -
  have "drop_bit 6 c \<in> {0, 1, 2, 3}" unfolding top_bits by simp
  then have "three_byte_ok lead b c \<longleftrightarrow> lead_and_second lead b = 0 \<and> drop_bit 6 c = 2"
    using lead_and_second_single [OF assms, of b] unfolding three_byte_ok_def by (elim insertE) simp_all
  then show ?thesis using lead_and_second_zero [OF assms] by (auto simp: trail_top)
qed

lemma four_byte_ok_iff:
  assumes "0x80 \<le> lead"
  shows "four_byte_ok lead b c d \<longleftrightarrow> 0xC2 \<le> lead \<and> lead \<le> 0xF4 \<and> second_ok lead b \<and> trail c \<and> trail d"
proof -
  have "drop_bit 6 c \<in> {0, 1, 2, 3}" unfolding top_bits by simp
  moreover have "d AND 0xC0 \<in> {0, 0x40, 0x80, 0xC0}" unfolding top_bits_and by simp
  ultimately have "four_byte_ok lead b c d \<longleftrightarrow> lead_and_second lead b = 0 \<and> drop_bit 6 c = 2 \<and> d AND 0xC0 = 0x80"
    using lead_and_second_single [OF assms, of b] unfolding four_byte_ok_def by (elim insertE) simp_all
  then show ?thesis using lead_and_second_zero [OF assms] by (auto simp: trail_top trail_top_and)
qed

section \<open>The loops compute the reference\<close>

definition valid_to :: "bytes \<Rightarrow> nat \<Rightarrow> nat" where
  "valid_to src read = read + valid_prefix (drop read src)"

lemma well_formed_at:
  assumes "read < length src"
  shows "well_formed (drop read src) =
    (let n = sequence_length (src ! read)
     in if read + n \<le> length src \<and> (n < 2 \<or> second_ok (src ! read) (src ! (read + 1))) \<and> (n < 3 \<or> trail (src ! (read + 2))) \<and>
           (n < 4 \<or> trail (src ! (read + 3))) then n else 0)"
proof -
  obtain rest where d: "drop read src = src ! read # rest" using assms by (metis Cons_nth_drop_Suc)
  have nth: "drop read src ! k = src ! (read + k)" for k using assms by simp
  have "well_formed (drop read src) =
    (let n = sequence_length (src ! read)
     in if n \<le> length (drop read src) \<and> (n < 2 \<or> second_ok (src ! read) (drop read src ! 1)) \<and> (n < 3 \<or> trail (drop read src ! 2)) \<and>
           (n < 4 \<or> trail (drop read src ! 3)) then n else 0)"
    unfolding well_formed_def by (subst (1) d) simp
  then show ?thesis unfolding nth using assms by (auto simp: Let_def)
qed

lemma valid_to_stop: "well_formed (drop read src) = 0 \<Longrightarrow> valid_to src read = read"
  by (simp add: valid_to_def valid_prefix.simps)

lemma valid_to_next: "well_formed (drop read src) = n \<Longrightarrow> 0 < n \<Longrightarrow> valid_to src read = valid_to src (read + n)"
  by (simp add: valid_to_def valid_prefix.simps [of "drop read src"] add.commute)

lemma valid_to_end: "valid_to src (length src) = length src"
  by (rule valid_to_stop) (simp add: well_formed_def)

lemma valid_to_ascii:
  assumes "read < length src" and "src ! read < 0x80"
  shows "valid_to src read = valid_to src (read + 1)"
proof -
  have "sequence_length (src ! read) = 1" using assms(2) by (simp add: sequence_length_def word_less_nat_alt word_le_nat_alt)
  then have "well_formed (drop read src) = 1" using assms(1) by (simp add: well_formed_at)
  from valid_to_next [OF this] show ?thesis by simp
qed

lemma valid_to_ascii_run:
  assumes "read + k \<le> length src" and "\<And>i. i < k \<Longrightarrow> src ! (read + i) < 0x80"
  shows "valid_to src read = valid_to src (read + k)"
  using assms by (induction k) (simp_all add: valid_to_ascii)

lemma valid_to_bound: "read \<le> length src \<Longrightarrow> valid_to src read \<le> length src"
proof (induction "length src - read" arbitrary: read rule: less_induct)
  case less
  show ?case
  proof (cases "well_formed (drop read src) = 0")
    case True
    then show ?thesis using less by (simp add: valid_to_stop)
  next
    case False
    then have "read < length src" using less(2) by (cases "read = length src") (auto simp: well_formed_def)
    moreover from this have "read + well_formed (drop read src) \<le> length src" by (simp add: well_formed_at Let_def)
    ultimately show ?thesis using less(1) [of "read + well_formed (drop read src)"] valid_to_next [OF refl, of read src] False by simp
  qed
qed

fun utf8_inv :: "bytes \<Rightarrow> utf8_phase \<Rightarrow> nat \<Rightarrow> bool" where
  "utf8_inv src Outer read \<longleftrightarrow> read \<le> length src"
| "utf8_inv src (Inner byte) read \<longleftrightarrow> read + 4 \<le> length src \<and> byte = src ! read \<and> 0x80 \<le> byte"
| "utf8_inv src (Three byte) read \<longleftrightarrow>
     read + 4 \<le> length src \<and> byte = src ! read \<and> 0x80 \<le> byte \<and> byte < 0xF0 \<and> \<not> (0xC2 \<le> byte \<and> byte \<le> 0xDF)"
| "utf8_inv src Tail read \<longleftrightarrow> read \<le> length src \<and> length src < read + 4"

lemma next_lead_exact:
  assumes "read \<le> length src"
  shows "\<exists>phase read'. next_lead src three read = Done (phase, read') \<and> utf8_inv src phase read' \<and> valid_to src read' = valid_to src read"
proof (cases "read + 4 \<le> length src")
  case True
  consider "three \<and> in_inclusive_range8 (src ! read) 0xE0 0xEF" | "\<not> (three \<and> in_inclusive_range8 (src ! read) 0xE0 0xEF)" "src ! read < 0x80"
    | "\<not> (three \<and> in_inclusive_range8 (src ! read) 0xE0 0xEF)" "\<not> src ! read < 0x80" by blast
  then show ?thesis
  proof cases
    case 1
    then show ?thesis using True by (auto simp: next_lead_def byte_at_def range8_iff word_le_nat_alt word_less_nat_alt)
  next
    case 2
    then show ?thesis using True valid_to_ascii [of read src] by (auto simp: next_lead_def byte_at_def)
  next
    case 3
    then show ?thesis using True by (auto simp: next_lead_def byte_at_def)
  qed
qed (use assms in \<open>simp add: next_lead_def\<close>)

definition good_step :: "bytes \<Rightarrow> nat \<Rightarrow> ((utf8_phase \<times> nat) + nat) outcome \<Rightarrow> bool" where
  "good_step src read r \<longleftrightarrow>
     (case r of
        Done (Inr read') \<Rightarrow> read' = valid_to src read
      | Done (Inl (phase, read')) \<Rightarrow> utf8_inv src phase read' \<and> valid_to src read' = valid_to src read
      | _ \<Rightarrow> False)"

lemma good_step_next:
  assumes "well_formed (drop read src) = n" and "0 < n" and "read + n \<le> length src"
  shows "good_step src read (bind_outcome (next_lead src three (read + n)) (\<lambda>r. Done (Inl r)))"
  using next_lead_exact [OF assms(3), of three] valid_to_next [OF assms(1,2)] by (auto simp: good_step_def)

lemma good_step_stop: "well_formed (drop read src) = 0 \<Longrightarrow> good_step src read (Done (Inr read))"
  by (simp add: good_step_def valid_to_stop)

lemma good_step_outer:
  assumes "read \<le> length src"
  shows "good_step src read (utf8_step addr src Outer read)"
proof -
  let ?k = "length (takeWhile (\<lambda>b. b < 0x80) (drop read src))"
  have k: "read + ?k \<le> length src" using length_takeWhile_le [of "\<lambda>b. b < 0x80" "drop read src"] assms by simp
  have ascii: "src ! (read + i) < 0x80" if "i < ?k" for i
    using nth_mem [OF that] takeWhile_nth [OF that] that assms by (auto dest: set_takeWhileD)
  have run: "valid_to src read = valid_to src (read + ?k)" by (rule valid_to_ascii_run [OF k ascii])
  show ?thesis
  proof (cases "?k < length (drop read src)")
    case True
    then have "\<not> drop read src ! ?k < 0x80" by (rule nth_length_takeWhile)
    then have "0x80 \<le> src ! (read + ?k)" using assms by simp
    then show ?thesis using True assms run k
      by (simp add: validate_ascii_exact first_non_ascii_def good_step_def Let_def)
  next
    case False
    then have "read + ?k = length src" using k by simp
    then have "valid_to src read = length src" using run by (simp add: valid_to_end)
    then show ?thesis using False assms by (simp add: validate_ascii_exact first_non_ascii_def good_step_def)
  qed
qed

lemma sequence_length_cases:
  "0xC2 \<le> b \<Longrightarrow> b \<le> 0xDF \<Longrightarrow> sequence_length b = 2"
  "0xE0 \<le> b \<Longrightarrow> b < 0xF0 \<Longrightarrow> sequence_length b = 3"
  "0xF0 \<le> b \<Longrightarrow> b \<le> 0xF4 \<Longrightarrow> sequence_length b = 4"
  "0x80 \<le> b \<Longrightarrow> \<not> 0xC2 \<le> b \<Longrightarrow> sequence_length b = 0"
  "\<not> b \<le> 0xF4 \<Longrightarrow> sequence_length b = 0"
  by (auto simp: sequence_length_def word_le_nat_alt word_less_nat_alt)

lemma second_ok_two: "0xC2 \<le> b \<Longrightarrow> b \<le> 0xDF \<Longrightarrow> second_ok b c = trail c"
  by (auto simp: second_ok_def word_le_nat_alt)

lemma three_byte_well_formed:
  assumes "read + 3 \<le> length src" and "0x80 \<le> src ! read" and "src ! read < 0xF0" and "\<not> (0xC2 \<le> src ! read \<and> src ! read \<le> 0xDF)"
  shows "well_formed (drop read src) = (if three_byte_ok (src ! read) (src ! (read + 1)) (src ! (read + 2)) then 3 else 0)"
proof (cases "0xC2 \<le> src ! read")
  case True
  then have "0xE0 \<le> src ! read" "src ! read \<le> 0xF4" using assms(3,4) by (auto simp: word_le_nat_alt word_less_nat_alt)
  then show ?thesis using True assms sequence_length_cases(2) [of "src ! read"] by (simp add: well_formed_at three_byte_ok_iff)
next
  case False
  then show ?thesis using assms sequence_length_cases(4) [of "src ! read"] by (simp add: well_formed_at three_byte_ok_iff)
qed

lemma four_byte_well_formed:
  assumes "read + 4 \<le> length src" and "\<not> src ! read < 0xF0"
  shows "well_formed (drop read src) =
    (if four_byte_ok (src ! read) (src ! (read + 1)) (src ! (read + 2)) (src ! (read + 3)) then 4 else 0)"
proof -
  have lead: "0x80 \<le> src ! read" "0xC2 \<le> src ! read" "0xF0 \<le> src ! read" using assms(2) by (auto simp: word_le_nat_alt word_less_nat_alt)
  show ?thesis
  proof (cases "src ! read \<le> 0xF4")
    case True
    then show ?thesis using assms(1) lead sequence_length_cases(3) [of "src ! read"] by (simp add: well_formed_at four_byte_ok_iff)
  next
    case False
    then show ?thesis using assms(1) lead sequence_length_cases(5) [of "src ! read"] by (simp add: well_formed_at four_byte_ok_iff)
  qed
qed

lemma two_byte_well_formed:
  assumes "read < length src" and "0xC2 \<le> src ! read" "src ! read \<le> 0xDF"
  shows "well_formed (drop read src) = (if read + 2 \<le> length src \<and> trail (src ! (read + 1)) then 2 else 0)"
  using assms sequence_length_cases(1) [of "src ! read"] by (simp add: well_formed_at second_ok_two)

lemma range8_trail: "in_inclusive_range8 b 0x80 0xBF = trail b"
  by (simp add: range8_iff trail_def)

lemma range8_two: "in_inclusive_range8 b 0xC2 0xDF \<longleftrightarrow> 0xC2 \<le> b \<and> b \<le> 0xDF"
  by (simp add: range8_iff)

lemma good_step_inner:
  assumes inv: "read + 4 \<le> length src" "byte = src ! read" "0x80 \<le> byte"
  shows "good_step src read (utf8_step addr src (Inner byte) read)"
proof -
  have rd: "byte_at src (read + i) = Done (src ! (read + i))" if "i < 4" for i using that inv(1) by (simp add: byte_at_def)
  have lt: "read < length src" using inv(1) by simp
  consider "in_inclusive_range8 byte 0xC2 0xDF" | "\<not> in_inclusive_range8 byte 0xC2 0xDF" "byte < 0xF0"
    | "\<not> in_inclusive_range8 byte 0xC2 0xDF" "\<not> byte < 0xF0" by blast
  then show ?thesis
  proof cases
    case 1
    then have "0xC2 \<le> src ! read" "src ! read \<le> 0xDF" using inv(2) by (simp_all add: range8_two)
    note wf = two_byte_well_formed [OF lt this]
    show ?thesis using 1 inv(1) wf good_step_next [of read src 2 False] good_step_stop [of read src]
      by (simp add: rd range8_trail del: One_nat_def add_2_eq_Suc' split: if_splits)
  next
    case 2
    have "utf8_step addr src (Inner byte) read = Done (Inl (Three byte, read))" using 2 by simp
    then show ?thesis using inv 2 by (simp add: good_step_def range8_two)
  next
    case 3
    note wf = four_byte_well_formed [OF inv(1) 3(2) [unfolded inv(2)]]
    show ?thesis using 3 inv wf good_step_next [of read src 4 False] good_step_stop [of read src]
      by (simp add: rd del: One_nat_def add_2_eq_Suc' split: if_splits)
  qed
qed

lemma good_step_three:
  assumes "utf8_inv src (Three byte) read"
  shows "good_step src read (utf8_step addr src (Three byte) read)"
proof -
  have inv: "read + 4 \<le> length src" "byte = src ! read" "0x80 \<le> src ! read" "src ! read < 0xF0" "\<not> (0xC2 \<le> src ! read \<and> src ! read \<le> 0xDF)"
    using assms by auto
  have rd: "byte_at src (read + i) = Done (src ! (read + i))" if "i < 4" for i using that inv(1) by (simp add: byte_at_def)
  have wf: "well_formed (drop read src) = (if three_byte_ok (src ! read) (src ! (read + 1)) (src ! (read + 2)) then 3 else 0)"
    using inv by (intro three_byte_well_formed) simp_all
  show ?thesis using inv(1,2) wf good_step_next [of read src 3 True] good_step_stop [of read src] by (simp add: rd del: One_nat_def add_2_eq_Suc' split: if_splits)
qed

lemma good_step_tail:
  assumes "read \<le> length src" and "length src < read + 4"
  shows "good_step src read (utf8_step addr src Tail read)"
proof (cases "read < length src")
  case lt: True
  let ?b = "src ! read"
  consider "?b < 0x80" | "\<not> ?b < 0x80" "0xC2 \<le> ?b" "?b \<le> 0xDF" | "\<not> ?b < 0x80" "\<not> (0xC2 \<le> ?b \<and> ?b \<le> 0xDF)" "\<not> in_inclusive_range8 ?b 0xC2 0xDF" "?b < 0xF0" | "\<not> ?b < 0xF0"
    unfolding range8_two by blast
  then show ?thesis
  proof cases
    case 1
    then show ?thesis using lt assms valid_to_ascii [OF lt 1] by (simp add: good_step_def)
  next
    case 2
    note wf = two_byte_well_formed [OF lt 2(2,3)]
    show ?thesis
    proof (cases "read + 2 \<le> length src \<and> trail (src ! (read + 1))")
      case True
      with wf have "valid_to src read = valid_to src (read + 2)" by (intro valid_to_next) simp_all
      then show ?thesis using 2 True lt assms by (simp add: good_step_def range8_two range8_trail)
    next
      case False
      with wf have "valid_to src read = read" by (intro valid_to_stop) auto
      then show ?thesis using 2 False lt by (auto simp: good_step_def range8_two range8_trail)
    qed
  next
    case 3
    have hi: "0x80 \<le> ?b" using 3(1) by simp
    show ?thesis
    proof (cases "read + 3 \<le> length src")
      case True
      note wf = three_byte_well_formed [OF True hi 3(4,2)]
      have "read + 3 = length src" using True assms(2) by simp
      then have "valid_to src (read + 3) = read + 3" using valid_to_end [of src] by simp
      then show ?thesis using 3 True lt wf valid_to_next [of read src 3] valid_to_stop [of read src] by (simp add: good_step_def)
    next
      case False
      have "well_formed (drop read src) = 0"
      proof (cases "0xC2 \<le> ?b")
        case True
        then have "sequence_length ?b = 3" using 3 by (intro sequence_length_cases) (auto simp: word_le_nat_alt word_less_nat_alt)
        then show ?thesis using False lt by (simp add: well_formed_at)
      next
        case low: False
        then show ?thesis using sequence_length_cases(4) [OF hi low] lt by (simp add: well_formed_at)
      qed
      then show ?thesis using 3 False lt by (simp add: good_step_def valid_to_stop)
    qed
  next
    case 4
    have "well_formed (drop read src) = 0"
    proof (cases "?b \<le> 0xF4")
      case True
      then have "sequence_length ?b = 4" using 4 by (intro sequence_length_cases) simp_all
      then show ?thesis using assms(2) lt by (simp add: well_formed_at)
    next
      case False
      then show ?thesis using sequence_length_cases(5) [OF False] lt by (simp add: well_formed_at)
    qed
    moreover have "\<not> ?b < 0x80" "\<not> in_inclusive_range8 ?b 0xC2 0xDF" using 4 by (auto simp: range8_two word_le_nat_alt word_less_nat_alt)
    ultimately show ?thesis using 4 lt by (simp add: good_step_def valid_to_stop)
  qed
qed (use assms valid_to_end [of src] in \<open>simp add: good_step_def\<close>)

lemma utf8_step_good: "utf8_inv src phase read \<Longrightarrow> good_step src read (utf8_step addr src phase read)"
  using good_step_outer good_step_inner good_step_three good_step_tail by (cases phase) (simp_all only: utf8_inv.simps, auto)

lemma utf8_loop_exact: "utf8_inv src phase read \<Longrightarrow> utf8_loop addr src phase read = Done (valid_to src read)"
proof (induction addr src phase read rule: utf8_loop.induct)
  case (1 addr src phase read)
  have good: "good_step src read (utf8_step addr src phase read)" using 1(2) by (rule utf8_step_good)
  then show ?case
  proof (cases "utf8_step addr src phase read")
    case (Done r)
    then show ?thesis using good 1(1) [OF Done] by (subst utf8_loop.simps) (auto simp: good_step_def split: sum.splits)
  qed (simp_all add: good_step_def)
qed

section \<open>The reference is the encoding of scalar values\<close>

definition scalar :: "nat \<Rightarrow> bool" where
  "scalar c \<longleftrightarrow> c < 0x110000 \<and> \<not> (0xD800 \<le> c \<and> c < 0xE000)"

definition encode_utf8 :: "nat \<Rightarrow> bytes" where
  "encode_utf8 c =
     (if c < 0x80 then [of_nat c]
      else if c < 0x800 then [of_nat (0xC0 + c div 64), of_nat (0x80 + c mod 64)]
      else if c < 0x10000 then [of_nat (0xE0 + c div 64 div 64), of_nat (0x80 + c div 64 mod 64), of_nat (0x80 + c mod 64)]
      else [of_nat (0xF0 + c div 64 div 64 div 64), of_nat (0x80 + c div 64 div 64 mod 64), of_nat (0x80 + c div 64 mod 64),
            of_nat (0x80 + c mod 64)])"

lemma unat_u8: "n < 256 \<Longrightarrow> unat (of_nat n :: u8) = n"
  by (simp add: unat_of_nat take_bit_nat_eq_self)

lemma trail_unat: "trail b \<longleftrightarrow> (\<exists>m<64. unat b = 0x80 + m)"
proof -
  have "trail b \<longleftrightarrow> 0x80 \<le> unat b \<and> unat b \<le> 0xBF" by (simp add: trail_def word_le_nat_alt)
  also have "\<dots> \<longleftrightarrow> (\<exists>m<64. unat b = 0x80 + m)" by presburger
  finally show ?thesis .
qed

lemma second_ok_unat:
  "second_ok lead b \<longleftrightarrow>
     (\<exists>m<64. unat b = 0x80 + m \<and> (unat lead = 0xE0 \<longrightarrow> 32 \<le> m) \<and> (unat lead = 0xED \<longrightarrow> m < 32) \<and> (unat lead = 0xF0 \<longrightarrow> 16 \<le> m) \<and>
       (unat lead = 0xF4 \<longrightarrow> m < 16))"
proof -
  have eq: "lead = 0xE0 \<longleftrightarrow> unat lead = 0xE0" "lead = 0xED \<longleftrightarrow> unat lead = 0xED" "lead = 0xF0 \<longleftrightarrow> unat lead = 0xF0" "lead = 0xF4 \<longleftrightarrow> unat lead = 0xF4"
    by (simp_all add: word_unat_eq_iff)
  show ?thesis unfolding second_ok_def trail_def word_le_nat_alt eq by (simp, presburger)
qed

lemma well_formed_two:
  assumes "unat a = 0xC0 + q" and "2 \<le> q" and "q < 32" and "trail b"
  shows "well_formed (a # b # rest) = 2"
proof -
  have a: "0xC2 \<le> a" "a \<le> 0xDF" using assms(1-3) by (simp_all add: word_le_nat_alt)
  show ?thesis using sequence_length_cases(1) [OF a] second_ok_two [OF a] assms(4) by (simp add: well_formed_def)
qed

lemma well_formed_three:
  assumes "unat a = 0xE0 + q" and "q < 16" and "second_ok a b" and "trail c"
  shows "well_formed (a # b # c # rest) = 3"
proof -
  have a: "0xE0 \<le> a" "a < 0xF0" using assms(1,2) by (simp_all add: word_le_nat_alt word_less_nat_alt)
  show ?thesis using sequence_length_cases(2) [OF a] assms(3,4) by (simp add: well_formed_def)
qed

lemma well_formed_four:
  assumes "unat a = 0xF0 + q" and "q < 5" and "second_ok a b" and "trail c" and "trail d"
  shows "well_formed (a # b # c # d # rest) = 4"
proof -
  have a: "0xF0 \<le> a" "a \<le> 0xF4" using assms(1,2) by (simp_all add: word_le_nat_alt)
  show ?thesis using sequence_length_cases(3) [OF a] assms(3-5) by (simp add: well_formed_def)
qed

lemma trail_of_nat: "m < 64 \<Longrightarrow> trail (of_nat (0x80 + m))"
  unfolding trail_unat by (rule exI [of _ m]) (simp add: unat_u8 del: of_nat_add)

lemma div_mod_digits:
  "(c :: nat) = c div 64 div 64 * 4096 + c div 64 mod 64 * 64 + c mod 64"
  "c = c div 64 div 64 div 64 * 262144 + c div 64 div 64 mod 64 * 4096 + c div 64 mod 64 * 64 + c mod 64"
proof -
  have d: "n = n div 64 * 64 + n mod 64" for n :: nat by simp
  have "c = c div 64 * 64 + c mod 64" "c div 64 = c div 64 div 64 * 64 + c div 64 mod 64"
    "c div 64 div 64 = c div 64 div 64 div 64 * 64 + c div 64 div 64 mod 64" by (rule d)+
  then show "c = c div 64 div 64 * 4096 + c div 64 mod 64 * 64 + c mod 64"
    "c = c div 64 div 64 div 64 * 262144 + c div 64 div 64 mod 64 * 4096 + c div 64 mod 64 * 64 + c mod 64" by linarith+
qed

lemma well_formed_encode:
  assumes "scalar c"
  shows "well_formed (encode_utf8 c @ rest) = length (encode_utf8 c)"
proof -
  consider "c < 0x80" | "0x80 \<le> c" "c < 0x800" | "0x800 \<le> c" "c < 0x10000" | "0x10000 \<le> c" "c < 0x110000"
    using assms unfolding scalar_def by linarith
  then show ?thesis
  proof cases
    case 1
    then show ?thesis by (simp add: encode_utf8_def well_formed_def sequence_length_def word_le_nat_alt unat_u8)
  next
    case 2
    have q: "2 \<le> c div 64" "c div 64 < 32" using 2 by (simp_all add: less_eq_div_iff_mult_less_eq div_less_iff_less_mult)
    have "well_formed (of_nat (0xC0 + c div 64) # of_nat (0x80 + c mod 64) # rest) = 2"
      using q by (intro well_formed_two [where q = "c div 64"] trail_of_nat unat_u8) simp_all
    then show ?thesis using 2 by (simp add: encode_utf8_def del: of_nat_add)
  next
    case 3
    define q where "q = c div 64 div 64"
    have q: "q < 16" "q = 0 \<longrightarrow> 32 \<le> c div 64 mod 64" "q = 13 \<longrightarrow> c div 64 mod 64 < 32"
    proof -
      define x m where "x = c div 64 mod 64" and "m = c mod 64"
      have "c = q * 4096 + x * 64 + m" "m < 64" "x < 64" unfolding q_def x_def m_def by (rule div_mod_digits) simp_all
      moreover have "c < 0xD800 \<or> 0xE000 \<le> c" using assms unfolding scalar_def by linarith
      ultimately show "q < 16" "q = 0 \<longrightarrow> 32 \<le> c div 64 mod 64" "q = 13 \<longrightarrow> c div 64 mod 64 < 32"
        using 3 unfolding x_def [symmetric] by auto
    qed
    have u: "unat (of_nat (0xE0 + q) :: u8) = 0xE0 + q" using q(1) by (intro unat_u8) simp
    have "second_ok (of_nat (0xE0 + q)) (of_nat (0x80 + c div 64 mod 64))"
      unfolding second_ok_unat u using q by (intro exI [of _ "c div 64 mod 64"]) (simp add: unat_u8 del: of_nat_add)
    then have "well_formed (of_nat (0xE0 + q) # of_nat (0x80 + c div 64 mod 64) # of_nat (0x80 + c mod 64) # rest) = 3"
      using u q(1) by (intro well_formed_three [where q = q] trail_of_nat) simp_all
    then show ?thesis using 3 by (simp add: encode_utf8_def q_def del: of_nat_add)
  next
    case 4
    define q where "q = c div 64 div 64 div 64"
    have q: "q < 5" "q = 0 \<longrightarrow> 16 \<le> c div 64 div 64 mod 64" "q = 4 \<longrightarrow> c div 64 div 64 mod 64 < 16"
    proof -
      define x y m where "x = c div 64 div 64 mod 64" and "y = c div 64 mod 64" and "m = c mod 64"
      have "c = q * 262144 + x * 4096 + y * 64 + m" "m < 64" "y < 64" "x < 64" unfolding q_def x_def y_def m_def by (rule div_mod_digits) simp_all
      then show "q < 5" "q = 0 \<longrightarrow> 16 \<le> c div 64 div 64 mod 64" "q = 4 \<longrightarrow> c div 64 div 64 mod 64 < 16"
        using 4 unfolding x_def [symmetric] by auto
    qed
    have u: "unat (of_nat (0xF0 + q) :: u8) = 0xF0 + q" using q(1) by (intro unat_u8) simp
    have "second_ok (of_nat (0xF0 + q)) (of_nat (0x80 + c div 64 div 64 mod 64))"
      unfolding second_ok_unat u using q by (intro exI [of _ "c div 64 div 64 mod 64"]) (simp add: unat_u8 del: of_nat_add)
    then have "well_formed (of_nat (0xF0 + q) # of_nat (0x80 + c div 64 div 64 mod 64) # of_nat (0x80 + c div 64 mod 64) # of_nat (0x80 + c mod 64) # rest) = 4"
      using u q(1) by (intro well_formed_four [where q = q] trail_of_nat) simp_all
    then show ?thesis using 4 by (simp add: encode_utf8_def q_def del: of_nat_add)
  qed
qed

lemma u8_of_unat: "unat (a :: u8) = k \<Longrightarrow> of_nat k = a"
  by auto

lemma encode_digits:
  "2 \<le> q \<Longrightarrow> q < 32 \<Longrightarrow> m < 64 \<Longrightarrow> encode_utf8 (q * 64 + m) = [of_nat (0xC0 + q), of_nat (0x80 + m)]"
  "q < 16 \<Longrightarrow> x < 64 \<Longrightarrow> m < 64 \<Longrightarrow> (q = 0 \<longrightarrow> 32 \<le> x) \<Longrightarrow>
     encode_utf8 ((q * 64 + x) * 64 + m) = [of_nat (0xE0 + q), of_nat (0x80 + x), of_nat (0x80 + m)]"
  "q < 5 \<Longrightarrow> x < 64 \<Longrightarrow> y < 64 \<Longrightarrow> m < 64 \<Longrightarrow> (q = 0 \<longrightarrow> 16 \<le> x) \<Longrightarrow>
     encode_utf8 (((q * 64 + x) * 64 + y) * 64 + m) = [of_nat (0xF0 + q), of_nat (0x80 + x), of_nat (0x80 + y), of_nat (0x80 + m)]"
proof -
  have d: "(n * 64 + k) div 64 = n" "(n * 64 + k) mod 64 = k" if "k < 64" for n k :: nat using that by simp_all
  show "encode_utf8 (q * 64 + m) = [of_nat (0xC0 + q), of_nat (0x80 + m)]" if "2 \<le> q" "q < 32" "m < 64"
  proof -
    have "\<not> q * 64 + m < 0x80" "q * 64 + m < 0x800" using that by linarith+
    then show ?thesis unfolding encode_utf8_def d [OF that(3)] by (simp only: if_True if_False)
  qed
  show "encode_utf8 ((q * 64 + x) * 64 + m) = [of_nat (0xE0 + q), of_nat (0x80 + x), of_nat (0x80 + m)]"
    if "q < 16" "x < 64" "m < 64" "q = 0 \<longrightarrow> 32 \<le> x"
  proof -
    have "0x800 \<le> (q * 64 + x) * 64 + m" using that(4) by (cases q) simp_all
    moreover have "(q * 64 + x) * 64 + m < 0x10000" using that(1-3) by auto
    ultimately have "\<not> (q * 64 + x) * 64 + m < 0x80" "\<not> (q * 64 + x) * 64 + m < 0x800" "(q * 64 + x) * 64 + m < 0x10000" by linarith+
    then show ?thesis unfolding encode_utf8_def d [OF that(3)] d [OF that(2)] by (simp only: if_True if_False)
  qed
  show "encode_utf8 (((q * 64 + x) * 64 + y) * 64 + m) = [of_nat (0xF0 + q), of_nat (0x80 + x), of_nat (0x80 + y), of_nat (0x80 + m)]"
    if "q < 5" "x < 64" "y < 64" "m < 64" "q = 0 \<longrightarrow> 16 \<le> x"
  proof -
    have "0x10000 \<le> ((q * 64 + x) * 64 + y) * 64 + m" using that(5) by (cases q) simp_all
    then have "\<not> ((q * 64 + x) * 64 + y) * 64 + m < 0x80" "\<not> ((q * 64 + x) * 64 + y) * 64 + m < 0x800" "\<not> ((q * 64 + x) * 64 + y) * 64 + m < 0x10000"
      by linarith+
    then show ?thesis unfolding encode_utf8_def d [OF that(4)] d [OF that(3)] d [OF that(2)] by (simp only: if_True if_False)
  qed
qed

lemma well_formed_decode:
  assumes "0 < well_formed s"
  shows "\<exists>c. scalar c \<and> take (well_formed s) s = encode_utf8 c"
proof -
  define a where "a = s ! 0"
  define n where "n = sequence_length a"
  have s: "well_formed s = n" "0 < n" "n \<le> length s" "n < 2 \<or> second_ok a (s ! 1)" "n < 3 \<or> trail (s ! 2)" "n < 4 \<or> trail (s ! 3)"
    using assms by (auto simp: a_def n_def well_formed_def Let_def split: list.splits if_splits)
  have t: "take 1 s = [s ! 0]" if "1 \<le> length s" using that by (cases s) auto
  have t2: "take 2 s = [s ! 0, s ! 1]" if "2 \<le> length s" using that by (auto simp: eval_nat_numeral Suc_le_length_iff)
  have t3: "take 3 s = [s ! 0, s ! 1, s ! 2]" if "3 \<le> length s" using that by (auto simp: eval_nat_numeral Suc_le_length_iff)
  have t4: "take 4 s = [s ! 0, s ! 1, s ! 2, s ! 3]" if "4 \<le> length s" using that by (auto simp: eval_nat_numeral Suc_le_length_iff)
  consider "n = 1" "a \<le> 0x7F" | "n = 2" "0xC2 \<le> a" "a \<le> 0xDF" | "n = 3" "0xE0 \<le> a" "a \<le> 0xEF" | "n = 4" "0xF0 \<le> a" "a \<le> 0xF4"
    using s(2) unfolding n_def sequence_length_def by (auto split: if_splits)
  then show ?thesis
  proof cases
    case 1
    then have "unat a < 128" by (simp add: word_le_nat_alt)
    then show ?thesis using 1 s(1,3) t by (intro exI [of _ "unat a"]) (simp add: scalar_def encode_utf8_def a_def)
  next
    case 2
    obtain q where q: "unat a = 0xC0 + q" "2 \<le> q" "q < 32" using 2 by (intro that [of "unat a - 0xC0"]) (auto simp: word_le_nat_alt)
    obtain m where m: "m < 64" "unat (s ! 1) = 0x80 + m" using s(4) 2 second_ok_two [OF 2(2,3)] by (auto simp: trail_unat)
    have "take n s = encode_utf8 (q * 64 + m)"
      unfolding encode_digits(1) [OF q(2,3) m(1)] u8_of_unat [OF q(1)] u8_of_unat [OF m(2)] using 2 s(3) t2 by (simp add: a_def)
    moreover have "scalar (q * 64 + m)" using q(2,3) m(1) unfolding scalar_def by auto
    ultimately show ?thesis using s(1) by auto
  next
    case 3
    obtain q where q: "unat a = 0xE0 + q" "q < 16" using 3 by (intro that [of "unat a - 0xE0"]) (auto simp: word_le_nat_alt)
    obtain x where x: "x < 64" "unat (s ! 1) = 0x80 + x" "q = 0 \<longrightarrow> 32 \<le> x" "q = 13 \<longrightarrow> x < 32"
      using s(4) 3 q(1) by (auto simp: second_ok_unat)
    obtain m where m: "m < 64" "unat (s ! 2) = 0x80 + m" using s(5) 3 by (auto simp: trail_unat)
    have "take n s = encode_utf8 ((q * 64 + x) * 64 + m)"
      unfolding encode_digits(2) [OF q(2) x(1) m(1) x(3)] u8_of_unat [OF q(1)] u8_of_unat [OF m(2)] u8_of_unat [OF x(2)]
      using 3 s(3) t3 by (simp add: a_def)
    moreover have "scalar ((q * 64 + x) * 64 + m)"
    proof -
      consider "q \<le> 12" | "q = 13" | "14 \<le> q" by linarith
      then show ?thesis using q(2) x m(1) unfolding scalar_def by cases auto
    qed
    ultimately show ?thesis using s(1) by auto
  next
    case 4
    obtain q where q: "unat a = 0xF0 + q" "q < 5" using 4 by (intro that [of "unat a - 0xF0"]) (auto simp: word_le_nat_alt)
    obtain x where x: "x < 64" "unat (s ! 1) = 0x80 + x" "q = 0 \<longrightarrow> 16 \<le> x" "q = 4 \<longrightarrow> x < 16"
      using s(4) 4 q(1) by (auto simp: second_ok_unat)
    obtain y where y: "y < 64" "unat (s ! 2) = 0x80 + y" using s(5) 4 by (auto simp: trail_unat)
    obtain m where m: "m < 64" "unat (s ! 3) = 0x80 + m" using s(6) 4 by (auto simp: trail_unat)
    have "take n s = encode_utf8 (((q * 64 + x) * 64 + y) * 64 + m)"
      unfolding encode_digits(3) [OF q(2) x(1) y(1) m(1) x(3)] u8_of_unat [OF q(1)] u8_of_unat [OF m(2)] u8_of_unat [OF x(2)] u8_of_unat [OF y(2)]
      using 4 s(3) t4 by (simp add: a_def)
    moreover have "scalar (((q * 64 + x) * 64 + y) * 64 + m)"
    proof -
      consider "q = 0" | "1 \<le> q" "q \<le> 3" | "q = 4" using q(2) by linarith
      then show ?thesis using x y(1) m(1) unfolding scalar_def by cases auto
    qed
    ultimately show ?thesis using s(1) by auto
  qed
qed

text \<open>\<open>core::str::from_utf8\<close> of the standard library: the error has the length of the valid part and the length of the sequence that
  is broken there, None when the text ends in the middle of a sequence.\<close>

definition error_len :: "bytes \<Rightarrow> nat option" where
  "error_len s =
     (let n = sequence_length (s ! 0)
      in if n = 0 then Some 1
         else if length s < 2 then None else if \<not> second_ok (s ! 0) (s ! 1) then Some 1
         else if length s < 3 then None else if \<not> trail (s ! 2) then Some 2
         else if length s < 4 then None else Some 3)"

definition std_from_utf8 :: "bytes \<Rightarrow> (nat \<times> nat option) + unit" where
  "std_from_utf8 s =
     (let n = valid_prefix s in if n = length s then Inr () else Inl (n, error_len (drop n s)))"

text \<open>The release build: when the standard library accepts what follows the index, the branch is declared unreachable.\<close>

definition validate_utf8 :: "nat \<Rightarrow> bytes \<Rightarrow> ((nat \<times> nat option) + unit) outcome" where
  "validate_utf8 addr v =
     bind_outcome (utf8_valid_up_to addr v) (\<lambda>index.
       if index = length v then Done (Inr ())
       else case std_from_utf8 (drop index v) of
              Inr _ \<Rightarrow> UB
            | Inl (_, err) \<Rightarrow> Done (Inl (index, err)))"

lemma utf8_valid_up_to_prefix: "utf8_valid_up_to addr src = Done (valid_prefix src)"
  using utf8_loop_exact [of src Outer 0 addr] valid_to_bound [of 0 src] by (simp add: utf8_valid_up_to_def valid_to_def)

lemma valid_prefix_maximal: "well_formed (drop (valid_prefix s) s) = 0"
proof (induction s rule: valid_prefix.induct)
  case (1 s)
  then show ?case by (cases "well_formed s = 0") (simp_all add: valid_prefix.simps [of s] add.commute)
qed

lemma valid_prefix_le: "valid_prefix s \<le> length s"
  using valid_to_bound [of 0 s] by (simp add: valid_to_def)

lemma valid_prefix_decode: "\<exists>cs. list_all scalar cs \<and> take (valid_prefix s) s = concat (map encode_utf8 cs)"
proof (induction s rule: valid_prefix.induct)
  case (1 s)
  show ?case
  proof (cases "well_formed s = 0")
    case True
    then show ?thesis by (intro exI [of _ "[]"]) (simp add: valid_prefix.simps [of s])
  next
    case False
    obtain c where c: "scalar c" "take (well_formed s) s = encode_utf8 c" using False well_formed_decode by blast
    obtain cs where "list_all scalar cs" "take (valid_prefix (drop (well_formed s) s)) (drop (well_formed s) s) = concat (map encode_utf8 cs)"
      using 1 [OF False] by blast
    then show ?thesis using c False by (intro exI [of _ "c # cs"]) (simp add: valid_prefix.simps [of s] take_add)
  qed
qed

lemma encode_utf8_nonempty: "encode_utf8 c \<noteq> []"
  by (simp add: encode_utf8_def)

lemma valid_prefix_encode: "list_all scalar cs \<Longrightarrow> valid_prefix (concat (map encode_utf8 cs) @ rest) = length (concat (map encode_utf8 cs)) + valid_prefix rest"
proof (induction cs)
  case (Cons c cs)
  let ?tail = "concat (map encode_utf8 cs) @ rest"
  have "well_formed (encode_utf8 c @ ?tail) = length (encode_utf8 c)" using Cons(2) by (simp add: well_formed_encode)
  moreover have "0 < length (encode_utf8 c)" by (simp add: encode_utf8_nonempty)
  ultimately show ?case using Cons by (simp add: valid_prefix.simps [of "encode_utf8 c @ ?tail"])
qed simp

text \<open>C26: C? (crates/byte_str/src/utf8.rs, utf8_valid_up_to, utf8/ascii.rs, validate_ascii): for every slice at every address the
  vectorised validation terminates without undefined behaviour, and returns the length of the longest prefix that is the UTF-8
  encoding of a sequence of Unicode scalar values: the prefix decodes, and no encoded scalar value starts where it stops.\<close>

theorem utf8_valid_up_to_exact:
  "\<exists>n cs. utf8_valid_up_to addr src = Done n \<and> n \<le> length src \<and> list_all scalar cs \<and> take n src = concat (map encode_utf8 cs) \<and>
     \<not> (\<exists>c rest. scalar c \<and> drop n src = encode_utf8 c @ rest)"
proof -
  obtain cs where cs: "list_all scalar cs" "take (valid_prefix src) src = concat (map encode_utf8 cs)" using valid_prefix_decode by blast
  have "\<not> (\<exists>c rest. scalar c \<and> drop (valid_prefix src) src = encode_utf8 c @ rest)"
    using valid_prefix_maximal [of src] well_formed_encode encode_utf8_nonempty by (metis length_0_conv)
  then show ?thesis using cs valid_prefix_le [of src] utf8_valid_up_to_prefix [of addr src] by blast
qed

lemma valid_prefix_iff: "valid_prefix v = length v \<longleftrightarrow> (\<exists>cs. list_all scalar cs \<and> v = concat (map encode_utf8 cs))"
proof
  assume "valid_prefix v = length v"
  then show "\<exists>cs. list_all scalar cs \<and> v = concat (map encode_utf8 cs)" using valid_prefix_decode [of v] by simp
next
  assume "\<exists>cs. list_all scalar cs \<and> v = concat (map encode_utf8 cs)"
  then obtain cs where cs: "list_all scalar cs" "v = concat (map encode_utf8 cs)" by blast
  have "valid_prefix [] = 0" by (simp add: valid_prefix.simps well_formed_def)
  with valid_prefix_encode [OF cs(1), of "[]"] show "valid_prefix v = length v" by (simp add: cs(2))
qed

text \<open>(crates/byte_str/src/utf8.rs, is_valid_utf8): a slice is accepted exactly when it is the UTF-8 encoding of some sequence of
  Unicode scalar values.\<close>

theorem is_valid_utf8_exact:
  "is_valid_utf8 addr v = Done (\<exists>cs. list_all scalar cs \<and> v = concat (map encode_utf8 cs))"
  by (simp add: is_valid_utf8_def utf8_valid_up_to_prefix valid_prefix_iff)

lemma validate_utf8_std: "validate_utf8 addr v = Done (std_from_utf8 v)"
proof (cases "valid_prefix v = length v")
  case False
  have "valid_prefix (drop (valid_prefix v) v) = 0" using valid_prefix_maximal [of v] by (subst valid_prefix.simps) simp
  then show ?thesis using False valid_prefix_le [of v] by (simp add: validate_utf8_def utf8_valid_up_to_prefix std_from_utf8_def Let_def)
qed (simp add: validate_utf8_def utf8_valid_up_to_prefix std_from_utf8_def)

text \<open>(crates/byte_str/src/utf8.rs, validate_utf8): the result is that of the standard library's \<open>from_utf8\<close> on the whole slice,
  with the same error position and error length; the branch that the release build declares unreachable is never taken.\<close>

theorem validate_utf8_exact: "validate_utf8 addr v = Done (std_from_utf8 v)"
  by (rule validate_utf8_std)

section \<open>Texts and their character boundaries\<close>

definition valid_utf8 :: "bytes \<Rightarrow> bool" where
  "valid_utf8 b \<longleftrightarrow> (\<exists>cs. list_all scalar cs \<and> b = concat (map encode_utf8 cs))"

text \<open>\<open>str::is_char_boundary\<close>.\<close>

definition is_char_boundary :: "bytes \<Rightarrow> nat \<Rightarrow> bool" where
  "is_char_boundary s i \<longleftrightarrow> i = 0 \<or> i = length s \<or> i < length s \<and> \<not> (0x80 \<le> s ! i \<and> s ! i < 0xC0)"

lemma valid_utf8_prefix: "valid_prefix b = length b \<longleftrightarrow> valid_utf8 b"
  by (simp add: valid_prefix_iff valid_utf8_def)

lemma encode_shape:
  assumes "scalar c"
  shows "\<exists>lead trails. encode_utf8 c = lead # trails \<and> \<not> trail lead \<and> (\<forall>b \<in> set trails. trail b)"
proof -
  have t: "trail (of_nat (0x80 + n mod 64))" for n by (rule trail_of_nat) simp
  have lead: "\<not> trail (of_nat k)" if "k < 256" "k < 0x80 \<or> 0xC0 \<le> k" for k
    using that unfolding trail_unat unat_u8 [OF that(1)] by presburger
  have q: "c < 0x800 \<Longrightarrow> c div 64 < 32" "c < 0x10000 \<Longrightarrow> c div 64 div 64 < 16" "c < 0x110000 \<Longrightarrow> c div 64 div 64 div 64 < 5"
    by (simp_all add: div_mult2_eq [symmetric] less_mult_imp_div_less)
  consider "c < 0x80" | "\<not> c < 0x80" "c < 0x800" | "\<not> c < 0x80" "\<not> c < 0x800" "c < 0x10000" | "\<not> c < 0x80" "\<not> c < 0x800" "\<not> c < 0x10000" "c < 0x110000"
    using assms unfolding scalar_def by blast
  then show ?thesis
    by cases (use q in \<open>simp_all add: encode_utf8_def t lead del: of_nat_add\<close>)
qed

lemma boundary_split:
  assumes "list_all scalar cs" and "s = concat (map encode_utf8 cs)" and "i < length s" and "\<not> trail (s ! i)"
  shows "\<exists>k. take i s = concat (map encode_utf8 (take k cs)) \<and> drop i s = concat (map encode_utf8 (drop k cs))"
  using assms
proof (induction cs arbitrary: s i)
  case (Cons c cs)
  obtain lead trails where e: "encode_utf8 c = lead # trails" "\<forall>b \<in> set trails. trail b" using encode_shape [of c] Cons(2) by auto
  show ?case
  proof (cases "i < length (encode_utf8 c)")
    case True
    have "i = 0"
    proof (rule ccontr)
      assume "i \<noteq> 0"
      then have "s ! i \<in> set trails" using True Cons(3) e(1) by (auto simp: nth_append nth_Cons')
      then show False using Cons(5) e(2) by simp
    qed
    then show ?thesis using Cons(3) by (intro exI [of _ 0]) simp
  next
    case False
    let ?s = "concat (map encode_utf8 cs)" and ?i = "i - length (encode_utf8 c)"
    have "?i < length ?s" "\<not> trail (?s ! ?i)" using False Cons(3-5) by (auto simp: nth_append)
    then obtain k where "take ?i ?s = concat (map encode_utf8 (take k cs))" "drop ?i ?s = concat (map encode_utf8 (drop k cs))"
      using Cons(1) [OF _ refl, of ?i] Cons(2) by auto
    then show ?thesis using False Cons(3) by (intro exI [of _ "Suc k"]) simp
  qed
qed simp

lemma valid_utf8_nil: "valid_utf8 []"
  unfolding valid_utf8_def by (rule exI [of _ "[]"]) simp

lemma valid_utf8_rest:
  assumes "valid_utf8 d" and "valid_utf8 (d @ rest)"
  shows "valid_utf8 rest"
proof -
  obtain ds where "list_all scalar ds" "d = concat (map encode_utf8 ds)" using assms(1) by (auto simp: valid_utf8_def)
  then have "valid_prefix (d @ rest) = length d + valid_prefix rest" using valid_prefix_encode by blast
  then show ?thesis using assms(2) unfolding valid_utf8_prefix [symmetric] by simp
qed

text \<open>What follows a boundary is text, and so is what precedes it; nothing else is.\<close>

lemma not_trail_iff: "\<not> (0x80 \<le> b \<and> b < 0xC0) \<longleftrightarrow> \<not> trail b"
  by (auto simp: trail_def word_le_nat_alt word_less_nat_alt)

lemma valid_utf8_head: "valid_utf8 (b # s) \<Longrightarrow> \<not> trail b"
proof -
  assume "valid_utf8 (b # s)"
  then obtain cs where cs: "list_all scalar cs" "b # s = concat (map encode_utf8 cs)" by (auto simp: valid_utf8_def)
  then obtain c cs' where c: "cs = c # cs'" by (cases cs) auto
  then show ?thesis using cs encode_shape [of c] by auto
qed

lemma valid_split:
  assumes "valid_utf8 s" and "is_char_boundary s i" and "i \<le> length s"
  shows "valid_utf8 (take i s)" and "valid_utf8 (drop i s)"
proof -
  obtain cs where cs: "list_all scalar cs" "s = concat (map encode_utf8 cs)" using assms(1) by (auto simp: valid_utf8_def)
  consider "i = 0" | "i = length s" | "i < length s" "\<not> trail (s ! i)"
    using assms(2) unfolding is_char_boundary_def not_trail_iff by blast
  then have "\<exists>k. take i s = concat (map encode_utf8 (take k cs)) \<and> drop i s = concat (map encode_utf8 (drop k cs))"
  proof cases
    case 2
    then show ?thesis using cs by (intro exI [of _ "length cs"]) simp
  next
    case 3
    then show ?thesis using boundary_split [OF cs] by blast
  qed (use cs in \<open>auto intro: exI [of _ 0]\<close>)
  moreover have "list_all scalar (take k cs)" "list_all scalar (drop k cs)" for k
    using cs(1) by (auto simp: list_all_iff dest: in_set_takeD in_set_dropD)
  ultimately show "valid_utf8 (take i s)" "valid_utf8 (drop i s)" unfolding valid_utf8_def by metis+
qed

lemma valid_drop_iff:
  assumes "valid_utf8 s" and "i \<le> length s"
  shows "valid_utf8 (drop i s) \<longleftrightarrow> is_char_boundary s i"
proof
  assume v: "valid_utf8 (drop i s)"
  show "is_char_boundary s i"
  proof (cases "i < length s")
    case True
    then have "drop i s = s ! i # drop (Suc i) s" by (rule Cons_nth_drop_Suc [symmetric])
    then have "\<not> trail (s ! i)" using valid_utf8_head v by simp
    then show ?thesis using True unfolding is_char_boundary_def not_trail_iff by simp
  qed (use assms(2) in \<open>simp add: is_char_boundary_def\<close>)
qed (rule valid_split [OF assms(1) _ assms(2)])

text \<open>An ASCII byte stands between boundaries.\<close>

lemma ascii_boundaries:
  assumes "valid_utf8 (x @ b # y)" and "b < 0x80"
  shows "is_char_boundary (x @ b # y) (length x)" and "is_char_boundary (x @ b # y) (Suc (length x))"
proof -
  have "\<not> trail b" using assms(2) by (simp add: trail_def word_le_nat_alt word_less_nat_alt)
  then show l: "is_char_boundary (x @ b # y) (length x)" unfolding is_char_boundary_def not_trail_iff by simp
  have "valid_utf8 (b # y)" using valid_split(2) [OF assms(1) l] by simp
  moreover have "valid_utf8 [b]"
    unfolding valid_utf8_def by (rule exI [of _ "[unat b]"]) (use assms(2) in \<open>simp add: scalar_def encode_utf8_def word_less_nat_alt\<close>)
  ultimately have "valid_utf8 y" using valid_utf8_rest [of "[b]" y] by simp
  then show "is_char_boundary (x @ b # y) (Suc (length x))" using valid_drop_iff [OF assms(1), of "Suc (length x)"] by simp
qed

end
