(* ===== verification/Stream_Decoder.thy ===== *)
theory Stream_Decoder
  imports Grpc_Decoder Utf8
begin

text \<open>
  The decoder of chat streams, from \<open>src/core/stream/decoder.rs\<close>, \<open>decoder/utils.rs\<close>, the conversion of thinking
  parts in \<open>src/core/aiserver/v1.rs\<close> and \<open>src/core/adapter/utils/tool_id.rs\<close>.  It cuts frames off the
  receive buffer, turns them into messages (text, thinking, tool calls sent as growing snapshots, web
  references, end of stream) and caches the first result.  The protobuf and JSON codecs are arguments.
\<close>

section \<open>Messages\<close>

record web_reference =
  title :: str
  url :: str
  chunk :: str

datatype thinking = ThinkText str | Signature str | RedactedThinking str

record tool_call =
  tc_id :: str
  tc_name :: str
  tc_input :: str
  is_last :: bool

datatype stream_message =
    WebReference "web_reference list"
  | Thinking thinking
  | Content str
  | ToolCall tool_call
  | StreamEnd

definition WEB_REFERENCES :: str where
  "WEB_REFERENCES = bytes_of ''WebReferences:'' @ [0x0A]"

fun web_ref_lines :: "nat \<Rightarrow> web_reference list \<Rightarrow> str" where
  "web_ref_lines i [] = []"
| "web_ref_lines i (r # rs) =
     decimal (i + 1) @ bytes_of ''. ['' @ title r @ bytes_of ''](''  @ url r @ bytes_of '')'' @ [0x0A]
       @ web_ref_lines (i + 1) rs"

fun convert_web_ref_to_content :: "stream_message \<Rightarrow> stream_message" where
  "convert_web_ref_to_content (WebReference refs) =
     (if refs = [] then Content []
      else Content (WEB_REFERENCES @ web_ref_lines 0 refs @ [0x0A]))"
| "convert_web_ref_to_content other = other"

fun any_content :: "stream_message \<Rightarrow> bool" where
  "any_content (Content s) = (s \<noteq> [])"
| "any_content (Thinking (ThinkText s)) = (s \<noteq> [])"
| "any_content (Thinking (Signature s)) = (s \<noteq> [])"
| "any_content (ToolCall t) = (tc_input t \<noteq> [])"
| "any_content _ = False"

section \<open>Responses of the backend\<close>

record mcp_tool =
  server_name :: str
  tool_name :: str

record client_side_tool_call =
  ct_params :: "mcp_tool list option"
  ct_tool_call_id :: str
  ct_is_streaming :: bool
  ct_is_last_message :: bool
  ct_raw_args :: str
  ct_model_call_id :: "str option"

record pb_thinking =
  pt_text :: str
  pt_signature :: str
  pt_redacted :: str

record chat_response =
  cr_text :: str
  cr_thinking :: "pb_thinking option"
  cr_web_citation :: "web_reference list option"

datatype response = ClientSideToolV2Call client_side_tool_call | StreamUnifiedChatResponse chat_response

text \<open>What is decoded elsewhere: deflate, the protobuf wrapper (the inner option: no response set), the JSON error and
  whether it says that the user aborted.\<close>

record 'e codecs =
  gz_read :: "bytes \<Rightarrow> bytes option"
  pb_decode :: "bytes \<Rightarrow> response option option"
  parse_error :: "bytes \<Rightarrow> 'e option"
  user_aborted :: "'e \<Rightarrow> bool"

definition thinking_of :: "pb_thinking \<Rightarrow> thinking" where
  "thinking_of t =
     (if pt_text t \<noteq> [] then ThinkText (pt_text t)
      else if pt_signature t \<noteq> [] then Signature (pt_signature t)
      else if pt_redacted t \<noteq> [] then RedactedThinking (pt_redacted t)
      else ThinkText (pt_text t))"

section \<open>Tool calls\<close>

text \<open>Is the first \<open>:\<close> or \<open>,\<close> outside a string followed by a space?  An escape skips two bytes.\<close>

fun has_space_loop :: "bool \<Rightarrow> bytes \<Rightarrow> bool" where
  "has_space_loop in_string [] = False"
| "has_space_loop True (b # bs) =
     (if b = 0x5C then (case bs of [] \<Rightarrow> False | _ # bs' \<Rightarrow> has_space_loop True bs')
      else has_space_loop (b \<noteq> 0x22) bs)"
| "has_space_loop False (b # bs) =
     (if b = 0x22 then has_space_loop True bs
      else if b = 0x3A \<or> b = 0x2C then (case bs of [] \<Rightarrow> False | c # _ \<Rightarrow> c = 0x20)
      else has_space_loop False bs)"

definition has_space_after_separator :: "bytes \<Rightarrow> bool" where
  "has_space_after_separator json = has_space_loop False json"

definition TOOL_DELIMITER :: str where
  "TOOL_DELIMITER = 0x0A # bytes_of ''mc_''"

definition tool_id_format :: "str \<Rightarrow> str option \<Rightarrow> str" where
  "tool_id_format tool_call_id model_call_id =
     (case model_call_id of Some m \<Rightarrow> tool_call_id @ TOOL_DELIMITER @ m | None \<Rightarrow> tool_call_id)"

text \<open>\<open>split_once\<close> with a text pattern.\<close>

fun split_once_str :: "str \<Rightarrow> str \<Rightarrow> (str \<times> str) option" where
  "split_once_str p [] = (if p = [] then Some ([], []) else None)"
| "split_once_str p (b # s) =
     (if starts_with (b # s) p then Some ([], drop (length p) (b # s))
      else map_option (\<lambda>(l, r). (b # l, r)) (split_once_str p s))"

definition tool_id_parse :: "str \<Rightarrow> str \<times> str option" where
  "tool_id_parse s =
     (case split_once_str TOOL_DELIMITER s of
        Some (tool_call_id, model_call_id) \<Rightarrow> (tool_call_id, Some model_call_id)
      | None \<Rightarrow> (s, None))"

definition tool_name_of :: "mcp_tool list option \<Rightarrow> str" where
  "tool_name_of params =
     (case params of
        Some (t # _) \<Rightarrow>
          (if server_name t = bytes_of ''custom'' then tool_name t
           else bytes_of ''mcp__'' @ server_name t @ bytes_of ''__'' @ tool_name t)
      | _ \<Rightarrow> [])"

text \<open>\<open>undefined_slice\<close> is not a field of the code: it records that an unchecked slice of a \<open>str\<close> was taken where no character
  starts.  The behaviour of the program is undefined from then on, and the model says nothing of it.\<close>

record decode_context =
  raw_args_len :: usize
  processed :: u32
  saved_model_call_id :: "str option"
  undefined_slice :: bool

text \<open>The first model call id that arrives is kept and replaces all later ones.\<close>

definition save_model_call_id :: "str option \<Rightarrow> decode_context \<Rightarrow> decode_context" where
  "save_model_call_id mc ctx =
     (if mc \<noteq> None \<and> saved_model_call_id ctx = None then ctx\<lparr> saved_model_call_id := mc \<rparr> else ctx)"

definition effective_model_call_id :: "str option \<Rightarrow> decode_context \<Rightarrow> str option" where
  "effective_model_call_id mc ctx =
     (case mc of
        None \<Rightarrow> None
      | Some m \<Rightarrow> (case saved_model_call_id ctx of None \<Rightarrow> Some m | Some s \<Rightarrow> Some s))"

text \<open>\<open>finish_tool_call\<close> is the common end: count and reset on the last part, and build the message.  Moving the new
  part to the front of the vector (more than 64 bytes) and copying it give the same text.\<close>

definition finish_tool_call :: "client_side_tool_call \<Rightarrow> str option \<Rightarrow> str option \<Rightarrow> bool \<Rightarrow> decode_context \<Rightarrow>
    stream_message option \<times> decode_context" where
  "finish_tool_call r mc result finish ctx =
     (let ctx' = (if finish then ctx\<lparr> processed := processed ctx + 1, raw_args_len := 0 \<rparr> else ctx)
      in (map_option (\<lambda>input. ToolCall \<lparr> tc_id = tool_id_format (ct_tool_call_id r) mc,
            tc_name = tool_name_of (ct_params r), tc_input = input, is_last = finish \<rparr>) result, ctx'))"

definition handle_tool_call :: "client_side_tool_call \<Rightarrow> decode_context \<Rightarrow> stream_message option \<times> decode_context" where
  "handle_tool_call r ctx0 =
     (let mc = effective_model_call_id (ct_model_call_id r) ctx0;
          ctx = save_model_call_id (ct_model_call_id r) ctx0;
          len = length (ct_raw_args r)
      in if \<not> ct_is_streaming r then finish_tool_call r mc (Some (ct_raw_args r)) True ctx
         else if \<not> has_space_after_separator (ct_raw_args r) then (None, ctx)
         else if len > raw_args_len ctx
           then finish_tool_call r mc (Some (drop (raw_args_len ctx) (ct_raw_args r))) (ct_is_last_message r)
                  (ctx\<lparr> raw_args_len := len,
                        undefined_slice := undefined_slice ctx \<or> \<not> is_char_boundary (ct_raw_args r) (raw_args_len ctx) \<rparr>)
         else if len = raw_args_len ctx then (None, ctx)
         else finish_tool_call r mc None (ct_is_last_message r) ctx)"

section \<open>One frame\<close>

definition handle_text_message :: "'e codecs \<Rightarrow> bytes \<Rightarrow> decode_context \<Rightarrow> stream_message option \<times> decode_context" where
  "handle_text_message C data ctx =
     (case pb_decode C data of
        Some (Some (ClientSideToolV2Call r)) \<Rightarrow> handle_tool_call r ctx
      | Some (Some (StreamUnifiedChatResponse r)) \<Rightarrow>
          (if cr_text r \<noteq> [] then (Some (Content (cr_text r)), ctx)
           else case cr_thinking r of
               Some t \<Rightarrow> (Some (Thinking (thinking_of t)), ctx)
             | None \<Rightarrow> (map_option WebReference (cr_web_citation r), ctx))
      | _ \<Rightarrow> (None, ctx))"

definition handle_json_message :: "'e codecs \<Rightarrow> bytes \<Rightarrow> 'e + stream_message option" where
  "handle_json_message C data =
     (if length data = 2 then Inr (Some StreamEnd)
      else case parse_error C data of Some e \<Rightarrow> Inl e | None \<Rightarrow> Inr None)"

definition process_message :: "'e codecs \<Rightarrow> raw_message \<Rightarrow> decode_context \<Rightarrow> ('e + stream_message option) \<times> decode_context" where
  "process_message C m ctx =
     (let is_compressed = (msg_type m AND 1 \<noteq> 0); t = drop_bit 1 (msg_type m)
      in case (if is_compressed then decompress_gzip (gz_read C) (msg_data m) else Some (msg_data m)) of
           None \<Rightarrow> (Inr None, ctx)
         | Some data \<Rightarrow>
             if t = 0 then (let (r, ctx') = handle_text_message C data ctx in (Inr r, ctx'))
             else if t = 1 then (handle_json_message C data, ctx)
             else (Inr None, ctx))"

section \<open>The decoder\<close>

record chat_decoder =
  cd_buffer :: buffer
  first_result :: "stream_message list option"
  content_delays :: "(str \<times> (u32 \<times> f32) list) option"
  thinking_content :: "str option"
  cd_context :: decode_context
  empty_stream_count :: usize
  first_result_ready :: bool
  first_result_taken :: bool
  has_seen_content :: bool

definition with_model_call_id :: "str option \<Rightarrow> chat_decoder" where
  "with_model_call_id mc =
     \<lparr> cd_buffer = buffer_with_capacity 64, first_result = None, content_delays = None, thinking_content = None,
       cd_context = \<lparr> raw_args_len = 0, processed = 0, saved_model_call_id = mc, undefined_slice = False \<rparr>, empty_stream_count = 0,
       first_result_ready = False, first_result_taken = False, has_seen_content = False \<rparr>"

definition chat_decoder_new :: chat_decoder where
  "chat_decoder_new = with_model_call_id None"

definition take_first_result :: "chat_decoder \<Rightarrow> stream_message list option \<times> chat_decoder" where
  "take_first_result d =
     (if \<not> buffer_is_empty (cd_buffer d) then (None, d)
      else (first_result d,
            d\<lparr> first_result_taken := (first_result d \<noteq> None \<or> first_result_taken d), first_result := None \<rparr>))"

definition tool_processed :: "chat_decoder \<Rightarrow> u32" where
  "tool_processed d = processed (cd_context d)"

definition take_content_delays :: "chat_decoder \<Rightarrow> (str \<times> (u32 \<times> f32) list) option \<times> chat_decoder" where
  "take_content_delays d = (content_delays d, d\<lparr> content_delays := None \<rparr>)"

definition take_thinking_content :: "chat_decoder \<Rightarrow> str option \<times> chat_decoder" where
  "take_thinking_content d = (thinking_content d, d\<lparr> thinking_content := None \<rparr>)"

definition no_first_cache :: "chat_decoder \<Rightarrow> chat_decoder" where
  "no_first_cache d = d\<lparr> first_result_ready := True, first_result_taken := True \<rparr>"

text \<open>\<open>chars().count()\<close>: the bytes that are not continuation bytes.\<close>

definition char_count :: "str \<Rightarrow> nat" where
  "char_count s = length (filter (\<lambda>b. b AND 0xC0 \<noteq> 0x80) s)"

text \<open>What the decoder notes of a message: whether there was content, the text with the delay of each part (the clock
  gives the delay of the n-th part), the thinking.\<close>

definition note_message :: "(nat \<Rightarrow> f32) \<Rightarrow> stream_message \<Rightarrow> chat_decoder \<Rightarrow> chat_decoder" where
  "note_message clock m d =
     (let d = d\<lparr> has_seen_content := has_seen_content d \<or> any_content m \<rparr>
      in case m of
           Content s \<Rightarrow>
             (case content_delays d of
                None \<Rightarrow> d
              | Some (txt, ds) \<Rightarrow>
                  d\<lparr> content_delays := Some (txt @ s, ds @ [(of_nat (char_count s), clock (length ds))]) \<rparr>)
         | Thinking (ThinkText s) \<Rightarrow>
             d\<lparr> thinking_content := Some (case thinking_content d of Some t \<Rightarrow> t @ s | None \<Rightarrow> s) \<rparr>
         | _ \<Rightarrow> d)"

text \<open>The loop over the frames; an error of the backend ends it, and with it the call.\<close>

fun msg_loop :: "'e codecs \<Rightarrow> (nat \<Rightarrow> f32) \<Rightarrow> bool \<Rightarrow> raw_message list \<Rightarrow> stream_message list \<Rightarrow> chat_decoder \<Rightarrow>
    ('e + stream_message list) \<times> chat_decoder" where
  "msg_loop C clock conv [] msgs d = (Inr msgs, d)"
| "msg_loop C clock conv (m # ms) msgs d =
     (if msg_data m = [] then msg_loop C clock conv ms msgs d
      else let (r, ctx) = process_message C m (cd_context d); d = d\<lparr> cd_context := ctx \<rparr>
           in case r of
                Inl e \<Rightarrow>
                  (if user_aborted C e then msg_loop C clock conv ms (msgs @ [StreamEnd]) d else (Inl e, d))
              | Inr None \<Rightarrow> msg_loop C clock conv ms msgs d
              | Inr (Some x) \<Rightarrow>
                  msg_loop C clock conv ms (msgs @ [if conv then convert_web_ref_to_content x else x])
                    (note_message clock x d))"

text \<open>Whether the messages go to the caller or to the first result.\<close>

definition cache_first :: "stream_message list \<Rightarrow> chat_decoder \<Rightarrow> stream_message list \<times> chat_decoder" where
  "cache_first msgs d =
     (let (msgs, d) =
        (if \<not> first_result_taken d \<and> msgs \<noteq> []
         then case first_result d of
             None \<Rightarrow> ([], d\<lparr> first_result := Some msgs \<rparr>)
           | Some f \<Rightarrow> (if \<not> first_result_ready d then ([], d\<lparr> first_result := Some (f @ msgs) \<rparr>) else (msgs, d))
         else (msgs, d))
      in (msgs, d\<lparr> first_result_ready := first_result_ready d \<or>
                   (first_result d \<noteq> None \<and> \<not> first_result_taken d \<and> has_seen_content d) \<rparr>))"

datatype 'e stream_error = EmptyStream | Upstream 'e

definition chat_decode :: "'e codecs \<Rightarrow> (nat \<Rightarrow> f32) \<Rightarrow> bool \<Rightarrow> bytes \<Rightarrow> chat_decoder \<Rightarrow>
    ('e stream_error + stream_message list) \<times> chat_decoder" where
  "chat_decode C clock conv data d0 =
     (let d = (if data = [] then d0 else d0\<lparr> cd_buffer := extend_from_slice (cd_buffer d0) data \<rparr>)
      in if data = [] \<or> buffer_len (cd_buffer d) < 5
         then (Inl EmptyStream, d\<lparr> empty_stream_count := empty_stream_count d + 1 \<rparr>)
         else let d = d\<lparr> empty_stream_count := 0,
                         content_delays := (case content_delays d of Some x \<Rightarrow> Some x | None \<Rightarrow> Some ([], [])) \<rparr>;
                  (raws, iter) = decode_loop Some (buffer_into_iter (cd_buffer d)) []
              in case msg_loop C clock conv raws [] d of
                   (Inl e, d) \<Rightarrow> (Inl (Upstream e), d)
                 | (Inr msgs, d) \<Rightarrow>
                     (let (msgs, d) = cache_first msgs
                        (d\<lparr> cd_buffer := advance_unchecked (cd_buffer d) (it_offset iter) \<rparr>)
                      in (Inr msgs, d)))"

text \<open>Reading a whole response chunk by chunk, as the handlers of requests without streaming do.\<close>

fun collect :: "'e codecs \<Rightarrow> (nat \<Rightarrow> f32) \<Rightarrow> bool \<Rightarrow> bytes list \<Rightarrow> chat_decoder \<Rightarrow> ('e + stream_message list) \<times> chat_decoder" where
  "collect C clock conv [] d = (Inr [], d)"
| "collect C clock conv (c # cs) d =
     (case chat_decode C clock conv c d of
        (Inl EmptyStream, d') \<Rightarrow> collect C clock conv cs d'
      | (Inl (Upstream e), d') \<Rightarrow> (Inl e, d')
      | (Inr ms, d') \<Rightarrow> (let (r, d'') = collect C clock conv cs d' in (map_sum (\<lambda>e. e) ((@) ms) r, d'')))"

section \<open>The meaning of a sequence of frames\<close>

fun interp :: "'e codecs \<Rightarrow> bool \<Rightarrow> raw_message list \<Rightarrow> decode_context \<Rightarrow> ('e + stream_message list) \<times> decode_context" where
  "interp C conv [] ctx = (Inr [], ctx)"
| "interp C conv (m # ms) ctx =
     (if msg_data m = [] then interp C conv ms ctx
      else let (r, ctx') = process_message C m ctx
           in case r of
                Inl e \<Rightarrow>
                  (if user_aborted C e
                   then let (r', c) = interp C conv ms ctx' in (map_sum (\<lambda>e. e) ((#) StreamEnd) r', c)
                   else (Inl e, ctx'))
              | Inr None \<Rightarrow> interp C conv ms ctx'
              | Inr (Some x) \<Rightarrow>
                  let (r', c) = interp C conv ms ctx'
                  in (map_sum (\<lambda>e. e) ((#) (if conv then convert_web_ref_to_content x else x)) r', c))"

text \<open>What \<open>msg_loop\<close> leaves alone.\<close>

definition same_frame :: "chat_decoder \<Rightarrow> chat_decoder \<Rightarrow> bool" where
  "same_frame d d' \<longleftrightarrow>
     cd_buffer d' = cd_buffer d \<and> first_result d' = first_result d \<and> empty_stream_count d' = empty_stream_count d \<and>
     first_result_ready d' = first_result_ready d \<and> first_result_taken d' = first_result_taken d"

lemma same_frame_refl [simp]: "same_frame d d"
  by (simp add: same_frame_def)

lemma same_frame_note [simp]: "same_frame d (note_message clock x e) = same_frame d e" "same_frame (note_message clock x e) d = same_frame e d"
  "cd_context (note_message clock x d) = cd_context d"
  by (cases x; simp add: note_message_def same_frame_def Let_def split: option.splits thinking.splits)+

lemma same_frame_context [simp]: "same_frame d (e\<lparr> cd_context := c \<rparr>) = same_frame d e" "same_frame (e\<lparr> cd_context := c \<rparr>) d = same_frame e d"
  by (simp_all add: same_frame_def)

lemma map_sum_id_comp: "map_sum (\<lambda>e. e) f (map_sum (\<lambda>e. e) g x) = map_sum (\<lambda>e. e) (\<lambda>y. f (g y)) x"
  by (cases x) simp_all

lemma map_sum_append_Nil [simp]: "map_sum (\<lambda>e. e) ((@) []) x = x"
  by (cases x) simp_all

lemma msg_loop_interp:
  "\<exists>d'. msg_loop C clock conv raws acc d =
     (map_sum (\<lambda>e. e) ((@) acc) (fst (interp C conv raws (cd_context d))), d') \<and>
     cd_context d' = snd (interp C conv raws (cd_context d)) \<and> same_frame d d'"
proof (induction raws arbitrary: acc d)
  case (Cons m ms)
  obtain r ctx where pm: "process_message C m (cd_context d) = (r, ctx)" by fastforce
  show ?case
  proof (cases "msg_data m = []")
    case True
    then show ?thesis using Cons [of acc d] by simp
  next
    case False
    let ?d = "d\<lparr> cd_context := ctx \<rparr>"
    consider (stop) e where "r = Inl e" "\<not> user_aborted C e" | (abort) e where "r = Inl e" "user_aborted C e"
      | (none) "r = Inr None" | (msg) x where "r = Inr (Some x)"
      by (metis sum.exhaust option.exhaust)
    then show ?thesis
    proof cases
      case stop
      then show ?thesis using False pm by simp
    next
      case abort
      then show ?thesis using Cons [of "acc @ [StreamEnd]" ?d] False pm
        by (auto simp: map_sum_id_comp split: prod.splits)
    next
      case none
      then show ?thesis using Cons [of acc ?d] False pm by simp
    next
      case (msg x)
      then show ?thesis
        using Cons [of "acc @ [if conv then convert_web_ref_to_content x else x]" "note_message clock x ?d"] False pm
        by (auto simp: map_sum_id_comp split: prod.splits)
    qed
  qed
qed simp

lemma append_Cons_fun: "(@) (x # xs) = (\<lambda>y. x # xs @ y)"
  by (rule ext) simp

lemma interp_append:
  "interp C conv (xs @ ys) ctx =
     (case interp C conv xs ctx of
        (Inl e, c) \<Rightarrow> (Inl e, c)
      | (Inr ms, c) \<Rightarrow> (map_sum (\<lambda>e. e) ((@) ms) (fst (interp C conv ys c)), snd (interp C conv ys c)))"
  by (induction xs arbitrary: ctx)
    (auto simp: map_sum_id_comp append_Cons_fun split: prod.splits sum.splits option.splits)

section \<open>Chunks do not matter\<close>

definition cd_pending :: "chat_decoder \<Rightarrow> bytes" where
  "cd_pending d = buffer_as_ref (cd_buffer d)"

definition cd_inv :: "chat_decoder \<Rightarrow> bool" where
  "cd_inv d \<longleftrightarrow> buffer_wf (cd_buffer d) \<and> parse_frames (cd_pending d) = ([], cd_pending d)"

lemma cd_inv_wf: "cd_inv d \<Longrightarrow> buffer_wf (cd_buffer d)"
  by (simp add: cd_inv_def)

lemma chat_decode_short:
  assumes "cd_inv d" and "data = [] \<or> length (cd_pending d @ data) < 5"
  shows "\<exists>d'. chat_decode C clock conv data d = (Inl EmptyStream, d') \<and> cd_inv d' \<and> cd_pending d' = cd_pending d @ data \<and>
    cd_context d' = cd_context d \<and> first_result d' = first_result d \<and> first_result_ready d' = first_result_ready d \<and>
    first_result_taken d' = first_result_taken d \<and> has_seen_content d' = has_seen_content d"
proof -
  have "parse_frames (cd_pending d @ data) = ([], cd_pending d @ data)"
    using assms by (cases "data = []") (auto simp: cd_inv_def intro: parse_frames_short)
  then show ?thesis
    using assms by (auto simp: chat_decode_def cd_inv_def cd_pending_def buffer_len_ref Let_def)
qed

lemma chat_decode_frames:
  assumes wf: "buffer_wf (cd_buffer d)" and "data \<noteq> []" and "5 \<le> length (cd_pending d @ data)"
    and "parse_frames (cd_pending d @ data) = (raws, rest)"
  shows "case fst (interp C conv raws (cd_context d)) of
      Inl e \<Rightarrow> (\<exists>d'. chat_decode C clock conv data d = (Inl (Upstream e), d') \<and> buffer_wf (cd_buffer d') \<and>
        cd_pending d' = cd_pending d @ data)
    | Inr ms \<Rightarrow> (\<exists>d1. same_frame (d\<lparr> cd_buffer := cd_buffer d1, empty_stream_count := 0 \<rparr>) d1 \<and> cd_inv d1 \<and> cd_pending d1 = rest \<and>
        cd_context d1 = snd (interp C conv raws (cd_context d)) \<and>
        chat_decode C clock conv data d = (Inr (fst (cache_first ms d1)), snd (cache_first ms d1)))"
proof -
  let ?b = "extend_from_slice (cd_buffer d) data"
  let ?d = "d\<lparr> cd_buffer := ?b, empty_stream_count := 0,
    content_delays := (case content_delays d of Some x \<Rightarrow> Some x | None \<Rightarrow> Some ([], [])) \<rparr>"
  let ?it = "buffer_into_iter ?b"
  have it: "it_buffer ?it = cd_pending d @ data" "it_offset ?it = 0"
    using wf by (simp_all add: buffer_into_iter_def cd_pending_def)
  have frames: "decode_loop Some ?it [] = (raws, ?it\<lparr> it_offset := length (cd_pending d @ data) - length rest \<rparr>)"
    using decode_loop_eq [of ?it raws rest Some "[]"] assms(4) it by (simp add: map_filter_def)
  have len: "\<not> buffer_len ?b < 5" using assms(3) wf by (simp add: buffer_len_ref cd_pending_def)
  obtain d2 where d2: "msg_loop C clock conv raws [] ?d = (fst (interp C conv raws (cd_context d)), d2)"
    "cd_context d2 = snd (interp C conv raws (cd_context d))" "same_frame ?d d2"
    using msg_loop_interp [of C clock conv raws "[]" ?d] by auto
  let ?d1 = "d2\<lparr> cd_buffer := advance_unchecked (cd_buffer d2) (length (cd_pending d @ data) - length rest) \<rparr>"
  have buf: "cd_buffer d2 = ?b" using d2(3) by (simp add: same_frame_def)
  have "buffer_as_ref ?b = cd_pending d @ data" using wf by (simp add: cd_pending_def)
  then have p: "cd_pending ?d1 = rest" "buffer_wf (cd_buffer ?d1)"
    using parse_frames_suffix [OF assms(4)] wf buf by (simp_all add: cd_pending_def buffer_wf_advance)
  have inv1: "cd_inv ?d1" unfolding cd_inv_def p(1) using p(2) parse_frames_rest_stuck [OF assms(4)] by blast
  have sf1: "same_frame (d\<lparr> cd_buffer := cd_buffer ?d1, empty_stream_count := 0 \<rparr>) ?d1"
    using d2(3) by (simp add: same_frame_def)
  have cx1: "cd_context ?d1 = snd (interp C conv raws (cd_context d))" using d2(2) by simp
  have run: "chat_decode C clock conv data d =
      (case fst (interp C conv raws (cd_context d)) of Inl e \<Rightarrow> (Inl (Upstream e), d2)
       | Inr ms \<Rightarrow> (Inr (fst (cache_first ms ?d1)), snd (cache_first ms ?d1)))"
    using assms(2) len frames d2(1) by (auto simp: chat_decode_def Let_def split: prod.splits sum.splits)
  show ?thesis
  proof (cases "fst (interp C conv raws (cd_context d))")
    case (Inr ms)
    then have "chat_decode C clock conv data d = (Inr (fst (cache_first ms ?d1)), snd (cache_first ms ?d1))"
      using run by simp
    then have "\<exists>d1. same_frame (d\<lparr> cd_buffer := cd_buffer d1, empty_stream_count := 0 \<rparr>) d1 \<and> cd_inv d1 \<and> cd_pending d1 = rest \<and>
        cd_context d1 = snd (interp C conv raws (cd_context d)) \<and>
        chat_decode C clock conv data d = (Inr (fst (cache_first ms d1)), snd (cache_first ms d1))"
      using inv1 sf1 cx1 p(1) by blast
    then show ?thesis unfolding Inr by (simp only: sum.case)
  next
    case (Inl e)
    then have "chat_decode C clock conv data d = (Inl (Upstream e), d2)" using run by simp
    then show ?thesis using Inl wf buf by (simp add: cd_pending_def)
  qed
qed

lemma cache_first_taken: "first_result_taken d \<Longrightarrow> first_result_ready d \<Longrightarrow> cache_first ms d = (ms, d)"
  by (simp add: cache_first_def Let_def)

lemma collect_interp:
  assumes "cd_inv d" and "first_result_taken d" and "first_result_ready d"
    and "parse_frames (cd_pending d @ concat cs) = (raws, rest)"
  shows "fst (collect C clock conv cs d) = fst (interp C conv raws (cd_context d))"
  using assms
proof (induction cs arbitrary: d raws)
  case Nil
  then show ?case by (simp add: cd_inv_def)
next
  case (Cons c cs)
  show ?case
  proof (cases "c = [] \<or> length (cd_pending d @ c) < 5")
    case True
    obtain d' where d': "chat_decode C clock conv c d = (Inl EmptyStream, d')" "cd_inv d'" "cd_pending d' = cd_pending d @ c"
      "cd_context d' = cd_context d" "first_result_taken d' = first_result_taken d"
      "first_result_ready d' = first_result_ready d"
      using chat_decode_short [OF Cons.prems(1) True] by blast
    then show ?thesis using Cons.IH [of d' raws] Cons.prems by simp
  next
    case False
    obtain r1 rest1 where p1: "parse_frames (cd_pending d @ c) = (r1, rest1)" by fastforce
    obtain r2 rest2 where p2: "parse_frames (rest1 @ concat cs) = (r2, rest2)" by fastforce
    have raws: "raws = r1 @ r2" "rest2 = rest" using parse_frames_append [OF p1 p2] Cons.prems(4) by simp_all
    have dec: "case fst (interp C conv r1 (cd_context d)) of
        Inl e \<Rightarrow> (\<exists>d'. chat_decode C clock conv c d = (Inl (Upstream e), d') \<and> buffer_wf (cd_buffer d') \<and>
          cd_pending d' = cd_pending d @ c)
      | Inr ms \<Rightarrow> (\<exists>d1. same_frame (d\<lparr> cd_buffer := cd_buffer d1, empty_stream_count := 0 \<rparr>) d1 \<and> cd_inv d1 \<and> cd_pending d1 = rest1 \<and>
          cd_context d1 = snd (interp C conv r1 (cd_context d)) \<and>
          chat_decode C clock conv c d = (Inr (fst (cache_first ms d1)), snd (cache_first ms d1)))"
      using chat_decode_frames [OF cd_inv_wf [OF Cons.prems(1)] _ _ p1] False by simp
    show ?thesis
    proof (cases "fst (interp C conv r1 (cd_context d))")
      case (Inl e)
      then obtain d' where "chat_decode C clock conv c d = (Inl (Upstream e), d')" using dec by auto
      then show ?thesis using Inl raws by (auto simp: interp_append split: prod.splits)
    next
      case (Inr ms)
      then obtain d1 where d1: "same_frame (d\<lparr> cd_buffer := cd_buffer d1, empty_stream_count := 0 \<rparr>) d1" "cd_inv d1"
        "cd_pending d1 = rest1" "cd_context d1 = snd (interp C conv r1 (cd_context d))"
        "chat_decode C clock conv c d = (Inr (fst (cache_first ms d1)), snd (cache_first ms d1))"
        using dec by auto
      have t: "first_result_taken d1" "first_result_ready d1" using d1(1) Cons.prems(2,3) by (simp_all add: same_frame_def)
      have "fst (collect C clock conv cs d1) = fst (interp C conv r2 (cd_context d1))"
        using Cons.IH [OF d1(2) t] p2 d1(3) raws(2) by simp
      then show ?thesis using d1(4,5) Inr raws cache_first_taken [OF t]
        by (auto simp: interp_append split: prod.splits)
    qed
  qed
qed

lemma collect_no_cache:
  "fst (collect C clock conv cs (no_first_cache (with_model_call_id mc))) =
   fst (interp C conv (fst (parse_frames (concat cs))) \<lparr> raw_args_len = 0, processed = 0, saved_model_call_id = mc, undefined_slice = False \<rparr>)"
proof -
  let ?d = "no_first_cache (with_model_call_id mc)"
  have d: "cd_pending ?d = []" "first_result_taken ?d" "first_result_ready ?d" "buffer_wf (cd_buffer ?d)"
    "cd_context ?d = \<lparr> raw_args_len = 0, processed = 0, saved_model_call_id = mc, undefined_slice = False \<rparr>"
    by (simp_all add: no_first_cache_def with_model_call_id_def cd_pending_def buffer_with_capacity_def
        buffer_as_ref_def buffer_wf_def)
  then have "cd_inv ?d" by (simp add: cd_inv_def parse_frames_short)
  then show ?thesis
    using collect_interp [of ?d cs "fst (parse_frames (concat cs))" "snd (parse_frames (concat cs))"] d by simp
qed

text \<open>A response read without the first-result cache means what its frames mean, however the transport cuts it into
  chunks: the messages of all frames in order, tool calls and model call ids carried across chunks, or the
  first error of the backend.\<close>

theorem chat_stream_chunking:
  "fst (collect C clock conv cs (no_first_cache (with_model_call_id mc))) =
   fst (interp C conv (fst (parse_frames (concat cs))) \<lparr> raw_args_len = 0, processed = 0, saved_model_call_id = mc, undefined_slice = False \<rparr>)"
  by (rule collect_no_cache)

section \<open>Tool calls are sent as growing snapshots\<close>

fun tool_run :: "client_side_tool_call list \<Rightarrow> decode_context \<Rightarrow> stream_message list \<times> decode_context" where
  "tool_run [] ctx = ([], ctx)"
| "tool_run (r # rs) ctx =
     (let (m, ctx') = handle_tool_call r ctx; (ms, ctx'') = tool_run rs ctx'
      in ((case m of Some x \<Rightarrow> x # ms | None \<Rightarrow> ms), ctx''))"

fun tool_input :: "stream_message \<Rightarrow> str" where
  "tool_input (ToolCall t) = tc_input t"
| "tool_input _ = []"

fun tool_is_last :: "stream_message \<Rightarrow> bool" where
  "tool_is_last (ToolCall t) = is_last t"
| "tool_is_last _ = False"



lemma save_model_call_id_simps [simp]:
  "raw_args_len (save_model_call_id mc ctx) = raw_args_len ctx" "processed (save_model_call_id mc ctx) = processed ctx"
  "undefined_slice (save_model_call_id mc ctx) = undefined_slice ctx"
  by (simp_all add: save_model_call_id_def)









definition sample_call :: "bool \<Rightarrow> string \<Rightarrow> client_side_tool_call" where
  "sample_call fin args = \<lparr> ct_params = None, ct_tool_call_id = bytes_of ''t'', ct_is_streaming = True,
     ct_is_last_message = fin, ct_raw_args = bytes_of args, ct_model_call_id = None \<rparr>"

definition fresh_context :: decode_context where
  "fresh_context = \<lparr> raw_args_len = 0, processed = 0, saved_model_call_id = None, undefined_slice = False \<rparr>"


text \<open>When the position is inside a character of the next snapshot, which happens after a call that did not finish, the
  unchecked slice is undefined.\<close>

theorem tool_slice_undefined:
  assumes "ct_is_streaming r" and "has_space_after_separator (ct_raw_args r)" and "raw_args_len ctx < length (ct_raw_args r)"
  shows "undefined_slice (snd (handle_tool_call r ctx)) \<longleftrightarrow>
    undefined_slice ctx \<or> \<not> is_char_boundary (ct_raw_args r) (raw_args_len ctx)"
  using assms by (simp add: handle_tool_call_def finish_tool_call_def Let_def)

theorem tool_slice_undefined_witness:
  "undefined_slice (snd (handle_tool_call ((sample_call True [])\<lparr> ct_raw_args := [0x3A, 0x20, 0xC3, 0xA9] \<rparr>) (fresh_context\<lparr> raw_args_len := 3 \<rparr>)))"
proof -
  let ?r = "(sample_call True [])\<lparr> ct_raw_args := [0x3A, 0x20, 0xC3, 0xA9] \<rparr>" and ?c = "fresh_context\<lparr> raw_args_len := 3 \<rparr>"
  have "ct_is_streaming ?r" "has_space_after_separator (ct_raw_args ?r)" "raw_args_len ?c < length (ct_raw_args ?r)"
    "\<not> is_char_boundary (ct_raw_args ?r) (raw_args_len ?c)"
    by code_simp+
  then show ?thesis using tool_slice_undefined [of ?r ?c] by blast
qed

text \<open>A last snapshot without new text does not finish its call.  The call is not counted, the position is not
  reset, and the next call loses as many bytes from the front of its arguments as the first one had.\<close>

theorem repeated_last_snapshot_truncates_next:
  assumes "raw_args_len ctx = 0" and "has_space_after_separator S" and "has_space_after_separator T"
    and "length S < length T"
    and "ct_is_streaming a" "\<not> ct_is_last_message a" "ct_raw_args a = S"
    and "ct_is_streaming b" "ct_is_last_message b" "ct_raw_args b = S"
    and "ct_is_streaming c" "ct_is_last_message c" "ct_raw_args c = T"
  shows "\<exists>m1 m2 ctx'. tool_run [a, b, c] ctx = ([m1, m2], ctx') \<and> tool_input m1 = S \<and> \<not> tool_is_last m1 \<and>
    tool_input m2 = drop (length S) T \<and> processed ctx' = processed ctx + 1"
proof -
  have "S \<noteq> []" using assms(2) by (auto simp: has_space_after_separator_def)
  then show ?thesis using assms by (simp add: handle_tool_call_def finish_tool_call_def Let_def)
qed

theorem repeated_last_snapshot_truncates_next_witness:
  "\<exists>m1 m2 ctx'. tool_run [sample_call False ''{a: 1}'', sample_call True ''{a: 1}'', sample_call True ''{bc: 2}''] fresh_context =
     ([m1, m2], ctx') \<and> tool_input m2 = bytes_of ''}''"
proof -
  have "has_space_after_separator (bytes_of ''{a: 1}'')" "has_space_after_separator (bytes_of ''{bc: 2}'')"
    by (simp_all add: has_space_after_separator_def bytes_of_def of_char_def)
  then show ?thesis
    using repeated_last_snapshot_truncates_next [of fresh_context "bytes_of ''{a: 1}''" "bytes_of ''{bc: 2}''"
        "sample_call False ''{a: 1}''" "sample_call True ''{a: 1}''" "sample_call True ''{bc: 2}''"]
    by (auto simp: sample_call_def fresh_context_def bytes_of_def simp del: tool_run.simps)
qed

section \<open>Tool ids\<close>

lemma split_once_str_first: "b \<notin> set t \<Longrightarrow> split_once_str (b # p) (t @ (b # p) @ m) = Some (t, m)"
  by (induction t) (auto simp: starts_with_def)

lemma split_once_str_none: "b \<notin> set t \<Longrightarrow> split_once_str (b # p) t = None"
  by (induction t) (auto simp: starts_with_def)

text \<open>The two parts of a tool id are recovered, as tool call ids are single lines.\<close>

lemma tool_id_roundtrip: "0x0A \<notin> set t \<Longrightarrow> tool_id_parse (tool_id_format t mc) = (t, mc)"
  using split_once_str_first [of "0x0A" t "bytes_of ''mc_''"] split_once_str_none [of "0x0A" t "bytes_of ''mc_''"]
  by (cases mc) (simp_all add: tool_id_parse_def tool_id_format_def TOOL_DELIMITER_def)

end
