(* ===== verification/Chat_Stream.thy ===== *)
theory Chat_Stream
  imports Stream_Decoder
begin

text \<open>
  From decoded messages to what the client receives, from \<open>src/core/service.rs\<close>: \<open>handle_messages\<close> (Anthropic events) and
  \<open>handle_chat_completions\<close> (OpenAI chunks), each as a stream and as one answer.  Events are values (their
  JSON text is not modelled); updates of the request log and the token usage that is fetched at the end are left out.
  A stream is driven in two phases: chunks are decoded until the first result is ready, then every further
  chunk is decoded and answered.  A chunk is \<open>None\<close> when reading it from the transport fails.
\<close>

section \<open>Shared state\<close>

datatype stream_state = NotStarted | ContentBlockActive | Completed

datatype last_content_type = LastNone | LastThinking | LastText | LastInputJson

record message_context =
  index :: u32
  stream_state :: stream_state
  last_content_type :: last_content_type

definition message_context_new :: message_context where
  "message_context_new = \<lparr> index = 0, stream_state = NotStarted, last_content_type = LastNone \<rparr>"

definition trim_leading_newlines :: "str \<Rightarrow> str" where
  "trim_leading_newlines s = (if take 2 s = [0x0A, 0x0A] then drop 2 s else s)"

section \<open>Anthropic events\<close>

text \<open>The input of a tool use is a JSON object, with values of type \<open>'v\<close>.\<close>

datatype 'v content_block =
    TextBlock str
  | ThinkingBlock str "str option"
  | RedactedBlock str
  | ToolUse str str "(str \<times> 'v) list"

datatype content_delta = TextDelta str | InputJsonDelta str | ThinkingDelta str | SignatureDelta str

datatype stop_reason = EndTurn | ToolUseStop

datatype ('v, 'e) event =
    MessageStart
  | MessageDelta stop_reason
  | ContentBlockStart u32 "'v content_block"
  | ContentBlockDelta u32 content_delta
  | ContentBlockStop u32
  | Ping
  | ErrorEvent 'e
  | MessageStop

definition start_message :: "message_context \<Rightarrow> ('v, 'e) event list" where
  "start_message ctx = (if stream_state ctx = NotStarted then [MessageStart] else [])"

text \<open>Close the block that is open, if it is of another kind, and open one of the given kind.  \<open>after\<close> is what follows
  the start of the block.\<close>

definition switch_block :: "last_content_type \<Rightarrow> 'v content_block \<Rightarrow> (u32 \<Rightarrow> ('v, 'e) event list) \<Rightarrow> message_context \<Rightarrow>
    ('v, 'e) event list \<times> message_context" where
  "switch_block kind block after ctx =
     (if last_content_type ctx \<noteq> kind
      then let (closed, i) =
             (if last_content_type ctx \<noteq> LastNone then ([ContentBlockStop (index ctx)], index ctx + 1)
              else ([], index ctx))
           in (closed @ ContentBlockStart i block # after i,
               \<lparr> index = i, stream_state = ContentBlockActive, last_content_type = kind \<rparr>)
      else ([], ctx))"

definition ping_if_start :: "message_context \<Rightarrow> u32 \<Rightarrow> ('v, 'e) event list" where
  "ping_if_start ctx i = (if stream_state ctx = NotStarted then [Ping] else [])"

fun thinking_delta :: "u32 \<Rightarrow> thinking \<Rightarrow> ('v, 'e) event list" where
  "thinking_delta i (ThinkText s) = [ContentBlockDelta i (ThinkingDelta s)]"
| "thinking_delta i (Signature s) = [ContentBlockDelta i (SignatureDelta s)]"
| "thinking_delta i (RedactedThinking s) = []"

fun process_messages :: "stream_message list \<Rightarrow> message_context \<Rightarrow> ('v, 'e) event list \<times> message_context" where
  "process_messages [] ctx = ([], ctx)"
| "process_messages (Thinking t # ms) ctx =
     (let (evs, ctx') = switch_block LastThinking (ThinkingBlock [] None) (ping_if_start ctx) ctx;
          (rest, ctx'') = process_messages ms ctx'
      in (start_message ctx @ evs @ thinking_delta (index ctx') t @ rest, ctx''))"
| "process_messages (Content s # ms) ctx =
     (let (evs, ctx') = switch_block LastText (TextBlock []) (ping_if_start ctx) ctx;
          (rest, ctx'') = process_messages ms ctx'
      in (start_message ctx @ evs @ ContentBlockDelta (index ctx') (TextDelta s) # rest, ctx''))"
| "process_messages (ToolCall t # ms) ctx =
     (let (evs, ctx') = switch_block LastInputJson (ToolUse (tc_id t) (tc_name t) [])
            (\<lambda>i. [ContentBlockDelta i (InputJsonDelta [])]) ctx;
          (rest, ctx'') = process_messages ms ctx'
      in (evs @ ContentBlockDelta (index ctx') (InputJsonDelta (tc_input t)) # rest, ctx''))"
| "process_messages (StreamEnd # ms) ctx =
     ((if last_content_type ctx \<noteq> LastNone then [ContentBlockStop (index ctx)] else []),
      ctx\<lparr> stream_state := Completed \<rparr>)"
| "process_messages (WebReference rs # ms) ctx = process_messages ms ctx"

text \<open>The end of the answer.\<close>

definition finale :: "chat_decoder \<Rightarrow> ('v, 'e) event list" where
  "finale d = [MessageDelta (if tool_processed d = 0 then EndTurn else ToolUseStop), MessageStop]"

section \<open>OpenAI chunks\<close>

datatype tool_function = ToolStart str | ToolPartial str

datatype finish_reason = Stop | ToolCalls

datatype openai_chunk =
    ContentDelta bool str
  | ToolDelta bool u32 "str option" tool_function
  | FinishChunk finish_reason
  | UsageChunk
  | DoneMarker

text \<open>\<open>ContentDelta\<close> and \<open>ToolDelta\<close> say whether the role is given.  Thinking is not part of the answer.\<close>

fun openai_messages :: "stream_message list \<Rightarrow> message_context \<Rightarrow> openai_chunk list \<times> message_context" where
  "openai_messages [] ctx = ([], ctx)"
| "openai_messages (Content s # ms) ctx =
     (let is_start = (stream_state ctx = NotStarted);
          ctx' = ctx\<lparr> stream_state := (if is_start then ContentBlockActive else stream_state ctx),
                      last_content_type := LastText \<rparr>;
          (rest, ctx'') = openai_messages ms ctx'
      in (ContentDelta is_start (if is_start then trim_leading_newlines s else s) # rest, ctx''))"
| "openai_messages (ToolCall t # ms) ctx =
     (let is_start = (stream_state ctx = NotStarted);
          ctx1 = ctx\<lparr> stream_state := (if is_start then ContentBlockActive else stream_state ctx) \<rparr>;
          (start, ctx') =
            (if last_content_type ctx1 \<noteq> LastInputJson
             then let i = (if last_content_type ctx1 \<noteq> LastNone then index ctx1 + 1 else index ctx1)
                  in ([ToolDelta is_start i (Some (tc_id t)) (ToolStart (tc_name t))],
                      ctx1\<lparr> index := i, last_content_type := LastInputJson \<rparr>)
             else ([], ctx1));
          (rest, ctx'') = openai_messages ms ctx'
      in (start @ ToolDelta False (index ctx') None (ToolPartial (tc_input t)) # rest, ctx''))"
| "openai_messages (StreamEnd # ms) ctx = ([], ctx\<lparr> stream_state := Completed \<rparr>)"
| "openai_messages (_ # ms) ctx = openai_messages ms ctx"

definition openai_finale :: "bool \<Rightarrow> chat_decoder \<Rightarrow> openai_chunk list" where
  "openai_finale is_need d =
     FinishChunk (if tool_processed d = 0 then Stop else ToolCalls) # (if is_need then [UsageChunk] else []) @ [DoneMarker]"

section \<open>Driving a stream\<close>

text \<open>The two handlers share everything but how messages and errors become output: \<open>proc\<close> and \<open>err\<close>.\<close>

type_synonym 'o processor = "stream_message list \<Rightarrow> message_context \<Rightarrow> 'o list \<times> message_context"

datatype 'e first_error = FirstUpstream 'e | ReadFailed | StreamResponse

text \<open>The first phase; the messages a call of \<open>decode\<close> returns are not used.\<close>

fun first_phase :: "'e codecs \<Rightarrow> (nat \<Rightarrow> f32) \<Rightarrow> bool \<Rightarrow> bytes option list \<Rightarrow> chat_decoder \<Rightarrow>
    'e first_error + chat_decoder \<times> bytes option list" where
  "first_phase C clock conv [] d = (if first_result_ready d then Inr (d, []) else Inl StreamResponse)"
| "first_phase C clock conv (c # cs) d =
     (if first_result_ready d then Inr (d, c # cs)
      else case c of
          None \<Rightarrow> Inl ReadFailed
        | Some b \<Rightarrow>
            (case chat_decode C clock conv b d of
               (Inl (Upstream e), d') \<Rightarrow> Inl (FirstUpstream e)
             | (_, d') \<Rightarrow> first_phase C clock conv cs d'))"

text \<open>A later chunk.  The last component of the result says whether the stream is dropped, which happens when the chunk was
  decoded and the state is \<open>Completed\<close>; the early returns do not drop it.  None means that the step never returns: the guard of
  \<open>decoder.lock()\<close> is a temporary of the matched expression and lives to the end of the \<open>let\<close> statement, so that the second
  \<open>decoder.lock().await\<close> in the arm of \<open>EmptyStream\<close> waits for a mutex that this very task holds.\<close>

definition then_step :: "'o processor \<Rightarrow> ('e \<Rightarrow> message_context \<Rightarrow> 'o list \<times> message_context) \<Rightarrow>
    'e codecs \<Rightarrow> (nat \<Rightarrow> f32) \<Rightarrow> bool \<Rightarrow> bytes option \<Rightarrow> chat_decoder \<Rightarrow> message_context \<Rightarrow>
    ('o list \<times> chat_decoder \<times> message_context \<times> bool) option" where
  "then_step proc err C clock conv oc d ctx =
     (case oc of
        None \<Rightarrow> Some ([], d, ctx, False)
      | Some c \<Rightarrow>
          (case chat_decode C clock conv c d of
             (Inl EmptyStream, d') \<Rightarrow> None
           | (Inl (Upstream e), d') \<Rightarrow> (let (out, ctx') = err e ctx in Some (out, d', ctx', False))
           | (Inr msgs, d') \<Rightarrow>
               (let (first_msg, d'') = take_first_result d';
                    (first_response, ctx') = (case first_msg of Some ms \<Rightarrow> proc ms ctx | None \<Rightarrow> ([], ctx));
                    (current_response, ctx'') = proc msgs ctx'
                in Some (first_response @ current_response, d'', ctx'', stream_state ctx'' = Completed))))"

text \<open>A stream that has been dropped yields no further chunk (\<open>DroppableStream::poll_next\<close>).  The result is what is sent, and the
  decoder at the end, or None if there is no end.\<close>

fun then_phase :: "'o processor \<Rightarrow> ('e \<Rightarrow> message_context \<Rightarrow> 'o list \<times> message_context) \<Rightarrow>
    'e codecs \<Rightarrow> (nat \<Rightarrow> f32) \<Rightarrow> bool \<Rightarrow> bytes option list \<Rightarrow> chat_decoder \<Rightarrow> message_context \<Rightarrow>
    'o list \<times> chat_decoder option" where
  "then_phase proc err C clock conv [] d ctx = ([], Some d)"
| "then_phase proc err C clock conv (c # cs) d ctx =
     (case then_step proc err C clock conv c d ctx of
        None \<Rightarrow> ([], None)
      | Some (out, d', ctx', dropped) \<Rightarrow>
          if dropped then (out, Some d')
          else let (rest, r) = then_phase proc err C clock conv cs d' ctx' in (out @ rest, r))"

text \<open>The answer: what is sent, with the end of the answer if the stream has one.\<close>

definition stream_answer :: "'o processor \<Rightarrow> ('e \<Rightarrow> message_context \<Rightarrow> 'o list \<times> message_context) \<Rightarrow>
    (chat_decoder \<Rightarrow> 'o list) \<Rightarrow> 'e codecs \<Rightarrow> (nat \<Rightarrow> f32) \<Rightarrow> bool \<Rightarrow> str option \<Rightarrow> bytes option list \<Rightarrow>
    'e first_error + 'o list \<times> chat_decoder option" where
  "stream_answer proc err fin C clock conv mc cs =
     (case first_phase C clock conv cs (with_model_call_id mc) of
        Inl e \<Rightarrow> Inl e
      | Inr (d, cs') \<Rightarrow>
          (let (out, r) = then_phase proc err C clock conv cs' d message_context_new
           in Inr (out @ (case r of Some d' \<Rightarrow> fin d' | None \<Rightarrow> []), r)))"

definition anthropic_stream :: "'e codecs \<Rightarrow> (nat \<Rightarrow> f32) \<Rightarrow> bool \<Rightarrow> str option \<Rightarrow> bytes option list \<Rightarrow>
    'e first_error + ('v, 'e) event list \<times> chat_decoder option" where
  "anthropic_stream = stream_answer process_messages (\<lambda>e ctx. ([ErrorEvent e], ctx)) finale"

text \<open>An error of the backend is sent as content, in its JSON form, and completes the answer.\<close>

definition openai_stream :: "('e \<Rightarrow> str) \<Rightarrow> bool \<Rightarrow> 'e codecs \<Rightarrow> (nat \<Rightarrow> f32) \<Rightarrow> bool \<Rightarrow> str option \<Rightarrow> bytes option list \<Rightarrow>
    'e first_error + openai_chunk list \<times> chat_decoder option" where
  "openai_stream to_json is_need =
     stream_answer openai_messages (\<lambda>e. openai_messages [Content (to_json e), StreamEnd]) (openai_finale is_need)"

section \<open>Sessions\<close>

text \<open>The model call id of a session is kept between its streamed requests.  It is read when the request starts and
  saved with the end of the answer.\<close>

type_synonym session_store = "str \<rightharpoonup> str"

definition existing_model_call_id :: "str option \<Rightarrow> session_store \<Rightarrow> str option" where
  "existing_model_call_id sid store = (case sid of Some s \<Rightarrow> store s | None \<Rightarrow> None)"

definition save_session :: "str option \<Rightarrow> chat_decoder \<Rightarrow> session_store \<Rightarrow> session_store" where
  "save_session sid d store =
     (case sid of
        Some s \<Rightarrow> (case saved_model_call_id (cd_context d) of Some m \<Rightarrow> store(s \<mapsto> m) | None \<Rightarrow> store)
      | None \<Rightarrow> store)"

text \<open>A whole streamed request of a session, given how it is answered.\<close>

definition session_request :: "(str option \<Rightarrow> bytes option list \<Rightarrow> 'e first_error + 'o list \<times> chat_decoder option) \<Rightarrow>
    str option \<Rightarrow> bytes option list \<Rightarrow> session_store \<Rightarrow> ('e first_error + 'o list) \<times> session_store" where
  "session_request answer sid cs store =
     (case answer (existing_model_call_id sid store) cs of
        Inl e \<Rightarrow> (Inl e, store)
      | Inr (out, Some d) \<Rightarrow> (Inr out, save_session sid d store)
      | Inr (out, None) \<Rightarrow> (Inr out, store))"

section \<open>Answers in one piece\<close>

record chat_completion =
  full_text :: str
  tool_calls :: "tool_call list"

fun openai_collect :: "stream_message list \<Rightarrow> chat_completion \<Rightarrow> chat_completion" where
  "openai_collect [] a = a"
| "openai_collect (Content s # ms) a = openai_collect ms (a\<lparr> full_text := full_text a @ s \<rparr>)"
| "openai_collect (ToolCall t # ms) a = openai_collect ms (a\<lparr> tool_calls := tool_calls a @ [t] \<rparr>)"
| "openai_collect (_ # ms) a = openai_collect ms a"

datatype 'e answer_error = AnswerUpstream 'e | AnswerReadFailed | ResponseReceived

text \<open>Collecting the chunks, and the answer: without any text it is an error.\<close>

fun openai_chunks :: "'e codecs \<Rightarrow> (nat \<Rightarrow> f32) \<Rightarrow> bool \<Rightarrow> bytes option list \<Rightarrow> chat_completion \<Rightarrow> chat_decoder \<Rightarrow>
    'e answer_error + chat_completion \<times> chat_decoder" where
  "openai_chunks C clock conv [] a d = Inr (a, d)"
| "openai_chunks C clock conv (None # cs) a d = Inl AnswerReadFailed"
| "openai_chunks C clock conv (Some c # cs) a d =
     (case chat_decode C clock conv c d of
        (Inr ms, d') \<Rightarrow> openai_chunks C clock conv cs (openai_collect ms a) d'
      | (Inl (Upstream e), d') \<Rightarrow> Inl (AnswerUpstream e)
      | (Inl EmptyStream, d') \<Rightarrow> openai_chunks C clock conv cs a d')"

definition openai_answer :: "'e codecs \<Rightarrow> (nat \<Rightarrow> f32) \<Rightarrow> bool \<Rightarrow> bytes option list \<Rightarrow>
    'e answer_error + chat_completion \<times> finish_reason" where
  "openai_answer C clock conv cs =
     (case openai_chunks C clock conv cs \<lparr> full_text = [], tool_calls = [] \<rparr> (no_first_cache chat_decoder_new) of
        Inl e \<Rightarrow> Inl e
      | Inr (a, d) \<Rightarrow>
          (let text = trim_leading_newlines (full_text a)
           in if text = [] then Inl ResponseReceived
              else Inr (a\<lparr> full_text := text \<rparr>, if tool_processed d = 0 then Stop else ToolCalls)))"

text \<open>The blocks of an Anthropic answer: consecutive parts of a kind extend the last block.  The text of a tool input is
  collected in a variable of its own (\<open>json\<close>), which starts empty with every chunk; \<open>parse\<close> is the JSON parser.\<close>

definition extend_text :: "str \<Rightarrow> 'v content_block list \<Rightarrow> 'v content_block list" where
  "extend_text s bs =
     (case rev bs of TextBlock t # r \<Rightarrow> rev r @ [TextBlock (t @ s)] | _ \<Rightarrow> bs @ [TextBlock s])"

fun extend_thinking :: "thinking \<Rightarrow> 'v content_block list \<Rightarrow> 'v content_block list" where
  "extend_thinking (ThinkText s) bs =
     (case rev bs of ThinkingBlock t g # r \<Rightarrow> rev r @ [ThinkingBlock (t @ s) g] | _ \<Rightarrow> bs @ [ThinkingBlock s None])"
| "extend_thinking (Signature g) bs =
     (case rev bs of ThinkingBlock t _ # r \<Rightarrow> rev r @ [ThinkingBlock t (Some g)] | _ \<Rightarrow> bs @ [ThinkingBlock [] (Some g)])"
| "extend_thinking (RedactedThinking s) bs = bs @ [RedactedBlock s]"

fun chunk_blocks :: "(str \<Rightarrow> (str \<times> 'v) list option) \<Rightarrow> stream_message list \<Rightarrow> str \<Rightarrow> 'v content_block list \<Rightarrow>
    'v content_block list" where
  "chunk_blocks parse [] json bs = bs"
| "chunk_blocks parse (Thinking t # ms) json bs = chunk_blocks parse ms json (extend_thinking t bs)"
| "chunk_blocks parse (Content s # ms) json bs = chunk_blocks parse ms json (extend_text s bs)"
| "chunk_blocks parse (ToolCall t # ms) json bs =
     (let json' = json @ tc_input t
      in case (if is_last t then parse json' else None) of
           Some input \<Rightarrow> chunk_blocks parse ms [] (bs @ [ToolUse (tc_id t) (tc_name t) input])
         | None \<Rightarrow> chunk_blocks parse ms json' bs)"
| "chunk_blocks parse (_ # ms) json bs = chunk_blocks parse ms json bs"

fun anthropic_chunks :: "'e codecs \<Rightarrow> (nat \<Rightarrow> f32) \<Rightarrow> bool \<Rightarrow> (str \<Rightarrow> (str \<times> 'v) list option) \<Rightarrow> bytes option list \<Rightarrow>
    'v content_block list \<Rightarrow> chat_decoder \<Rightarrow> 'e answer_error + 'v content_block list \<times> stop_reason" where
  "anthropic_chunks C clock conv parse [] bs d = Inr (bs, if tool_processed d = 0 then EndTurn else ToolUseStop)"
| "anthropic_chunks C clock conv parse (None # cs) bs d = Inl AnswerReadFailed"
| "anthropic_chunks C clock conv parse (Some c # cs) bs d =
     (case chat_decode C clock conv c d of
        (Inr ms, d') \<Rightarrow> anthropic_chunks C clock conv parse cs (chunk_blocks parse ms [] bs) d'
      | (Inl (Upstream e), d') \<Rightarrow> Inl (AnswerUpstream e)
      | (Inl EmptyStream, d') \<Rightarrow> anthropic_chunks C clock conv parse cs bs d')"

definition anthropic_answer :: "'e codecs \<Rightarrow> (nat \<Rightarrow> f32) \<Rightarrow> bool \<Rightarrow> (str \<Rightarrow> (str \<times> 'v) list option) \<Rightarrow> bytes option list \<Rightarrow>
    'e answer_error + 'v content_block list \<times> stop_reason" where
  "anthropic_answer C clock conv parse cs = anthropic_chunks C clock conv parse cs [] (no_first_cache chat_decoder_new)"

section \<open>The processors and the end of the stream\<close>

text \<open>Both processors handle messages one after the other and stop at the end of the stream: what the driver needs of
  them.\<close>

locale message_processor =
  fixes proc :: "'o processor"
  assumes proc_Nil: "proc [] ctx = ([], ctx)"
    and proc_append: "StreamEnd \<notin> set xs \<Longrightarrow>
      proc (xs @ ys) ctx = (fst (proc xs ctx) @ fst (proc ys (snd (proc xs ctx))), snd (proc ys (snd (proc xs ctx))))"
    and proc_completed: "stream_state ctx \<noteq> Completed \<Longrightarrow>
      stream_state (snd (proc xs ctx)) = Completed \<longleftrightarrow> StreamEnd \<in> set xs"

lemma switch_block_state [simp]:
  "stream_state (snd (switch_block kind block after ctx)) =
     (if last_content_type ctx \<noteq> kind then ContentBlockActive else stream_state ctx)"
  by (simp add: switch_block_def Let_def)

lemma process_messages_Cons:
  fixes p :: "('v, 'e) event processor"
  defines "p \<equiv> process_messages"
  shows "p (m # ms) ctx =
     (if m = StreamEnd then p [StreamEnd] ctx
      else (fst (p [m] ctx) @ fst (p ms (snd (p [m] ctx))), snd (p ms (snd (p [m] ctx)))))"
  unfolding p_def
  by (cases m) (simp_all add: case_prod_beta Let_def)

lemma process_one_state: "m \<noteq> StreamEnd \<Longrightarrow> stream_state ctx \<noteq> Completed \<Longrightarrow>
    stream_state (snd (process_messages [m] ctx)) \<noteq> Completed"
  by (cases m) (simp_all add: case_prod_beta Let_def)

lemma openai_messages_Cons:
  "openai_messages (m # ms) ctx =
     (if m = StreamEnd then openai_messages [StreamEnd] ctx
      else (fst (openai_messages [m] ctx) @ fst (openai_messages ms (snd (openai_messages [m] ctx))),
            snd (openai_messages ms (snd (openai_messages [m] ctx)))))"
  by (cases m) (simp_all add: case_prod_beta Let_def)

lemma openai_one_state: "m \<noteq> StreamEnd \<Longrightarrow> stream_state ctx \<noteq> Completed \<Longrightarrow>
    stream_state (snd (openai_messages [m] ctx)) \<noteq> Completed"
  by (cases m) (simp_all add: case_prod_beta Let_def)

text \<open>Processors that go message by message satisfy the laws.\<close>

lemma message_processor_intro:
  assumes Nil: "\<And>ctx. proc [] ctx = ([], ctx)"
    and Cons: "\<And>m ms ctx. proc (m # ms) ctx =
       (if m = StreamEnd then proc [StreamEnd] ctx
        else (fst (proc [m] ctx) @ fst (proc ms (snd (proc [m] ctx))), snd (proc ms (snd (proc [m] ctx)))))"
    and running: "\<And>m ctx. m \<noteq> StreamEnd \<Longrightarrow> stream_state ctx \<noteq> Completed \<Longrightarrow>
       stream_state (snd (proc [m] ctx)) \<noteq> Completed"
    and stop: "\<And>ctx. stream_state (snd (proc [StreamEnd] ctx)) = Completed"
  shows "message_processor proc"
proof
  show "proc [] ctx = ([], ctx)" for ctx by (rule Nil)
  show "StreamEnd \<notin> set xs \<Longrightarrow>
      proc (xs @ ys) ctx = (fst (proc xs ctx) @ fst (proc ys (snd (proc xs ctx))), snd (proc ys (snd (proc xs ctx))))"
    for xs ys ctx
  proof (induction xs arbitrary: ctx)
    case (Cons m ms)
    then show ?case using assms(2) [of m "ms @ ys" ctx] assms(2) [of m ms ctx] by (auto simp del: process_messages.simps)
  qed (simp add: Nil)
  show "stream_state ctx \<noteq> Completed \<Longrightarrow> stream_state (snd (proc xs ctx)) = Completed \<longleftrightarrow> StreamEnd \<in> set xs" for xs ctx
  proof (induction xs arbitrary: ctx)
    case (Cons m ms)
    then show ?case using assms(2) [of m ms ctx] running [of m ctx] stop by (cases "m = StreamEnd") auto
  qed (simp add: Nil)
qed

interpretation am: message_processor process_messages
  by (rule message_processor_intro [OF process_messages.simps(1) process_messages_Cons process_one_state]) simp_all

interpretation om: message_processor openai_messages
  by (rule message_processor_intro [OF openai_messages.simps(1) openai_messages_Cons openai_one_state]) simp_all

section \<open>The first phase\<close>

text \<open>The bytes that were read.\<close>

definition wire :: "bytes option list \<Rightarrow> bytes" where
  "wire cs = concat (map (case_option [] (\<lambda>b. b)) cs)"

lemma wire_simps [simp]: "wire [] = []" "wire (None # cs) = wire cs" "wire (Some b # cs) = b @ wire cs"
  "wire (cs @ cs') = wire cs @ wire cs'"
  by (simp_all add: wire_def)

lemma cache_first_fields [simp]:
  "cd_buffer (snd (cache_first ms d)) = cd_buffer d" "cd_context (snd (cache_first ms d)) = cd_context d"
  "first_result_taken (snd (cache_first ms d)) = first_result_taken d"
  by (simp_all add: cache_first_def Let_def split: option.splits)

lemma cd_inv_cong: "cd_buffer d = cd_buffer d' \<Longrightarrow> cd_inv d = cd_inv d'" "cd_buffer d = cd_buffer d' \<Longrightarrow> cd_pending d = cd_pending d'"
  by (simp_all add: cd_inv_def cd_pending_def)

text \<open>While the first result is collected: the state of a decoder that has read frames whose messages are \<open>ms\<close>.\<close>

definition collecting :: "'e codecs \<Rightarrow> bool \<Rightarrow> decode_context \<Rightarrow> bytes \<Rightarrow> stream_message list \<Rightarrow> chat_decoder \<Rightarrow> bool" where
  "collecting C conv ctx0 w ms d \<longleftrightarrow>
     cd_inv d \<and> \<not> first_result_taken d \<and> first_result d = (if ms = [] then None else Some ms) \<and>
     (first_result_ready d \<longrightarrow> ms \<noteq> []) \<and>
     (\<exists>raws. parse_frames w = (raws, cd_pending d) \<and> interp C conv raws ctx0 = (Inr ms, cd_context d))"

lemma collecting_start: "collecting C conv (cd_context d) [] [] d" if "d = with_model_call_id mc"
  using that
  by (simp add: collecting_def with_model_call_id_def cd_inv_def cd_pending_def buffer_with_capacity_def
      buffer_as_ref_def buffer_wf_def parse_frames_short)

lemma collecting_step:
  assumes col: "collecting C conv ctx0 w ms d" and nr: "\<not> first_result_ready d"
    and dec: "chat_decode C clock conv b d = (r, d')" and ok: "\<And>e. r \<noteq> Inl (Upstream e)"
  shows "\<exists>ms'. collecting C conv ctx0 (w @ b) ms' d'"
proof -
  obtain raws where raws: "parse_frames w = (raws, cd_pending d)" "interp C conv raws ctx0 = (Inr ms, cd_context d)"
    and inv: "cd_inv d" and nt: "\<not> first_result_taken d" and fr: "first_result d = (if ms = [] then None else Some ms)"
    using col by (auto simp: collecting_def)
  show ?thesis
  proof (cases "b = [] \<or> length (cd_pending d @ b) < 5")
    case True
    obtain d1 where d1: "chat_decode C clock conv b d = (Inl EmptyStream, d1)" "cd_inv d1" "cd_pending d1 = cd_pending d @ b"
      "cd_context d1 = cd_context d" "first_result d1 = first_result d" "first_result_ready d1 = first_result_ready d"
      "first_result_taken d1 = first_result_taken d"
      using chat_decode_short [OF inv True] by blast
    have "parse_frames (w @ b) = (raws, cd_pending d1)"
      using parse_frames_append [OF raws(1), of b "[]" "cd_pending d1"] d1(2,3) by (simp add: cd_inv_def)
    then have "collecting C conv ctx0 (w @ b) ms d1"
      using d1 nr nt fr raws(2) by (simp add: collecting_def)
    then show ?thesis using dec d1(1) by auto
  next
    case False
    obtain r1 rest where p: "parse_frames (cd_pending d @ b) = (r1, rest)" by fastforce
    note frames = chat_decode_frames [OF cd_inv_wf [OF inv] _ _ p, of C clock conv]
    show ?thesis
    proof (cases "fst (interp C conv r1 (cd_context d))")
      case (Inl e)
      then show ?thesis using frames False dec ok by auto
    next
      case (Inr ms1)
      then obtain d1 where d1: "same_frame (d\<lparr> cd_buffer := cd_buffer d1, empty_stream_count := 0 \<rparr>) d1" "cd_inv d1"
        "cd_pending d1 = rest" "cd_context d1 = snd (interp C conv r1 (cd_context d))"
        "chat_decode C clock conv b d = (Inr (fst (cache_first ms1 d1)), snd (cache_first ms1 d1))"
        using frames False by auto
      then have d': "d' = snd (cache_first ms1 d1)" using dec by simp
      have f: "first_result_taken d1 = False" "first_result_ready d1 = False" "first_result d1 = first_result d"
        using d1(1) nt nr by (simp_all add: same_frame_def)
      have frames2: "parse_frames (w @ b) = (raws @ r1, cd_pending d')"
        using parse_frames_append [OF raws(1) p] d1(3) d' by (simp add: cd_pending_def)
      have "interp C conv (raws @ r1) ctx0 = (Inr (ms @ ms1), cd_context d')"
        using raws(2) Inr d1(4) d' by (simp add: interp_append)
      moreover have "cd_inv d'" using d1(2) d' cd_inv_cong(1) [of d' d1] by simp
      moreover have "first_result d' = (if ms @ ms1 = [] then None else Some (ms @ ms1))"
        using f fr by (simp add: d' cache_first_def Let_def)
      moreover have "first_result_ready d' \<longrightarrow> ms @ ms1 \<noteq> []"
        using f fr by (auto simp: d' cache_first_def Let_def)
      ultimately have "collecting C conv ctx0 (w @ b) (ms @ ms1) d'"
        using frames2 f(1) d' by (simp add: collecting_def)
      then show ?thesis ..
    qed
  qed
qed

lemma first_phase_collects:
  assumes "first_phase C clock conv cs d = Inr (d', cs')" and "collecting C conv ctx0 w ms d"
  shows "\<exists>pre ms'. cs = pre @ cs' \<and> collecting C conv ctx0 (w @ wire pre) ms' d' \<and> first_result_ready d'"
  using assms
proof (induction cs arbitrary: d w ms)
  case (Cons c cs)
  show ?case
  proof (cases "first_result_ready d")
    case True
    then show ?thesis using Cons.prems by (intro exI [of _ "[]"] exI [of _ ms]) auto
  next
    case False
    then obtain b where c: "c = Some b" using Cons.prems(1) by (auto split: option.splits)
    obtain r d1 where dec: "chat_decode C clock conv b d = (r, d1)" by fastforce
    have ok: "r \<noteq> Inl (Upstream e)" for e using Cons.prems(1) False c dec by auto
    have fp: "first_phase C clock conv cs d1 = Inr (d', cs')"
      using Cons.prems(1) False c dec ok by (auto split: sum.splits stream_error.splits)
    obtain ms1 where "collecting C conv ctx0 (w @ b) ms1 d1"
      using collecting_step [OF Cons.prems(2) False dec ok] by blast
    from Cons.IH [OF fp this] obtain pre ms' where "cs = pre @ cs'" "collecting C conv ctx0 ((w @ b) @ wire pre) ms' d'"
      "first_result_ready d'" by blast
    then show ?thesis using c by (intro exI [of _ "Some b # pre"]) auto
  qed
qed (auto split: if_splits)

section \<open>The second phase\<close>

text \<open>Nothing comes after the end of the stream.\<close>

definition ends_last :: "stream_message list \<Rightarrow> bool" where
  "ends_last ms \<longleftrightarrow> StreamEnd \<notin> set (butlast ms)"

lemma ends_last_append: "ends_last (xs @ ys) \<Longrightarrow> (if StreamEnd \<in> set xs then ys = [] else ends_last ys)"
  by (cases "ys = []") (auto simp: ends_last_def butlast_append)

lemma take_first_result_taken:
  "first_result_taken d \<Longrightarrow> first_result d = None \<Longrightarrow> take_first_result d = (None, d)"
  by (cases d) (simp add: take_first_result_def)

lemma decode_cases:
  assumes "cd_inv d" and "parse_frames (cd_pending d @ b @ w) = (raws, rest)"
    and "fst (interp C conv raws (cd_context d)) = Inr ms"
  obtains (short) d' where "chat_decode C clock conv b d = (Inl EmptyStream, d')" "cd_inv d'"
      "cd_pending d' = cd_pending d @ b" "cd_context d' = cd_context d" "first_result d' = first_result d"
      "first_result_ready d' = first_result_ready d" "first_result_taken d' = first_result_taken d"
      "b = [] \<or> length (cd_pending d @ b) < 5"
    | (frames) r1 r2 m1 m2 d1 where "raws = r1 @ r2" "ms = m1 @ m2" "parse_frames (cd_pending d @ b) = (r1, cd_pending d1)"
      "parse_frames (cd_pending d1 @ w) = (r2, rest)" "interp C conv r1 (cd_context d) = (Inr m1, cd_context d1)"
      "fst (interp C conv r2 (cd_context d1)) = Inr m2" "cd_inv d1" "first_result d1 = first_result d"
      "first_result_ready d1 = first_result_ready d" "first_result_taken d1 = first_result_taken d"
      "chat_decode C clock conv b d = (Inr (fst (cache_first m1 d1)), snd (cache_first m1 d1))"
proof (cases "b = [] \<or> length (cd_pending d @ b) < 5")
  case True
  then show ?thesis using chat_decode_short [OF assms(1) True, of C clock conv] short by blast
next
  case False
  obtain r1 rest1 where p1: "parse_frames (cd_pending d @ b) = (r1, rest1)" by fastforce
  obtain r2 rest2 where p2: "parse_frames (rest1 @ w) = (r2, rest2)" by fastforce
  have raws: "raws = r1 @ r2" "rest2 = rest" using parse_frames_append [OF p1 p2] assms(2) by simp_all
  note fr = chat_decode_frames [OF cd_inv_wf [OF assms(1)] _ _ p1, of C clock conv]
  obtain m1 c1 where i1: "interp C conv r1 (cd_context d) = (Inr m1, c1)"
    using assms(3) raws(1) by (cases "interp C conv r1 (cd_context d)") (auto simp: interp_append split: sum.splits)
  obtain m2 where i2: "fst (interp C conv r2 c1) = Inr m2" "ms = m1 @ m2"
    using assms(3) raws(1) i1 by (cases "fst (interp C conv r2 c1)") (auto simp: interp_append)
  obtain d1 where d1: "same_frame (d\<lparr> cd_buffer := cd_buffer d1, empty_stream_count := 0 \<rparr>) d1" "cd_inv d1"
    "cd_pending d1 = rest1" "cd_context d1 = snd (interp C conv r1 (cd_context d))"
    "chat_decode C clock conv b d = (Inr (fst (cache_first m1 d1)), snd (cache_first m1 d1))"
    using fr False i1 by auto
  show ?thesis
    by (rule frames [OF raws(1) i2(2)]) (use d1 p1 p2 raws i1 i2 in \<open>simp_all add: same_frame_def\<close>)
qed

lemma cache_first_ready: "first_result_ready d \<Longrightarrow> first_result d = Some f \<Longrightarrow> cache_first ms d = (ms, d)"
  by (simp add: cache_first_def Let_def)

lemma buffer_empty_iff: "buffer_wf b \<Longrightarrow> buffer_is_empty b \<longleftrightarrow> buffer_as_ref b = []"
  by (auto simp: buffer_is_empty_def buffer_len_ref)

lemma context_new_state [simp]: "stream_state message_context_new = NotStarted" "index message_context_new = 0"
  "last_content_type message_context_new = LastNone"
  by (simp_all add: message_context_new_def)

text \<open>Every chunk brings something and leaves at least a header to read; \<open>p\<close> are the bytes that are pending.\<close>

fun steady :: "bytes \<Rightarrow> bytes option list \<Rightarrow> bool" where
  "steady p [] \<longleftrightarrow> True"
| "steady p (None # cs) \<longleftrightarrow> steady p cs"
| "steady p (Some b # cs) \<longleftrightarrow> b \<noteq> [] \<and> 5 \<le> length (p @ b) \<and> steady (snd (parse_frames (p @ b))) cs"

lemma then_step_hangs:
  assumes "buffer_wf (cd_buffer d)"
  shows "then_step proc err C clock conv (Some c) d ctx = None \<longleftrightarrow> c = [] \<or> length (cd_pending d @ c) < 5"
proof (cases "c = [] \<or> length (cd_pending d @ c) < 5")
  case True
  then have "fst (chat_decode C clock conv c d) = Inl EmptyStream"
    using assms by (auto simp: chat_decode_def buffer_len_ref cd_pending_def Let_def)
  then show ?thesis using True by (cases "chat_decode C clock conv c d") (simp add: then_step_def)
next
  case False
  obtain raws rest where p: "parse_frames (cd_pending d @ c) = (raws, rest)" by fastforce
  have "fst (chat_decode C clock conv c d) \<noteq> Inl EmptyStream"
    using chat_decode_frames [OF assms _ _ p, of C clock conv] False by (auto split: sum.splits)
  then show ?thesis using False
    by (cases "chat_decode C clock conv c d") (auto simp: then_step_def case_prod_beta Let_def split: sum.splits stream_error.splits)
qed

context message_processor
begin

lemma then_taken:
  assumes "cd_inv d" and "first_result_taken d" and "first_result_ready d" and "first_result d = None"
    and "parse_frames (cd_pending d @ wire cs) = (raws, rest)" and "fst (interp C conv raws (cd_context d)) = Inr ms"
    and "ends_last ms" and "stream_state ctx \<noteq> Completed" and "steady (cd_pending d) cs"
  shows "\<exists>d'. then_phase proc err C clock conv cs d ctx = (fst (proc ms ctx), Some d')"
  using assms
proof (induction cs arbitrary: d ctx raws ms)
  case Nil
  then show ?case by (simp add: cd_inv_def proc_Nil)
next
  case (Cons c cs)
  show ?case
  proof (cases c)
    case None
    then show ?thesis using Cons.IH [OF Cons.prems(1-4)] Cons.prems(5-) by (simp add: then_step_def case_prod_beta)
  next
    case (Some b)
    have pf: "parse_frames (cd_pending d @ b @ wire cs) = (raws, rest)" using Cons.prems(5) Some by simp
    show ?thesis
    proof (rule decode_cases [OF Cons.prems(1) pf Cons.prems(6), of clock])
      assume "b = [] \<or> length (cd_pending d @ b) < 5"
      then show ?thesis using Cons.prems(9) Some by auto
    next
      fix r1 r2 m1 m2 d1 assume f: "raws = r1 @ r2" "ms = m1 @ m2" "parse_frames (cd_pending d1 @ wire cs) = (r2, rest)"
        "fst (interp C conv r2 (cd_context d1)) = Inr m2" "cd_inv d1" "first_result d1 = first_result d"
        "first_result_ready d1 = first_result_ready d" "first_result_taken d1 = first_result_taken d"
        "chat_decode C clock conv b d = (Inr (fst (cache_first m1 d1)), snd (cache_first m1 d1))"
        "parse_frames (cd_pending d @ b) = (r1, cd_pending d1)"
      have t: "first_result_taken d1" "first_result_ready d1" "first_result d1 = None" using f Cons.prems by simp_all
      have step: "then_step proc err C clock conv c d ctx =
          Some (fst (proc m1 ctx), d1, snd (proc m1 ctx), stream_state (snd (proc m1 ctx)) = Completed)"
        using f(9) Some cache_first_taken [OF t(1,2)] take_first_result_taken [OF t(1,3)]
        by (simp add: then_step_def case_prod_beta Let_def)
      have st: "steady (cd_pending d1) cs" using Cons.prems(9) Some f(10) by simp
      have el: "if StreamEnd \<in> set m1 then m2 = [] else ends_last m2" using Cons.prems(7) f(2) ends_last_append by blast
      note compl = proc_completed [OF Cons.prems(8), of m1]
      show ?thesis
      proof (cases "StreamEnd \<in> set m1")
        case True
        then show ?thesis using step compl el f(2) by simp
      next
        case False
        then have "\<exists>d'. then_phase proc err C clock conv cs d1 (snd (proc m1 ctx)) = (fst (proc m2 (snd (proc m1 ctx))), Some d')"
          using el compl f(3,4,5) t st by (intro Cons.IH [of d1 r2]) simp_all
        then show ?thesis using step compl False f(2) proc_append [OF False, of m2 ctx] by (auto simp: case_prod_beta)
      qed
    qed
  qed
qed

text \<open>The chunk after the first phase: when it ends with a frame the first result is taken.\<close>

lemma then_first:
  assumes d: "first_result_ready d" "first_result d = Some m0" "cd_inv d"
    and c: "snd (parse_frames (cd_pending d @ c)) = []" and st: "steady (cd_pending d) (Some c # cs)"
    and p: "parse_frames (cd_pending d @ c @ wire cs) = (raws, rest)"
    and i: "fst (interp C conv raws (cd_context d)) = Inr ms"
  shows "\<exists>ma mb d2. ms = ma @ mb \<and> (let ctx1 = snd (proc m0 ctx); ctx2 = snd (proc ma ctx1) in
      then_step proc err C clock conv (Some c) d ctx =
        Some (fst (proc m0 ctx) @ fst (proc ma ctx1), d2, ctx2, stream_state ctx2 = Completed) \<and>
      (ends_last mb \<longrightarrow> stream_state ctx2 \<noteq> Completed \<longrightarrow>
         (\<exists>d'. then_phase proc err C clock conv cs d2 ctx2 = (fst (proc mb ctx2), Some d'))))"
proof (rule decode_cases [OF d(3) p i, of clock])
  assume "c = [] \<or> length (cd_pending d @ c) < 5"
  then show ?thesis using st by auto
next
  fix ra rb ma mb d1 assume f: "ms = ma @ mb" "parse_frames (cd_pending d @ c) = (ra, cd_pending d1)"
    "parse_frames (cd_pending d1 @ wire cs) = (rb, rest)"
    "fst (interp C conv rb (cd_context d1)) = Inr mb" "cd_inv d1" "first_result d1 = first_result d"
    "first_result_ready d1 = first_result_ready d"
    "chat_decode C clock conv c d = (Inr (fst (cache_first ma d1)), snd (cache_first ma d1))"
  let ?d2 = "d1\<lparr> first_result_taken := True, first_result := None \<rparr>"
  have pd: "cd_pending d1 = []" using f(2) c by simp
  then have take: "take_first_result d1 = (Some m0, ?d2)"
    using f(5,6) d(2) by (simp add: take_first_result_def buffer_empty_iff cd_inv_def cd_pending_def)
  have step: "then_step proc err C clock conv (Some c) d ctx =
      Some (fst (proc m0 ctx) @ fst (proc ma (snd (proc m0 ctx))), ?d2, snd (proc ma (snd (proc m0 ctx))),
       stream_state (snd (proc ma (snd (proc m0 ctx)))) = Completed)"
    using f(6-8) d take cache_first_ready [of d1 m0 ma] by (simp add: then_step_def case_prod_beta Let_def)
  have "steady (cd_pending ?d2) cs" using st f(2) cd_inv_cong(2) [of ?d2 d1] by simp
  then have "\<exists>d'. then_phase proc err C clock conv cs ?d2 c2 = (fst (proc mb c2), Some d')"
    if "ends_last mb" "stream_state c2 \<noteq> Completed" for c2
    using that f(3-7) d cd_inv_cong [of ?d2 d1] by (intro then_taken [of _ _ rb rest]) simp_all
  then show ?thesis using step f(1) unfolding Let_def by blast
qed

lemma then_phase_first:
  assumes "first_result_ready d" "first_result d = Some m0" "cd_inv d"
    and "snd (parse_frames (cd_pending d @ c)) = []" and "steady (cd_pending d) (Some c # cs)"
    and "parse_frames (cd_pending d @ c @ wire cs) = (raws, rest)"
    and "fst (interp C conv raws (cd_context d)) = Inr ms" and el: "ends_last (m0 @ ms)" and ctx: "stream_state ctx \<noteq> Completed"
  shows "\<exists>d'. then_phase proc err C clock conv (Some c # cs) d ctx = (fst (proc (m0 @ ms) ctx), Some d')"
proof -
  let ?ctx1 = "snd (proc m0 ctx)"
  obtain ma mb d2 where ms: "ms = ma @ mb"
    and step: "then_step proc err C clock conv (Some c) d ctx =
        Some (fst (proc m0 ctx) @ fst (proc ma ?ctx1), d2, snd (proc ma ?ctx1), stream_state (snd (proc ma ?ctx1)) = Completed)"
    and rest: "ends_last mb \<Longrightarrow> stream_state (snd (proc ma ?ctx1)) \<noteq> Completed \<Longrightarrow>
        \<exists>d'. then_phase proc err C clock conv cs d2 (snd (proc ma ?ctx1)) = (fst (proc mb (snd (proc ma ?ctx1))), Some d')"
    using then_first [OF assms(1-7), of ctx err clock] unfolding Let_def by blast
  have el0: "if StreamEnd \<in> set m0 then ms = [] else ends_last ms" using el ends_last_append by blast
  have c0: "stream_state ?ctx1 = Completed \<longleftrightarrow> StreamEnd \<in> set m0" by (rule proc_completed [OF ctx])
  show ?thesis
  proof (cases "StreamEnd \<in> set m0")
    case True
    then show ?thesis using el0 step c0 ms by (simp add: proc_Nil)
  next
    case False
    have p: "fst (proc (m0 @ ms) ctx) = fst (proc m0 ctx) @ fst (proc ms ?ctx1)"
      using proc_append [OF False, of ms] by simp
    have ca: "stream_state (snd (proc ma ?ctx1)) = Completed \<longleftrightarrow> StreamEnd \<in> set ma"
      using c0 False by (intro proc_completed) simp
    have ela: "if StreamEnd \<in> set ma then mb = [] else ends_last mb" using el0 False ms ends_last_append by auto
    show ?thesis
    proof (cases "StreamEnd \<in> set ma")
      case True
      then show ?thesis using step ca p ela ms by simp
    next
      case False
      then obtain d' where "then_phase proc err C clock conv cs d2 (snd (proc ma ?ctx1)) = (fst (proc mb (snd (proc ma ?ctx1))), Some d')"
        using rest ela ca by auto
      then show ?thesis using step ca False p ms proc_append [OF False, of mb ?ctx1] by simp
    qed
  qed
qed

text \<open>The answer is made of all messages in order.\<close>

lemma stream_exact:
  assumes fp: "first_phase C clock conv cs (with_model_call_id mc) = Inr (d, Some c # cs')"
    and c: "snd (parse_frames (cd_pending d @ c)) = []" and st: "steady (cd_pending d) (Some c # cs')"
    and i: "fst (interp C conv (fst (parse_frames (wire cs))) (cd_context (with_model_call_id mc))) = Inr ms"
    and el: "ends_last ms"
  shows "\<exists>d'. stream_answer proc err fin C clock conv mc cs = Inr (fst (proc ms message_context_new) @ fin d', Some d')"
proof -
  let ?ctx0 = "cd_context (with_model_call_id mc)"
  obtain pre m0 where pre: "cs = pre @ Some c # cs'" and col: "collecting C conv ?ctx0 (wire pre) m0 d" and rdy: "first_result_ready d"
    using first_phase_collects [OF fp collecting_start [OF refl]] by fastforce
  obtain r0 where inv: "cd_inv d" and m0: "first_result d = Some m0"
    and p0: "parse_frames (wire pre) = (r0, cd_pending d)" and i0: "interp C conv r0 ?ctx0 = (Inr m0, cd_context d)"
    using col rdy by (auto simp: collecting_def)
  obtain r1 rest where p1: "parse_frames (cd_pending d @ c @ wire cs') = (r1, rest)" by fastforce
  have all: "fst (parse_frames (wire cs)) = r0 @ r1" using parse_frames_append [OF p0 p1] pre by simp
  obtain m1 where m1: "fst (interp C conv r1 (cd_context d)) = Inr m1" "ms = m0 @ m1"
    using i all i0 by (cases "fst (interp C conv r1 (cd_context d))") (auto simp: interp_append)
  have "\<exists>d'. then_phase proc err C clock conv (Some c # cs') d message_context_new = (fst (proc ms message_context_new), Some d')"
    using then_phase_first [OF rdy m0 inv c st p1 m1(1), of message_context_new err clock] el m1(2) by simp
  then show ?thesis using fp by (auto simp: stream_answer_def)
qed

end

text \<open>A chunk too short ends the service for good.\<close>

lemma stream_hangs:
  assumes fp: "first_phase C clock conv cs (with_model_call_id mc) = Inr (d, Some c # cs')"
    and c: "c = [] \<or> length (cd_pending d @ c) < 5"
  shows "stream_answer proc err fin C clock conv mc cs = Inr ([], None)"
proof -
  have "cd_inv d" using first_phase_collects [OF fp collecting_start [OF refl]] by (auto simp: collecting_def)
  then have "then_step proc err C clock conv (Some c) d message_context_new = None"
    using then_step_hangs [OF cd_inv_wf, of d proc err C clock conv c message_context_new] c by simp
  then show ?thesis using fp by (simp add: stream_answer_def)
qed

section \<open>Samples\<close>

text \<open>Codecs for the witnesses: a frame of text is its bytes; an error frame is its error.\<close>

definition echo_codecs :: "str codecs" where
  "echo_codecs = \<lparr> gz_read = Some,
     pb_decode = (\<lambda>b. Some (Some (StreamUnifiedChatResponse \<lparr> cr_text = b, cr_thinking = None, cr_web_citation = None \<rparr>))),
     parse_error = Some, user_aborted = (\<lambda>e. False) \<rparr>"

definition text_frame :: "string \<Rightarrow> bytes" where
  "text_frame s = frame_bytes \<lparr> msg_type = 0, msg_data = bytes_of s \<rparr>"

definition end_frame :: bytes where
  "end_frame = frame_bytes \<lparr> msg_type = 2, msg_data = bytes_of ''{}'' \<rparr>"

definition sample_chunk :: bytes where
  "sample_chunk = text_frame '' you'' @ end_frame"

definition sample_wire :: "bytes option list" where
  "sample_wire = [Some (text_frame ''Hi''), Some sample_chunk]"

definition sample_messages :: "stream_message list" where
  "sample_messages = [Content (bytes_of ''Hi''), Content (bytes_of '' you''), StreamEnd]"

text \<open>The decoder after the first phase.\<close>

definition after_first :: "bytes option list \<Rightarrow> chat_decoder" where
  "after_first cs = (case first_phase echo_codecs (\<lambda>_. 0) False cs (with_model_call_id None) of
     Inr (d, _) \<Rightarrow> d | Inl _ \<Rightarrow> chat_decoder_new)"

lemma sample_first: "first_phase echo_codecs (\<lambda>_. 0) False sample_wire (with_model_call_id None) =
    Inr (after_first sample_wire, Some sample_chunk # [])"
  by code_simp

lemma sample_aligned: "snd (parse_frames (cd_pending (after_first sample_wire) @ sample_chunk)) = []"
  "steady (cd_pending (after_first sample_wire)) [Some sample_chunk]"
  by code_simp+

lemma sample_interp: "fst (interp echo_codecs False (fst (parse_frames (wire sample_wire))) (cd_context (with_model_call_id None))) =
    Inr sample_messages"
  by code_simp

lemma sample_ends: "ends_last sample_messages"
  by code_simp

section \<open>A stream is answered exactly\<close>

text \<open>C13: an Anthropic stream.  The first phase has cached its messages; if the chunk that comes next ends with a frame, every
  chunk after the first phase brings at least a byte and leaves at least the five bytes of a header to read, no error
  occurs and nothing follows the end of the stream, the client receives the events of all messages of the
  response, in order and once, and then the end of the answer.\<close>

theorem anthropic_stream_exact:
  assumes "first_phase C clock conv cs (with_model_call_id mc) = Inr (d, Some c # cs')"
    and "snd (parse_frames (cd_pending d @ c)) = []" and "steady (cd_pending d) (Some c # cs')"
    and "fst (interp C conv (fst (parse_frames (wire cs))) (cd_context (with_model_call_id mc))) = Inr ms"
    and "ends_last ms"
  shows "\<exists>d'. anthropic_stream C clock conv mc cs = Inr (fst (process_messages ms message_context_new) @ finale d', Some d')"
  unfolding anthropic_stream_def by (rule am.stream_exact [OF assms])

theorem anthropic_stream_exact_witness:
  "\<exists>d'. anthropic_stream echo_codecs (\<lambda>_. 0) False None sample_wire =
     Inr (fst (process_messages sample_messages message_context_new) @ finale d', Some d')"
  by (rule anthropic_stream_exact [OF sample_first sample_aligned sample_interp sample_ends])

text \<open>An OpenAI stream, under the same conditions.\<close>

theorem openai_stream_exact:
  assumes "first_phase C clock conv cs (with_model_call_id mc) = Inr (d, Some c # cs')"
    and "snd (parse_frames (cd_pending d @ c)) = []" and "steady (cd_pending d) (Some c # cs')"
    and "fst (interp C conv (fst (parse_frames (wire cs))) (cd_context (with_model_call_id mc))) = Inr ms"
    and "ends_last ms"
  shows "\<exists>d'. openai_stream to_json need C clock conv mc cs =
    Inr (fst (openai_messages ms message_context_new) @ openai_finale need d', Some d')"
  unfolding openai_stream_def by (rule om.stream_exact [OF assms])

theorem openai_stream_exact_witness:
  "\<exists>d'. openai_stream (\<lambda>e. e) True echo_codecs (\<lambda>_. 0) False None sample_wire =
     Inr (fst (openai_messages sample_messages message_context_new) @ openai_finale True d', Some d')"
  by (rule openai_stream_exact [OF sample_first sample_aligned sample_interp sample_ends])

text \<open>C14: (src/core/service.rs, the EmptyStream arms of both streaming handlers): when the chunk after the first phase is empty,
  or leaves less than the five bytes of a header to read, the handler waits for ever for the lock it holds.  Whatever the
  backend sends, the client of either protocol receives nothing, not even what was cached, and the response does not end.\<close>

theorem short_chunk_hangs:
  assumes "first_phase C clock conv cs (with_model_call_id mc) = Inr (d, Some c # cs')"
    and "c = [] \<or> length (cd_pending d @ c) < 5"
  shows "anthropic_stream C clock conv mc cs = Inr ([], None) \<and> openai_stream to_json need C clock conv mc cs = Inr ([], None)"
  unfolding anthropic_stream_def openai_stream_def by (intro conjI stream_hangs [OF assms])

definition cut_wire :: "bytes option list" where
  "cut_wire = [Some (text_frame ''Hi''), Some (take 1 sample_chunk), Some (drop 1 sample_chunk)]"

theorem short_chunk_hangs_witness:
  "wire cut_wire = wire sample_wire \<and> anthropic_stream echo_codecs (\<lambda>_. 0) False None cut_wire = Inr ([], None)"
proof -
  have "first_phase echo_codecs (\<lambda>_. 0) False cut_wire (with_model_call_id None) =
      Inr (after_first cut_wire, [Some (take 1 sample_chunk), Some (drop 1 sample_chunk)])"
    "length (cd_pending (after_first cut_wire) @ take 1 sample_chunk) < 5" "wire cut_wire = wire sample_wire"
    by code_simp+
  then show ?thesis using short_chunk_hangs [of echo_codecs "\<lambda>_. 0" False cut_wire None "after_first cut_wire"] by blast
qed

end
