(* ===== verification/Chat_Answers.thy ===== *)
theory Chat_Answers
  imports Chat_Stream
begin

text \<open>
  Properties of the chat handlers: the order of Anthropic events, tool calls in a stream, how the first result and
  errors of the backend meet the chunks of the transport, answers in one piece, and sessions.
\<close>

section \<open>The order of Anthropic events\<close>

text \<open>An acceptor for the event protocol: the message starts, then blocks with consecutive indexes are opened, filled
  with deltas of their kind and closed, then the message ends.\<close>

datatype phase = AtStart | Between u32 | InBlock u32 last_content_type | Ending | Done

fun block_kind :: "'v content_block \<Rightarrow> last_content_type" where
  "block_kind (TextBlock _) = LastText"
| "block_kind (ThinkingBlock _ _) = LastThinking"
| "block_kind (RedactedBlock _) = LastThinking"
| "block_kind (ToolUse _ _ _) = LastInputJson"

fun delta_kind :: "content_delta \<Rightarrow> last_content_type" where
  "delta_kind (TextDelta _) = LastText"
| "delta_kind (InputJsonDelta _) = LastInputJson"
| "delta_kind _ = LastThinking"

fun accept_event :: "('v, 'e) event \<Rightarrow> phase \<Rightarrow> phase option" where
  "accept_event MessageStart AtStart = Some (Between 0)"
| "accept_event (ContentBlockStart i b) (Between j) = (if i = j then Some (InBlock i (block_kind b)) else None)"
| "accept_event (ContentBlockDelta i d) (InBlock j k) = (if i = j \<and> delta_kind d = k then Some (InBlock j k) else None)"
| "accept_event (ContentBlockStop i) (InBlock j k) = (if i = j then Some (Between (j + 1)) else None)"
| "accept_event Ping (Between j) = Some (Between j)"
| "accept_event Ping (InBlock j k) = Some (InBlock j k)"
| "accept_event (MessageDelta r) (Between j) = Some Ending"
| "accept_event MessageStop Ending = Some Done"
| "accept_event _ _ = None"

fun accept_events :: "('v, 'e) event list \<Rightarrow> phase \<Rightarrow> phase option" where
  "accept_events [] p = Some p"
| "accept_events (e # es) p = (case accept_event e p of Some p' \<Rightarrow> accept_events es p' | None \<Rightarrow> None)"

lemma accept_append: "accept_events (es @ es') p =
    (case accept_events es p of Some p' \<Rightarrow> accept_events es' p' | None \<Rightarrow> None)"
  by (induction es arbitrary: p) (auto split: option.splits)

text \<open>The message has started and a block is open.\<close>

definition block_open :: "message_context \<Rightarrow> bool" where
  "block_open ctx \<longleftrightarrow> stream_state ctx = ContentBlockActive \<and> last_content_type ctx \<noteq> LastNone"

abbreviation phase_of :: "message_context \<Rightarrow> phase" where
  "phase_of ctx \<equiv> InBlock (index ctx) (last_content_type ctx)"

lemma accept_switch:
  fixes after :: "u32 \<Rightarrow> ('v, 'e) event list"
  assumes "block_kind b = kind" and "kind \<noteq> LastNone" and "\<And>i. accept_events (after i) (InBlock i kind) = Some (InBlock i kind)"
    and "switch_block kind b after ctx = (evs, ctx')"
  shows "block_open ctx \<Longrightarrow> accept_events evs (phase_of ctx) = Some (phase_of ctx')"
    and "last_content_type ctx = LastNone \<Longrightarrow> accept_events evs (Between (index ctx)) = Some (phase_of ctx')"
    and "last_content_type ctx' = kind"
    and "block_open ctx \<or> last_content_type ctx = LastNone \<Longrightarrow> block_open ctx'"
  using assms by (auto simp: switch_block_def block_open_def accept_append Let_def split: if_splits)

lemma accept_after [simp]:
  "accept_events (ping_if_start ctx i) (InBlock i k) = Some (InBlock i k)"
  "accept_events (thinking_delta i t) (InBlock i LastThinking) = Some (InBlock i LastThinking)"
  by (simp add: ping_if_start_def) (cases t; simp)

lemma start_message_open [simp]: "block_open ctx \<Longrightarrow> start_message ctx = []"
  by (simp add: start_message_def block_open_def)

lemma accept_running:
  fixes p :: "('v, 'e) event processor"
  defines "p \<equiv> process_messages"
  assumes "block_open ctx"
  shows "accept_events (fst (p ms ctx)) (phase_of ctx) =
    Some (if StreamEnd \<in> set ms then Between (index (snd (p ms ctx)) + 1) else phase_of (snd (p ms ctx)))"
  using assms(2) unfolding p_def
proof (induction ms arbitrary: ctx)
  case (Cons m ms)
  show ?case
  proof (cases m)
    case (Thinking t)
    obtain evs ctx' where sw: "switch_block LastThinking (ThinkingBlock [] None) (ping_if_start ctx) ctx = (evs :: ('v, 'e) event list, ctx')"
      by fastforce
    show ?thesis using Cons.IH [of ctx'] Cons.prems Thinking accept_switch [OF _ _ _ sw] sw by (simp add: accept_append case_prod_beta)
  next
    case (Content t)
    obtain evs ctx' where sw: "switch_block LastText (TextBlock []) (ping_if_start ctx) ctx = (evs :: ('v, 'e) event list, ctx')"
      by fastforce
    show ?thesis using Cons.IH [of ctx'] Cons.prems Content accept_switch [OF _ _ _ sw] sw by (simp add: accept_append case_prod_beta)
  next
    case (ToolCall t)
    obtain evs ctx' where sw: "switch_block LastInputJson (ToolUse (tc_id t) (tc_name t) [])
        (\<lambda>i. [ContentBlockDelta i (InputJsonDelta [])]) ctx = (evs :: ('v, 'e) event list, ctx')" by fastforce
    show ?thesis using Cons.IH [of ctx'] Cons.prems ToolCall accept_switch [OF _ _ _ sw] sw by (simp add: accept_append case_prod_beta)
  qed (use Cons in \<open>simp_all add: block_open_def\<close>)
qed simp

text \<open>The first message that is more than a web reference.\<close>

fun opens_with_text :: "stream_message list \<Rightarrow> bool" where
  "opens_with_text (Content _ # ms) = True"
| "opens_with_text (Thinking _ # ms) = True"
| "opens_with_text (WebReference _ # ms) = opens_with_text ms"
| "opens_with_text _ = False"

lemma accept_start:
  assumes "opens_with_text ms" and "StreamEnd \<in> set ms"
  shows "\<exists>j. accept_events (fst (process_messages ms message_context_new) :: ('v, 'e) event list) AtStart = Some (Between j)"
  using assms
proof (induction ms rule: opens_with_text.induct)
  case (1 s ms)
  obtain evs ctx' where sw: "switch_block LastText (TextBlock []) (ping_if_start message_context_new) message_context_new =
      (evs :: ('v, 'e) event list, ctx')" by fastforce
  note acc = accept_switch [OF _ _ _ sw, simplified]
  show ?case using 1 acc accept_running [where 'v = 'v and 'e = 'e, of ctx' ms] sw
    by (simp add: accept_append case_prod_beta start_message_def)
next
  case (2 t ms)
  obtain evs ctx' where sw: "switch_block LastThinking (ThinkingBlock [] None) (ping_if_start message_context_new) message_context_new =
      (evs :: ('v, 'e) event list, ctx')" by fastforce
  note acc = accept_switch [OF _ _ _ sw, simplified]
  show ?case using 2 acc accept_running [where 'v = 'v and 'e = 'e, of ctx' ms] sw
    by (simp add: accept_append case_prod_beta start_message_def)
qed simp_all

text \<open>C15: the events of an answer that opens with text or thinking and reaches its end follow the protocol: one message
  start, blocks with consecutive indexes that are opened, filled only with deltas of their own kind and closed,
  and the message's end.\<close>

theorem anthropic_protocol:
  assumes "opens_with_text ms" and "StreamEnd \<in> set ms"
  shows "accept_events (fst (process_messages ms message_context_new) @ finale d :: ('v, 'e) event list) AtStart = Some Done"
  using accept_start [where 'v = 'v and 'e = 'e, OF assms] by (auto simp: accept_append finale_def)

theorem anthropic_protocol_witness:
  "accept_events (fst (process_messages [Thinking (ThinkText [0x41]), Content [0x42], StreamEnd] message_context_new)
     @ finale chat_decoder_new) AtStart = Some Done"
  by (rule anthropic_protocol) simp_all

text \<open>What the deltas of each kind add up to is what the messages said, up to the end of the stream.\<close>

fun event_text :: "last_content_type \<Rightarrow> ('v, 'e) event \<Rightarrow> str" where
  "event_text LastText (ContentBlockDelta i (TextDelta s)) = s"
| "event_text LastThinking (ContentBlockDelta i (ThinkingDelta s)) = s"
| "event_text LastInputJson (ContentBlockDelta i (InputJsonDelta s)) = s"
| "event_text _ _ = []"

fun message_text :: "last_content_type \<Rightarrow> stream_message \<Rightarrow> str" where
  "message_text LastText (Content s) = s"
| "message_text LastThinking (Thinking (ThinkText s)) = s"
| "message_text LastInputJson (ToolCall t) = tc_input t"
| "message_text _ _ = []"

lemma switch_no_text:
  assumes "\<And>i. concat (map (event_text k) (after i)) = []"
  shows "concat (map (event_text k) (fst (switch_block kind block after ctx))) = []"
  using assms by (cases k) (auto simp: switch_block_def Let_def)

lemma delta_text: "event_text k (ContentBlockDelta i (TextDelta s)) = message_text k (Content s)"
  "event_text k (ContentBlockDelta i (InputJsonDelta [])) = []" "message_text k (WebReference r) = []"
  "event_text k (ContentBlockDelta i (InputJsonDelta (tc_input t))) = message_text k (ToolCall t)"
  "event_text k (ContentBlockStop i) = []"
  by (cases k; simp)+

lemma other_no_text [simp]: "concat (map (event_text k) (start_message ctx)) = []" "concat (map (event_text k) (ping_if_start ctx i)) = []"
  "concat (map (event_text k) (thinking_delta i t)) = message_text k (Thinking t)"
  by (cases k; simp add: start_message_def ping_if_start_def; fail)+ (cases k; cases t; simp)

text \<open>No text is lost, repeated or moved to a block of another kind: for text, thinking and tool input alike, the deltas
  of that kind concatenate to the messages of that kind up to the end of the stream.\<close>

theorem anthropic_text_preserved:
  "concat (map (event_text k) (fst (process_messages ms ctx))) =
   concat (map (message_text k) (takeWhile (\<lambda>m. m \<noteq> StreamEnd) ms))"
proof (induction ms arbitrary: ctx)
  case (Cons m ms)
  then show ?case by (cases m) (simp_all add: Cons switch_no_text delta_text case_prod_beta)
qed simp

section \<open>Tool calls in a stream\<close>

lemma thinking_no_start [simp]: "MessageStart \<notin> set (thinking_delta i t)" "ContentBlockStart j b \<notin> set (thinking_delta i t)"
  by (cases t; simp)+

lemma running_no_start:
  "stream_state ctx \<noteq> NotStarted \<Longrightarrow> MessageStart \<notin> set (fst (process_messages ms ctx) :: ('v, 'e) event list)"
proof (induction ms arbitrary: ctx)
  case (Cons m ms)
  then show ?case
    by (cases m) (auto simp: case_prod_beta switch_block_def start_message_def ping_if_start_def Let_def)
qed simp

text \<open>An answer that opens with a tool call never sends \<open>message_start\<close>: the call is made active before the message
  was started, and later messages find it started.\<close>

theorem anthropic_tool_first_no_start:
  "MessageStart \<notin> set (fst (process_messages (ToolCall t # ms) message_context_new) :: ('v, 'e) event list)"
  using running_no_start [where 'v = 'v and 'e = 'e]
  by (auto simp: case_prod_beta switch_block_def Let_def message_context_new_def)

text \<open>A run of tool calls, and the blocks that are opened.\<close>

fun is_tool :: "stream_message \<Rightarrow> bool" where
  "is_tool (ToolCall _) = True"
| "is_tool _ = False"

fun block_starts :: "('v, 'e) event list \<Rightarrow> 'v content_block list" where
  "block_starts [] = []"
| "block_starts (ContentBlockStart i b # es) = b # block_starts es"
| "block_starts (_ # es) = block_starts es"

lemma tools_same_block:
  "list_all is_tool ms \<Longrightarrow> last_content_type ctx = LastInputJson \<Longrightarrow> block_starts (fst (process_messages ms ctx) :: ('v, 'e) event list) = []"
proof (induction ms arbitrary: ctx)
  case (Cons m ms)
  then show ?case by (cases m) (auto simp: switch_block_def Let_def case_prod_beta)
qed simp

text \<open>Consecutive tool calls share one block.  Only the first one's id and name reach the client, whatever the ids of
  the others, and the arguments of all of them are sent as the input of the first.\<close>

theorem anthropic_tools_merged:
  assumes "list_all is_tool ms" and "last_content_type ctx \<noteq> LastInputJson"
  shows "block_starts (fst (process_messages (ToolCall t # ms) ctx) :: ('v, 'e) event list) = [ToolUse (tc_id t) (tc_name t) []]"
  using assms tools_same_block [where 'v = 'v and 'e = 'e, OF assms(1)]
  by (auto simp: switch_block_def Let_def case_prod_beta)

definition sample_tool :: "string \<Rightarrow> tool_call" where
  "sample_tool i = \<lparr> tc_id = bytes_of i, tc_name = bytes_of ''f'', tc_input = bytes_of ''{}'', is_last = True \<rparr>"

theorem anthropic_tools_merged_witness:
  "tc_id (sample_tool ''a'') \<noteq> tc_id (sample_tool ''b'') \<and>
   block_starts (fst (process_messages [ToolCall (sample_tool ''a''), ToolCall (sample_tool ''b'')] message_context_new)
     :: (unit, unit) event list) = [ToolUse (tc_id (sample_tool ''a'')) (tc_name (sample_tool ''a'')) []]"
  using anthropic_tools_merged [of "[ToolCall (sample_tool ''b'')]" message_context_new "sample_tool ''a''"]
  by (simp add: sample_tool_def bytes_of_def of_char_def)

text \<open>In an OpenAI stream the first tool call after text is sent with index 1, although it is the first entry of the
  list of tool calls.\<close>

theorem openai_tool_index:
  "fst (openai_messages (Content s # ToolCall t # ms) message_context_new) =
     ContentDelta True (trim_leading_newlines s) # ToolDelta False 1 (Some (tc_id t)) (ToolStart (tc_name t)) #
     ToolDelta False 1 None (ToolPartial (tc_input t)) #
     fst (openai_messages ms \<lparr> index = 1, stream_state = ContentBlockActive, last_content_type = LastInputJson \<rparr>)"
  by (simp add: message_context_new_def case_prod_beta)

section \<open>The first result and the chunks\<close>

text \<open>A response that arrives in a single chunk is lost.  The first phase reads it and caches its messages, there is no
  later chunk to send them with, and the client receives nothing but the end of the answer.\<close>

theorem single_chunk_answer_lost:
  "case anthropic_stream C clock conv mc [c] of Inl e \<Rightarrow> True | Inr (evs, r) \<Rightarrow> \<exists>d. r = Some d \<and> evs = finale d"
proof (cases "first_phase C clock conv [c] (with_model_call_id mc)")
  case (Inr r)
  moreover have "snd r = []"
    using Inr by (auto simp: with_model_call_id_def split: option.splits sum.splits stream_error.splits prod.splits if_splits)
  ultimately show ?thesis by (simp add: anthropic_stream_def stream_answer_def case_prod_beta)
qed (simp add: anthropic_stream_def stream_answer_def)

text \<open>A chunk that ends inside a frame is answered before the first result.  Its messages are sent, the cached messages
  that came before them stay in the cache.\<close>

theorem first_result_overtaken:
  assumes "first_result_ready d" and "first_result d = Some F" and "cd_inv d" and "c \<noteq> []"
    and "5 \<le> length (cd_pending d @ c)"
    and "parse_frames (cd_pending d @ c) = (raws, rest)" and "rest \<noteq> []"
    and "fst (interp C conv raws (cd_context d)) = Inr ms"
  shows "\<exists>d' ctx' dropped. then_step process_messages err C clock conv (Some c) d ctx =
      Some (fst (process_messages ms ctx), d', ctx', dropped) \<and> first_result d' = Some F"
proof -
  obtain d1 where d1: "same_frame (d\<lparr> cd_buffer := cd_buffer d1, empty_stream_count := 0 \<rparr>) d1" "cd_inv d1" "cd_pending d1 = rest"
    "chat_decode C clock conv c d = (Inr (fst (cache_first ms d1)), snd (cache_first ms d1))"
    using chat_decode_frames [OF cd_inv_wf [OF assms(3)] assms(4,5,6), of C clock conv] assms(8) by auto
  have "first_result_ready d1" "first_result d1 = Some F" using d1(1) assms(1,2) by (simp_all add: same_frame_def)
  moreover have "take_first_result d1 = (None, d1)"
    using d1(2,3) assms(7) by (simp add: take_first_result_def buffer_empty_iff cd_inv_def cd_pending_def)
  ultimately show ?thesis using d1(4) by (simp add: then_step_def cache_first_ready case_prod_beta)
qed

definition cut_chunk :: bytes where
  "cut_chunk = text_frame ''B'' @ take 6 (text_frame ''CD'')"

theorem first_result_overtaken_witness:
  "\<exists>d' ctx' dropped. then_step process_messages (\<lambda>e ctx. ([ErrorEvent e], ctx)) echo_codecs (\<lambda>_. 0) False (Some cut_chunk)
      (after_first sample_wire) message_context_new =
      Some (fst (process_messages [Content (bytes_of ''B'')] message_context_new), d', ctx', dropped) \<and>
    first_result d' = Some [Content (bytes_of ''Hi'')]"
proof -
  let ?d = "after_first sample_wire"
  have "buffer_wf (cd_buffer ?d)" "parse_frames (cd_pending ?d) = ([], cd_pending ?d)" by code_simp+
  then have inv: "cd_inv ?d" by (simp add: cd_inv_def)
  have h: "first_result_ready ?d" "first_result ?d = Some [Content (bytes_of ''Hi'')]" "cut_chunk \<noteq> []"
    "5 \<le> length (cd_pending ?d @ cut_chunk)"
    "parse_frames (cd_pending ?d @ cut_chunk) = ([\<lparr> msg_type = 0, msg_data = bytes_of ''B'' \<rparr>], take 6 (text_frame ''CD''))"
    "take 6 (text_frame ''CD'') \<noteq> []"
    "fst (interp echo_codecs False [\<lparr> msg_type = 0, msg_data = bytes_of ''B'' \<rparr>] (cd_context ?d)) = Inr [Content (bytes_of ''B'')]"
    by code_simp+
  show ?thesis by (rule first_result_overtaken [OF h(1,2) inv h(3-7)])
qed

text \<open>An error of the backend does not depend on the state of the tool calls.\<close>

lemma process_message_error: "fst (process_message C m ctx) = Inl e \<longleftrightarrow> fst (process_message C m ctx') = Inl e"
  by (auto simp: process_message_def Let_def split: option.splits prod.splits)

lemma map_sum_Inl: "map_sum (\<lambda>e. e) f x = Inl e \<longleftrightarrow> x = Inl e"
  by (cases x) simp_all

lemma interp_Cons_error:
  "fst (interp C conv (m # ms) ctx) = Inl e \<longleftrightarrow>
     (if msg_data m = [] then fst (interp C conv ms ctx) = Inl e
      else (\<exists>e1. fst (process_message C m ctx) = Inl e1 \<and> \<not> user_aborted C e1 \<and> e1 = e) \<or>
        ((\<forall>e1. fst (process_message C m ctx) = Inl e1 \<longrightarrow> user_aborted C e1) \<and>
         fst (interp C conv ms (snd (process_message C m ctx))) = Inl e))"
  by (cases "process_message C m ctx") (auto simp: map_sum_Inl case_prod_beta split: sum.splits option.splits)

lemma interp_error: "fst (interp C conv raws ctx) = Inl e \<Longrightarrow> fst (interp C conv raws ctx') = Inl e"
proof (induction raws arbitrary: ctx ctx')
  case (Cons m ms)
  show ?case using Cons.prems Cons.IH process_message_error [of C m ctx _ ctx']
    unfolding interp_Cons_error by (meson)
qed simp

text \<open>An error of the backend is reported again with every further chunk: \<open>decode\<close> leaves without dropping the frames it
  has read, so that the frame with the error is read again.\<close>

theorem upstream_error_repeats:
  assumes "buffer_wf (cd_buffer d)" and "chat_decode C clock conv c d = (Inl (Upstream e), d')" and "c' \<noteq> []"
  shows "\<exists>d''. then_step process_messages (\<lambda>e ctx. ([ErrorEvent e], ctx)) C clock conv (Some c') d' ctx =
    Some ([ErrorEvent e], d'', ctx, False)"
proof -
  have c: "c \<noteq> []" "5 \<le> length (cd_pending d @ c)"
    using assms(1,2) by (auto simp: chat_decode_def buffer_len_ref cd_pending_def Let_def split: if_splits)
  obtain raws rest where p: "parse_frames (cd_pending d @ c) = (raws, rest)" by fastforce
  note fr = chat_decode_frames [OF assms(1) c p, of C clock conv]
  have i: "fst (interp C conv raws (cd_context d)) = Inl e"
    using fr assms(2) by (cases "fst (interp C conv raws (cd_context d))") auto
  then have d': "buffer_wf (cd_buffer d')" "cd_pending d' = cd_pending d @ c" using fr assms(2) by auto
  obtain r2 rest2 where p2: "parse_frames (rest @ c') = (r2, rest2)" by fastforce
  have p': "parse_frames (cd_pending d' @ c') = (raws @ r2, rest2)" using parse_frames_append [OF p p2] d'(2) by simp
  have len: "5 \<le> length (cd_pending d' @ c')" using c(2) d'(2) by simp
  have "fst (interp C conv (raws @ r2) (cd_context d')) = Inl e"
    using interp_error [OF i, of "cd_context d'"] by (auto simp: interp_append split: prod.splits)
  then obtain d'' where "chat_decode C clock conv c' d' = (Inl (Upstream e), d'')"
    using chat_decode_frames [OF d'(1) assms(3) len p', of C clock conv] by auto
  then show ?thesis by (simp add: then_step_def)
qed

definition error_frame :: "string \<Rightarrow> bytes" where
  "error_frame s = frame_bytes \<lparr> msg_type = 2, msg_data = bytes_of s \<rparr>"

theorem upstream_error_repeats_witness:
  "\<exists>d''. then_step process_messages (\<lambda>e ctx. ([ErrorEvent e], ctx)) echo_codecs (\<lambda>_. 0) False (Some end_frame)
     (snd (chat_decode echo_codecs (\<lambda>_. 0) False (error_frame ''bad'') chat_decoder_new)) message_context_new =
     Some ([ErrorEvent (bytes_of ''bad'')], d'', message_context_new, False)"
proof (rule upstream_error_repeats)
  show "buffer_wf (cd_buffer chat_decoder_new)" by code_simp
  have "fst (chat_decode echo_codecs (\<lambda>_. 0) False (error_frame ''bad'') chat_decoder_new) = Inl (Upstream (bytes_of ''bad''))"
    by code_simp
  then show "chat_decode echo_codecs (\<lambda>_. 0) False (error_frame ''bad'') chat_decoder_new =
    (Inl (Upstream (bytes_of ''bad'')), snd (chat_decode echo_codecs (\<lambda>_. 0) False (error_frame ''bad'') chat_decoder_new))"
    by (simp add: prod_eq_iff)
  show "end_frame \<noteq> []" by code_simp
qed

section \<open>Answers in one piece\<close>

lemma openai_collect_simps:
  "full_text (openai_collect ms a) = full_text a @ concat (map (message_text LastText) ms)"
  "tool_calls (openai_collect ms a) = tool_calls a @ List.map_filter (\<lambda>m. case m of ToolCall t \<Rightarrow> Some t | _ \<Rightarrow> None) ms"
  by (induction ms a rule: openai_collect.induct) (simp_all add: map_filter_simps)

lemma openai_collect_append: "openai_collect (xs @ ys) a = openai_collect ys (openai_collect xs a)"
  by (induction xs a rule: openai_collect.induct) simp_all

lemma openai_chunks_collect:
  "map_sum (\<lambda>e. e) fst (openai_chunks C clock conv (map Some cs) a d) =
   map_sum AnswerUpstream (\<lambda>ms. openai_collect ms a) (fst (collect C clock conv cs d))"
proof (induction cs arbitrary: a d)
  case (Cons c cs)
  show ?case
  proof (cases "chat_decode C clock conv c d")
    case (Pair r d')
    then show ?thesis
    proof (cases r)
      case (Inl e)
      then show ?thesis using Pair Cons by (cases e) auto
    next
      case (Inr ms)
      then show ?thesis using Pair Cons [of "openai_collect ms a" d']
        by (cases "fst (collect C clock conv cs d')") (auto simp: openai_collect_append case_prod_beta)
    qed
  qed
qed simp

text \<open>C16: an OpenAI answer in one piece, however the transport cuts the response: the text of all messages of the frames,
  without two leading newlines, and every part of a tool call as an entry of its own; an error of the backend;
  or an error if there is no text, even when tools were called.\<close>

theorem openai_answer_exact:
  "case fst (interp C conv (fst (parse_frames (concat cs))) (cd_context chat_decoder_new)) of
     Inl e \<Rightarrow> openai_answer C clock conv (map Some cs) = Inl (AnswerUpstream e)
   | Inr ms \<Rightarrow>
       (let text = trim_leading_newlines (concat (map (message_text LastText) ms))
        in if text = [] then openai_answer C clock conv (map Some cs) = Inl ResponseReceived
           else \<exists>r. openai_answer C clock conv (map Some cs) =
             Inr (\<lparr> full_text = text, tool_calls = List.map_filter (\<lambda>m. case m of ToolCall t \<Rightarrow> Some t | _ \<Rightarrow> None) ms \<rparr>, r))"
proof -
  let ?d = "no_first_cache chat_decoder_new"
  let ?a = "\<lparr> full_text = [], tool_calls = [] \<rparr>"
  have ch: "fst (collect C clock conv cs ?d) = fst (interp C conv (fst (parse_frames (concat cs))) (cd_context chat_decoder_new))"
    using collect_no_cache [of C clock conv cs None] by (simp add: chat_decoder_new_def with_model_call_id_def)
  show ?thesis
  proof (cases "fst (interp C conv (fst (parse_frames (concat cs))) (cd_context chat_decoder_new))")
    case (Inl e)
    then have "openai_chunks C clock conv (map Some cs) ?a ?d = Inl (AnswerUpstream e)"
      using openai_chunks_collect [of C clock conv cs ?a ?d] ch
      by (cases "openai_chunks C clock conv (map Some cs) ?a ?d") simp_all
    then show ?thesis using Inl by (simp add: openai_answer_def)
  next
    case (Inr ms)
    then obtain d' where "openai_chunks C clock conv (map Some cs) ?a ?d = Inr (openai_collect ms ?a, d')"
      using openai_chunks_collect [of C clock conv cs ?a ?d] ch
      by (cases "openai_chunks C clock conv (map Some cs) ?a ?d") auto
    then show ?thesis using Inr openai_collect_simps [of ms ?a] by (simp add: openai_answer_def Let_def)
  qed
qed

text \<open>In an Anthropic answer in one piece, the input of a tool call that spans two chunks loses its beginning: the
  variable that collects it starts empty with every chunk, and the block is built from the last part alone, or left out
  if that is not JSON.\<close>

theorem tool_input_split_lost:
  assumes "fst (chat_decode C clock conv c1 d) = Inr [ToolCall t1]" and "\<not> is_last t1"
    and "fst (chat_decode C clock conv c2 (snd (chat_decode C clock conv c1 d))) = Inr [ToolCall t2]" and "is_last t2"
  shows "anthropic_chunks C clock conv parse [Some c1, Some c2] bs d =
    (case parse (tc_input t2) of
       Some input \<Rightarrow> anthropic_chunks C clock conv parse [] (bs @ [ToolUse (tc_id t2) (tc_name t2) input])
         (snd (chat_decode C clock conv c2 (snd (chat_decode C clock conv c1 d))))
     | None \<Rightarrow> anthropic_chunks C clock conv parse [] bs (snd (chat_decode C clock conv c2 (snd (chat_decode C clock conv c1 d)))))"
  using assms by (cases "chat_decode C clock conv c1 d"; cases "chat_decode C clock conv c2 (snd (chat_decode C clock conv c1 d))")
    (auto split: option.splits)

text \<open>Codecs whose text frames are snapshots of one tool call, the last of them longer than eight bytes.\<close>

definition tool_codecs :: "str codecs" where
  "tool_codecs = echo_codecs\<lparr> pb_decode := (\<lambda>b. Some (Some (ClientSideToolV2Call
     \<lparr> ct_params = None, ct_tool_call_id = bytes_of ''t'', ct_is_streaming = True, ct_is_last_message = (8 < length b),
       ct_raw_args = b, ct_model_call_id = None \<rparr>))) \<rparr>"

theorem tool_input_split_lost_witness:
  "anthropic_chunks tool_codecs (\<lambda>_. 0) False (\<lambda>s. None :: (str \<times> unit) list option)
     [Some (text_frame ''{k: ''), Some (text_frame ''{k: 12345}'')] [] (no_first_cache chat_decoder_new) = Inr ([], ToolUseStop)"
proof -
  let ?d = "no_first_cache chat_decoder_new"
  let ?d1 = "snd (chat_decode tool_codecs (\<lambda>_. 0) False (text_frame ''{k: '') ?d)"
  let ?d2 = "snd (chat_decode tool_codecs (\<lambda>_. 0) False (text_frame ''{k: 12345}'') ?d1)"
  let ?t = "\<lambda>s f. \<lparr> tc_id = bytes_of ''t'', tc_name = [], tc_input = bytes_of s, is_last = f \<rparr>"
  have "fst (chat_decode tool_codecs (\<lambda>_. 0) False (text_frame ''{k: '') ?d) = Inr [ToolCall (?t ''{k: '' False)]"
    "fst (chat_decode tool_codecs (\<lambda>_. 0) False (text_frame ''{k: 12345}'') ?d1) = Inr [ToolCall (?t ''12345}'' True)]"
    "tool_processed ?d2 \<noteq> 0"
    by code_simp+
  then show ?thesis using tool_input_split_lost [of tool_codecs "\<lambda>_. 0" False "text_frame ''{k: ''" ?d "?t ''{k: '' False"
      "text_frame ''{k: 12345}''" "?t ''12345}'' True" "\<lambda>s. None :: (str \<times> unit) list option" "[]"]
    by simp
qed

section \<open>Sessions\<close>

lemma save_model_call_id_keeps: "saved_model_call_id ctx = Some m \<Longrightarrow> saved_model_call_id (save_model_call_id mc ctx) = Some m"
  by (simp add: save_model_call_id_def)

lemma process_message_keeps:
  "saved_model_call_id ctx = Some m \<Longrightarrow> saved_model_call_id (snd (process_message C x ctx)) = Some m"
  by (auto simp: process_message_def handle_text_message_def handle_tool_call_def finish_tool_call_def
      save_model_call_id_keeps Let_def split: option.splits prod.splits response.splits)

lemma msg_loop_keeps:
  "saved_model_call_id (cd_context d) = Some m \<Longrightarrow> saved_model_call_id (cd_context (snd (msg_loop C clock conv raws acc d))) = Some m"
proof (induction raws arbitrary: acc d)
  case (Cons x raws)
  then show ?case using process_message_keeps [OF Cons.prems, of C x]
    by (auto simp: Let_def split: prod.splits sum.splits option.splits)
qed simp

lemma chat_decode_keeps:
  assumes "saved_model_call_id (cd_context d) = Some m"
  shows "saved_model_call_id (cd_context (snd (chat_decode C clock conv b d))) = Some m"
proof -
  have "saved_model_call_id (cd_context (snd (msg_loop C clock conv raws [] e))) = Some m" if "cd_context e = cd_context d" for raws e
    using msg_loop_keeps assms that by metis
  then show ?thesis
    using assms by (simp add: chat_decode_def Let_def case_prod_beta split: sum.split)
qed

lemma first_phase_keeps:
  "first_phase C clock conv cs d = Inr (d', cs') \<Longrightarrow> saved_model_call_id (cd_context d) = Some m \<Longrightarrow>
   saved_model_call_id (cd_context d') = Some m"
proof (induction cs arbitrary: d)
  case (Cons c cs)
  show ?case
  proof (cases "first_result_ready d")
    case False
    then obtain b where c: "c = Some b" using Cons.prems(1) by (auto split: option.splits)
    have "first_phase C clock conv cs (snd (chat_decode C clock conv b d)) = Inr (d', cs')"
      using Cons.prems(1) False c by (auto split: prod.splits sum.splits stream_error.splits)
    then show ?thesis using Cons.IH chat_decode_keeps [OF Cons.prems(2)] by blast
  qed (use Cons.prems in auto)
qed (auto split: if_splits)

lemma take_first_result_context [simp]: "cd_context (snd (take_first_result d)) = cd_context d"
  by (simp add: take_first_result_def)

lemma then_step_keeps:
  assumes "saved_model_call_id (cd_context d) = Some m" and "then_step proc err C clock conv oc d ctx = Some (out, d', ctx', x)"
  shows "saved_model_call_id (cd_context d') = Some m"
proof (cases oc)
  case (Some b)
  then show ?thesis using chat_decode_keeps [OF assms(1), of C clock conv b] assms(2)
    by (cases "chat_decode C clock conv b d") (auto simp: then_step_def case_prod_beta Let_def split: sum.splits stream_error.splits)
qed (use assms in \<open>simp add: then_step_def\<close>)

lemma then_phase_keeps:
  "saved_model_call_id (cd_context d) = Some m \<Longrightarrow> then_phase proc err C clock conv cs d ctx = (out, Some d') \<Longrightarrow>
   saved_model_call_id (cd_context d') = Some m"
proof (induction cs arbitrary: d ctx out)
  case (Cons c cs)
  show ?case
  proof (cases "then_step proc err C clock conv c d ctx")
    case (Some r)
    obtain o1 d1 ctx1 x where r: "r = (o1, d1, ctx1, x)" by (cases r)
    then show ?thesis using Cons.prems(2) Some then_step_keeps [OF Cons.prems(1), of proc err C clock conv c ctx] Cons.IH [of d1]
      by (cases x) (auto simp: case_prod_beta prod_eq_iff)
  qed (use Cons.prems in simp)
qed simp

text \<open>The model call id of a session is settled by the first request that brings one.  No later streamed request, of
  this session or of another one, changes it, whichever of the two handlers serves it and whatever the backend
  sends.\<close>

theorem session_model_call_id_stable:
  assumes "store s = Some m"
  shows "snd (session_request (stream_answer proc err fin C clock conv) sid cs store) s = Some m"
proof (cases "sid = Some s \<and> (\<exists>out d. stream_answer proc err fin C clock conv (existing_model_call_id sid store) cs = Inr (out, Some d))")
  case True
  then obtain out d where a: "stream_answer proc err fin C clock conv (existing_model_call_id sid store) cs = Inr (out, Some d)" by blast
  have mc: "existing_model_call_id sid store = Some m" using True assms by (simp add: existing_model_call_id_def)
  have start: "saved_model_call_id (cd_context (with_model_call_id (Some m))) = Some m" by (simp add: with_model_call_id_def)
  obtain d1 cs1 o1 where fp: "first_phase C clock conv cs (with_model_call_id (Some m)) = Inr (d1, cs1)"
    and tp: "then_phase proc err C clock conv cs1 d1 message_context_new = (o1, Some d)"
    using a unfolding mc stream_answer_def by (auto simp: case_prod_beta prod_eq_iff split: sum.splits)
  have "saved_model_call_id (cd_context d) = Some m"
    by (rule then_phase_keeps [OF first_phase_keeps [OF fp start] tp])
  then show ?thesis using True a by (simp add: session_request_def save_session_def)
next
  case False
  then show ?thesis using assms
    by (auto simp: session_request_def save_session_def split: sum.splits option.splits)
qed

theorem session_model_call_id_stable_witness:
  "snd (session_request (stream_answer process_messages (\<lambda>e ctx. ([ErrorEvent e], ctx)) finale tool_codecs (\<lambda>_. 0) False)
     (Some [0x73]) sample_wire [[0x73] \<mapsto> bytes_of ''mc'']) [0x73] = Some (bytes_of ''mc'')"
  by (rule session_model_call_id_stable) simp

end
