(* ===== verification/Chat_Tools.thy ===== *)
theory Chat_Tools
  imports Stream_Decoder
begin

text \<open>
  Tool names and tool results as the backend wants them, from \<open>src/core/adapter/utils/tool_name.rs\<close> and
  \<open>tool_result.rs\<close>.  The serialiser of JSON texts (quotes and escapes) is an argument.
\<close>

section \<open>Tool names\<close>

record tool_name_parts =
  tn_tool_name :: str
  tn_name :: str
  tn_server_name :: str

text \<open>\<open>str::get_unchecked\<close>: the ends of the slice must lie within the text and on character boundaries of it.  Every \<open>str\<close> is
  UTF-8; of other bytes nothing is asked.\<close>

definition slice_unchecked :: "str \<Rightarrow> usize \<Rightarrow> usize \<Rightarrow> str outcome" where
  "slice_unchecked s i j =
     (if i \<le> j \<and> j \<le> length s \<and> (valid_prefix s = length s \<longrightarrow> is_char_boundary s i \<and> is_char_boundary s j)
      then Done (take (j - i) (drop i s)) else UB)"

definition tool_name_parse :: "str \<Rightarrow> tool_name_parts outcome" where
  "tool_name_parse s =
     (let (server_len, full_name) =
        (case strip_prefix s (bytes_of ''mcp__'') of
           Some r \<Rightarrow>
             (case split_once_str (bytes_of ''__'') r of
                Some (server, tool) \<Rightarrow> (length server, bytes_of ''mcp_'' @ server @ bytes_of ''_'' @ tool)
              | None \<Rightarrow> (6, bytes_of ''mcp_custom_'' @ r))
         | None \<Rightarrow> (6, bytes_of ''mcp_custom_'' @ s));
          d = server_len + 4
      in bind_outcome (slice_unchecked full_name 4 d) (\<lambda>server.
         bind_outcome (slice_unchecked full_name (d + 1) (length full_name)) (\<lambda>nm.
           Done \<lparr> tn_tool_name = full_name, tn_name = nm, tn_server_name = server \<rparr>)))"

section \<open>Tool results\<close>

datatype raw_content = RawText str | RawImage str str

record tool_result_builder =
  tr_content :: "raw_content list"
  tr_is_error :: bool

definition builder_new :: "bool \<Rightarrow> tool_result_builder" where
  "builder_new is_error = \<lparr> tr_content = [], tr_is_error = is_error \<rparr>"

definition builder_add :: "raw_content \<Rightarrow> tool_result_builder \<Rightarrow> tool_result_builder" where
  "builder_add c b = b\<lparr> tr_content := tr_content b @ [c] \<rparr>"

fun content_estimate :: "raw_content \<Rightarrow> usize" where
  "content_estimate (RawText t) = 25 + length t"
| "content_estimate (RawImage d m) = 40 + length d + length m"

definition estimate_base :: "tool_result_builder \<Rightarrow> usize" where
  "estimate_base b =
     (let content_len = sum_list (map content_estimate (tr_content b)); n = length (tr_content b)
      in if tr_is_error b then 11 + 18 + content_len + (n - 1)
         else 11 + 53 + content_len * 2 + n * 32 + (n - 1) * 2)"

definition builder_estimate :: "tool_result_builder \<Rightarrow> usize" where
  "builder_estimate b = (let len = estimate_base b in len + len div 8)"

text \<open>The JSON of one part, tagged with its type; \<open>js\<close> writes a text with its quotes.\<close>

fun content_json :: "(str \<Rightarrow> str) \<Rightarrow> raw_content \<Rightarrow> str" where
  "content_json js (RawText t) = bytes_of ''{\"type\":\"text\",\"text\":'' @ js t @ bytes_of ''}''"
| "content_json js (RawImage d m) =
     bytes_of ''{\"type\":\"image\",\"data\":'' @ js d @ bytes_of '',\"mimeType\":'' @ js m @ bytes_of ''}''"

fun join_with :: "str \<Rightarrow> str list \<Rightarrow> str" where
  "join_with sep [] = []"
| "join_with sep [x] = x"
| "join_with sep (x # xs) = x @ sep @ join_with sep xs"

definition PAT :: str where
  "PAT = bytes_of '',\"annotations\":null,\"_meta\":null}''"

text \<open>The parts after the first, each with its comma; the range of a part leaves its closing brace out.\<close>

fun push_rest :: "(str \<Rightarrow> str) \<Rightarrow> raw_content list \<Rightarrow> str \<times> (usize \<times> usize) list \<Rightarrow> str \<times> (usize \<times> usize) list" where
  "push_rest js [] st = st"
| "push_rest js (c # cs) (json, indexes) =
     (let start = length json; json = json @ bytes_of '','' @ content_json js c
      in push_rest js cs (json, indexes @ [(start, length json - 1)]))"

definition push_parts :: "(str \<Rightarrow> str) \<Rightarrow> raw_content list \<Rightarrow> str \<times> (usize \<times> usize) list \<Rightarrow> str \<times> (usize \<times> usize) list" where
  "push_parts js cs st =
     (case cs of
        [] \<Rightarrow> st
      | c # cs' \<Rightarrow>
          (let (json, indexes) = st; start = length json; json = json @ content_json js c
           in push_rest js cs' (json, indexes @ [(start, length json - 1)])))"

fun extend_ranges :: "(usize \<times> usize) list \<Rightarrow> str \<Rightarrow> str outcome" where
  "extend_ranges [] json = Done json"
| "extend_ranges ((i, j) # rs) json =
     (if i \<le> j \<and> j \<le> length json then extend_ranges rs (json @ take (j - i) (drop i json) @ PAT) else Panic)"

definition builder_build :: "(str \<Rightarrow> str) \<Rightarrow> tool_result_builder \<Rightarrow> str outcome" where
  "builder_build js b =
     (let json = bytes_of ''{\"content\":''
      in if tr_is_error b
         then Done (json @ bytes_of ''['' @ join_with (bytes_of '','') (map (content_json js) (tr_content b)) @ bytes_of '']''
                    @ bytes_of '',\"isError\":true}'')
         else let (json, indexes) = push_parts js (tr_content b) (json @ bytes_of ''['', [])
              in bind_outcome (extend_ranges indexes (json @ bytes_of ''],\"structuredContent\":{\"result\":['')) (\<lambda>json.
                   Done (json @ bytes_of '']},\"isError\":false}'')))"

section \<open>Names\<close>

text \<open>The server and the tool that a name stands for.\<close>

definition tool_split :: "str \<Rightarrow> str \<times> str" where
  "tool_split s =
     (case strip_prefix s (bytes_of ''mcp__'') of
        Some r \<Rightarrow> (case split_once_str (bytes_of ''__'') r of Some p \<Rightarrow> p | None \<Rightarrow> (bytes_of ''custom'', r))
      | None \<Rightarrow> (bytes_of ''custom'', s))"

lemma slice_parts:
  assumes "a < 0x80" and "b < 0x80"
  shows "slice_unchecked (p @ a # x @ b # y) (Suc (length p)) (Suc (length p) + length x) = Done x"
    and "slice_unchecked (p @ a # x @ b # y) (Suc (length p) + length x + 1) (length (p @ a # x @ b # y)) = Done y"
proof -
  let ?s = "p @ a # x @ b # y"
  have "is_char_boundary ?s (Suc (length p)) \<and> is_char_boundary ?s (Suc (length p) + length x) \<and>
      is_char_boundary ?s (Suc (length p) + length x + 1)" if "valid_prefix ?s = length ?s"
    using that [unfolded valid_utf8_prefix] ascii_boundaries [of p a "x @ b # y"] ascii_boundaries [of "p @ a # x" b y] assms
    by simp
  moreover have "is_char_boundary ?s (length ?s)" by (simp add: is_char_boundary_def)
  ultimately show "slice_unchecked ?s (Suc (length p)) (Suc (length p) + length x) = Done x"
    and "slice_unchecked ?s (Suc (length p) + length x + 1) (length ?s) = Done y"
    by (auto simp: slice_unchecked_def)
qed

lemma underscore: "bytes_of ''_'' = [0x5F]"
  by (simp add: bytes_of_def)

lemma tool_name_parse_eq:
  "tool_name_parse s =
     (let (server, nm) = tool_split s
      in Done \<lparr> tn_tool_name = bytes_of ''mcp_'' @ server @ bytes_of ''_'' @ nm, tn_name = nm, tn_server_name = server \<rparr>)"
proof -
  have low: "(0x5F :: u8) < 0x80" by simp
  have cut: "slice_unchecked (bytes_of ''mcp_'' @ x @ bytes_of ''_'' @ y) 4 (length x + 4) = Done x"
    "slice_unchecked (bytes_of ''mcp_'' @ x @ bytes_of ''_'' @ y) (length x + 4 + 1)
       (length (bytes_of ''mcp_'' @ x @ bytes_of ''_'' @ y)) = Done y" for x y
    using slice_parts [OF low low, of "bytes_of ''mcp''" x y] by (simp_all add: bytes_of_def eval_nat_numeral)
  have custom: "bytes_of ''mcp_custom_'' @ r = bytes_of ''mcp_'' @ bytes_of ''custom'' @ bytes_of ''_'' @ r" for r
    by (simp add: bytes_of_def)
  have "slice_unchecked (bytes_of ''mcp_custom_'' @ r) 4 10 = Done (bytes_of ''custom'')"
    "slice_unchecked (bytes_of ''mcp_custom_'' @ r) 11 (length (bytes_of ''mcp_custom_'' @ r)) = Done r" for r
    using cut [of "bytes_of ''custom''" r] unfolding custom by simp_all
  then show ?thesis
    using cut custom by (auto simp: tool_name_parse_def tool_split_def Let_def split: option.splits simp del: length_append)
qed

text \<open>\<open>ToolName::parse\<close> cuts its text only where it is long enough, for every name a client may send, and yields the
  server and the tool with the name the backend uses for the pair.\<close>

theorem tool_name_parse_exact:
  "tool_name_parse s =
     (let (server, nm) = tool_split s
      in Done \<lparr> tn_tool_name = bytes_of ''mcp_'' @ server @ bytes_of ''_'' @ nm, tn_name = nm, tn_server_name = server \<rparr>)"
  by (rule tool_name_parse_eq)

lemma split_once_str_unique:
  assumes "\<not> str_contains (l @ butlast p) p" and "p \<noteq> []"
  shows "split_once_str p (l @ p @ r) = Some (l, r)"
  using assms(1)
proof (induction l)
  case Nil
  then show ?case using assms(2) starts_with_append [of p r] by (cases p) simp_all
next
  case (Cons b l)
  have "\<not> starts_with (b # l @ p @ r) p"
  proof
    assume "starts_with (b # l @ p @ r) p"
    then have "take (length p) (b # l @ p @ r) = p" by (simp add: starts_with_def)
    moreover have "take (length p) (b # l @ p @ r) = take (length p) (b # l @ butlast p)"
      using assms(2) by (cases p rule: rev_cases) (auto simp: take_Cons' min_def)
    ultimately have "starts_with (b # l @ butlast p) p" by (simp add: starts_with_def)
    with Cons.prems show False by simp
  qed
  then show ?case using Cons by simp
qed

text \<open>The name under which a tool is offered to the client, and back.\<close>

definition offered_name :: "str \<Rightarrow> str \<Rightarrow> str" where
  "offered_name server nm = tool_name_of (Some [\<lparr> server_name = server, tool_name = nm \<rparr>])"

text \<open>The name under which a tool of the backend is reported to the client is read back as the same server and tool,
  if a server has no two underscores in a row, nor one at its end, and a tool of the server \<open>custom\<close> does not
  itself look like the tool of a server.\<close>

theorem tool_name_roundtrip:
  assumes "if server = bytes_of ''custom'' then \<not> starts_with nm (bytes_of ''mcp__'')
    else \<not> str_contains (server @ bytes_of ''_'') (bytes_of ''__'')"
  shows "tool_split (offered_name server nm) = (server, nm)"
proof (cases "server = bytes_of ''custom''")
  case True
  then show ?thesis using assms by (simp add: offered_name_def tool_name_of_def tool_split_def strip_prefix_def)
next
  case False
  have "butlast (bytes_of ''__'') = bytes_of ''_''" by (simp add: bytes_of_def)
  then have "split_once_str (bytes_of ''__'') (server @ bytes_of ''__'' @ nm) = Some (server, nm)"
    using assms False by (intro split_once_str_unique) (simp_all add: bytes_of_def)
  then show ?thesis using False by (simp add: offered_name_def tool_name_of_def tool_split_def)
qed

theorem tool_name_roundtrip_witness:
  "tool_split (offered_name (bytes_of ''git'') (bytes_of ''log__all'')) = (bytes_of ''git'', bytes_of ''log__all'')"
  by (rule tool_name_roundtrip) code_simp

text \<open>A client's own tool whose name has the form \<open>mcp__server__tool\<close> is declared to the backend as a tool of the
  server \<open>custom\<close>, and is called by its name; its result is sent back as that of another server's tool.\<close>

theorem client_mcp_tool_misattributed:
  assumes "\<not> str_contains (server @ bytes_of ''_'') (bytes_of ''__'')" and "server \<noteq> bytes_of ''custom''"
  shows "offered_name (bytes_of ''custom'') (bytes_of ''mcp__'' @ server @ bytes_of ''__'' @ nm) =
      bytes_of ''mcp__'' @ server @ bytes_of ''__'' @ nm \<and>
    tool_split (bytes_of ''mcp__'' @ server @ bytes_of ''__'' @ nm) = (server, nm)"
proof -
  have "butlast (bytes_of ''__'') = bytes_of ''_''" by (simp add: bytes_of_def)
  then have "split_once_str (bytes_of ''__'') (server @ bytes_of ''__'' @ nm) = Some (server, nm)"
    using assms by (intro split_once_str_unique) (simp_all add: bytes_of_def)
  then show ?thesis by (simp add: offered_name_def tool_name_of_def tool_split_def)
qed

theorem client_mcp_tool_misattributed_witness:
  "tool_split (bytes_of ''mcp__'' @ bytes_of ''git'' @ bytes_of ''__'' @ bytes_of ''log'') = (bytes_of ''git'', bytes_of ''log'')"
proof -
  have "\<not> str_contains (bytes_of ''git'' @ bytes_of ''_'') (bytes_of ''__'')" "bytes_of ''git'' \<noteq> bytes_of ''custom''"
    by code_simp+
  then show ?thesis using client_mcp_tool_misattributed by blast
qed

section \<open>Results\<close>

text \<open>The parts as they stand in the buffer, with their commas, and their ranges.\<close>

definition segments :: "(str \<Rightarrow> str) \<Rightarrow> raw_content list \<Rightarrow> str list" where
  "segments js cs = (case cs of [] \<Rightarrow> [] | c # cs' \<Rightarrow> content_json js c # map (\<lambda>c. bytes_of '','' @ content_json js c) cs')"

fun part_ranges :: "usize \<Rightarrow> str list \<Rightarrow> (usize \<times> usize) list" where
  "part_ranges start [] = []"
| "part_ranges start (x # xs) = (start, start + length x - 1) # part_ranges (start + length x) xs"

lemma content_json_snoc: "\<exists>x. content_json js c = x @ bytes_of ''}''"
  by (cases c) auto

lemma push_rest_segments:
  "push_rest js cs (json, idx) =
     (let segs = map (\<lambda>c. bytes_of '','' @ content_json js c) cs
      in (json @ concat segs, idx @ part_ranges (length json) segs))"
  by (induction cs arbitrary: json idx) (simp_all add: Let_def)

lemma push_parts_segments:
  "push_parts js cs (json, idx) = (json @ concat (segments js cs), idx @ part_ranges (length json) (segments js cs))"
  by (cases cs) (simp_all add: push_parts_def segments_def push_rest_segments Let_def)

lemma extend_part_ranges:
  "list_all (\<lambda>x. x \<noteq> []) segs \<Longrightarrow>
   extend_ranges (part_ranges (length p) segs) (p @ concat segs @ t) =
     Done (p @ concat segs @ t @ concat (map (\<lambda>x. butlast x @ PAT) segs))"
proof (induction segs arbitrary: p t)
  case (Cons x xs)
  have "take (length x - 1) (x @ y) = butlast x" for y using Cons.prems by (simp add: butlast_conv_take)
  moreover have "length x \<ge> 1" using Cons.prems by (cases x) simp_all
  ultimately show ?case using Cons.IH [of "p @ x" "t @ butlast x @ PAT"] Cons.prems by (simp; arith)
qed simp

text \<open>A part with the two fields that the structured content adds.\<close>

fun annotated_json :: "(str \<Rightarrow> str) \<Rightarrow> raw_content \<Rightarrow> str" where
  "annotated_json js (RawText t) =
     bytes_of ''{\"type\":\"text\",\"text\":'' @ js t @ bytes_of '',\"annotations\":null,\"_meta\":null}''"
| "annotated_json js (RawImage d m) =
     bytes_of ''{\"type\":\"image\",\"data\":'' @ js d @ bytes_of '',\"mimeType\":'' @ js m
       @ bytes_of '',\"annotations\":null,\"_meta\":null}''"

lemma butlast_brace: "butlast (x @ bytes_of ''}'') = x"
  by (simp add: bytes_of_def butlast_append)

lemma annotated: "butlast (content_json js c) @ PAT = annotated_json js c"
proof (cases c)
  case (RawText t)
  then show ?thesis
    using butlast_brace [of "bytes_of ''{\"type\":\"text\",\"text\":'' @ js t"] by (simp add: PAT_def)
next
  case (RawImage d m)
  then show ?thesis
    using butlast_brace [of "bytes_of ''{\"type\":\"image\",\"data\":'' @ js d @ bytes_of '',\"mimeType\":'' @ js m"]
    by (simp add: PAT_def)
qed

lemma join_segments: "join_with sep (map f (c # cs)) = f c @ concat (map (\<lambda>c. sep @ f c) cs)"
  by (induction cs arbitrary: c) simp_all

lemma concat_segments: "concat (segments js cs) = join_with (bytes_of '','') (map (content_json js) cs)"
  using join_segments [of "bytes_of '',''" "content_json js"] by (cases cs) (simp_all add: segments_def)

lemma annotated_segments:
  "concat (map (\<lambda>x. butlast x @ PAT) (segments js cs)) = join_with (bytes_of '','') (map (annotated_json js) cs)"
proof (cases cs)
  case (Cons c cs')
  have "butlast (bytes_of '','' @ content_json js d) @ PAT = bytes_of '','' @ annotated_json js d" for d
    using content_json_snoc [of js d] annotated [of js d] by (auto simp: butlast_append bytes_of_def)
  then show ?thesis using Cons join_segments [of "bytes_of '',''" "annotated_json js" c cs']
    by (simp add: segments_def annotated comp_def)
qed (simp add: segments_def)

lemma builder_build_eq:
  "builder_build js b =
     Done (bytes_of ''{\"content\":['' @ join_with (bytes_of '','') (map (content_json js) (tr_content b)) @
       (if tr_is_error b then bytes_of ''],\"isError\":true}''
        else bytes_of ''],\"structuredContent\":{\"result\":['' @ join_with (bytes_of '','') (map (annotated_json js) (tr_content b))
          @ bytes_of '']},\"isError\":false}''))"
proof (cases "tr_is_error b")
  case True
  then show ?thesis by (simp add: builder_build_def bytes_of_def Let_def)
next
  case False
  let ?p = "bytes_of ''{\"content\":'' @ bytes_of ''[''"
  have "list_all (\<lambda>x. x \<noteq> []) (segments js (tr_content b))"
    using content_json_snoc by (auto simp: segments_def list_all_iff bytes_of_def split: list.splits) (metis append_is_Nil_conv list.distinct(1))
  from extend_part_ranges [OF this, of ?p] show ?thesis
    using False by (simp add: builder_build_def push_parts_segments concat_segments annotated_segments Let_def)
      (simp add: bytes_of_def)
qed

text \<open>The JSON of a tool result.  The copying of ranges inside the buffer never leaves it and gives the list of parts
  twice: as they are, and with the two extra fields as structured content; an error has the plain list only.\<close>

theorem tool_result_build_exact:
  "builder_build js b =
     Done (bytes_of ''{\"content\":['' @ join_with (bytes_of '','') (map (content_json js) (tr_content b)) @
       (if tr_is_error b then bytes_of ''],\"isError\":true}''
        else bytes_of ''],\"structuredContent\":{\"result\":['' @ join_with (bytes_of '','') (map (annotated_json js) (tr_content b))
          @ bytes_of '']},\"isError\":false}''))"
  by (rule builder_build_eq)

text \<open>The room reserved for the JSON of a tool result is exact but for the escapes, for which an eighth is added.\<close>

theorem tool_result_estimate_exact:
  assumes "\<And>t. length (js t) = length t + 2"
  shows "\<exists>json. builder_build js b = Done json \<and> length json = estimate_base b"
proof -
  have join: "length (join_with (bytes_of '','') (map f cs)) = sum_list (map (\<lambda>c. length (f c)) cs) + (length cs - 1)"
    for f :: "raw_content \<Rightarrow> str" and cs
    using join_segments [of "bytes_of '',''" f]
    by (cases cs) (simp_all add: length_concat comp_def sum_list_Suc)
  have c: "length (content_json js c) = content_estimate c" "length (annotated_json js c) = content_estimate c + 32" for c
    by (cases c; simp add: assms)+
  have "sum_list (map (\<lambda>c. content_estimate c + 32) cs) = sum_list (map content_estimate cs) + length cs * 32" for cs
    by (induction cs) simp_all
  then show ?thesis unfolding builder_build_eq
    by (simp add: estimate_base_def join c Let_def)
qed

theorem tool_result_estimate_exact_witness:
  "\<exists>json. builder_build (\<lambda>t. bytes_of ''|'' @ t @ bytes_of ''|'') (builder_add (RawText (bytes_of ''ok'')) (builder_new False)) = Done json \<and>
     length json = 150"
  using tool_result_estimate_exact [of "\<lambda>t. bytes_of ''|'' @ t @ bytes_of ''|''" "builder_add (RawText (bytes_of ''ok'')) (builder_new False)"]
  by (simp add: estimate_base_def builder_add_def builder_new_def)

end
