(* ===== verification/Web_Links.thy ===== *)
theory Web_Links
  imports Chat_Tools
begin

text \<open>
  Links in the texts of a conversation, from \<open>src/core/adapter.rs\<close>: web references that an earlier answer was prefixed
  with, and links a user marks with \<open>@\<close>.  The URL parser is an argument: it gives the scheme of a text that is a URL.
\<close>

section \<open>Lines\<close>

text \<open>\<open>str::lines\<close>: a line ends with a line feed, which a carriage return may precede; the end of the last line is optional.\<close>

definition strip_cr :: "str \<Rightarrow> str" where
  "strip_cr l = (if l \<noteq> [] \<and> last l = 0x0D then butlast l else l)"

definition text_lines :: "str \<Rightarrow> str list" where
  "text_lines s =
     (let ps = split_on 0x0A s
      in map strip_cr (butlast ps) @ (if last ps = [] then [] else [last ps]))"

section \<open>Web references\<close>

text \<open>From a title's first character on: the title, the URL and the chunk.\<close>

fun scan_ref :: "nat \<Rightarrow> str \<Rightarrow> web_reference \<Rightarrow> web_reference" where
  "scan_ref state [] r = r"
| "scan_ref state (c # s) r =
     (if state = 0 \<and> c = 0x5D then (case s of b # s' \<Rightarrow> if b = 0x28 then scan_ref 1 s' r else r | [] \<Rightarrow> r)
      else if state = 1 \<and> c = 0x29 then (case s of b # s' \<Rightarrow> if b = 0x3C then scan_ref 2 s' r else r | [] \<Rightarrow> r)
      else if state = 2 \<and> c = 0x3E then r
      else if state = 0 then scan_ref state s (r\<lparr> title := title r @ [c] \<rparr>)
      else if state = 1 then scan_ref state s (r\<lparr> url := url r @ [c] \<rparr>)
      else scan_ref state s (r\<lparr> chunk := chunk r @ [c] \<rparr>))"

definition parse_ref_line :: "str \<Rightarrow> web_reference option" where
  "parse_ref_line line =
     (case trim_start (drop 1 (dropWhile (\<lambda>c. c \<noteq> 0x2E) line)) of
        c # s \<Rightarrow> if c = 0x5B then Some (scan_ref 0 s \<lparr> title = [], url = [], chunk = [] \<rparr>) else None
      | [] \<Rightarrow> None)"

fun parse_ref_lines :: "str list \<Rightarrow> web_reference list" where
  "parse_ref_lines [] = []"
| "parse_ref_lines (l # ls) =
     (let line = trim l
      in if line = [] then []
         else case parse_ref_line line of Some r \<Rightarrow> r # parse_ref_lines ls | None \<Rightarrow> parse_ref_lines ls)"

definition parse_web_references :: "str \<Rightarrow> web_reference list" where
  "parse_web_references text = parse_ref_lines (drop 1 (text_lines text))"

definition extract_web_references_info :: "str \<Rightarrow> str \<times> web_reference list \<times> bool" where
  "extract_web_references_info text =
     (if starts_with text (bytes_of ''WebReferences:'')
      then case split_once_str [0x0A, 0x0A] text of
          Some (web_refs_text, content_text) \<Rightarrow>
            (let web_refs = parse_web_references web_refs_text in (content_text, web_refs, web_refs \<noteq> []))
        | None \<Rightarrow> (text, [], False)
      else (text, [], False))"

section \<open>External links\<close>

record external_link =
  link_url :: str
  link_uuid :: str
  pdf_content :: str
  is_pdf :: bool
  filename :: str

text \<open>\<open>BaseUuid\<close>: a counter that starts at a random number from 256 to 383.\<close>

type_synonym base_uuid = u16

definition add_and_to_string :: "base_uuid \<Rightarrow> str \<times> base_uuid" where
  "add_and_to_string u = (decimal (unat u), u + 1)"

fun take_word :: "str \<Rightarrow> str \<times> str" where
  "take_word [] = ([], [])"
| "take_word (c # s) = (if ws_len (c # s) \<noteq> 0 then ([], c # s) else let (w, r) = take_word s in (c # w, r))"

lemma take_word_length: "take_word s = (w, r) \<Longrightarrow> length w + length r = length s"
  by (induction s arbitrary: w) (auto split: if_splits prod.splits)

definition is_link :: "(str \<Rightarrow> str option) \<Rightarrow> str \<Rightarrow> bool" where
  "is_link scheme w \<longleftrightarrow> w \<noteq> [] \<and> (scheme w = Some (bytes_of ''http'') \<or> scheme w = Some (bytes_of ''https''))"

function extract_external_links :: "(str \<Rightarrow> str option) \<Rightarrow> str \<Rightarrow> external_link list \<Rightarrow> base_uuid \<Rightarrow>
    external_link list \<times> base_uuid" where
  "extract_external_links scheme [] links u = (links, u)"
| "extract_external_links scheme (c # s) links u =
     (if c = 0x40
      then let (w, r) = take_word s
           in if is_link scheme w
              then let (uuid, u') = add_and_to_string u
                   in extract_external_links scheme r
                        (links @ [\<lparr> link_url = w, link_uuid = uuid, pdf_content = [], is_pdf = False, filename = [] \<rparr>]) u'
              else extract_external_links scheme r links u
      else extract_external_links scheme s links u)"
  by pat_completeness auto
termination
  by (relation "measure (\<lambda>(_, s, _, _). length s)") (auto dest!: sym [THEN take_word_length])

section \<open>Round trip of web references\<close>

text \<open>A reference whose title and URL do not contain the characters that end them.\<close>

definition clean_ref :: "web_reference \<Rightarrow> bool" where
  "clean_ref r \<longleftrightarrow> 0x5D \<notin> set (title r) \<and> 0x0A \<notin> set (title r) \<and> 0x29 \<notin> set (url r) \<and> 0x0A \<notin> set (url r)"

definition ref_line :: "nat \<Rightarrow> web_reference \<Rightarrow> str" where
  "ref_line i r = decimal (i + 1) @ bytes_of ''. ['' @ title r @ bytes_of ''](''  @ url r @ bytes_of '')''"

lemma scan_title: "0x5D \<notin> set t \<Longrightarrow> scan_ref 0 (t @ 0x5D # 0x28 # s) r = scan_ref (Suc 0) s (r\<lparr> title := title r @ t \<rparr>)"
  by (induction t arbitrary: r) simp_all

lemma scan_url: "0x29 \<notin> set u \<Longrightarrow> scan_ref (Suc 0) (u @ [0x29]) r = r\<lparr> url := url r @ u \<rparr>"
  by (induction u arbitrary: r) simp_all

lemma decimal_no_dot: "dropWhile (\<lambda>c. c \<noteq> 0x2E) (decimal n @ 0x2E # s) = 0x2E # s"
proof -
  have "c \<in> set (decimal n) \<Longrightarrow> c \<noteq> 0x2E" for c
    using set_decimal [of n] by (auto simp: DIGITS_def bytes_of_def)
  then show ?thesis by (simp add: dropWhile_append3)
qed

lemma ref_line_shape: "ref_line i r = decimal (i + 1) @ 0x2E # 0x20 # 0x5B # title r @ 0x5D # 0x28 # url r @ [0x29]"
  by (simp add: ref_line_def bytes_of_def)

lemma parse_ref_line_clean: "clean_ref r \<Longrightarrow> parse_ref_line (ref_line i r) = Some (r\<lparr> chunk := [] \<rparr>)"
  by (cases r)
    (simp add: parse_ref_line_def ref_line_shape decimal_no_dot trim_start_space trim_start_plain ws_len_plain is_ascii_space_def
      scan_title scan_url clean_ref_def)

lemma ref_line_not_Nil [simp]: "ref_line i r \<noteq> []"
  by (simp add: ref_line_shape)

lemma ref_line_trim: "trim (ref_line i r) = ref_line i r"
proof -
  obtain b t where d: "decimal (i + 1) = b # t" by (cases "decimal (i + 1)") auto
  then have "b \<in> set DIGITS" using set_decimal [of "i + 1"] by auto
  then have "b < 0x80 \<and> \<not> is_ascii_space b" by (auto simp: DIGITS_def bytes_of_def is_ascii_space_def)
  then have "trim_start (ref_line i r) = ref_line i r"
    using d by (simp add: ref_line_shape trim_start_plain ws_len_plain)
  moreover have "trim_end (ref_line i r) = ref_line i r"
    using trim_end_plain [of "0x29" "decimal (i + 1) @ 0x2E # 0x20 # 0x5B # title r @ 0x5D # 0x28 # url r"]
    by (simp add: ref_line_shape is_ascii_space_def)
  ultimately show ?thesis by (simp add: trim_def)
qed

fun ref_lines :: "nat \<Rightarrow> web_reference list \<Rightarrow> str list" where
  "ref_lines i [] = []"
| "ref_lines i (r # rs) = ref_line i r # ref_lines (i + 1) rs"

lemma parse_ref_lines_clean: "list_all clean_ref rs \<Longrightarrow> parse_ref_lines (ref_lines i rs) = map (\<lambda>r. r\<lparr> chunk := [] \<rparr>) rs"
  by (induction rs arbitrary: i) (auto simp: ref_line_trim parse_ref_line_clean Let_def)

lemma web_ref_lines_eq: "web_ref_lines i rs = concat (map (\<lambda>l. l @ [0x0A]) (ref_lines i rs))"
  by (induction rs arbitrary: i) (simp_all add: ref_line_def)

lemma ref_lines_clean: "list_all clean_ref rs \<Longrightarrow> list_all (\<lambda>l. l \<noteq> [] \<and> 0x0A \<notin> set l \<and> last l \<noteq> 0x0D) (ref_lines i rs)"
proof (induction rs arbitrary: i)
  case (Cons r rs)
  have "0x0A \<notin> set (decimal (i + 1))" using set_decimal [of "i + 1"] by (auto simp: DIGITS_def bytes_of_def)
  then show ?case using Cons by (simp add: ref_line_shape clean_ref_def)
qed simp

lemma str_contains_skip: "b \<notin> set h \<Longrightarrow> str_contains (h @ s) (b # p) = str_contains s (b # p)"
  by (induction h) (auto simp: starts_with_def)

lemma no_blank_line:
  "list_all (\<lambda>l. l \<noteq> [] \<and> b \<notin> set l) ls \<Longrightarrow> b \<notin> set h \<Longrightarrow>
   \<not> str_contains (h @ concat (map (\<lambda>l. b # l) ls) @ [b]) [b, b]"
proof (induction ls arbitrary: h)
  case Nil
  then show ?case by (simp add: str_contains_skip starts_with_def)
next
  case (Cons l ls)
  then have "hd l \<noteq> b" "l \<noteq> []" by (auto dest: hd_in_set)
  then have "\<not> starts_with (b # l @ s) [b, b]" for s by (cases l) (auto simp: starts_with_def)
  then show ?case using Cons by (simp add: str_contains_skip)
qed

lemma split_on_lines:
  "list_all (\<lambda>l. b \<notin> set l) ls \<Longrightarrow> b \<notin> set h \<Longrightarrow> split_on b (h @ concat (map (\<lambda>l. b # l) ls)) = h # ls"
proof (induction ls arbitrary: h)
  case Nil
  then show ?case by (induction h) auto
next
  case (Cons l ls)
  then have "split_on b (l @ concat (map (\<lambda>l. b # l) ls)) = l # ls" by simp
  with Cons.prems(2) show ?case by (induction h) auto
qed

lemma text_lines_eq:
  assumes "list_all (\<lambda>l. l \<noteq> [] \<and> 0x0A \<notin> set l \<and> last l \<noteq> 0x0D) (h # ls)"
  shows "text_lines (h @ concat (map (\<lambda>l. 0x0A # l) ls)) = h # ls"
proof -
  have "split_on 0x0A (h @ concat (map (\<lambda>l. 0x0A # l) ls)) = h # ls"
    using assms by (intro split_on_lines) (auto simp: list_all_iff)
  moreover have "map strip_cr (butlast (h # ls)) = butlast (h # ls)"
  proof (rule map_idI)
    fix x assume "x \<in> set (butlast (h # ls))"
    then have "x \<in> set (h # ls)" by (rule in_set_butlastD)
    then show "strip_cr x = x" using assms by (auto simp: strip_cr_def list_all_iff)
  qed
  moreover have "last (h # ls) \<noteq> []" using assms by (auto simp: list_all_iff)
  ultimately show ?thesis by (simp add: text_lines_def Let_def del: butlast.simps last.simps)
qed

lemma lines_shift: "b # concat (map (\<lambda>l. l @ [b]) ls) = concat (map (\<lambda>l. b # l) ls) @ [b]"
  by (induction ls) auto

text \<open>The web references that an answer starts with are found again when the client sends the answer back in the next
  request: the rest of the text and every title and URL are recovered, unless they contain the brackets or line
  feeds that delimit them.  The chunks are not sent.\<close>

theorem web_references_roundtrip:
  assumes "refs \<noteq> []" and "list_all clean_ref refs" and "convert_web_ref_to_content (WebReference refs) = Content s"
  shows "extract_web_references_info (s @ text) = (text, map (\<lambda>r. r\<lparr> chunk := [] \<rparr>) refs, True)"
proof -
  let ?h = "bytes_of ''WebReferences:''" and ?ls = "ref_lines 0 refs"
  let ?t = "?h @ concat (map (\<lambda>l. 0x0A # l) ?ls)"
  have s: "s = ?t @ [0x0A, 0x0A]"
    using assms(1,3) lines_shift [of "0x0A" ?ls] by (auto simp: WEB_REFERENCES_def web_ref_lines_eq)
  have h: "?h \<noteq> []" "0x0A \<notin> set ?h" "last ?h \<noteq> 0x0D" by (simp_all add: bytes_of_def)
  have ls: "list_all (\<lambda>l. l \<noteq> [] \<and> 0x0A \<notin> set l \<and> last l \<noteq> 0x0D) (?h # ?ls)"
    using h ref_lines_clean [OF assms(2), of 0] by simp
  have "\<not> str_contains (?t @ butlast [0x0A, 0x0A]) [0x0A, 0x0A]"
    using no_blank_line [of "0x0A" ?ls ?h] ls h by (simp add: list_all_iff)
  then have "split_once_str [0x0A, 0x0A] (?t @ [0x0A, 0x0A] @ text) = Some (?t, text)"
    by (rule split_once_str_unique) simp
  moreover have "parse_web_references ?t = map (\<lambda>r. r\<lparr> chunk := [] \<rparr>) refs"
    using text_lines_eq [OF ls] parse_ref_lines_clean [OF assms(2)] by (simp add: parse_web_references_def)
  ultimately show ?thesis using assms(1) s by (simp add: extract_web_references_info_def)
qed

theorem web_references_roundtrip_witness:
  "extract_web_references_info (WEB_REFERENCES @ bytes_of ''1. [A](http://a)'' @ [0x0A, 0x0A] @ bytes_of ''Hi'') =
     (bytes_of ''Hi'', [\<lparr> title = bytes_of ''A'', url = bytes_of ''http://a'', chunk = [] \<rparr>], True)"
proof -
  let ?r = "\<lparr> title = bytes_of ''A'', url = bytes_of ''http://a'', chunk = [0x63] \<rparr>"
  have "[?r] \<noteq> []" "list_all clean_ref [?r]"
    "convert_web_ref_to_content (WebReference [?r]) = Content (WEB_REFERENCES @ bytes_of ''1. [A](http://a)'' @ [0x0A, 0x0A])"
    by code_simp+
  from web_references_roundtrip [OF this, of "bytes_of ''Hi''"] show ?thesis by simp
qed

section \<open>Links and their ids\<close>

text \<open>The links of a text, and links numbered from an id on.\<close>

function marked_words :: "(str \<Rightarrow> str option) \<Rightarrow> str \<Rightarrow> str list" where
  "marked_words scheme [] = []"
| "marked_words scheme (c # s) =
     (if c = 0x40
      then let (w, r) = take_word s in (if is_link scheme w then [w] else []) @ marked_words scheme r
      else marked_words scheme s)"
  by pat_completeness auto
termination
  by (relation "measure (\<lambda>(_, s). length s)") (auto dest!: sym [THEN take_word_length])

fun number_links :: "base_uuid \<Rightarrow> str list \<Rightarrow> external_link list" where
  "number_links u [] = []"
| "number_links u (w # ws) =
     \<lparr> link_url = w, link_uuid = decimal (unat u), pdf_content = [], is_pdf = False, filename = [] \<rparr> # number_links (u + 1) ws"

lemma extract_external_links_eq:
  "extract_external_links scheme s links u =
     (links @ number_links u (marked_words scheme s), u + of_nat (length (marked_words scheme s)))"
  by (induction scheme s links u rule: extract_external_links.induct)
    (auto simp: add_and_to_string_def algebra_simps split: prod.splits)

lemma number_links_uuids: "map link_uuid (number_links u ws) = map (\<lambda>k. decimal (unat (u + of_nat k))) [0..<length ws]"
  by (induction ws arbitrary: u) (simp_all add: map_upt_Suc algebra_simps del: upt_Suc)

end
