(* ===== verification/Instructions.thy ===== *)
theory Instructions
  imports Web_Links
begin

text \<open>
  The instructions of a conversation: the default text with the current time filled in
  (\<open>src/app/model/default_instructions.rs\<close>), the places of a request they are copied to
  (\<open>src/app/model/context_fill_mode.rs\<close>), and the copying iterator (\<open>crates/rep_move\<close>).
\<close>

section \<open>Filling in the time\<close>

definition DEFAULT :: str where
  "DEFAULT = bytes_of ''Respond in Chinese by default'' @ [0x0A] @ bytes_of ''<|END_USER|>'' @ [0x0A, 0x0A] @
     bytes_of ''<|BEGIN_ASSISTANT|>'' @ [0x0A, 0x0A, 0x0A] @ bytes_of ''Your will'' @ [0x0A] @ bytes_of ''<|END_ASSISTANT|>'' @
     [0x0A, 0x0A] @ bytes_of ''<|BEGIN_USER|>'' @ [0x0A, 0x0A, 0x0A] @ bytes_of ''The current date is {{currentDateTime}}''"

definition PLACEHOLDER :: str where
  "PLACEHOLDER = take 19 (drop (length DEFAULT - 19) DEFAULT)"

text \<open>The loop over \<open>match_indices\<close>; \<open>pat\<close> is not empty.\<close>

lemma split_once_str_length: "split_once_str p s = Some (l, r) \<Longrightarrow> length l + length p + length r = length s"
proof (induction s arbitrary: l)
  case (Cons b s)
  show ?case
  proof (cases "starts_with (b # s) p")
    case True
    then have "length p \<le> length (b # s)" by (metis starts_with_def length_take min.cobounded1)
    then show ?thesis using Cons.prems True by auto
  next
    case False
    then show ?thesis using Cons by auto
  qed
qed (auto split: if_splits)

lemma split_once_str_shrinks: "split_once_str p s = Some (l, r) \<Longrightarrow> p \<noteq> [] \<Longrightarrow> length r < length s"
  using split_once_str_length [of p s l r] by (cases p) auto

function replace_loop :: "str \<Rightarrow> str \<Rightarrow> str \<Rightarrow> str \<Rightarrow> usize list \<Rightarrow> str \<times> usize list" where
  "replace_loop pat to s string indexes =
     (case split_once_str pat s of
        Some (l, r) \<Rightarrow>
          (if pat = [] then (string @ s, indexes)
           else replace_loop pat to r (string @ l @ to) (indexes @ [length (string @ l)]))
      | None \<Rightarrow> (string @ s, indexes))"
  by pat_completeness auto
termination
  by (relation "measure (\<lambda>(_, _, s, _, _). length s)") (auto dest: split_once_str_shrinks)

declare replace_loop.simps [simp del]

definition replace_text :: "str \<Rightarrow> str \<Rightarrow> str \<Rightarrow> str \<times> usize list" where
  "replace_text src pat to = replace_loop pat to src [] []"

record default_instructions =
  template_z :: str
  indexes_z :: "usize list"
  template :: str
  indexes :: "usize list"

text \<open>\<open>z\<close> and \<open>full\<close> are the two printed forms of the start time.\<close>

definition instructions_init :: "str \<Rightarrow> str \<Rightarrow> str \<Rightarrow> default_instructions outcome" where
  "instructions_init s z full =
     (if length z \<noteq> 24 \<or> length full \<noteq> 29 then Panic
      else let (tz, iz) = replace_text s PLACEHOLDER z; (t, i) = replace_text s PLACEHOLDER full
           in Done \<lparr> template_z = tz, indexes_z = iz, template = t, indexes = i \<rparr>)"

fun copy_at :: "str \<Rightarrow> usize list \<Rightarrow> str \<Rightarrow> str outcome" where
  "copy_at now [] result = Done result"
| "copy_at now (i # ix) result =
     (if i + length now \<le> length result then copy_at now ix (take i result @ now @ drop (i + length now) result) else UB)"

definition instructions_get :: "str \<Rightarrow> default_instructions \<Rightarrow> str outcome" where
  "instructions_get now d =
     (if length now = 24 then copy_at now (indexes_z d) (template_z d)
      else if length now = 29 then copy_at now (indexes d) (template d)
      else UB)"

section \<open>Copies\<close>

datatype 't rep_state = RepActive 't usize | RepDone

definition rep_new :: "'t \<Rightarrow> usize \<Rightarrow> 't rep_state" where
  "rep_new source n = (if n = 0 then RepDone else RepActive source (n - 1))"

text \<open>\<open>replicate\<close> makes a copy and may set the number of copies that remain.\<close>

fun rep_next :: "('t \<Rightarrow> usize \<Rightarrow> 't \<times> usize) \<Rightarrow> 't rep_state \<Rightarrow> 't option \<times> 't rep_state" where
  "rep_next rep (RepActive source remaining) =
     (if remaining > 0 then let (item, remaining') = rep source remaining in (Some item, RepActive source remaining')
      else (Some source, RepDone))"
| "rep_next rep RepDone = (None, RepDone)"

fun rep_len :: "'t rep_state \<Rightarrow> usize" where
  "rep_len (RepActive source remaining) = remaining + 1"
| "rep_len RepDone = 0"

text \<open>The replicator that a cloning function gives.\<close>

definition rep_simple :: "('t \<Rightarrow> 't) \<Rightarrow> 't \<Rightarrow> usize \<Rightarrow> 't \<times> usize" where
  "rep_simple f source remaining = (f source, remaining - 1)"

section \<open>The context of a request\<close>

record context_fill_mode =
  fill_context :: bool
  fill_repo_context :: bool
  fill_mode_specific_context :: bool

definition fill_mode_from_bits :: "u8 \<Rightarrow> context_fill_mode" where
  "fill_mode_from_bits value =
     \<lparr> fill_context = (value AND 1 \<noteq> 0), fill_repo_context = (value AND 2 \<noteq> 0),
       fill_mode_specific_context = (value AND 4 \<noteq> 0) \<rparr>"

record explicit_context =
  ec_context :: str
  ec_repo_context :: "str option"
  ec_mode_specific_context :: "str option"

definition explicit_context_default :: explicit_context where
  "explicit_context_default = \<lparr> ec_context = [], ec_repo_context = None, ec_mode_specific_context = None \<rparr>"

definition create_explicit_context :: "context_fill_mode \<Rightarrow> str \<Rightarrow> explicit_context option outcome" where
  "create_explicit_context mode instructions =
     (if trim instructions = [] then Done None
      else let n = of_bool (fill_context mode) + of_bool (fill_repo_context mode) + of_bool (fill_mode_specific_context mode) :: usize
           in if n = 0 then Done None
              else if n = 1
                then let ctx = explicit_context_default
                     in Done (Some (if fill_context mode then ctx\<lparr> ec_context := instructions \<rparr>
                                    else if fill_repo_context mode then ctx\<lparr> ec_repo_context := Some instructions \<rparr>
                                    else ctx\<lparr> ec_mode_specific_context := Some instructions \<rparr>))
              else
                let it = rep_new instructions n; clone = rep_simple (\<lambda>s. s);
                    (c, it) = (if fill_context mode then rep_next clone it else (Some [], it));
                    (r, it) = (if fill_repo_context mode then rep_next clone it else (None, it));
                    (m, it) = (if fill_mode_specific_context mode then rep_next clone it else (None, it))
                in case c of
                     None \<Rightarrow> Panic
                   | Some c \<Rightarrow> Done (Some \<lparr> ec_context = c, ec_repo_context = r, ec_mode_specific_context = m \<rparr>))"

section \<open>Properties\<close>

text \<open>Every occurrence replaced, from the left.\<close>

function replace_all :: "str \<Rightarrow> str \<Rightarrow> str \<Rightarrow> str" where
  "replace_all pat to s =
     (case split_once_str pat s of
        Some (l, r) \<Rightarrow> (if pat = [] then s else l @ to @ replace_all pat to r)
      | None \<Rightarrow> s)"
  by pat_completeness auto
termination
  by (relation "measure (\<lambda>(_, _, s). length s)") (auto dest: split_once_str_shrinks)

declare replace_all.simps [simp del]

lemma replace_loop_extends: "\<exists>u ix. replace_loop pat to s string idx = (string @ u, idx @ ix)"
proof (induction pat to s string idx rule: replace_loop.induct)
  case (1 pat to s string idx)
  then show ?case by (subst replace_loop.simps) (fastforce split: option.splits)
qed

lemma copy_at_template:
  assumes "length to = length now" and "replace_loop pat to s string idx = (t, idx @ ix)" and "length pre = length string"
  shows "copy_at now ix (pre @ drop (length string) t) = Done (pre @ replace_all pat now s)"
  using assms
proof (induction pat to s string idx arbitrary: t ix pre rule: replace_loop.induct)
  case (1 pat to s string idx)
  show ?case
  proof (cases "\<exists>l r. split_once_str pat s = Some (l, r) \<and> pat \<noteq> []")
    case False
    then have "t = string @ s" "ix = []"
      using "1.prems"(2) by (auto simp: replace_loop.simps [of pat to s] split: option.splits)
    then show ?thesis using False by (auto simp: replace_all.simps [of pat now s] split: option.splits)
  next
    case True
    then obtain l r where sp: "split_once_str pat s = Some (l, r)" "pat \<noteq> []" by blast
    have step: "replace_loop pat to r (string @ l @ to) (idx @ [length (string @ l)]) = (t, idx @ ix)"
      using "1.prems"(2) sp by (subst (asm) replace_loop.simps) simp
    obtain u js where u: "t = (string @ l @ to) @ u" "ix = length (string @ l) # js"
      using step replace_loop_extends [of pat to r "string @ l @ to" "idx @ [length (string @ l)]"] by auto
    have "replace_loop pat to r (string @ l @ to) (idx @ [length (string @ l)]) = (t, (idx @ [length (string @ l)]) @ js)"
      using step u(2) by simp
    then have "copy_at now js ((pre @ l @ now) @ drop (length (string @ l @ to)) t) = Done ((pre @ l @ now) @ replace_all pat now r)"
      using "1.IH" [OF sp(1) refl sp(2), of t js "pre @ l @ now"] "1.prems"(1,3) by simp
    then show ?thesis using u sp "1.prems"(1,3) by (simp add: replace_all.simps [of pat now s])
  qed
qed

lemma replace_text_filled:
  assumes "replace_text s pat to = (t, ix)" and "length to = length now"
  shows "copy_at now ix t = Done (replace_all pat now s)"
  using copy_at_template [of to now pat s "[]" "[]" t ix "[]"] assms by (simp add: replace_text_def)

text \<open>The default instructions.  The positions that are found once, when the program starts, are inside the prepared
  text, and copying the current time to them gives the configured text with every placeholder replaced by the
  time, with or without an offset from UTC.\<close>

theorem instructions_get_exact:
  assumes "instructions_init s z full = Done d" and "length now = 24 \<or> length now = 29"
  shows "instructions_get now d = Done (replace_all PLACEHOLDER now s)"
proof -
  obtain tz iz t i where r: "replace_text s PLACEHOLDER z = (tz, iz)" "replace_text s PLACEHOLDER full = (t, i)" by fastforce
  have len: "length z = 24" "length full = 29"
    and d: "d = \<lparr> template_z = tz, indexes_z = iz, template = t, indexes = i \<rparr>"
    using assms(1) r by (auto simp: instructions_init_def split: if_splits)
  show ?thesis
    using assms(2) replace_text_filled [OF r(1), of now] replace_text_filled [OF r(2), of now] len
    by (auto simp: instructions_get_def d)
qed

theorem instructions_get_exact_witness:
  "\<exists>d. instructions_init DEFAULT (replicate 24 0x7A) (replicate 29 0x74) = Done d \<and>
     instructions_get (replicate 24 0x6E) d = Done (replace_all PLACEHOLDER (replicate 24 0x6E) DEFAULT)"
proof -
  have "\<exists>d. instructions_init DEFAULT (replicate 24 0x7A) (replicate 29 0x74) = Done d"
    by (simp add: instructions_init_def case_prod_beta Let_def)
  then obtain d where d: "instructions_init DEFAULT (replicate 24 0x7A) (replicate 29 0x74) = Done d" by blast
  then show ?thesis using instructions_get_exact [OF d, of "replicate 24 0x6E"] by simp
qed

text \<open>All items of the iterator, with fuel for the calls of \<open>next\<close>.\<close>

fun rep_collect :: "('t \<Rightarrow> usize \<Rightarrow> 't \<times> usize) \<Rightarrow> nat \<Rightarrow> 't rep_state \<Rightarrow> 't list option" where
  "rep_collect rep 0 st = (case rep_next rep st of (None, _) \<Rightarrow> Some [] | _ \<Rightarrow> None)"
| "rep_collect rep (Suc fuel) st =
     (case rep_next rep st of (None, _) \<Rightarrow> Some [] | (Some x, st') \<Rightarrow> map_option ((#) x) (rep_collect rep fuel st'))"

lemma rep_collect_active:
  "rep_collect (rep_simple f) (Suc n) (RepActive source n) = Some (replicate n (f source) @ [source])"
proof (induction n)
  case (Suc n)
  then show ?case by (simp add: rep_simple_def)
qed simp

text \<open>The copying iterator yields as many items as it was asked for, the last of them the original, and its length says so beforehand, for every cloning function.\<close>

theorem rep_move_exact:
  "rep_collect (rep_simple f) n (rep_new source n) = Some (if n = 0 then [] else replicate (n - 1) (f source) @ [source]) \<and>
   rep_len (rep_new source n) = n"
  using rep_collect_active [of f "n - 1" source] by (cases n) (simp_all add: rep_new_def)

text \<open>The context of a request.  Every place that is switched on receives the instructions, every other one is left
  empty, and the number of copies suffices; blank instructions or no place give no context.\<close>

theorem explicit_context_exact:
  "create_explicit_context mode instructions =
     Done (if trim instructions = [] \<or> \<not> (fill_context mode \<or> fill_repo_context mode \<or> fill_mode_specific_context mode) then None
           else Some \<lparr> ec_context = (if fill_context mode then instructions else []),
             ec_repo_context = (if fill_repo_context mode then Some instructions else None),
             ec_mode_specific_context = (if fill_mode_specific_context mode then Some instructions else None) \<rparr>)"
  by (cases "fill_context mode"; cases "fill_repo_context mode"; cases "fill_mode_specific_context mode")
    (simp_all add: create_explicit_context_def rep_new_def rep_simple_def explicit_context_default_def Let_def)

lemma PLACEHOLDER_eq: "PLACEHOLDER = bytes_of ''{{currentDateTime}}''"
  by code_simp

end
