(* ===== verification/Model_Names.thy ===== *)
theory Model_Names
  imports Text_Utils
begin

text \<open>
  Names of models that live as long as the program, from \<open>src/core/constant/leak_ids.rs\<close>.  A name is allocated together
  with the suffix \<open>-online\<close> behind it, so that both names share the memory.
\<close>

section \<open>The pool\<close>

definition SUFFIX :: str where
  "SUFFIX = bytes_of ''-online''"

definition strip_suffix :: "str \<Rightarrow> str \<Rightarrow> str option" where
  "strip_suffix s p = map_option rev (strip_prefix (rev s) (rev p))"

text \<open>\<open>Id\<close>: the bytes from the pointer to the end of the allocation, and a length.\<close>

record leaked_id =
  id_memory :: bytes
  id_len :: nat

text \<open>A slice beyond the end of the allocation is undefined behaviour.\<close>

definition slice_memory :: "bytes \<Rightarrow> nat \<Rightarrow> str outcome" where
  "slice_memory mem n = (if n \<le> length mem then Done (take n mem) else UB)"

definition id_suffix :: "leaked_id \<Rightarrow> str outcome" where
  "id_suffix i = slice_memory (id_memory i) (id_len i + length SUFFIX)"

definition non_suffix :: "leaked_id \<Rightarrow> str outcome" where
  "non_suffix i = slice_memory (id_memory i) (id_len i)"

definition alloc_ids :: "str \<Rightarrow> leaked_id" where
  "alloc_ids s = \<lparr> id_memory = s @ SUFFIX, id_len = length s \<rparr>"

text \<open>An entry of the pool with the key it was inserted for.  A hash table finds an entry if it is in the bucket that the
  key belongs to and has the key; \<open>same_bucket\<close> stands for the hash function.\<close>

type_synonym id_pool = "(str \<times> leaked_id) list"

definition stored_key :: "leaked_id \<Rightarrow> str" where
  "stored_key i = take (id_len i) (id_memory i)"

definition pool_find :: "(str \<Rightarrow> str \<Rightarrow> bool) \<Rightarrow> id_pool \<Rightarrow> str \<Rightarrow> leaked_id option" where
  "pool_find same_bucket pool key = map_option snd (find (\<lambda>(b, i). same_bucket b key \<and> stored_key i = key) pool)"

definition pool_init :: id_pool where
  "pool_init = []"

definition pool_intern :: "(str \<Rightarrow> str \<Rightarrow> bool) \<Rightarrow> str \<Rightarrow> id_pool \<Rightarrow> (leaked_id \<times> bool) \<times> id_pool" where
  "pool_intern same_bucket s pool =
     (let (key, is_suffix) = (case strip_suffix s SUFFIX of Some b \<Rightarrow> (b, True) | None \<Rightarrow> (s, False))
      in case pool_find same_bucket pool key of
           Some i \<Rightarrow> ((i, is_suffix), pool)
         | None \<Rightarrow> (let leaked = alloc_ids s in ((leaked, is_suffix), (key, leaked) # pool)))"

definition leak_add :: "(str \<Rightarrow> str \<Rightarrow> bool) \<Rightarrow> str \<Rightarrow> id_pool \<Rightarrow> (str \<times> str) outcome \<times> id_pool" where
  "leak_add same_bucket s pool =
     (let ((i, _), pool') = pool_intern same_bucket s pool
      in (bind_outcome (id_suffix i) (\<lambda>a. bind_outcome (non_suffix i) (\<lambda>b. Done (a, b))), pool'))"

definition leak_intern :: "(str \<Rightarrow> str \<Rightarrow> bool) \<Rightarrow> str \<Rightarrow> id_pool \<Rightarrow> str outcome \<times> id_pool" where
  "leak_intern same_bucket s pool =
     (let ((i, is_suffix), pool') = pool_intern same_bucket s pool
      in (if is_suffix then id_suffix i else non_suffix i, pool'))"

section \<open>Safety\<close>

lemma strip_suffix_append [simp]: "strip_suffix (s @ p) p = Some s"
  by (simp add: strip_suffix_def)

lemma strip_suffix_Some_iff: "strip_suffix s p = Some r \<longleftrightarrow> s = r @ p"
proof
  assume "strip_suffix s p = Some r"
  then have "rev s = rev p @ rev r" by (auto simp: strip_suffix_def strip_prefix_Some_iff)
  then have "rev (rev s) = rev (rev p @ rev r)" by simp
  then show "s = r @ p" by simp
qed simp

definition id_ok :: "leaked_id \<Rightarrow> bool" where
  "id_ok i \<longleftrightarrow> i = alloc_ids (stored_key i)"

definition pool_ok :: "id_pool \<Rightarrow> bool" where
  "pool_ok pool \<longleftrightarrow> list_all (\<lambda>(_, i). id_ok i) pool"

lemma stored_key_alloc [simp]: "stored_key (alloc_ids s) = s"
  by (simp add: alloc_ids_def stored_key_def)

lemma alloc_ids_ok [simp]: "id_ok (alloc_ids s)"
  by (simp add: id_ok_def)

lemma id_ok_slices: "id_ok i \<Longrightarrow> id_suffix i = Done (stored_key i @ SUFFIX) \<and> non_suffix i = Done (stored_key i)"
  unfolding id_ok_def by (erule ssubst) (simp add: id_suffix_def non_suffix_def slice_memory_def alloc_ids_def)

lemma pool_find_Some: "pool_find sb pool key = Some i \<Longrightarrow> pool_ok pool \<Longrightarrow> id_ok i \<and> stored_key i = key"
  by (fastforce simp: pool_find_def pool_ok_def list_all_length find_Some_iff)

lemma pool_init_ok: "pool_ok pool_init"
  by (simp add: pool_ok_def pool_init_def)

lemma pool_intern_ok:
  assumes "pool_ok pool" and "pool_intern sb s pool = ((i, is_suffix), pool')"
  shows "id_ok i \<and> pool_ok pool'"
  using assms by (auto simp: pool_intern_def Let_def pool_ok_def split: option.splits dest: pool_find_Some [unfolded pool_ok_def])

text \<open>The names that a pool gives out.\<close>

definition interned_name :: "(str \<Rightarrow> str \<Rightarrow> bool) \<Rightarrow> id_pool \<Rightarrow> str \<Rightarrow> str" where
  "interned_name sb pool s =
     (case strip_suffix s SUFFIX of
        Some b \<Rightarrow> (if pool_find sb pool b = None then s @ SUFFIX else s)
      | None \<Rightarrow> s)"

lemma leak_intern_eq:
  assumes "pool_ok pool"
  shows "\<exists>pool'. leak_intern sb s pool = (Done (interned_name sb pool s), pool') \<and> pool_ok pool'"
proof -
  obtain i is_suffix pool' where p: "pool_intern sb s pool = ((i, is_suffix), pool')" by (metis prod.exhaust)
  have ok: "id_ok i" "pool_ok pool'" using pool_intern_ok [OF assms p] by simp_all
  have "(if is_suffix then stored_key i @ SUFFIX else stored_key i) = interned_name sb pool s"
  proof (cases "strip_suffix s SUFFIX")
    case None
    then show ?thesis using p pool_find_Some [OF _ assms] by (auto simp: pool_intern_def interned_name_def Let_def split: option.splits)
  next
    case (Some b)
    then have "s = b @ SUFFIX" by (simp add: strip_suffix_Some_iff)
    then show ?thesis using Some p pool_find_Some [OF _ assms]
      by (auto simp: pool_intern_def interned_name_def Let_def split: option.splits)
  qed
  then show ?thesis using p ok id_ok_slices [OF ok(1)] by (auto simp: leak_intern_def)
qed

text \<open>Interning reads only memory of its own allocations, in every pool that the operations can produce, and returns the
  name it was given, except for a name that ends in \<open>-online\<close> whose base is not in the pool: then the suffix is
  doubled.\<close>

theorem leak_intern_exact:
  assumes "pool_ok pool"
  shows "\<exists>pool'. leak_intern sb s pool = (Done (if \<exists>b. s = b @ SUFFIX \<and> pool_find sb pool b = None then s @ SUFFIX else s), pool') \<and>
    pool_ok pool'"
proof -
  have "interned_name sb pool s = (if \<exists>b. s = b @ SUFFIX \<and> pool_find sb pool b = None then s @ SUFFIX else s)"
    unfolding interned_name_def by (cases "strip_suffix s SUFFIX") (auto simp: strip_suffix_Some_iff)
  then show ?thesis using leak_intern_eq [OF assms, of sb s] by simp
qed

theorem leak_intern_exact_witness:
  "pool_ok pool_init \<and>
   (\<exists>pool'. leak_intern (=) (bytes_of ''m-online'') pool_init = (Done (if \<exists>b. bytes_of ''m-online'' = b @ SUFFIX \<and>
      pool_find (=) pool_init b = None then bytes_of ''m-online'' @ SUFFIX else bytes_of ''m-online''), pool') \<and> pool_ok pool')"
  using leak_intern_exact [OF pool_init_ok] pool_init_ok by blast

lemma leak_add_eq:
  assumes "pool_ok pool" and "strip_suffix s SUFFIX = None"
  shows "\<exists>pool'. leak_add sb s pool = (Done (s @ SUFFIX, s), pool') \<and> pool_ok pool'"
proof -
  obtain i is_suffix pool' where p: "pool_intern sb s pool = ((i, is_suffix), pool')" by (metis prod.exhaust)
  have ok: "id_ok i" "pool_ok pool'" using pool_intern_ok [OF assms(1) p] by simp_all
  have "stored_key i = s"
    using p assms(2) pool_find_Some [OF _ assms(1)] by (auto simp: pool_intern_def Let_def split: option.splits)
  then show ?thesis using p ok id_ok_slices [OF ok(1)] by (auto simp: leak_add_def)
qed

lemma leak_add_ok:
  assumes "pool_ok pool"
  shows "\<exists>b pool'. leak_add sb s pool = (Done (b @ SUFFIX, b), pool') \<and> pool_ok pool'"
proof -
  obtain i is_suffix pool' where p: "pool_intern sb s pool = ((i, is_suffix), pool')" by (metis prod.exhaust)
  have ok: "id_ok i" "pool_ok pool'" using pool_intern_ok [OF assms p] by simp_all
  then show ?thesis using p id_ok_slices [OF ok(1)] by (auto simp: leak_add_def)
qed

end
