(* ===== verification/Models.thy ===== *)
theory Models
  imports Model_Names Hash_Hex
begin

text \<open>
  The models: their table, the list of names that clients see, updates from the backend and the lookup of a requested
  name, from \<open>src/core/constant.rs\<close>, \<open>src/core/model/resolver.rs\<close>, \<open>src/app/model/id_source.rs\<close>,
  \<open>src/app/model/fetch_model.rs\<close> and \<open>src/app/model/usage_check.rs\<close>.  Caches of serialised values and the time of the last
  update are left out.
\<close>

section \<open>The table\<close>

definition model_consts :: "string list" where
  "model_consts =
    [''default'', ''claude-4.5-opus-high'', ''claude-4.5-opus-high-thinking'', ''claude-4.5-sonnet'',
     ''claude-4.5-sonnet-thinking'', ''claude-4.5-haiku'', ''claude-4.5-haiku-thinking'', ''claude-4-sonnet'',
     ''claude-4-sonnet-thinking'', ''claude-4-sonnet-1m'', ''claude-4-sonnet-1m-thinking'', ''claude-4-opus'',
     ''claude-4.1-opus'', ''claude-4-opus-thinking'', ''claude-4.1-opus-thinking'', ''claude-4-opus-legacy'',
     ''claude-4-opus-thinking-legacy'', ''composer-1'', ''cursor-small'', ''gemini-3-pro'', ''gemini-3-pro-preview'',
     ''gemini-2.5-pro-preview-05-06'', ''gemini-2.5-pro'', ''gemini-2.5-flash-preview-05-20'', ''gemini-2.5-flash'',
     ''gpt-5.1-codex-max'', ''gpt-5.1-codex-max-high'', ''gpt-5.1-codex-max-low'', ''gpt-5.1-codex-max-xhigh'',
     ''gpt-5.1-codex-max-medium-fast'', ''gpt-5.1-codex-max-high-fast'', ''gpt-5.1-codex-max-low-fast'',
     ''gpt-5.1-codex-max-xhigh-fast'', ''gpt-5.1-codex'', ''gpt-5.1-codex-high'', ''gpt-5.1-codex-fast'',
     ''gpt-5.1-codex-high-fast'', ''gpt-5.1-codex-low'', ''gpt-5.1-codex-low-fast'', ''gpt-5.1'', ''gpt-5.1-fast'',
     ''gpt-5.1-high'', ''gpt-5.1-high-fast'', ''gpt-5.1-low'', ''gpt-5.1-low-fast'', ''gpt-5.1-codex-mini'',
     ''gpt-5.1-codex-mini-high'', ''gpt-5.1-codex-mini-low'', ''o3'', ''gpt-4.1'', ''gpt-5-mini'', ''gpt-5-nano'',
     ''o3-pro'', ''gpt-5-pro'', ''deepseek-r1-0528'', ''deepseek-v3.1'', ''grok-3-mini'', ''grok-code-fast-1'',
     ''grok-4'', ''grok-4-0709'', ''grok-4-fast-reasoning'', ''grok-4-fast-non-reasoning'', ''kimi-k2-instruct'',
     ''accounts/fireworks/models/kimi-k2-instruct'', ''cursor-fast'', ''deepseek-v3'', ''gpt-4o-mini'']"

definition FREE_MODELS :: "string list" where
  "FREE_MODELS =
    [''gpt-4o-mini'', ''cursor-fast'', ''cursor-small'', ''deepseek-v3'', ''deepseek-v3.1'', ''grok-3-mini'']"

definition SUPPORTED_THINKING_MODELS :: "string list" where
  "SUPPORTED_THINKING_MODELS =
    [''claude-4.5-opus-high-thinking'', ''claude-4.5-sonnet-thinking'', ''gpt-5.1-codex-max'',
     ''gpt-5.1-codex-max-high'', ''gpt-5.1-codex-max-low'', ''gpt-5.1-codex-max-xhigh'',
     ''gpt-5.1-codex-max-medium-fast'', ''gpt-5.1-codex-max-high-fast'', ''gpt-5.1-codex-max-low-fast'',
     ''gpt-5.1-codex-max-xhigh-fast'', ''gpt-5.1-codex'', ''gpt-5.1-codex-high'', ''gpt-5.1-codex-fast'',
     ''gpt-5.1-codex-high-fast'', ''gpt-5.1-codex-low'', ''gpt-5.1-codex-low-fast'', ''gpt-5.1'', ''gpt-5.1-fast'',
     ''gpt-5.1-high'', ''gpt-5.1-high-fast'', ''gpt-5.1-low'', ''gpt-5.1-low-fast'', ''gemini-3-pro'',
     ''gpt-5.1-codex-mini'', ''gpt-5.1-codex-mini-high'', ''gpt-5.1-codex-mini-low'', ''claude-4.5-haiku-thinking'',
     ''grok-code-fast-1'', ''claude-4-opus-thinking'', ''claude-4-opus-thinking-legacy'',
     ''claude-4-sonnet-thinking'', ''claude-4-sonnet-1m-thinking'', ''o3'', ''gpt-5-mini'', ''gpt-5-nano'',
     ''o3-pro'', ''gpt-5-pro'', ''gemini-2.5-pro-preview-05-06'', ''gemini-2.5-flash-preview-05-20'',
     ''deepseek-r1-0528'', ''grok-4'', ''grok-4-fast-reasoning'']"

definition SUPPORTED_IMAGE_MODELS :: "string list" where
  "SUPPORTED_IMAGE_MODELS =
    [''default'', ''composer-1'', ''claude-4.5-opus-high'', ''claude-4.5-opus-high-thinking'', ''claude-4.5-sonnet'',
     ''claude-4.5-sonnet-thinking'', ''gpt-5.1-codex-max'', ''gpt-5.1-codex-max-high'', ''gpt-5.1-codex-max-low'',
     ''gpt-5.1-codex-max-xhigh'', ''gpt-5.1-codex-max-medium-fast'', ''gpt-5.1-codex-max-high-fast'',
     ''gpt-5.1-codex-max-low-fast'', ''gpt-5.1-codex-max-xhigh-fast'', ''gpt-5.1-codex'', ''gpt-5.1-codex-high'',
     ''gpt-5.1-codex-fast'', ''gpt-5.1-codex-high-fast'', ''gpt-5.1-codex-low'', ''gpt-5.1-codex-low-fast'',
     ''gpt-5.1'', ''gpt-5.1-fast'', ''gpt-5.1-high'', ''gpt-5.1-high-fast'', ''gpt-5.1-low'', ''gpt-5.1-low-fast'',
     ''gemini-3-pro'', ''gpt-5.1-codex-mini'', ''gpt-5.1-codex-mini-high'', ''gpt-5.1-codex-mini-low'',
     ''claude-4.5-haiku'', ''claude-4.5-haiku-thinking'', ''claude-4-opus'', ''claude-4-opus-thinking'',
     ''claude-4-opus-legacy'', ''claude-4-opus-thinking-legacy'', ''claude-4-sonnet'', ''claude-4-sonnet-thinking'',
     ''claude-4-sonnet-1m'', ''claude-4-sonnet-1m-thinking'', ''o3'', ''gpt-4.1'', ''gpt-5-mini'', ''gpt-5-nano'',
     ''o3-pro'', ''gpt-5-pro'', ''gemini-2.5-pro-preview-05-06'', ''gemini-2.5-flash-preview-05-20'', ''grok-4'',
     ''grok-4-fast-reasoning'', ''grok-4-fast-non-reasoning'']"

definition SUPPORTED_MAX_MODELS :: "string list" where
  "SUPPORTED_MAX_MODELS =
    [''default'', ''composer-1'', ''claude-4.5-opus-high'', ''claude-4.5-opus-high-thinking'', ''claude-4.5-sonnet'',
     ''claude-4.5-sonnet-thinking'', ''gpt-5.1-codex-max'', ''gpt-5.1-codex-max-high'', ''gpt-5.1-codex-max-low'',
     ''gpt-5.1-codex-max-xhigh'', ''gpt-5.1-codex-max-medium-fast'', ''gpt-5.1-codex-max-high-fast'',
     ''gpt-5.1-codex-max-low-fast'', ''gpt-5.1-codex-max-xhigh-fast'', ''gpt-5.1-codex'', ''gpt-5.1-codex-high'',
     ''gpt-5.1-codex-fast'', ''gpt-5.1-codex-high-fast'', ''gpt-5.1-codex-low'', ''gpt-5.1-codex-low-fast'',
     ''gpt-5.1'', ''gpt-5.1-fast'', ''gpt-5.1-high'', ''gpt-5.1-high-fast'', ''gpt-5.1-low'', ''gpt-5.1-low-fast'',
     ''gemini-3-pro'', ''gpt-5.1-codex-mini'', ''gpt-5.1-codex-mini-high'', ''gpt-5.1-codex-mini-low'',
     ''claude-4.5-haiku'', ''claude-4.5-haiku-thinking'', ''grok-code-fast-1'', ''claude-4-sonnet'',
     ''claude-4-sonnet-thinking'', ''o3'', ''gpt-4.1'', ''gpt-5-mini'', ''gpt-5-nano'',
     ''gemini-2.5-pro-preview-05-06'', ''gemini-2.5-flash-preview-05-20'', ''deepseek-r1-0528'', ''deepseek-v3.1'',
     ''grok-4'', ''grok-4-fast-reasoning'', ''grok-4-fast-non-reasoning'', ''kimi-k2-instruct'']"

definition MAX_MODELS :: "string list" where
  "MAX_MODELS =
    [''claude-4-opus'', ''claude-4-opus-thinking'', ''claude-4-opus-legacy'', ''claude-4-opus-thinking-legacy'',
     ''claude-4-sonnet-1m'', ''claude-4-sonnet-1m-thinking'', ''o3-pro'', ''gpt-5-pro'']"

text \<open>Owner, id, client id and server id.\<close>

definition model_table :: "(string \<times> string \<times> string \<times> string) list" where
  "model_table =
    [(''cursor'', ''default'', ''Auto'', ''default''),
     (''cursor'', ''composer-1'', ''Composer 1'', ''composer-1''),
     (''cursor'', ''cursor-small'', ''Cursor Small'', ''cursor-small''),
     (''cursor'', ''cursor-fast'', ''Cursor Fast'', ''cursor-fast''),
     (''anthropic'', ''claude-4.5-opus-high'', ''Opus 4.5'', ''claude-4.5-opus-high''),
     (''anthropic'', ''claude-4.5-opus-high-thinking'', ''Opus 4.5'', ''claude-4.5-opus-high-thinking''),
     (''anthropic'', ''claude-4.5-sonnet'', ''Sonnet 4.5'', ''claude-4.5-sonnet''),
     (''anthropic'', ''claude-4.5-sonnet-thinking'', ''Sonnet 4.5'', ''claude-4.5-sonnet-thinking''),
     (''anthropic'', ''claude-4.5-haiku'', ''Haiku 4.5'', ''claude-4.5-haiku''),
     (''anthropic'', ''claude-4.5-haiku-thinking'', ''Haiku 4.5'', ''claude-4.5-haiku-thinking''),
     (''anthropic'', ''claude-4-opus'', ''Opus 4.1'', ''claude-4.1-opus''),
     (''anthropic'', ''claude-4-opus-thinking'', ''Opus 4.1'', ''claude-4.1-opus-thinking''),
     (''anthropic'', ''claude-4-opus-legacy'', ''Opus 4'', ''claude-4-opus''),
     (''anthropic'', ''claude-4-opus-thinking-legacy'', ''Opus 4'', ''claude-4-opus-thinking''),
     (''anthropic'', ''claude-4-sonnet'', ''Sonnet 4'', ''claude-4-sonnet''),
     (''anthropic'', ''claude-4-sonnet-thinking'', ''Sonnet 4'', ''claude-4-sonnet-thinking''),
     (''anthropic'', ''claude-4-sonnet-1m'', ''Sonnet 4 1M'', ''claude-4-sonnet-1m''),
     (''anthropic'', ''claude-4-sonnet-1m-thinking'', ''Sonnet 4 1M'', ''claude-4-sonnet-1m-thinking''),
     (''google'', ''gemini-3-pro'', ''Gemini 3 Pro'', ''gemini-3-pro-preview''),
     (''google'', ''gemini-2.5-pro-preview-05-06'', ''Gemini 2.5 Pro'', ''gemini-2.5-pro''),
     (''google'', ''gemini-2.5-flash-preview-05-20'', ''Gemini 2.5 Flash'', ''gemini-2.5-flash''),
     (''openai'', ''gpt-5.1-codex-max'', ''GPT-5.1 Codex Max'', ''gpt-5.1-codex-max''),
     (''openai'', ''gpt-5.1-codex-max-high'', ''GPT-5.1 Codex Max High'', ''gpt-5.1-codex-max-high''),
     (''openai'', ''gpt-5.1-codex-max-low'', ''GPT-5.1 Codex Max Low'', ''gpt-5.1-codex-max-low''),
     (''openai'', ''gpt-5.1-codex-max-xhigh'', ''GPT-5.1 Codex Max Extra High'', ''gpt-5.1-codex-max-xhigh''),
     (''openai'', ''gpt-5.1-codex-max-medium-fast'', ''GPT-5.1 Codex Max Medium Fast'', ''gpt-5.1-codex-max-medium-fast''),
     (''openai'', ''gpt-5.1-codex-max-high-fast'', ''GPT-5.1 Codex Max High Fast'', ''gpt-5.1-codex-max-high-fast''),
     (''openai'', ''gpt-5.1-codex-max-low-fast'', ''GPT-5.1 Codex Max Low Fast'', ''gpt-5.1-codex-max-low-fast''),
     (''openai'', ''gpt-5.1-codex-max-xhigh-fast'', ''GPT-5.1 Codex Max Extra High Fast'', ''gpt-5.1-codex-max-xhigh-fast''),
     (''openai'', ''gpt-5.1-codex'', ''GPT-5.1 Codex'', ''gpt-5.1-codex''),
     (''openai'', ''gpt-5.1-codex-high'', ''GPT-5.1 Codex High'', ''gpt-5.1-codex-high''),
     (''openai'', ''gpt-5.1-codex-fast'', ''GPT-5.1 Codex Fast'', ''gpt-5.1-codex-fast''),
     (''openai'', ''gpt-5.1-codex-high-fast'', ''GPT-5.1 Codex High Fast'', ''gpt-5.1-codex-high-fast''),
     (''openai'', ''gpt-5.1-codex-low'', ''GPT-5.1 Codex Low'', ''gpt-5.1-codex-low''),
     (''openai'', ''gpt-5.1-codex-low-fast'', ''GPT-5.1 Codex Low Fast'', ''gpt-5.1-codex-low-fast''),
     (''openai'', ''gpt-5.1'', ''GPT-5.1'', ''gpt-5.1''),
     (''openai'', ''gpt-5.1-fast'', ''GPT-5.1 Fast'', ''gpt-5.1-fast''),
     (''openai'', ''gpt-5.1-high'', ''GPT-5.1 High'', ''gpt-5.1-high''),
     (''openai'', ''gpt-5.1-high-fast'', ''GPT-5.1 High Fast'', ''gpt-5.1-high-fast''),
     (''openai'', ''gpt-5.1-low'', ''GPT-5.1 Low'', ''gpt-5.1-low''),
     (''openai'', ''gpt-5.1-low-fast'', ''GPT-5.1 Low Fast'', ''gpt-5.1-low-fast''),
     (''openai'', ''gpt-5.1-codex-mini'', ''GPT-5.1 Codex Mini'', ''gpt-5.1-codex-mini''),
     (''openai'', ''gpt-5.1-codex-mini-high'', ''GPT-5.1 Codex Mini High'', ''gpt-5.1-codex-mini-high''),
     (''openai'', ''gpt-5.1-codex-mini-low'', ''GPT-5.1 Codex Mini Low'', ''gpt-5.1-codex-mini-low''),
     (''openai'', ''o3'', ''o3'', ''o3''),
     (''openai'', ''gpt-4.1'', ''GPT-4.1'', ''gpt-4.1''),
     (''openai'', ''gpt-5-mini'', ''GPT-5 Mini'', ''gpt-5-mini''),
     (''openai'', ''gpt-5-nano'', ''GPT-5 Nano'', ''gpt-5-nano''),
     (''openai'', ''o3-pro'', ''o3 Pro'', ''o3-pro''),
     (''openai'', ''gpt-5-pro'', ''GPT-5 Pro'', ''gpt-5-pro''),
     (''deepseek'', ''deepseek-r1-0528'', ''DeepSeek R1'', ''deepseek-r1-0528''),
     (''deepseek'', ''deepseek-v3.1'', ''DeepSeek V3.1'', ''deepseek-v3.1''),
     (''xai'', ''grok-code-fast-1'', ''Grok Code'', ''grok-code-fast-1''),
     (''xai'', ''grok-4'', ''Grok 4'', ''grok-4-0709''),
     (''xai'', ''grok-4-fast-reasoning'', ''Grok 4 Fast'', ''grok-4-fast-reasoning''),
     (''xai'', ''grok-4-fast-non-reasoning'', ''Grok 4 Fast'', ''grok-4-fast-non-reasoning''),
     (''fireworks'', ''kimi-k2-instruct'', ''Kimi K2'', ''accounts/fireworks/models/kimi-k2-instruct'')]"

text \<open>\<open>MODEL_MAP\<close> maps every constant to itself.\<close>

definition get_model_const :: "str \<Rightarrow> str option" where
  "get_model_const s = (if s \<in> set (map bytes_of model_consts) then Some s else None)"

definition get_static_id :: "(str \<Rightarrow> str \<Rightarrow> bool) \<Rightarrow> str \<Rightarrow> id_pool \<Rightarrow> str outcome \<times> id_pool" where
  "get_static_id sb s pool = (case get_model_const s of Some c \<Rightarrow> (Done c, pool) | None \<Rightarrow> leak_intern sb s pool)"

datatype id_source = SourceId | SourceClientId | SourceServerId

definition id_source_of :: "str \<Rightarrow> id_source" where
  "id_source_of s =
     (let s = map to_lower s
      in if s = bytes_of ''id'' then SourceId
         else if s = bytes_of ''client_id'' then SourceClientId
         else if s = bytes_of ''server_id'' then SourceServerId
         else SourceServerId)"

fun id_source_str :: "id_source \<Rightarrow> str" where
  "id_source_str SourceId = bytes_of ''id''"
| "id_source_str SourceClientId = bytes_of ''client_id''"
| "id_source_str SourceServerId = bytes_of ''server_id''"

datatype fetch_mode = Truncate | AppendTruncate | Append

definition fetch_mode_of :: "str \<Rightarrow> fetch_mode" where
  "fetch_mode_of s =
     (let s = map to_lower s
      in if s = bytes_of ''truncate'' then Truncate
         else if s = bytes_of ''append:truncate'' then AppendTruncate
         else if s = bytes_of ''append'' then Append
         else Truncate)"

fun fetch_mode_str :: "fetch_mode \<Rightarrow> str" where
  "fetch_mode_str Truncate = bytes_of ''truncate''"
| "fetch_mode_str AppendTruncate = bytes_of ''append:truncate''"
| "fetch_mode_str Append = bytes_of ''append''"

record model =
  md_server_id :: str
  md_client_id :: str
  md_id :: str
  md_owned_by :: str
  md_is_thinking :: bool
  md_is_image :: bool
  md_is_max :: bool
  md_is_non_max :: bool

fun model_id :: "id_source \<Rightarrow> model \<Rightarrow> str" where
  "model_id SourceId m = md_id m"
| "model_id SourceClientId m = md_client_id m"
| "model_id SourceServerId m = md_server_id m"

definition table_model :: "string \<times> string \<times> string \<times> string \<Rightarrow> model" where
  "table_model r =
     (let (owner, i, client, server) = r
      in \<lparr> md_server_id = bytes_of server, md_client_id = bytes_of client, md_id = bytes_of i, md_owned_by = bytes_of owner,
           md_is_thinking = i \<in> set SUPPORTED_THINKING_MODELS, md_is_image = i \<in> set SUPPORTED_IMAGE_MODELS,
           md_is_max = i \<in> set SUPPORTED_MAX_MODELS \<or> i \<in> set MAX_MODELS, md_is_non_max = i \<notin> set MAX_MODELS \<rparr>)"

section \<open>The instance\<close>

text \<open>A model as the backend describes it.\<close>

record available_model =
  am_name :: str
  am_client_display_name :: "str option"
  am_server_model_name :: "str option"
  am_supports_thinking :: "bool option"
  am_supports_images :: "bool option"
  am_supports_max_mode :: "bool option"
  am_supports_non_max_mode :: "bool option"

record models =
  mo_models :: "model list"
  mo_raw_models :: "available_model list option"
  mo_ids :: "str list"
  mo_find_ids :: "str \<Rightarrow> nat option"

text \<open>Both names of one id, the second with the suffix.  The outcome is that of the slices.\<close>

definition push_ids :: "(str \<Rightarrow> str \<Rightarrow> bool) \<Rightarrow> str \<Rightarrow> str list \<times> id_pool \<Rightarrow> (str list \<times> id_pool) outcome" where
  "push_ids sb s r =
     (let (ids, pool) = r; (out, pool') = leak_add sb s pool
      in bind_outcome out (\<lambda>(a, b). Done (ids @ [b, a], pool')))"

definition MAX_SUFFIX :: str where
  "MAX_SUFFIX = bytes_of ''-max''"

definition push_model_ids :: "(str \<Rightarrow> str \<Rightarrow> bool) \<Rightarrow> id_source \<Rightarrow> model \<Rightarrow> str list \<times> id_pool \<Rightarrow> (str list \<times> id_pool) outcome" where
  "push_model_ids sb src m r =
     bind_outcome (push_ids sb (model_id src m) r) (\<lambda>r.
       if md_is_max m \<and> md_is_non_max m then push_ids sb (model_id src m @ MAX_SUFFIX) r else Done r)"

fun push_all_ids :: "(str \<Rightarrow> str \<Rightarrow> bool) \<Rightarrow> id_source \<Rightarrow> model list \<Rightarrow> str list \<times> id_pool \<Rightarrow> (str list \<times> id_pool) outcome" where
  "push_all_ids sb src [] r = Done r"
| "push_all_ids sb src (m # ms) r = bind_outcome (push_model_ids sb src m r) (push_all_ids sb src ms)"

text \<open>\<open>HashMap::from_iter\<close>: the last of several models with one id wins.\<close>

definition find_table :: "id_source \<Rightarrow> model list \<Rightarrow> str \<Rightarrow> nat option" where
  "find_table src ms = map_of (rev (zip (map (model_id src) ms) [0..<length ms]))"

definition create_models :: "(str \<Rightarrow> str \<Rightarrow> bool) \<Rightarrow> id_source \<Rightarrow> (models \<times> id_pool) outcome" where
  "create_models sb src =
     (let ms = map table_model model_table
      in bind_outcome (push_all_ids sb src ms ([], pool_init)) (\<lambda>(ids, pool).
           Done (\<lparr> mo_models = ms, mo_raw_models = None, mo_ids = ids, mo_find_ids = find_table src ms \<rparr>, pool)))"

definition find_id :: "models \<Rightarrow> str \<Rightarrow> model option outcome" where
  "find_id M s =
     (case mo_find_ids M s of
        None \<Rightarrow> Done None
      | Some i \<Rightarrow> if i < length (mo_models M) then Done (Some (mo_models M ! i)) else UB)"

section \<open>Updates\<close>

definition is_subset_equal :: "available_model list \<Rightarrow> available_model list \<Rightarrow> bool" where
  "is_subset_equal a b \<longleftrightarrow>
     length a = length b \<and>
     list_all (\<lambda>(x, y). am_name x = am_name y \<and> am_client_display_name x = am_client_display_name y \<and>
       am_server_model_name x = am_server_model_name y) (zip a b)"

text \<open>The owner by the first bytes of the server id; \<open>ascii\<close> texts only.\<close>

definition owner_of :: "str \<Rightarrow> str" where
  "owner_of s =
     (let UNKNOWN = bytes_of ''unknown''; byte = (\<lambda>i. if i < length s then Some (s ! i) else None);
          is = (\<lambda>i c. byte i = Some (of_char c))
      in if \<not> list_all (\<lambda>b. b < 0x80) s then UNKNOWN
         else if is 0 (CHR ''g'')
         then (if is 1 (CHR ''p'') then bytes_of ''openai'' else if is 1 (CHR ''e'') then bytes_of ''google''
               else if is 1 (CHR ''r'') then bytes_of ''xai'' else UNKNOWN)
         else if is 0 (CHR ''o'')
         then (if is 1 (CHR ''1'') \<or> is 1 (CHR ''3'') \<or> is 1 (CHR ''4'') then bytes_of ''openai'' else UNKNOWN)
         else if is 0 (CHR ''c'')
         then (if is 1 (CHR ''l'') then bytes_of ''anthropic'' else if is 1 (CHR ''u'') \<or> is 1 (CHR ''o'') then bytes_of ''cursor'' else UNKNOWN)
         else if is 0 (CHR ''d'')
         then (if is 1 (CHR ''e'') \<and> is 2 (CHR ''e'') then bytes_of ''deepseek'' else UNKNOWN)
         else if is 0 (CHR ''a'')
         then (if length s > 26 \<and> is 9 (CHR ''f'') then bytes_of ''fireworks'' else UNKNOWN)
         else UNKNOWN)"

definition other_id :: "(str \<Rightarrow> str \<Rightarrow> bool) \<Rightarrow> str option \<Rightarrow> str \<Rightarrow> id_pool \<Rightarrow> str outcome \<times> id_pool" where
  "other_id sb name i pool =
     (case name of Some n \<Rightarrow> if n \<noteq> i then get_static_id sb n pool else (Done i, pool) | None \<Rightarrow> (Done i, pool))"

definition convert_model :: "(str \<Rightarrow> str \<Rightarrow> bool) \<Rightarrow> available_model \<Rightarrow> id_pool \<Rightarrow> (model \<times> id_pool) outcome" where
  "convert_model sb a pool =
     (let (o1, pool) = get_static_id sb (am_name a) pool
      in bind_outcome o1 (\<lambda>i.
           let (o2, pool) = other_id sb (am_client_display_name a) i pool
           in bind_outcome o2 (\<lambda>client.
                let (o3, pool) = other_id sb (am_server_model_name a) i pool
                in bind_outcome o3 (\<lambda>server.
                     let flag = (\<lambda>f. f a = Some True)
                     in Done (\<lparr> md_server_id = server, md_client_id = client, md_id = i, md_owned_by = owner_of server,
                          md_is_thinking = flag am_supports_thinking,
                          md_is_image = (server = bytes_of ''default'' \<or> flag am_supports_images),
                          md_is_max = flag am_supports_max_mode, md_is_non_max = flag am_supports_non_max_mode \<rparr>, pool)))))"

fun convert_all :: "(str \<Rightarrow> str \<Rightarrow> bool) \<Rightarrow> available_model list \<Rightarrow> id_pool \<Rightarrow> (model list \<times> id_pool) outcome" where
  "convert_all sb [] pool = Done ([], pool)"
| "convert_all sb (a # as) pool =
     bind_outcome (convert_model sb a pool) (\<lambda>(m, pool).
       bind_outcome (convert_all sb as pool) (\<lambda>(ms, pool). Done (m # ms, pool)))"

fun static_ids :: "(str \<Rightarrow> str \<Rightarrow> bool) \<Rightarrow> available_model list \<Rightarrow> id_pool \<Rightarrow> (str list \<times> id_pool) outcome" where
  "static_ids sb [] pool = Done ([], pool)"
| "static_ids sb (a # as) pool =
     (let (out, pool) = get_static_id sb (am_name a) pool
      in bind_outcome out (\<lambda>i. bind_outcome (static_ids sb as pool) (\<lambda>(is, pool). Done (i # is, pool))))"

definition fetched_models :: "(str \<Rightarrow> str \<Rightarrow> bool) \<Rightarrow> fetch_mode \<Rightarrow> model list \<Rightarrow> available_model list \<Rightarrow> id_pool \<Rightarrow>
    (model list \<times> id_pool) outcome" where
  "fetched_models sb mode current available pool =
     (case mode of
        Truncate \<Rightarrow> convert_all sb available pool
      | AppendTruncate \<Rightarrow>
          bind_outcome (static_ids sb available pool) (\<lambda>(new, pool).
            bind_outcome (convert_all sb available pool) (\<lambda>(ms, pool).
              Done (filter (\<lambda>m. md_id m \<notin> set new) current @ ms, pool)))
      | Append \<Rightarrow>
          bind_outcome (convert_all sb (filter (\<lambda>a. am_name a \<notin> set (map md_id current)) available) pool) (\<lambda>(ms, pool).
            Done (current @ ms, pool)))"

text \<open>Whether a listed name goes with the model \<open>mid\<close>.\<close>

definition belongs_to :: "str \<Rightarrow> str \<Rightarrow> bool" where
  "belongs_to mid s \<longleftrightarrow>
     s = mid \<or>
     (case strip_suffix s SUFFIX of
        Some base \<Rightarrow> base = mid \<or> strip_suffix base MAX_SUFFIX = Some mid
      | None \<Rightarrow> strip_suffix s MAX_SUFFIX = Some mid)"

definition update_models :: "(str \<Rightarrow> str \<Rightarrow> bool) \<Rightarrow> id_source \<Rightarrow> fetch_mode \<Rightarrow> available_model list \<Rightarrow> models \<Rightarrow> id_pool \<Rightarrow>
    (bool \<times> models \<times> id_pool) outcome" where
  "update_models sb src mode available M pool =
     (if available = [] then Done (False, M, pool)
      else if (case mo_raw_models M of Some raw \<Rightarrow> is_subset_equal raw available | None \<Rightarrow> False) then Done (True, M, pool)
      else bind_outcome (fetched_models sb mode (mo_models M) available pool) (\<lambda>(new, pool).
        let old_ids = map (model_id src) (mo_models M); new_ids = map (model_id src) new;
            to_add = filter (\<lambda>m. model_id src m \<notin> set old_ids) new;
            to_remove = filter (\<lambda>m. model_id src m \<notin> set new_ids) (mo_models M);
            ids = filter (\<lambda>s. \<not> list_ex (\<lambda>m. belongs_to (model_id src m) s) to_remove) (mo_ids M)
        in bind_outcome (push_all_ids sb src to_add (ids, pool)) (\<lambda>(ids, pool).
             Done (True, \<lparr> mo_models = new, mo_raw_models = Some available, mo_ids = ids, mo_find_ids = find_table src new \<rparr>, pool))))"

section \<open>Requested names\<close>

record ext_model =
  em_id :: str
  em_is_image :: bool
  em_is_thinking :: bool
  em_web :: bool
  em_max :: bool

definition looks_thinking :: "str \<Rightarrow> bool" where
  "looks_thinking s \<longleftrightarrow>
     str_contains s (bytes_of ''-thinking'') \<or>
     (length s \<ge> 2 \<and> s ! 0 = of_char (CHR ''o'') \<and> is_ascii_digit (s ! 1)) \<or>
     starts_with s (bytes_of ''gemini-2.5-'') \<or> starts_with s (bytes_of ''deepseek-r1'') \<or> starts_with s (bytes_of ''grok-4'')"

definition ext_model_from_str :: "(str \<Rightarrow> str \<Rightarrow> bool) \<Rightarrow> bool \<Rightarrow> models \<Rightarrow> str \<Rightarrow> id_pool \<Rightarrow> (ext_model option \<times> id_pool) outcome" where
  "ext_model_from_str sb bypass M s pool =
     (let (base, web) = (case strip_suffix s SUFFIX of Some b \<Rightarrow> (b, True) | None \<Rightarrow> (s, False))
      in bind_outcome (find_id M base) (\<lambda>r.
           case r of
             Some raw \<Rightarrow> Done (Some \<lparr> em_id = md_server_id raw, em_is_image = md_is_image raw, em_is_thinking = md_is_thinking raw,
               em_web = web, em_max = (\<not> md_is_non_max raw) \<rparr>, pool)
           | None \<Rightarrow>
               (let (name, mx) = (case strip_suffix base MAX_SUFFIX of Some b \<Rightarrow> (b, True) | None \<Rightarrow> (base, False))
                in bind_outcome (if mx then find_id M name else Done None) (\<lambda>r.
                     case (case r of Some raw \<Rightarrow> if md_is_max raw then Some raw else None | None \<Rightarrow> None) of
                       Some raw \<Rightarrow> Done (Some \<lparr> em_id = md_server_id raw, em_is_image = md_is_image raw,
                         em_is_thinking = md_is_thinking raw, em_web = web, em_max = mx \<rparr>, pool)
                     | None \<Rightarrow>
                         (if bypass \<and> name \<noteq> []
                          then let (out, pool) = get_static_id sb name pool
                               in bind_outcome out (\<lambda>i. Done (Some \<lparr> em_id = i, em_is_image = True, em_is_thinking = looks_thinking i,
                                    em_web = web, em_max = mx \<rparr>, pool))
                          else Done (None, pool))))))"

section \<open>Usage checks\<close>

datatype usage_check = CheckNone | CheckDefault | CheckAll | CheckCustom "str list"

fun find_ids_of :: "models \<Rightarrow> str list \<Rightarrow> str list outcome" where
  "find_ids_of M [] = Done []"
| "find_ids_of M (s # ss) =
     bind_outcome (find_id M s) (\<lambda>r. bind_outcome (find_ids_of M ss) (\<lambda>is.
       Done (case r of Some m \<Rightarrow> md_id m # is | None \<Rightarrow> is)))"

definition parse_custom_models :: "models \<Rightarrow> str \<Rightarrow> usage_check outcome" where
  "parse_custom_models M s =
     bind_outcome (find_ids_of M (map trim (split_on 0x2C s))) (\<lambda>ms. Done (if ms = [] then CheckDefault else CheckCustom ms))"

definition usage_check_from_string :: "models \<Rightarrow> str \<Rightarrow> usage_check outcome" where
  "usage_check_from_string M s =
     (let s = map to_lower s
      in if s = bytes_of ''none'' \<or> s = bytes_of ''disabled'' then Done CheckNone
         else if s = bytes_of ''default'' then Done CheckDefault
         else if s = bytes_of ''all'' \<or> s = bytes_of ''everything'' then Done CheckAll
         else parse_custom_models M s)"

datatype usage_check_type = TypeDefault | TypeDisabled | TypeAll | TypeCustom

definition usage_check_from_pb :: "models \<Rightarrow> usage_check_type \<Rightarrow> str list \<Rightarrow> usage_check outcome" where
  "usage_check_from_pb M t model_ids =
     (case t of
        TypeDefault \<Rightarrow> Done CheckDefault
      | TypeDisabled \<Rightarrow> Done CheckNone
      | TypeAll \<Rightarrow> Done CheckAll
      | TypeCustom \<Rightarrow> bind_outcome (find_ids_of M model_ids) (\<lambda>ms. Done (if ms = [] then CheckNone else CheckCustom ms)))"

fun check_model :: "usage_check \<Rightarrow> str \<Rightarrow> bool" where
  "check_model CheckNone s = False"
| "check_model CheckDefault s = (s \<notin> set (map bytes_of FREE_MODELS))"
| "check_model CheckAll s = True"
| "check_model (CheckCustom ms) s = (s \<in> set ms)"

definition is_usage_check :: "ext_model \<Rightarrow> usage_check option \<Rightarrow> usage_check \<Rightarrow> bool" where
  "is_usage_check m check default_check = check_model (case check of Some c \<Rightarrow> c | None \<Rightarrow> default_check) (em_id m)"

end
