(* ===== verification/Chat_Request.thy ===== *)
theory Chat_Request
  imports Instructions Models
begin

text \<open>
  From a client's request to the conversation the backend receives, from \<open>src/core/adapter\<close>: \<open>traits.rs\<close> (images, tool
  results and the request as a whole), \<open>openai.rs\<close>, \<open>anthropic.rs\<close> and \<open>error.rs\<close>.  What is decoded or fetched
  elsewhere (URLs, base64, images, JSON, HTTP) is an argument, as are the random ids.  The JSON values in tool inputs
  have the type \<open>'v\<close>.
\<close>

section \<open>Errors and images\<close>

datatype adapter_error =
    VisionDisabled
  | Base64Only
  | Base64DecodeFailed
  | UrlParseFailed
  | RequestFailed
  | ResponseReadFailed
  | UnsupportedImageFormat
  | UnsupportedAnimatedGif
  | ExceedSizeLimit

datatype vision_ability = VisionNone | VisionBase64 | VisionAll

datatype image_format = Png | Jpeg | Gif | WebP | OtherFormat

datatype http_failure = SendFailed | BodyFailed

record 'v adapter_env =
  vision :: vision_ability
  url_scheme :: "str \<Rightarrow> str option"
  b64_decode :: "str \<Rightarrow> bytes option"
  b64_encode :: "bytes \<Rightarrow> str"
  http_get :: "str \<Rightarrow> http_failure + bytes"
  guess_format :: "bytes \<Rightarrow> image_format option"
  image_dimension :: "image_format \<Rightarrow> bytes \<Rightarrow> (i32 \<times> i32) option"
  animated_gif :: "bytes \<Rightarrow> bool"
  json_text :: "str \<Rightarrow> str"
  json_object :: "(str \<times> 'v) list \<Rightarrow> str"
  default_text :: str
  new_uuid :: "nat \<Rightarrow> str"

record image_proto =
  im_data :: bytes
  im_dimension :: "(i32 \<times> i32) option"
  im_uuid :: str

text \<open>\<open>fetch_image\<close> is the common part of \<open>process_http_image\<close> and \<open>process_http_to_base64_image\<close>.\<close>

definition fetch_image :: "'v adapter_env \<Rightarrow> str \<Rightarrow> adapter_error + bytes \<times> image_format" where
  "fetch_image V link =
     (case http_get V link of
        Inl SendFailed \<Rightarrow> Inl RequestFailed
      | Inl BodyFailed \<Rightarrow> Inl ResponseReadFailed
      | Inr data \<Rightarrow>
          (case guess_format V data of
             Some Gif \<Rightarrow> if animated_gif V data then Inl UnsupportedAnimatedGif else Inr (data, Gif)
           | Some OtherFormat \<Rightarrow> Inl UnsupportedImageFormat
           | None \<Rightarrow> Inl UnsupportedImageFormat
           | Some f \<Rightarrow> Inr (data, f)))"

definition process_http_image :: "'v adapter_env \<Rightarrow> str \<Rightarrow> adapter_error + bytes \<times> (i32 \<times> i32) option" where
  "process_http_image V link = map_sum (\<lambda>e. e) (\<lambda>(data, f). (data, image_dimension V f data)) (fetch_image V link)"

fun format_mime :: "image_format \<Rightarrow> str" where
  "format_mime Png = bytes_of ''image/png''"
| "format_mime Jpeg = bytes_of ''image/jpeg''"
| "format_mime Gif = bytes_of ''image/gif''"
| "format_mime WebP = bytes_of ''image/webp''"
| "format_mime OtherFormat = []"

definition process_http_to_base64_image :: "'v adapter_env \<Rightarrow> str \<Rightarrow> adapter_error + str \<times> str" where
  "process_http_to_base64_image V link = map_sum (\<lambda>e. e) (\<lambda>(data, f). (b64_encode V data, format_mime f)) (fetch_image V link)"

definition process_base64_image :: "'v adapter_env \<Rightarrow> adapter_error + bytes \<times> image_format \<Rightarrow>
    adapter_error + bytes \<times> (i32 \<times> i32) option" where
  "process_base64_image V r =
     (case r of
        Inl e \<Rightarrow> Inl e
      | Inr (data, f) \<Rightarrow>
          (if f = Gif \<and> animated_gif V data then Inl UnsupportedAnimatedGif else Inr (data, image_dimension V f data)))"

text \<open>An image is either the outcome of decoding its base64 text or a URL.\<close>

definition process_image :: "'v adapter_env \<Rightarrow> (adapter_error + bytes \<times> image_format) + str \<Rightarrow> image_proto list \<Rightarrow> base_uuid \<Rightarrow>
    adapter_error + image_proto list \<times> base_uuid" where
  "process_image V param images u =
     (let res =
        (case vision V of
           VisionNone \<Rightarrow> Inl VisionDisabled
         | va \<Rightarrow>
             (case param of
                Inl r \<Rightarrow> process_base64_image V r
              | Inr link \<Rightarrow>
                  (if va = VisionAll
                   then case url_scheme V link of None \<Rightarrow> Inl UrlParseFailed | Some _ \<Rightarrow> process_http_image V link
                   else Inl Base64Only)))
      in case res of
           Inl e \<Rightarrow> Inl e
         | Inr (data, dim) \<Rightarrow>
             (let (uuid, u') = add_and_to_string u
              in Inr (images @ [\<lparr> im_data = data, im_dimension = dim, im_uuid = uuid \<rparr>], u')))"

section \<open>The conversation\<close>

datatype message_type = Human | Ai

datatype unified_mode = Agent | Chat

datatype client_tool = Mcp

record tool_result =
  res_tool_call_id :: str
  res_tool_name :: str
  res_model_call_id :: "str option"
  res_raw_args :: str
  res_selected_tool :: str
  res_result :: str
  res_server_name :: str

record conversation_message =
  cm_text :: str
  cm_type :: message_type
  cm_images :: "image_proto list"
  cm_bubble_id :: str
  cm_server_bubble_id :: "str option"
  cm_tool_results :: "tool_result list"
  cm_is_agentic :: bool
  cm_web_references :: "web_reference list"
  cm_thinking :: "pb_thinking option"
  cm_unified_mode :: unified_mode
  cm_supported_tools :: "client_tool list"
  cm_external_links :: "external_link list"
  cm_use_web :: "bool option"

record message_header =
  mh_bubble_id :: str
  mh_server_bubble_id :: "str option"
  mh_type :: message_type

definition header_of :: "conversation_message \<Rightarrow> message_header" where
  "header_of m = \<lparr> mh_bubble_id = cm_bubble_id m, mh_server_bubble_id = cm_server_bubble_id m, mh_type = cm_type m \<rparr>"

record messages =
  ms_inner :: "conversation_message list"
  ms_headers :: "message_header list"

definition messages_new :: messages where
  "messages_new = \<lparr> ms_inner = [], ms_headers = [] \<rparr>"

definition messages_push :: "conversation_message \<Rightarrow> messages \<Rightarrow> messages" where
  "messages_push m ms = \<lparr> ms_inner = ms_inner ms @ [m], ms_headers = ms_headers ms @ [header_of m] \<rparr>"

definition messages_from_single :: "conversation_message \<Rightarrow> messages" where
  "messages_from_single m = messages_push m messages_new"

text \<open>The default value of a message, with the fields that have no default left to the caller.\<close>

definition message_default :: conversation_message where
  "message_default =
     \<lparr> cm_text = [], cm_type = Human, cm_images = [], cm_bubble_id = [], cm_server_bubble_id = None, cm_tool_results = [],
       cm_is_agentic = False, cm_web_references = [], cm_thinking = None, cm_unified_mode = Chat, cm_supported_tools = [],
       cm_external_links = [], cm_use_web = None \<rparr>"

definition mode_of :: "bool \<Rightarrow> unified_mode" where
  "mode_of is_agentic = (if is_agentic then Agent else Chat)"

definition to_opt :: "bool \<Rightarrow> bool option" where
  "to_opt b = (if b then Some True else None)"

text \<open>What the loop over the messages carries along: the messages so far, the counter of ids and the number of random ids.\<close>

record conv_state =
  cv_messages :: messages
  cv_base :: base_uuid
  cv_rand :: nat

text \<open>The message with the result of a tool call; both handlers build it the same way.  The nested messages for the call and
  its result repeat the same values and are one record here.\<close>

definition tool_message :: "'v adapter_env \<Rightarrow> bool \<Rightarrow> str \<Rightarrow> str \<Rightarrow> str \<Rightarrow> str \<Rightarrow> nat \<Rightarrow> conversation_message outcome" where
  "tool_message V is_agentic name raw_args result tool_id rnd =
     bind_outcome (tool_name_parse name) (\<lambda>parts.
       let (tool_call_id, model_call_id) = tool_id_parse tool_id
       in Done (message_default\<lparr> cm_type := Ai, cm_bubble_id := new_uuid V rnd, cm_server_bubble_id := Some (new_uuid V (rnd + 1)),
            cm_tool_results := [\<lparr> res_tool_call_id = tool_call_id, res_tool_name = tn_tool_name parts,
              res_model_call_id = model_call_id, res_raw_args = raw_args, res_selected_tool = tn_name parts,
              res_result = result, res_server_name = tn_server_name parts \<rparr>],
            cm_unified_mode := mode_of is_agentic \<rparr>))"

text \<open>The result of a tool: the parts are added one by one, an error ends it.\<close>

fun add_parts :: "('p \<Rightarrow> adapter_error + raw_content) \<Rightarrow> 'p list \<Rightarrow> tool_result_builder \<Rightarrow> adapter_error + tool_result_builder" where
  "add_parts f [] b = Inr b"
| "add_parts f (p # ps) b = (case f p of Inl e \<Rightarrow> Inl e | Inr c \<Rightarrow> add_parts f ps (builder_add c b))"

definition tool_result_text :: "'v adapter_env \<Rightarrow> ('p \<Rightarrow> adapter_error + raw_content) \<Rightarrow> 'p list \<Rightarrow> bool \<Rightarrow>
    (adapter_error + str) outcome" where
  "tool_result_text V f ps is_error =
     (case add_parts f ps (builder_new is_error) of
        Inl e \<Rightarrow> Done (Inl e)
      | Inr b \<Rightarrow> bind_outcome (builder_build (json_text V) b) (\<lambda>t. Done (Inr t)))"

text \<open>A tool's result sent on its own, during a running answer.\<close>

record client_tool_result =
  ctr_tool_call_id :: str
  ctr_model_call_id :: "str option"
  ctr_selected_tool :: str
  ctr_result :: str

definition encode_tool_result :: "'v adapter_env \<Rightarrow> ('p \<Rightarrow> adapter_error + raw_content) \<Rightarrow> 'p list \<Rightarrow> bool \<Rightarrow> str \<Rightarrow> str \<Rightarrow>
    (adapter_error + client_tool_result) outcome" where
  "encode_tool_result V f ps is_error tool_call_id selected =
     bind_outcome (tool_result_text V f ps is_error) (\<lambda>r.
       case r of
         Inl e \<Rightarrow> Done (Inl e)
       | Inr result \<Rightarrow>
           (let (call, model_call) = tool_id_parse tool_call_id
            in Done (Inr \<lparr> ctr_tool_call_id = call, ctr_model_call_id = model_call, ctr_selected_tool = selected,
                 ctr_result = result \<rparr>)))"

text \<open>A message of the user or the assistant with its text in place, and what the next one starts with.\<close>

definition finish_message :: "'v adapter_env \<Rightarrow> bool \<Rightarrow> bool \<Rightarrow> bool \<Rightarrow> str \<Rightarrow> image_proto list \<Rightarrow> external_link list \<Rightarrow>
    pb_thinking option \<Rightarrow> conversation_message option \<Rightarrow> base_uuid \<Rightarrow> nat \<Rightarrow> messages \<Rightarrow> conv_state" where
  "finish_message V is_user agentic_flag is_agentic text images links thinking next u rnd ms =
     (let (final_text, web_references, use_web, links', u') =
        (if is_user
         then let (ls, u') = extract_external_links (url_scheme V) text links u in (text, [], None, ls, u')
         else let (t, refs, has) = extract_web_references_info text in (t, refs, to_opt has, links, u));
          m = \<lparr> cm_text = final_text, cm_type = (if is_user then Human else Ai), cm_images = images,
            cm_bubble_id = new_uuid V rnd, cm_server_bubble_id = (if is_user then None else Some (new_uuid V (rnd + 1))),
            cm_tool_results = [], cm_is_agentic = agentic_flag, cm_web_references = web_references, cm_thinking = thinking,
            cm_unified_mode = mode_of is_agentic, cm_supported_tools = [], cm_external_links = links', cm_use_web = use_web \<rparr>;
          ms = messages_push m ms;
          ms = (case next of Some n \<Rightarrow> messages_push n ms | None \<Rightarrow> ms)
      in \<lparr> cv_messages = ms, cv_base = u', cv_rand = (if is_user then rnd + 1 else rnd + 2) \<rparr>)"

text \<open>The end of both conversions: the last message gets the supported tools, and its links are those of the request.\<close>

definition seal_messages :: "client_tool list \<Rightarrow> messages \<Rightarrow> messages \<times> external_link list" where
  "seal_messages tools ms =
     (case rev (ms_inner ms) of
        [] \<Rightarrow> (ms, [])
      | m # r \<Rightarrow> (ms\<lparr> ms_inner := rev r @ [m\<lparr> cm_supported_tools := tools \<rparr>] \<rparr>, cm_external_links m))"

text \<open>An empty conversation.\<close>

definition empty_conversation :: "'v adapter_env \<Rightarrow> messages" where
  "empty_conversation V = messages_from_single (message_default\<lparr> cm_type := Human, cm_bubble_id := new_uuid V 0, cm_unified_mode := Chat \<rparr>)"

section \<open>OpenAI requests\<close>

datatype content_part = PartText str | PartImageUrl str

datatype openai_content = ContentString str | ContentArray "content_part list"

datatype content_text = TextString str | TextArray "str list"

record message_tool_call =
  mtc_id :: str
  mtc_arguments :: str
  mtc_name :: str

datatype openai_message =
    SystemMessage content_text
  | UserMessage openai_content
  | AssistantMessage content_text "message_tool_call option"
  | ToolMessage content_text str

fun content_text_text :: "content_text \<Rightarrow> str" where
  "content_text_text (TextString s) = s"
| "content_text_text (TextArray ts) = join_with [0x0A] ts"

definition DATA_IMAGE_PREFIX :: str where
  "DATA_IMAGE_PREFIX = bytes_of ''data:image/''"

definition BASE64_SEPARATOR :: str where
  "BASE64_SEPARATOR = bytes_of '';base64,''"

definition openai_base64_image :: "'v adapter_env \<Rightarrow> str \<Rightarrow> adapter_error + bytes \<times> image_format" where
  "openai_base64_image V rest =
     (case split_once_str BASE64_SEPARATOR rest of
        None \<Rightarrow> Inl Base64DecodeFailed
      | Some (format, data) \<Rightarrow>
          (case (if format = bytes_of ''png'' then Some Png
                 else if format = bytes_of ''jpg'' \<or> format = bytes_of ''jpeg'' then Some Jpeg
                 else if format = bytes_of ''gif'' then Some Gif
                 else if format = bytes_of ''webp'' then Some WebP
                 else None) of
             None \<Rightarrow> Inl UnsupportedImageFormat
           | Some f \<Rightarrow> (case b64_decode V data of None \<Rightarrow> Inl Base64DecodeFailed | Some d \<Rightarrow> Inr (d, f))))"

definition openai_image :: "'v adapter_env \<Rightarrow> str \<Rightarrow> (adapter_error + bytes \<times> image_format) + str" where
  "openai_image V link =
     (case strip_prefix link DATA_IMAGE_PREFIX of Some rest \<Rightarrow> Inl (openai_base64_image V rest) | None \<Rightarrow> Inr link)"

fun user_parts :: "'v adapter_env \<Rightarrow> bool \<Rightarrow> content_part list \<Rightarrow> str list \<Rightarrow> image_proto list \<Rightarrow> base_uuid \<Rightarrow>
    adapter_error + str list \<times> image_proto list \<times> base_uuid" where
  "user_parts V image_support [] texts images u = Inr (texts, images, u)"
| "user_parts V image_support (PartText t # ps) texts images u = user_parts V image_support ps (texts @ [t]) images u"
| "user_parts V image_support (PartImageUrl link # ps) texts images u =
     (if image_support
      then case process_image V (openai_image V link) images u of
          Inl e \<Rightarrow> Inl e
        | Inr (images', u') \<Rightarrow> user_parts V image_support ps texts images' u'
      else user_parts V image_support ps texts images u)"

text \<open>The tool message that answers a call, if it comes next.\<close>

definition openai_answer_of :: "message_tool_call option \<Rightarrow> openai_message list \<Rightarrow> (message_tool_call \<times> content_text \<times> str) option" where
  "openai_answer_of call rest =
     (case call of
        None \<Rightarrow> None
      | Some c \<Rightarrow>
          (case rest of
             ToolMessage content tid # _ \<Rightarrow> (if mtc_id c = tid then Some (c, content, tid) else None)
           | _ \<Rightarrow> None))"

fun content_text_parts :: "content_text \<Rightarrow> str list" where
  "content_text_parts (TextString s) = [s]"
| "content_text_parts (TextArray ts) = ts"

function openai_loop :: "'v adapter_env \<Rightarrow> bool \<Rightarrow> bool \<Rightarrow> openai_message list \<Rightarrow> conv_state \<Rightarrow> (adapter_error + conv_state) outcome" where
  "openai_loop V image_support is_agentic [] st = Done (Inr st)"
| "openai_loop V image_support is_agentic (UserMessage content # ps) st =
     (case (case content of
              ContentString t \<Rightarrow> Inr ([t], [], cv_base st)
            | ContentArray parts \<Rightarrow> user_parts V image_support parts [] [] (cv_base st)) of
        Inl e \<Rightarrow> Done (Inl e)
      | Inr (texts, images, u) \<Rightarrow>
          openai_loop V image_support is_agentic ps
            (finish_message V True False is_agentic (join_with [0x0A] texts) images [] None None u (cv_rand st) (cv_messages st)))"
| "openai_loop V image_support is_agentic (AssistantMessage content call # ps) st =
     (case openai_answer_of call ps of
        None \<Rightarrow>
          openai_loop V image_support is_agentic ps
            (finish_message V False False is_agentic (content_text_text content) [] [] None None (cv_base st) (cv_rand st)
              (cv_messages st))
      | Some (c, answer, tid) \<Rightarrow>
          bind_outcome (tool_result_text V (\<lambda>t. Inr (RawText t)) (content_text_parts answer) False) (\<lambda>r.
            case r of
              Inl e \<Rightarrow> Done (Inl e)
            | Inr result \<Rightarrow>
                bind_outcome (tool_message V is_agentic (mtc_name c) (mtc_arguments c) result tid (cv_rand st)) (\<lambda>next.
                  openai_loop V image_support is_agentic (tl ps)
                    (finish_message V False False is_agentic (content_text_text content) [] [] None (Some next) (cv_base st)
                      (cv_rand st + 2) (cv_messages st)))))"
| "openai_loop V image_support is_agentic (SystemMessage content # ps) st = openai_loop V image_support is_agentic ps st"
| "openai_loop V image_support is_agentic (ToolMessage content tid # ps) st = openai_loop V image_support is_agentic ps st"
  by pat_completeness auto
termination
  by (relation "measure (\<lambda>(_, _, _, ps, _). length ps)") (auto simp: less_Suc_eq_le)

fun is_system :: "openai_message \<Rightarrow> bool" where
  "is_system (SystemMessage _) = True"
| "is_system _ = False"

fun system_text :: "openai_message \<Rightarrow> str" where
  "system_text (SystemMessage c) = content_text_text c"
| "system_text _ = []"

fun is_assistant :: "openai_message \<Rightarrow> bool" where
  "is_assistant (AssistantMessage _ _) = True"
| "is_assistant _ = False"

definition openai_params :: "'v adapter_env \<Rightarrow> client_tool list \<Rightarrow> base_uuid \<Rightarrow> bool \<Rightarrow> bool \<Rightarrow> openai_message list \<Rightarrow>
    (adapter_error + str \<times> messages \<times> external_link list) outcome" where
  "openai_params V tools u image_support is_agentic ps =
     (let collected = join_with [0x0A, 0x0A] (map system_text (filter is_system ps));
          instructions = (if collected = [] then default_text V else collected);
          params = filter (\<lambda>p. \<not> is_system p) ps
      in if params = [] then Done (Inr (instructions, empty_conversation V, []))
         else let params = (if is_assistant (hd params) then UserMessage (ContentString []) # params else params)
              in bind_outcome (openai_loop V image_support is_agentic params
                   \<lparr> cv_messages = messages_new, cv_base = u, cv_rand = 0 \<rparr>) (\<lambda>r.
                   case r of
                     Inl e \<Rightarrow> Done (Inl e)
                   | Inr st \<Rightarrow> (let (ms, links) = seal_messages tools (cv_messages st) in Done (Inr (instructions, ms, links)))))"

section \<open>Anthropic requests\<close>

datatype role = System | User | Assistant

text \<open>The roles that a request may name.\<close>

definition deserialize_anthropic_role :: "str \<Rightarrow> role option" where
  "deserialize_anthropic_role s =
     (if s = bytes_of ''user'' then Some User else if s = bytes_of ''assistant'' then Some Assistant else None)"

datatype media_type = ImagePng | ImageJpeg | ImageGif | ImageWebp

fun as_mime :: "media_type \<Rightarrow> str" where
  "as_mime ImageJpeg = bytes_of ''image/jpeg''"
| "as_mime ImagePng = bytes_of ''image/png''"
| "as_mime ImageGif = bytes_of ''image/gif''"
| "as_mime ImageWebp = bytes_of ''image/webp''"

definition from_mime :: "str \<Rightarrow> media_type option" where
  "from_mime s =
     (if s = bytes_of ''image/jpeg'' then Some ImageJpeg
      else if s = bytes_of ''image/png'' then Some ImagePng
      else if s = bytes_of ''image/gif'' then Some ImageGif
      else if s = bytes_of ''image/webp'' then Some ImageWebp
      else None)"

datatype image_source = Base64Source str media_type | UrlSource str

datatype document_source = Base64Document str | UrlDocument str

datatype result_block = ResultText str | ResultImage image_source

datatype result_content = ResultString str | ResultArray "result_block list"

datatype 'v block_param =
    TextParam str
  | ImageParam image_source
  | DocumentParam document_source
  | ThinkingParam str str
  | RedactedThinkingParam str
  | ToolUseParam str str "(str \<times> 'v) list"
  | ToolResultParam str "result_content option" bool

datatype 'v message_content = StringContent str | ArrayContent "'v block_param list"

record 'v message_param =
  mp_role :: role
  mp_content :: "'v message_content"

datatype system_content = SystemString str | SystemArray "str list"

fun media_format :: "media_type \<Rightarrow> image_format" where
  "media_format ImagePng = Png"
| "media_format ImageJpeg = Jpeg"
| "media_format ImageGif = Gif"
| "media_format ImageWebp = WebP"

fun anthropic_image :: "'v adapter_env \<Rightarrow> image_source \<Rightarrow> (adapter_error + bytes \<times> image_format) + str" where
  "anthropic_image V (Base64Source data media) =
     Inl (case b64_decode V data of None \<Rightarrow> Inl Base64DecodeFailed | Some d \<Rightarrow> Inr (d, media_format media))"
| "anthropic_image V (UrlSource link) = Inr link"

text \<open>The blocks of a user's message.\<close>

fun user_blocks :: "'v adapter_env \<Rightarrow> bool \<Rightarrow> 'v block_param list \<Rightarrow> str list \<Rightarrow> image_proto list \<Rightarrow> external_link list \<Rightarrow> base_uuid \<Rightarrow>
    adapter_error + str list \<times> image_proto list \<times> external_link list \<times> base_uuid" where
  "user_blocks V image_support [] texts images links u = Inr (texts, images, links, u)"
| "user_blocks V image_support (TextParam t # bs) texts images links u =
     user_blocks V image_support bs (texts @ [t]) images links u"
| "user_blocks V image_support (ImageParam source # bs) texts images links u =
     (if image_support
      then case process_image V (anthropic_image V source) images u of
          Inl e \<Rightarrow> Inl e
        | Inr (images', u') \<Rightarrow> user_blocks V image_support bs texts images' links u'
      else user_blocks V image_support bs texts images links u)"
| "user_blocks V image_support (DocumentParam source # bs) texts images links u =
     (let (uuid, u') = add_and_to_string u;
          link = (case source of
              Base64Document data \<Rightarrow> \<lparr> link_url = [], link_uuid = uuid, pdf_content = data, is_pdf = True,
                filename = bytes_of ''document.pdf'' \<rparr>
            | UrlDocument address \<Rightarrow> \<lparr> link_url = address, link_uuid = uuid, pdf_content = [], is_pdf = False, filename = [] \<rparr>)
      in user_blocks V image_support bs texts images (links @ [link]) u')"
| "user_blocks V image_support (_ # bs) texts images links u = user_blocks V image_support bs texts images links u"

text \<open>The blocks of the assistant's message: its texts and thinking.\<close>

fun assistant_blocks :: "'v block_param list \<Rightarrow> str list \<times> pb_thinking list" where
  "assistant_blocks [] = ([], [])"
| "assistant_blocks (TextParam t # bs) = (let (ts, ks) = assistant_blocks bs in (t # ts, ks))"
| "assistant_blocks (ThinkingParam t g # bs) =
     (let (ts, ks) = assistant_blocks bs in (ts, \<lparr> pt_text = t, pt_signature = g, pt_redacted = [] \<rparr> # ks))"
| "assistant_blocks (RedactedThinkingParam d # bs) =
     (let (ts, ks) = assistant_blocks bs in (ts, \<lparr> pt_text = [], pt_signature = [], pt_redacted = d \<rparr> # ks))"
| "assistant_blocks (_ # bs) = assistant_blocks bs"

definition merge_thinking :: "pb_thinking list \<Rightarrow> pb_thinking option" where
  "merge_thinking ks =
     (case ks of
        [] \<Rightarrow> None
      | [k] \<Rightarrow> Some k
      | _ \<Rightarrow> Some \<lparr> pt_text = concat (filter (\<lambda>t. t \<noteq> []) (map pt_text ks)), pt_signature = [], pt_redacted = [] \<rparr>)"

text \<open>\<open>pop_if\<close>: a tool call at the end of the message is taken off it, answered or not.\<close>

definition pop_tool_use :: "'v block_param list \<Rightarrow> (str \<times> str \<times> (str \<times> 'v) list) option \<times> 'v block_param list" where
  "pop_tool_use bs =
     (case rev bs of
        ToolUseParam i n input # r \<Rightarrow> (Some (i, n, input), rev r)
      | _ \<Rightarrow> (None, bs))"

text \<open>The answer to a call, if the next message is the user's and consists of just that.\<close>

definition anthropic_answer_of :: "(str \<times> str \<times> (str \<times> 'v) list) option \<Rightarrow> 'v message_param list \<Rightarrow>
    (str \<times> str \<times> (str \<times> 'v) list \<times> result_content option \<times> bool) option" where
  "anthropic_answer_of call rest =
     (case call of
        None \<Rightarrow> None
      | Some (i, n, input) \<Rightarrow>
          (case rest of
             p # _ \<Rightarrow>
               (if mp_role p = User
                then case mp_content p of
                    ArrayContent [ToolResultParam tid content is_error] \<Rightarrow>
                      (if i = tid then Some (tid, n, input, content, is_error) else None)
                  | _ \<Rightarrow> None
                else None)
           | [] \<Rightarrow> None))"

fun result_part :: "'v adapter_env \<Rightarrow> result_block \<Rightarrow> adapter_error + raw_content" where
  "result_part V (ResultText t) = Inr (RawText t)"
| "result_part V (ResultImage (Base64Source data media)) =
     (if b64_decode V data = None then Inl Base64DecodeFailed else Inr (RawImage data (as_mime media)))"
| "result_part V (ResultImage (UrlSource link)) =
     (case url_scheme V link of
        None \<Rightarrow> Inl UrlParseFailed
      | Some _ \<Rightarrow> map_sum (\<lambda>e. e) (\<lambda>(d, m). RawImage d m) (process_http_to_base64_image V link))"

fun result_blocks :: "result_content option \<Rightarrow> result_block list" where
  "result_blocks None = []"
| "result_blocks (Some (ResultString t)) = [ResultText t]"
| "result_blocks (Some (ResultArray bs)) = bs"

text \<open>The text, images, thinking, links and following tool message of one message, and how many of the next messages it
  takes.  A role other than the two of \<open>deserialize_anthropic_role\<close> is undefined behaviour.\<close>

function anthropic_loop :: "'v adapter_env \<Rightarrow> bool \<Rightarrow> bool \<Rightarrow> 'v message_param list \<Rightarrow> conv_state \<Rightarrow>
    (adapter_error + conv_state) outcome" where
  "anthropic_loop V image_support is_agentic [] st = Done (Inr st)"
| "anthropic_loop V image_support is_agentic (p # ps) st =
     (case mp_role p of
        System \<Rightarrow> UB
      | User \<Rightarrow>
          (case (case mp_content p of
                   StringContent t \<Rightarrow> Inr ([t], [], [], cv_base st)
                 | ArrayContent bs \<Rightarrow> user_blocks V image_support bs [] [] [] (cv_base st)) of
             Inl e \<Rightarrow> Done (Inl e)
           | Inr (texts, images, links, u) \<Rightarrow>
               anthropic_loop V image_support is_agentic ps
                 (finish_message V True is_agentic is_agentic (join_with [0x0A] texts) images links None None u (cv_rand st)
                   (cv_messages st)))
      | Assistant \<Rightarrow>
          (let (call, bs) =
             (case mp_content p of StringContent t \<Rightarrow> (None, [TextParam t]) | ArrayContent bs \<Rightarrow> pop_tool_use bs);
               (texts, thinking) = assistant_blocks bs
           in case anthropic_answer_of call ps of
                None \<Rightarrow>
                  anthropic_loop V image_support is_agentic ps
                    (finish_message V False False is_agentic (join_with [0x0A] texts) [] [] (merge_thinking thinking) None
                      (cv_base st) (cv_rand st) (cv_messages st))
              | Some (tid, n, input, content, is_error) \<Rightarrow>
                  bind_outcome (tool_result_text V (result_part V) (result_blocks content) is_error) (\<lambda>r.
                    case r of
                      Inl e \<Rightarrow> Done (Inl e)
                    | Inr result \<Rightarrow>
                        bind_outcome (tool_message V is_agentic n (json_object V input) result tid (cv_rand st)) (\<lambda>next.
                          anthropic_loop V image_support is_agentic (tl ps)
                            (finish_message V False False is_agentic (join_with [0x0A] texts) [] [] (merge_thinking thinking)
                              (Some next) (cv_base st) (cv_rand st + 2) (cv_messages st))))))"
  by pat_completeness auto
termination
  by (relation "measure (\<lambda>(_, _, _, ps, _). length ps)") (auto simp: less_Suc_eq_le)

definition anthropic_params :: "'v adapter_env \<Rightarrow> client_tool list \<Rightarrow> base_uuid \<Rightarrow> bool \<Rightarrow> bool \<Rightarrow>
    'v message_param list \<times> system_content option \<Rightarrow> (adapter_error + str \<times> messages \<times> external_link list) outcome" where
  "anthropic_params V tools u image_support is_agentic r =
     (let (params, system) = r;
          instructions =
            (case system of
               Some (SystemString t) \<Rightarrow> t
             | Some (SystemArray ts) \<Rightarrow> join_with [0x0A] ts
             | None \<Rightarrow> default_text V)
      in if params = [] then Done (Inr (instructions, empty_conversation V, []))
         else let params = (if mp_role (hd params) = Assistant
                            then \<lparr> mp_role = User, mp_content = StringContent [] \<rparr> # params else params)
              in bind_outcome (anthropic_loop V image_support is_agentic params
                   \<lparr> cv_messages = messages_new, cv_base = u, cv_rand = 0 \<rparr>) (\<lambda>r.
                   case r of
                     Inl e \<Rightarrow> Done (Inl e)
                   | Inr st \<Rightarrow> (let (ms, links) = seal_messages tools (cv_messages st) in Done (Inr (instructions, ms, links)))))"

section \<open>The request\<close>

record 'v tool_param =
  tp_name :: str
  tp_description :: "str option"
  tp_parameters :: "(str \<times> 'v) list"

record mcp_tool_decl =
  td_server_name :: str
  td_name :: str
  td_description :: str
  td_parameters :: str

datatype thinking_level = High | Unspecified

text \<open>The fields that depend on the request; the others are constants.\<close>

record chat_request =
  rq_conversation :: "conversation_message list"
  rq_headers :: "message_header list"
  rq_explicit_context :: "explicit_context option"
  rq_model_name :: str
  rq_enable_slow_pool :: "bool option"
  rq_max_mode :: bool
  rq_use_web :: "str option"
  rq_external_links :: "external_link list"
  rq_is_chat :: bool
  rq_conversation_id :: str
  rq_is_agentic :: bool
  rq_supported_tools :: "client_tool list"
  rq_mcp_tools :: "mcp_tool_decl list"
  rq_use_full_inputs_context :: "bool option"
  rq_unified_mode :: unified_mode
  rq_should_disable_tools :: bool
  rq_thinking_level :: thinking_level
  rq_unified_mode_name :: str

definition declare_tool :: "'v adapter_env \<Rightarrow> 'v tool_param \<Rightarrow> mcp_tool_decl" where
  "declare_tool V t = \<lparr> td_server_name = bytes_of ''custom'', td_name = tp_name t,
     td_description = (case tp_description t of Some d \<Rightarrow> d | None \<Rightarrow> []), td_parameters = json_object V (tp_parameters t) \<rparr>"

text \<open>\<open>process\<close> is the conversion of one of the two handlers, with what it still needs.\<close>

definition encode_create_params :: "'v adapter_env \<Rightarrow> context_fill_mode \<Rightarrow> bool \<Rightarrow>
    (client_tool list \<Rightarrow> bool \<Rightarrow> bool \<Rightarrow> (adapter_error + str \<times> messages \<times> external_link list) outcome) \<Rightarrow>
    'v tool_param list \<Rightarrow> ext_model \<Rightarrow> str \<Rightarrow> bool \<Rightarrow> bool \<Rightarrow> (adapter_error + chat_request) outcome" where
  "encode_create_params V fill long_context process tools model msg_id disable_vision enable_slow_pool =
     (let is_chat = (tools = []); is_agentic = (\<not> is_chat); supported_tools = (if is_agentic then [Mcp] else [])
      in bind_outcome (process supported_tools (\<not> disable_vision \<and> em_is_image model) is_agentic) (\<lambda>r.
           case r of
             Inl e \<Rightarrow> Done (Inl e)
           | Inr (instructions, ms, links) \<Rightarrow>
               bind_outcome (create_explicit_context fill instructions) (\<lambda>context.
                 Done (Inr \<lparr> rq_conversation = ms_inner ms, rq_headers = ms_headers ms, rq_explicit_context = context,
                   rq_model_name = em_id model, rq_enable_slow_pool = to_opt enable_slow_pool, rq_max_mode = em_max model,
                   rq_use_web = (if em_web model then Some (bytes_of ''full_search'') else None), rq_external_links = links,
                   rq_is_chat = is_chat, rq_conversation_id = msg_id, rq_is_agentic = is_agentic,
                   rq_supported_tools = supported_tools, rq_mcp_tools = map (declare_tool V) tools,
                   rq_use_full_inputs_context = to_opt long_context, rq_unified_mode = mode_of is_agentic,
                   rq_should_disable_tools = is_chat,
                   rq_thinking_level = (if em_is_thinking model then High else Unspecified),
                   rq_unified_mode_name = (if is_chat then bytes_of ''Ask'' else bytes_of ''Agent'') \<rparr>))))"

end
