(* ===== verification/Conversation.thy ===== *)
theory Conversation
  imports Chat_Request "HOL-Library.Multiset"
begin

text \<open>
  Properties of the conversations that \<open>Chat_Request\<close> builds: the conversion is total, headers and ids are
  consistent, texts and tool results arrive where they belong, and where they do not.
\<close>

section \<open>Every request is converted or refused\<close>

lemma tool_message_done: "\<exists>m. tool_message V is_agentic name raw_args result tid rnd = Done m"
  by (simp add: tool_message_def tool_name_parse_eq case_prod_beta Let_def)

lemma tool_result_text_done: "\<exists>r. tool_result_text V f ps is_error = Done r"
  by (cases "add_parts f ps (builder_new is_error)") (simp_all add: tool_result_text_def builder_build_eq)

lemma openai_loop_done: "\<exists>r. openai_loop V image_support is_agentic ps st = Done r"
proof (induction V image_support is_agentic ps st rule: openai_loop.induct)
  case (3 V image_support is_agentic content call ps st)
  show ?case
  proof (cases "openai_answer_of call ps")
    case None
    then show ?thesis using "3.IH"(1) by simp
  next
    case (Some a)
    obtain c answer tid where a: "a = (c, answer, tid)" by (cases a)
    obtain r where r: "tool_result_text V (\<lambda>t. Inr (RawText t)) (content_text_parts answer) False = Done r"
      using tool_result_text_done by blast
    show ?thesis
    proof (cases r)
      case (Inr result)
      obtain m where "tool_message V is_agentic (mtc_name c) (mtc_arguments c) result tid (cv_rand st) = Done m"
        using tool_message_done by blast
      then show ?thesis using "3.IH"(2) [OF Some a [symmetric] refl] Some a r Inr by simp
    qed (use Some a r in simp)
  qed
qed (auto split: sum.splits prod.splits openai_content.splits)

lemma anthropic_loop_done:
  "list_all (\<lambda>p. mp_role p \<noteq> System) ps \<Longrightarrow> \<exists>r. anthropic_loop V image_support is_agentic ps st = Done r"
proof (induction "length ps" arbitrary: ps st rule: less_induct)
  case less
  show ?case
  proof (cases ps)
    case (Cons p qs)
    note IH = less.hyps [of qs] less.hyps [of "tl qs"]
    have len: "length qs < length ps" "length (tl qs) < length ps" using Cons by simp_all
    have roles: "list_all (\<lambda>p. mp_role p \<noteq> System) qs" "list_all (\<lambda>p. mp_role p \<noteq> System) (tl qs)"
      using less.prems Cons by (simp, cases qs) auto
    show ?thesis
    proof (cases "mp_role p")
      case System
      then show ?thesis using less.prems Cons by simp
    next
      case User
      then show ?thesis using IH(1) [OF len(1) roles(1)] Cons
        by (auto split: sum.splits prod.splits message_content.splits)
    next
      case Assistant
      obtain call bs where c: "(case mp_content p of StringContent t \<Rightarrow> (None, [TextParam t]) | ArrayContent bs \<Rightarrow> pop_tool_use bs) =
        (call, bs)" by fastforce
      show ?thesis
      proof (cases "anthropic_answer_of call qs")
        case None
        then show ?thesis using IH(1) [OF len(1) roles(1)] Cons Assistant c by (simp add: case_prod_beta)
      next
        case (Some a)
        obtain tid n input content err where a: "a = (tid, n, input, content, err)" by (cases a)
        obtain r where r: "tool_result_text V (result_part V) (result_blocks content) err = Done r"
          using tool_result_text_done by blast
        show ?thesis
        proof (cases r)
          case (Inr result)
          obtain m where "tool_message V is_agentic n (json_object V input) result tid (cv_rand st) = Done m"
            using tool_message_done by blast
          then show ?thesis using IH(2) [OF len(2) roles(2)] Cons Assistant c Some a r Inr by (simp add: case_prod_beta)
        qed (use Cons Assistant c Some a r in \<open>simp add: case_prod_beta\<close>)
      qed
    qed
  qed simp
qed

text \<open>C23: no Anthropic request makes the conversion panic or reach undefined behaviour: with the roles that requests may
  name, every list of messages is converted or refused with an error.\<close>

theorem anthropic_params_total:
  assumes "list_all (\<lambda>p. \<exists>s. deserialize_anthropic_role s = Some (mp_role p)) ps"
  shows "\<exists>r. anthropic_params V tools u image_support is_agentic (ps, system) = Done r"
proof -
  have "mp_role p \<noteq> System" if "\<exists>s. deserialize_anthropic_role s = Some (mp_role p)" for p :: "'a message_param"
    using that by (auto simp: deserialize_anthropic_role_def split: if_splits)
  then have "list_all (\<lambda>p. mp_role p \<noteq> System) ps" using assms by (auto simp: list_all_iff)
  then have roles: "list_all (\<lambda>p. mp_role p \<noteq> System) (if mp_role (hd ps) = Assistant
      then \<lparr> mp_role = User, mp_content = StringContent [] \<rparr> # ps else ps)" by simp
  obtain r where "anthropic_loop V image_support is_agentic (if mp_role (hd ps) = Assistant
      then \<lparr> mp_role = User, mp_content = StringContent [] \<rparr> # ps else ps)
      \<lparr> cv_messages = messages_new, cv_base = u, cv_rand = 0 \<rparr> = Done r"
    using anthropic_loop_done [OF roles] by blast
  then show ?thesis by (cases r) (auto simp: anthropic_params_def case_prod_beta Let_def)
qed

section \<open>Ids and headers\<close>

text \<open>\<open>ids\<close> are the numbers from \<open>u\<close> on, each used once, in any order; \<open>u'\<close> is the next one.\<close>

definition ids_from :: "base_uuid \<Rightarrow> str list \<Rightarrow> base_uuid \<Rightarrow> bool" where
  "ids_from u ids u' \<longleftrightarrow>
     mset ids = mset (map (\<lambda>k. decimal (unat (u + of_nat k))) [0..<length ids]) \<and> u' = u + of_nat (length ids)"

lemma ids_from_Nil [simp]: "ids_from u [] u' \<longleftrightarrow> u' = u"
  by (auto simp: ids_from_def)

lemma ids_from_one: "ids_from u [decimal (unat u)] (u + 1)"
  by (simp add: ids_from_def)

lemma ids_from_append:
  assumes "ids_from u a u1" and "ids_from u1 b u2"
  shows "ids_from u (a @ b) u2"
proof -
  let ?f = "\<lambda>u k. decimal (unat (u + of_nat k :: u16))"
  have "map (?f u) [0..<length a + length b] = map (?f u) [0..<length a] @ map (?f u1) [0..<length b]"
    using assms(1) by (intro nth_equalityI) (auto simp: ids_from_def nth_append algebra_simps)
  then show ?thesis using assms by (simp add: ids_from_def)
qed


lemma ids_from_perm: "mset ids = mset ids' \<Longrightarrow> ids_from u ids u' = ids_from u ids' u'"
  by (auto simp: ids_from_def dest: mset_eq_length)

lemma ids_from_distinct:
  assumes "ids_from u ids u'" and "length ids \<le> 2 ^ 16"
  shows "distinct ids"
proof -
  have "inj_on (\<lambda>k. decimal (unat (u + of_nat k))) {0..<length ids}"
  proof (rule inj_onI)
    fix j k assume "j \<in> {0..<length ids}" "k \<in> {0..<length ids}"
      and "decimal (unat (u + of_nat j)) = decimal (unat (u + of_nat k))"
    then have "unat (u + of_nat j) = unat (u + of_nat k)" "j < 2 ^ 16" "k < 2 ^ 16" using assms(2) by auto
    moreover from this(1) have "u + of_nat j = u + of_nat k" by (rule unsigned_word_eqI)
    ultimately have b: "j < 2 ^ 16" "k < 2 ^ 16" "unat (of_nat j :: u16) = unat (of_nat k :: u16)" by simp_all
    then show "j = k" by (simp add: unsigned_of_nat take_bit_nat_eq_self)
  qed
  then have "distinct (map (\<lambda>k. decimal (unat (u + of_nat k))) [0..<length ids])" by (simp add: distinct_map)
  moreover have "mset ids = mset (map (\<lambda>k. decimal (unat (u + of_nat k))) [0..<length ids])"
    using assms(1) by (simp add: ids_from_def)
  ultimately show ?thesis using mset_eq_imp_distinct_iff by blast
qed

definition message_ids :: "conversation_message \<Rightarrow> str list" where
  "message_ids m = map im_uuid (cm_images m) @ map link_uuid (cm_external_links m)"

text \<open>One step of either conversion, seen from the messages, headers and ids.\<close>

inductive conv_step :: "'v adapter_env \<Rightarrow> conv_state \<Rightarrow> conv_state \<Rightarrow> bool" for V where
  conv_step: "ids_from (cv_base st) (map im_uuid images @ map link_uuid links) u \<Longrightarrow> (\<And>n. next = Some n \<Longrightarrow> message_ids n = []) \<Longrightarrow>
    conv_step V st (finish_message V is_user flag is_agentic text images links thinking next u rnd (cv_messages st))"

definition conv_inv :: "base_uuid \<Rightarrow> conv_state \<Rightarrow> bool" where
  "conv_inv u st \<longleftrightarrow>
     ms_headers (cv_messages st) = map header_of (ms_inner (cv_messages st)) \<and>
     ids_from u (concat (map message_ids (ms_inner (cv_messages st)))) (cv_base st)"

lemma number_links_ids: "ids_from u (map link_uuid (number_links u ws)) (u + of_nat (length ws))"
proof (induction ws arbitrary: u)
  case (Cons w ws)
  show ?case using ids_from_append [OF ids_from_one Cons [of "u + 1"]] by (simp add: algebra_simps)
qed simp

lemma finish_message_inv:
  assumes inv: "conv_inv u0 st" and ids: "ids_from (cv_base st) (map im_uuid images @ map link_uuid links) u"
    and nx: "\<And>n. next = Some n \<Longrightarrow> message_ids n = []"
  shows "conv_inv u0 (finish_message V is_user flag is_agentic text images links thinking next u rnd (cv_messages st))"
proof -
  let ?st = "finish_message V is_user flag is_agentic text images links thinking next u rnd (cv_messages st)"
  let ?ws = "if is_user then marked_words (url_scheme V) text else []"
  have base: "cv_base ?st = u + of_nat (length ?ws)"
    by (auto simp: finish_message_def extract_external_links_eq case_prod_beta Let_def)
  have heads: "ms_headers (cv_messages ?st) = map header_of (ms_inner (cv_messages ?st))"
    using inv by (auto simp: conv_inv_def finish_message_def messages_push_def case_prod_beta Let_def split: option.splits)
  have inner: "concat (map message_ids (ms_inner (cv_messages ?st))) =
    concat (map message_ids (ms_inner (cv_messages st))) @ map im_uuid images @ map link_uuid links @ map link_uuid (number_links u ?ws)"
    using nx by (auto simp: finish_message_def messages_push_def message_ids_def extract_external_links_eq case_prod_beta Let_def
        split: option.splits)
  have "ids_from (cv_base st) ((map im_uuid images @ map link_uuid links) @ map link_uuid (number_links u ?ws)) (cv_base ?st)"
    unfolding base by (rule ids_from_append [OF ids number_links_ids])
  moreover have "ids_from u0 (concat (map message_ids (ms_inner (cv_messages st)))) (cv_base st)"
    using inv by (simp add: conv_inv_def)
  ultimately have "ids_from u0 (concat (map message_ids (ms_inner (cv_messages ?st)))) (cv_base ?st)"
    unfolding inner using ids_from_append by fastforce
  then show ?thesis using heads by (simp add: conv_inv_def)
qed

interpretation conv: state_machine "\<lambda>st. st = \<lparr> cv_messages = messages_new, cv_base = u, cv_rand = 0 \<rparr>" "conv_step V" "conv_inv u"
  for u :: base_uuid and V :: "'v adapter_env"
proof
  show "st = \<lparr> cv_messages = messages_new, cv_base = u, cv_rand = 0 \<rparr> \<Longrightarrow> conv_inv u st" for st
    by (simp add: conv_inv_def messages_new_def)
  show "conv_inv u st \<Longrightarrow> conv_step V st st' \<Longrightarrow> conv_inv u st'" for st st'
    by (erule conv_step.cases) (simp add: finish_message_inv)
qed

lemma process_image_ids:
  "process_image V param images u = Inr (images', u') \<Longrightarrow>
   \<exists>im. images' = images @ [im] \<and> im_uuid im = decimal (unat u) \<and> u' = u + 1"
  by (auto simp: process_image_def add_and_to_string_def Let_def split: sum.splits prod.splits)

lemma user_parts_ids:
  "user_parts V image_support ps texts images u = Inr (texts', images', u') \<Longrightarrow>
   \<exists>new. images' = images @ new \<and> ids_from u (map im_uuid new) u'"
proof (induction V image_support ps texts images u rule: user_parts.induct)
  case (3 V image_support link ps texts images u)
  show ?case
  proof (cases image_support)
    case True
    then obtain im1 u1 where p: "process_image V (openai_image V link) images u = Inr (im1, u1)"
      using "3.prems" by (auto split: sum.splits)
    obtain im where im: "im1 = images @ [im]" "im_uuid im = decimal (unat u)" "u1 = u + 1" using process_image_ids [OF p] by blast
    obtain new where "images' = im1 @ new" "ids_from u1 (map im_uuid new) u'"
      using "3.IH"(1) [OF True p refl] "3.prems" True p by auto
    then show ?thesis using im ids_from_append [OF ids_from_one [of u], of "map im_uuid new" u']
      by (intro exI [of _ "im # new"]) auto
  qed (use 3 in simp)
qed auto


lemma user_blocks_ids:
  "user_blocks V image_support bs texts images links u = Inr (texts', images', links', u') \<Longrightarrow>
   \<exists>new more. images' = images @ new \<and> links' = links @ more \<and> ids_from u (map im_uuid new @ map link_uuid more) u'"
proof (induction V image_support bs texts images links u rule: user_blocks.induct)
  case (3 V image_support source bs texts images links u)
  show ?case
  proof (cases image_support)
    case True
    then obtain im1 u1 where p: "process_image V (anthropic_image V source) images u = Inr (im1, u1)"
      using "3.prems" by (auto split: sum.splits)
    obtain im where im: "im1 = images @ [im]" "im_uuid im = decimal (unat u)" "u1 = u + 1" using process_image_ids [OF p] by blast
    obtain new more where n: "images' = im1 @ new" "links' = links @ more" "ids_from u1 (map im_uuid new @ map link_uuid more) u'"
      using "3.IH"(1) [OF True p refl] "3.prems" True p by auto
    show ?thesis using n im ids_from_append [OF ids_from_one [of u], of "map im_uuid new @ map link_uuid more" u']
      by (intro exI [of _ "im # new"] exI [of _ more]) simp
  qed (use 3 in simp)
next
  case (4 V image_support source bs texts images links u)
  let ?link = "case source of
      Base64Document data \<Rightarrow> \<lparr> link_url = [], link_uuid = decimal (unat u), pdf_content = data, is_pdf = True,
        filename = bytes_of ''document.pdf'' \<rparr>
    | UrlDocument address \<Rightarrow> \<lparr> link_url = address, link_uuid = decimal (unat u), pdf_content = [], is_pdf = False, filename = [] \<rparr>"
  have id: "link_uuid ?link = decimal (unat u)" by (cases source) simp_all
  obtain new more where n: "images' = images @ new" "links' = (links @ [?link]) @ more"
      "ids_from (u + 1) (map im_uuid new @ map link_uuid more) u'"
    using "4.IH" [OF _ refl refl] "4.prems" by (auto simp: add_and_to_string_def)
  have "ids_from u (map im_uuid new @ map link_uuid (?link # more)) u'"
    using ids_from_append [OF ids_from_one [of u] n(3)] id
    by (subst ids_from_perm [where ids' = "decimal (unat u) # map im_uuid new @ map link_uuid more"]) simp_all
  then show ?case using n by (intro exI [of _ new] exI [of _ "?link # more"]) simp
qed auto

lemma conv_step_then:
  assumes "ids_from (cv_base st) (map im_uuid images @ map link_uuid links) u" and "\<And>n. next = Some n \<Longrightarrow> message_ids n = []"
    and "(conv_step V)\<^sup>*\<^sup>* (finish_message V is_user flag is_agentic text images links thinking next u rnd (cv_messages st)) st'"
  shows "(conv_step V)\<^sup>*\<^sup>* st st'"
  using assms by (blast intro: conv_step converse_rtranclp_into_rtranclp)

lemma tool_message_ids: "tool_message V is_agentic name raw_args result tid rnd = Done m \<Longrightarrow> message_ids m = []"
  by (auto simp: tool_message_def tool_name_parse_eq message_default_def message_ids_def case_prod_beta Let_def)

lemma openai_loop_steps:
  "openai_loop V image_support is_agentic ps st = Done (Inr st') \<Longrightarrow> (conv_step V)\<^sup>*\<^sup>* st st'"
proof (induction V image_support is_agentic ps st rule: openai_loop.induct)
  case (2 V image_support is_agentic content ps st)
  obtain texts images u where parts: "(case content of ContentString t \<Rightarrow> Inr ([t], [], cv_base st)
      | ContentArray parts \<Rightarrow> user_parts V image_support parts [] [] (cv_base st)) = Inr (texts, images, u)"
    using "2.prems" by (fastforce split: sum.splits)
  have ids: "ids_from (cv_base st) (map im_uuid images @ map link_uuid []) u"
    using parts user_parts_ids [of V image_support _ "[]" "[]" "cv_base st" texts images u] by (cases content) auto
  show ?case
    using "2.IH" [OF parts refl refl] "2.prems" parts conv_step [OF ids, of None V True False is_agentic] by (auto intro: converse_rtranclp_into_rtranclp)
next
  case (3 V image_support is_agentic content call ps st)
  have ids: "ids_from (cv_base st) (map im_uuid [] @ map link_uuid []) (cv_base st)" by simp
  show ?case
  proof (cases "openai_answer_of call ps")
    case None
    then show ?thesis using "3.IH"(1) "3.prems" conv_step [OF ids, of None V False False is_agentic] by (auto intro: converse_rtranclp_into_rtranclp)
  next
    case (Some a)
    obtain c answer tid where a: "a = (c, answer, tid)" by (cases a)
    obtain result where r: "tool_result_text V (\<lambda>t. Inr (RawText t)) (content_text_parts answer) False = Done (Inr result)"
      using "3.prems" Some a tool_result_text_done [of V "\<lambda>t. Inr (RawText t)" "content_text_parts answer" False] by (auto split: sum.splits)
    obtain m where m: "tool_message V is_agentic (mtc_name c) (mtc_arguments c) result tid (cv_rand st) = Done m"
      using tool_message_done by blast
    have "conv_step V st (finish_message V False False is_agentic (content_text_text content) [] [] None (Some m) (cv_base st)
        (cv_rand st + 2) (cv_messages st))"
      by (rule conv_step [OF ids]) (use tool_message_ids [OF m] in simp)
    then show ?thesis using "3.IH"(2) [OF Some a [symmetric] refl] "3.prems" Some a r m by (auto intro: converse_rtranclp_into_rtranclp)
  qed
qed auto

lemma anthropic_loop_steps:
  "anthropic_loop V image_support is_agentic ps st = Done (Inr st') \<Longrightarrow> (conv_step V)\<^sup>*\<^sup>* st st'"
proof (induction "length ps" arbitrary: ps st rule: less_induct)
  case less
  show ?case
  proof (cases ps)
    case (Cons p qs)
    note IH = less.hyps [of qs] less.hyps [of "tl qs"]
    have len: "length qs < length ps" "length (tl qs) < length ps" using Cons by simp_all
    show ?thesis
    proof (cases "mp_role p")
      case System
      then show ?thesis using less.prems Cons by simp
    next
      case User
      obtain texts images links u where parts: "(case mp_content p of StringContent t \<Rightarrow> Inr ([t], [], [], cv_base st)
          | ArrayContent bs \<Rightarrow> user_blocks V image_support bs [] [] [] (cv_base st)) = Inr (texts, images, links, u)"
        using less.prems Cons User by (fastforce split: sum.splits)
      have ids: "ids_from (cv_base st) (map im_uuid images @ map link_uuid links) u"
        using parts user_blocks_ids [of V image_support _ "[]" "[]" "[]" "cv_base st" texts images links u]
        by (cases "mp_content p") auto
      let ?st = "finish_message V True is_agentic is_agentic (join_with [0x0A] texts) images links None None u (cv_rand st) (cv_messages st)"
      have "anthropic_loop V image_support is_agentic qs ?st = Done (Inr st')" using less.prems Cons User parts by simp
      then show ?thesis by (intro conv_step_then [OF ids _ IH(1) [OF len(1)]]) simp_all
    next
      case Assistant
      obtain call bs where c: "(case mp_content p of StringContent t \<Rightarrow> (None, [TextParam t]) | ArrayContent bs \<Rightarrow> pop_tool_use bs) =
        (call, bs)" by fastforce
      have ids: "ids_from (cv_base st) (map im_uuid [] @ map link_uuid []) (cv_base st)" by simp
      show ?thesis
      proof (cases "anthropic_answer_of call qs")
        case None
        let ?st = "finish_message V False False is_agentic (join_with [0x0A] (fst (assistant_blocks bs))) [] []
            (merge_thinking (snd (assistant_blocks bs))) None (cv_base st) (cv_rand st) (cv_messages st)"
        have "anthropic_loop V image_support is_agentic qs ?st = Done (Inr st')"
          using less.prems Cons Assistant c None by (simp add: case_prod_beta)
        then show ?thesis by (intro conv_step_then [OF ids _ IH(1) [OF len(1)]]) simp_all
      next
        case (Some a)
        obtain tid n input content err where a: "a = (tid, n, input, content, err)" by (cases a)
        obtain result where r: "tool_result_text V (result_part V) (result_blocks content) err = Done (Inr result)"
          using less.prems Cons Assistant c Some a tool_result_text_done [of V "result_part V" "result_blocks content" err]
          by (auto simp: case_prod_beta split: sum.splits)
        obtain m where m: "tool_message V is_agentic n (json_object V input) result tid (cv_rand st) = Done m"
          using tool_message_done by blast
        let ?st = "finish_message V False False is_agentic (join_with [0x0A] (fst (assistant_blocks bs))) [] []
            (merge_thinking (snd (assistant_blocks bs))) (Some m) (cv_base st) (cv_rand st + 2) (cv_messages st)"
        have "anthropic_loop V image_support is_agentic (tl qs) ?st = Done (Inr st')"
          using less.prems Cons Assistant c Some a r m by (simp add: case_prod_beta)
        then show ?thesis using tool_message_ids [OF m] by (intro conv_step_then [OF ids _ IH(2) [OF len(2)]]) simp_all
      qed
    qed
  qed (use less.prems in simp)
qed

lemma seal_inv: "conv_inv u \<lparr> cv_messages = ms, cv_base = u', cv_rand = k \<rparr> \<Longrightarrow>
    conv_inv u \<lparr> cv_messages = fst (seal_messages tools ms), cv_base = u', cv_rand = k \<rparr>"
  by (cases "ms_inner ms" rule: rev_cases)
    (auto simp: conv_inv_def seal_messages_def header_of_def message_ids_def ids_from_def)

lemma conv_reached:
  assumes "(conv_step V)\<^sup>*\<^sup>* \<lparr> cv_messages = messages_new, cv_base = u, cv_rand = 0 \<rparr> st"
  shows "conv_inv u \<lparr> cv_messages = fst (seal_messages tools (cv_messages st)), cv_base = cv_base st, cv_rand = cv_rand st \<rparr>"
proof -
  have "conv_inv u st" by (rule conv.reachable_inv [OF refl assms])
  then have "conv_inv u \<lparr> cv_messages = cv_messages st, cv_base = cv_base st, cv_rand = cv_rand st \<rparr>"
    by (simp add: conv_inv_def)
  then show ?thesis by (rule seal_inv)
qed

lemma empty_conversation_inv: "conv_inv u \<lparr> cv_messages = empty_conversation V, cv_base = u, cv_rand = 0 \<rparr>"
  by (simp add: conv_inv_def empty_conversation_def messages_from_single_def messages_new_def messages_push_def
      message_default_def message_ids_def)

text \<open>A conversation is empty or sealed after some steps; both conversions give such ones.\<close>

definition conversation :: "'v adapter_env \<Rightarrow> client_tool list \<Rightarrow> base_uuid \<Rightarrow> messages \<Rightarrow> external_link list \<Rightarrow> bool" where
  "conversation V tools u ms links \<longleftrightarrow> ms = empty_conversation V \<and> links = [] \<or>
     (\<exists>st. (conv_step V)\<^sup>*\<^sup>* \<lparr> cv_messages = messages_new, cv_base = u, cv_rand = 0 \<rparr> st \<and> (ms, links) = seal_messages tools (cv_messages st))"

lemma sealed:
  assumes "bind_outcome L (\<lambda>r. case r of Inl e \<Rightarrow> Done (Inl e)
      | Inr st \<Rightarrow> Done (Inr (i, fst (seal_messages tools (cv_messages st)), snd (seal_messages tools (cv_messages st))))) =
      Done (Inr (i', ms, links))"
    and "\<And>st. L = Done (Inr st) \<Longrightarrow> (conv_step V)\<^sup>*\<^sup>* \<lparr> cv_messages = messages_new, cv_base = u, cv_rand = 0 \<rparr> st"
  shows "conversation V tools u ms links"
proof -
  obtain r where r: "L = Done r" using assms(1) by (auto simp: bind_outcome_Done_iff)
  then obtain st where "r = Inr st" using assms(1) by (cases r) auto
  then show ?thesis using assms r unfolding conversation_def by (auto simp: case_prod_beta prod_eq_iff)
qed

lemma openai_conversation:
  assumes "openai_params V tools u image_support is_agentic ps = Done (Inr (instructions, ms, links))"
  shows "conversation V tools u ms links"
proof (cases "filter (\<lambda>p. \<not> is_system p) ps = []")
  case False
  from assms show ?thesis unfolding openai_params_def Let_def case_prod_beta if_not_P [OF False]
    by (rule sealed) (rule openai_loop_steps)
qed (use assms in \<open>simp add: openai_params_def conversation_def Let_def\<close>)

lemma anthropic_conversation:
  assumes "anthropic_params V tools u image_support is_agentic r = Done (Inr (instructions, ms, links))"
  shows "conversation V tools u ms links"
proof (cases "fst r = []")
  case False
  from assms show ?thesis unfolding anthropic_params_def Let_def case_prod_beta if_not_P [OF False]
    by (rule sealed) (rule anthropic_loop_steps)
qed (use assms in \<open>simp add: anthropic_params_def conversation_def Let_def case_prod_beta\<close>)

lemma conversation_consistent:
  assumes "conversation V tools u ms links"
  shows "ms_headers ms = map header_of (ms_inner ms)"
    and "length (concat (map message_ids (ms_inner ms))) \<le> 2 ^ 16 \<Longrightarrow> distinct (concat (map message_ids (ms_inner ms)))"
proof -
  obtain u' k where inv: "conv_inv u \<lparr> cv_messages = ms, cv_base = u', cv_rand = k \<rparr>"
    using assms empty_conversation_inv [of u V] conv_reached [of V u _ tools] unfolding conversation_def by (metis fst_conv)
  then show "ms_headers ms = map header_of (ms_inner ms)" by (simp add: conv_inv_def)
  show "distinct (concat (map message_ids (ms_inner ms)))" if "length (concat (map message_ids (ms_inner ms))) \<le> 2 ^ 16"
    using inv that ids_from_distinct unfolding conv_inv_def by fastforce
qed

text \<open>In every conversation built from an OpenAI request the headers are those of the messages, one for one and in order,
  and the ids of images and links differ from each other as long as there are at most $2^{16}$ of them, the counter's
  range.\<close>

theorem openai_conversation_consistent:
  assumes "openai_params V tools u image_support is_agentic ps = Done (Inr (instructions, ms, links))"
  shows "ms_headers ms = map header_of (ms_inner ms) \<and>
    (length (concat (map message_ids (ms_inner ms))) \<le> 2 ^ 16 \<longrightarrow> distinct (concat (map message_ids (ms_inner ms))))"
  using conversation_consistent [OF openai_conversation [OF assms]] by blast

text \<open>C24: the same holds for Anthropic requests, where documents take ids as well.\<close>

theorem anthropic_conversation_consistent:
  assumes "anthropic_params V tools u image_support is_agentic r = Done (Inr (instructions, ms, links))"
  shows "ms_headers ms = map header_of (ms_inner ms) \<and>
    (length (concat (map message_ids (ms_inner ms))) \<le> 2 ^ 16 \<longrightarrow> distinct (concat (map message_ids (ms_inner ms))))"
  using conversation_consistent [OF anthropic_conversation [OF assms]] by blast

section \<open>The two protocols agree\<close>

text \<open>A conversation, apart from how a protocol writes it.\<close>

datatype picture = Linked str | Inline media_type str

datatype input_part = InputText str | InputPicture picture

datatype 'v turn =
    UserTurn "input_part list"
  | AnswerTurn "str list"
  | CallTurn "str list" str str "(str \<times> 'v) list" "str list"

fun openai_picture :: "picture \<Rightarrow> str" where
  "openai_picture (Linked link) = link"
| "openai_picture (Inline media data) = bytes_of ''data:'' @ as_mime media @ BASE64_SEPARATOR @ data"

fun openai_part :: "input_part \<Rightarrow> content_part" where
  "openai_part (InputText t) = PartText t"
| "openai_part (InputPicture p) = PartImageUrl (openai_picture p)"

fun openai_turn :: "'v adapter_env \<Rightarrow> 'v turn \<Rightarrow> openai_message list" where
  "openai_turn V (UserTurn ps) = [UserMessage (ContentArray (map openai_part ps))]"
| "openai_turn V (AnswerTurn ts) = [AssistantMessage (TextArray ts) None]"
| "openai_turn V (CallTurn ts i n input rs) =
     [AssistantMessage (TextArray ts) (Some \<lparr> mtc_id = i, mtc_arguments = json_object V input, mtc_name = n \<rparr>),
      ToolMessage (TextArray rs) i]"

fun anthropic_picture :: "picture \<Rightarrow> image_source" where
  "anthropic_picture (Linked link) = UrlSource link"
| "anthropic_picture (Inline media data) = Base64Source data media"

fun anthropic_part :: "input_part \<Rightarrow> 'v block_param" where
  "anthropic_part (InputText t) = TextParam t"
| "anthropic_part (InputPicture p) = ImageParam (anthropic_picture p)"

fun anthropic_turn :: "'v turn \<Rightarrow> 'v message_param list" where
  "anthropic_turn (UserTurn ps) = [\<lparr> mp_role = User, mp_content = ArrayContent (map anthropic_part ps) \<rparr>]"
| "anthropic_turn (AnswerTurn ts) = [\<lparr> mp_role = Assistant, mp_content = ArrayContent (map TextParam ts) \<rparr>]"
| "anthropic_turn (CallTurn ts i n input rs) =
     [\<lparr> mp_role = Assistant, mp_content = ArrayContent (map TextParam ts @ [ToolUseParam i n input]) \<rparr>,
      \<lparr> mp_role = User, mp_content = ArrayContent [ToolResultParam i (Some (ResultArray (map ResultText rs))) False] \<rparr>]"

text \<open>A linked picture must not look like an inline one.\<close>

fun linked_plainly :: "input_part \<Rightarrow> bool" where
  "linked_plainly (InputPicture (Linked link)) \<longleftrightarrow> \<not> starts_with link DATA_IMAGE_PREFIX"
| "linked_plainly _ \<longleftrightarrow> True"

fun turn_plain :: "'v turn \<Rightarrow> bool" where
  "turn_plain (UserTurn ps) \<longleftrightarrow> list_all linked_plainly ps"
| "turn_plain _ \<longleftrightarrow> True"

text \<open>The protocols differ in the flag \<open>is_agentic\<close> of the user's messages, which only Anthropic requests set.\<close>

definition unflag_messages :: "messages \<Rightarrow> messages" where
  "unflag_messages ms = ms\<lparr> ms_inner := map (cm_is_agentic_update (\<lambda>_. False)) (ms_inner ms) \<rparr>"

definition unflag :: "conv_state \<Rightarrow> conv_state" where
  "unflag st = st\<lparr> cv_messages := unflag_messages (cv_messages st) \<rparr>"

lemma picture_agree:
  "linked_plainly (InputPicture p) \<Longrightarrow> openai_image V (openai_picture p) = anthropic_image V (anthropic_picture p)"
proof (cases p)
  case (Linked link)
  then show "linked_plainly (InputPicture p) \<Longrightarrow> ?thesis" by (simp add: openai_image_def strip_prefix_def)
next
  case (Inline media data)
  let ?f = "case media of ImagePng \<Rightarrow> bytes_of ''png'' | ImageJpeg \<Rightarrow> bytes_of ''jpeg'' | ImageGif \<Rightarrow> bytes_of ''gif'' | ImageWebp \<Rightarrow> bytes_of ''webp''"
  have "bytes_of ''data:'' @ as_mime media = DATA_IMAGE_PREFIX @ ?f" by (cases media; hypsubst; code_simp)
  then have pic: "openai_picture p = DATA_IMAGE_PREFIX @ ?f @ BASE64_SEPARATOR @ data" using Inline by (metis append.assoc openai_picture.simps(2))
  have "\<not> str_contains (?f @ butlast BASE64_SEPARATOR) BASE64_SEPARATOR" by (cases media; hypsubst; code_simp)
  then have split: "split_once_str BASE64_SEPARATOR (?f @ BASE64_SEPARATOR @ data) = Some (?f, data)"
    by (rule split_once_str_unique) code_simp
  have "strip_prefix (openai_picture p) DATA_IMAGE_PREFIX = Some (?f @ BASE64_SEPARATOR @ data)"
    unfolding pic strip_prefix_def using starts_with_append [of DATA_IMAGE_PREFIX] by simp
  then have img: "openai_image V (openai_picture p) = Inl (openai_base64_image V (?f @ BASE64_SEPARATOR @ data))"
    by (simp add: openai_image_def)
  have fmt: "(if ?f = bytes_of ''png'' then Some Png
      else if ?f = bytes_of ''jpg'' \<or> ?f = bytes_of ''jpeg'' then Some Jpeg
      else if ?f = bytes_of ''gif'' then Some Gif
      else if ?f = bytes_of ''webp'' then Some WebP else None) = Some (media_format media)"
    by (cases media; hypsubst; code_simp)
  show ?thesis unfolding img openai_base64_image_def split option.case prod.case fmt using Inline by simp
qed

lemma parts_agree:
  "list_all linked_plainly ps \<Longrightarrow>
   user_blocks V image_support (map anthropic_part ps) texts images [] u =
     (case user_parts V image_support (map openai_part ps) texts images u of
        Inl e \<Rightarrow> Inl e
      | Inr (texts', images', u') \<Rightarrow> Inr (texts', images', [], u'))"
proof (induction ps arbitrary: texts images u)
  case (Cons p ps)
  show ?case
  proof (cases p)
    case (InputPicture q)
    then have "openai_image V (openai_picture q) = anthropic_image V (anthropic_picture q)" using Cons.prems picture_agree by auto
    then show ?thesis using Cons InputPicture by (auto split: sum.splits)
  qed (use Cons in simp)
qed simp

lemma assistant_texts: "assistant_blocks (map TextParam ts) = (ts, [])"
  by (induction ts) simp_all

lemma pop_texts:
  "pop_tool_use (map TextParam ts) = (None, map TextParam ts)"
  "pop_tool_use (map TextParam ts @ [ToolUseParam i n input]) = (Some (i, n, input), map TextParam ts)"
  by (cases ts rule: rev_cases) (simp_all add: pop_tool_use_def)

lemma result_parts_agree: "add_parts (result_part V) (map ResultText rs) b = add_parts (\<lambda>t. Inr (RawText t)) rs b"
  by (induction rs arbitrary: b) simp_all

lemma unflag_messages_eq_iff: "unflag_messages a = unflag_messages b \<longleftrightarrow>
    map (cm_is_agentic_update (\<lambda>_. False)) (ms_inner a) = map (cm_is_agentic_update (\<lambda>_. False)) (ms_inner b) \<and> ms_headers a = ms_headers b"
  by (cases a; cases b; simp add: unflag_messages_def)

lemma unflag_eq_iff: "unflag a = unflag b \<longleftrightarrow> unflag_messages (cv_messages a) = unflag_messages (cv_messages b) \<and>
    cv_base a = cv_base b \<and> cv_rand a = cv_rand b"
  by (cases a; cases b; simp add: unflag_def)

lemma unflag_finish:
  assumes "unflag st1 = unflag st2"
  shows "unflag (finish_message V is_user f1 is_agentic text images links thinking next u rnd (cv_messages st1)) =
     unflag (finish_message V is_user f2 is_agentic text images links thinking next u rnd (cv_messages st2))"
  using assms by (cases is_user; cases "next")
    (simp_all add: unflag_eq_iff unflag_messages_eq_iff finish_message_def messages_push_def header_of_def case_prod_beta Let_def)

lemma unflag_same: "unflag st1 = unflag st2 \<Longrightarrow> cv_base st1 = cv_base st2 \<and> cv_rand st1 = cv_rand st2"
  by (simp add: unflag_eq_iff)

abbreviation unflag_result :: "(adapter_error + conv_state) outcome \<Rightarrow> (adapter_error + conv_state) outcome" where
  "unflag_result \<equiv> map_outcome (map_sum (\<lambda>e. e) unflag)"

lemma answers_agree:
  "openai_answer_of None ps = None"
  "openai_answer_of (Some \<lparr> mtc_id = i, mtc_arguments = a, mtc_name = n \<rparr>) (ToolMessage c i # ps) =
     Some (\<lparr> mtc_id = i, mtc_arguments = a, mtc_name = n \<rparr>, c, i)"
  "anthropic_answer_of None qs = None"
  "anthropic_answer_of (Some (i, n, input)) (\<lparr> mp_role = User, mp_content = ArrayContent [ToolResultParam i answer e] \<rparr> # qs) =
     Some (i, n, input, answer, e)"
  by (simp_all add: openai_answer_of_def anthropic_answer_of_def)

lemma loops_agree:
  "list_all turn_plain ts \<Longrightarrow> unflag st1 = unflag st2 \<Longrightarrow>
   unflag_result (anthropic_loop V image_support is_agentic (concat (map anthropic_turn ts)) st1) =
     unflag_result (openai_loop V image_support is_agentic (concat (map (openai_turn V) ts)) st2)"
proof (induction ts arbitrary: st1 st2)
  case (Cons t ts)
  have same: "cv_base st1 = cv_base st2" "cv_rand st1 = cv_rand st2" using unflag_same [OF Cons.prems(2)] by simp_all
  have plain: "list_all turn_plain ts" using Cons.prems(1) by simp
  note agree = Cons.IH [OF plain unflag_finish [OF Cons.prems(2)]]
  show ?case
  proof (cases t)
    case (UserTurn ps)
    then have "list_all linked_plainly ps" using Cons.prems(1) by simp
    then show ?thesis using UserTurn same by (auto simp: parts_agree split: sum.splits prod.splits intro!: agree)
  next
    case (AnswerTurn as)
    then show ?thesis using same by (auto simp: pop_texts assistant_texts answers_agree merge_thinking_def intro!: agree)
  next
    case (CallTurn as i n input rs)
    have result: "tool_result_text V (result_part V) (map ResultText rs) False = tool_result_text V (\<lambda>t. Inr (RawText t)) rs False"
      by (simp add: tool_result_text_def result_parts_agree)
    obtain r where r: "tool_result_text V (\<lambda>t. Inr (RawText t)) rs False = Done r" using tool_result_text_done by blast
    show ?thesis
    proof (cases r)
      case (Inr out)
      obtain m where "tool_message V is_agentic n (json_object V input) out i (cv_rand st2) = Done m" using tool_message_done by blast
      then show ?thesis using CallTurn same result r Inr
        by (auto simp: pop_texts assistant_texts answers_agree merge_thinking_def intro!: agree)
    qed (use CallTurn result r in \<open>simp add: pop_texts assistant_texts answers_agree\<close>)
  qed
qed simp

lemma seal_agree:
  assumes "unflag_messages a = unflag_messages b"
  shows "unflag_messages (fst (seal_messages tools a)) = unflag_messages (fst (seal_messages tools b))"
    and "snd (seal_messages tools a) = snd (seal_messages tools b)"
proof -
  let ?clear = "cm_is_agentic_update (\<lambda>_. False)"
  have eq: "map ?clear (ms_inner a) = map ?clear (ms_inner b)" "ms_headers a = ms_headers b"
    using assms by (simp_all add: unflag_messages_eq_iff)
  have "unflag_messages (fst (seal_messages tools a)) = unflag_messages (fst (seal_messages tools b)) \<and>
      snd (seal_messages tools a) = snd (seal_messages tools b)"
  proof (cases "ms_inner a" rule: rev_cases)
    case Nil
    then show ?thesis using eq assms by (simp add: seal_messages_def)
  next
    case (snoc xs x)
    then obtain ys y where b: "ms_inner b = ys @ [y]" "map ?clear xs = map ?clear ys" "?clear x = ?clear y"
      using eq(1) by (cases "ms_inner b" rule: rev_cases) auto
    then have "cm_external_links x = cm_external_links y" "?clear (x\<lparr> cm_supported_tools := tools \<rparr>) = ?clear (y\<lparr> cm_supported_tools := tools \<rparr>)"
      by (cases x; cases y; simp)+
    then show ?thesis using snoc b eq by (simp add: seal_messages_def unflag_messages_eq_iff)
  qed
  then show "unflag_messages (fst (seal_messages tools a)) = unflag_messages (fst (seal_messages tools b))"
    and "snd (seal_messages tools a) = snd (seal_messages tools b)" by simp_all
qed

lemma openai_turns_plain:
  "filter is_system (concat (map (openai_turn V) ts)) = []"
  "filter (\<lambda>p. \<not> is_system p) (concat (map (openai_turn V) ts)) = concat (map (openai_turn V) ts)"
proof -
  have "\<not> is_system m" if "m \<in> set (openai_turn V t)" for m t using that by (cases t) auto
  then show "filter is_system (concat (map (openai_turn V) ts)) = []"
    "filter (\<lambda>p. \<not> is_system p) (concat (map (openai_turn V) ts)) = concat (map (openai_turn V) ts)"
    by (auto simp: filter_empty_conv filter_id_conv)
qed

lemma turns_empty:
  "concat (map anthropic_turn ts) = [] \<longleftrightarrow> ts = []" "concat (map (openai_turn V) ts) = [] \<longleftrightarrow> ts = []"
proof -
  have "anthropic_turn t \<noteq> []" "openai_turn V t \<noteq> []" for t by (cases t; simp)+
  then show "concat (map anthropic_turn ts) = [] \<longleftrightarrow> ts = []" "concat (map (openai_turn V) ts) = [] \<longleftrightarrow> ts = []"
    by (cases ts; simp)+
qed

lemma padded_agree:
  fixes V :: "'v adapter_env"
  assumes "list_all turn_plain ts" and "ts \<noteq> []"
  defines "A \<equiv> concat (map anthropic_turn ts)" and "B \<equiv> concat (map (openai_turn V) ts)"
  shows "unflag_result (anthropic_loop V image_support is_agentic
      (if mp_role (hd A) = Assistant then \<lparr> mp_role = User, mp_content = StringContent [] \<rparr> # A else A) st) =
    unflag_result (openai_loop V image_support is_agentic
      (if is_assistant (hd B) then UserMessage (ContentString []) # B else B) st)"
proof -
  have "mp_role (hd A) = Assistant \<longleftrightarrow> is_assistant (hd B)"
    using assms(2) unfolding A_def B_def by (cases ts; cases "hd ts") auto
  then show ?thesis using assms(1) unfolding A_def B_def by (auto intro!: loops_agree unflag_finish)
qed

lemma sealed_agree:
  assumes "unflag_result L1 = unflag_result L2"
  shows "map_outcome (map_sum (\<lambda>e. e) (\<lambda>(i, ms, links). (i, unflag_messages ms, links)))
      (bind_outcome L1 (\<lambda>r. case r of Inl e \<Rightarrow> Done (Inl e)
        | Inr st \<Rightarrow> (let (ms, links) = seal_messages tools (cv_messages st) in Done (Inr (i, ms, links))))) =
    map_outcome (map_sum (\<lambda>e. e) (\<lambda>(i, ms, links). (i, unflag_messages ms, links)))
      (bind_outcome L2 (\<lambda>r. case r of Inl e \<Rightarrow> Done (Inl e)
        | Inr st \<Rightarrow> (let (ms, links) = seal_messages tools (cv_messages st) in Done (Inr (i, ms, links)))))"
proof (cases "\<exists>st1 st2. L1 = Done (Inr st1) \<and> L2 = Done (Inr st2)")
  case True
  then obtain st1 st2 where L: "L1 = Done (Inr st1)" "L2 = Done (Inr st2)" by blast
  then have "unflag_messages (cv_messages st1) = unflag_messages (cv_messages st2)" using assms by (simp add: unflag_eq_iff)
  from seal_agree [OF this, of tools] L show ?thesis by (simp add: case_prod_beta)
next
  case False
  then show ?thesis using assms by (cases L1; cases L2; auto split: sum.splits)
qed

definition without_flags :: "('e + str \<times> messages \<times> external_link list) outcome \<Rightarrow> ('e + str \<times> messages \<times> external_link list) outcome" where
  "without_flags = map_outcome (map_sum (\<lambda>e. e) (\<lambda>(i, ms, links). (i, unflag_messages ms, links)))"

definition with_instructions :: "str \<Rightarrow> ('e + str \<times> messages \<times> external_link list) outcome \<Rightarrow> ('e + str \<times> messages \<times> external_link list) outcome" where
  "with_instructions t = map_outcome (map_sum (\<lambda>e. e) (\<lambda>(i, r). (t, r)))"

definition openai_system :: "str option \<Rightarrow> openai_message list" where
  "openai_system system = (case system of None \<Rightarrow> [] | Some t \<Rightarrow> [SystemMessage (TextString t)])"

lemma params_agree:
  assumes plain: "list_all turn_plain ts" and system: "system \<noteq> Some []"
  shows "without_flags (anthropic_params V tools u image_support is_agentic (concat (map anthropic_turn ts), map_option SystemString system)) =
    without_flags (openai_params V tools u image_support is_agentic (openai_system system @ concat (map (openai_turn V) ts)))"
proof -
  let ?O = "openai_system system @ concat (map (openai_turn V) ts)"
  let ?i = "case system of None \<Rightarrow> default_text V | Some t \<Rightarrow> t"
  have sys: "join_with [0x0A, 0x0A] (map system_text (filter is_system ?O)) = (case system of None \<Rightarrow> [] | Some t \<Rightarrow> t)"
    and rest: "filter (\<lambda>p. \<not> is_system p) ?O = concat (map (openai_turn V) ts)"
    by (cases system; simp add: openai_turns_plain openai_system_def)+
  have i: "(if (case system of None \<Rightarrow> [] | Some t \<Rightarrow> t) = [] then default_text V else case system of None \<Rightarrow> [] | Some t \<Rightarrow> t) = ?i"
    "(case map_option SystemString system of Some (SystemString t) \<Rightarrow> t | Some (SystemArray ts) \<Rightarrow> join_with [0x0A] ts | None \<Rightarrow> default_text V) = ?i"
    using system by (cases system; simp)+
  show ?thesis
  proof (cases "ts = []")
    case True
    then show ?thesis using system by (cases system) (simp_all add: openai_params_def anthropic_params_def openai_system_def)
  next
    case False
    then show ?thesis using sealed_agree [OF padded_agree [OF plain False]]
      unfolding openai_params_def anthropic_params_def without_flags_def prod.case sys rest i Let_def turns_empty by (simp only: if_False simp_thms)
  qed
qed

text \<open>What an empty system prompt changes: the instructions of Anthropic, nothing of OpenAI.\<close>

lemma anthropic_empty_system:
  "anthropic_params V tools u image_support is_agentic (ps, Some (SystemString t)) =
   with_instructions t (anthropic_params V tools u image_support is_agentic (ps, None))"
proof (cases "ps = []")
  case False
  let ?L = "anthropic_loop V image_support is_agentic (if mp_role (hd ps) = Assistant
    then \<lparr> mp_role = User, mp_content = StringContent [] \<rparr> # ps else ps) \<lparr> cv_messages = messages_new, cv_base = u, cv_rand = 0 \<rparr>"
  show ?thesis using False
    by (cases ?L) (auto simp: anthropic_params_def with_instructions_def Let_def case_prod_beta split: sum.splits)
qed (simp add: anthropic_params_def with_instructions_def)

lemma openai_empty_system:
  "openai_params V tools u image_support is_agentic (openai_system (Some []) @ concat (map (openai_turn V) ts)) =
   openai_params V tools u image_support is_agentic (openai_system None @ concat (map (openai_turn V) ts))"
  by (simp add: openai_params_def openai_system_def openai_turns_plain)

lemma openai_default_instructions:
  "with_instructions (default_text V) (openai_params V tools u image_support is_agentic (concat (map (openai_turn V) ts))) =
   openai_params V tools u image_support is_agentic (concat (map (openai_turn V) ts))"
proof (cases "ts = []")
  case False
  let ?ps = "concat (map (openai_turn V) ts)"
  let ?L = "openai_loop V image_support is_agentic (if is_assistant (hd ?ps) then UserMessage (ContentString []) # ?ps else ?ps)
    \<lparr> cv_messages = messages_new, cv_base = u, cv_rand = 0 \<rparr>"
  have "?ps \<noteq> []" using False by (simp only: turns_empty not_False_eq_True)
  then show ?thesis
    by (cases ?L) (auto simp: openai_params_def openai_turns_plain with_instructions_def Let_def case_prod_beta split: sum.splits)
qed (simp only: openai_params_def, simp add: with_instructions_def Let_def)

lemma without_flags_instructions: "without_flags (with_instructions t r) = with_instructions t (without_flags r)"
  by (cases r; cases "case r of Done x \<Rightarrow> x | _ \<Rightarrow> undefined") (auto simp: without_flags_def with_instructions_def split: outcome.splits)

text \<open>C18: a conversation of turns gives the backend the same request whichever protocol the client speaks: the same messages,
  headers, images, tool results, ids, links and instructions, or the same error.  Apart from the flag \<open>is_agentic\<close> of the
  user's messages only one thing differs: an empty system prompt is sent as it is for an Anthropic request, and replaced by
  the default instructions for an OpenAI request.\<close>

theorem protocols_agree:
  assumes "list_all turn_plain ts"
  shows "let anthropic = without_flags (anthropic_params V tools u image_support is_agentic
        (concat (map anthropic_turn ts), map_option SystemString system));
      openai = without_flags (openai_params V tools u image_support is_agentic
        (openai_system system @ concat (map (openai_turn V) ts)))
    in (system \<noteq> Some [] \<longrightarrow> anthropic = openai) \<and>
       (system = Some [] \<longrightarrow> anthropic = with_instructions [] openai \<and> openai = with_instructions (default_text V) openai)"
proof (cases "system = Some []")
  case True
  show ?thesis
    using params_agree [OF assms, of None V tools u image_support is_agentic]
      without_flags_instructions [of "default_text V" "openai_params V tools u image_support is_agentic (concat (map (openai_turn V) ts))"]
    unfolding True Let_def openai_empty_system openai_default_instructions
    by (simp add: anthropic_empty_system without_flags_instructions openai_system_def openai_default_instructions)
qed (simp add: Let_def params_agree [OF assms])

section \<open>Where conversations lose something\<close>

fun is_tool_result :: "'v block_param \<Rightarrow> bool" where
  "is_tool_result (ToolResultParam _ _ _) \<longleftrightarrow> True"
| "is_tool_result _ \<longleftrightarrow> False"

lemma tool_results_skipped:
  "list_all is_tool_result rs \<Longrightarrow> user_blocks V image_support rs texts images links u = Inr (texts, images, links, u)"
proof (induction rs)
  case (Cons r rs)
  then show ?case by (cases r) simp_all
qed simp

lemma several_results_no_answer:
  assumes "2 \<le> length rs"
  shows "anthropic_answer_of call (\<lparr> mp_role = User, mp_content = ArrayContent rs \<rparr> # ps) = None"
proof -
  obtain a b r where "rs = a # b # r" using assms by (cases rs; cases "tl rs") auto
  then show ?thesis by (cases a) (auto simp: anthropic_answer_of_def split: option.splits)
qed

lemma finish_message_inner:
  "\<exists>m. ms_inner (cv_messages (finish_message V is_user flag is_agentic text images links thinking None u rnd ms)) = ms_inner ms @ [m] \<and>
     cm_tool_results m = [] \<and> cm_type m = (if is_user then Human else Ai) \<and> (is_user \<longrightarrow> cm_text m = text)"
  by (auto simp: finish_message_def messages_push_def case_prod_beta Let_def)

text \<open>The results of several tools that ran in parallel, which Anthropic clients send in one message, are lost: the
  conversation has no tool results, and in their place an empty message of the user.\<close>

theorem parallel_results_lost:
  assumes "list_all is_tool_result rs" and "2 \<le> length rs"
  shows "\<exists>instructions ms links.
    anthropic_params V tools u image_support is_agentic
      ([\<lparr> mp_role = User, mp_content = StringContent question \<rparr>, \<lparr> mp_role = Assistant, mp_content = ArrayContent bs \<rparr>,
        \<lparr> mp_role = User, mp_content = ArrayContent rs \<rparr>], system) = Done (Inr (instructions, ms, links)) \<and>
    map cm_type (ms_inner ms) = [Human, Ai, Human] \<and> concat (map cm_tool_results (ms_inner ms)) = [] \<and> cm_text (last (ms_inner ms)) = []"
proof -
  define st0 where "st0 = \<lparr> cv_messages = messages_new, cv_base = u, cv_rand = 0 \<rparr>"
  define st1 where "st1 = finish_message V True is_agentic is_agentic question [] [] None None (cv_base st0) (cv_rand st0) (cv_messages st0)"
  define st2 where "st2 = finish_message V False False is_agentic (join_with [0x0A] (fst (assistant_blocks (snd (pop_tool_use bs))))) [] []
    (merge_thinking (snd (assistant_blocks (snd (pop_tool_use bs))))) None (cv_base st1) (cv_rand st1) (cv_messages st1)"
  define st3 where "st3 = finish_message V True is_agentic is_agentic [] [] [] None None (cv_base st2) (cv_rand st2) (cv_messages st2)"
  have "anthropic_loop V image_support is_agentic
      [\<lparr> mp_role = User, mp_content = StringContent question \<rparr>, \<lparr> mp_role = Assistant, mp_content = ArrayContent bs \<rparr>,
       \<lparr> mp_role = User, mp_content = ArrayContent rs \<rparr>] st0 = Done (Inr st3)"
    by (simp add: st1_def st2_def st3_def several_results_no_answer [OF assms(2)] tool_results_skipped [OF assms(1)] case_prod_beta)
  moreover obtain a b c where "ms_inner (cv_messages st3) = [a, b, c]" "cm_type a = Human" "cm_type b = Ai" "cm_type c = Human"
      "cm_tool_results a = []" "cm_tool_results b = []" "cm_tool_results c = []" "cm_text c = []"
    using finish_message_inner [of V True is_agentic is_agentic question "[]" "[]" None "cv_base st0" "cv_rand st0" "cv_messages st0"]
      finish_message_inner [of V False False is_agentic "join_with [0x0A] (fst (assistant_blocks (snd (pop_tool_use bs))))" "[]" "[]"
        "merge_thinking (snd (assistant_blocks (snd (pop_tool_use bs))))" "cv_base st1" "cv_rand st1" "cv_messages st1"]
      finish_message_inner [of V True is_agentic is_agentic "[]" "[]" "[]" None "cv_base st2" "cv_rand st2" "cv_messages st2"]
    unfolding st1_def [symmetric] st2_def [symmetric] st3_def [symmetric] by (auto simp: st0_def messages_new_def)
  ultimately show ?thesis by (simp add: anthropic_params_def st0_def seal_messages_def case_prod_beta)
qed

lemma add_texts: "\<exists>b'. add_parts (\<lambda>t. Inr (RawText t)) ts b = Inr b'"
  by (induction ts arbitrary: b) simp_all

lemma text_result: "\<exists>r. tool_result_text V (\<lambda>t. Inr (RawText t)) ts e = Done (Inr r)"
  using add_texts [of ts "builder_new e"] by (auto simp: tool_result_text_def builder_build_eq)

lemma tool_message_links: "tool_message V is_agentic name raw_args result tid rnd = Done m \<Longrightarrow> cm_external_links m = []"
  using tool_message_ids [of V is_agentic name raw_args result tid rnd m] by (simp add: message_ids_def)

text \<open>The links of a request are those of its last message, which after a tool call is the tool's result: the links in
  the last message of the user, which the comment at that place names, stay in that message only.\<close>

theorem links_lost_after_tool_call:
  "\<exists>instructions ms.
    openai_params V tools u image_support is_agentic
      (concat (map (openai_turn V) [UserTurn [InputText question], CallTurn answer i n input results])) = Done (Inr (instructions, ms, [])) \<and>
    cm_external_links (hd (ms_inner ms)) = number_links u (marked_words (url_scheme V) question)"
proof -
  define st where "st = finish_message V True False is_agentic question [] [] None None u 0 messages_new"
  obtain r where r: "tool_result_text V (\<lambda>t. Inr (RawText t)) results False = Done (Inr r)" using text_result by blast
  obtain m where m: "tool_message V is_agentic n (json_object V input) r i (cv_rand st) = Done m" using tool_message_done by blast
  have loop: "openai_loop V image_support is_agentic (concat (map (openai_turn V) [UserTurn [InputText question], CallTurn answer i n input results]))
      \<lparr> cv_messages = messages_new, cv_base = u, cv_rand = 0 \<rparr> =
    Done (Inr (finish_message V False False is_agentic (join_with [0x0A] answer) [] [] None (Some m) (cv_base st) (cv_rand st + 2) (cv_messages st)))"
    using m by (simp add: st_def [symmetric] answers_agree r)
  have first: "\<exists>q. ms_inner (cv_messages st) = [q] \<and> cm_external_links q = number_links u (marked_words (url_scheme V) question)"
    by (auto simp: st_def finish_message_def messages_push_def messages_new_def extract_external_links_eq Let_def)
  have "\<exists>a. ms_inner (cv_messages (finish_message V False False is_agentic (join_with [0x0A] answer) [] [] None (Some m) (cv_base st)
      (cv_rand st + 2) (cv_messages st))) = ms_inner (cv_messages st) @ [a, m]"
    by (auto simp: finish_message_def messages_push_def case_prod_beta Let_def)
  then show ?thesis using first loop tool_message_links [OF m]
    by (auto simp: openai_params_def seal_messages_def)
qed

section \<open>Concrete conversations\<close>

text \<open>Backends for the examples: no links, no images, and texts as they are.\<close>

definition example_env :: "bool adapter_env" where
  "example_env = \<lparr> vision = VisionBase64, url_scheme = (\<lambda>_. None), b64_decode = Some, b64_encode = (\<lambda>b. b),
     http_get = (\<lambda>_. Inl SendFailed), guess_format = (\<lambda>_. None), image_dimension = (\<lambda>_ _. None), animated_gif = (\<lambda>_. False),
     json_text = (\<lambda>t. t), json_object = (\<lambda>_. bytes_of ''{}''), default_text = bytes_of ''hi'', new_uuid = decimal \<rparr>"

definition example_turns :: "bool turn list" where
  "example_turns = [UserTurn [InputText (bytes_of ''q''), InputPicture (Inline ImagePng (bytes_of ''px''))],
     CallTurn [bytes_of ''a''] (bytes_of ''t1'') (bytes_of ''run'') [] [bytes_of ''ok'']]"

lemma example_turns_plain: "list_all turn_plain example_turns"
  by (simp add: example_turns_def)

theorem protocols_agree_witness:
  "without_flags (anthropic_params example_env [Mcp] 7 True True (concat (map anthropic_turn example_turns), None)) =
     without_flags (openai_params example_env [Mcp] 7 True True (concat (map (openai_turn example_env) example_turns))) \<and>
   without_flags (anthropic_params example_env [Mcp] 7 True True (concat (map anthropic_turn example_turns), Some (SystemString []))) =
     with_instructions [] (without_flags (openai_params example_env [Mcp] 7 True True
       (SystemMessage (TextString []) # concat (map (openai_turn example_env) example_turns))))"
  using protocols_agree [OF example_turns_plain, of example_env "[Mcp]" 7 True True None]
    protocols_agree [OF example_turns_plain, of example_env "[Mcp]" 7 True True "Some []"]
  by (simp add: openai_system_def Let_def)

theorem anthropic_params_total_witness:
  "\<exists>r. anthropic_params example_env [Mcp] 7 True True
     ([\<lparr> mp_role = User, mp_content = StringContent (bytes_of ''q'') \<rparr>, \<lparr> mp_role = Assistant, mp_content = ArrayContent [] \<rparr>], None) = Done r"
proof (rule anthropic_params_total)
  have "deserialize_anthropic_role (bytes_of ''user'') = Some User" "deserialize_anthropic_role (bytes_of ''assistant'') = Some Assistant"
    by code_simp+
  then show "list_all (\<lambda>p. \<exists>s. deserialize_anthropic_role s = Some (mp_role p))
      [\<lparr> mp_role = User, mp_content = StringContent (bytes_of ''q'') \<rparr>, \<lparr> mp_role = Assistant, mp_content = ArrayContent [] \<rparr>]"
    by auto
qed

theorem parallel_results_lost_witness:
  "\<exists>instructions ms links.
    anthropic_params example_env [Mcp] 7 True True
      ([\<lparr> mp_role = User, mp_content = StringContent (bytes_of ''q'') \<rparr>,
        \<lparr> mp_role = Assistant, mp_content = ArrayContent [ToolUseParam (bytes_of ''1'') (bytes_of ''f'') [], ToolUseParam (bytes_of ''2'') (bytes_of ''g'') []] \<rparr>,
        \<lparr> mp_role = User, mp_content = ArrayContent [ToolResultParam (bytes_of ''1'') None False, ToolResultParam (bytes_of ''2'') None False] \<rparr>], None) =
      Done (Inr (instructions, ms, links)) \<and>
    map cm_type (ms_inner ms) = [Human, Ai, Human] \<and> concat (map cm_tool_results (ms_inner ms)) = [] \<and> cm_text (last (ms_inner ms)) = []"
  by (rule parallel_results_lost) simp_all

lemma example_converted:
  "anthropic_params example_env [Mcp] 65535 True True ([\<lparr> mp_role = User, mp_content = ArrayContent
      [ImageParam (Base64Source [] ImagePng), DocumentParam (Base64Document [])] \<rparr>], None) =
     Done (Inr (bytes_of ''hi'',
       \<lparr> ms_inner = [message_default\<lparr> cm_type := Human, cm_images := [\<lparr> im_data = [], im_dimension = None, im_uuid = decimal 65535 \<rparr>],
             cm_bubble_id := decimal 0, cm_is_agentic := True, cm_unified_mode := Agent, cm_supported_tools := [Mcp],
             cm_external_links := [\<lparr> link_url = [], link_uuid = decimal 0, pdf_content = [], is_pdf = True, filename = bytes_of ''document.pdf'' \<rparr>] \<rparr>],
         ms_headers = [\<lparr> mh_bubble_id = decimal 0, mh_server_bubble_id = None, mh_type = Human \<rparr>] \<rparr>,
       [\<lparr> link_url = [], link_uuid = decimal 0, pdf_content = [], is_pdf = True, filename = bytes_of ''document.pdf'' \<rparr>]))"
  by (simp add: anthropic_params_def example_env_def process_image_def process_base64_image_def add_and_to_string_def finish_message_def
      extract_external_links_eq messages_new_def messages_push_def seal_messages_def header_of_def message_default_def mode_of_def Let_def)

theorem anthropic_conversation_consistent_witness:
  "\<exists>ms links. anthropic_params example_env [Mcp] 65535 True True ([\<lparr> mp_role = User, mp_content = ArrayContent
      [ImageParam (Base64Source [] ImagePng), DocumentParam (Base64Document [])] \<rparr>], None) = Done (Inr (bytes_of ''hi'', ms, links)) \<and>
    ms_headers ms = map header_of (ms_inner ms) \<and> length (concat (map message_ids (ms_inner ms))) = 2 \<and>
    distinct (concat (map message_ids (ms_inner ms)))"
  using example_converted anthropic_conversation_consistent [OF example_converted]
  by (auto simp: message_ids_def message_default_def)

end
