(* ===== verification/Models_Proofs.thy ===== *)
theory Models_Proofs
  imports Models
begin

text \<open>Properties of the models: the table and its index stay consistent, advertised names resolve, and where names go wrong.\<close>

section \<open>The index\<close>

lemma find_table_append:
  "find_table src (ms @ [m]) = (find_table src ms)(model_id src m \<mapsto> length ms)"
  by (simp add: find_table_def)

lemma find_table_Some:
  "find_table src ms s = Some i \<Longrightarrow> i < length ms \<and> model_id src (ms ! i) = s"
proof (induction ms rule: rev_induct)
  case Nil
  then show ?case by (simp add: find_table_def)
next
  case (snoc m ms)
  then show ?case by (auto simp: find_table_append nth_append split: if_splits)
qed

lemma find_table_None: "find_table src ms s = None \<longleftrightarrow> s \<notin> set (map (model_id src) ms)"
proof (induction ms rule: rev_induct)
  case Nil
  then show ?case by (simp add: find_table_def)
next
  case (snoc m ms)
  then show ?case by (auto simp: find_table_append)
qed

definition models_inv :: "id_source \<Rightarrow> models \<times> id_pool \<Rightarrow> bool" where
  "models_inv src st \<longleftrightarrow> mo_find_ids (fst st) = find_table src (mo_models (fst st)) \<and> pool_ok (snd st)"

text \<open>What a lookup should give.\<close>

definition found_model :: "id_source \<Rightarrow> models \<Rightarrow> str \<Rightarrow> model option \<Rightarrow> bool" where
  "found_model src M s r \<longleftrightarrow>
     (case r of Some m \<Rightarrow> m \<in> set (mo_models M) \<and> model_id src m = s | None \<Rightarrow> s \<notin> set (map (model_id src) (mo_models M)))"

lemma find_id_found: "models_inv src (M, pool) \<Longrightarrow> \<exists>r. find_id M s = Done r \<and> found_model src M s r"
  using find_table_Some [of src "mo_models M" s] find_table_None [of src "mo_models M" s]
  by (cases "find_table src (mo_models M) s") (auto simp: models_inv_def find_id_def found_model_def)

section \<open>Names\<close>

lemma get_static_id_ok: "pool_ok pool \<Longrightarrow> \<exists>i pool'. get_static_id sb s pool = (Done i, pool') \<and> pool_ok pool'"
  using leak_intern_eq [of pool sb s] by (auto simp: get_static_id_def split: option.splits)

lemma other_id_ok: "pool_ok pool \<Longrightarrow> \<exists>j pool'. other_id sb name i pool = (Done j, pool') \<and> pool_ok pool'"
  using get_static_id_ok [of pool sb] by (auto simp: other_id_def split: option.splits)

lemma convert_model_ok: "pool_ok pool \<Longrightarrow> \<exists>m pool'. convert_model sb a pool = Done (m, pool') \<and> pool_ok pool'"
proof -
  assume ok: "pool_ok pool"
  obtain i p1 where 1: "get_static_id sb (am_name a) pool = (Done i, p1)" "pool_ok p1" using get_static_id_ok [OF ok] by blast
  obtain c p2 where 2: "other_id sb (am_client_display_name a) i p1 = (Done c, p2)" "pool_ok p2" using other_id_ok [OF 1(2)] by blast
  obtain v p3 where 3: "other_id sb (am_server_model_name a) i p2 = (Done v, p3)" "pool_ok p3" using other_id_ok [OF 2(2)] by blast
  show ?thesis using 1 2 3 by (simp add: convert_model_def)
qed

lemma convert_all_ok: "pool_ok pool \<Longrightarrow> \<exists>ms pool'. convert_all sb as pool = Done (ms, pool') \<and> pool_ok pool'"
proof (induction as arbitrary: pool)
  case (Cons a as)
  obtain m p1 where 1: "convert_model sb a pool = Done (m, p1)" "pool_ok p1" using convert_model_ok [OF Cons.prems] by blast
  then show ?case using Cons.IH [OF 1(2)] by auto
qed simp

lemma static_ids_ok: "pool_ok pool \<Longrightarrow> \<exists>is pool'. static_ids sb as pool = Done (is, pool') \<and> pool_ok pool'"
proof (induction as arbitrary: pool)
  case (Cons a as)
  obtain i p1 where 1: "get_static_id sb (am_name a) pool = (Done i, p1)" "pool_ok p1" using get_static_id_ok [OF Cons.prems] by blast
  then show ?case using Cons.IH [OF 1(2)] by auto
qed simp

lemma fetched_models_ok:
  assumes "pool_ok pool"
  shows "\<exists>ms pool'. fetched_models sb mode current av pool = Done (ms, pool') \<and> pool_ok pool'"
proof (cases mode)
  case AppendTruncate
  obtain new p1 where 1: "static_ids sb av pool = Done (new, p1)" "pool_ok p1" using static_ids_ok [OF assms] by blast
  then show ?thesis using AppendTruncate convert_all_ok [OF 1(2), of sb av] by (auto simp: fetched_models_def)
next
  case Append
  then show ?thesis using convert_all_ok [OF assms, of sb "filter (\<lambda>a. am_name a \<notin> md_id ` set current) av"]
    by (auto simp: fetched_models_def)
qed (use convert_all_ok [OF assms, of sb av] in \<open>auto simp: fetched_models_def\<close>)

lemma push_ids_ok: "pool_ok pool \<Longrightarrow> \<exists>b pool'. push_ids sb s (ids, pool) = Done (ids @ [b, b @ SUFFIX], pool') \<and> pool_ok pool'"
  using leak_add_ok [of pool sb s] by (auto simp: push_ids_def)

lemma push_model_ids_ok: "pool_ok pool \<Longrightarrow> \<exists>ids' pool'. push_model_ids sb src m (ids, pool) = Done (ids', pool') \<and> pool_ok pool'"
proof -
  assume "pool_ok pool"
  then obtain b p1 where 1: "push_ids sb (model_id src m) (ids, pool) = Done (ids @ [b, b @ SUFFIX], p1)" "pool_ok p1"
    using push_ids_ok by blast
  then show ?thesis using push_ids_ok [OF 1(2), of sb "model_id src m @ MAX_SUFFIX" "ids @ [b, b @ SUFFIX]"]
    by (auto simp: push_model_ids_def)
qed

lemma push_all_ids_ok: "pool_ok pool \<Longrightarrow> \<exists>ids' pool'. push_all_ids sb src ms (ids, pool) = Done (ids', pool') \<and> pool_ok pool'"
proof (induction ms arbitrary: ids pool)
  case (Cons m ms)
  obtain ids1 p1 where 1: "push_model_ids sb src m (ids, pool) = Done (ids1, p1)" "pool_ok p1"
    using push_model_ids_ok [OF Cons.prems] by blast
  then show ?case using Cons.IH [OF 1(2)] by auto
qed simp

lemma create_models_inv: "\<exists>st. create_models sb src = Done st \<and> models_inv src st"
  using push_all_ids_ok [OF pool_init_ok, of sb src "map table_model model_table" "[]"]
  by (auto simp: create_models_def models_inv_def Let_def)

lemma update_models_inv:
  assumes "models_inv src (M, pool)"
  shows "\<exists>ok M' pool'. update_models sb src mode av M pool = Done (ok, M', pool') \<and> models_inv src (M', pool')"
proof -
  have ok: "pool_ok pool" using assms by (simp add: models_inv_def)
  obtain new p1 where 1: "fetched_models sb mode (mo_models M) av pool = Done (new, p1)" "pool_ok p1"
    using fetched_models_ok [OF ok] by blast
  define ids where "ids = filter (\<lambda>s. \<not> list_ex (\<lambda>m. belongs_to (model_id src m) s)
    (filter (\<lambda>m. model_id src m \<notin> set (map (model_id src) new)) (mo_models M))) (mo_ids M)"
  obtain ids' p2 where 2: "push_all_ids sb src (filter (\<lambda>m. model_id src m \<notin> set (map (model_id src) (mo_models M))) new) (ids, p1) =
      Done (ids', p2)" "pool_ok p2"
    using push_all_ids_ok [OF 1(2)] by blast
  have "update_models sb src mode av M pool = (if av = [] then Done (False, M, pool)
      else if (case mo_raw_models M of Some raw \<Rightarrow> is_subset_equal raw av | None \<Rightarrow> False) then Done (True, M, pool)
      else Done (True, \<lparr> mo_models = new, mo_raw_models = Some av, mo_ids = ids', mo_find_ids = find_table src new \<rparr>, p2))"
    using 1(1) 2(1) by (simp add: update_models_def ids_def Let_def)
  then show ?thesis using assms 2(2) by (cases "av = []") (auto simp: models_inv_def)
qed

lemma ext_model_from_str_ok:
  assumes "models_inv src (M, pool)"
  shows "\<exists>r pool'. ext_model_from_str sb bypass M s pool = Done (r, pool') \<and> pool_ok pool'"
proof -
  have ok: "pool_ok pool" using assms by (simp add: models_inv_def)
  obtain base web where b: "(case strip_suffix s SUFFIX of Some b \<Rightarrow> (b, True) | None \<Rightarrow> (s, False)) = (base, web)" by fastforce
  obtain name mx where n: "(case strip_suffix base MAX_SUFFIX of Some b \<Rightarrow> (b, True) | None \<Rightarrow> (base, False)) = (name, mx)" by fastforce
  obtain r1 r2 where r: "find_id M base = Done r1" "find_id M name = Done r2" using find_id_found [OF assms] by blast
  obtain i p1 where i: "get_static_id sb name pool = (Done i, p1)" "pool_ok p1" using get_static_id_ok [OF ok] by blast
  show ?thesis unfolding ext_model_from_str_def b Let_def prod.case r bind_outcome.simps n i(1)
    using ok i(2) r by (auto split: option.splits)
qed

section \<open>Every reachable instance\<close>

inductive models_step :: "(str \<Rightarrow> str \<Rightarrow> bool) \<Rightarrow> id_source \<Rightarrow> models \<times> id_pool \<Rightarrow> models \<times> id_pool \<Rightarrow> bool" for sb src where
  step_update: "update_models sb src mode av M pool = Done (ok, M', pool') \<Longrightarrow> models_step sb src (M, pool) (M', pool')"
| step_resolve: "ext_model_from_str sb bypass M s pool = Done (r, pool') \<Longrightarrow> models_step sb src (M, pool) (M, pool')"

inductive_cases models_stepE: "models_step sb src st st'"

interpretation models_machine: state_machine "\<lambda>st. create_models sb src = Done st" "models_step sb src" "models_inv src"
  for sb src
proof
  show "models_inv src st" if "create_models sb src = Done st" for st using create_models_inv [of sb src] that by auto
  show "models_inv src st'" if inv: "models_inv src st" and step: "models_step sb src st st'" for st st'
    using step
  proof (cases rule: models_step.cases)
    case (step_update mode av M pool ok M' pool')
    then show ?thesis using update_models_inv [of src M pool sb mode av] inv by auto
  next
    case (step_resolve bypass M s pool r pool')
    then show ?thesis using ext_model_from_str_ok [of src M pool sb bypass s] inv by (auto simp: models_inv_def)
  qed
qed

text \<open>C35: however the models are updated and names resolved, in every fetch mode and with every answer of the backend, the
  unchecked reads of the table and of interned names stay in bounds: every lookup gives a model with the name asked for, or
  none if there is none, and updates and resolutions return.\<close>

theorem models_reachable_safe:
  assumes "create_models sb src = Done st" and "(models_step sb src)\<^sup>*\<^sup>* st (M, pool)"
  shows "(\<exists>r. find_id M s = Done r \<and> found_model src M s r) \<and>
    (\<exists>r. update_models sb src mode av M pool = Done r) \<and> (\<exists>r. ext_model_from_str sb bypass M s pool = Done r)"
  using models_machine.reachable_inv [OF assms] find_id_found update_models_inv ext_model_from_str_ok by blast

section \<open>The names that clients see\<close>

definition listed :: "id_source \<Rightarrow> model \<Rightarrow> str list" where
  "listed src m =
     [model_id src m, model_id src m @ SUFFIX] @
     (if md_is_max m \<and> md_is_non_max m then [model_id src m @ MAX_SUFFIX, (model_id src m @ MAX_SUFFIX) @ SUFFIX] else [])"

abbreviation offline :: "str \<Rightarrow> bool" where
  "offline s \<equiv> strip_suffix s SUFFIX = None"

lemma suffix_last: "strip_suffix s SUFFIX = Some b \<Longrightarrow> s \<noteq> [] \<and> last s = of_char (CHR ''e'')"
  by (auto simp: strip_suffix_Some_iff SUFFIX_def bytes_of_def)

lemma max_offline: "offline (s @ MAX_SUFFIX)"
proof (rule ccontr)
  assume "\<not> offline (s @ MAX_SUFFIX)"
  then have "last (s @ MAX_SUFFIX) = of_char (CHR ''e'')" using suffix_last by blast
  then show False by (simp add: MAX_SUFFIX_def bytes_of_def of_char_def)
qed

lemma push_ids_offline:
  "pool_ok pool \<Longrightarrow> offline s \<Longrightarrow> \<exists>pool'. push_ids sb s (ids, pool) = Done (ids @ [s, s @ SUFFIX], pool') \<and> pool_ok pool'"
  using leak_add_eq [of pool s sb] by (auto simp: push_ids_def)

lemma push_model_ids_offline:
  assumes "pool_ok pool" and "offline (model_id src m)"
  shows "\<exists>pool'. push_model_ids sb src m (ids, pool) = Done (ids @ listed src m, pool') \<and> pool_ok pool'"
proof -
  obtain p1 where 1: "push_ids sb (model_id src m) (ids, pool) = Done (ids @ [model_id src m, model_id src m @ SUFFIX], p1)" "pool_ok p1"
    using push_ids_offline [OF assms] by blast
  then show ?thesis
    using push_ids_offline [OF 1(2) max_offline, of sb "model_id src m" "ids @ [model_id src m, model_id src m @ SUFFIX]"]
    by (auto simp: push_model_ids_def listed_def)
qed

lemma push_all_ids_offline:
  "pool_ok pool \<Longrightarrow> list_all (\<lambda>m. offline (model_id src m)) ms \<Longrightarrow>
   \<exists>pool'. push_all_ids sb src ms (ids, pool) = Done (ids @ concat (map (listed src) ms), pool') \<and> pool_ok pool'"
proof (induction ms arbitrary: ids pool)
  case (Cons m ms)
  obtain p1 where 1: "push_model_ids sb src m (ids, pool) = Done (ids @ listed src m, p1)" "pool_ok p1"
    using push_model_ids_offline [of pool src m sb ids] Cons.prems by auto
  then show ?case using Cons.IH [OF 1(2), of "ids @ listed src m"] Cons.prems by auto
qed simp

lemma find_id_distinct:
  assumes inv: "models_inv src (M, pool)" and "distinct (map (model_id src) (mo_models M))" and "m \<in> set (mo_models M)"
  shows "find_id M (model_id src m) = Done (Some m)"
proof -
  obtain r where r: "find_id M (model_id src m) = Done r" "found_model src M (model_id src m) r" using find_id_found [OF inv] by blast
  then obtain m' where "r = Some m'" "m' \<in> set (mo_models M)" "model_id src m' = model_id src m"
    using assms(3) by (cases r) (auto simp: found_model_def)
  moreover from this have "m' = m" using assms(2,3) by (auto simp: distinct_map inj_on_def)
  ultimately show ?thesis using r by simp
qed

text \<open>Every name in the list of models resolves, with web search exactly for the names that end in \<open>-online\<close>, as long as
  the models have different names and none ends in \<open>-online\<close> itself.\<close>

lemma names_resolve:
  assumes inv: "models_inv src (M, pool)" and "distinct (map (model_id src) (mo_models M))"
    and off: "list_all (\<lambda>m. offline (model_id src m)) (mo_models M)"
    and s: "s \<in> set (concat (map (listed src) (mo_models M)))"
  shows "\<exists>e. ext_model_from_str sb bypass M s pool = Done (Some e, pool) \<and> (em_web e \<longleftrightarrow> \<not> offline s)"
proof -
  obtain m where m: "m \<in> set (mo_models M)" "s \<in> set (listed src m)" using s by auto
  define x where "x = model_id src m"
  have x: "offline x" "find_id M x = Done (Some m)" using off m find_id_distinct [OF assms(1,2) m(1)] by (auto simp: x_def list_all_iff)
  have mx: "offline (x @ MAX_SUFFIX)" by (rule max_offline)
  obtain r where r: "find_id M (x @ MAX_SUFFIX) = Done r" using find_id_found [OF inv] by blast
  have "s = x \<or> s = x @ SUFFIX \<or> md_is_max m \<and> (s = x @ MAX_SUFFIX \<or> s = (x @ MAX_SUFFIX) @ SUFFIX)"
    using m(2) by (auto simp: listed_def x_def split: if_splits)
  then show ?thesis
  proof (elim disjE conjE)
    assume "s = x"
    then show ?thesis using x by (simp add: ext_model_from_str_def)
  next
    assume "s = x @ SUFFIX"
    then show ?thesis using x by (simp add: ext_model_from_str_def)
  next
    assume "md_is_max m" "s = x @ MAX_SUFFIX"
    then show ?thesis using x mx r by (cases r) (simp_all add: ext_model_from_str_def)
  next
    assume "md_is_max m" "s = (x @ MAX_SUFFIX) @ SUFFIX"
    then show ?thesis using x mx r by (cases r) (simp_all add: ext_model_from_str_def del: append_assoc)
  qed
qed

lemma of_char_u8: "(of_char c :: u8) = of_char d \<longleftrightarrow> c = d"
proof
  assume "(of_char c :: u8) = of_char d"
  then have "unat (of_nat (of_char c) :: u8) = unat (of_nat (of_char d) :: u8)" by (simp only: of_nat_of_char)
  then have "(of_char c :: nat) mod 256 = of_char d mod 256" by (simp add: unsigned_of_nat take_bit_eq_mod)
  then show "c = d" by simp
qed simp

lemma bytes_of_inj: "bytes_of s = bytes_of t \<longleftrightarrow> s = t"
  by (auto simp: bytes_of_def inj_map_eq_map inj_on_def of_char_u8)

lemma distinct_bytes_of: "distinct xs \<Longrightarrow> distinct (map bytes_of xs)"
  by (simp add: distinct_map inj_on_def bytes_of_inj)

lemma last_bytes_of: "s \<noteq> [] \<Longrightarrow> last (bytes_of s) = of_char (last s)"
  by (simp add: bytes_of_def last_map)

lemma offline_bytes_of:
  assumes "\<not> (\<exists>b. s = b @ ''-online'')"
  shows "offline (bytes_of s)"
proof (rule ccontr)
  assume "\<not> offline (bytes_of s)"
  then obtain b where "bytes_of s = b @ bytes_of ''-online''" by (auto simp: strip_suffix_Some_iff SUFFIX_def)
  then have "map (of_char :: char \<Rightarrow> u8) s = b @ map of_char ''-online''" by (simp add: bytes_of_def)
  then obtain u v where "s = u @ v" "map (of_char :: char \<Rightarrow> u8) v = map of_char ''-online''" by (auto simp: map_eq_append_conv)
  then have "v = ''-online''" using bytes_of_inj [unfolded bytes_of_def] by metis
  with \<open>s = u @ v\<close> assms show False by blast
qed

lemma table_offline_check:
  "list_all (\<lambda>(owner, i, client, server). \<forall>s \<in> {i, client, server}. last s \<noteq> CHR ''e'' \<or> last (butlast s) \<noteq> CHR ''n'') model_table"
  unfolding model_table_def by simp

lemma table_distinct_check:
  "distinct (map (\<lambda>(owner, i, client, server). i) model_table)"
  "distinct (map (\<lambda>(owner, i, client, server). server) model_table)"
  unfolding model_table_def by simp_all

lemma offline_check: "last s \<noteq> CHR ''e'' \<or> last (butlast s) \<noteq> CHR ''n'' \<Longrightarrow> offline (bytes_of s)"
  by (rule offline_bytes_of) (auto simp: butlast_append)

lemma table_offline: "list_all (\<lambda>m. offline (model_id src m)) (map table_model model_table)"
  using table_offline_check
  by (cases src) (auto simp: list_all_iff table_model_def Let_def intro!: offline_check)

lemma table_distinct:
  assumes "src \<noteq> SourceClientId"
  shows "distinct (map (model_id src) (map table_model model_table))"
proof -
  have "map (model_id SourceId) (map table_model model_table) = map bytes_of (map (\<lambda>(owner, i, client, server). i) model_table)"
    "map (model_id SourceServerId) (map table_model model_table) = map bytes_of (map (\<lambda>(owner, i, client, server). server) model_table)"
    by (auto simp: table_model_def Let_def)
  then show ?thesis using assms distinct_bytes_of [OF table_distinct_check(1)] distinct_bytes_of [OF table_distinct_check(2)]
    by (cases src) (simp_all only: assms)
qed

lemma create_models_eq:
  "\<exists>pool. create_models sb src = Done (\<lparr> mo_models = map table_model model_table, mo_raw_models = None,
     mo_ids = concat (map (listed src) (map table_model model_table)), mo_find_ids = find_table src (map table_model model_table) \<rparr>, pool) \<and>
     pool_ok pool"
  using push_all_ids_offline [OF pool_init_ok table_offline, of sb src "[]"]
  by (auto simp: create_models_def Let_def)

text \<open>With the built-in table, named by id or server id, the list of models is exactly the names of the table's models with
  their suffixes, and every name in it resolves.\<close>

theorem created_names_resolve:
  assumes "src \<noteq> SourceClientId"
  shows "\<exists>M pool. create_models sb src = Done (M, pool) \<and> mo_models M = map table_model model_table \<and>
    mo_ids M = concat (map (listed src) (mo_models M)) \<and>
    (\<forall>s \<in> set (mo_ids M). \<exists>e. ext_model_from_str sb bypass M s pool = Done (Some e, pool) \<and> (em_web e \<longleftrightarrow> \<not> offline s))"
proof -
  define M where "M = \<lparr> mo_models = map table_model model_table, mo_raw_models = None,
     mo_ids = concat (map (listed src) (map table_model model_table)), mo_find_ids = find_table src (map table_model model_table) \<rparr>"
  obtain pool where c: "create_models sb src = Done (M, pool)" "pool_ok pool" using create_models_eq unfolding M_def by blast
  have inv: "models_inv src (M, pool)" using c(2) by (simp add: models_inv_def M_def)
  have ms: "mo_models M = map table_model model_table" "mo_ids M = concat (map (listed src) (mo_models M))" by (simp_all add: M_def)
  have d: "distinct (map (model_id src) (mo_models M))" unfolding ms(1) by (rule table_distinct [OF assms])
  have o: "list_all (\<lambda>m. offline (model_id src m)) (mo_models M)" unfolding ms(1) by (rule table_offline)
  have "\<exists>e. ext_model_from_str sb bypass M s pool = Done (Some e, pool) \<and> (em_web e \<longleftrightarrow> \<not> offline s)" if "s \<in> set (mo_ids M)" for s
    using names_resolve [OF inv d o, of s sb bypass] that ms(2) by simp
  then show ?thesis using c ms by blast
qed

theorem created_names_resolve_witness:
  "\<exists>M pool. create_models (=) SourceServerId = Done (M, pool) \<and> mo_models M = map table_model model_table \<and>
    mo_ids M = concat (map (listed SourceServerId) (mo_models M)) \<and> length (mo_models M) = 57"
proof -
  have "length model_table = 57" by (simp add: model_table_def)
  then show ?thesis using created_names_resolve [of SourceServerId "(=)" False] by auto
qed

theorem models_reachable_safe_witness:
  "\<exists>M pool. create_models (=) SourceId = Done (M, pool) \<and> (models_step (=) SourceId)\<^sup>*\<^sup>* (M, pool) (M, pool) \<and>
    (\<exists>r. find_id M (bytes_of ''o3'') = Done r \<and> found_model SourceId M (bytes_of ''o3'') r) \<and>
    (\<exists>r. ext_model_from_str (=) True M (bytes_of ''o3'') pool = Done r)"
proof -
  obtain M pool where c: "create_models (=) SourceId = Done (M, pool)" using create_models_inv [of "(=)" SourceId] by auto
  then show ?thesis using models_reachable_safe [OF c rtranclp.rtrancl_refl, of "bytes_of ''o3''" Append "[]" True] by blast
qed

section \<open>Where names go wrong\<close>

lemma split_on_single: "c \<notin> set s \<Longrightarrow> split_on c s = [s]"
  by (induction s) auto

text \<open>A custom list of models for usage checks stores their ids, but requests carry server ids: for a name that resolves to a
  model, the check it is listed for applies to requests with that very name only if the model's id is its server
  id.\<close>

theorem custom_usage_check_exact:
  assumes m: "find_id M s = Done (Some m)" and plain: "map to_lower s = s" "trim s = s" "0x2C \<notin> set s" "offline s"
    and other: "s \<notin> {bytes_of ''none'', bytes_of ''disabled'', bytes_of ''default'', bytes_of ''all'', bytes_of ''everything''}"
  shows "\<exists>c e. usage_check_from_string M s = Done c \<and> ext_model_from_str sb bypass M s pool = Done (Some e, pool) \<and>
    (is_usage_check e (Some c) d \<longleftrightarrow> md_id m = md_server_id m)"
proof -
  have "usage_check_from_string M s = Done (CheckCustom [md_id m])"
    using m plain other by (simp add: usage_check_from_string_def parse_custom_models_def split_on_single)
  moreover have "\<exists>e. ext_model_from_str sb bypass M s pool = Done (Some e, pool) \<and> em_id e = md_server_id m"
    using m plain(4) by (simp add: ext_model_from_str_def)
  ultimately show ?thesis by (auto simp: is_usage_check_def)
qed

definition legacy_model :: model where
  "legacy_model = \<lparr> md_server_id = bytes_of ''b'', md_client_id = bytes_of ''B'', md_id = bytes_of ''a'', md_owned_by = bytes_of ''x'',
     md_is_thinking = False, md_is_image = False, md_is_max = False, md_is_non_max = True \<rparr>"

definition legacy_models :: models where
  "legacy_models = \<lparr> mo_models = [legacy_model], mo_raw_models = None, mo_ids = [bytes_of ''b''],
     mo_find_ids = find_table SourceServerId [legacy_model] \<rparr>"

lemma legacy_find: "find_id legacy_models (bytes_of ''b'') = Done (Some legacy_model)"
  by (simp add: find_id_def legacy_models_def find_table_def legacy_model_def)

theorem custom_usage_check_exact_witness:
  "\<exists>c e. usage_check_from_string legacy_models (bytes_of ''b'') = Done c \<and>
    ext_model_from_str (=) False legacy_models (bytes_of ''b'') [] = Done (Some e, []) \<and> \<not> is_usage_check e (Some c) CheckAll"
proof -
  have p: "map to_lower (bytes_of ''b'') = bytes_of ''b''" "trim (bytes_of ''b'') = bytes_of ''b''" "0x2C \<notin> set (bytes_of ''b'')"
    "offline (bytes_of ''b'')" "bytes_of ''b'' \<notin> {bytes_of ''none'', bytes_of ''disabled'', bytes_of ''default'', bytes_of ''all'', bytes_of ''everything''}"
    "md_id legacy_model \<noteq> md_server_id legacy_model"
    by code_simp+
  show ?thesis using custom_usage_check_exact [OF legacy_find p(1-5), of "(=)" False "[]" CheckAll] p(6) by blast
qed

lemma belongs_max: "belongs_to x (x @ MAX_SUFFIX)"
  using max_offline [of x] by (simp add: belongs_to_def)

lemma offline_listed: "offline s \<Longrightarrow> s \<in> set (listed src m) \<Longrightarrow> s = model_id src m \<or> s = model_id src m @ MAX_SUFFIX"
  by (auto simp: listed_def strip_suffix_Some_iff split: if_splits simp flip: append_assoc)

text \<open>When a model is removed, names that end in \<open>-max\<close> after its own are removed with it: another model that is called
  so and stays is no longer listed, although requests for it resolve.\<close>

theorem removed_model_hides_max_model:
  assumes inv: "models_inv src (M, pool)" and upd: "update_models sb src mode av M pool = Done (True, M', pool')"
    and changed: "M' \<noteq> M"
    and off: "list_all (\<lambda>m. offline (model_id src m)) (mo_models M')"
    and old: "x \<in> set (map (model_id src) (mo_models M))" "x @ MAX_SUFFIX \<in> set (map (model_id src) (mo_models M))"
    and new: "x \<notin> set (map (model_id src) (mo_models M'))" "x @ MAX_SUFFIX \<in> set (map (model_id src) (mo_models M'))"
  shows "x @ MAX_SUFFIX \<notin> set (mo_ids M') \<and> (\<exists>m. find_id M' (x @ MAX_SUFFIX) = Done (Some m))"
proof -
  let ?id = "model_id src"
  define ids where "ids = (\<lambda>ms. filter (\<lambda>s. \<not> list_ex (\<lambda>m. belongs_to (?id m) s) (filter (\<lambda>m. ?id m \<notin> set (map ?id ms)) (mo_models M))) (mo_ids M))"
  define add where "add = (\<lambda>ms. filter (\<lambda>m. ?id m \<notin> set (map ?id (mo_models M))) ms)"
  obtain p1 where f: "fetched_models sb mode (mo_models M) av pool = Done (mo_models M', p1)"
      and p: "push_all_ids sb src (add (mo_models M')) (ids (mo_models M'), p1) = Done (mo_ids M', pool')"
      and fi: "mo_find_ids M' = find_table src (mo_models M')"
    using upd changed unfolding add_def ids_def
    by (auto simp: update_models_def Let_def bind_outcome_Done_iff split: if_splits)
  have "pool_ok p1" using fetched_models_ok [of pool sb mode "mo_models M" av] inv f by (auto simp: models_inv_def)
  moreover have "list_all (\<lambda>m. offline (?id m)) (add (mo_models M'))" using off by (auto simp: add_def list_all_iff)
  ultimately have ids': "mo_ids M' = ids (mo_models M') @ concat (map (listed src) (add (mo_models M')))"
    using push_all_ids_offline [of p1 src "add (mo_models M')" sb "ids (mo_models M')"] p by auto
  have "x @ MAX_SUFFIX \<notin> set (ids (mo_models M'))"
    using old(1) new(1) belongs_max [of x] by (auto simp: ids_def list_ex_iff)
  moreover have "x @ MAX_SUFFIX \<notin> set (listed src m)" if "m \<in> set (add (mo_models M'))" for m
    using offline_listed [OF max_offline, of x src m] that old(2) new(1) by (auto simp: add_def image_iff)
  ultimately have "x @ MAX_SUFFIX \<notin> set (mo_ids M')" unfolding ids' by auto
  moreover have "models_inv src (M', pool')" using update_models_inv [OF inv, of sb mode av] upd by auto
  then have "\<exists>m. find_id M' (x @ MAX_SUFFIX) = Done (Some m)"
    using find_id_found [of src M' pool' "x @ MAX_SUFFIX"] new(2) by (auto simp: found_model_def split: option.splits)
  ultimately show ?thesis by blast
qed

definition named :: "string \<Rightarrow> available_model" where
  "named s = \<lparr> am_name = bytes_of s, am_client_display_name = None, am_server_model_name = None, am_supports_thinking = None,
     am_supports_images = None, am_supports_max_mode = None, am_supports_non_max_mode = Some True \<rparr>"

definition two_models :: "string \<Rightarrow> string \<Rightarrow> models" where
  "two_models a b = (let m = (\<lambda>s. \<lparr> md_server_id = bytes_of s, md_client_id = bytes_of s, md_id = bytes_of s, md_owned_by = bytes_of ''unknown'',
     md_is_thinking = False, md_is_image = False, md_is_max = False, md_is_non_max = True \<rparr>)
   in \<lparr> mo_models = [m a, m b], mo_raw_models = None, mo_ids = concat (map (listed SourceId) [m a, m b]),
        mo_find_ids = find_table SourceId [m a, m b] \<rparr>)"

lemma fetched_named:
  "\<exists>m pool. fetched_models (=) Truncate current [named ''m-max''] [] = Done ([m], pool) \<and> md_id m = bytes_of ''m-max'' \<and> pool_ok pool"
proof -
  have "get_static_id (=) (bytes_of ''m-max'') [] = (Done (bytes_of ''m-max''), [(bytes_of ''m-max'', alloc_ids (bytes_of ''m-max''))])"
    by code_simp
  then show ?thesis by (simp add: fetched_models_def convert_model_def named_def other_id_def pool_ok_def)
qed

lemma two_models_inv: "models_inv SourceId (two_models a b, [])"
  by (simp add: models_inv_def two_models_def pool_ok_def Let_def)

lemma two_models_ids: "map (model_id SourceId) (mo_models (two_models a b)) = [bytes_of a, bytes_of b]"
  by (simp add: two_models_def Let_def)

lemma update_two:
  "\<exists>M' pool'. update_models (=) SourceId Truncate [named ''m-max''] (two_models ''m'' ''m-max'') [] = Done (True, M', pool') \<and>
     map (model_id SourceId) (mo_models M') = [bytes_of ''m-max'']"
proof -
  obtain m pool where f: "fetched_models (=) Truncate (mo_models (two_models ''m'' ''m-max'')) [named ''m-max''] [] = Done ([m], pool)"
      "md_id m = bytes_of ''m-max''" "pool_ok pool"
    using fetched_named by blast
  have raw: "mo_raw_models (two_models ''m'' ''m-max'') = None" by (simp add: two_models_def Let_def)
  obtain ids' pool' where "push_all_ids (=) SourceId (filter (\<lambda>m. model_id SourceId m \<notin> set (map (model_id SourceId) (mo_models (two_models ''m'' ''m-max'')))) [m])
      (filter (\<lambda>s. \<not> list_ex (\<lambda>m. belongs_to (model_id SourceId m) s) (filter (\<lambda>n. model_id SourceId n \<notin> set (map (model_id SourceId) [m]))
         (mo_models (two_models ''m'' ''m-max'')))) (mo_ids (two_models ''m'' ''m-max'')), pool) = Done (ids', pool')"
    using push_all_ids_ok [OF f(3)] by blast
  then show ?thesis using f raw unfolding update_models_def Let_def by (simp add: f(2))
qed

theorem removed_model_hides_max_model_witness:
  "\<exists>M' pool' m. update_models (=) SourceId Truncate [named ''m-max''] (two_models ''m'' ''m-max'') [] = Done (True, M', pool') \<and>
     bytes_of ''m'' @ MAX_SUFFIX \<notin> set (mo_ids M') \<and> find_id M' (bytes_of ''m'' @ MAX_SUFFIX) = Done (Some m)"
proof -
  obtain M' pool' where u: "update_models (=) SourceId Truncate [named ''m-max''] (two_models ''m'' ''m-max'') [] = Done (True, M', pool')"
      "map (model_id SourceId) (mo_models M') = [bytes_of ''m-max'']"
    using update_two by (elim exE conjE) (rule that)
  have b: "bytes_of ''m'' @ MAX_SUFFIX = bytes_of ''m-max''" "bytes_of ''m'' \<noteq> bytes_of ''m-max''" "offline (bytes_of ''m-max'')" by code_simp+
  have "M' \<noteq> two_models ''m'' ''m-max''" using u(2) two_models_ids [of "''m''" "''m-max''"] by auto
  moreover have "list_all (\<lambda>m. offline (model_id SourceId m)) (mo_models M')" using u(2) b(3) by (auto simp: list_all_iff map_eq_Cons_conv)
  ultimately show ?thesis
    using removed_model_hides_max_model [OF two_models_inv u(1), of "bytes_of ''m''"] u b two_models_ids [of "''m''" "''m-max''"] by auto
qed

end
