(* ===== verification/Debug_Logger.thy ===== *)
theory Debug_Logger
  imports Text_Utils "HOL-Library.Multiset"
begin

text \<open>
  The task that writes the debug log, from \<open>src/app/lazy/log.rs\<close>.  Messages carry sequence numbers and may arrive in any
  order; the task holds back those that are early.  Warnings on standard error are left out.  How writes to the file end
  is an argument.
\<close>

section \<open>The writer\<close>

text \<open>A \<open>BTreeMap\<close> is the list of its entries, by increasing key.\<close>

fun bt_insert :: "nat \<Rightarrow> 'v \<Rightarrow> (nat \<times> 'v) list \<Rightarrow> (nat \<times> 'v) list" where
  "bt_insert k v [] = [(k, v)]"
| "bt_insert k v (e # m) =
     (if k < fst e then (k, v) # e # m else if k = fst e then (k, v) # m else e # bt_insert k v m)"

definition bt_remove :: "nat \<Rightarrow> (nat \<times> 'v) list \<Rightarrow> ('v \<times> (nat \<times> 'v) list) option" where
  "bt_remove k m = map_option (\<lambda>v. (v, filter (\<lambda>e. fst e \<noteq> k) m)) (map_of m k)"

record debug_writer =
  dw_buffer :: bytes
  dw_pending :: "(nat \<times> bytes) list"
  dw_next_seq :: nat
  dw_file :: bytes
  dw_writes :: nat

definition writer_new :: "bytes \<Rightarrow> debug_writer" where
  "writer_new file = \<lparr> dw_buffer = [], dw_pending = [], dw_next_seq = 0, dw_file = file, dw_writes = 0 \<rparr>"

definition BUFFER_CAPACITY :: nat where
  "BUFFER_CAPACITY = 65536"

definition MAX_PENDING_MESSAGES :: nat where
  "MAX_PENDING_MESSAGES = 1000"

definition OUT_OF_ORDER_THRESHOLD :: nat where
  "OUT_OF_ORDER_THRESHOLD = 100"

text \<open>\<open>wr k\<close> tells how the \<open>k\<close>-th write ends: \<open>None\<close> for a complete one, or after how many bytes it fails.\<close>

definition flush_byte_buffer :: "(nat \<Rightarrow> nat option) \<Rightarrow> debug_writer \<Rightarrow> debug_writer" where
  "flush_byte_buffer wr w =
     (if dw_buffer w = [] then w
      else w\<lparr> dw_file := dw_file w @ (case wr (dw_writes w) of None \<Rightarrow> dw_buffer w | Some n \<Rightarrow> take n (dw_buffer w)),
              dw_buffer := [], dw_writes := dw_writes w + 1 \<rparr>)"

definition append_line :: "bytes \<Rightarrow> debug_writer \<Rightarrow> debug_writer" where
  "append_line content w = w\<lparr> dw_buffer := dw_buffer w @ content @ [0x0A] \<rparr>"

lemma bt_remove_length: "bt_remove k m = Some (v, m') \<Longrightarrow> length m' < length m"
  by (auto simp: bt_remove_def dest: map_of_SomeD intro!: length_filter_less)

lemma flush_fields [simp]:
  "dw_pending (flush_byte_buffer wr w) = dw_pending w" "dw_next_seq (flush_byte_buffer wr w) = dw_next_seq w"
  "dw_buffer (flush_byte_buffer wr w) = []"
  by (simp_all add: flush_byte_buffer_def)

lemma append_line_fields [simp]:
  "dw_pending (append_line c w) = dw_pending w" "dw_next_seq (append_line c w) = dw_next_seq w"
  "dw_file (append_line c w) = dw_file w" "dw_writes (append_line c w) = dw_writes w"
  by (simp_all add: append_line_def)

definition write_one :: "(nat \<Rightarrow> nat option) \<Rightarrow> bytes \<Rightarrow> (nat \<times> bytes) list \<Rightarrow> debug_writer \<Rightarrow> debug_writer" where
  "write_one wr content pending w =
     (let w = (append_line content w)\<lparr> dw_pending := pending, dw_next_seq := dw_next_seq w + 1 \<rparr>
      in if BUFFER_CAPACITY \<le> length (dw_buffer w) then flush_byte_buffer wr w else w)"

lemma write_one_fields [simp]:
  "dw_pending (write_one wr c p w) = p" "dw_next_seq (write_one wr c p w) = dw_next_seq w + 1"
  by (simp_all add: write_one_def Let_def)

text \<open>All messages that are next in order.\<close>

function drain :: "(nat \<Rightarrow> nat option) \<Rightarrow> debug_writer \<Rightarrow> debug_writer" where
  "drain wr w =
     (case bt_remove (dw_next_seq w) (dw_pending w) of
        Some (content, pending) \<Rightarrow> drain wr (write_one wr content pending w)
      | None \<Rightarrow> w)"
  by auto
termination
  by (relation "measure (\<lambda>(_, w). length (dw_pending w))") (auto dest: bt_remove_length)

declare drain.simps [simp del]

definition writer_recv :: "(nat \<Rightarrow> nat option) \<Rightarrow> nat \<Rightarrow> bytes \<Rightarrow> debug_writer \<Rightarrow> debug_writer" where
  "writer_recv wr seq content w =
     (let w = w\<lparr> dw_pending := bt_insert seq content (dw_pending w) \<rparr>;
          w = (if MAX_PENDING_MESSAGES < length (dw_pending w) then w\<lparr> dw_next_seq := fst (hd (dw_pending w)) \<rparr> else w)
      in drain wr w)"

definition writer_tick :: "(nat \<Rightarrow> nat option) \<Rightarrow> debug_writer \<Rightarrow> debug_writer" where
  "writer_tick wr w =
     flush_byte_buffer wr
       (case dw_pending w of
          [] \<Rightarrow> w
        | (oldest, _) # _ \<Rightarrow>
            (if dw_next_seq w + OUT_OF_ORDER_THRESHOLD < oldest then w\<lparr> dw_next_seq := oldest \<rparr> else w))"

text \<open>The end: the messages still in the channel, then everything that is pending, in order.\<close>

fun insert_all :: "(nat \<times> bytes) list \<Rightarrow> (nat \<times> bytes) list \<Rightarrow> (nat \<times> bytes) list" where
  "insert_all [] m = m"
| "insert_all ((k, v) # es) m = insert_all es (bt_insert k v m)"

fun write_pending :: "(nat \<times> bytes) list \<Rightarrow> debug_writer \<Rightarrow> debug_writer" where
  "write_pending [] w = w"
| "write_pending ((seq, content) # es) w = write_pending es ((append_line content w)\<lparr> dw_next_seq := seq + 1 \<rparr>)"

definition writer_shutdown :: "(nat \<Rightarrow> nat option) \<Rightarrow> (nat \<times> bytes) list \<Rightarrow> debug_writer \<Rightarrow> debug_writer" where
  "writer_shutdown wr rest w =
     (let pending = insert_all rest (dw_pending w)
      in flush_byte_buffer wr (write_pending pending (w\<lparr> dw_pending := [] \<rparr>)))"

datatype log_event = Message nat bytes | Tick

fun writer_event :: "(nat \<Rightarrow> nat option) \<Rightarrow> log_event \<Rightarrow> debug_writer \<Rightarrow> debug_writer" where
  "writer_event wr (Message seq content) w = writer_recv wr seq content w"
| "writer_event wr Tick w = writer_tick wr w"

definition writer_run :: "(nat \<Rightarrow> nat option) \<Rightarrow> log_event list \<Rightarrow> debug_writer \<Rightarrow> debug_writer" where
  "writer_run wr evs w = fold (writer_event wr) evs w"

section \<open>Nothing is lost\<close>

definition lines :: "(nat \<times> bytes) list \<Rightarrow> bytes" where
  "lines ms = concat (map (\<lambda>(_, c). c @ [0x0A]) ms)"

lemma lines_append [simp]: "lines (a @ b) = lines a @ lines b"
  and lines_simps [simp]: "lines [] = []" "lines ((k, c) # ms) = c @ 0x0A # lines ms"
  by (simp_all add: lines_def)

fun messages_of :: "log_event list \<Rightarrow> (nat \<times> bytes) list" where
  "messages_of [] = []"
| "messages_of (Message k c # es) = (k, c) # messages_of es"
| "messages_of (Tick # es) = messages_of es"

abbreviation by_key :: "(nat \<times> 'v) list \<Rightarrow> bool" where
  "by_key m \<equiv> sorted_wrt (<) (map fst m)"

lemma set_bt_insert: "k \<notin> fst ` set m \<Longrightarrow> set (bt_insert k v m) = insert (k, v) (set m)"
  by (induction m) auto

lemma mset_bt_insert: "k \<notin> fst ` set m \<Longrightarrow> mset (bt_insert k v m) = add_mset (k, v) (mset m)"
  by (induction m) auto

lemma length_bt_insert: "k \<notin> fst ` set m \<Longrightarrow> length (bt_insert k v m) = Suc (length m)"
  by (induction m) auto

lemma by_key_bt_insert: "by_key m \<Longrightarrow> by_key (bt_insert k v m)"
proof (induction m)
  case (Cons e m)
  have "fst ` set (bt_insert k v m) \<subseteq> insert k (fst ` set m)" by (induction m) auto
  with Cons show ?case by (cases "k = fst e") fastforce+
qed simp

lemma by_key_filter: "by_key m \<Longrightarrow> by_key (filter P m)"
  by (induction m) auto

lemma by_key_distinct: "by_key m \<Longrightarrow> distinct (map fst m)"
  by (induction m) auto

lemma bt_remove_mset:
  assumes "by_key m" and "bt_remove k m = Some (v, m')"
  shows "mset m = add_mset (k, v) (mset m') \<and> by_key m'"
proof -
  have v: "map_of m k = Some v" and m': "m' = filter (\<lambda>e. fst e \<noteq> k) m" using assms(2) by (auto simp: bt_remove_def)
  have "distinct (map fst m) \<Longrightarrow> map_of m k = Some v \<Longrightarrow> mset m = add_mset (k, v) (mset (filter (\<lambda>e. fst e \<noteq> k) m))"
  proof (induction m)
    case (Cons e m)
    show ?case
    proof (cases "fst e = k")
      case True
      with Cons.prems have "filter (\<lambda>e. fst e \<noteq> k) m = m" by (auto simp: filter_id_conv image_iff)
      with True Cons.prems show ?thesis by (cases e) auto
    qed (use Cons in auto)
  qed simp
  then show ?thesis using v m' by_key_distinct [OF assms(1)] by_key_filter [OF assms(1)] by simp
qed

text \<open>What the writer has received so far, and that every message is either written or pending.\<close>

definition all_kept :: "bytes \<Rightarrow> (nat \<times> bytes) list \<Rightarrow> debug_writer \<Rightarrow> bool" where
  "all_kept start rcv w \<longleftrightarrow>
     by_key (dw_pending w) \<and>
     (\<exists>ws. mset ws + mset (dw_pending w) = mset rcv \<and> dw_file w @ dw_buffer w = start @ lines ws)"

lemma flush_kept: "\<forall>k. wr k = None \<Longrightarrow> dw_file (flush_byte_buffer wr w) @ dw_buffer (flush_byte_buffer wr w) = dw_file w @ dw_buffer w"
  by (simp add: flush_byte_buffer_def)

lemma write_one_kept:
  "\<forall>k. wr k = None \<Longrightarrow> dw_file (write_one wr c p w) @ dw_buffer (write_one wr c p w) = (dw_file w @ dw_buffer w) @ c @ [0x0A]"
  using flush_kept [of wr "(append_line c w)\<lparr> dw_pending := p, dw_next_seq := dw_next_seq w + 1 \<rparr>"]
  by (simp add: write_one_def Let_def append_line_def)

lemma drain_kept: "\<forall>k. wr k = None \<Longrightarrow> all_kept start rcv w \<Longrightarrow> all_kept start rcv (drain wr w)"
proof (induction wr w rule: drain.induct)
  case (1 wr w)
  show ?case
  proof (cases "bt_remove (dw_next_seq w) (dw_pending w)")
    case None
    then show ?thesis using "1.prems" by (subst drain.simps) simp
  next
    case (Some r)
    obtain c p where r: "r = (c, p)" by (cases r)
    obtain ws where ws: "by_key (dw_pending w)" "mset ws + mset (dw_pending w) = mset rcv" "dw_file w @ dw_buffer w = start @ lines ws"
      using "1.prems"(2) by (auto simp: all_kept_def)
    have rem: "mset (dw_pending w) = add_mset (dw_next_seq w, c) (mset p)" "by_key p" using bt_remove_mset [OF ws(1)] Some r by auto
    have "all_kept start rcv (write_one wr c p w)"
      unfolding all_kept_def using rem ws write_one_kept [OF "1.prems"(1), of c p w]
      by (intro conjI exI [of _ "ws @ [(dw_next_seq w, c)]"]) auto
    then show ?thesis using "1.IH" [OF Some r [symmetric] "1.prems"(1)] Some r by (subst drain.simps) simp
  qed
qed

lemma recv_kept:
  assumes wr: "\<forall>k. wr k = None" and kept: "all_kept start rcv w" and new: "k \<notin> fst ` set rcv"
  shows "all_kept start (rcv @ [(k, c)]) (writer_recv wr k c w)"
proof -
  obtain ws where ws: "by_key (dw_pending w)" "mset ws + mset (dw_pending w) = mset rcv" "dw_file w @ dw_buffer w = start @ lines ws"
    using kept by (auto simp: all_kept_def)
  have "set (dw_pending w) \<subseteq> set rcv" using ws(2) by (metis mset_subset_eq_add_right set_mset_mono set_mset_mset)
  then have "k \<notin> fst ` set (dw_pending w)" using new by auto
  then have "all_kept start (rcv @ [(k, c)]) (w\<lparr> dw_pending := bt_insert k c (dw_pending w), dw_next_seq := n \<rparr>)" for n
    using ws by_key_bt_insert [OF ws(1)] by (auto simp: all_kept_def mset_bt_insert intro!: exI [of _ ws])
  from this [of "dw_next_seq w"] this show ?thesis unfolding writer_recv_def Let_def by (auto intro!: drain_kept [OF wr])
qed

lemma tick_kept: "\<forall>k. wr k = None \<Longrightarrow> all_kept start rcv w \<Longrightarrow> all_kept start rcv (writer_tick wr w)"
  using flush_kept [of wr w] flush_kept [of wr "w\<lparr> dw_next_seq := fst (hd (dw_pending w)) \<rparr>"]
  by (auto simp: all_kept_def writer_tick_def split: list.splits)

lemma run_kept:
  assumes wr: "\<forall>k. wr k = None"
  shows "all_kept start rcv w \<Longrightarrow> distinct (map fst (rcv @ messages_of evs)) \<Longrightarrow>
    all_kept start (rcv @ messages_of evs) (writer_run wr evs w)"
proof (induction evs arbitrary: rcv w)
  case (Cons e evs)
  show ?case
  proof (cases e)
    case (Message k c)
    have "all_kept start (rcv @ [(k, c)]) (writer_recv wr k c w)"
      by (rule recv_kept [OF wr Cons.prems(1)]) (use Cons.prems(2) Message in auto)
    then show ?thesis using Cons.IH [of "rcv @ [(k, c)]" "writer_recv wr k c w"] Cons.prems(2) Message by (simp add: writer_run_def)
  next
    case Tick
    then show ?thesis using Cons.IH [OF tick_kept [OF wr Cons.prems(1)]] Cons.prems(2) by (simp add: writer_run_def)
  qed
qed (simp add: writer_run_def)

lemma insert_all_kept:
  "by_key m \<Longrightarrow> distinct (map fst es) \<Longrightarrow> fst ` set es \<inter> fst ` set m = {} \<Longrightarrow>
   by_key (insert_all es m) \<and> mset (insert_all es m) = mset es + mset m"
proof (induction es m rule: insert_all.induct)
  case (2 k v es m)
  then show ?case using by_key_bt_insert [of m k v] by (auto simp: mset_bt_insert set_bt_insert)
qed simp

lemma write_pending_lines:
  "dw_file (write_pending es w) @ dw_buffer (write_pending es w) = (dw_file w @ dw_buffer w) @ lines es"
  by (induction es w rule: write_pending.induct) (auto simp: append_line_def)

text \<open>Whatever the order and timing of messages, even when the writer gave up waiting for some, every message is in the file
  exactly once after the shutdown, as a line of its own.\<close>

theorem debug_log_complete:
  assumes "\<forall>k. wr k = None" and "distinct (map fst (messages_of evs @ rest))"
  shows "\<exists>ws. mset ws = mset (messages_of evs @ rest) \<and>
    dw_file (writer_shutdown wr rest (writer_run wr evs (writer_new start))) = start @ lines ws"
proof -
  define w where "w = writer_run wr evs (writer_new start)"
  have "all_kept start [] (writer_new start)" by (simp add: all_kept_def writer_new_def)
  then have "all_kept start (messages_of evs) w" using run_kept [OF assms(1), of start "[]" "writer_new start" evs] assms(2) by (simp add: w_def)
  then obtain ws where ws: "by_key (dw_pending w)" "mset ws + mset (dw_pending w) = mset (messages_of evs)" "dw_file w @ dw_buffer w = start @ lines ws"
    by (auto simp: all_kept_def)
  have "set (dw_pending w) \<subseteq> set (messages_of evs)" using ws(2) by (metis mset_subset_eq_add_right set_mset_mono set_mset_mset)
  then have ins: "mset (insert_all rest (dw_pending w)) = mset rest + mset (dw_pending w)"
    using insert_all_kept [OF ws(1), of rest] assms(2) by auto
  have "dw_file (writer_shutdown wr rest w) = dw_file (writer_shutdown wr rest w) @ dw_buffer (writer_shutdown wr rest w)"
    by (simp add: writer_shutdown_def Let_def)
  also have "\<dots> = start @ lines (ws @ insert_all rest (dw_pending w))"
    using flush_kept [OF assms(1)] write_pending_lines [of _ "w\<lparr> dw_pending := [] \<rparr>"] ws(3) by (simp add: writer_shutdown_def Let_def)
  finally show ?thesis using ins ws(2) unfolding w_def [symmetric]
    by (intro exI [of _ "ws @ insert_all rest (dw_pending w)"]) (simp flip: ws(2))
qed

theorem debug_log_complete_witness:
  "\<exists>ws. mset ws = mset (messages_of [Message 1 [65], Tick, Message 0 [66]] @ [(2, [67])]) \<and>
    dw_file (writer_shutdown (\<lambda>_. None) [(2, [67])] (writer_run (\<lambda>_. None) [Message 1 [65], Tick, Message 0 [66]] (writer_new [1]))) =
      [1] @ lines ws"
  by (rule debug_log_complete) simp_all

section \<open>Messages that are a little early\<close>

text \<open>When a message arrives, all that are more than the threshold before it have arrived.\<close>

fun nearly_ordered :: "nat set \<Rightarrow> log_event list \<Rightarrow> bool" where
  "nearly_ordered R [] \<longleftrightarrow> True"
| "nearly_ordered R (Message k c # es) \<longleftrightarrow>
     list_all (\<lambda>j. j \<in> R) [0..<k - OUT_OF_ORDER_THRESHOLD] \<and> nearly_ordered (insert k R) es"
| "nearly_ordered R (Tick # es) \<longleftrightarrow> nearly_ordered R es"

definition numbered :: "(nat \<Rightarrow> bytes) \<Rightarrow> nat \<Rightarrow> (nat \<times> bytes) list" where
  "numbered f n = map (\<lambda>k. (k, f k)) [0..<n]"

definition in_order :: "(nat \<Rightarrow> bytes) \<Rightarrow> bytes \<Rightarrow> nat set \<Rightarrow> debug_writer \<Rightarrow> bool" where
  "in_order f start R w \<longleftrightarrow>
     by_key (dw_pending w) \<and>
     (\<forall>k v. (k, v) \<in> set (dw_pending w) \<longleftrightarrow> k \<in> R \<and> dw_next_seq w \<le> k \<and> v = f k) \<and>
     {0..<dw_next_seq w} \<subseteq> R \<and>
     dw_file w @ dw_buffer w = start @ lines (numbered f (dw_next_seq w))"

lemma in_orderD: "in_order f start R w \<Longrightarrow> (k, v) \<in> set (dw_pending w) \<Longrightarrow> k \<in> R \<and> dw_next_seq w \<le> k \<and> v = f k"
  by (simp add: in_order_def)

lemma bt_remove_None: "bt_remove k m = None \<longleftrightarrow> k \<notin> fst ` set m"
  by (simp add: bt_remove_def map_of_eq_None_iff)

lemma bt_remove_set: "by_key m \<Longrightarrow> bt_remove k m = Some (v, m') \<Longrightarrow> (k, v) \<in> set m \<and> set m' = {e \<in> set m. fst e \<noteq> k}"
  by (auto simp: bt_remove_def dest: map_of_SomeD)

lemma drain_in_order:
  assumes wr: "\<forall>k. wr k = None"
  shows "in_order f start R w \<Longrightarrow> in_order f start R (drain wr w) \<and> dw_next_seq (drain wr w) \<notin> R \<and> dw_next_seq w \<le> dw_next_seq (drain wr w)"
proof (induction "length (dw_pending w)" arbitrary: w rule: less_induct)
  case less
  show ?case
  proof (cases "bt_remove (dw_next_seq w) (dw_pending w)")
    case None
    have "(dw_next_seq w, f (dw_next_seq w)) \<in> set (dw_pending w)" if "dw_next_seq w \<in> R"
      using less.prems that unfolding in_order_def by blast
    then have "dw_next_seq w \<notin> R" using None unfolding bt_remove_None by (metis fst_conv image_eqI)
    moreover have "drain wr w = w" using None by (subst drain.simps) simp
    ultimately show ?thesis using less.prems by simp
  next
    case (Some r)
    obtain c p where r: "r = (c, p)" by (cases r)
    have key: "by_key (dw_pending w)" using less.prems by (simp add: in_order_def)
    have c: "c = f (dw_next_seq w)" "dw_next_seq w \<in> R" and p: "set p = {e \<in> set (dw_pending w). fst e \<noteq> dw_next_seq w}"
      using bt_remove_set [OF key] Some r less.prems by (auto simp: in_order_def)
    have "in_order f start R (write_one wr c p w)"
      unfolding in_order_def
    proof (intro conjI)
      show "by_key (dw_pending (write_one wr c p w))" using bt_remove_mset [OF key] Some r by simp
      show "\<forall>k v. (k, v) \<in> set (dw_pending (write_one wr c p w)) \<longleftrightarrow> k \<in> R \<and> dw_next_seq (write_one wr c p w) \<le> k \<and> v = f k"
        using p less.prems by (auto simp: in_order_def)
      show "{0..<dw_next_seq (write_one wr c p w)} \<subseteq> R" using c less.prems by (auto simp: in_order_def less_Suc_eq)
      show "dw_file (write_one wr c p w) @ dw_buffer (write_one wr c p w) = start @ lines (numbered f (dw_next_seq (write_one wr c p w)))"
        using write_one_kept [OF wr, of c p w] c(1) less.prems by (simp add: in_order_def numbered_def)
    qed
    moreover have "length (dw_pending (write_one wr c p w)) < length (dw_pending w)" using bt_remove_length Some r by fastforce
    moreover have "drain wr w = drain wr (write_one wr c p w)" using Some r by (subst drain.simps) simp
    ultimately show ?thesis using less.hyps [of "write_one wr c p w"] by simp
  qed
qed

definition on_time :: "(nat \<Rightarrow> bytes) \<Rightarrow> bytes \<Rightarrow> nat set \<Rightarrow> debug_writer \<Rightarrow> bool" where
  "on_time f start R w \<longleftrightarrow> in_order f start R w \<and> dw_next_seq w \<notin> R \<and> (\<forall>k \<in> R. k \<le> dw_next_seq w + OUT_OF_ORDER_THRESHOLD)"

lemma pending_bound:
  assumes "by_key m" and "\<And>k v. (k, v) \<in> set m \<Longrightarrow> n \<le> k \<and> k \<le> n + d"
  shows "length m \<le> d + 1"
proof -
  have "length m = card (fst ` set m)" using by_key_distinct [OF assms(1)] by (metis distinct_card length_map list.set_map)
  also have "\<dots> \<le> card {n..n + d}" using assms(2) by (intro card_mono) auto
  finally show ?thesis by simp
qed

lemma recv_on_time:
  assumes wr: "\<forall>k. wr k = None" and ot: "on_time f start R w" and new: "k \<notin> R"
    and near: "list_all (\<lambda>j. j \<in> R) [0..<k - OUT_OF_ORDER_THRESHOLD]"
  shows "on_time f start (insert k R) (writer_recv wr k (f k) w)"
proof -
  have io: "in_order f start R w" and nx: "dw_next_seq w \<notin> R" and far: "\<forall>k \<in> R. k \<le> dw_next_seq w + OUT_OF_ORDER_THRESHOLD"
    using ot by (auto simp: on_time_def)
  have "k \<le> dw_next_seq w + OUT_OF_ORDER_THRESHOLD" using near nx by (auto simp: list_all_iff not_le)
  moreover have "{0..<dw_next_seq w} \<subseteq> R" using io by (simp add: in_order_def)
  then have "dw_next_seq w \<le> k" using new by (meson atLeastLessThan_iff le0 not_le subsetD)
  moreover have kp: "k \<notin> fst ` set (dw_pending w)" using io new by (auto simp: in_order_def)
  define w' where "w' = w\<lparr> dw_pending := bt_insert k (f k) (dw_pending w) \<rparr>"
  ultimately have io': "in_order f start (insert k R) w'" and far': "\<forall>j \<in> insert k R. j \<le> dw_next_seq w' + OUT_OF_ORDER_THRESHOLD"
    using io far by_key_bt_insert [of "dw_pending w"] by (auto simp: w'_def in_order_def set_bt_insert [OF kp])
  have "length (dw_pending w') \<le> OUT_OF_ORDER_THRESHOLD + 1"
    using io' far' by (intro pending_bound [of _ "dw_next_seq w'"]) (auto simp: in_order_def)
  then have "writer_recv wr k (f k) w = drain wr w'"
    by (simp add: writer_recv_def w'_def MAX_PENDING_MESSAGES_def OUT_OF_ORDER_THRESHOLD_def)
  then show ?thesis using drain_in_order [OF wr io'] far' by (auto simp: on_time_def)
qed

lemma tick_on_time:
  assumes wr: "\<forall>k. wr k = None" and ot: "on_time f start R w"
  shows "on_time f start R (writer_tick wr w)"
proof -
  have "\<not> dw_next_seq w + OUT_OF_ORDER_THRESHOLD < fst (hd (dw_pending w))" if "dw_pending w \<noteq> []"
    using ot that in_orderD [of f start R w "fst (hd (dw_pending w))" "snd (hd (dw_pending w))"] by (auto simp: on_time_def not_less)
  then have "writer_tick wr w = flush_byte_buffer wr w" by (auto simp: writer_tick_def split: list.splits)
  then show ?thesis using ot flush_kept [OF wr, of w] by (auto simp: on_time_def in_order_def)
qed

lemma run_on_time:
  assumes wr: "\<forall>k. wr k = None"
  shows "on_time f start R w \<Longrightarrow> nearly_ordered R evs \<Longrightarrow> distinct (map fst (messages_of evs)) \<Longrightarrow> R \<inter> fst ` set (messages_of evs) = {} \<Longrightarrow>
    \<forall>(k, c) \<in> set (messages_of evs). c = f k \<Longrightarrow> on_time f start (R \<union> fst ` set (messages_of evs)) (writer_run wr evs w)"
proof (induction evs arbitrary: R w)
  case (Cons e evs)
  show ?case
  proof (cases e)
    case (Message k c)
    then have "on_time f start (insert k R) (writer_recv wr k (f k) w)" using Cons.prems by (intro recv_on_time [OF wr]) auto
    then show ?thesis using Cons.IH [of "insert k R" "writer_recv wr k (f k) w"] Cons.prems Message by (auto simp: writer_run_def)
  next
    case Tick
    then show ?thesis using Cons.IH [OF tick_on_time [OF wr Cons.prems(1)]] Cons.prems by (simp add: writer_run_def)
  qed
qed (simp add: writer_run_def)

text \<open>Messages that arrive out of order, none before one that is more than a hundred older, are written in the order of their
  numbers, whenever the timer ticks.\<close>

theorem debug_log_ordered:
  assumes wr: "\<forall>k. wr k = None" and near: "nearly_ordered {} evs" and evs: "mset (messages_of evs) = mset (numbered f n)"
  shows "dw_file (writer_shutdown wr [] (writer_run wr evs (writer_new start))) = start @ lines (numbered f n)"
proof -
  define w where "w = writer_run wr evs (writer_new start)"
  have keys: "fst ` set (messages_of evs) = {0..<n}" "\<forall>(k, c) \<in> set (messages_of evs). c = f k"
    using mset_eq_setD [OF evs] by (auto simp: numbered_def image_image)
  have "mset (map fst (messages_of evs)) = mset (map fst (numbered f n))" using evs by simp
  then have "distinct (map fst (messages_of evs))" by (rule mset_eq_imp_distinct_iff [THEN iffD2]) (simp add: numbered_def comp_def)
  moreover have "on_time f start {} (writer_new start)" by (simp add: on_time_def in_order_def writer_new_def numbered_def)
  ultimately have ot: "on_time f start {0..<n} w"
    using run_on_time [OF wr, of f start "{}" "writer_new start" evs] near keys by (simp add: w_def)
  then have nx: "dw_next_seq w = n" by (auto simp: on_time_def in_order_def dest: subsetD [of "{0..<dw_next_seq w}"])
  then have "dw_pending w = []" using ot in_orderD [of f start "{0..<n}" w "fst (hd (dw_pending w))" "snd (hd (dw_pending w))"]
    by (cases "dw_pending w") (auto simp: on_time_def)
  then have "dw_file (writer_shutdown wr [] w) = dw_file w @ dw_buffer w"
    using flush_kept [OF wr, of "w\<lparr> dw_pending := [] \<rparr>"] by (simp add: writer_shutdown_def)
  then show ?thesis using ot nx unfolding w_def [symmetric] by (simp add: on_time_def in_order_def)
qed

theorem debug_log_ordered_witness:
  "dw_file (writer_shutdown (\<lambda>_. None) [] (writer_run (\<lambda>_. None) [Message 2 [67], Tick, Message 0 [65], Message 1 [66]] (writer_new [1]))) =
     [1] @ lines (numbered (\<lambda>k. [65 + of_nat k]) 3)"
  by (rule debug_log_ordered) (simp_all add: numbered_def upt_rec OUT_OF_ORDER_THRESHOLD_def)

section \<open>Messages that are late\<close>

lemma bt_insert_tl: "k > fst e \<Longrightarrow> bt_insert k v (e # m) = e # bt_insert k v m"
  by simp

text \<open>A message that arrives after the writer gave up on it blocks the writer: as long as it is pending no tick gives up on a
  missing message again, and when too many messages are pending the position goes back to the late one, behind what
  has been written already, and stops right after it.\<close>

theorem late_message_blocks:
  assumes pending: "dw_pending w = (late, c) # m" and late: "late < dw_next_seq w" and key: "by_key (dw_pending w)"
    and full: "length (dw_pending w) = MAX_PENDING_MESSAGES" and seq: "late + 1 < seq" "seq \<notin> fst ` set m" and gap: "late + 1 \<notin> fst ` set m"
  shows "dw_next_seq (writer_tick wr w) = dw_next_seq w \<and> dw_pending (writer_tick wr w) = dw_pending w \<and>
    dw_next_seq (writer_recv wr seq content w) = late + 1 \<and> dw_pending (writer_recv wr seq content w) = bt_insert seq content m"
proof -
  define w1 where "w1 = w\<lparr> dw_pending := (late, c) # bt_insert seq content m, dw_next_seq := late \<rparr>"
  have "filter (\<lambda>e. fst e \<noteq> late) (bt_insert seq content m) = bt_insert seq content m"
    using key pending seq by (auto simp: filter_id_conv set_bt_insert)
  then have first: "bt_remove (dw_next_seq w1) (dw_pending w1) = Some (c, bt_insert seq content m)"
    by (simp add: w1_def bt_remove_def)
  have second: "bt_remove (late + 1) (bt_insert seq content m) = None"
    using seq gap by (auto simp: bt_remove_None set_bt_insert)
  have "drain wr w1 = drain wr (write_one wr c (bt_insert seq content m) w1)" using first by (subst drain.simps) simp
  also have "\<dots> = write_one wr c (bt_insert seq content m) w1" using second by (subst drain.simps) (simp add: w1_def)
  finally have d: "drain wr w1 = write_one wr c (bt_insert seq content m) w1" .
  have "writer_recv wr seq content w = drain wr w1"
    using pending full seq by (simp add: writer_recv_def w1_def length_bt_insert)
  then show ?thesis using d pending late by (simp add: w1_def writer_tick_def)
qed

definition late_writer :: debug_writer where
  "late_writer = \<lparr> dw_buffer = [], dw_pending = (3, []) # map (\<lambda>k. (k + 10, [])) [0..<999], dw_next_seq = 7, dw_file = [], dw_writes = 0 \<rparr>"

theorem late_message_blocks_witness:
  "dw_next_seq late_writer = 7 \<and> dw_next_seq (writer_recv (\<lambda>_. None) 2000 [65] late_writer) = 4"
proof -
  have "by_key (dw_pending late_writer)"
    by (auto simp: late_writer_def comp_def sorted_wrt_map simp del: upt.simps upt_conv_Cons)
  moreover have "2000 \<notin> fst ` set (map (\<lambda>k. (k + 10 :: nat, [] :: bytes)) [0..<999])" "4 \<notin> fst ` set (map (\<lambda>k. (k + 10 :: nat, [] :: bytes)) [0..<999])"
    by auto
  ultimately show ?thesis
    using late_message_blocks [of late_writer 3 "[]" "map (\<lambda>k. (k + 10, [])) [0..<999]" 2000 "\<lambda>_. None" "[65]"]
    by (simp add: late_writer_def MAX_PENDING_MESSAGES_def)
qed

end
