(* ===== verification/Ntp_Clock.thy ===== *)
theory Ntp_Clock
  imports Text_Utils
begin

text \<open>
  Measuring the clock against a time server, from \<open>src/common/model/ntp.rs\<close>.  A \<open>DateTime\<close> or \<open>TimeDelta\<close> is its number of
  nanoseconds.  The socket and the clock are arguments, and so is the arithmetic with floating-point numbers that
  chooses how many samples are kept and averages them.
\<close>

section \<open>Time stamps\<close>

definition EPOCH_DELTA :: nat where
  "EPOCH_DELTA = 0x83AA7E80"

text \<open>\<open>DateTime::from_timestamp\<close> fails only for years far outside of what 32-bit seconds can express.\<close>

definition ntp_to_unix_timestamp :: "u64 \<Rightarrow> int" where
  "ntp_to_unix_timestamp ntp_ts =
     (let ntp_secs = int (unat (drop_bit 32 ntp_ts)); ntp_frac = ntp_ts AND 0xFFFFFFFF;
          unix_secs = ntp_secs - int EPOCH_DELTA; nanos = drop_bit 32 (ntp_frac * 1000000000)
      in unix_secs * 1000000000 + int (unat nanos))"

text \<open>A system time is the seconds and nanoseconds since 1970; earlier times are an error.\<close>

type_synonym system_time = "(nat \<times> nat) option"

datatype ntp_error = NtpProtocol | NtpIo | NtpTimeout | NtpTimeParse

definition system_time_to_ntp_timestamp :: "system_time \<Rightarrow> ntp_error + u64" where
  "system_time_to_ntp_timestamp t =
     (case t of
        None \<Rightarrow> Inl NtpTimeParse
      | Some (secs, nanos) \<Rightarrow>
          (let secs = of_nat secs + of_nat EPOCH_DELTA :: u64; frac = push_bit 32 (of_nat nanos) div 1000000000 :: u64
           in Inr (push_bit 32 secs OR frac)))"

section \<open>One measurement\<close>

record ntp_timestamps =
  nt_t1 :: int
  nt_t2 :: int
  nt_t3 :: int
  nt_t4 :: int

text \<open>\<open>TimeDelta\<close> divided by 2: seconds and nanoseconds separately, with a carry.\<close>

definition half_delta :: "int \<Rightarrow> int" where
  "half_delta d =
     (let secs = d div 1000000000; nanos = d mod 1000000000;
          q = (if secs < 0 then - ((- secs) div 2) else secs div 2); carry = secs - 2 * q;
          x = carry * 1000000000; extra = (if x < 0 then - ((- x) div 2) else x div 2); n = nanos div 2 + extra;
          (secs', nanos') = (if n < 0 then (q - 1, n + 1000000000) else if 1000000000 \<le> n then (q + 1, n - 1000000000) else (q, n))
      in secs' * 1000000000 + nanos')"

definition clock_offset :: "ntp_timestamps \<Rightarrow> int" where
  "clock_offset t = (let term1 = nt_t2 t - nt_t1 t; term2 = nt_t4 t - nt_t3 t in half_delta (term1 + term2))"

definition round_trip_delay :: "ntp_timestamps \<Rightarrow> int" where
  "round_trip_delay t = (let total_time = nt_t4 t - nt_t1 t; server_time = nt_t3 t - nt_t2 t in total_time - server_time)"

definition validate_ntp_response :: "bytes \<Rightarrow> ntp_error + unit" where
  "validate_ntp_response packet =
     (let mode = packet ! 0 AND 0x7; stratum = packet ! 1
      in if mode \<noteq> 4 then Inl NtpProtocol
         else if stratum = 0 then Inl NtpProtocol
         else if stratum = 16 then Inl NtpProtocol
         else if 17 \<le> stratum then Inl NtpProtocol
         else Inr ())"

definition PACKET_SIZE :: nat where
  "PACKET_SIZE = 48"

definition u64_to_be_bytes :: "u64 \<Rightarrow> bytes" where
  "u64_to_be_bytes w = to_ne Big 8 (unat w)"

definition u64_from_be_bytes :: "bytes \<Rightarrow> u64" where
  "u64_from_be_bytes bs = of_nat (of_ne Big bs)"

definition request_packet :: "u64 \<Rightarrow> bytes" where
  "request_packet t1 = (push_bit 3 4 OR 3) # replicate 39 0 @ u64_to_be_bytes t1"

text \<open>The answer is received into the same array, whose rest keeps the request; its length is not looked at.\<close>

definition received_packet :: "u64 \<Rightarrow> bytes \<Rightarrow> bytes" where
  "received_packet t1 datagram = take PACKET_SIZE datagram @ drop (length datagram) (request_packet t1)"

text \<open>Sending and receiving, each with a timeout: the datagram or an error.\<close>

definition send_and_receive_ntp_packet :: "system_time \<Rightarrow> ntp_error + bytes \<Rightarrow> system_time \<Rightarrow> ntp_error + bytes \<times> ntp_timestamps" where
  "send_and_receive_ntp_packet now1 answer now4 =
     (case system_time_to_ntp_timestamp now1 of
        Inl e \<Rightarrow> Inl e
      | Inr t1 \<Rightarrow>
          (case answer of
             Inl e \<Rightarrow> Inl e
           | Inr datagram \<Rightarrow>
               (case system_time_to_ntp_timestamp now4 of
                  Inl e \<Rightarrow> Inl e
                | Inr t4 \<Rightarrow>
                    (let packet = received_packet t1 datagram; t2 = u64_from_be_bytes (take 8 (drop 32 packet));
                         t3 = u64_from_be_bytes (take 8 (drop 40 packet))
                     in Inr (packet, \<lparr> nt_t1 = ntp_to_unix_timestamp t1, nt_t2 = ntp_to_unix_timestamp t2,
                          nt_t3 = ntp_to_unix_timestamp t3, nt_t4 = ntp_to_unix_timestamp t4 \<rparr>)))))"

definition num_nanoseconds :: "int \<Rightarrow> int option" where
  "num_nanoseconds d = (if - (2 ^ 63) \<le> d \<and> d < 2 ^ 63 then Some d else None)"

definition measure_once :: "system_time \<Rightarrow> ntp_error + bytes \<Rightarrow> system_time \<Rightarrow> ntp_error + int \<times> int" where
  "measure_once now1 answer now4 =
     (case send_and_receive_ntp_packet now1 answer now4 of
        Inl e \<Rightarrow> Inl e
      | Inr (packet, ts) \<Rightarrow>
          (case validate_ntp_response packet of
             Inl e \<Rightarrow> Inl e
           | Inr _ \<Rightarrow>
               (case (num_nanoseconds (clock_offset ts), num_nanoseconds (round_trip_delay ts)) of
                  (Some off, Some rtt) \<Rightarrow> Inr (off, rtt)
                | _ \<Rightarrow> Inl NtpProtocol)))"

section \<open>Several measurements\<close>

definition MAX_REASONABLE_DELTA :: int where
  "MAX_REASONABLE_DELTA = 86400 * 1000000000"

text \<open>\<open>ceil70\<close> rounds up seventy percent of a number, and \<open>average\<close> is the weighted mean, both in floating point.\<close>

definition sync_once :: "(nat \<Rightarrow> nat) \<Rightarrow> ((int \<times> int) list \<Rightarrow> int) \<Rightarrow> (ntp_error + int \<times> int) list \<Rightarrow> ntp_error + int" where
  "sync_once ceil70 average measured =
     (let samples = List.map_filter (\<lambda>r. case r of Inr s \<Rightarrow> Some s | Inl _ \<Rightarrow> None) measured; n = length samples
      in if n < 3 then Inl NtpProtocol
         else let samples = sort_key snd samples; keep_count = min (max (ceil70 n) 4) n;
                  clean_samples = dropWhile (\<lambda>s. snd s \<le> 0) (take keep_count samples)
              in if clean_samples = [] then Inl NtpProtocol
                 else let final_delta = average clean_samples
                      in if MAX_REASONABLE_DELTA < abs final_delta then Inl NtpProtocol else Inr final_delta)"

section \<open>Bytes of a time stamp\<close>

lemma length_u64_to_be_bytes [simp]: "length (u64_to_be_bytes t) = 8"
  by (simp add: u64_to_be_bytes_def)

lemma u64_be_roundtrip [simp]: "u64_from_be_bytes (u64_to_be_bytes t) = t"
  using of_to_ne [of "unat t" 8 Big] unsigned_less [of t, where ?'a = nat] by (simp add: u64_from_be_bytes_def u64_to_be_bytes_def)

section \<open>The offset is half the delay\<close>

lemma half_delta_eq: "half_delta d = d div 2"
proof -
  define s where "s = d div 1000000000"
  define n where "n = d mod 1000000000"
  have d: "d = s * 1000000000 + n" "0 \<le> n" "n < 1000000000" by (simp_all add: s_def n_def)
  define q where "q = (if s < 0 then - ((- s) div 2) else s div 2)"
  have "s - 2 * q = 0 \<or> s - 2 * q = 1 \<and> 0 \<le> s \<or> s - 2 * q = - 1 \<and> s < 0" unfolding q_def by (cases "s < 0") auto
  moreover have half: "(2 * a + n) div 2 = a + n div 2" for a by simp
  define m where "m = n div 2"
  have m: "0 \<le> m" "m < 500000000" using d by (auto simp: m_def)
  ultimately consider "s = 2 * q" "d div 2 = q * 1000000000 + m" | "s = 2 * q + 1" "d div 2 = q * 1000000000 + 500000000 + m"
    | "s = 2 * q - 1" "d div 2 = q * 1000000000 - 500000000 + m"
    using half [of "q * 1000000000"] half [of "q * 1000000000 + 500000000"] half [of "q * 1000000000 - 500000000"] d(1)
    by (auto simp: m_def algebra_simps)
  then show ?thesis
    by cases (use m in \<open>auto simp: half_delta_def Let_def s_def [symmetric] n_def [symmetric] q_def [symmetric] m_def [symmetric] algebra_simps\<close>)
qed

lemma clock_offset_eq: "clock_offset t = round_trip_delay t div 2"
  by (simp add: clock_offset_def round_trip_delay_def half_delta_eq algebra_simps)

text \<open>The measured offset of the clock is half the delay of the network, whatever the clocks show: the last two times are
  subtracted the wrong way round.  The error of the clock is not measured at all.\<close>

theorem clock_offset_is_half_delay:
  assumes "measure_once now1 answer now4 = Inr (off, rtt)"
  shows "off = rtt div 2"
  using assms by (auto simp: measure_once_def num_nanoseconds_def clock_offset_eq split: sum.splits prod.splits option.splits if_splits)

theorem clock_offset_is_half_delay_witness:
  "measure_once (Some (0, 0)) (Inr (0x24 # 1 # replicate 30 0 @ u64_to_be_bytes 0x83AA7E8500000000 @ u64_to_be_bytes 0x83AA7E8600000000)) (Some (10, 0)) =
     Inr (4500000000, 9000000000) \<and> (4500000000 :: int) = 9000000000 div 2"
proof -
  have "measure_once (Some (0, 0)) (Inr (0x24 # 1 # replicate 30 0 @ u64_to_be_bytes 0x83AA7E8500000000 @ u64_to_be_bytes 0x83AA7E8600000000)) (Some (10, 0)) =
     Inr (4500000000, 9000000000)"
  proof -
    let ?d = "0x24 # 1 # replicate 30 0 @ u64_to_be_bytes 0x83AA7E8500000000 @ u64_to_be_bytes 0x83AA7E8600000000 :: bytes"
    have t: "system_time_to_ntp_timestamp (Some (0, 0)) = Inr 0x83AA7E8000000000" "system_time_to_ntp_timestamp (Some (10, 0)) = Inr 0x83AA7E8A00000000"
      by (simp_all add: system_time_to_ntp_timestamp_def EPOCH_DELTA_def)
    have l: "length ?d = 48" by (simp add: u64_to_be_bytes_def)
    have d: "received_packet t1 ?d = ?d" for t1 using l by (simp add: received_packet_def PACKET_SIZE_def request_packet_def u64_to_be_bytes_def)
    have "take 8 (drop 32 ?d) = u64_to_be_bytes 0x83AA7E8500000000" "take 8 (drop 40 ?d) = u64_to_be_bytes 0x83AA7E8600000000"
      by (simp_all add: u64_to_be_bytes_def)
    then show ?thesis
      by (simp add: measure_once_def send_and_receive_ntp_packet_def t d validate_ntp_response_def ntp_to_unix_timestamp_def EPOCH_DELTA_def
          clock_offset_eq round_trip_delay_def num_nanoseconds_def word_le_nat_alt)
  qed
  then show ?thesis using clock_offset_is_half_delay by blast
qed

text \<open>The times of an exchange with a server whose clock is ahead by \<open>e\<close>.\<close>

definition exchange :: "int \<Rightarrow> int \<Rightarrow> int \<Rightarrow> int \<Rightarrow> int \<Rightarrow> ntp_timestamps" where
  "exchange start there work back e =
     \<lparr> nt_t1 = start, nt_t2 = start + there + e, nt_t3 = start + there + work + e, nt_t4 = start + there + work + back \<rparr>"

text \<open>With a server whose clock is ahead by \<open>e\<close> and two ways that take \<open>there\<close> and \<open>back\<close>, the offset does not depend
  on \<open>e\<close>; the textbook's formula gives twice \<open>e\<close> up to the difference of the ways.\<close>

theorem clock_error_not_measured:
  "clock_offset (exchange start there work back e) = (there + back) div 2 \<and>
   (let t = exchange start there work back e in (nt_t2 t - nt_t1 t) + (nt_t3 t - nt_t4 t) = 2 * e + (there - back))"
  by (simp add: exchange_def clock_offset_eq round_trip_delay_def)

section \<open>Time stamps there and back\<close>

lemma drop_bit_32_nat: "drop_bit 32 (x :: nat) = x div 4294967296"
  by (simp add: drop_bit_eq_div)

lemma unat_frac:
  assumes "n < 1000000000"
  shows "unat (push_bit 32 (of_nat n) div 1000000000 :: u64) = n * 4294967296 div 1000000000"
proof -
  have n: "unat (of_nat n :: u64) = n" using assms by (simp add: unsigned_of_nat take_bit_nat_eq_self)
  have "unat (push_bit 32 (of_nat n) :: u64) = take_bit 64 (push_bit 32 n)" unfolding unsigned_push_bit_eq n by simp
  also have "\<dots> = n * 4294967296" using assms by (simp add: push_bit_eq_mult take_bit_nat_eq_self)
  finally show ?thesis by (subst unat_div_distrib) simp
qed

lemma frac_bounds:
  fixes n :: nat
  assumes "n < 1000000000"
  defines "f \<equiv> n * 4294967296 div 1000000000"
  shows "f < 4294967296" and "n - 1 \<le> f * 1000000000 div 4294967296" and "f * 1000000000 div 4294967296 \<le> n"
proof -
  have f: "f * 1000000000 \<le> n * 4294967296" "n * 4294967296 < (f + 1) * 1000000000" unfolding f_def
    by (simp_all add: div_times_less_eq_dividend dividend_less_times_div)
  then show "f < 4294967296" using assms(1) by linarith
  have "f * 1000000000 div 4294967296 \<le> n * 4294967296 div 4294967296" by (rule div_le_mono [OF f(1)])
  then show "f * 1000000000 div 4294967296 \<le> n" by simp
  have "(n - 1) * 4294967296 \<le> f * 1000000000" using f(2) by (cases n) auto
  then have "(n - 1) * 4294967296 div 4294967296 \<le> f * 1000000000 div 4294967296" by (rule div_le_mono)
  then show "n - 1 \<le> f * 1000000000 div 4294967296" by simp
qed

lemma stamp_parts:
  fixes s f :: u64
  assumes "unat f < 4294967296"
  shows "unat (drop_bit 32 (push_bit 32 s OR f)) = unat s mod 4294967296" and "(push_bit 32 s OR f) AND 0xFFFFFFFF = f"
proof -
  have "take_bit 32 f = f" by (rule unsigned_word_eqI [where 'a = nat]) (use assms in \<open>simp add: unsigned_take_bit_eq take_bit_nat_eq_self\<close>)
  then have f: "bit f n \<Longrightarrow> n < 32" for n by (metis bit_take_bit_iff)
  have mask: "(0xFFFFFFFF :: u64) = mask 32" by (simp add: mask_eq_exp_minus_1)
  show "(push_bit 32 s OR f) AND 0xFFFFFFFF = f"
    unfolding mask by (rule bit_word_eqI) (auto simp: bit_simps dest: f)
  have "drop_bit 32 (push_bit 32 s OR f) = take_bit 32 s"
    by (rule bit_word_eqI) (auto simp: bit_simps dest: f)
  then have "unat (drop_bit 32 (push_bit 32 s OR f)) = take_bit 32 (unat s)" by (simp only: unsigned_take_bit_eq)
  then show "unat (drop_bit 32 (push_bit 32 s OR f)) = unat s mod 4294967296" by (simp only: take_bit_eq_mod) simp
qed

text \<open>The conversion to the protocol's time stamps and back loses at most a nanosecond, and whole eras of $2^{32}$ seconds: from
  7 February 2036 on every time is read as one 136 years earlier.\<close>

theorem ntp_timestamp_roundtrip:
  assumes "nanos < 1000000000" and "secs < 2 ^ 63"
  shows "\<exists>ts lost. system_time_to_ntp_timestamp (Some (secs, nanos)) = Inr ts \<and> lost \<in> {0, 1} \<and>
    ntp_to_unix_timestamp ts = (int secs - int ((secs + EPOCH_DELTA) div 2 ^ 32 * 2 ^ 32)) * 1000000000 + int nanos - lost"
proof -
  define f where "f = nanos * 4294967296 div 1000000000"
  define fr where "fr = (push_bit 32 (of_nat nanos) div 1000000000 :: u64)"
  define ts where "ts = push_bit 32 (of_nat secs + of_nat EPOCH_DELTA :: u64) OR fr"
  have fr: "unat fr = f" unfolding fr_def f_def by (rule unat_frac [OF assms(1)])
  have f: "f < 4294967296" "nanos - 1 \<le> f * 1000000000 div 4294967296" "f * 1000000000 div 4294967296 \<le> nanos"
    using frac_bounds [OF assms(1)] by (simp_all add: f_def)
  have "unat (of_nat secs + of_nat EPOCH_DELTA :: u64) = secs + EPOCH_DELTA"
    using assms(2) by (simp add: unat_word_ariths unsigned_of_nat take_bit_nat_eq_self EPOCH_DELTA_def)
  then have s: "unat (drop_bit 32 ts) = (secs + EPOCH_DELTA) mod 4294967296" using stamp_parts(1) [of fr] fr f(1) by (simp add: ts_def)
  have "unat (fr * 1000000000) = f * 1000000000" using fr f(1) by (simp add: unat_word_ariths)
  then have n: "unat (drop_bit 32 ((ts AND 0xFFFFFFFF) * 1000000000)) = f * 1000000000 div 4294967296"
    unfolding unsigned_drop_bit_eq ts_def using stamp_parts(2) [of fr] fr f(1) by (simp add: drop_bit_eq_div take_bit_nat_eq_self)
  define g where "g = f * 1000000000 div 4294967296"
  have "ntp_to_unix_timestamp ts = (int ((secs + EPOCH_DELTA) mod 4294967296) - int EPOCH_DELTA) * 1000000000 + int g"
    unfolding ntp_to_unix_timestamp_def Let_def s n g_def by (simp add: unsigned_take_bit_eq)
  moreover have "int ((secs + EPOCH_DELTA) mod 4294967296) = int (secs + EPOCH_DELTA) - int ((secs + EPOCH_DELTA) div 4294967296 * 4294967296)"
    by (simp add: minus_div_mult_eq_mod [symmetric] of_nat_diff)
  moreover have "int nanos - int g \<in> {0, 1}" using f unfolding g_def by auto
  moreover have "system_time_to_ntp_timestamp (Some (secs, nanos)) = Inr ts" by (simp add: system_time_to_ntp_timestamp_def ts_def fr_def)
  ultimately show ?thesis by (intro exI [of _ ts] exI [of _ "int nanos - int g"]) (auto simp: algebra_simps)
qed

theorem ntp_timestamp_roundtrip_witness:
  "\<exists>ts lost. system_time_to_ntp_timestamp (Some (1700000000, 5)) = Inr ts \<and> lost \<in> {0, 1} \<and>
    ntp_to_unix_timestamp ts = 1700000000 * 1000000000 + 5 - lost"
  using ntp_timestamp_roundtrip [of 5 1700000000] by (simp add: EPOCH_DELTA_def)

section \<open>Short answers\<close>

text \<open>An answer of two bytes that claims to be from a server is accepted: the rest of the packet is that of the request, and the
  time at which the server sent it is the client's own.\<close>

theorem short_answer_accepted:
  "\<exists>ts. send_and_receive_ntp_packet (Some (secs, nanos)) (Inr [0x24, 1]) (Some (secs', nanos')) = Inr (0x24 # 1 # replicate 38 0 @ u64_to_be_bytes t1, ts) \<and>
     validate_ntp_response (0x24 # 1 # replicate 38 0 @ u64_to_be_bytes t1) = Inr () \<and> nt_t3 ts = nt_t1 ts"
  if "system_time_to_ntp_timestamp (Some (secs, nanos)) = Inr t1"
proof -
  have p: "received_packet t1 [0x24, 1] = 0x24 # 1 # replicate 38 0 @ u64_to_be_bytes t1"
    by (simp add: received_packet_def request_packet_def PACKET_SIZE_def eval_nat_numeral)
  have "take 8 (drop 40 (received_packet t1 [0x24, 1])) = u64_to_be_bytes t1" by (simp add: p u64_to_be_bytes_def)
  moreover obtain t4 where "system_time_to_ntp_timestamp (Some (secs', nanos')) = Inr t4" by (simp add: system_time_to_ntp_timestamp_def)
  ultimately show ?thesis using that p by (simp add: send_and_receive_ntp_packet_def validate_ntp_response_def word_le_nat_alt)
qed

theorem short_answer_accepted_witness:
  "\<exists>ts. send_and_receive_ntp_packet (Some (0, 0)) (Inr [0x24, 1]) (Some (1, 0)) = Inr (0x24 # 1 # replicate 38 0 @ u64_to_be_bytes 0x83AA7E8000000000, ts) \<and>
     validate_ntp_response (0x24 # 1 # replicate 38 0 @ u64_to_be_bytes 0x83AA7E8000000000) = Inr () \<and> nt_t3 ts = nt_t1 ts"
  by (rule short_answer_accepted) (simp add: system_time_to_ntp_timestamp_def EPOCH_DELTA_def)

end
