(* ===== verification/Proxy_Pool.thy ===== *)
theory Proxy_Pool
  imports Text_Utils
begin

text \<open>
  The pool of proxies, from \<open>src/app/model/proxy_pool.rs\<close>, \<open>src/app/model/proxy_pool/proxy_url.rs\<close> and
  \<open>src/core/route/proxies.rs\<close>.  Its four cells are read and replaced as a whole, without a lock: an operation is a program
  over atomic loads and stores, which is run alone (\<open>run_alone\<close>) or interleaved with others (\<open>run_schedule\<close>).  A hash map
  is the list of its entries.
\<close>

section \<open>Proxies and clients\<close>

datatype single_proxy = Non | Sys | Url bytes

definition NON_PROXY :: bytes where
  "NON_PROXY = bytes_of ''non''"

definition SYS_PROXY :: bytes where
  "SYS_PROXY = bytes_of ''sys''"

text \<open>What is outside: which URLs \<open>Proxy::all\<close> accepts, for which proxies a client can be built, which key of a table an
  iterator gives first, and how the \<open>n\<close>-th write to the file ends.\<close>

record proxy_env =
  proxy_all :: "bytes \<Rightarrow> bool"
  builds :: "single_proxy \<Rightarrow> bool"
  first_key :: "bytes list \<Rightarrow> bytes"
  write_ok :: "nat \<Rightarrow> bool"

definition proxy_url_from_str :: "proxy_env \<Rightarrow> bytes \<Rightarrow> bytes option" where
  "proxy_url_from_str E s = (if proxy_all E s then Some s else None)"

definition single_proxy_from_str :: "proxy_env \<Rightarrow> bytes \<Rightarrow> single_proxy option" where
  "single_proxy_from_str E s =
     (if s = NON_PROXY then Some Non else if s = SYS_PROXY then Some Sys else map_option Url (proxy_url_from_str E s))"

fun single_proxy_display :: "single_proxy \<Rightarrow> bytes" where
  "single_proxy_display Non = NON_PROXY"
| "single_proxy_display Sys = SYS_PROXY"
| "single_proxy_display (Url u) = u"

text \<open>A client is the proxy it was built for and the number of the call that built it, which stands for its identity.\<close>

datatype client = Client (client_proxy: single_proxy) (client_no: nat)

type_synonym proxy_map = "(bytes \<times> single_proxy) list"
type_synonym client_map = "(single_proxy \<times> client) list"

definition default_proxies :: proxy_map where
  "default_proxies = [(SYS_PROXY, Sys)]"

datatype proxies_file = No_File | Broken | Saved proxy_map bytes

record proxy_pool =
  pp_proxies :: proxy_map
  pp_general_name :: bytes
  pp_clients :: client_map
  pp_general_client :: client
  pp_built :: nat
  pp_file :: proxies_file
  pp_writes :: nat

section \<open>Programs over the cells\<close>

datatype 'r proc =
    Return 'r
  | Undefined
  | Panicked
  | Load_Proxies "proxy_map \<Rightarrow> 'r proc"
  | Store_Proxies proxy_map "'r proc"
  | Load_General_Name "bytes \<Rightarrow> 'r proc"
  | Store_General_Name bytes "'r proc"
  | Load_Clients "client_map \<Rightarrow> 'r proc"
  | Store_Clients client_map "'r proc"
  | Load_General_Client "client \<Rightarrow> 'r proc"
  | Store_General_Client client "'r proc"
  | Build single_proxy "client \<Rightarrow> 'r proc"
  | Write_File proxy_map bytes "bool \<Rightarrow> 'r proc"

text \<open>One access.  A write that fails leaves an unusable file.\<close>

fun access :: "proxy_env \<Rightarrow> 'r proc \<Rightarrow> proxy_pool \<Rightarrow> 'r proc \<times> proxy_pool" where
  "access E (Return r) s = (Return r, s)"
| "access E Undefined s = (Undefined, s)"
| "access E Panicked s = (Panicked, s)"
| "access E (Load_Proxies k) s = (k (pp_proxies s), s)"
| "access E (Store_Proxies m p) s = (p, s\<lparr> pp_proxies := m \<rparr>)"
| "access E (Load_General_Name k) s = (k (pp_general_name s), s)"
| "access E (Store_General_Name n p) s = (p, s\<lparr> pp_general_name := n \<rparr>)"
| "access E (Load_Clients k) s = (k (pp_clients s), s)"
| "access E (Store_Clients m p) s = (p, s\<lparr> pp_clients := m \<rparr>)"
| "access E (Load_General_Client k) s = (k (pp_general_client s), s)"
| "access E (Store_General_Client c p) s = (p, s\<lparr> pp_general_client := c \<rparr>)"
| "access E (Build x k) s = (k (Client x (pp_built s)), s\<lparr> pp_built := pp_built s + 1 \<rparr>)"
| "access E (Write_File m g k) s =
     (let good = write_ok E (pp_writes s)
      in (k good, s\<lparr> pp_file := (if good then Saved m g else Broken), pp_writes := pp_writes s + 1 \<rparr>))"

primrec run_alone :: "proxy_env \<Rightarrow> 'r proc \<Rightarrow> proxy_pool \<Rightarrow> ('r \<times> proxy_pool) outcome" where
  "run_alone E (Return r) s = Done (r, s)"
| "run_alone E Undefined s = UB"
| "run_alone E Panicked s = Panic"
| "run_alone E (Load_Proxies k) s = run_alone E (k (pp_proxies s)) s"
| "run_alone E (Store_Proxies m p) s = run_alone E p (s\<lparr> pp_proxies := m \<rparr>)"
| "run_alone E (Load_General_Name k) s = run_alone E (k (pp_general_name s)) s"
| "run_alone E (Store_General_Name n p) s = run_alone E p (s\<lparr> pp_general_name := n \<rparr>)"
| "run_alone E (Load_Clients k) s = run_alone E (k (pp_clients s)) s"
| "run_alone E (Store_Clients m p) s = run_alone E p (s\<lparr> pp_clients := m \<rparr>)"
| "run_alone E (Load_General_Client k) s = run_alone E (k (pp_general_client s)) s"
| "run_alone E (Store_General_Client c p) s = run_alone E p (s\<lparr> pp_general_client := c \<rparr>)"
| "run_alone E (Build x k) s = run_alone E (k (Client x (pp_built s))) (s\<lparr> pp_built := pp_built s + 1 \<rparr>)"
| "run_alone E (Write_File m g k) s =
     run_alone E (k (write_ok E (pp_writes s)))
       (s\<lparr> pp_file := (if write_ok E (pp_writes s) then Saved m g else Broken), pp_writes := pp_writes s + 1 \<rparr>)"

text \<open>Threads take turns as a schedule tells.\<close>

fun run_schedule :: "proxy_env \<Rightarrow> nat list \<Rightarrow> 'r proc list \<Rightarrow> proxy_pool \<Rightarrow> 'r proc list \<times> proxy_pool" where
  "run_schedule E [] ts s = (ts, s)"
| "run_schedule E (i # sched) ts s =
     (if i < length ts then let (p, s') = access E (ts ! i) s in run_schedule E sched (ts[i := p]) s' else run_schedule E sched ts s)"

text \<open>How a thread has ended, if it has.\<close>

fun proc_result :: "'r proc \<Rightarrow> 'r outcome option" where
  "proc_result (Return r) = Some (Done r)"
| "proc_result Undefined = Some UB"
| "proc_result Panicked = Some Panic"
| "proc_result _ = None"

text \<open>A thread that is scheduled alone does what \<open>run_alone\<close> says.\<close>

lemma schedule_Suc: "run_schedule E (replicate (Suc n) 0) [p] s = (let (p', s') = access E p s in run_schedule E (replicate n 0) [p'] s')"
  by (simp add: case_prod_beta)

definition alone_as_scheduled :: "proxy_env \<Rightarrow> 'r proc \<Rightarrow> proxy_pool \<Rightarrow> nat \<Rightarrow> bool" where
  "alone_as_scheduled E p s n \<longleftrightarrow> (case run_alone E p s of
      Done (r, s') \<Rightarrow> run_schedule E (replicate n 0) [p] s = ([Return r], s')
    | UB \<Rightarrow> fst (run_schedule E (replicate n 0) [p] s) = [Undefined]
    | Panic \<Rightarrow> fst (run_schedule E (replicate n 0) [p] s) = [Panicked])"

lemma alone_as_scheduled_step:
  assumes "\<exists>n. alone_as_scheduled E (fst (access E p s)) (snd (access E p s)) n"
    and "run_alone E p s = run_alone E (fst (access E p s)) (snd (access E p s))"
  shows "\<exists>n. alone_as_scheduled E p s n"
proof -
  obtain n where "alone_as_scheduled E (fst (access E p s)) (snd (access E p s)) n" using assms(1) by blast
  then have "alone_as_scheduled E p s (Suc n)"
    using assms(2) by (simp add: alone_as_scheduled_def schedule_Suc case_prod_beta del: replicate_Suc split: outcome.splits)
  then show ?thesis by blast
qed

lemma run_alone_schedule: "\<exists>n. alone_as_scheduled E p s n"
proof (induction p arbitrary: s)
  case (Return r)
  show ?case by (rule exI [of _ 0]) (simp add: alone_as_scheduled_def)
next
  case Undefined
  show ?case by (rule exI [of _ 0]) (simp add: alone_as_scheduled_def)
next
  case Panicked
  show ?case by (rule exI [of _ 0]) (simp add: alone_as_scheduled_def)
qed (rule alone_as_scheduled_step; simp add: Let_def)+

section \<open>The pool\<close>

text \<open>\<open>to_proxy\<close> takes the result of \<open>Proxy::all\<close> without looking, and a client that cannot be built is a panic.\<close>

definition insert_to :: "proxy_env \<Rightarrow> single_proxy \<Rightarrow> client_map \<Rightarrow> (client_map \<Rightarrow> 'r proc) \<Rightarrow> 'r proc" where
  "insert_to E x clients k =
     (if (case x of Url u \<Rightarrow> \<not> proxy_all E u | _ \<Rightarrow> False) then Undefined
      else if \<not> builds E x then Panicked
      else Build x (\<lambda>c. k ((x, c) # filter (\<lambda>e. fst e \<noteq> x) clients)))"

fun insert_all_to :: "proxy_env \<Rightarrow> single_proxy list \<Rightarrow> client_map \<Rightarrow> (client_map \<Rightarrow> 'r proc) \<Rightarrow> 'r proc" where
  "insert_all_to E [] clients k = k clients"
| "insert_all_to E (x # xs) clients k =
     (if map_of clients x = None then insert_to E x clients (\<lambda>clients. insert_all_to E xs clients k) else insert_all_to E xs clients k)"

text \<open>The start: an empty configuration becomes the default one, an unknown general name the first known one.\<close>

definition proxies_init :: "proxy_env \<Rightarrow> proxy_map \<Rightarrow> bytes \<Rightarrow> proxies_file \<Rightarrow> proxy_pool outcome" where
  "proxies_init E proxies general file =
     (let (proxies, general) =
            (if proxies = [] then (default_proxies, SYS_PROXY)
             else if map_of proxies general = None then (proxies, first_key E (map fst proxies)) else (proxies, general));
          s0 = \<lparr> pp_proxies = proxies, pp_general_name = general, pp_clients = [], pp_general_client = Client Non 0, pp_built = 0,
                 pp_file = file, pp_writes = 0 \<rparr>
      in bind_outcome (run_alone E (insert_all_to E (remdups (map snd proxies)) [] Return) s0) (\<lambda>(clients, s).
           case map_of proxies general of
             None \<Rightarrow> UB
           | Some x \<Rightarrow> (case map_of clients x of None \<Rightarrow> UB | Some c \<Rightarrow> Done (s\<lparr> pp_clients := clients, pp_general_client := c \<rparr>))))"

definition update_global :: "proxy_map \<Rightarrow> bytes \<Rightarrow> 'r proc \<Rightarrow> 'r proc" where
  "update_global proxies general k = Store_Proxies proxies (Store_General_Name general k)"

definition set_general :: "'r proc \<Rightarrow> 'r proc" where
  "set_general k =
     Load_Clients (\<lambda>clients. Load_Proxies (\<lambda>proxies. Load_General_Name (\<lambda>general.
       case map_of proxies general of
         None \<Rightarrow> Undefined
       | Some x \<Rightarrow> (case map_of clients x of None \<Rightarrow> Undefined | Some c \<Rightarrow> Store_General_Client c k))))"

text \<open>The second half of \<open>update_global_pool\<close>, with the configuration as it was loaded.\<close>

definition update_clients :: "proxy_env \<Rightarrow> proxy_map \<Rightarrow> bytes \<Rightarrow> client_map \<Rightarrow> 'r proc \<Rightarrow> 'r proc" where
  "update_clients E proxies general clients k =
     (let current = remdups (map snd proxies); kept = filter (\<lambda>e. fst e \<in> set current) clients
      in insert_all_to E current kept (\<lambda>clients. Store_Clients clients (Store_General_Name general (set_general k))))"

definition update_global_pool :: "proxy_env \<Rightarrow> 'r proc \<Rightarrow> 'r proc" where
  "update_global_pool E k =
     Load_Proxies (\<lambda>proxies. Load_General_Name (\<lambda>general. Load_Clients (\<lambda>clients.
       if proxies = [] then Store_Proxies default_proxies (update_clients E proxies (if general \<noteq> SYS_PROXY then SYS_PROXY else general) clients k)
       else if map_of proxies general = None then update_clients E proxies (first_key E (map fst proxies)) clients k
       else update_clients E proxies general clients k)))"

definition proxies_save :: "(bool \<Rightarrow> 'r proc) \<Rightarrow> 'r proc" where
  "proxies_save k = Load_Proxies (\<lambda>proxies. Load_General_Name (\<lambda>general. Write_File proxies general k))"

definition update_and_save :: "proxy_env \<Rightarrow> (bool \<Rightarrow> 'r proc) \<Rightarrow> 'r proc" where
  "update_and_save E k = update_global_pool E (proxies_save k)"

text \<open>The archive in the file is read without validation.\<close>

fun proxies_load :: "proxies_file \<Rightarrow> (proxy_map \<times> bytes) outcome" where
  "proxies_load No_File = Done (default_proxies, SYS_PROXY)"
| "proxies_load Broken = UB"
| "proxies_load (Saved proxies general) = Done (proxies, general)"

definition get_general_client :: "client proc" where
  "get_general_client = Load_General_Client Return"

definition get_client :: "bytes \<Rightarrow> client proc" where
  "get_client name =
     Load_Proxies (\<lambda>proxies.
       case map_of proxies name of
         Some x \<Rightarrow> Load_Clients (\<lambda>clients. case map_of clients x of Some c \<Rightarrow> Return c | None \<Rightarrow> get_general_client)
       | None \<Rightarrow> get_general_client)"

definition get_client_or_general :: "bytes option \<Rightarrow> client proc" where
  "get_client_or_general name = (case name of Some name \<Rightarrow> get_client name | None \<Rightarrow> get_general_client)"

section \<open>The routes\<close>

datatype delete_expectation = Simple | UpdatedTokens | FailedTokens | Detailed

fun needs_updated_tokens :: "delete_expectation \<Rightarrow> bool" where
  "needs_updated_tokens e \<longleftrightarrow> e = UpdatedTokens \<or> e = Detailed"

fun needs_failed_tokens :: "delete_expectation \<Rightarrow> bool" where
  "needs_failed_tokens e \<longleftrightarrow> e = FailedTokens \<or> e = Detailed"

datatype proxy_message = GeneralProxySet | ProxyConfigUpdated | NoNewProxyAdded | ProxiesAdded nat

datatype proxy_response =
    Proxy_Info "proxy_map option" nat "bytes option" "proxy_message option"
  | Proxies_Deleted "proxy_map option" "bytes list option"
  | Proxy_Common proxy_message
  | Save_Failed
  | Name_Not_Found

definition handle_get_proxies :: "proxy_response proc" where
  "handle_get_proxies =
     Load_Proxies (\<lambda>proxies. Load_General_Name (\<lambda>general. Return (Proxy_Info (Some proxies) (length proxies) (Some general) None)))"

definition handle_set_proxies :: "proxy_env \<Rightarrow> proxy_map \<Rightarrow> bytes \<Rightarrow> proxy_response proc" where
  "handle_set_proxies E proxies general =
     update_global proxies general (update_and_save E (\<lambda>good.
       if \<not> good then Return Save_Failed
       else Load_Proxies (\<lambda>proxies. Return (Proxy_Info None (length proxies) None (Some ProxyConfigUpdated)))))"

text \<open>The entries of a request are inserted one by one; their names are new.\<close>

definition handle_add_proxy :: "proxy_env \<Rightarrow> proxy_map \<Rightarrow> proxy_response proc" where
  "handle_add_proxy E request =
     Load_Proxies (\<lambda>current.
       let proxies = filter (\<lambda>e. map_of current (fst e) = None) request
       in if proxies = [] then Return (Proxy_Info (Some current) (length current) None (Some NoNewProxyAdded))
          else Store_Proxies (current @ proxies) (update_and_save E (\<lambda>good.
            if \<not> good then Return Save_Failed
            else Load_Proxies (\<lambda>updated. Return (Proxy_Info None (length updated) None (Some (ProxiesAdded (length proxies))))))))"

definition handle_delete_proxies :: "proxy_env \<Rightarrow> bytes list \<Rightarrow> delete_expectation \<Rightarrow> proxy_response proc" where
  "handle_delete_proxies E names expectation =
     Load_Proxies (\<lambda>current.
       let processing = filter (\<lambda>n. map_of current n \<noteq> None) names; failed = filter (\<lambda>n. map_of current n = None) names;
           finish = update_and_save E (\<lambda>good.
             if \<not> good then Return Save_Failed
             else let result = (\<lambda>updated. Return (Proxies_Deleted updated (if needs_failed_tokens expectation \<and> failed \<noteq> [] then Some failed else None)))
                  in if needs_updated_tokens expectation then Load_Proxies (\<lambda>proxies. result (Some proxies)) else result None)
       in if processing \<noteq> []
          then let m = filter (\<lambda>e. fst e \<notin> set processing) current
               in Store_Proxies (if m = [] then default_proxies else m) finish
          else finish)"

definition handle_set_general_proxy :: "proxy_env \<Rightarrow> bytes \<Rightarrow> proxy_response proc" where
  "handle_set_general_proxy E name =
     Load_Proxies (\<lambda>proxies.
       if map_of proxies name = None then Return Name_Not_Found
       else Store_General_Name name (update_and_save E (\<lambda>good. if \<not> good then Return Save_Failed else Return (Proxy_Common GeneralProxySet))))"

datatype proxy_request =
    Get_Proxies
  | Set_Proxies proxy_map bytes
  | Add_Proxy proxy_map
  | Delete_Proxies "bytes list" delete_expectation
  | Set_General_Proxy bytes

fun proxy_route :: "proxy_env \<Rightarrow> proxy_request \<Rightarrow> proxy_response proc" where
  "proxy_route E Get_Proxies = handle_get_proxies"
| "proxy_route E (Set_Proxies proxies general) = handle_set_proxies E proxies general"
| "proxy_route E (Add_Proxy proxies) = handle_add_proxy E proxies"
| "proxy_route E (Delete_Proxies names expectation) = handle_delete_proxies E names expectation"
| "proxy_route E (Set_General_Proxy name) = handle_set_general_proxy E name"

section \<open>Names of proxies\<close>

text \<open>A proxy read from a request is written as the text it was read from, and reading it again gives the same proxy.\<close>

theorem single_proxy_roundtrip:
  assumes "single_proxy_from_str E t = Some x"
  shows "single_proxy_display x = t" and "single_proxy_from_str E (single_proxy_display x) = Some x"
  using assms by (auto simp: single_proxy_from_str_def proxy_url_from_str_def split: if_splits)

section \<open>The invariant\<close>

text \<open>What the code relies on: a client can be built for every accepted proxy, and the first key of a table is one of its keys.\<close>

fun acceptable :: "proxy_env \<Rightarrow> single_proxy \<Rightarrow> bool" where
  "acceptable E (Url u) \<longleftrightarrow> proxy_all E u"
| "acceptable E x \<longleftrightarrow> True"

definition proxy_env_ok :: "proxy_env \<Rightarrow> bool" where
  "proxy_env_ok E \<longleftrightarrow> (\<forall>x. acceptable E x \<longrightarrow> builds E x) \<and> (\<forall>ks. ks \<noteq> [] \<longrightarrow> first_key E ks \<in> set ks)"

lemma proxy_env_okD: "proxy_env_ok E \<Longrightarrow> acceptable E x \<Longrightarrow> builds E x" "proxy_env_ok E \<Longrightarrow> ks \<noteq> [] \<Longrightarrow> first_key E ks \<in> set ks"
  by (simp_all add: proxy_env_ok_def)

definition config_ok :: "proxy_env \<Rightarrow> proxy_map \<Rightarrow> bool" where
  "config_ok E m \<longleftrightarrow> m \<noteq> [] \<and> distinct (map fst m) \<and> list_all (\<lambda>e. acceptable E (snd e)) m"

definition clients_ok :: "client_map \<Rightarrow> bool" where
  "clients_ok cl \<longleftrightarrow> (\<forall>x c. map_of cl x = Some c \<longrightarrow> client_proxy c = x)"

definition pool_inv :: "proxy_env \<Rightarrow> proxy_pool \<Rightarrow> bool" where
  "pool_inv E s \<longleftrightarrow> config_ok E (pp_proxies s) \<and> clients_ok (pp_clients s) \<and>
     dom (map_of (pp_clients s)) = snd ` set (pp_proxies s) \<and>
     (\<exists>x. map_of (pp_proxies s) (pp_general_name s) = Some x \<and> map_of (pp_clients s) x = Some (pp_general_client s))"

text \<open>Clients that are needed again are kept.\<close>

definition clients_kept :: "client_map \<Rightarrow> proxy_map \<Rightarrow> client_map \<Rightarrow> bool" where
  "clients_kept cl m cl' \<longleftrightarrow> (\<forall>x c. map_of cl x = Some c \<longrightarrow> x \<in> snd ` set m \<longrightarrow> map_of cl' x = Some c)"

lemma map_of_filter_keys: "map_of (filter (\<lambda>e. P (fst e)) m) k = (if P k then map_of m k else None)"
  by (induction m) auto

lemma insert_to_run:
  assumes "proxy_env_ok E" and "acceptable E x"
  shows "run_alone E (insert_to E x clients k) s =
    run_alone E (k ((x, Client x (pp_built s)) # filter (\<lambda>e. fst e \<noteq> x) clients)) (s\<lparr> pp_built := pp_built s + 1 \<rparr>)"
proof -
  have "builds E x" by (rule proxy_env_okD(1) [OF assms])
  then show ?thesis using assms(2) by (cases x) (simp_all add: insert_to_def)
qed

lemma insert_all_to_run:
  assumes "proxy_env_ok E"
  shows "list_all (acceptable E) xs \<Longrightarrow> clients_ok clients \<Longrightarrow> \<exists>cl n.
    run_alone E (insert_all_to E xs clients k) s = run_alone E (k cl) (s\<lparr> pp_built := n \<rparr>) \<and>
    dom (map_of cl) = dom (map_of clients) \<union> set xs \<and> clients_ok cl \<and> (\<forall>x c. map_of clients x = Some c \<longrightarrow> map_of cl x = Some c)"
proof (induction xs arbitrary: clients s)
  case Nil
  then show ?case by (intro exI [of _ clients] exI [of _ "pp_built s"]) simp
next
  case (Cons x xs)
  then have xs: "list_all (acceptable E) xs" by simp
  show ?case
  proof (cases "map_of clients x")
    case None
    let ?cl = "(x, Client x (pp_built s)) # filter (\<lambda>e. fst e \<noteq> x) clients"
    let ?s = "s\<lparr> pp_built := pp_built s + 1 \<rparr>"
    have m: "map_of ?cl = (map_of clients)(x \<mapsto> Client x (pp_built s))"
      using map_of_filter_keys [of "\<lambda>y. y \<noteq> x" clients] by (auto simp: fun_eq_iff)
    have ok: "clients_ok ?cl" unfolding clients_ok_def m using Cons.prems(2) by (simp add: clients_ok_def)
    obtain cl n where r: "run_alone E (insert_all_to E xs ?cl k) ?s = run_alone E (k cl) (?s\<lparr> pp_built := n \<rparr>)"
      and d: "dom (map_of cl) = dom (map_of ?cl) \<union> set xs" and o: "clients_ok cl" and e: "\<forall>y c. map_of ?cl y = Some c \<longrightarrow> map_of cl y = Some c"
      using Cons.IH [OF xs ok, of ?s] by blast
    have e': "map_of cl y = Some c" if "map_of clients y = Some c" for y c
    proof -
      have "y \<noteq> x" using that None by auto
      then have "map_of ?cl y = Some c" unfolding m using that by simp
      then show ?thesis using e by blast
    qed
    have "run_alone E (insert_all_to E (x # xs) clients k) s = run_alone E (k cl) (s\<lparr> pp_built := n \<rparr>)"
      using r None insert_to_run [OF assms, of x clients "\<lambda>clients. insert_all_to E xs clients k" s] Cons.prems(1) by simp
    then show ?thesis using d o e' unfolding m by (intro exI [of _ cl] exI [of _ n]) auto
  next
    case (Some c)
    then have "x \<in> dom (map_of clients)" by (simp add: domI)
    then show ?thesis using Cons.IH [OF _ Cons.prems(2), of s] Cons.prems(1) Some by (simp add: insert_absorb)
  qed
qed

lemma config_okD: "config_ok E m \<Longrightarrow> m \<noteq> []" "config_ok E m \<Longrightarrow> list_all (acceptable E) (remdups (map snd m))"
  by (auto simp: config_ok_def list_all_iff)

lemma config_ok_default: "config_ok E default_proxies"
  by (simp add: config_ok_def default_proxies_def)

lemma update_clients_run:
  assumes env: "proxy_env_ok E" and conf: "config_ok E (pp_proxies s)" and cl: "clients_ok clients" and g: "map_of (pp_proxies s) general \<noteq> None"
  shows "\<exists>s'. run_alone E (update_clients E (pp_proxies s) general clients k) s = run_alone E k s' \<and> pool_inv E s' \<and>
    pp_proxies s' = pp_proxies s \<and> pp_general_name s' = general \<and> clients_kept clients (pp_proxies s) (pp_clients s')"
proof -
  let ?cur = "remdups (map snd (pp_proxies s))"
  let ?kept = "filter (\<lambda>e. fst e \<in> set ?cur) clients"
  let ?k = "\<lambda>clients. Store_Clients clients (Store_General_Name general (set_general k))"
  have m: "map_of ?kept x = (if x \<in> set ?cur then map_of clients x else None)" for x by (rule map_of_filter_keys)
  have kept: "clients_ok ?kept" unfolding clients_ok_def m using cl by (simp add: clients_ok_def)
  obtain cl' n where r: "run_alone E (insert_all_to E ?cur ?kept ?k) s = run_alone E (?k cl') (s\<lparr> pp_built := n \<rparr>)"
    and d: "dom (map_of cl') = dom (map_of ?kept) \<union> set ?cur" and o: "clients_ok cl'" and e: "\<forall>x c. map_of ?kept x = Some c \<longrightarrow> map_of cl' x = Some c"
    using insert_all_to_run [OF env config_okD(2) [OF conf] kept, of ?k s] by blast
  have "dom (map_of ?kept) \<subseteq> set ?cur" unfolding dom_def m by auto
  then have dom: "dom (map_of cl') = snd ` set (pp_proxies s)" using d by auto
  obtain x where x: "map_of (pp_proxies s) general = Some x" using g by auto
  then have "x \<in> snd ` set (pp_proxies s)" using map_of_SomeD by force
  then obtain c where c: "map_of cl' x = Some c" using dom by (metis domD)
  let ?s = "s\<lparr> pp_built := n, pp_clients := cl', pp_general_name := general, pp_general_client := c \<rparr>"
  have "run_alone E (update_clients E (pp_proxies s) general clients k) s = run_alone E k ?s"
    using r x c by (simp add: update_clients_def set_general_def)
  moreover have "pool_inv E ?s" using conf o dom x c by (simp add: pool_inv_def)
  moreover have "clients_kept clients (pp_proxies s) cl'" using e unfolding m clients_kept_def by simp
  ultimately show ?thesis by (intro exI [of _ ?s]) simp
qed

text \<open>The general name after an update.\<close>

definition general_of :: "proxy_env \<Rightarrow> proxy_map \<Rightarrow> bytes \<Rightarrow> bytes" where
  "general_of E m general = (if map_of m general = None then first_key E (map fst m) else general)"

lemma update_global_pool_run:
  assumes env: "proxy_env_ok E" and conf: "config_ok E (pp_proxies s)" and cl: "clients_ok (pp_clients s)"
  shows "\<exists>s'. run_alone E (update_global_pool E k) s = run_alone E k s' \<and> pool_inv E s' \<and> pp_proxies s' = pp_proxies s \<and>
    pp_general_name s' = general_of E (pp_proxies s) (pp_general_name s) \<and> clients_kept (pp_clients s) (pp_proxies s) (pp_clients s')"
proof -
  have "first_key E (map fst (pp_proxies s)) \<in> set (map fst (pp_proxies s))"
    by (rule proxy_env_okD(2) [OF env]) (use config_okD(1) [OF conf] in simp)
  then have "map_of (pp_proxies s) (general_of E (pp_proxies s) (pp_general_name s)) \<noteq> None"
    by (simp add: general_of_def map_of_eq_None_iff)
  then obtain s' where s': "run_alone E (update_clients E (pp_proxies s) (general_of E (pp_proxies s) (pp_general_name s)) (pp_clients s) k) s = run_alone E k s'"
    "pool_inv E s'" "pp_proxies s' = pp_proxies s" "pp_general_name s' = general_of E (pp_proxies s) (pp_general_name s)"
    "clients_kept (pp_clients s) (pp_proxies s) (pp_clients s')"
    using update_clients_run [OF env conf cl] by meson
  have "run_alone E (update_global_pool E k) s = run_alone E k s'"
    using s'(1) config_okD(1) [OF conf] by (auto simp: update_global_pool_def general_of_def split: if_splits)
  then show ?thesis using s' by blast
qed

text \<open>An update followed by saving: the answer depends on the write, the pool does not.\<close>

definition pool_updated :: "proxy_env \<Rightarrow> proxy_map \<Rightarrow> bytes \<Rightarrow> client_map \<Rightarrow> proxy_pool \<Rightarrow> bool" where
  "pool_updated E m general cl s \<longleftrightarrow> pool_inv E s \<and> pp_proxies s = m \<and> pp_general_name s = general_of E m general \<and>
     clients_kept cl m (pp_clients s)"

lemma update_and_save_run:
  assumes env: "proxy_env_ok E" and conf: "config_ok E (pp_proxies s)" and cl: "clients_ok (pp_clients s)"
  shows "\<exists>s' good. run_alone E (update_and_save E k) s = run_alone E (k good) s' \<and>
    pool_updated E (pp_proxies s) (pp_general_name s) (pp_clients s) s'"
proof -
  obtain s1 where s1: "run_alone E (update_global_pool E (proxies_save k)) s = run_alone E (proxies_save k) s1" "pool_inv E s1"
    "pp_proxies s1 = pp_proxies s" "pp_general_name s1 = general_of E (pp_proxies s) (pp_general_name s)"
    "clients_kept (pp_clients s) (pp_proxies s) (pp_clients s1)"
    using update_global_pool_run [OF assms, of "proxies_save k"] by blast
  define good where "good = write_ok E (pp_writes s1)"
  define s2 where "s2 = s1\<lparr> pp_file := (if good then Saved (pp_proxies s1) (pp_general_name s1) else Broken), pp_writes := pp_writes s1 + 1 \<rparr>"
  have "run_alone E (update_and_save E k) s = run_alone E (k good) s2"
    using s1(1) by (simp add: update_and_save_def proxies_save_def good_def s2_def)
  moreover have "pool_updated E (pp_proxies s) (pp_general_name s) (pp_clients s) s2"
    using s1 by (simp add: pool_updated_def s2_def pool_inv_def)
  ultimately show ?thesis by blast
qed

section \<open>The routes, one at a time\<close>

text \<open>Requests as they are parsed: keys occur once and URLs have been accepted.\<close>

fun request_ok :: "proxy_env \<Rightarrow> proxy_request \<Rightarrow> bool" where
  "request_ok E (Set_Proxies m _) \<longleftrightarrow> distinct (map fst m) \<and> list_all (\<lambda>e. acceptable E (snd e)) m"
| "request_ok E (Add_Proxy m) \<longleftrightarrow> distinct (map fst m) \<and> list_all (\<lambda>e. acceptable E (snd e)) m"
| "request_ok E _ \<longleftrightarrow> True"

text \<open>A request that sets an empty table of proxies.\<close>

fun sets_nothing :: "proxy_request \<Rightarrow> bool" where
  "sets_nothing (Set_Proxies m _) \<longleftrightarrow> m = []"
| "sets_nothing _ \<longleftrightarrow> False"

text \<open>What the routes promise: the configuration after a request.\<close>

fun spec_proxies :: "proxy_request \<Rightarrow> proxy_map \<Rightarrow> proxy_map" where
  "spec_proxies (Set_Proxies m _) _ = m"
| "spec_proxies (Add_Proxy new) m = m @ filter (\<lambda>e. map_of m (fst e) = None) new"
| "spec_proxies (Delete_Proxies names _) m =
     (let m' = filter (\<lambda>e. fst e \<notin> set names) m in if m' = [] then default_proxies else m')"
| "spec_proxies _ m = m"

fun spec_general :: "proxy_request \<Rightarrow> proxy_map \<Rightarrow> bytes \<Rightarrow> bytes" where
  "spec_general (Set_Proxies _ general) _ _ = general"
| "spec_general (Set_General_Proxy name) m general = (if map_of m name = None then general else name)"
| "spec_general _ _ general = general"

lemma pool_updated_refl: "pool_inv E s \<Longrightarrow> pool_updated E (pp_proxies s) (pp_general_name s) (pp_clients s) s"
  by (auto simp: pool_updated_def pool_inv_def general_of_def clients_kept_def)

lemma stored_run:
  assumes env: "proxy_env_ok E" and inv: "pool_inv E s" and conf: "config_ok E m"
    and ret: "\<And>good s'. \<exists>r. run_alone E (k good) s' = Done (r, s')"
  shows "\<exists>r s'. run_alone E (update_and_save E k) (s\<lparr> pp_proxies := m, pp_general_name := g \<rparr>) = Done (r, s') \<and>
    pool_updated E m g (pp_clients s) s'"
proof -
  let ?s = "s\<lparr> pp_proxies := m, pp_general_name := g \<rparr>"
  have "config_ok E (pp_proxies ?s)" "clients_ok (pp_clients ?s)" using conf inv by (simp_all add: pool_inv_def)
  then obtain s' good where "run_alone E (update_and_save E k) ?s = run_alone E (k good) s'" "pool_updated E m g (pp_clients s) s'"
    using update_and_save_run [OF env, of ?s k] by auto
  then show ?thesis using ret [of good s'] by auto
qed

lemma config_ok_add:
  assumes "config_ok E m" and "distinct (map fst new)" and "list_all (\<lambda>e. acceptable E (snd e)) new"
  shows "config_ok E (m @ filter (\<lambda>e. map_of m (fst e) = None) new)"
  using assms by (auto simp: config_ok_def list_all_iff map_of_eq_None_iff distinct_map_filter image_iff)

lemma config_ok_delete:
  assumes "config_ok E m"
  shows "config_ok E (let m' = filter (\<lambda>e. P (fst e)) m in if m' = [] then default_proxies else m')"
  using assms by (auto simp: default_proxies_def Let_def config_ok_def list_all_iff distinct_map_filter)

lemma delete_processing:
  "filter (\<lambda>e. fst e \<notin> set (filter (\<lambda>n. map_of m n \<noteq> None) names)) m = filter (\<lambda>e. fst e \<notin> set names) m"
  by (rule filter_cong) (auto simp: map_of_eq_None_iff)

lemma delete_nothing:
  assumes "filter (\<lambda>n. map_of m n \<noteq> None) names = []"
  shows "filter (\<lambda>e. fst e \<notin> set names) m = m"
  using assms by (auto simp: filter_empty_conv filter_id_conv map_of_eq_None_iff)

lemma route_run:
  assumes env: "proxy_env_ok E" and inv: "pool_inv E s" and req: "request_ok E r" "\<not> sets_nothing r"
  shows "\<exists>a s'. run_alone E (proxy_route E r) s = Done (a, s') \<and>
    pool_updated E (spec_proxies r (pp_proxies s)) (spec_general r (pp_proxies s) (pp_general_name s)) (pp_clients s) s'"
proof (cases r)
  case Get_Proxies
  then show ?thesis using pool_updated_refl [OF inv] by (simp add: handle_get_proxies_def)
next
  case (Set_Proxies m g)
  then have "config_ok E m" using req by (simp add: config_ok_def)
  then show ?thesis
    using Set_Proxies stored_run [OF env inv, of m "\<lambda>good. if \<not> good then Return Save_Failed
       else Load_Proxies (\<lambda>proxies. Return (Proxy_Info None (length proxies) None (Some ProxyConfigUpdated)))" g]
    by (auto simp: handle_set_proxies_def update_global_def)
next
  case (Add_Proxy new)
  let ?new = "filter (\<lambda>e. map_of (pp_proxies s) (fst e) = None) new"
  show ?thesis
  proof (cases "?new = []")
    case True
    then show ?thesis using Add_Proxy pool_updated_refl [OF inv] by (simp add: handle_add_proxy_def)
  next
    case False
    have "config_ok E (pp_proxies s @ ?new)" using req inv Add_Proxy by (simp add: pool_inv_def config_ok_add)
    then show ?thesis
      using Add_Proxy False stored_run [OF env inv, of "pp_proxies s @ ?new" "\<lambda>good. if \<not> good then Return Save_Failed
            else Load_Proxies (\<lambda>updated. Return (Proxy_Info None (length updated) None (Some (ProxiesAdded (length ?new)))))" "pp_general_name s"]
      by (auto simp: handle_add_proxy_def Let_def)
  qed
next
  case (Delete_Proxies names ex)
  let ?m = "pp_proxies s"
  let ?left = "let m' = filter (\<lambda>e. fst e \<notin> set names) ?m in if m' = [] then default_proxies else m'"
  let ?failed = "filter (\<lambda>n. map_of ?m n = None) names"
  let ?k = "\<lambda>good. if \<not> good then Return Save_Failed
             else let result = (\<lambda>updated. Return (Proxies_Deleted updated (if needs_failed_tokens ex \<and> ?failed \<noteq> [] then Some ?failed else None)))
                  in if needs_updated_tokens ex then Load_Proxies (\<lambda>proxies. result (Some proxies)) else result None"
  have "config_ok E ?m" using inv by (simp add: pool_inv_def)
  then have "config_ok E ?left" by (rule config_ok_delete)
  moreover have "\<exists>a. run_alone E (?k good) s' = Done (a, s')" for good s' by (simp add: Let_def)
  ultimately obtain a s' where a: "run_alone E (update_and_save E ?k) (s\<lparr> pp_proxies := ?left, pp_general_name := pp_general_name s \<rparr>) = Done (a, s')"
    "pool_updated E ?left (pp_general_name s) (pp_clients s) s'"
    using stored_run [OF env inv, of ?left ?k "pp_general_name s"] by blast
  have "?left = ?m" if "filter (\<lambda>n. map_of ?m n \<noteq> None) names = []"
    using delete_nothing [OF that] config_okD(1) [OF \<open>config_ok E ?m\<close>] by simp
  then have "run_alone E (handle_delete_proxies E names ex) s = Done (a, s')"
    using a(1) delete_processing [of ?m names] by (cases "filter (\<lambda>n. map_of ?m n \<noteq> None) names = []") (simp_all add: handle_delete_proxies_def Let_def)
  then show ?thesis using a(2) Delete_Proxies by auto
next
  case (Set_General_Proxy name)
  show ?thesis
  proof (cases "map_of (pp_proxies s) name = None")
    case True
    then show ?thesis using Set_General_Proxy pool_updated_refl [OF inv] by (simp add: handle_set_general_proxy_def)
  next
    case False
    have "config_ok E (pp_proxies s)" using inv by (simp add: pool_inv_def)
    then show ?thesis
      using Set_General_Proxy False stored_run [OF env inv, of "pp_proxies s" "\<lambda>good. if \<not> good then Return Save_Failed else Return (Proxy_Common GeneralProxySet)" name]
      by (auto simp: handle_set_general_proxy_def)
  qed
qed

text \<open>A request that sets an empty table of proxies runs into undefined behaviour in every state.  The default table is stored, but
  the clients are those of the table that was loaded before, which is empty, so the general proxy has no client.\<close>

lemma set_no_proxies_undefined: "sets_nothing r \<Longrightarrow> run_alone E (proxy_route E r) s = UB"
  by (cases r) (simp_all add: handle_set_proxies_def update_global_def update_and_save_def update_global_pool_def update_clients_def
      set_general_def default_proxies_def)

text \<open>C32: a route that runs alone.  A request to set an empty table of proxies is undefined behaviour.  For every other request the
  route returns and leaves the configuration that the request asks for: the proxies, and the general name
  or, if that is not the name of a proxy, one that is.  Every configured proxy has one client, clients that are still needed are the
  same as before, and the general client is that of the general name.  Whether the file could be written makes no difference.\<close>

theorem proxy_route_exact:
  assumes "proxy_env_ok E" and "pool_inv E s" and "request_ok E r"
  shows "if sets_nothing r then run_alone E (proxy_route E r) s = UB
    else \<exists>a s'. run_alone E (proxy_route E r) s = Done (a, s') \<and> pool_inv E s' \<and>
      pp_proxies s' = spec_proxies r (pp_proxies s) \<and>
      pp_general_name s' = general_of E (pp_proxies s') (spec_general r (pp_proxies s) (pp_general_name s)) \<and>
      clients_kept (pp_clients s) (pp_proxies s') (pp_clients s')"
proof (cases "sets_nothing r")
  case False
  then show ?thesis using route_run [OF assms False] unfolding pool_updated_def by fastforce
qed (simp add: set_no_proxies_undefined)

definition example_proxy_env :: proxy_env where
  "example_proxy_env = \<lparr> proxy_all = (\<lambda>u. u \<noteq> []), builds = (\<lambda>_. True), first_key = hd, write_ok = (\<lambda>_. True) \<rparr>"

definition example_pool :: proxy_pool where
  "example_pool = \<lparr> pp_proxies = [(bytes_of ''a'', Non)], pp_general_name = bytes_of ''a'', pp_clients = [(Non, Client Non 0)],
     pp_general_client = Client Non 0, pp_built = 1, pp_file = No_File, pp_writes = 0 \<rparr>"

lemma example_proxy_env_ok: "proxy_env_ok example_proxy_env"
  by (simp add: proxy_env_ok_def example_proxy_env_def)

lemma example_pool_inv: "pool_inv example_proxy_env example_pool"
  by (simp add: pool_inv_def example_pool_def config_ok_def clients_ok_def)

theorem proxy_route_exact_witness:
  "\<exists>a s'. run_alone example_proxy_env (proxy_route example_proxy_env (Delete_Proxies [bytes_of ''a''] Simple)) example_pool = Done (a, s') \<and>
    pool_inv example_proxy_env s' \<and> pp_proxies s' = default_proxies"
  using proxy_route_exact [OF example_proxy_env_ok example_pool_inv, of "Delete_Proxies [bytes_of ''a''] Simple"]
  by (auto simp: example_pool_def)

section \<open>The pool in every state\<close>

lemma proxies_init_inv:
  assumes env: "proxy_env_ok E" and conf: "m = [] \<or> config_ok E m"
  shows "\<exists>s. proxies_init E m g f = Done s \<and> pool_inv E s"
proof -
  define m' where "m' = (if m = [] then default_proxies else m)"
  define g' where "g' = (if m = [] then SYS_PROXY else general_of E m g)"
  define s0 where "s0 = \<lparr> pp_proxies = m', pp_general_name = g', pp_clients = [], pp_general_client = Client Non 0, pp_built = 0,
    pp_file = f, pp_writes = 0 \<rparr>"
  have m': "config_ok E m'" using conf config_ok_default by (auto simp: m'_def)
  have "clients_ok []" by (simp add: clients_ok_def)
  then obtain cl n where r: "run_alone E (insert_all_to E (remdups (map snd m')) [] Return) s0 = Done (cl, s0\<lparr> pp_built := n \<rparr>)"
    and d: "dom (map_of cl) = snd ` set m'" and o: "clients_ok cl"
    using insert_all_to_run [OF env config_okD(2) [OF m'], of "[]" Return s0] by auto
  have "map_of m' g' \<noteq> None"
  proof (cases "m = []")
    case False
    then have "first_key E (map fst m) \<in> set (map fst m)" by (intro proxy_env_okD(2) [OF env]) simp
    then show ?thesis using False by (simp add: m'_def g'_def general_of_def map_of_eq_None_iff)
  qed (simp add: m'_def g'_def default_proxies_def)
  then obtain x where x: "map_of m' g' = Some x" by auto
  then have "x \<in> snd ` set m'" using map_of_SomeD by force
  then obtain c where c: "map_of cl x = Some c" using d by (metis domD)
  have "proxies_init E m g f = Done (s0\<lparr> pp_built := n, pp_clients := cl, pp_general_client := c \<rparr>)"
    using r x c unfolding proxies_init_def m'_def g'_def s0_def general_of_def by (auto split: if_splits)
  moreover have "pool_inv E (s0\<lparr> pp_built := n, pp_clients := cl, pp_general_client := c \<rparr>)"
    using m' d o x c by (simp add: pool_inv_def s0_def)
  ultimately show ?thesis by blast
qed

definition pool_step :: "proxy_env \<Rightarrow> proxy_pool \<Rightarrow> proxy_pool \<Rightarrow> bool" where
  "pool_step E s s' \<longleftrightarrow> (\<exists>r a. request_ok E r \<and> run_alone E (proxy_route E r) s = Done (a, s'))"

interpretation pool: state_machine
  "\<lambda>s. proxy_env_ok E \<and> (\<exists>m g f. (m = [] \<or> config_ok E m) \<and> proxies_init E m g f = Done s)" "pool_step E" "\<lambda>s. proxy_env_ok E \<and> pool_inv E s"
  for E
proof
  show "proxy_env_ok E \<and> pool_inv E s"
    if start: "proxy_env_ok E \<and> (\<exists>m g f. (m = [] \<or> config_ok E m) \<and> proxies_init E m g f = Done s)" for s
  proof -
    obtain m g f where m: "proxy_env_ok E" "m = [] \<or> config_ok E m" "proxies_init E m g f = Done s" using start by blast
    show ?thesis using proxies_init_inv [OF m(1,2), of g f] m(1,3) by auto
  qed
  show "proxy_env_ok E \<and> pool_inv E s'" if inv: "proxy_env_ok E \<and> pool_inv E s" and step: "pool_step E s s'" for s s'
  proof -
    obtain r a where r: "request_ok E r" "run_alone E (proxy_route E r) s = Done (a, s')" using step by (auto simp: pool_step_def)
    then have "\<not> sets_nothing r" using set_no_proxies_undefined [of r E s] by auto
    then show ?thesis using route_run [of E s r] inv r by (auto simp: pool_updated_def)
  qed
qed

lemma get_client_run:
  assumes "pool_inv E s"
  shows "\<exists>c. run_alone E (get_client_or_general name) s = Done (c, s) \<and>
    Some (client_proxy c) = (case name of Some n \<Rightarrow> if map_of (pp_proxies s) n = None then map_of (pp_proxies s) (pp_general_name s)
      else map_of (pp_proxies s) n | None \<Rightarrow> map_of (pp_proxies s) (pp_general_name s))"
proof -
  obtain x where x: "map_of (pp_proxies s) (pp_general_name s) = Some x" "map_of (pp_clients s) x = Some (pp_general_client s)"
    and cl: "\<And>y c. map_of (pp_clients s) y = Some c \<Longrightarrow> client_proxy c = y" and d: "dom (map_of (pp_clients s)) = snd ` set (pp_proxies s)"
    using assms by (auto simp: pool_inv_def clients_ok_def)
  have general: "Some (client_proxy (pp_general_client s)) = map_of (pp_proxies s) (pp_general_name s)" using x cl by simp
  show ?thesis
  proof (cases "\<exists>n y. name = Some n \<and> map_of (pp_proxies s) n = Some y")
    case True
    then obtain n y where n: "name = Some n" "map_of (pp_proxies s) n = Some y" by blast
    then have "y \<in> snd ` set (pp_proxies s)" using map_of_SomeD by force
    then obtain c where "map_of (pp_clients s) y = Some c" using d by (metis domD)
    then show ?thesis using n cl by (simp add: get_client_or_general_def get_client_def)
  next
    case False
    then show ?thesis using general
      by (cases name) (auto simp: get_client_or_general_def get_client_def get_general_client_def split: option.splits)
  qed
qed

text \<open>C33: however the pool was configured when it started and whatever requests were served since, one at a time and each of them
  to its end, a request for a client returns one that was built for the proxy of that name or, without such a name, for the general
  proxy; and the next request is served to its end too, unless it sets an empty table of proxies, which is undefined behaviour.\<close>

theorem proxy_pool_safe:
  assumes "proxy_env_ok E" and "m = [] \<or> config_ok E m" and "proxies_init E m g f = Done s" and "(pool_step E)\<^sup>*\<^sup>* s s'"
  shows "(\<exists>c. run_alone E (get_client_or_general name) s' = Done (c, s') \<and>
    Some (client_proxy c) = (case name of Some n \<Rightarrow> if map_of (pp_proxies s') n = None then map_of (pp_proxies s') (pp_general_name s')
      else map_of (pp_proxies s') n | None \<Rightarrow> map_of (pp_proxies s') (pp_general_name s'))) \<and>
    (\<forall>r. request_ok E r \<longrightarrow> (if sets_nothing r then run_alone E (proxy_route E r) s' = UB
       else \<exists>a s''. run_alone E (proxy_route E r) s' = Done (a, s'') \<and> pool_step E s' s''))"
proof -
  have inv: "pool_inv E s'" using pool.reachable_inv [OF _ assms(4)] assms(1-3) by blast
  have "\<exists>a s''. run_alone E (proxy_route E r) s' = Done (a, s'') \<and> pool_step E s' s''" if "request_ok E r" "\<not> sets_nothing r" for r
    using route_run [OF assms(1) inv that] that(1) unfolding pool_step_def by blast
  then show ?thesis using get_client_run [OF inv] by (simp add: set_no_proxies_undefined)
qed

theorem proxy_pool_safe_witness:
  "\<exists>s s' c. proxies_init example_proxy_env [] [] No_File = Done s \<and> pool_step example_proxy_env s s' \<and>
    run_alone example_proxy_env (get_client_or_general None) s' = Done (c, s') \<and> client_proxy c = Non \<and>
    run_alone example_proxy_env (proxy_route example_proxy_env (Set_Proxies [] [])) s' = UB"
proof -
  let ?r = "Set_Proxies [(bytes_of ''a'', Non)] (bytes_of ''a'')"
  obtain s where s: "proxies_init example_proxy_env [] [] No_File = Done s" "pool_inv example_proxy_env s"
    using proxies_init_inv [OF example_proxy_env_ok, of "[]"] by blast
  obtain a s' where s': "run_alone example_proxy_env (proxy_route example_proxy_env ?r) s = Done (a, s')"
    "pp_proxies s' = [(bytes_of ''a'', Non)]" "pp_general_name s' = bytes_of ''a''"
    using route_run [OF example_proxy_env_ok s(2), of ?r] by (auto simp: pool_updated_def general_of_def)
  have step: "pool_step example_proxy_env s s'"
    unfolding pool_step_def by (intro exI [of _ ?r] exI [of _ a]) (use s'(1) in simp)
  then have steps: "(pool_step example_proxy_env)\<^sup>*\<^sup>* s s'" by (rule r_into_rtranclp)
  note safe = proxy_pool_safe [OF example_proxy_env_ok disjI1 [OF refl] s(1) steps, of None]
  obtain c where c: "run_alone example_proxy_env (get_client_or_general None) s' = Done (c, s')" "client_proxy c = Non"
    using conjunct1 [OF safe] s'(2,3) by auto
  have "run_alone example_proxy_env (proxy_route example_proxy_env (Set_Proxies [] [])) s' = UB"
    using spec [OF conjunct2 [OF safe], of "Set_Proxies [] []"] by (simp del: proxy_route.simps)
  then show ?thesis using s(1) step c by blast
qed

section \<open>Concurrent requests\<close>

text \<open>Two requests that would both succeed in either order can run into undefined behaviour when they are served at the same time:
  one replaces the proxies after the other has loaded them.\<close>

theorem concurrent_requests_undefined:
  "let rs = [proxy_route example_proxy_env (Delete_Proxies [] Simple), proxy_route example_proxy_env (Set_Proxies [(bytes_of ''b'', Sys)] (bytes_of ''b''))]
   in map proc_result (fst (run_schedule example_proxy_env (replicate 4 0 @ replicate 16 1 @ replicate 5 0) rs example_pool)) =
        [Some UB, Some (Done (Proxy_Info None 1 None (Some ProxyConfigUpdated)))]"
  by code_simp

end
