(* ===== verification/Natural_Args.thy ===== *)
theory Natural_Args
  imports Text_Utils
begin

text \<open>
  The command line, from \<open>src/natural_args.rs\<close>: phrases such as \<open>import env from prod.env listen on port 8080\<close>.  The files of
  variables are arguments; how they are applied is that of \<open>Iter::load\<close> and \<open>Iter::load_override\<close> in the patched
  \<open>dotenvy\<close>.
\<close>

section \<open>Words and tokens\<close>

text \<open>\<open>split_whitespace\<close>: \<open>w\<close> is the word so far.\<close>

function split_words :: "str \<Rightarrow> str \<Rightarrow> str list" where
  "split_words w s =
     (if s = [] then (if w = [] then [] else [w])
      else if ws_len s = 0 then split_words (w @ [hd s]) (tl s)
      else (if w = [] then [] else [w]) @ split_words [] (drop (ws_len s) s))"
  by pat_completeness auto
termination
  by (relation "measure (\<lambda>(_, s). length s)") auto

declare split_words.simps [simp del]

definition split_whitespace :: "str \<Rightarrow> str list" where
  "split_whitespace s = split_words [] s"

datatype cli_token =
    Import | Env | From | Listen | On | Port | Help | Question | Override | Overriding | And | Existing
  | String str | Number str

definition keyword_table :: "(str \<times> cli_token) list" where
  "keyword_table =
     [(bytes_of ''import'', Import), (bytes_of ''env'', Env), (bytes_of ''from'', From), (bytes_of ''listen'', Listen),
      (bytes_of ''on'', On), (bytes_of ''port'', Port), (bytes_of ''help'', Help), (bytes_of ''?'', Question),
      (bytes_of ''override'', Override), (bytes_of ''overriding'', Overriding), (bytes_of ''and'', And),
      (bytes_of ''existing'', Existing)]"

definition token_of :: "str \<Rightarrow> cli_token" where
  "token_of word =
     (case map_of keyword_table word of
        Some t \<Rightarrow> t
      | None \<Rightarrow> if parse_unsigned 65536 word \<noteq> None then Number word else String word)"

definition from_args :: "str list \<Rightarrow> cli_token list" where
  "from_args args = concat (map (\<lambda>arg. map token_of (split_whitespace arg)) args)"

section \<open>Commands\<close>

datatype action = ImportEnv "str option" bool | ListenOn "str option" "str option" | ShowHelp

text \<open>The arms of the parser's \<open>match\<close>, in their order: slice patterns, the action made of the texts they bind, and by how much
  the position advances.\<close>

datatype pat = Tok cli_token | AnyString | AnyNumber | AnyWord

fun match_pats :: "pat list \<Rightarrow> cli_token list \<Rightarrow> cli_token list option" where
  "match_pats [] ts = Some []"
| "match_pats (Tok t # ps) ts = (case ts of t' # ts' \<Rightarrow> if t' = t then match_pats ps ts' else None | [] \<Rightarrow> None)"
| "match_pats (AnyString # ps) ts = (case ts of String s # ts' \<Rightarrow> map_option (Cons (String s)) (match_pats ps ts') | _ \<Rightarrow> None)"
| "match_pats (AnyNumber # ps) ts = (case ts of Number s # ts' \<Rightarrow> map_option (Cons (Number s)) (match_pats ps ts') | _ \<Rightarrow> None)"
| "match_pats (AnyWord # ps) ts =
     (case ts of String s # ts' \<Rightarrow> map_option (Cons (String s)) (match_pats ps ts')
      | Number s # ts' \<Rightarrow> map_option (Cons (Number s)) (match_pats ps ts') | _ \<Rightarrow> None)"

fun word_of :: "cli_token \<Rightarrow> str" where
  "word_of (String s) = s"
| "word_of (Number s) = s"
| "word_of _ = []"

definition COLON :: u8 where
  "COLON = 0x3A"

definition listen_address :: "cli_token \<Rightarrow> action" where
  "listen_address t =
     (case split_once COLON (word_of t) of
        Some (host, port) \<Rightarrow> ListenOn (Some host) (Some port)
      | None \<Rightarrow> (case t of Number addr \<Rightarrow> ListenOn None (Some addr) | _ \<Rightarrow> ListenOn (Some (word_of t)) None))"

definition arms :: "(pat list \<times> (cli_token list \<Rightarrow> action) \<times> nat) list" where
  "arms =
     [([Tok Import, Tok Env, Tok From, AnyString, Tok And, Tok Override, Tok Existing], \<lambda>ws. ImportEnv (Some (word_of (ws ! 0))) True, 7),
      ([Tok Import, Tok Env, Tok And, Tok Override, Tok Existing], \<lambda>_. ImportEnv None True, 5),
      ([Tok Import, Tok Env, Tok Overriding, Tok Existing], \<lambda>_. ImportEnv None True, 4),
      ([Tok Import, Tok Env, Tok From, AnyString, Tok Overriding, Tok Existing], \<lambda>ws. ImportEnv (Some (word_of (ws ! 0))) True, 6),
      ([Tok Import, Tok Env, Tok From, AnyString], \<lambda>ws. ImportEnv (Some (word_of (ws ! 0))) False, 4),
      ([Tok Import, Tok Env], \<lambda>_. ImportEnv None False, 2),
      ([Tok Listen, Tok On, AnyString, Tok Port, AnyNumber], \<lambda>ws. ListenOn (Some (word_of (ws ! 0))) (Some (word_of (ws ! 1))), 5),
      ([Tok Listen, Tok On, Tok Port, AnyNumber], \<lambda>ws. ListenOn None (Some (word_of (ws ! 0))), 4),
      ([Tok Listen, Tok On, AnyWord], \<lambda>ws. listen_address (ws ! 0), 3),
      ([Tok Help, Tok (String (bytes_of ''me''))], \<lambda>_. ShowHelp, 2),
      ([Tok Help], \<lambda>_. ShowHelp, 1),
      ([Tok Question], \<lambda>_. ShowHelp, 1),
      ([Tok (String (bytes_of ''what'')), Tok (String (bytes_of ''can'')), Tok (String (bytes_of ''you'')), Tok (String (bytes_of ''do''))],
        \<lambda>_. ShowHelp, 4)]"

fun first_arm :: "(pat list \<times> (cli_token list \<Rightarrow> action) \<times> nat) list \<Rightarrow> cli_token list \<Rightarrow> (action \<times> nat) option" where
  "first_arm [] ts = None"
| "first_arm ((ps, f, n) # as) ts = (case match_pats ps ts of Some ws \<Rightarrow> Some (f ws, n) | None \<Rightarrow> first_arm as ts)"

lemma first_arm_advance:
  assumes "\<forall>(ps, f, n) \<in> set as. n = length ps \<and> ps \<noteq> []"
  shows "first_arm as ts = Some (a, n) \<Longrightarrow> 0 < n \<and> n \<le> length ts"
proof -
  have m: "match_pats ps ts = Some ws \<Longrightarrow> length ps \<le> length ts" for ps ts ws
    by (induction ps ts arbitrary: ws rule: match_pats.induct) (auto split: list.splits cli_token.splits if_splits)
  show "first_arm as ts = Some (a, n) \<Longrightarrow> 0 < n \<and> n \<le> length ts"
    using assms by (induction as ts rule: first_arm.induct) (auto split: option.splits dest: m)
qed

lemma arms_lengths: "\<forall>(ps, f, n) \<in> set arms. n = length ps \<and> ps \<noteq> []"
  by (simp add: arms_def)

text \<open>The loop.  Each arm advances the position by the tokens it matched, so the position stays within the tokens.\<close>

lemmas arm_advances = first_arm_advance [OF arms_lengths]

function parse_from :: "cli_token list \<Rightarrow> nat \<Rightarrow> action list \<Rightarrow> action list" where
  "parse_from ts i acts =
     (if i < length ts
      then case first_arm arms (drop i ts) of
          Some (a, n) \<Rightarrow> parse_from ts (i + n) (acts @ [a])
        | None \<Rightarrow> parse_from ts (i + 1) acts
      else acts)"
  by pat_completeness auto
termination
  by (relation "measure (\<lambda>(ts, i, _). length ts - i)") (auto dest!: arm_advances)

declare parse_from.simps [simp del]

definition parse_tokens :: "cli_token list \<Rightarrow> action list" where
  "parse_tokens ts = parse_from ts 0 []"

section \<open>Actions\<close>

text \<open>The process: its variables, what it has written, and whether it has ended.\<close>

record process =
  pr_vars :: "str \<rightharpoonup> str"
  pr_out :: str
  pr_err :: str
  pr_exit :: "nat option"

text \<open>A line of a file gives a variable or an error; it may refer to variables.\<close>

type_synonym env_item = "(str \<rightharpoonup> str) \<Rightarrow> str + str \<times> str"

record load_result =
  lr_loaded :: nat
  lr_skipped_or_overridden :: nat

fun env_load :: "env_item list \<Rightarrow> nat \<Rightarrow> nat \<Rightarrow> (str \<rightharpoonup> str) \<Rightarrow> (str + load_result) \<times> (str \<rightharpoonup> str)" where
  "env_load [] loaded skipped vars = (Inr \<lparr> lr_loaded = loaded, lr_skipped_or_overridden = skipped \<rparr>, vars)"
| "env_load (item # items) loaded skipped vars =
     (case item vars of
        Inl e \<Rightarrow> (Inl e, vars)
      | Inr (key, val) \<Rightarrow>
          if vars key = None then env_load items (loaded + 1) skipped (vars(key \<mapsto> val))
          else env_load items loaded (skipped + 1) vars)"

fun env_load_override :: "env_item list \<Rightarrow> nat \<Rightarrow> nat \<Rightarrow> (str \<rightharpoonup> str) \<Rightarrow> (str + load_result) \<times> (str \<rightharpoonup> str)" where
  "env_load_override [] loaded overridden vars = (Inr \<lparr> lr_loaded = loaded, lr_skipped_or_overridden = overridden \<rparr>, vars)"
| "env_load_override (item # items) loaded overridden vars =
     (case item vars of
        Inl e \<Rightarrow> (Inl e, vars)
      | Inr (key, val) \<Rightarrow>
          env_load_override items (loaded + 1) (if vars key \<noteq> None then overridden + 1 else overridden) (vars(key \<mapsto> val)))"

text \<open>\<open>files\<close> gives the lines of a file, or the error of opening it.\<close>

definition load_env_file :: "(str \<Rightarrow> str + env_item list) \<Rightarrow> str \<Rightarrow> bool \<Rightarrow> process \<Rightarrow> process" where
  "load_env_file files filename override p =
     (let (r, vars) = (case files filename of
                         Inl e \<Rightarrow> (Inl e, pr_vars p)
                       | Inr items \<Rightarrow> if override then env_load_override items 0 0 (pr_vars p) else env_load items 0 0 (pr_vars p));
          p = p\<lparr> pr_vars := vars \<rparr>
      in case r of
           Inr result \<Rightarrow>
             (let msg = (if 0 < lr_skipped_or_overridden result
                         then bytes_of ''Importing environment from '' @ filename @ bytes_of '' (loaded: '' @ decimal (lr_loaded result) @
                           (if override then bytes_of '', overridden: '' else bytes_of '', skipped: '') @
                           decimal (lr_skipped_or_overridden result) @ bytes_of '')'' @ [0x0A]
                         else bytes_of ''Importing environment from '' @ filename @ bytes_of '' (loaded: '' @ decimal (lr_loaded result) @
                           bytes_of '')'' @ [0x0A])
              in p\<lparr> pr_out := pr_out p @ msg \<rparr>)
         | Inl e \<Rightarrow> p\<lparr> pr_err := pr_err p @ bytes_of ''Failed to load '' @ filename @ bytes_of '': '' @ e @ [0x0A] \<rparr>)"

definition DEFAULT_ENV_FILE :: str where
  "DEFAULT_ENV_FILE = bytes_of ''.env''"

definition DEFAULT_LISTEN_HOST :: str where
  "DEFAULT_LISTEN_HOST = bytes_of ''0.0.0.0''"

definition DEFAULT_LISTEN_PORT :: str where
  "DEFAULT_LISTEN_PORT = bytes_of ''3000''"

definition ENV_HOST :: str where
  "ENV_HOST = bytes_of ''HOST''"

definition ENV_PORT :: str where
  "ENV_PORT = bytes_of ''PORT''"

text \<open>\<open>help_text\<close> is the page that \<open>print_help\<close> writes.\<close>

fun run_action :: "(str \<Rightarrow> str + env_item list) \<Rightarrow> str \<Rightarrow> action \<Rightarrow> process \<Rightarrow> process" where
  "run_action files help_text (ImportEnv file override) p =
     load_env_file files (case file of Some f \<Rightarrow> f | None \<Rightarrow> DEFAULT_ENV_FILE) override p"
| "run_action files help_text (ListenOn host port) p =
     (let h = (case host of Some h \<Rightarrow> h | None \<Rightarrow> DEFAULT_LISTEN_HOST); q = (case port of Some q \<Rightarrow> q | None \<Rightarrow> DEFAULT_LISTEN_PORT)
      in p\<lparr> pr_out := pr_out p @ bytes_of ''Starting server on '' @ h @ [COLON] @ q @ [0x0A],
            pr_vars := (pr_vars p)(ENV_HOST \<mapsto> h, ENV_PORT \<mapsto> q) \<rparr>)"
| "run_action files help_text ShowHelp p = p\<lparr> pr_out := pr_out p @ help_text, pr_exit := Some 0 \<rparr>"

fun run_actions :: "(str \<Rightarrow> str + env_item list) \<Rightarrow> str \<Rightarrow> action list \<Rightarrow> process \<Rightarrow> process" where
  "run_actions files help_text [] p = p"
| "run_actions files help_text (a # as) p =
     (let p = run_action files help_text a p in if pr_exit p \<noteq> None then p else run_actions files help_text as p)"

fun join_words :: "str list \<Rightarrow> str" where
  "join_words [] = []"
| "join_words [w] = w"
| "join_words (w # ws) = w @ 0x20 # join_words ws"

definition process_args_impl :: "(str \<Rightarrow> str + env_item list) \<Rightarrow> str \<Rightarrow> str \<Rightarrow> str list \<Rightarrow> process \<Rightarrow> process" where
  "process_args_impl files help_text program args p =
     (if args = [] then load_env_file files DEFAULT_ENV_FILE False p
      else let acts = parse_tokens (from_args args)
           in if acts = []
              then p\<lparr> pr_err := pr_err p @ bytes_of ''I don'' @ [0x27] @ bytes_of ''t understand '' @ [0x27] @ join_words args @ [0x27, 0x0A] @
                     bytes_of ''Try '' @ [0x27] @ program @ bytes_of '' help'' @ [0x27] @ bytes_of '' to see what I can do'' @ [0x0A, 0x0A] \<rparr>
              else run_actions files help_text acts p)"

section \<open>What is understood\<close>

text \<open>The phrases of the help page.\<close>

datatype override_form = AndOverride | OverridingForm

datatype phrase =
    PImport "str option" "override_form option"
  | PListenHostPort str str
  | PListenPort str
  | PListenAddress str str
  | PListenNumber str
  | PListenHost str
  | PHelp | PHelpMe | PQuestion | PWhat

fun override_words :: "override_form option \<Rightarrow> str list" where
  "override_words None = []"
| "override_words (Some AndOverride) = [bytes_of ''and'', bytes_of ''override'', bytes_of ''existing'']"
| "override_words (Some OverridingForm) = [bytes_of ''overriding'', bytes_of ''existing'']"

fun phrase_words :: "phrase \<Rightarrow> str list" where
  "phrase_words (PImport None ov) = [bytes_of ''import'', bytes_of ''env''] @ override_words ov"
| "phrase_words (PImport (Some f) ov) = [bytes_of ''import'', bytes_of ''env'', bytes_of ''from'', f] @ override_words ov"
| "phrase_words (PListenHostPort h q) = [bytes_of ''listen'', bytes_of ''on'', h, bytes_of ''port'', q]"
| "phrase_words (PListenPort q) = [bytes_of ''listen'', bytes_of ''on'', bytes_of ''port'', q]"
| "phrase_words (PListenAddress h q) = [bytes_of ''listen'', bytes_of ''on'', h @ COLON # q]"
| "phrase_words (PListenNumber q) = [bytes_of ''listen'', bytes_of ''on'', q]"
| "phrase_words (PListenHost h) = [bytes_of ''listen'', bytes_of ''on'', h]"
| "phrase_words PHelp = [bytes_of ''help'']"
| "phrase_words PHelpMe = [bytes_of ''help'', bytes_of ''me'']"
| "phrase_words PQuestion = [bytes_of ''?'']"
| "phrase_words PWhat = [bytes_of ''what'', bytes_of ''can'', bytes_of ''you'', bytes_of ''do'']"

fun phrase_action :: "phrase \<Rightarrow> action" where
  "phrase_action (PImport f ov) = ImportEnv f (ov \<noteq> None)"
| "phrase_action (PListenHostPort h q) = ListenOn (Some h) (Some q)"
| "phrase_action (PListenPort q) = ListenOn None (Some q)"
| "phrase_action (PListenAddress h q) = ListenOn (Some h) (Some q)"
| "phrase_action (PListenNumber q) = ListenOn None (Some q)"
| "phrase_action (PListenHost h) = ListenOn (Some h) None"
| "phrase_action _ = ShowHelp"

text \<open>Words that are neither keywords nor numbers, and port numbers.\<close>

definition plain_word :: "str \<Rightarrow> bool" where
  "plain_word w \<longleftrightarrow> map_of keyword_table w = None \<and> parse_unsigned 65536 w = None"

definition port_word :: "str \<Rightarrow> bool" where
  "port_word w \<longleftrightarrow> parse_unsigned 65536 w \<noteq> None"

fun phrase_ok :: "phrase \<Rightarrow> bool" where
  "phrase_ok (PImport (Some f) _) \<longleftrightarrow> plain_word f"
| "phrase_ok (PListenHostPort h q) \<longleftrightarrow> plain_word h \<and> port_word q"
| "phrase_ok (PListenPort q) \<longleftrightarrow> port_word q"
| "phrase_ok (PListenAddress h q) \<longleftrightarrow> COLON \<notin> set h"
| "phrase_ok (PListenNumber q) \<longleftrightarrow> port_word q"
| "phrase_ok (PListenHost h) \<longleftrightarrow> plain_word h \<and> COLON \<notin> set h"
| "phrase_ok _ \<longleftrightarrow> True"

lemma keyword_values:
  "map_of keyword_table w = Some t \<Longrightarrow> COLON \<notin> set w \<and> parse_unsigned 65536 w = None"
proof -
  have first: "parse_unsigned 65536 (b # r) = None" if "\<not> is_ascii_digit b" "b \<noteq> 0x2B" for b r using that by (simp add: parse_unsigned_def)
  have "list_all (\<lambda>(w, _). COLON \<notin> set w \<and> parse_unsigned 65536 w = None) keyword_table"
    by (simp add: keyword_table_def bytes_of_def COLON_def first is_ascii_digit_def DIGITS_def)
  then show "map_of keyword_table w = Some t \<Longrightarrow> COLON \<notin> set w \<and> parse_unsigned 65536 w = None"
    by (auto simp: list_all_iff dest: map_of_SomeD)
qed

lemma number_no_colon: "parse_unsigned n w \<noteq> None \<Longrightarrow> COLON \<notin> set w"
proof -
  have "\<not> is_ascii_digit COLON" by code_simp
  moreover have "COLON \<noteq> 0x2B" by code_simp
  ultimately show "parse_unsigned n w \<noteq> None \<Longrightarrow> COLON \<notin> set w"
    by (cases w) (auto simp: parse_unsigned_def list_all_iff Let_def split: if_splits)
qed

lemma token_of_plain: "plain_word w \<Longrightarrow> token_of w = String w"
  by (simp add: plain_word_def token_of_def)

lemma token_of_port: "port_word w \<Longrightarrow> token_of w = Number w"
  using keyword_values [of w] by (cases "map_of keyword_table w") (auto simp: port_word_def token_of_def)

lemma token_of_address: "token_of (h @ COLON # q) = String (h @ COLON # q)"
proof -
  have "parse_unsigned 65536 (h @ COLON # q) = None" using number_no_colon [of 65536 "h @ COLON # q"] by fastforce
  moreover have "map_of keyword_table (h @ COLON # q) = None" using keyword_values [of "h @ COLON # q"] by fastforce
  ultimately show ?thesis by (simp add: token_of_def)
qed

lemma token_of_keywords:
  "token_of (bytes_of ''import'') = Import" "token_of (bytes_of ''env'') = Env" "token_of (bytes_of ''from'') = From"
  "token_of (bytes_of ''listen'') = Listen" "token_of (bytes_of ''on'') = On" "token_of (bytes_of ''port'') = Port"
  "token_of (bytes_of ''help'') = Help" "token_of (bytes_of ''?'') = Question" "token_of (bytes_of ''override'') = Override"
  "token_of (bytes_of ''overriding'') = Overriding" "token_of (bytes_of ''and'') = And" "token_of (bytes_of ''existing'') = Existing"
  "token_of (bytes_of ''me'') = String (bytes_of ''me'')" "token_of (bytes_of ''what'') = String (bytes_of ''what'')"
  "token_of (bytes_of ''can'') = String (bytes_of ''can'')" "token_of (bytes_of ''you'') = String (bytes_of ''you'')"
  "token_of (bytes_of ''do'') = String (bytes_of ''do'')"
  by (simp_all add: token_of_def keyword_table_def bytes_of_def parse_unsigned_def is_ascii_digit_def DIGITS_def)

definition starts_phrase :: "cli_token list \<Rightarrow> bool" where
  "starts_phrase ts \<longleftrightarrow> (case ts of [] \<Rightarrow> True | t # _ \<Rightarrow> t \<in> {Import, Listen, Help, Question, String (bytes_of ''what'')})"

lemma starts_phrase_cases:
  assumes "starts_phrase ts"
  obtains "ts = []" | r where "ts = Import # r" | r where "ts = Listen # r" | r where "ts = Help # r" | r where "ts = Question # r"
    | r where "ts = String (bytes_of ''what'') # r"
  using assms by (cases ts) (auto simp: starts_phrase_def)

lemma what_not_me: "bytes_of ''what'' \<noteq> bytes_of ''me''"
  by code_simp

lemma override_cases:
  obtains "ov = None" | "ov = Some AndOverride" | "ov = Some OverridingForm"
  by (metis override_form.exhaust option.exhaust)

lemma first_arm_import:
  assumes "phrase_ok (PImport f ov)" and "starts_phrase rest"
  shows "first_arm arms (map token_of (phrase_words (PImport f ov)) @ rest) = Some (phrase_action (PImport f ov), length (phrase_words (PImport f ov)))"
  by (cases f; cases ov rule: override_cases; rule starts_phrase_cases [OF assms(2)])
    (use assms(1) in \<open>simp_all add: arms_def token_of_keywords token_of_plain\<close>)

lemma first_arm_phrase:
  assumes "phrase_ok ph" and "starts_phrase rest"
  shows "first_arm arms (map token_of (phrase_words ph) @ rest) = Some (phrase_action ph, length (phrase_words ph))"
proof (cases ph)
  case (PImport f ov)
  then show ?thesis using first_arm_import assms by simp
qed (rule starts_phrase_cases [OF assms(2)];
    use assms(1) what_not_me in \<open>simp add: arms_def token_of_keywords token_of_plain token_of_port token_of_address listen_address_def
      split_once_None_iff [THEN iffD2] number_no_colon port_word_def\<close>)+

lemma phrase_starts: "\<exists>t ts. map token_of (phrase_words ph) = t # ts \<and> (\<forall>r. starts_phrase (t # r))"
  by (cases ph rule: phrase_words.cases) (simp_all add: token_of_keywords starts_phrase_def)

lemma phrases_start: "starts_phrase (concat (map (\<lambda>ph. map token_of (phrase_words ph)) phs))"
proof (cases phs)
  case Nil
  then show ?thesis by (simp add: starts_phrase_def)
next
  case (Cons ph phs')
  obtain t ts where t: "map token_of (phrase_words ph) = t # ts" "starts_phrase (t # ts)" using phrase_starts [of ph] by metis
  then show ?thesis unfolding Cons by (simp add: starts_phrase_def)
qed

lemma parse_phrases:
  "list_all phrase_ok phs \<Longrightarrow>
   parse_from (pre @ concat (map (\<lambda>ph. map token_of (phrase_words ph)) phs)) (length pre) acts = acts @ map phrase_action phs"
proof (induction phs arbitrary: pre acts)
  case Nil
  then show ?case by (subst parse_from.simps) simp
next
  case (Cons ph phs)
  let ?t = "map token_of (phrase_words ph)"
  let ?r = "concat (map (\<lambda>ph. map token_of (phrase_words ph)) phs)"
  have arm: "first_arm arms (?t @ ?r) = Some (phrase_action ph, length ?t)"
    using first_arm_phrase [of ph ?r] phrases_start Cons.prems by simp
  have "?t \<noteq> []" using phrase_starts [of ph] by fastforce
  then have "parse_from (pre @ ?t @ ?r) (length pre) acts = parse_from (pre @ ?t @ ?r) (length pre + length ?t) (acts @ [phrase_action ph])"
    by (subst parse_from.simps) (simp add: arm del: length_map)
  also have "\<dots> = acts @ map phrase_action (ph # phs)"
    using Cons.IH [of "pre @ ?t" "acts @ [phrase_action ph]"] Cons.prems by simp
  finally show ?case by simp
qed

lemma from_args_words: "from_args args = map token_of (concat (map split_whitespace args))"
  by (simp add: from_args_def map_concat comp_def)

lemma parse_words:
  assumes "concat (map split_whitespace args) = concat (map phrase_words phs)" and "list_all phrase_ok phs"
  shows "parse_tokens (from_args args) = map phrase_action phs"
  using parse_phrases [OF assms(2), of "[]" "[]"] by (simp add: parse_tokens_def from_args_words assms(1) map_concat comp_def)

lemma split_words_plain:
  "list_all (\<lambda>b. b < 0x80 \<and> \<not> is_ascii_space b) s \<Longrightarrow> w @ s \<noteq> [] \<Longrightarrow> split_words w s = [w @ s]"
  by (induction s arbitrary: w) (subst split_words.simps; simp add: ws_len_plain)+

lemma split_whitespace_plain: "list_all (\<lambda>b. b < 0x80 \<and> \<not> is_ascii_space b) s \<Longrightarrow> s \<noteq> [] \<Longrightarrow> split_whitespace s = [s]"
  using split_words_plain [of s "[]"] by (simp add: split_whitespace_def)

text \<open>C34: every phrase of the help page is understood, alone and one after the other, however the words are spread over arguments: the
  parser gives one action for each, in order.\<close>

theorem phrases_understood:
  assumes "concat (map split_whitespace args) = concat (map phrase_words phs)" and "list_all phrase_ok phs"
  shows "parse_tokens (from_args args) = map phrase_action phs"
  by (rule parse_words [OF assms])

theorem phrases_understood_witness:
  "parse_tokens (from_args (map bytes_of [''listen'', ''on'', ''localhost:5000'', ''import'', ''env'', ''overriding'', ''existing''])) =
     [ListenOn (Some (bytes_of ''localhost'')) (Some (bytes_of ''5000'')), ImportEnv None True]"
proof -
  have "map split_whitespace (map bytes_of [''listen'', ''on'', ''localhost:5000'', ''import'', ''env'', ''overriding'', ''existing'']) =
    map (\<lambda>w. [bytes_of w]) [''listen'', ''on'', ''localhost:5000'', ''import'', ''env'', ''overriding'', ''existing'']"
    by (simp add: split_whitespace_plain bytes_of_def is_ascii_space_def word_less_nat_alt word_le_nat_alt)
  moreover have "bytes_of ''localhost'' @ COLON # bytes_of ''5000'' = bytes_of ''localhost:5000''" "COLON \<notin> set (bytes_of ''localhost'')"
    by (simp_all add: bytes_of_def COLON_def)
  ultimately show ?thesis
    using phrases_understood [of "map bytes_of [''listen'', ''on'', ''localhost:5000'', ''import'', ''env'', ''overriding'', ''existing'']"
        "[PListenAddress (bytes_of ''localhost'') (bytes_of ''5000''), PImport None (Some OverridingForm)]"] by simp
qed

section \<open>What is misunderstood\<close>

lemma parse_from_none: "i < length ts \<Longrightarrow> first_arm arms (drop i ts) = None \<Longrightarrow> parse_from ts i acts = parse_from ts (i + 1) acts"
  by (subst parse_from.simps) simp

lemma parse_from_some: "i < length ts \<Longrightarrow> first_arm arms (drop i ts) = Some (a, n) \<Longrightarrow> parse_from ts i acts = parse_from ts (i + n) (acts @ [a])"
  by (subst parse_from.simps) simp

lemma parse_from_end: "length ts \<le> i \<Longrightarrow> parse_from ts i acts = acts"
  by (subst parse_from.simps) simp

text \<open>A file whose name is a number below 65536 is not imported; the default file is imported instead, without a message.\<close>

theorem number_file_ignored:
  assumes "port_word f"
  shows "parse_tokens (map token_of [bytes_of ''import'', bytes_of ''env'', bytes_of ''from'', f]) = [ImportEnv None False]"
proof -
  let ?ts = "[Import, Env, From, Number f]"
  have "parse_from ?ts 0 [] = parse_from ?ts 2 [ImportEnv None False]" by (subst parse_from_some [where n = 2]) (simp_all add: arms_def eval_nat_numeral)
  also have "\<dots> = parse_from ?ts 3 [ImportEnv None False]" by (subst parse_from_none) (simp_all add: arms_def eval_nat_numeral)
  also have "\<dots> = parse_from ?ts 4 [ImportEnv None False]" by (subst parse_from_none) (simp_all add: arms_def eval_nat_numeral)
  also have "\<dots> = [ImportEnv None False]" by (simp add: parse_from_end)
  finally show ?thesis using assms by (simp add: parse_tokens_def token_of_keywords token_of_port)
qed

theorem number_file_ignored_witness:
  "parse_tokens (map token_of [bytes_of ''import'', bytes_of ''env'', bytes_of ''from'', decimal 8080]) = [ImportEnv None False]"
  by (rule number_file_ignored) (simp add: port_word_def parse_decimal)

lemma token_of_decimal: "token_of (decimal n) = (if n < 65536 then Number (decimal n) else String (decimal n))"
proof -
  have "is_ascii_digit (hd (decimal n))" by (metis decimal_digits decimal_not_Nil hd_in_set list_all_iff)
  moreover have "list_all (\<lambda>(w, _). \<not> is_ascii_digit (hd w)) keyword_table"
    by (simp add: keyword_table_def bytes_of_def is_ascii_digit_def DIGITS_def)
  ultimately have "map_of keyword_table (decimal n) = None"
    by (cases "map_of keyword_table (decimal n)") (auto simp: list_all_iff dest: map_of_SomeD)
  then show ?thesis by (simp add: token_of_def parse_decimal)
qed

lemma listen_without_number:
  assumes "d \<noteq> bytes_of ''what''"
  shows "parse_from [Listen, On, Port, String d] 0 [] = []"
proof -
  let ?ts = "[Listen, On, Port, String d]"
  have "parse_from ?ts 0 [] = parse_from ?ts 1 []" by (subst parse_from_none) (simp_all add: arms_def)
  also have "\<dots> = parse_from ?ts 2 []" by (subst parse_from_none) (simp_all add: arms_def eval_nat_numeral)
  also have "\<dots> = parse_from ?ts 3 []" by (subst parse_from_none) (simp_all add: arms_def eval_nat_numeral)
  also have "\<dots> = parse_from ?ts 4 []" by (subst parse_from_none) (use assms in \<open>simp_all add: arms_def eval_nat_numeral\<close>)
  also have "\<dots> = []" by (simp add: parse_from_end)
  finally show ?thesis .
qed

text \<open>A command to listen on a port of 65536 or more is dropped: nothing is left of it.\<close>

theorem large_port_dropped:
  "parse_tokens (map token_of [bytes_of ''listen'', bytes_of ''on'', bytes_of ''port'', decimal (65536 + n)]) = []"
proof -
  have "decimal (65536 + n) \<noteq> bytes_of ''what''"
  proof
    assume "decimal (65536 + n) = bytes_of ''what''"
    then have "list_all is_ascii_digit (bytes_of ''what'')" using decimal_digits [of "65536 + n"] by simp
    then show False by (simp add: bytes_of_def is_ascii_digit_def DIGITS_def)
  qed
  then show ?thesis by (simp add: parse_tokens_def token_of_keywords token_of_decimal listen_without_number)
qed

text \<open>An address is cut at its first colon, so the addresses of IPv6 come apart: \<open>listen on ::1\<close> gives an empty host and the
  port \<open>:1\<close>.\<close>

theorem ipv6_address_cut:
  "parse_tokens (map token_of [bytes_of ''listen'', bytes_of ''on'', bytes_of ''::1'']) = [ListenOn (Some []) (Some (bytes_of '':1''))]"
proof -
  have "bytes_of ''::1'' = [] @ COLON # bytes_of '':1''" by (simp add: bytes_of_def COLON_def)
  then show ?thesis
    using parse_phrases [of "[PListenAddress [] (bytes_of '':1'')]" "[]" "[]"] by (simp add: parse_tokens_def)
qed

section \<open>The variables afterwards\<close>

lemma env_load_const:
  "\<exists>l k. env_load (map (\<lambda>kv _. Inr kv) kvs) loaded skipped vars =
    (Inr \<lparr> lr_loaded = loaded + l, lr_skipped_or_overridden = skipped + k \<rparr>, map_of kvs ++ vars) \<and> l + k = length kvs"
proof (induction kvs arbitrary: loaded skipped vars)
  case (Cons kv kvs)
  obtain a b where kv: "kv = (a, b)" by fastforce
  show ?case
  proof (cases "vars a")
    case None
    obtain l k where "env_load (map (\<lambda>kv _. Inr kv) kvs) (loaded + 1) skipped (vars(a \<mapsto> b)) =
      (Inr \<lparr> lr_loaded = loaded + 1 + l, lr_skipped_or_overridden = skipped + k \<rparr>, map_of kvs ++ vars(a \<mapsto> b))" "l + k = length kvs"
      using Cons.IH [of "loaded + 1" skipped "vars(a \<mapsto> b)"] by blast
    moreover have "map_of kvs ++ vars(a \<mapsto> b) = map_of (kv # kvs) ++ vars" using None by (auto simp: kv map_add_def fun_eq_iff split: option.splits)
    ultimately show ?thesis using None by - (rule exI [of _ "Suc l"], rule exI [of _ k], simp add: kv fun_upd_def)
  next
    case (Some v)
    obtain l k where "env_load (map (\<lambda>kv _. Inr kv) kvs) loaded (skipped + 1) vars =
      (Inr \<lparr> lr_loaded = loaded + l, lr_skipped_or_overridden = skipped + 1 + k \<rparr>, map_of kvs ++ vars)" "l + k = length kvs"
      using Cons.IH [of loaded "skipped + 1" vars] by blast
    moreover have "map_of kvs ++ vars = map_of (kv # kvs) ++ vars" using Some by (auto simp: kv map_add_def fun_eq_iff split: option.splits)
    ultimately show ?thesis using Some by - (rule exI [of _ l], rule exI [of _ "Suc k"], simp add: kv fun_upd_def)
  qed
qed simp

lemma env_load_override_const:
  "\<exists>k. env_load_override (map (\<lambda>kv _. Inr kv) kvs) loaded over vars =
    (Inr \<lparr> lr_loaded = loaded + length kvs, lr_skipped_or_overridden = over + k \<rparr>, vars ++ map_of (rev kvs)) \<and> k \<le> length kvs"
proof (induction kvs arbitrary: loaded over vars)
  case (Cons kv kvs)
  obtain a b where kv: "kv = (a, b)" by fastforce
  have m: "vars(a \<mapsto> b) ++ map_of (rev kvs) = vars ++ map_of (rev (kv # kvs))" by (auto simp: kv map_add_def fun_eq_iff split: option.splits)
  let ?o = "if vars a \<noteq> None then over + 1 else over"
  obtain k where "env_load_override (map (\<lambda>kv _. Inr kv) kvs) (loaded + 1) ?o (vars(a \<mapsto> b)) =
    (Inr \<lparr> lr_loaded = loaded + 1 + length kvs, lr_skipped_or_overridden = ?o + k \<rparr>, vars(a \<mapsto> b) ++ map_of (rev kvs))" "k \<le> length kvs"
    using Cons.IH [of "loaded + 1" ?o "vars(a \<mapsto> b)"] by blast
  then show ?case unfolding m by (intro exI [of _ "(if vars a \<noteq> None then 1 else 0) + k"]) (auto simp: kv)
qed simp

text \<open>A file is applied without touching a variable that is set, and the first of several values counts; with \<open>override\<close> every
  variable of the file is set, and the last of several values counts.\<close>

theorem load_env_file_exact:
  assumes "files f = Inr (map (\<lambda>kv _. Inr kv) kvs)"
  shows "pr_vars (load_env_file files f False p) = map_of kvs ++ pr_vars p \<and>
    pr_vars (load_env_file files f True p) = pr_vars p ++ map_of (rev kvs)"
proof -
  obtain l k where "env_load (map (\<lambda>kv _. Inr kv) kvs) 0 0 (pr_vars p) = (Inr \<lparr> lr_loaded = l, lr_skipped_or_overridden = k \<rparr>, map_of kvs ++ pr_vars p)"
    using env_load_const [of kvs 0 0 "pr_vars p"] by auto
  moreover obtain l' k' where "env_load_override (map (\<lambda>kv _. Inr kv) kvs) 0 0 (pr_vars p) =
    (Inr \<lparr> lr_loaded = l', lr_skipped_or_overridden = k' \<rparr>, pr_vars p ++ map_of (rev kvs))"
    using env_load_override_const [of kvs 0 0 "pr_vars p"] by auto
  ultimately show ?thesis using assms by (simp add: load_env_file_def Let_def)
qed

theorem load_env_file_exact_witness:
  "pr_vars (load_env_file (\<lambda>_. Inr (map (\<lambda>kv _. Inr kv) [(bytes_of ''A'', [1]), (bytes_of ''A'', [2])])) DEFAULT_ENV_FILE False
      \<lparr> pr_vars = Map.empty, pr_out = [], pr_err = [], pr_exit = None \<rparr>) (bytes_of ''A'') = Some [1]"
  using load_env_file_exact [of "\<lambda>_. Inr (map (\<lambda>kv _. Inr kv) [(bytes_of ''A'', [1]), (bytes_of ''A'', [2])])" DEFAULT_ENV_FILE
      "[(bytes_of ''A'', [1]), (bytes_of ''A'', [2])]" "\<lparr> pr_vars = Map.empty, pr_out = [], pr_err = [], pr_exit = None \<rparr>"]
  by simp

lemma run_actions_append:
  assumes "ShowHelp \<notin> set as" and "pr_exit p = None"
  shows "run_actions files help_text (as @ bs) p = run_actions files help_text bs (run_actions files help_text as p) \<and>
    pr_exit (run_actions files help_text as p) = None"
  using assms
proof (induction as arbitrary: p)
  case (Cons a as)
  have "pr_exit (load_env_file files f ov p) = pr_exit p" for f ov by (simp add: load_env_file_def case_prod_beta Let_def split: sum.splits)
  then have "pr_exit (run_action files help_text a p) = None" using Cons.prems by (cases a) (simp_all add: Let_def)
  then show ?case using Cons.IH [of "run_action files help_text a p"] Cons.prems by (simp add: Let_def)
qed simp

text \<open>Phrases are carried out in order.  If the last one says where to listen, the host and the port are set to that, whatever the
  files before it contain.\<close>

theorem listen_last_wins:
  assumes "concat (map split_whitespace args) = concat (map phrase_words (phs @ [ph]))" and "list_all phrase_ok (phs @ [ph])"
    and "list_all (\<lambda>ph. phrase_action ph \<noteq> ShowHelp) phs" and "phrase_action ph = ListenOn host port" and "pr_exit p = None"
  shows "pr_vars (process_args_impl files help_text program args p) ENV_HOST = Some (case host of Some h \<Rightarrow> h | None \<Rightarrow> DEFAULT_LISTEN_HOST) \<and>
    pr_vars (process_args_impl files help_text program args p) ENV_PORT = Some (case port of Some q \<Rightarrow> q | None \<Rightarrow> DEFAULT_LISTEN_PORT)"
proof -
  have acts: "parse_tokens (from_args args) = map phrase_action phs @ [ListenOn host port]" using parse_words [OF assms(1,2)] assms(4) by simp
  have "args \<noteq> []"
  proof
    assume "args = []"
    then have "phrase_words ph = []" using assms(1) by simp
    then show False using phrase_starts [of ph] by simp
  qed
  then have "process_args_impl files help_text program args p = run_actions files help_text (map phrase_action phs @ [ListenOn host port]) p"
    by (simp add: process_args_impl_def acts)
  also have "\<dots> = run_actions files help_text [ListenOn host port] (run_actions files help_text (map phrase_action phs) p)"
    using assms(3,5) by (intro conjunct1 [OF run_actions_append]) (auto simp: list_all_iff)
  finally show ?thesis by (simp add: Let_def ENV_HOST_def ENV_PORT_def bytes_of_def)
qed

theorem listen_last_wins_witness:
  "pr_vars (process_args_impl (\<lambda>_. Inr [\<lambda>_. Inr (ENV_PORT, [1])]) [] [] (map bytes_of [''import'', ''env'', ''listen'', ''on'', ''localhost:5000''])
     \<lparr> pr_vars = Map.empty, pr_out = [], pr_err = [], pr_exit = None \<rparr>) ENV_PORT = Some (bytes_of ''5000'')"
proof -
  have "map split_whitespace (map bytes_of [''import'', ''env'', ''listen'', ''on'', ''localhost:5000'']) =
    map (\<lambda>w. [bytes_of w]) [''import'', ''env'', ''listen'', ''on'', ''localhost:5000'']"
    by (simp add: split_whitespace_plain bytes_of_def is_ascii_space_def word_less_nat_alt word_le_nat_alt)
  moreover have "bytes_of ''localhost'' @ COLON # bytes_of ''5000'' = bytes_of ''localhost:5000''" "COLON \<notin> set (bytes_of ''localhost'')"
    by (simp_all add: bytes_of_def COLON_def)
  ultimately show ?thesis
    using listen_last_wins [of "map bytes_of [''import'', ''env'', ''listen'', ''on'', ''localhost:5000'']" "[PImport None None]"
        "PListenAddress (bytes_of ''localhost'') (bytes_of ''5000'')" "Some (bytes_of ''localhost'')" "Some (bytes_of ''5000'')"] by simp
qed

end
