(* ===== verification/Duration_Fmt.thy ===== *)
theory Duration_Fmt
  imports Text_Utils
begin

text \<open>
  Durations as text, from \<open>src/common/utils/duration_fmt.rs\<close>.  A duration is its whole seconds, a 64-bit number, and the
  nanoseconds below one second.  A random choice of format or language is made once, before formatting; the numbers it
  draws are arguments.
\<close>

section \<open>Units and languages\<close>

datatype duration_format = Auto | Compact | Standard | Detailed | ISO8601 | Fuzzy | Numeric | Verbose

datatype format_choice = Format duration_format | RandomFormat

datatype language = English | Chinese | Japanese | Spanish | German

datatype language_choice = Language language | RandomLanguage

datatype time_unit = Day | Hour | Minute | Second | Millisecond | Microsecond

record unit_locale =
  ul_singular :: str
  ul_plural :: str
  ul_short :: str
  ul_fuzzy_prefix :: str

definition locale_new :: "str \<Rightarrow> str \<Rightarrow> str \<Rightarrow> str \<Rightarrow> unit_locale" where
  "locale_new singular plural short fuzzy = \<lparr> ul_singular = singular, ul_plural = plural, ul_short = short, ul_fuzzy_prefix = fuzzy \<rparr>"

fun get_unit_locale :: "language \<Rightarrow> time_unit \<Rightarrow> unit_locale" where
  "get_unit_locale English Day = locale_new (bytes_of ''day'') (bytes_of ''days'') (bytes_of ''d'') (bytes_of ''about '')"
| "get_unit_locale English Hour = locale_new (bytes_of ''hour'') (bytes_of ''hours'') (bytes_of ''h'') (bytes_of ''about '')"
| "get_unit_locale English Minute = locale_new (bytes_of ''minute'') (bytes_of ''minutes'') (bytes_of ''m'') (bytes_of ''about '')"
| "get_unit_locale English Second = locale_new (bytes_of ''second'') (bytes_of ''seconds'') (bytes_of ''s'') (bytes_of ''about '')"
| "get_unit_locale English Millisecond = locale_new (bytes_of ''millisecond'') (bytes_of ''milliseconds'') (bytes_of ''ms'') []"
| "get_unit_locale English Microsecond = locale_new (bytes_of ''microsecond'') (bytes_of ''microseconds'') ([0xCE, 0xBC] @ bytes_of ''s'') []"
| "get_unit_locale Chinese Day = locale_new [0xE5, 0xA4, 0xA9] [0xE5, 0xA4, 0xA9] [0xE5, 0xA4, 0xA9] [0xE5, 0xA4, 0xA7, 0xE7, 0xBA, 0xA6]"
| "get_unit_locale Chinese Hour = locale_new [0xE5, 0xB0, 0x8F, 0xE6, 0x97, 0xB6] [0xE5, 0xB0, 0x8F, 0xE6, 0x97, 0xB6] [0xE6, 0x97, 0xB6] [0xE5, 0xA4, 0xA7, 0xE7, 0xBA, 0xA6]"
| "get_unit_locale Chinese Minute = locale_new [0xE5, 0x88, 0x86, 0xE9, 0x92, 0x9F] [0xE5, 0x88, 0x86, 0xE9, 0x92, 0x9F] [0xE5, 0x88, 0x86] [0xE5, 0xA4, 0xA7, 0xE7, 0xBA, 0xA6]"
| "get_unit_locale Chinese Second = locale_new [0xE7, 0xA7, 0x92] [0xE7, 0xA7, 0x92] [0xE7, 0xA7, 0x92] [0xE5, 0xA4, 0xA7, 0xE7, 0xBA, 0xA6]"
| "get_unit_locale Chinese Millisecond = locale_new [0xE6, 0xAF, 0xAB, 0xE7, 0xA7, 0x92] [0xE6, 0xAF, 0xAB, 0xE7, 0xA7, 0x92] [0xE6, 0xAF, 0xAB, 0xE7, 0xA7, 0x92] []"
| "get_unit_locale Chinese Microsecond = locale_new [0xE5, 0xBE, 0xAE, 0xE7, 0xA7, 0x92] [0xE5, 0xBE, 0xAE, 0xE7, 0xA7, 0x92] [0xE5, 0xBE, 0xAE, 0xE7, 0xA7, 0x92] []"
| "get_unit_locale Japanese Day = locale_new [0xE6, 0x97, 0xA5] [0xE6, 0x97, 0xA5] [0xE6, 0x97, 0xA5] [0xE7, 0xB4, 0x84]"
| "get_unit_locale Japanese Hour = locale_new [0xE6, 0x99, 0x82, 0xE9, 0x96, 0x93] [0xE6, 0x99, 0x82, 0xE9, 0x96, 0x93] [0xE6, 0x99, 0x82] [0xE7, 0xB4, 0x84]"
| "get_unit_locale Japanese Minute = locale_new [0xE5, 0x88, 0x86] [0xE5, 0x88, 0x86] [0xE5, 0x88, 0x86] [0xE7, 0xB4, 0x84]"
| "get_unit_locale Japanese Second = locale_new [0xE7, 0xA7, 0x92] [0xE7, 0xA7, 0x92] [0xE7, 0xA7, 0x92] [0xE7, 0xB4, 0x84]"
| "get_unit_locale Japanese Millisecond = locale_new [0xE3, 0x83, 0x9F, 0xE3, 0x83, 0xAA, 0xE7, 0xA7, 0x92] [0xE3, 0x83, 0x9F, 0xE3, 0x83, 0xAA, 0xE7, 0xA7, 0x92] [0xE3, 0x83, 0x9F, 0xE3, 0x83, 0xAA, 0xE7, 0xA7, 0x92] []"
| "get_unit_locale Japanese Microsecond = locale_new [0xE3, 0x83, 0x9E, 0xE3, 0x82, 0xA4, 0xE3, 0x82, 0xAF, 0xE3, 0x83, 0xAD, 0xE7, 0xA7, 0x92] [0xE3, 0x83, 0x9E, 0xE3, 0x82, 0xA4, 0xE3, 0x82, 0xAF, 0xE3, 0x83, 0xAD, 0xE7, 0xA7, 0x92] [0xCE, 0xBC, 0xE7, 0xA7, 0x92] []"
| "get_unit_locale Spanish Day = locale_new (bytes_of ''d'' @ [0xC3, 0xAD] @ bytes_of ''a'') (bytes_of ''d'' @ [0xC3, 0xAD] @ bytes_of ''as'') (bytes_of ''d'') (bytes_of ''alrededor de '')"
| "get_unit_locale Spanish Hour = locale_new (bytes_of ''hora'') (bytes_of ''horas'') (bytes_of ''h'') (bytes_of ''alrededor de '')"
| "get_unit_locale Spanish Minute = locale_new (bytes_of ''minuto'') (bytes_of ''minutos'') (bytes_of ''m'') (bytes_of ''alrededor de '')"
| "get_unit_locale Spanish Second = locale_new (bytes_of ''segundo'') (bytes_of ''segundos'') (bytes_of ''s'') (bytes_of ''alrededor de '')"
| "get_unit_locale Spanish Millisecond = locale_new (bytes_of ''milisegundo'') (bytes_of ''milisegundos'') (bytes_of ''ms'') []"
| "get_unit_locale Spanish Microsecond = locale_new (bytes_of ''microsegundo'') (bytes_of ''microsegundos'') ([0xCE, 0xBC] @ bytes_of ''s'') []"
| "get_unit_locale German Day = locale_new (bytes_of ''Tag'') (bytes_of ''Tage'') (bytes_of ''T'') (bytes_of ''etwa '')"
| "get_unit_locale German Hour = locale_new (bytes_of ''Stunde'') (bytes_of ''Stunden'') (bytes_of ''Std'') (bytes_of ''etwa '')"
| "get_unit_locale German Minute = locale_new (bytes_of ''Minute'') (bytes_of ''Minuten'') (bytes_of ''Min'') (bytes_of ''etwa '')"
| "get_unit_locale German Second = locale_new (bytes_of ''Sekunde'') (bytes_of ''Sekunden'') (bytes_of ''s'') (bytes_of ''etwa '')"
| "get_unit_locale German Millisecond = locale_new (bytes_of ''Millisekunde'') (bytes_of ''Millisekunden'') (bytes_of ''ms'') []"
| "get_unit_locale German Microsecond = locale_new (bytes_of ''Mikrosekunde'') (bytes_of ''Mikrosekunden'') ([0xCE, 0xBC] @ bytes_of ''s'') []"

definition get_unit_str :: "language \<Rightarrow> time_unit \<Rightarrow> nat \<Rightarrow> bool \<Rightarrow> str" where
  "get_unit_str lang u n short =
     (let loc = get_unit_locale lang u in if short then ul_short loc else if 1 < n then ul_plural loc else ul_singular loc)"

section \<open>Parts of a duration\<close>

record std_duration =
  du_secs :: nat
  du_nanos :: nat

definition SECONDS_PER_MINUTE :: nat where
  "SECONDS_PER_MINUTE = 60"

definition SECONDS_PER_HOUR :: nat where
  "SECONDS_PER_HOUR = 3600"

definition SECONDS_PER_DAY :: nat where
  "SECONDS_PER_DAY = 86400"

definition NANOS_PER_MILLI :: nat where
  "NANOS_PER_MILLI = 1000000"

definition NANOS_PER_MICRO :: nat where
  "NANOS_PER_MICRO = 1000"

lemmas time_constants = SECONDS_PER_MINUTE_def SECONDS_PER_HOUR_def SECONDS_PER_DAY_def NANOS_PER_MILLI_def NANOS_PER_MICRO_def

record time_parts =
  tp_days :: nat
  tp_hours :: nat
  tp_minutes :: nat
  tp_seconds :: nat
  tp_millis :: nat
  tp_micros :: nat
  tp_nanos :: nat

text \<open>The casts to \<open>u8\<close> and \<open>u16\<close>.\<close>

definition get_parts :: "std_duration \<Rightarrow> time_parts" where
  "get_parts d =
     (let secs = du_secs d; days = secs div SECONDS_PER_DAY; secs = secs mod SECONDS_PER_DAY;
          hours = (secs div SECONDS_PER_HOUR) mod 256; secs = secs mod SECONDS_PER_HOUR;
          minutes = (secs div SECONDS_PER_MINUTE) mod 256; seconds = (secs mod SECONDS_PER_MINUTE) mod 256; nanos = du_nanos d;
          millis = (nanos div NANOS_PER_MILLI) mod 65536; micros = ((nanos mod NANOS_PER_MILLI) div NANOS_PER_MICRO) mod 65536
      in \<lparr> tp_days = days, tp_hours = hours, tp_minutes = minutes, tp_seconds = seconds, tp_millis = millis, tp_micros = micros,
           tp_nanos = nanos \<rparr>)"

definition write_padded :: "nat \<Rightarrow> nat \<Rightarrow> str" where
  "write_padded n width = (let s = decimal n in replicate (width - length s) 0x30 @ s)"

definition write_millis :: "nat \<Rightarrow> str" where
  "write_millis ms = write_padded ((ms div 100) mod 256) 1 @ write_padded ((ms div 10) mod 10 mod 256) 1 @ write_padded (ms mod 10 mod 256) 1"

section \<open>The formats\<close>

definition fmt_compact :: "language \<Rightarrow> std_duration \<Rightarrow> str" where
  "fmt_compact lang d =
     (let p = get_parts d; part = (\<lambda>n u. decimal n @ get_unit_str lang u n True);
          out = (if 0 < tp_days p then part (tp_days p) Day else []) @ (if 0 < tp_hours p then part (tp_hours p) Hour else []) @
            (if 0 < tp_minutes p then part (tp_minutes p) Minute else []);
          written = (0 < tp_days p \<or> 0 < tp_hours p \<or> 0 < tp_minutes p)
      in out @ (if 0 < tp_seconds p \<or> \<not> written then part (tp_seconds p) Second else []))"

text \<open>A component with its separator, unless it is the first.\<close>

definition add_part :: "str \<Rightarrow> str \<Rightarrow> str \<times> bool \<Rightarrow> str \<times> bool" where
  "add_part sep s = (\<lambda>(out, first). (out @ (if first then [] else sep) @ s, False))"

definition fmt_standard :: "language \<Rightarrow> std_duration \<Rightarrow> str" where
  "fmt_standard lang d =
     (let p = get_parts d; part = (\<lambda>n u. decimal n @ bytes_of '' '' @ get_unit_str lang u n False); sep = bytes_of '' '';
          st = ([], True);
          st = (if 0 < tp_days p then add_part sep (part (tp_days p) Day) st else st);
          st = (if 0 < tp_hours p then add_part sep (part (tp_hours p) Hour) st else st);
          st = (if 0 < tp_minutes p then add_part sep (part (tp_minutes p) Minute) st else st);
          st = (if 0 < tp_seconds p \<or> snd st then add_part sep (part (tp_seconds p) Second) st else st)
      in fst st)"

definition fmt_detailed :: "language \<Rightarrow> std_duration \<Rightarrow> str" where
  "fmt_detailed lang d =
     (let p = get_parts d; part = (\<lambda>n u. decimal n @ bytes_of '' '' @ get_unit_str lang u n False);
          sep = (if lang = Chinese \<or> lang = Japanese then [0xE3, 0x80, 0x81] else bytes_of '', '');
          st = ([], True);
          st = (if 0 < tp_days p then add_part sep (part (tp_days p) Day) st else st);
          st = (if 0 < tp_hours p then add_part sep (part (tp_hours p) Hour) st else st);
          st = (if 0 < tp_minutes p then add_part sep (part (tp_minutes p) Minute) st else st)
      in fst (add_part sep (decimal (tp_seconds p) @ bytes_of ''.'' @ write_millis (tp_millis p) @ bytes_of '' '' @
           get_unit_str lang Second (tp_seconds p) False) st))"

definition fmt_iso8601 :: "std_duration \<Rightarrow> str" where
  "fmt_iso8601 d =
     (let p = get_parts d
      in bytes_of ''P'' @ (if 0 < tp_days p then decimal (tp_days p) @ bytes_of ''D'' else []) @
         (if 0 < tp_hours p \<or> 0 < tp_minutes p \<or> 0 < tp_seconds p
          then bytes_of ''T'' @ (if 0 < tp_hours p then decimal (tp_hours p) @ bytes_of ''H'' else []) @
            (if 0 < tp_minutes p then decimal (tp_minutes p) @ bytes_of ''M'' else []) @
            (if 0 < tp_seconds p then decimal (tp_seconds p) @ bytes_of ''S'' else [])
          else []))"

text \<open>Sums of 64 bits; only the last can wrap.\<close>

definition fuzzy_value :: "nat \<Rightarrow> nat \<times> time_unit" where
  "fuzzy_value secs =
     (if secs < 2 then (1, Second)
      else if secs < 60 then (secs, Second)
      else if secs < 120 then (1, Minute)
      else if secs < SECONDS_PER_HOUR then ((secs + 30) mod 2 ^ 64 div 60, Minute)
      else if secs < SECONDS_PER_HOUR * 2 then (1, Hour)
      else if secs < SECONDS_PER_DAY then ((secs + 1800) mod 2 ^ 64 div 3600, Hour)
      else ((secs + 43200) mod 2 ^ 64 div 86400, Day))"

definition fmt_fuzzy :: "language \<Rightarrow> std_duration \<Rightarrow> str" where
  "fmt_fuzzy lang d =
     (let (n, u) = fuzzy_value (du_secs d)
      in ul_fuzzy_prefix (get_unit_locale lang Second) @ decimal n @ bytes_of '' '' @ get_unit_str lang u n False)"

definition fmt_numeric :: "std_duration \<Rightarrow> str" where
  "fmt_numeric d =
     (let p = get_parts d
      in (if 0 < tp_days p then decimal (tp_days p) @ bytes_of '':'' @ write_padded (tp_hours p) 2 else write_padded (tp_hours p) 2) @
         bytes_of '':'' @ write_padded (tp_minutes p) 2 @ bytes_of '':'' @ write_padded (tp_seconds p) 2 @ bytes_of ''.'' @
         write_millis (tp_millis p))"

definition fmt_verbose :: "std_duration \<Rightarrow> str" where
  "fmt_verbose d =
     (let p = get_parts d; component = (\<lambda>n l st. if 0 < n then add_part (bytes_of '' '') (l @ bytes_of '':'' @ decimal n) st else st);
          st = ([], True);
          st = component (tp_days p) (bytes_of ''D'') st; st = component (tp_hours p) (bytes_of ''H'') st;
          st = component (tp_minutes p) (bytes_of ''M'') st; st = component (tp_seconds p) (bytes_of ''S'') st;
          st = component (tp_millis p) (bytes_of ''ms'') st; st = component (tp_micros p) ([0xCE, 0xBC] @ bytes_of ''s'') st;
          st = component (tp_nanos p) (bytes_of ''ns'') st
      in if snd st then fst st @ bytes_of ''0s'' else fst st)"

definition fmt_auto :: "language \<Rightarrow> std_duration \<Rightarrow> str" where
  "fmt_auto lang d =
     (let p = get_parts d
      in if 0 < tp_days p then fmt_detailed lang d
         else if 0 < tp_hours p \<or> 0 < tp_minutes p then fmt_compact lang d
         else if 0 < tp_seconds p
         then decimal (tp_seconds p) @ bytes_of ''.'' @ write_millis (tp_millis p) @ get_unit_str lang Second (tp_seconds p) False
         else if 0 < tp_millis p then decimal (tp_millis p) @ get_unit_str lang Millisecond (tp_millis p) False
         else if 0 < tp_micros p then decimal (tp_micros p) @ get_unit_str lang Microsecond (tp_micros p) False
         else bytes_of ''0'' @ get_unit_str lang Second 0 False)"

definition format_of :: "duration_format \<Rightarrow> language \<Rightarrow> std_duration \<Rightarrow> str" where
  "format_of f lang d =
     (case f of
        Auto \<Rightarrow> fmt_auto lang d | Compact \<Rightarrow> fmt_compact lang d | Standard \<Rightarrow> fmt_standard lang d | Detailed \<Rightarrow> fmt_detailed lang d
      | ISO8601 \<Rightarrow> fmt_iso8601 d | Fuzzy \<Rightarrow> fmt_fuzzy lang d | Numeric \<Rightarrow> fmt_numeric d | Verbose \<Rightarrow> fmt_verbose d)"

text \<open>Random choices index their tables without a check.\<close>

definition LANGUAGES :: "language list" where
  "LANGUAGES = [English, Chinese, Japanese, Spanish, German]"

definition CANDIDATES :: "duration_format list" where
  "CANDIDATES = [Compact, Standard, Detailed, ISO8601, Fuzzy, Numeric, Verbose]"

definition get_unchecked :: "'a list \<Rightarrow> nat \<Rightarrow> 'a outcome" where
  "get_unchecked xs i = (if i < length xs then Done (xs ! i) else UB)"

definition draw_language :: "(nat \<Rightarrow> nat) \<Rightarrow> language outcome" where
  "draw_language random_range = get_unchecked LANGUAGES (random_range (length LANGUAGES))"

definition draw_format :: "(nat \<Rightarrow> nat) \<Rightarrow> duration_format outcome" where
  "draw_format random_range = get_unchecked CANDIDATES (random_range (length CANDIDATES))"

definition human_duration_fmt :: "(nat \<Rightarrow> nat) \<Rightarrow> (nat \<Rightarrow> nat) \<Rightarrow> format_choice \<Rightarrow> language_choice \<Rightarrow> std_duration \<Rightarrow> str outcome" where
  "human_duration_fmt random_f random_l f l d =
     bind_outcome (case f of Format f \<Rightarrow> Done f | RandomFormat \<Rightarrow> draw_format random_f) (\<lambda>f.
     bind_outcome (case l of Language l \<Rightarrow> Done l | RandomLanguage \<Rightarrow> draw_language random_l) (\<lambda>l. Done (format_of f l d)))"

text \<open>The default of \<open>human\<close>.\<close>

definition human_default :: "format_choice \<times> language_choice" where
  "human_default = (Format Auto, Language Chinese)"

section \<open>Parts\<close>

lemma get_parts_secs:
  "tp_hours (get_parts d) < 24" "tp_minutes (get_parts d) < 60" "tp_seconds (get_parts d) < 60"
  "((tp_days (get_parts d) * 24 + tp_hours (get_parts d)) * 60 + tp_minutes (get_parts d)) * 60 + tp_seconds (get_parts d) = du_secs d"
proof -
  define r where "r = du_secs d mod 86400"
  define h where "h = r div 3600"
  define r2 where "r2 = r mod 3600"
  define m where "m = r2 div 60"
  have "r < 86400" "r2 < 3600" by (simp_all add: r_def r2_def)
  then have b: "h < 24" "m < 60" "r2 mod 60 < 60" by (simp_all add: h_def m_def less_mult_imp_div_less)
  then have p: "tp_days (get_parts d) = du_secs d div 86400" "tp_hours (get_parts d) = h" "tp_minutes (get_parts d) = m"
    "tp_seconds (get_parts d) = r2 mod 60"
    by (simp_all add: get_parts_def Let_def time_constants r_def [symmetric] h_def [symmetric] r2_def [symmetric] m_def [symmetric])
  have "du_secs d = du_secs d div 86400 * 86400 + r" "r = h * 3600 + r2" "r2 = m * 60 + r2 mod 60"
    by (simp_all add: r_def h_def r2_def m_def)
  then show "((tp_days (get_parts d) * 24 + tp_hours (get_parts d)) * 60 + tp_minutes (get_parts d)) * 60 + tp_seconds (get_parts d) = du_secs d"
    unfolding p by (simp add: algebra_simps)
  show "tp_hours (get_parts d) < 24" "tp_minutes (get_parts d) < 60" "tp_seconds (get_parts d) < 60" using b by (simp_all add: p)
qed

lemma get_parts_nanos:
  assumes "du_nanos d < 1000000000"
  shows "tp_millis (get_parts d) = du_nanos d div 1000000" "tp_millis (get_parts d) < 1000" "tp_micros (get_parts d) < 1000"
    "tp_millis (get_parts d) * 1000000 + tp_micros (get_parts d) * 1000 + du_nanos d mod 1000 = du_nanos d"
proof -
  define r where "r = du_nanos d mod 1000000"
  have "r < 1000000" by (simp add: r_def)
  then have b: "du_nanos d div 1000000 < 1000" "r div 1000 < 1000" using assms by (simp_all add: less_mult_imp_div_less)
  then have p: "tp_millis (get_parts d) = du_nanos d div 1000000" "tp_micros (get_parts d) = r div 1000"
    by (simp_all add: get_parts_def Let_def time_constants r_def [symmetric])
  have "du_nanos d mod 1000 = r mod 1000" by (simp add: r_def mod_mod_cancel)
  moreover have "du_nanos d = du_nanos d div 1000000 * 1000000 + r" "r = r div 1000 * 1000 + r mod 1000" by (simp_all add: r_def)
  ultimately show "tp_millis (get_parts d) * 1000000 + tp_micros (get_parts d) * 1000 + du_nanos d mod 1000 = du_nanos d"
    unfolding p by linarith
  show "tp_millis (get_parts d) = du_nanos d div 1000000" "tp_millis (get_parts d) < 1000" "tp_micros (get_parts d) < 1000"
    using b by (simp_all add: p)
qed

text \<open>The parts of a duration make up the duration, and no cast cuts anything off.\<close>

theorem get_parts_exact:
  assumes "du_nanos d < 1000000000" and "p = get_parts d"
  shows "((tp_days p * 24 + tp_hours p) * 60 + tp_minutes p) * 60 + tp_seconds p = du_secs d \<and>
    tp_millis p * 1000000 + tp_micros p * 1000 + du_nanos d mod 1000 = du_nanos d \<and>
    tp_hours p < 24 \<and> tp_minutes p < 60 \<and> tp_seconds p < 60 \<and> tp_millis p < 1000 \<and> tp_micros p < 1000"
  unfolding assms(2) using get_parts_secs [of d] get_parts_nanos [OF assms(1)] by blast

theorem get_parts_exact_witness:
  "let p = get_parts \<lparr> du_secs = 90061, du_nanos = 5000 \<rparr> in ((tp_days p * 24 + tp_hours p) * 60 + tp_minutes p) * 60 + tp_seconds p = 90061"
  using get_parts_exact [of "\<lparr> du_secs = 90061, du_nanos = 5000 \<rparr>"] by (simp add: Let_def)

section \<open>The numeric format\<close>

definition read_number :: "str \<Rightarrow> nat" where
  "read_number s = radix_value DIGITS 0 s"

text \<open>Reading the numeric format back, in milliseconds.\<close>

definition read_numeric :: "str \<Rightarrow> nat" where
  "read_numeric t =
     (let days = read_number (take (length t - 13) t); c = drop (length t - 12) t
      in (((days * 24 + read_number (take 2 c)) * 60 + read_number (take 2 (drop 3 c))) * 60 + read_number (take 2 (drop 6 c))) * 1000 +
         read_number (drop 9 c))"

lemma zero_digit: "digit_of DIGITS 0x30 = 0"
  by code_simp

lemma radix_value_zeros: "radix_value DIGITS 0 (replicate k 0x30 @ s) = radix_value DIGITS 0 s"
  by (induction k) (simp_all add: zero_digit)

lemma read_padded [simp]: "read_number (write_padded n w) = n"
  by (simp add: read_number_def write_padded_def Let_def radix_value_zeros del: radix_value_simps(3))

lemma length_padded: "n < 10 ^ w \<Longrightarrow> 0 < w \<Longrightarrow> length (write_padded n w) = w"
  using length_decimal [of n w] by (simp add: write_padded_def Let_def)

lemma length_padded_2 [simp]: "n < 100 \<Longrightarrow> length (write_padded n 2) = 2"
  using length_padded [of n 2] by simp

lemma length_millis [simp]: "ms < 1000 \<Longrightarrow> length (write_millis ms) = 3"
  by (simp add: write_millis_def length_padded)

lemma radix_value_padded_1: "n < 10 \<Longrightarrow> radix_value DIGITS a (write_padded n 1) = a * 10 + n"
proof -
  assume n: "n < 10"
  then obtain c where c: "write_padded n 1 = [c]" using length_padded [of n 1] by (auto simp: length_Suc_conv)
  then show ?thesis using read_padded [of n 1] by (simp add: read_number_def)
qed

lemma read_millis [simp]:
  assumes "ms < 1000"
  shows "read_number (write_millis ms) = ms"
proof -
  define x where "x = ms div 100"
  define y where "y = ms div 10 mod 10"
  define z where "z = ms mod 10"
  have b: "x < 10" "y < 10" "z < 10" using assms by (simp_all add: x_def y_def z_def less_mult_imp_div_less)
  have "ms = ms div 10 * 10 + z" by (simp add: z_def)
  moreover have "ms div 10 = ms div 10 div 10 * 10 + y" unfolding y_def by (rule div_mult_mod_eq [symmetric])
  moreover have "ms div 10 div 10 = x" by (simp add: x_def div_mult2_eq [symmetric])
  ultimately have ms: "ms = (x * 10 + y) * 10 + z" by simp
  have "write_millis ms = write_padded x 1 @ write_padded y 1 @ write_padded z 1"
    using b unfolding write_millis_def x_def [symmetric] y_def [symmetric] z_def [symmetric] by simp
  then show ?thesis using b ms by (simp add: read_number_def radix_value_padded_1 del: One_nat_def)
qed

lemma read_numeric_parts:
  assumes "length h = 2" "length m = 2" "length t = 2" "length ms = 3"
    "(days = 0 \<and> pre = []) \<or> (pre = decimal days @ bytes_of '':'')"
  shows "read_numeric (pre @ h @ bytes_of '':'' @ m @ bytes_of '':'' @ t @ bytes_of ''.'' @ ms) =
    (((days * 24 + read_number h) * 60 + read_number m) * 60 + read_number t) * 1000 + read_number ms"
proof -
  have n: "numeral k = Suc (numeral k - 1)" for k by simp
  let ?c = "h @ bytes_of '':'' @ m @ bytes_of '':'' @ t @ bytes_of ''.'' @ ms"
  have c: "length ?c = 12" using assms by simp
  have "take (length (pre @ ?c) - 13) (pre @ ?c) = (if pre = [] then [] else decimal days)" using assms(5) c by auto
  then have "read_number (take (length (pre @ ?c) - 13) (pre @ ?c)) = days" using assms(5) by (auto simp: read_number_def)
  moreover have "drop (length (pre @ ?c) - 12) (pre @ ?c) = ?c" using c by simp
  moreover have "take 2 ?c = h" "take 2 (drop 3 ?c) = m" "take 2 (drop 6 ?c) = t" "drop 9 ?c = ms" using assms by simp_all
  ultimately show ?thesis by (simp only: read_numeric_def Let_def)
qed

text \<open>The numeric format can be read back: it keeps a duration to the millisecond.\<close>

theorem numeric_roundtrip:
  assumes "du_nanos d < 1000000000"
  shows "read_numeric (fmt_numeric d) = du_secs d * 1000 + du_nanos d div 1000000"
proof -
  define p where "p = get_parts d"
  have b: "tp_hours p < 24" "tp_minutes p < 60" "tp_seconds p < 60" "tp_millis p < 1000"
    and secs: "((tp_days p * 24 + tp_hours p) * 60 + tp_minutes p) * 60 + tp_seconds p = du_secs d"
    and ms: "tp_millis p = du_nanos d div 1000000"
    using get_parts_secs [of d] get_parts_nanos [OF assms] by (simp_all add: p_def)
  define pre where "pre = (if 0 < tp_days p then decimal (tp_days p) @ bytes_of '':'' else [])"
  have pre: "tp_days p = 0 \<and> pre = [] \<or> pre = decimal (tp_days p) @ bytes_of '':''" by (simp add: pre_def)
  have "fmt_numeric d = pre @ write_padded (tp_hours p) 2 @ bytes_of '':'' @ write_padded (tp_minutes p) 2 @ bytes_of '':'' @
    write_padded (tp_seconds p) 2 @ bytes_of ''.'' @ write_millis (tp_millis p)"
    by (simp add: fmt_numeric_def p_def [symmetric] pre_def)
  then show ?thesis using read_numeric_parts [OF _ _ _ _ pre] b secs ms by simp
qed

theorem numeric_roundtrip_witness: "read_numeric (fmt_numeric \<lparr> du_secs = 90061, du_nanos = 5000000 \<rparr>) = 90061005"
  using numeric_roundtrip [of "\<lparr> du_secs = 90061, du_nanos = 5000000 \<rparr>"] by simp

section \<open>The fuzzy format\<close>

fun unit_secs :: "time_unit \<Rightarrow> nat" where
  "unit_secs Minute = 60"
| "unit_secs Hour = 3600"
| "unit_secs Day = 86400"
| "unit_secs _ = 1"

lemma rounded_close:
  fixes s k :: nat
  assumes "0 < k" and "even k"
  shows "2 * ((s + k div 2) div k * k) \<le> 2 * s + k" and "2 * s \<le> 2 * ((s + k div 2) div k * k) + k"
proof -
  define q where "q = (s + k div 2) div k"
  have "q * k \<le> s + k div 2" "s + k div 2 < q * k + k" 
    using assms(1) dividend_less_div_times [of k "s + k div 2"] by (simp_all add: q_def add.commute)
  moreover have "2 * (k div 2) = k" using assms(2) by simp
  ultimately show "2 * ((s + k div 2) div k * k) \<le> 2 * s + k" "2 * s \<le> 2 * ((s + k div 2) div k * k) + k"
    unfolding q_def [symmetric] by linarith+
qed

text \<open>The fuzzy format is off by at most half of its unit, except that one minute and one hour stand for everything up to two, and
  it never says zero while the sum does not overflow.\<close>

theorem fuzzy_close:
  assumes "fuzzy_value s = (n, u)" and "s < 2 ^ 64 - 43200"
  shows "0 < n \<and> (n = 1 \<and> s < 2 * unit_secs u \<or>
    2 * (n * unit_secs u) \<le> 2 * s + unit_secs u \<and> 2 * s \<le> 2 * (n * unit_secs u) + unit_secs u)"
proof -
  have wrap: "(s + k) mod 2 ^ 64 = s + k" if "k \<le> 43200" for k using assms(2) that by simp
  consider "s < 2" "n = 1" "u = Second" | "2 \<le> s" "s < 60" "n = s" "u = Second" | "60 \<le> s" "s < 120" "n = 1" "u = Minute"
    | "120 \<le> s" "n = (s + 30) div 60" "u = Minute" | "3600 \<le> s" "s < 7200" "n = 1" "u = Hour"
    | "7200 \<le> s" "n = (s + 1800) div 3600" "u = Hour" | "86400 \<le> s" "n = (s + 43200) div 86400" "u = Day"
    using assms(1) wrap [of 30] wrap [of 1800] wrap [of 43200] by (auto simp: fuzzy_value_def time_constants split: if_splits)
  then show ?thesis
  proof cases
    case 4
    then show ?thesis using rounded_close [of 60 s] by (simp add: div_greater_zero_iff)
  next
    case 6
    then show ?thesis using rounded_close [of 3600 s] by (simp add: div_greater_zero_iff)
  next
    case 7
    then show ?thesis using rounded_close [of 86400 s] by (simp add: div_greater_zero_iff)
  qed simp_all
qed

theorem fuzzy_close_witness: "fuzzy_value 150 = (3, Minute) \<and> 2 * (3 * unit_secs Minute) \<le> 2 * 150 + unit_secs Minute"
proof -
  have "fuzzy_value 150 = (3, Minute)" by (simp add: fuzzy_value_def time_constants)
  then show ?thesis using fuzzy_close [of 150 3 Minute] by simp
qed

lemma fuzzy_near_hour: "3570 \<le> s \<Longrightarrow> s < 3600 \<Longrightarrow> fuzzy_value s = (60, Minute)"
proof -
  assume s: "3570 \<le> s" "s < 3600"
  then have "(s + 30) div 60 = 60" by (intro div_nat_eqI) simp_all
  then show "fuzzy_value s = (60, Minute)" using s by (simp add: fuzzy_value_def time_constants)
qed

lemma fuzzy_near_day: "84600 \<le> s \<Longrightarrow> s < 86400 \<Longrightarrow> fuzzy_value s = (24, Hour)"
proof -
  assume s: "84600 \<le> s" "s < 86400"
  then have "(s + 1800) div 3600 = 24" by (intro div_nat_eqI) simp_all
  then show "fuzzy_value s = (24, Hour)" using s by (simp add: fuzzy_value_def time_constants)
qed

text \<open>Just below an hour the fuzzy format says sixty minutes, and just below a day 24 hours.\<close>

theorem fuzzy_sixty_minutes:
  "fmt_fuzzy English \<lparr> du_secs = 3570 + k mod 30, du_nanos = n \<rparr> = bytes_of ''about 60 minutes'' \<and>
   fmt_fuzzy English \<lparr> du_secs = 84600 + j mod 1800, du_nanos = n \<rparr> = bytes_of ''about 24 hours''"
proof -
  have "k mod 30 < 30" "j mod 1800 < 1800" by simp_all
  then have "fuzzy_value (3570 + k mod 30) = (60, Minute)" "fuzzy_value (84600 + j mod 1800) = (24, Hour)"
    by (simp_all add: fuzzy_near_hour fuzzy_near_day)
  moreover have "decimal 60 = bytes_of ''60''" "decimal 24 = bytes_of ''24''" by code_simp+
  ultimately show ?thesis by (simp add: fmt_fuzzy_def get_unit_str_def locale_new_def bytes_of_def)
qed

text \<open>The sum that rounds to days overflows for the longest durations, which are then no days at all.\<close>

theorem fuzzy_overflow: "fuzzy_value (2 ^ 64 - 1) = (0, Day)"
  by (simp add: fuzzy_value_def time_constants)

section \<open>Other formats\<close>

text \<open>A duration below one second is written as \<open>P\<close> in the format of ISO 8601, which is not a duration of the standard.\<close>

theorem iso8601_zero: "fmt_iso8601 d = bytes_of ''P'' \<longleftrightarrow> du_secs d = 0"
proof -
  have "fmt_iso8601 d = bytes_of ''P'' \<longleftrightarrow> tp_days (get_parts d) = 0 \<and> tp_hours (get_parts d) = 0 \<and> tp_minutes (get_parts d) = 0 \<and> tp_seconds (get_parts d) = 0"
    by (simp add: fmt_iso8601_def Let_def bytes_of_def)
  then show ?thesis using get_parts_secs(4) [of d] by auto
qed

text \<open>The verbose format counts the fraction of the second twice: as milli- and microseconds, and all of it again as nanoseconds.\<close>

theorem verbose_repeats_fraction:
  "fmt_verbose \<lparr> du_secs = 3662, du_nanos = 567000000 \<rparr> = bytes_of ''H:1 M:1 S:2 ms:567 ns:567000000''"
proof -
  have "decimal 1 = bytes_of ''1''" "decimal 2 = bytes_of ''2''" "decimal 567 = bytes_of ''567''" "decimal 567000000 = bytes_of ''567000000''"
    by (simp_all add: decimal.simps DIGITS_def bytes_of_def)
  then show ?thesis by (simp add: fmt_verbose_def get_parts_def time_constants add_part_def Let_def bytes_of_def)
qed

text \<open>A random choice stays within its table.\<close>

theorem human_duration_safe:
  assumes "\<forall>n. 0 < n \<longrightarrow> rf n < n" and "\<forall>n. 0 < n \<longrightarrow> rl n < n"
  shows "\<exists>f' l'. human_duration_fmt rf rl f l d = Done (format_of f' l' d) \<and> (\<forall>g. f = Format g \<longrightarrow> f' = g) \<and> (\<forall>g. l = Language g \<longrightarrow> l' = g)"
proof -
  have "0 < length CANDIDATES" "0 < length LANGUAGES" by (simp_all add: CANDIDATES_def LANGUAGES_def)
  then obtain f' l' where "draw_format rf = Done f'" "draw_language rl = Done l'"
    using assms by (simp add: draw_format_def draw_language_def get_unchecked_def)
  then show ?thesis by (cases f; cases l) (auto simp: human_duration_fmt_def)
qed

theorem human_duration_safe_witness:
  "\<exists>f' l'. human_duration_fmt (\<lambda>n. n - 1) (\<lambda>n. 0) RandomFormat (Language German) \<lparr> du_secs = 5, du_nanos = 0 \<rparr> =
    Done (format_of f' l' \<lparr> du_secs = 5, du_nanos = 0 \<rparr>) \<and> l' = German"
  using human_duration_safe [of "\<lambda>n. n - 1" "\<lambda>n. 0" RandomFormat "Language German" "\<lparr> du_secs = 5, du_nanos = 0 \<rparr>"] by auto

end
