(* ===== verification/Interned_Str.thy ===== *)
theory Interned_Str
  imports Text_Utils
begin

text \<open>
  Interned strings, from \<open>crates/interned\<close> (\<open>arc_str.rs\<close>, \<open>str.rs\<close>): texts with a reference count, shared through a global pool,
  so that equal texts have equal addresses.  The heap is explicit: an access to an address that is not allocated is
  undefined behaviour.  Operations are split where another thread can come in between: an entry of the pool is locked
  while it is looked up, and the count is atomic.  \<open>h\<close> is the hash function of the pool.
\<close>

section \<open>State\<close>

type_synonym arc = nat

record arc_inner =
  ac_hash :: u64
  ac_count :: u64
  ac_text :: str

record arc_pool =
  ar_heap :: "arc \<Rightarrow> arc_inner option"
  ar_pool :: "(u64 \<times> arc) list"

definition pool_empty :: arc_pool where
  "pool_empty = \<lparr> ar_heap = (\<lambda>_. None), ar_pool = [] \<rparr>"

definition COUNT_MAX :: u64 where
  "COUNT_MAX = 0x7FFFFFFFFFFFFFFF"

definition arc_deref :: "arc \<Rightarrow> arc_pool \<Rightarrow> arc_inner outcome" where
  "arc_deref p s = (case ar_heap s p of None \<Rightarrow> UB | Some c \<Rightarrow> Done c)"

section \<open>Operations\<close>

definition inc_strong :: "arc \<Rightarrow> arc_pool \<Rightarrow> arc_pool outcome" where
  "inc_strong p s =
     bind_outcome (arc_deref p s) (\<lambda>c.
       if COUNT_MAX < ac_count c then Panic else Done (s\<lparr> ar_heap := (ar_heap s)(p \<mapsto> c\<lparr> ac_count := ac_count c + 1 \<rparr>) \<rparr>))"

definition dec_strong :: "arc \<Rightarrow> arc_pool \<Rightarrow> (bool \<times> arc_pool) outcome" where
  "dec_strong p s =
     bind_outcome (arc_deref p s) (\<lambda>c. Done (ac_count c = 1, s\<lparr> ar_heap := (ar_heap s)(p \<mapsto> c\<lparr> ac_count := ac_count c - 1 \<rparr>) \<rparr>))"

text \<open>A lookup by content compares with the text behind every entry of the same hash.\<close>

fun pool_entry :: "(arc \<Rightarrow> arc_inner option) \<Rightarrow> (u64 \<times> arc) list \<Rightarrow> u64 \<Rightarrow> str \<Rightarrow> arc option outcome" where
  "pool_entry hp [] k t = Done None"
| "pool_entry hp ((k', p) # es) k t =
     (if k' \<noteq> k then pool_entry hp es k t
      else case hp p of None \<Rightarrow> UB | Some c \<Rightarrow> if ac_text c = t then Done (Some p) else pool_entry hp es k t)"

definition try_find_existing :: "(str \<Rightarrow> u64) \<Rightarrow> str \<Rightarrow> arc_pool \<Rightarrow> (arc option \<times> arc_pool) outcome" where
  "try_find_existing h t s =
     bind_outcome (pool_entry (ar_heap s) (ar_pool s) (h t) t) (\<lambda>e.
       case e of None \<Rightarrow> Done (None, s) | Some p \<Rightarrow> bind_outcome (inc_strong p s) (\<lambda>s'. Done (Some p, s')))"

text \<open>The second lookup, which inserts; \<open>a\<close> is the address that the allocator returns.\<close>

definition find_or_insert :: "(str \<Rightarrow> u64) \<Rightarrow> nat \<Rightarrow> arc \<Rightarrow> str \<Rightarrow> arc_pool \<Rightarrow> (arc \<times> arc_pool) outcome" where
  "find_or_insert h max_len a t s =
     bind_outcome (pool_entry (ar_heap s) (ar_pool s) (h t) t) (\<lambda>e.
       case e of
         Some p \<Rightarrow> bind_outcome (inc_strong p s) (\<lambda>s'. Done (p, s'))
       | None \<Rightarrow>
           if max_len < length t then Panic
           else Done (a, s\<lparr> ar_heap := (ar_heap s)(a \<mapsto> \<lparr> ac_hash = h t, ac_count = 1, ac_text = t \<rparr>), ar_pool := (h t, a) # ar_pool s \<rparr>))"

definition arc_new :: "(str \<Rightarrow> u64) \<Rightarrow> nat \<Rightarrow> arc \<Rightarrow> str \<Rightarrow> arc_pool \<Rightarrow> (arc \<times> arc_pool) outcome" where
  "arc_new h max_len a t s =
     bind_outcome (try_find_existing h t s) (\<lambda>(e, s'). case e of Some p \<Rightarrow> Done (p, s') | None \<Rightarrow> find_or_insert h max_len a t s')"

definition arc_clone :: "arc \<Rightarrow> arc_pool \<Rightarrow> (arc \<times> arc_pool) outcome" where
  "arc_clone p s = bind_outcome (inc_strong p s) (\<lambda>s'. Done (p, s'))"

text \<open>The second half of \<open>Drop\<close>, after the count has reached 0.\<close>

definition arc_free :: "arc \<Rightarrow> arc_pool \<Rightarrow> arc_pool outcome" where
  "arc_free p s =
     bind_outcome (arc_deref p s) (\<lambda>c.
       if (ac_hash c, p) \<in> set (ar_pool s)
       then if ac_count c \<noteq> 0 then Done s
            else Done (s\<lparr> ar_pool := filter (\<lambda>e. e \<noteq> (ac_hash c, p)) (ar_pool s), ar_heap := (ar_heap s)(p := None) \<rparr>)
       else Done s)"

definition arc_drop :: "arc \<Rightarrow> arc_pool \<Rightarrow> arc_pool outcome" where
  "arc_drop p s = bind_outcome (dec_strong p s) (\<lambda>(last_one, s'). if last_one then arc_free p s' else Done s')"

definition arc_as_str :: "arc \<Rightarrow> arc_pool \<Rightarrow> str outcome" where
  "arc_as_str p s = bind_outcome (arc_deref p s) (\<lambda>c. Done (ac_text c))"

definition arc_len :: "arc \<Rightarrow> arc_pool \<Rightarrow> nat outcome" where
  "arc_len p s = bind_outcome (arc_deref p s) (\<lambda>c. Done (length (ac_text c)))"

definition arc_ref_count :: "arc \<Rightarrow> arc_pool \<Rightarrow> u64 outcome" where
  "arc_ref_count p s = bind_outcome (arc_deref p s) (\<lambda>c. Done (ac_count c))"

definition arc_eq :: "arc \<Rightarrow> arc \<Rightarrow> bool" where
  "arc_eq p q \<longleftrightarrow> p = q"

text \<open>\<open>Str\<close>: a static text or an interned one.\<close>

datatype istr = Static str | Counted arc

fun istr_as_str :: "istr \<Rightarrow> arc_pool \<Rightarrow> str outcome" where
  "istr_as_str (Static t) s = Done t"
| "istr_as_str (Counted p) s = arc_as_str p s"

definition same_text :: "str outcome \<Rightarrow> str outcome \<Rightarrow> bool outcome" where
  "same_text a b = bind_outcome a (\<lambda>x. bind_outcome b (\<lambda>y. Done (x = y)))"

fun istr_eq :: "istr \<Rightarrow> istr \<Rightarrow> arc_pool \<Rightarrow> bool outcome" where
  "istr_eq (Counted p) (Counted q) s = Done (arc_eq p q)"
| "istr_eq x y s = same_text (istr_as_str x s) (istr_as_str y s)"

fun istr_clone :: "istr \<Rightarrow> arc_pool \<Rightarrow> (istr \<times> arc_pool) outcome" where
  "istr_clone (Static t) s = Done (Static t, s)"
| "istr_clone (Counted p) s = bind_outcome (arc_clone p s) (\<lambda>(q, s'). Done (Counted q, s'))"

fun istr_ref_count :: "istr \<Rightarrow> arc_pool \<Rightarrow> u64 option outcome" where
  "istr_ref_count (Static t) s = Done None"
| "istr_ref_count (Counted p) s = bind_outcome (arc_ref_count p s) (\<lambda>n. Done (Some n))"

section \<open>Threads\<close>

text \<open>\<open>live\<close> are the strings in use, by all threads; \<open>dying\<close> those whose last reference a thread has given up and that it is about
  to free.  A step is what one thread does without interruption.\<close>

type_synonym arc_state = "arc list \<times> arc list \<times> arc_pool"

datatype arc_op = Find str | Insert arc str | Copy arc | Release arc | Free arc

fun arc_step :: "(str \<Rightarrow> u64) \<Rightarrow> nat \<Rightarrow> arc_op \<Rightarrow> arc_state \<Rightarrow> arc_state outcome" where
  "arc_step h n (Find t) (live, dying, s) =
     bind_outcome (try_find_existing h t s) (\<lambda>(e, s'). Done (case e of Some p \<Rightarrow> (p # live, dying, s') | None \<Rightarrow> (live, dying, s')))"
| "arc_step h n (Insert a t) (live, dying, s) = bind_outcome (find_or_insert h n a t s) (\<lambda>(p, s'). Done (p # live, dying, s'))"
| "arc_step h n (Copy p) (live, dying, s) = bind_outcome (arc_clone p s) (\<lambda>(q, s'). Done (q # live, dying, s'))"
| "arc_step h n (Release p) (live, dying, s) =
     bind_outcome (dec_strong p s) (\<lambda>(last_one, s'). Done (remove1 p live, if last_one then p # dying else dying, s'))"
| "arc_step h n (Free p) (live, dying, s) = bind_outcome (arc_free p s) (\<lambda>s'. Done (live, remove1 p dying, s'))"

text \<open>What a thread may do: it owns the strings it copies and releases, and the allocator returns fresh memory.\<close>

fun arc_enabled :: "arc_op \<Rightarrow> arc_state \<Rightarrow> bool" where
  "arc_enabled (Find t) (live, dying, s) \<longleftrightarrow> True"
| "arc_enabled (Insert a t) (live, dying, s) \<longleftrightarrow> ar_heap s a = None"
| "arc_enabled (Copy p) (live, dying, s) \<longleftrightarrow> p \<in> set live"
| "arc_enabled (Release p) (live, dying, s) \<longleftrightarrow> p \<in> set live"
| "arc_enabled (Free p) (live, dying, s) \<longleftrightarrow> p \<in> set dying"

text \<open>No thread asks for a text while another one is about to free it.\<close>

fun undisturbed :: "arc_op \<Rightarrow> arc_state \<Rightarrow> bool" where
  "undisturbed (Find t) (live, dying, s) \<longleftrightarrow> list_all (\<lambda>p. map_option ac_text (ar_heap s p) \<noteq> Some t) dying"
| "undisturbed (Insert a t) (live, dying, s) \<longleftrightarrow> list_all (\<lambda>p. map_option ac_text (ar_heap s p) \<noteq> Some t) dying"
| "undisturbed _ st \<longleftrightarrow> True"

section \<open>The invariant\<close>

definition arc_cell_ok :: "(str \<Rightarrow> u64) \<Rightarrow> arc list \<Rightarrow> arc_pool \<Rightarrow> arc \<Rightarrow> arc_inner \<Rightarrow> bool" where
  "arc_cell_ok h live s p c \<longleftrightarrow>
     ac_hash c = h (ac_text c) \<and> (ac_hash c, p) \<in> set (ar_pool s) \<and> unat (ac_count c) = count_list live p"

definition arc_inv :: "(str \<Rightarrow> u64) \<Rightarrow> arc_state \<Rightarrow> bool" where
  "arc_inv h = (\<lambda>(live, dying, s).
     length live \<le> 2 ^ 63 \<and> distinct dying \<and> set live \<inter> set dying = {} \<and> dom (ar_heap s) = set live \<union> set dying \<and>
     (\<forall>p c. ar_heap s p = Some c \<longrightarrow> arc_cell_ok h live s p c) \<and>
     (\<forall>k p. (k, p) \<in> set (ar_pool s) \<longrightarrow> (\<exists>c. ar_heap s p = Some c \<and> k = ac_hash c)) \<and>
     (\<forall>p q c d. ar_heap s p = Some c \<longrightarrow> ar_heap s q = Some d \<longrightarrow> ac_text c = ac_text d \<longrightarrow> p = q))"

lemma arc_invD:
  assumes "arc_inv h (live, dying, s)"
  shows "length live \<le> 2 ^ 63" "distinct dying" "set live \<inter> set dying = {}" "dom (ar_heap s) = set live \<union> set dying"
    "ar_heap s p = Some c \<Longrightarrow> arc_cell_ok h live s p c" "(k, p) \<in> set (ar_pool s) \<Longrightarrow> \<exists>c. ar_heap s p = Some c \<and> k = ac_hash c"
    "ar_heap s p = Some c \<Longrightarrow> ar_heap s q = Some d \<Longrightarrow> ac_text c = ac_text d \<Longrightarrow> p = q"
  using assms by (auto simp: arc_inv_def)

lemma arc_invI:
  assumes "length live \<le> 2 ^ 63" "distinct dying" "set live \<inter> set dying = {}" "dom (ar_heap s) = set live \<union> set dying"
    "\<And>p c. ar_heap s p = Some c \<Longrightarrow> arc_cell_ok h live s p c" "\<And>k p. (k, p) \<in> set (ar_pool s) \<Longrightarrow> \<exists>c. ar_heap s p = Some c \<and> k = ac_hash c"
    "\<And>p q c d. ar_heap s p = Some c \<Longrightarrow> ar_heap s q = Some d \<Longrightarrow> ac_text c = ac_text d \<Longrightarrow> p = q"
  shows "arc_inv h (live, dying, s)"
  unfolding arc_inv_def prod.case using assms by blast

lemma arc_inv_empty: "arc_inv h ([], [], pool_empty)"
  by (rule arc_invI) (simp_all add: pool_empty_def)

lemma arc_inv_cell:
  assumes "arc_inv h (live, dying, s)" and "p \<in> set live \<union> set dying"
  shows "\<exists>c. ar_heap s p = Some c \<and> arc_deref p s = Done c \<and> arc_cell_ok h live s p c"
proof -
  have "p \<in> dom (ar_heap s)" using assms arc_invD(4) by blast
  then show ?thesis using arc_invD(5) [OF assms(1)] by (auto simp: arc_deref_def)
qed

lemma pool_entry_spec:
  assumes "\<forall>k p. (k, p) \<in> set es \<longrightarrow> hp p \<noteq> None"
  shows "\<exists>e. pool_entry hp es k t = Done e \<and>
    (case e of Some p \<Rightarrow> (k, p) \<in> set es \<and> map_option ac_text (hp p) = Some t
     | None \<Rightarrow> \<forall>p. (k, p) \<in> set es \<longrightarrow> map_option ac_text (hp p) \<noteq> Some t)"
  using assms
proof (induction es)
  case (Cons e es)
  obtain k' p where e: "e = (k', p)" by fastforce
  obtain r where r: "pool_entry hp es k t = Done r"
    "case r of Some p \<Rightarrow> (k, p) \<in> set es \<and> map_option ac_text (hp p) = Some t
     | None \<Rightarrow> \<forall>p. (k, p) \<in> set es \<longrightarrow> map_option ac_text (hp p) \<noteq> Some t"
    using Cons by auto
  obtain c where c: "hp p = Some c" using Cons.prems e by auto
  show ?case using r c by (cases "k' = k \<and> ac_text c = t") (auto simp: e split: option.splits)
qed simp

lemma pool_lookup:
  assumes "arc_inv h (live, dying, s)"
  shows "\<exists>e. pool_entry (ar_heap s) (ar_pool s) (h t) t = Done e \<and>
    (case e of Some p \<Rightarrow> map_option ac_text (ar_heap s p) = Some t | None \<Rightarrow> \<forall>p. map_option ac_text (ar_heap s p) \<noteq> Some t)"
proof -
  have "\<forall>k p. (k, p) \<in> set (ar_pool s) \<longrightarrow> ar_heap s p \<noteq> None" using arc_invD(6) [OF assms] by fastforce
  then obtain e where e: "pool_entry (ar_heap s) (ar_pool s) (h t) t = Done e"
    "case e of Some p \<Rightarrow> (h t, p) \<in> set (ar_pool s) \<and> map_option ac_text (ar_heap s p) = Some t
     | None \<Rightarrow> \<forall>p. (h t, p) \<in> set (ar_pool s) \<longrightarrow> map_option ac_text (ar_heap s p) \<noteq> Some t"
    using pool_entry_spec [of "ar_pool s" "ar_heap s" "h t" t] by blast
  have "(h t, p) \<in> set (ar_pool s)" if "map_option ac_text (ar_heap s p) = Some t" for p
    using that arc_invD(5) [OF assms, of p] by (auto simp: arc_cell_ok_def)
  then show ?thesis using e by (auto split: option.splits)
qed

lemma arc_inv_recount:
  assumes inv: "arc_inv h (live, dying, s)" and c: "ar_heap s p = Some c"
    and n: "unat n = count_list live' p" "length live' \<le> 2 ^ 63" "\<And>q. q \<noteq> p \<Longrightarrow> count_list live' q = count_list live q"
    and d: "distinct dying'" "\<And>q. q \<noteq> p \<Longrightarrow> q \<in> set dying' \<longleftrightarrow> q \<in> set dying" "p \<in> set live' \<longleftrightarrow> p \<notin> set dying'"
  shows "arc_inv h (live', dying', s\<lparr> ar_heap := (ar_heap s)(p \<mapsto> c\<lparr> ac_count := n \<rparr>) \<rparr>)" (is "arc_inv h (_, _, ?s)")
proof (rule arc_invI)
  have live: "q \<in> set live' \<longleftrightarrow> q \<in> set live" if "q \<noteq> p" for q using n(3) [OF that] by (metis count_list_0_iff)
  have p: "p \<in> set live \<union> set dying" using arc_invD(4) [OF inv] c by blast
  have "q \<in> set live' \<Longrightarrow> q \<notin> set dying'" for q
    using live [of q] d(2) [of q] d(3) arc_invD(3) [OF inv] by (cases "q = p") auto
  then show "set live' \<inter> set dying' = {}" by auto
  have "dom (ar_heap ?s) = set live \<union> set dying" using arc_invD(4) [OF inv] p by auto
  also have "\<dots> = set live' \<union> set dying'"
  proof (rule set_eqI)
    show "q \<in> set live \<union> set dying \<longleftrightarrow> q \<in> set live' \<union> set dying'" for q using live [of q] d(2) [of q] d(3) p by (cases "q = p") auto
  qed
  finally show "dom (ar_heap ?s) = set live' \<union> set dying'" .
  show "arc_cell_ok h live' ?s q e" if "ar_heap ?s q = Some e" for q e
    using that arc_invD(5) [OF inv, of q] c n(1) n(3) [of q] by (cases "q = p") (auto simp: arc_cell_ok_def)
  show "\<exists>e. ar_heap ?s q = Some e \<and> k = ac_hash e" if "(k, q) \<in> set (ar_pool ?s)" for k q
    using that arc_invD(6) [OF inv, of k q] c by (cases "q = p") auto
  show "q = r" if "ar_heap ?s q = Some e" "ar_heap ?s r = Some f" "ac_text e = ac_text f" for q r e f
    using that c arc_invD(7) [OF inv, of q e r f] arc_invD(7) [OF inv, of q c r f] arc_invD(7) [OF inv, of q e r c]
    by (auto split: if_splits)
qed (rule n(2), rule d(1))

lemma inc_ok:
  assumes inv: "arc_inv h (live, dying, s)" and p: "p \<in> set live" and l: "length live < 2 ^ 63"
  shows "\<exists>s'. inc_strong p s = Done s' \<and> arc_inv h (p # live, dying, s')"
proof -
  obtain c where c: "ar_heap s p = Some c" "arc_deref p s = Done c" "arc_cell_ok h live s p c" using arc_inv_cell [OF inv] p by blast
  then have n: "unat (ac_count c) = count_list live p" by (simp add: arc_cell_ok_def)
  then have b: "unat (ac_count c) < 2 ^ 63" using count_le_length [of live p] l by linarith
  then have "\<not> COUNT_MAX < ac_count c" by (simp add: COUNT_MAX_def word_less_nat_alt)
  moreover have "unat (ac_count c + 1) = count_list (p # live) p" using b n by (simp add: unat_word_ariths)
  then have "arc_inv h (p # live, dying, s\<lparr> ar_heap := (ar_heap s)(p \<mapsto> c\<lparr> ac_count := ac_count c + 1 \<rparr>) \<rparr>)"
    using l p arc_invD(2,3) [OF inv] by (intro arc_inv_recount [OF inv c(1)]) auto
  ultimately show ?thesis using c by (simp add: inc_strong_def)
qed

lemma release_ok:
  assumes inv: "arc_inv h (live, dying, s)" and p: "p \<in> set live"
  shows "\<exists>last_one s'. dec_strong p s = Done (last_one, s') \<and> arc_inv h (remove1 p live, if last_one then p # dying else dying, s')"
proof -
  obtain c where c: "ar_heap s p = Some c" "arc_deref p s = Done c" "arc_cell_ok h live s p c" using arc_inv_cell [OF inv] p by blast
  then have n: "unat (ac_count c) = count_list live p" by (simp add: arc_cell_ok_def)
  have nz: "count_list live p \<noteq> 0" using p by (simp add: count_list_0_iff)
  then have "ac_count c \<noteq> 0" using n by auto
  then have u: "unat (ac_count c - 1) = count_list (remove1 p live) p" using n count_list_remove1 [OF p, of p] by (simp add: unat_minus_one)
  have one: "ac_count c = 1 \<longleftrightarrow> count_list live p = 1" using n by (metis unat_1 unsigned_word_eqI)
  have left: "p \<in> set (remove1 p live) \<longleftrightarrow> count_list live p \<noteq> 1"
    using nz count_list_remove1 [OF p, of p] count_list_0_iff [of "remove1 p live" p] by auto
  have "p \<notin> set dying" using p arc_invD(3) [OF inv] by blast
  then have "arc_inv h (remove1 p live, if ac_count c = 1 then p # dying else dying, s\<lparr> ar_heap := (ar_heap s)(p \<mapsto> c\<lparr> ac_count := ac_count c - 1 \<rparr>) \<rparr>)"
    using u count_list_remove1 [OF p] one left arc_invD(1,2) [OF inv]
    by (intro arc_inv_recount [OF inv c(1)]) (auto simp: length_remove1)
  then show ?thesis using c by (simp add: dec_strong_def)
qed

lemma free_ok:
  assumes inv: "arc_inv h (live, dying, s)" and p: "p \<in> set dying"
  shows "\<exists>s'. arc_free p s = Done s' \<and> arc_inv h (live, remove1 p dying, s')"
proof -
  obtain c where c: "ar_heap s p = Some c" "arc_deref p s = Done c" "arc_cell_ok h live s p c" using arc_inv_cell [OF inv] p by blast
  have "p \<notin> set live" using p arc_invD(3) [OF inv] by blast
  then have "unat (ac_count c) = 0" using c(3) by (simp add: arc_cell_ok_def count_list_0_iff)
  then have "ac_count c = 0" by (simp add: unsigned_eq_0_iff)
  moreover have k: "(ac_hash c, p) \<in> set (ar_pool s)" using c(3) unfolding arc_cell_ok_def by blast
  let ?s = "s\<lparr> ar_pool := filter (\<lambda>e. e \<noteq> (ac_hash c, p)) (ar_pool s), ar_heap := (ar_heap s)(p := None) \<rparr>"
  have "arc_inv h (live, remove1 p dying, ?s)"
  proof (rule arc_invI)
    show "dom (ar_heap ?s) = set live \<union> set (remove1 p dying)"
      using arc_invD(2,4) [OF inv] \<open>p \<notin> set live\<close> by (auto simp: set_remove1_eq)
    show "arc_cell_ok h live ?s q e" if "ar_heap ?s q = Some e" for q e
      using that arc_invD(5) [OF inv, of q e] by (auto simp: arc_cell_ok_def split: if_splits)
    show "\<exists>e. ar_heap ?s q = Some e \<and> k = ac_hash e" if "(k, q) \<in> set (ar_pool ?s)" for k q
      using that arc_invD(6) [OF inv, of k q] c(1) by (cases "q = p") auto
    show "q = r" if "ar_heap ?s q = Some e" "ar_heap ?s r = Some f" "ac_text e = ac_text f" for q r e f
      using that arc_invD(7) [OF inv, of q e r f] by (auto split: if_splits)
  qed (use arc_invD(1,2,3) [OF inv] in \<open>auto simp: distinct_remove1 dest: notin_set_remove1 set_mp [OF set_remove1_subset]\<close>)
  ultimately show ?thesis using c k by (auto simp: arc_free_def)
qed

lemma alloc_ok:
  assumes inv: "arc_inv h (live, dying, s)" and a: "ar_heap s a = None" and t: "\<forall>p. map_option ac_text (ar_heap s p) \<noteq> Some t"
    and l: "length live < 2 ^ 63"
  shows "arc_inv h (a # live, dying, s\<lparr> ar_heap := (ar_heap s)(a \<mapsto> \<lparr> ac_hash = h t, ac_count = 1, ac_text = t \<rparr>),
    ar_pool := (h t, a) # ar_pool s \<rparr>)" (is "arc_inv h (_, _, ?s)")
proof (rule arc_invI)
  have fresh: "a \<notin> set live" "a \<notin> set dying" using arc_invD(4) [OF inv] a by auto
  show "set (a # live) \<inter> set dying = {}" using fresh arc_invD(3) [OF inv] by auto
  show "dom (ar_heap ?s) = set (a # live) \<union> set dying" using arc_invD(4) [OF inv] by auto
  show "arc_cell_ok h (a # live) ?s q e" if "ar_heap ?s q = Some e" for q e
  proof (cases "q = a")
    case True
    then show ?thesis using that fresh by (auto simp: arc_cell_ok_def count_list_0_iff)
  next
    case False
    then show ?thesis using that arc_invD(5) [OF inv, of q e] by (auto simp: arc_cell_ok_def)
  qed
  show "\<exists>e. ar_heap ?s q = Some e \<and> k = ac_hash e" if "(k, q) \<in> set (ar_pool ?s)" for k q
    using that arc_invD(6) [OF inv, of k q] a by (cases "q = a") auto
  show "q = r" if "ar_heap ?s q = Some e" "ar_heap ?s r = Some f" "ac_text e = ac_text f" for q r e f
  proof -
    have "map_option ac_text (ar_heap s q) \<noteq> Some t" "map_option ac_text (ar_heap s r) \<noteq> Some t" using t by blast+
    then show ?thesis using that arc_invD(7) [OF inv, of q e r f] by (auto split: if_splits)
  qed
qed (use l arc_invD(2) [OF inv] in simp_all)

section \<open>Steps\<close>

lemma found_live:
  assumes "arc_inv h (live, dying, s)" and "map_option ac_text (ar_heap s p) = Some t"
    and "list_all (\<lambda>p. map_option ac_text (ar_heap s p) \<noteq> Some t) dying"
  shows "p \<in> set live"
proof -
  have "p \<in> set live \<union> set dying" using arc_invD(4) [OF assms(1)] assms(2) by auto
  then show ?thesis using assms(2,3) by (auto simp: list_all_iff)
qed

lemma arc_step_ok:
  assumes inv: "arc_inv h (live, dying, s)" and op: "arc_enabled op (live, dying, s)" "undisturbed op (live, dying, s)"
    and l: "length live < 2 ^ 63"
  shows "(\<exists>st'. arc_step h n op (live, dying, s) = Done st' \<and> arc_inv h st') \<or>
    (\<exists>a t. op = Insert a t \<and> n < length t \<and> arc_step h n op (live, dying, s) = Panic)"
proof (cases op)
  case (Find t)
  obtain e where e: "pool_entry (ar_heap s) (ar_pool s) (h t) t = Done e"
    "case e of Some p \<Rightarrow> map_option ac_text (ar_heap s p) = Some t | None \<Rightarrow> True"
    using pool_lookup [OF inv, of t] by (fastforce split: option.splits)
  show ?thesis
  proof (cases e)
    case None
    then show ?thesis using e inv Find by (simp add: try_find_existing_def)
  next
    case (Some p)
    then have "p \<in> set live" using e(2) op(2) Find by (intro found_live [OF inv]) simp_all
    then show ?thesis using inc_ok [OF inv _ l, of p] e(1) Some Find by (auto simp: try_find_existing_def)
  qed
next
  case (Insert a t)
  obtain e where e: "pool_entry (ar_heap s) (ar_pool s) (h t) t = Done e"
    "case e of Some p \<Rightarrow> map_option ac_text (ar_heap s p) = Some t | None \<Rightarrow> \<forall>p. map_option ac_text (ar_heap s p) \<noteq> Some t"
    using pool_lookup [OF inv, of t] by blast
  show ?thesis
  proof (cases e)
    case None
    then show ?thesis using e alloc_ok [OF inv _ _ l, of a t] op(1) Insert by (cases "n < length t") (auto simp: find_or_insert_def)
  next
    case (Some p)
    then have "p \<in> set live" using e(2) op(2) Insert by (intro found_live [OF inv]) simp_all
    then show ?thesis using inc_ok [OF inv _ l, of p] e(1) Some Insert by (auto simp: find_or_insert_def)
  qed
next
  case (Copy p)
  then show ?thesis using inc_ok [OF inv _ l, of p] op(1) by (auto simp: arc_clone_def)
next
  case (Release p)
  then show ?thesis using release_ok [OF inv, of p] op(1) by (auto simp del: if_split)
next
  case (Free p)
  then show ?thesis using free_ok [OF inv, of p] op(1) by auto
qed

text \<open>Threads that do not disturb each other.\<close>

inductive arc_move :: "(str \<Rightarrow> u64) \<Rightarrow> nat \<Rightarrow> arc_state \<Rightarrow> arc_state \<Rightarrow> bool" for h n where
  Move: "arc_enabled op st \<Longrightarrow> undisturbed op st \<Longrightarrow> length (fst st) < 2 ^ 63 \<Longrightarrow> arc_step h n op st = Done st' \<Longrightarrow> arc_move h n st st'"

inductive_cases arc_moveE: "arc_move h n st st'"

interpretation arcs: state_machine "\<lambda>st. st = ([], [], pool_empty)" "arc_move h n" "arc_inv h"
  for h n
proof
  show "st = ([], [], pool_empty) \<Longrightarrow> arc_inv h st" for st by (simp add: arc_inv_empty)
  show "arc_inv h st'" if inv: "arc_inv h st" and move: "arc_move h n st st'" for st st'
    using move
  proof cases
    case (Move op)
    obtain live dying s where st: "st = (live, dying, s)" by (cases st)
    show ?thesis using arc_step_ok [of h live dying s op n] inv Move unfolding st by auto
  qed
qed

lemma arc_texts:
  assumes inv: "arc_inv h (live, dying, s)" and p: "p \<in> set live" "q \<in> set live"
  shows "\<exists>t u. arc_as_str p s = Done t \<and> arc_as_str q s = Done u \<and> (arc_eq p q \<longleftrightarrow> t = u)"
proof -
  obtain c d where "ar_heap s p = Some c" "ar_heap s q = Some d" "arc_deref p s = Done c" "arc_deref q s = Done d"
    using arc_inv_cell [OF inv, of p] arc_inv_cell [OF inv, of q] p by blast
  then show ?thesis using arc_invD(7) [OF inv, of p c q d] by (auto simp: arc_as_str_def arc_eq_def)
qed

text \<open>C31: Interning with any number of threads, as long as nobody asks for a text at the moment when another thread is about to free
  it.  No operation touches freed memory or fails, except that a text longer than the limit panics; two strings have
  the same address exactly if they have the same text, so that comparing addresses is right; and the memory in use is
  that of the strings in use and of those about to be freed.\<close>

theorem arc_str_safe:
  assumes "(arc_move h n)\<^sup>*\<^sup>* ([], [], pool_empty) (live, dying, s)" and "length live < 2 ^ 63"
  shows "(arc_enabled op (live, dying, s) \<and> undisturbed op (live, dying, s) \<longrightarrow>
      (\<exists>st'. arc_step h n op (live, dying, s) = Done st') \<or> (\<exists>a t. op = Insert a t \<and> n < length t)) \<and>
    (p \<in> set live \<and> q \<in> set live \<longrightarrow>
      (\<exists>t u. arc_as_str p s = Done t \<and> arc_as_str q s = Done u \<and> istr_eq (Counted p) (Counted q) s = Done (t = u))) \<and>
    dom (ar_heap s) = set live \<union> set dying"
proof -
  have inv: "arc_inv h (live, dying, s)" using arcs.reachable_inv [OF refl assms(1)] .
  show ?thesis using arc_step_ok [OF inv _ _ assms(2), of op n] arc_texts [OF inv, of p q] arc_invD(4) [OF inv] by auto
qed

theorem arc_str_safe_witness:
  "\<exists>live dying s. arc_step (\<lambda>_. 0) 100 (Insert 7 (bytes_of ''a'')) ([], [], pool_empty) = Done (live, dying, s) \<and>
     dom (ar_heap s) = set live \<union> set dying \<and> istr_eq (Counted 7) (Counted 7) s = Done True"
proof -
  let ?s = "\<lparr> ar_heap = (\<lambda>_. None)(7 \<mapsto> \<lparr> ac_hash = 0, ac_count = 1, ac_text = bytes_of ''a'' \<rparr>), ar_pool = [(0, 7)] \<rparr>"
  have st: "arc_step (\<lambda>_. 0) 100 (Insert 7 (bytes_of ''a'')) ([], [], pool_empty) = Done ([7], [], ?s)"
    by (simp add: find_or_insert_def pool_empty_def)
  then have "arc_move (\<lambda>_. 0) 100 ([], [], pool_empty) ([7], [], ?s)"
    by (intro arc_move.Move [of "Insert 7 (bytes_of ''a'')"]) (simp_all add: pool_empty_def)
  then have "(arc_move (\<lambda>_. 0) 100)\<^sup>*\<^sup>* ([], [], pool_empty) ([7], [], ?s)" by blast
  from arc_str_safe [OF this] st show ?thesis by (auto simp: arc_eq_def)
qed

section \<open>A race\<close>

fun arc_run :: "(str \<Rightarrow> u64) \<Rightarrow> nat \<Rightarrow> arc_op list \<Rightarrow> arc_state \<Rightarrow> arc_state outcome option" where
  "arc_run h n [] st = Some (Done st)"
| "arc_run h n (op # ops) st =
     (if arc_enabled op st then (case arc_step h n op st of Done st' \<Rightarrow> arc_run h n ops st' | UB \<Rightarrow> Some UB | Panic \<Rightarrow> Some Panic) else None)"

text \<open>C40: (crates/interned/src/arc_str.rs, Drop): whichever state the pool has reached, and whichever text is in use exactly once in
  it: while one thread gives up that last reference, another one finds the text in the pool, uses it and drops it again;
  that frees the memory, and the first thread then reads it.  Every step of this is one the threads may take.\<close>

theorem arc_drop_race:
  assumes "(arc_move h n)\<^sup>*\<^sup>* ([], [], pool_empty) (live, dying, s)" and "length live < 2 ^ 63"
    and "count_list live p = 1" and "arc_as_str p s = Done t"
  shows "arc_run h n [Release p, Find t, Release p, Free p, Free p] (live, dying, s) = Some UB"
proof -
  have inv: "arc_inv h (live, dying, s)" using arcs.reachable_inv [OF _ assms(1)] by simp
  have live: "p \<in> set live" using assms(3) count_notin [of p live] by fastforce
  obtain c where c: "ar_heap s p = Some c" "ac_text c = t" "arc_cell_ok h live s p c"
    using assms(4) arc_inv_cell [OF inv, of p] live by (auto simp: arc_as_str_def)
  have "unat (ac_count c) = unat (1 :: u64)" using c(3) assms(3) by (simp add: arc_cell_ok_def)
  then have count: "ac_count c = 1" by (simp add: word_unat_eq_iff)
  have hash: "ac_hash c = h t" "(h t, p) \<in> set (ar_pool s)" using c by (auto simp: arc_cell_ok_def)
  define s1 where "s1 = s\<lparr> ar_heap := (ar_heap s)(p \<mapsto> c\<lparr> ac_count := 0 \<rparr>) \<rparr>"
  have step1: "arc_step h n (Release p) (live, dying, s) = Done (remove1 p live, p # dying, s1)"
    using c(1) count by (simp add: dec_strong_def arc_deref_def s1_def)
  have inv1: "arc_inv h (remove1 p live, p # dying, s1)"
    using arc_step_ok [OF inv, of "Release p" n] live assms(2) step1 by auto
  obtain e where e: "pool_entry (ar_heap s1) (ar_pool s1) (h t) t = Done e"
    "case e of Some q \<Rightarrow> map_option ac_text (ar_heap s1 q) = Some t | None \<Rightarrow> \<forall>q. map_option ac_text (ar_heap s1 q) \<noteq> Some t"
    using pool_lookup [OF inv1] by blast
  have p1: "ar_heap s1 p = Some (c\<lparr> ac_count := 0 \<rparr>)" by (simp add: s1_def)
  have "e = Some p"
  proof (cases e)
    case None
    then have "map_option ac_text (ar_heap s1 p) \<noteq> Some t" using e(2) by simp
    then show ?thesis using p1 c(2) by simp
  next
    case (Some q)
    then show ?thesis using e(2) arc_invD(7) [OF inv1, of q _ p "c\<lparr> ac_count := 0 \<rparr>"] p1 c(2) by auto
  qed
  then have step2: "arc_step h n (Find t) (remove1 p live, p # dying, s1) =
      Done (p # remove1 p live, p # dying, s1\<lparr> ar_heap := (ar_heap s1)(p \<mapsto> c\<lparr> ac_count := 1 \<rparr>) \<rparr>)"
    using e(1) p1 by (simp add: try_find_existing_def inc_strong_def arc_deref_def COUNT_MAX_def)
  show ?thesis
    using live step1 step2 hash(2)
    by (simp add: dec_strong_def arc_deref_def arc_free_def s1_def hash(1) del: arc_step.simps(1,2))
qed

theorem arc_drop_race_witness:
  "arc_run (\<lambda>_. 0) 100 [Release 7, Find (bytes_of ''a''), Release 7, Free 7, Free 7]
     ([7], [], \<lparr> ar_heap = (\<lambda>_. None)(7 \<mapsto> \<lparr> ac_hash = 0, ac_count = 1, ac_text = bytes_of ''a'' \<rparr>), ar_pool = [(0, 7)] \<rparr>) = Some UB"
proof (rule arc_drop_race)
  have "arc_move (\<lambda>_. 0) 100 ([], [], pool_empty)
     ([7], [], \<lparr> ar_heap = (\<lambda>_. None)(7 \<mapsto> \<lparr> ac_hash = 0, ac_count = 1, ac_text = bytes_of ''a'' \<rparr>), ar_pool = [(0, 7)] \<rparr>)"
    by (rule arc_move.Move [of "Insert 7 (bytes_of ''a'')"]) (simp_all add: pool_empty_def find_or_insert_def bytes_of_def)
  then show "(arc_move (\<lambda>_. 0) 100)\<^sup>*\<^sup>* ([], [], pool_empty)
     ([7], [], \<lparr> ar_heap = (\<lambda>_. None)(7 \<mapsto> \<lparr> ac_hash = 0, ac_count = 1, ac_text = bytes_of ''a'' \<rparr>), ar_pool = [(0, 7)] \<rparr>)" by (rule r_into_rtranclp)
qed (simp_all add: arc_as_str_def arc_deref_def)

end
