(* ===== verification/Byte_Str.thy ===== *)
theory Byte_Str
  imports Utf8
begin

text \<open>
  The type \<open>ByteStr\<close> of \<open>crates/byte_str/src/lib.rs\<close>: bytes of which the code assumes, without checking it again, that they are
  UTF-8.  Looking at a \<open>ByteStr\<close> as text (\<open>deref\<close>) is undefined behaviour when they are not.
\<close>

type_synonym byte_str = bytes

definition byte_str_new :: byte_str where
  "byte_str_new = []"

definition byte_str_from_utf8 :: "nat \<Rightarrow> bytes \<Rightarrow> ((nat \<times> nat option) + byte_str) outcome" where
  "byte_str_from_utf8 addr b =
     bind_outcome (validate_utf8 addr b) (\<lambda>r. case r of Inl e \<Rightarrow> Done (Inl e) | Inr _ \<Rightarrow> Done (Inr b))"

definition byte_str_deref :: "byte_str \<Rightarrow> bytes outcome" where
  "byte_str_deref s = (if valid_prefix s = length s then Done s else UB)"

definition byte_str_slice :: "byte_str \<Rightarrow> nat \<Rightarrow> nat \<Rightarrow> byte_str outcome" where
  "byte_str_slice s start stop =
     (if \<not> (start \<le> stop \<and> stop \<le> length s) then UB
      else if stop - start = 0 then Done byte_str_new
      else Done (take (stop - start) (drop start s)))"

text \<open>The offsets at which a text occurs in another one, in ascending order; the searchers of the standard library return the first
  and the last one.  The empty text occurs between characters only.\<close>

definition matches_at :: "bytes \<Rightarrow> bytes \<Rightarrow> nat list" where
  "matches_at delimiter s =
     filter (\<lambda>i. take (length delimiter) (drop i s) = delimiter \<and> (delimiter = [] \<longrightarrow> is_char_boundary s i)) [0..<Suc (length s)]"

definition split_at_match :: "byte_str \<Rightarrow> nat \<Rightarrow> nat \<Rightarrow> (byte_str \<times> byte_str) option outcome" where
  "split_at_match s start stop =
     bind_outcome (byte_str_slice s 0 start) (\<lambda>a.
     bind_outcome (byte_str_slice s stop (length s)) (\<lambda>b. Done (Some (a, b))))"

definition split_once :: "byte_str \<Rightarrow> bytes \<Rightarrow> (byte_str \<times> byte_str) option outcome" where
  "split_once s delimiter =
     bind_outcome (byte_str_deref s) (\<lambda>_.
       case matches_at delimiter s of [] \<Rightarrow> Done None | start # _ \<Rightarrow> split_at_match s start (start + length delimiter))"

definition rsplit_once :: "byte_str \<Rightarrow> bytes \<Rightarrow> (byte_str \<times> byte_str) option outcome" where
  "rsplit_once s delimiter =
     bind_outcome (byte_str_deref s) (\<lambda>_.
       if matches_at delimiter s = [] then Done None
       else let start = last (matches_at delimiter s) in split_at_match s start (start + length delimiter))"

definition byte_str_clear :: "byte_str \<Rightarrow> byte_str" where
  "byte_str_clear s = []"

text \<open>\<open>Buf\<close>: \<open>Bytes::advance\<close> panics beyond the end; \<open>copy_to_bytes\<close> returns what it advances over.\<close>

definition byte_str_advance :: "byte_str \<Rightarrow> nat \<Rightarrow> byte_str outcome" where
  "byte_str_advance s cnt = (if cnt \<le> length s then Done (drop cnt s) else Panic)"

definition byte_str_copy_to_bytes :: "byte_str \<Rightarrow> nat \<Rightarrow> (bytes \<times> byte_str) outcome" where
  "byte_str_copy_to_bytes s n = bind_outcome (byte_str_advance s n) (\<lambda>s'. Done (take n s, s'))"

section \<open>Splitting at a match\<close>

lemma match_splits:
  assumes "valid_utf8 s" and "valid_utf8 d" and "i \<in> set (matches_at d s)"
  shows "valid_utf8 (take i s)" and "valid_utf8 (drop (i + length d) s)" and "s = take i s @ d @ drop (i + length d) s" and "i + length d \<le> length s"
proof -
  have m: "take (length d) (drop i s) = d" "i \<le> length s" "d = [] \<Longrightarrow> is_char_boundary s i" using assms(3) unfolding matches_at_def set_filter set_upt by auto
  have d: "drop i s = d @ drop (i + length d) s" using append_take_drop_id [of "length d" "drop i s"] m(1) by (simp add: add.commute)
  then show "s = take i s @ d @ drop (i + length d) s" using append_take_drop_id [of i s] by metis
  have "length (drop i s) \<ge> length d" using arg_cong [OF d, of length] by simp
  then show "i + length d \<le> length s" using m(2) by simp
  obtain cs where cs: "list_all scalar cs" "s = concat (map encode_utf8 cs)" using assms(1) by (auto simp: valid_utf8_def)
  have boundary: "valid_utf8 (take i s) \<and> valid_utf8 (drop i s)"
  proof (cases "i < length s \<and> i \<noteq> 0")
    case True
    have "\<not> trail (s ! i)"
    proof (cases "d = []")
      case False
      obtain ds where ds: "list_all scalar ds" "d = concat (map encode_utf8 ds)" using assms(2) by (auto simp: valid_utf8_def)
      obtain c ds' where "ds = c # ds'" using False ds(2) by (cases ds) auto
      then have "\<not> trail (d ! 0)" using ds encode_shape [of c] by auto
      moreover have "s ! i = d ! 0" using arg_cong [OF d, of "\<lambda>x. x ! 0"] True False by (simp add: nth_append)
      ultimately show ?thesis by simp
    qed (use m(3) True in \<open>auto simp: is_char_boundary_def trail_def word_le_nat_alt word_less_nat_alt\<close>)
    then obtain k where "take i s = concat (map encode_utf8 (take k cs))" "drop i s = concat (map encode_utf8 (drop k cs))"
      using boundary_split [OF cs, of i] True by auto
    moreover have "list_all scalar (take k cs)" "list_all scalar (drop k cs)"
      using cs(1) by (auto simp: list_all_iff dest: in_set_takeD in_set_dropD)
    ultimately show ?thesis unfolding valid_utf8_def by blast
  qed (use m(2) assms(1) valid_utf8_nil in auto)
  then show "valid_utf8 (take i s)" by simp
  show "valid_utf8 (drop (i + length d) s)" using valid_utf8_rest [OF assms(2)] boundary unfolding d by simp
qed

section \<open>The invariant of the type\<close>

lemma split_at_match_exact:
  assumes "valid_utf8 s" and "valid_utf8 d" and "i \<in> set (matches_at d s)"
  shows "\<exists>a b. split_at_match s i (i + length d) = Done (Some (a, b)) \<and> valid_utf8 a \<and> valid_utf8 b \<and> s = a @ d @ b"
proof -
  note m = match_splits [OF assms]
  have "split_at_match s i (i + length d) = Done (Some (take i s, drop (i + length d) s))"
    using m(4) by (auto simp: split_at_match_def byte_str_slice_def byte_str_new_def)
  then show ?thesis using m(1-3) by blast
qed

lemma split_once_exact:
  assumes "valid_utf8 s" and "valid_utf8 d"
  shows "split_once s d = Done None \<and> matches_at d s = [] \<or>
    (\<exists>a b. split_once s d = Done (Some (a, b)) \<and> valid_utf8 a \<and> valid_utf8 b \<and> s = a @ d @ b)"
proof (cases "matches_at d s")
  case (Cons i more)
  then show ?thesis using split_at_match_exact [OF assms, of i] assms(1) by (simp add: split_once_def byte_str_deref_def valid_utf8_prefix)
qed (use assms in \<open>simp add: split_once_def byte_str_deref_def valid_utf8_prefix\<close>)

lemma rsplit_once_exact:
  assumes "valid_utf8 s" and "valid_utf8 d"
  shows "rsplit_once s d = Done None \<and> matches_at d s = [] \<or>
    (\<exists>a b. rsplit_once s d = Done (Some (a, b)) \<and> valid_utf8 a \<and> valid_utf8 b \<and> s = a @ d @ b)"
proof (cases "matches_at d s = []")
  case False
  then have "last (matches_at d s) \<in> set (matches_at d s)" by simp
  then show ?thesis using split_at_match_exact [OF assms, of "last (matches_at d s)"] False assms(1)
    by (simp add: rsplit_once_def byte_str_deref_def valid_utf8_prefix Let_def)
qed (use assms in \<open>simp add: rsplit_once_def byte_str_deref_def valid_utf8_prefix\<close>)

lemma filter_upt_empty: "filter P [0..<Suc n] = [] \<longleftrightarrow> \<not> (\<exists>i \<le> n. P i)"
  by (auto simp: filter_empty_conv less_Suc_eq_le simp del: upt_Suc)

lemma split_no_match: "matches_at d s = [] \<longleftrightarrow> (\<nexists>a b. s = a @ d @ b)"
proof -
  have found: "\<exists>a b. s = a @ d @ b" if "take (length d) (drop i s) = d" for i
    using that append_take_drop_id [of i s] append_take_drop_id [of "length d" "drop i s"] by metis
  have match: "\<exists>i \<le> length s. take (length d) (drop i s) = d \<and> (d = [] \<longrightarrow> is_char_boundary s i)" if "s = a @ d @ b" for a b
  proof (cases "d = []")
    case True
    then show ?thesis by (intro exI [of _ 0]) (simp add: is_char_boundary_def)
  qed (use that in \<open>intro exI [of _ "length a"], simp\<close>)
  have "matches_at d s = [] \<longleftrightarrow> \<not> (\<exists>i \<le> length s. take (length d) (drop i s) = d \<and> (d = [] \<longrightarrow> is_char_boundary s i))"
    unfolding matches_at_def by (rule filter_upt_empty)
  moreover have "(\<exists>i \<le> length s. take (length d) (drop i s) = d \<and> (d = [] \<longrightarrow> is_char_boundary s i)) \<longleftrightarrow> (\<exists>a b. s = a @ d @ b)"
    by (rule iffI, elim exE conjE, erule found, elim exE, erule match)
  ultimately show ?thesis by simp
qed

text \<open>The values that the safe interface makes, \<open>Buf\<close> apart: \<open>new\<close>, \<open>from_utf8\<close>, the conversions from \<open>str\<close> and \<open>String\<close>
  (\<open>from_static\<close>, \<open>From\<close>), \<open>clone\<close>, the two splits at a text, and \<open>clear\<close>.\<close>

inductive byte_str_made :: "byte_str \<Rightarrow> bool" where
  made_new: "byte_str_made byte_str_new"
| made_from_utf8: "byte_str_from_utf8 addr b = Done (Inr s) \<Longrightarrow> byte_str_made s"
| made_from_str: "valid_utf8 text \<Longrightarrow> byte_str_made text"
| made_split: "byte_str_made s \<Longrightarrow> valid_utf8 d \<Longrightarrow> split_once s d = Done (Some (a, b)) \<Longrightarrow> t \<in> {a, b} \<Longrightarrow> byte_str_made t"
| made_rsplit: "byte_str_made s \<Longrightarrow> valid_utf8 d \<Longrightarrow> rsplit_once s d = Done (Some (a, b)) \<Longrightarrow> t \<in> {a, b} \<Longrightarrow> byte_str_made t"
| made_clear: "byte_str_made s \<Longrightarrow> byte_str_made (byte_str_clear s)"

lemma byte_str_made_valid: "byte_str_made s \<Longrightarrow> valid_utf8 s"
proof (induction rule: byte_str_made.induct)
  case (made_from_utf8 addr b s)
  then have "valid_prefix s = length s"
    by (auto simp: byte_str_from_utf8_def validate_utf8_std std_from_utf8_def Let_def split: if_splits)
  then show ?case by (simp add: valid_utf8_prefix)
next
  case (made_split s d a b t)
  then show ?case using split_once_exact [of s d] by auto
next
  case (made_rsplit s d a b t)
  then show ?case using rsplit_once_exact [of s d] by auto
qed (simp_all add: byte_str_new_def byte_str_clear_def valid_utf8_nil)

text \<open>C30: C? (crates/byte_str/src/lib.rs, ByteStr): every value that is made by new, from_utf8, a conversion from a string, split_once,
  rsplit_once and clear is UTF-8, so that looking at it as text is defined; splitting it at a text gives the parts around an
  occurrence, or nothing exactly when there is none.\<close>

theorem byte_str_invariant:
  assumes "byte_str_made s" and "valid_utf8 d"
  shows "byte_str_deref s = Done s \<and>
    (\<forall>f \<in> {split_once, rsplit_once}.
       f s d = Done None \<and> (\<nexists>a b. s = a @ d @ b) \<or>
       (\<exists>a b. f s d = Done (Some (a, b)) \<and> byte_str_made a \<and> byte_str_made b \<and> s = a @ d @ b))"
proof -
  have s: "valid_utf8 s" using byte_str_made_valid [OF assms(1)] .
  show ?thesis using split_once_exact [OF s assms(2)] rsplit_once_exact [OF s assms(2)] s
    by (auto simp: byte_str_deref_def valid_utf8_prefix split_no_match intro: made_from_str)
qed

lemma valid_ascii_byte: "b < 0x80 \<Longrightarrow> valid_utf8 [b]"
  unfolding valid_utf8_def by (rule exI [of _ "[unat b]"]) (simp add: scalar_def encode_utf8_def word_less_nat_alt)

lemma made_abc: "byte_str_made [97, 61, 98]"
proof -
  have "valid_prefix [97, 61, 98] = 3"
    by (simp add: valid_prefix.simps well_formed_def sequence_length_def)
  then show ?thesis by (intro made_from_str) (simp add: valid_utf8_prefix [symmetric])
qed

theorem byte_str_invariant_witness:
  "byte_str_made [97, 61, 98] \<and> valid_utf8 [61] \<and> byte_str_deref [97, 61, 98] = Done [97, 61, 98] \<and>
   split_once [97, 61, 98] [61] = Done (Some ([97], [98]))"
proof -
  have "valid_utf8 [61]" by (rule valid_ascii_byte) simp
  moreover have "matches_at [61] [97, 61, 98] = [1]" by code_simp
  moreover have "split_at_match [97, 61, 98] 1 2 = Done (Some ([97], [98]))" by code_simp
  ultimately have "split_once [97, 61, 98] [61] = Done (Some ([97], [98]))"
    using byte_str_invariant [OF made_abc \<open>valid_utf8 [61]\<close>] unfolding split_once_def by (simp add: numeral_2_eq_2)
  then show ?thesis using made_abc \<open>valid_utf8 [61]\<close> byte_str_invariant [OF made_abc \<open>valid_utf8 [61]\<close>] by simp
qed

text \<open>(crates/byte_str/src/lib.rs, impl Buf for ByteStr): advance and copy_to_bytes are safe methods that do not look at
  characters.  For every text and every number of bytes within it they succeed, and what remains can be looked at as text
  exactly if the number is that of a character boundary; otherwise looking at it is undefined behaviour.\<close>

theorem byte_str_advance_exact:
  assumes "byte_str_made s" and "n \<le> length s"
  shows "byte_str_advance s n = Done (drop n s) \<and> byte_str_copy_to_bytes s n = Done (take n s, drop n s) \<and>
    byte_str_deref (drop n s) = (if is_char_boundary s n then Done (drop n s) else UB)"
  using assms valid_drop_iff [OF byte_str_made_valid [OF assms(1)] assms(2)] valid_utf8_prefix [of "drop n s"]
  by (simp add: byte_str_advance_def byte_str_copy_to_bytes_def byte_str_deref_def)

theorem byte_str_advance_exact_witness:
  "byte_str_made [0x61, 0xC3, 0xA9] \<and> byte_str_deref (drop 1 [0x61, 0xC3, 0xA9]) = Done [0xC3, 0xA9] \<and>
   byte_str_advance [0x61, 0xC3, 0xA9] 2 = Done [0xA9] \<and> byte_str_deref [0xA9] = UB"
proof -
  have "valid_prefix [0x61, 0xC3, 0xA9] = 3"
    by (simp add: valid_prefix.simps well_formed_def sequence_length_def second_ok_def trail_def)
  then have made: "byte_str_made [0x61, 0xC3, 0xA9]" by (intro made_from_str) (simp add: valid_utf8_prefix [symmetric])
  have "is_char_boundary [0x61, 0xC3, 0xA9] 1" "\<not> is_char_boundary [0x61, 0xC3, 0xA9] 2" by code_simp+
  then show ?thesis
    using made byte_str_advance_exact [OF made, of 1] byte_str_advance_exact [OF made, of 2] by (simp add: numeral_2_eq_2)
qed

end
