(* ===== verification/Prost_Varint.thy ===== *)
theory Prost_Varint
  imports Utf8
begin

text \<open>
  Variable-length integers, from \<open>patch/prost-0.14.1/src/encoding/varint.rs\<close>, the repository's own version of the protobuf
  library.  An output buffer is what has been written to it; \<open>space\<close> is the length of its writable chunk.  An input buffer is the
  bytes that remain, of which the first \<open>c\<close> are contiguous (\<open>chunk()\<close>).  A false \<open>assume\<close> and a read outside of the chunk are
  undefined behaviour.
\<close>

section \<open>Encoding\<close>

definition VARINT64_MAX_LEN :: usize where
  "VARINT64_MAX_LEN = 10"

definition VARINT32_MAX_LEN :: usize where
  "VARINT32_MAX_LEN = 5"

fun bit_width :: "nat \<Rightarrow> nat" where
  "bit_width n = (if n = 0 then 0 else Suc (bit_width (n div 2)))"

declare bit_width.simps [simp del]

definition encoded_len_varint64 :: "u64 \<Rightarrow> usize outcome" where
  "encoded_len_varint64 v =
     (let n = bit_width (unat v) * 9 div 2 ^ 6 + 1 in if 1 \<le> n \<and> n \<le> VARINT64_MAX_LEN then Done n else UB)"

definition encoded_len_varint32 :: "u32 \<Rightarrow> usize outcome" where
  "encoded_len_varint32 v =
     (let n = bit_width (unat v) * 9 div 2 ^ 6 + 1 in if 1 \<le> n \<and> n \<le> VARINT32_MAX_LEN then Done n else UB)"

text \<open>The loop that both paths have: all but the last byte carry the continuation bit.\<close>

fun varint_bytes :: "nat \<Rightarrow> 'a::len word \<Rightarrow> bytes outcome" where
  "varint_bytes 0 v = (if v < 0x80 then Done [ucast v] else UB)"
| "varint_bytes (Suc k) v = bind_outcome (varint_bytes k (drop_bit 7 v)) (\<lambda>bs. Done ((ucast (v AND 0x7F) OR 0x80) # bs))"

definition encode_varint64_fast :: "u64 \<Rightarrow> usize \<Rightarrow> usize \<Rightarrow> bytes outcome" where
  "encode_varint64_fast v len space = (if len \<le> space then varint_bytes (len - 1) v else UB)"

definition encode_varint64_slow :: "u64 \<Rightarrow> usize \<Rightarrow> bytes outcome" where
  "encode_varint64_slow v len = varint_bytes (len - 1) v"

definition encode_varint64 :: "usize \<Rightarrow> u64 \<Rightarrow> bytes outcome" where
  "encode_varint64 space v =
     bind_outcome (encoded_len_varint64 v) (\<lambda>len.
       if space \<ge> len then encode_varint64_fast v len space else encode_varint64_slow v len)"

definition encode_varint32_fast :: "u32 \<Rightarrow> usize \<Rightarrow> usize \<Rightarrow> bytes outcome" where
  "encode_varint32_fast v len space = (if len \<le> space then varint_bytes (len - 1) v else UB)"

definition encode_varint32_slow :: "u32 \<Rightarrow> usize \<Rightarrow> bytes outcome" where
  "encode_varint32_slow v len = varint_bytes (len - 1) v"

definition encode_varint32 :: "usize \<Rightarrow> u32 \<Rightarrow> bytes outcome" where
  "encode_varint32 space v =
     bind_outcome (encoded_len_varint32 v) (\<lambda>len.
       if space \<ge> len then encode_varint32_fast v len space else encode_varint32_slow v len)"

section \<open>Decoding\<close>

text \<open>\<open>i\<close> counts the bytes; \<open>last_ok\<close> is the check of the last byte that is possible.\<close>

function decode_fast_loop :: "usize \<Rightarrow> (u8 \<Rightarrow> bool) \<Rightarrow> bytes \<Rightarrow> usize \<Rightarrow> 'a::len word \<Rightarrow> ('a word \<times> usize) option outcome" where
  "decode_fast_loop max_len last_ok bytes i v =
     (if i < max_len
      then if i < length bytes
           then (let byte = bytes ! i; v = v OR push_bit (i * 7) (ucast (byte AND 0x7F))
                 in if byte < 0x80
                    then if i = max_len - 1 \<and> \<not> last_ok byte then Done None else Done (Some (v, i + 1))
                    else decode_fast_loop max_len last_ok bytes (i + 1) v)
           else UB
      else Done None)"
  by auto
termination
  by (relation "measure (\<lambda>(max_len, _, _, i, _). max_len - i)") auto

declare decode_fast_loop.simps [simp del]

function decode_slow_loop :: "usize \<Rightarrow> (u8 \<Rightarrow> bool) \<Rightarrow> bytes \<Rightarrow> usize \<Rightarrow> 'a::len word \<Rightarrow> ('a word \<times> bytes) option" where
  "decode_slow_loop max_len last_ok buf i v =
     (if i < max_len
      then case buf of
             [] \<Rightarrow> None
           | byte # buf' \<Rightarrow>
               (let v = v OR push_bit (i * 7) (ucast (byte AND 0x7F))
                in if byte < 0x80
                   then if i = max_len - 1 \<and> \<not> last_ok byte then None else Some (v, buf')
                   else decode_slow_loop max_len last_ok buf' (i + 1) v)
      else None)"
  by auto
termination
  by (relation "measure (\<lambda>(max_len, _, _, i, _). max_len - i)") auto

declare decode_slow_loop.simps [simp del]

definition decode_varint64_fast :: "bytes \<Rightarrow> (u64 \<times> usize) option outcome" where
  "decode_varint64_fast bytes = decode_fast_loop VARINT64_MAX_LEN (\<lambda>byte. \<not> byte > 1) bytes 0 0"

definition decode_varint64_slow :: "usize \<Rightarrow> bytes \<Rightarrow> (u64 \<times> bytes) option outcome" where
  "decode_varint64_slow c buf =
     (if take c buf \<noteq> [] \<and> take c buf ! 0 \<ge> 0x80 then Done (decode_slow_loop VARINT64_MAX_LEN (\<lambda>byte. \<not> byte > 1) buf 0 0) else UB)"

definition decode_varint64 :: "usize \<Rightarrow> bytes \<Rightarrow> (u64 \<times> bytes) option outcome" where
  "decode_varint64 c buf =
     (let bytes = take c buf; len = length bytes
      in if len = 0 then Done None
         else let first = bytes ! 0
         in if first < 0x80 then Done (Some (ucast first, drop 1 buf))
            else if len \<ge> VARINT64_MAX_LEN \<or> bytes ! (len - 1) < 0x80
            then bind_outcome (decode_varint64_fast bytes) (\<lambda>r. Done (map_option (\<lambda>(v, n). (v, drop n buf)) r))
            else decode_varint64_slow c buf)"

definition decode_varint32_fast :: "bytes \<Rightarrow> (u32 \<times> usize) option outcome" where
  "decode_varint32_fast bytes = decode_fast_loop VARINT32_MAX_LEN (\<lambda>byte. \<not> byte > 4) bytes 0 0"

definition decode_varint32_slow :: "usize \<Rightarrow> bytes \<Rightarrow> (u32 \<times> bytes) option outcome" where
  "decode_varint32_slow c buf =
     (if take c buf \<noteq> [] \<and> take c buf ! 0 \<ge> 0x80 then Done (decode_slow_loop VARINT32_MAX_LEN (\<lambda>byte. \<not> byte > 4) buf 0 0) else UB)"

definition decode_varint32 :: "usize \<Rightarrow> bytes \<Rightarrow> (u32 \<times> bytes) option outcome" where
  "decode_varint32 c buf =
     (let bytes = take c buf; len = length bytes
      in if len = 0 then Done None
         else let first = bytes ! 0
         in if first < 0x80 then Done (Some (ucast first, drop 1 buf))
            else if len \<ge> VARINT32_MAX_LEN \<or> bytes ! (len - 1) < 0x80
            then bind_outcome (decode_varint32_fast bytes) (\<lambda>r. Done (map_option (\<lambda>(v, n). (v, drop n buf)) r))
            else decode_varint32_slow c buf)"

text \<open>Booleans are a byte that is 0 or 1.\<close>

definition encode_varint_bool :: "bool \<Rightarrow> bytes" where
  "encode_varint_bool b = [if b then 1 else 0]"

definition decode_varint_bool :: "bytes \<Rightarrow> (bool \<times> bytes) option" where
  "decode_varint_bool buf = (case buf of [] \<Rightarrow> None | byte # buf' \<Rightarrow> if byte \<le> 1 then Some (byte \<noteq> 0, buf') else None)"

section \<open>Zigzag\<close>

definition encode_zigzag32 :: "i32 \<Rightarrow> u32" where
  "encode_zigzag32 v = push_bit 1 v XOR signed_drop_bit 31 v"

definition decode_zigzag32 :: "u32 \<Rightarrow> i32" where
  "decode_zigzag32 v = drop_bit 1 v XOR (- (v AND 1))"

definition encode_zigzag64 :: "64 word \<Rightarrow> u64" where
  "encode_zigzag64 v = push_bit 1 v XOR signed_drop_bit 63 v"

definition decode_zigzag64 :: "u64 \<Rightarrow> 64 word" where
  "decode_zigzag64 v = drop_bit 1 v XOR (- (v AND 1))"

section \<open>The reference: base 128, least significant digit first\<close>

fun leb128 :: "nat \<Rightarrow> bytes" where
  "leb128 n = (if n < 128 then [of_nat n] else (of_nat (n mod 128 + 128)) # leb128 (n div 128))"

declare leb128.simps [simp del]

fun leb_len :: "nat \<Rightarrow> nat" where
  "leb_len n = (if n < 128 then 1 else Suc (leb_len (n div 128)))"

declare leb_len.simps [simp del]

lemma length_leb128 [simp]: "length (leb128 n) = leb_len n"
  by (induction n rule: leb128.induct) (simp add: leb128.simps leb_len.simps)

lemma bit_width_0 [simp]: "bit_width 0 = 0"
  by (simp add: bit_width.simps)

lemma bit_width_shift: "2 ^ k \<le> n \<Longrightarrow> bit_width n = k + bit_width (n div 2 ^ k)"
proof (induction k)
  case (Suc k)
  have "2 ^ k * 2 \<le> n" using Suc.prems by simp
  then have "2 \<le> n div 2 ^ k" by (simp add: less_eq_div_iff_mult_less_eq mult.commute)
  then have "bit_width (n div 2 ^ k) = Suc (bit_width (n div 2 ^ k div 2))" by (subst bit_width.simps) simp
  then show ?case using Suc by (simp add: div_mult2_eq [symmetric] mult.commute)
qed simp

lemma bit_width_le: "n < 2 ^ k \<Longrightarrow> bit_width n \<le> k"
proof (induction k arbitrary: n)
  case (Suc k)
  then show ?case by (subst bit_width.simps) simp
qed simp

lemma leb_len_eq: "leb_len n = max 1 ((bit_width n + 6) div 7)"
proof (induction n rule: leb_len.induct)
  case (1 n)
  show ?case
  proof (cases "n < 128")
    case True
    then have "bit_width n \<le> 7" using bit_width_le [of n 7] by simp
    then show ?thesis using True by (simp add: leb_len.simps [of n])
  next
    case False
    then have w: "bit_width n = 7 + bit_width (n div 128)" using bit_width_shift [of 7 n] by simp
    have "0 < bit_width (n div 128)" using False by (subst bit_width.simps) (simp add: div_eq_0_iff)
    then show ?thesis using False 1 w by (simp add: leb_len.simps [of n])
  qed
qed

lemma len_table: "w \<le> 64 \<Longrightarrow> (w :: nat) * 9 div 64 + 1 = max 1 ((w + 6) div 7)"
proof -
  have "\<forall>w \<in> set [0..<65]. w * 9 div 64 + 1 = max 1 ((w + 6) div (7 :: nat))" by code_simp
  then show "w \<le> 64 \<Longrightarrow> w * 9 div 64 + 1 = max 1 ((w + 6) div 7)" by simp
qed

lemma encoded_len_varint64_eq: "encoded_len_varint64 v = Done (leb_len (unat v))"
proof -
  have "unat v < 2 ^ 64" using unsigned_less [of v, where ?'a = nat] by simp
  then have w: "bit_width (unat v) \<le> 64" by (rule bit_width_le)
  then have "leb_len (unat v) \<le> 10" unfolding leb_len_eq by simp
  then show ?thesis using len_table [OF w] by (simp add: encoded_len_varint64_def Let_def leb_len_eq VARINT64_MAX_LEN_def)
qed

lemma encoded_len_varint32_eq: "encoded_len_varint32 v = Done (leb_len (unat v))"
proof -
  have "unat v < 2 ^ 32" using unsigned_less [of v, where ?'a = nat] by simp
  then have w: "bit_width (unat v) \<le> 32" by (rule bit_width_le)
  then have "leb_len (unat v) \<le> 5" unfolding leb_len_eq by simp
  then show ?thesis using len_table [of "bit_width (unat v)"] w by (simp add: encoded_len_varint32_def Let_def leb_len_eq VARINT32_MAX_LEN_def)
qed

lemma leb_len_pos [simp]: "0 < leb_len n"
  by (simp add: leb_len.simps)

section \<open>Encoding writes the reference\<close>

lemma low_bits: "unat (v AND (0x7F :: 'a::len word)) = unat v mod 128"
proof -
  have "(0x7F :: 'a word) = mask 7" by (simp add: mask_eq_exp_minus_1)
  then have v: "v AND 0x7F = take_bit 7 v" by (simp only: take_bit_eq_mask)
  have "unat (take_bit 7 v) = take_bit 7 (unat v)" by (rule unsigned_take_bit_eq)
  then show ?thesis unfolding v by (simp only: take_bit_nat_def) simp
qed

lemma or_128: "b < 0x80 \<Longrightarrow> unat (b OR (0x80 :: u8)) = unat b + 128"
proof -
  assume b: "b < 0x80"
  have "b OR 0x80 = b + 0x80"
  proof (rule disjunctive_add [symmetric])
    fix n
    show "\<not> bit b n \<or> \<not> bit (0x80 :: u8) n"
    proof (cases "n = 7")
      case True
      have "\<not> bit b 7" using b by (simp add: bit7_iff)
      then show ?thesis using True by simp
    next
      case False
      have "(0x80 :: u8) = push_bit 7 1" by simp
      then show ?thesis using False by (simp only: bit_push_bit_iff) (auto simp: bit_1_iff)
    qed
  qed
  moreover have "unat b + 128 < 256" using b by (simp add: word_less_nat_alt)
  ultimately show ?thesis by (simp add: unat_word_ariths)
qed

lemma continuation_byte:
  fixes v :: "'a::len word"
  shows "ucast (v AND 0x7F) OR 0x80 = (of_nat (unat v mod 128 + 128) :: u8)"
proof -
  let ?b = "ucast (v AND 0x7F) :: u8"
  have u: "unat ?b = unat v mod 128" by (simp add: unsigned_ucast_eq low_bits take_bit_nat_eq_self order_less_le_trans [of _ 128])
  then have "?b < 0x80" by (simp add: word_less_nat_alt)
  then have "unat (?b OR 0x80) = unat v mod 128 + 128" using or_128 u by simp
  from u8_of_unat [OF this] show ?thesis by (rule sym)
qed

lemma unat_numeral_128: "8 \<le> LENGTH('a) \<Longrightarrow> unat (0x80 :: 'a::len word) = 128"
proof -
  assume "8 \<le> LENGTH('a)"
  then have "(2 :: nat) ^ 8 \<le> 2 ^ LENGTH('a)" by (rule power_increasing) simp
  then have "(128 :: nat) < 2 ^ LENGTH('a)" by simp
  then show ?thesis using unat_of_nat [of 128, where ?'a = 'a] by (simp add: take_bit_nat_eq_self)
qed

lemma unat_drop_7: "unat (drop_bit 7 (v :: 'a::len word)) = unat v div 128"
proof -
  have "unat (drop_bit 7 v) = drop_bit 7 (unat v)" by (simp only: unsigned_drop_bit_eq take_bit_nat_eq_self [OF unsigned_less])
  then show ?thesis by (simp only: drop_bit_nat_def) simp
qed

lemma varint_bytes_eq:
  fixes v :: "'a::len word"
  assumes "8 \<le> LENGTH('a)" and "Suc k = leb_len (unat v)"
  shows "varint_bytes k v = Done (leb128 (unat v))"
  using assms(2)
proof (induction k arbitrary: v)
  case 0
  then have "unat v < 128" by (simp add: leb_len.simps split: if_splits)
  moreover from this have "v < 0x80" unfolding word_less_nat_alt unat_numeral_128 [OF assms(1)] by simp
  moreover have "ucast v = (of_nat (unat v) :: u8)" by simp
  ultimately show ?case by (simp add: leb128.simps [of "unat v"])
next
  case (Suc k)
  then have big: "\<not> unat v < 128" by (auto simp: leb_len.simps split: if_splits)
  have d: "unat (drop_bit 7 v) = unat v div 128" by (rule unat_drop_7)
  have "varint_bytes k (drop_bit 7 v) = Done (leb128 (unat v div 128))"
    using Suc(1) [of "drop_bit 7 v"] Suc(2) big d by (simp add: leb_len.simps [of "unat v"])
  then show ?case using big by (simp add: continuation_byte leb128.simps [of "unat v"])
qed

lemma encode_varint64_eq: "encode_varint64 space v = Done (leb128 (unat v))"
proof -
  have "varint_bytes (leb_len (unat v) - 1) v = Done (leb128 (unat v))" by (rule varint_bytes_eq) simp_all
  then show ?thesis by (simp add: encode_varint64_def encoded_len_varint64_eq encode_varint64_fast_def encode_varint64_slow_def)
qed

lemma encode_varint32_eq: "encode_varint32 space v = Done (leb128 (unat v))"
proof -
  have "varint_bytes (leb_len (unat v) - 1) v = Done (leb128 (unat v))" by (rule varint_bytes_eq) simp_all
  then show ?thesis by (simp add: encode_varint32_def encoded_len_varint32_eq encode_varint32_fast_def encode_varint32_slow_def)
qed

section \<open>Decoding reads the reference\<close>

lemma accumulate:
  assumes "a < 2 ^ k"
  shows "(of_nat a :: 'a::len word) OR push_bit k (ucast (byte AND (0x7F :: u8))) = of_nat (a + unat byte mod 128 * 2 ^ k)"
proof -
  let ?d = "ucast (byte AND (0x7F :: u8)) :: 'a word"
  have d: "?d = of_nat (unat byte mod 128)" by (simp add: low_bits [symmetric])
  have "of_nat a OR push_bit k ?d = of_nat a + push_bit k ?d"
  proof (rule disjunctive_add [symmetric])
    fix n
    show "\<not> bit (of_nat a :: 'a word) n \<or> \<not> bit (push_bit k ?d) n"
    proof (cases "n < k")
      case False
      then have "(2 :: nat) ^ k \<le> 2 ^ n" by (intro power_increasing) simp_all
      then have "a < 2 ^ n" using assms by (rule order.strict_trans2 [rotated])
      then have "\<not> bit a n" by (simp add: bit_iff_odd)
      then show ?thesis by (simp add: bit_of_nat_iff)
    qed (simp add: bit_push_bit_iff)
  qed
  then show ?thesis unfolding d by (simp add: push_bit_eq_mult)
qed

lemma slow_loop_leb:
  fixes a :: nat
  assumes "a < 2 ^ (7 * i)" and "i + leb_len n \<le> max_len"
  shows "decode_slow_loop max_len last_ok (leb128 n @ rest) i (of_nat a :: 'a::len word) =
    (if i + leb_len n = max_len \<and> \<not> last_ok (last (leb128 n)) then None else Some (of_nat (a + n * 2 ^ (7 * i)), rest))"
  using assms
proof (induction n arbitrary: i a rule: leb128.induct)
  case (1 n)
  show ?case
  proof (cases "n < 128")
    case True
    have len: "leb_len n = 1" using True by (simp add: leb_len.simps [of n])
    have acc: "(of_nat a :: 'a word) OR push_bit (i * 7) (ucast ((of_nat n :: u8) AND 0x7F)) = of_nat (a + n * 2 ^ (7 * i))"
      using accumulate [OF 1(2), of "of_nat n"] True by (simp add: mult.commute unat_u8)
    have "(of_nat n :: u8) < 0x80" using True by (simp add: word_less_nat_alt unat_u8)
    then show ?thesis using True 1(3) len
      by (subst decode_slow_loop.simps) (auto simp: leb128.simps [of n] acc Let_def)
  next
    case False
    define b :: u8 where "b = of_nat (n mod 128 + 128)"
    have ub: "unat b = n mod 128 + 128" unfolding b_def by (rule unat_u8) simp
    then have nb: "\<not> b < 0x80" by (simp add: word_less_nat_alt)
    have len: "leb_len n = Suc (leb_len (n div 128))" using False by (simp add: leb_len.simps [of n])
    have acc: "(of_nat a :: 'a word) OR push_bit (i * 7) (ucast (b AND 0x7F)) = of_nat (a + n mod 128 * 2 ^ (7 * i))"
      using accumulate [OF 1(2), of b] ub by (simp add: mult.commute)
    have "n mod 128 * 2 ^ (7 * i) \<le> 127 * 2 ^ (7 * i)" by simp
    moreover have pow: "(2 :: nat) ^ (7 * (i + 1)) = 128 * 2 ^ (7 * i)" by (simp add: power_add)
    ultimately have a': "a + n mod 128 * 2 ^ (7 * i) < 2 ^ (7 * (i + 1))" using 1(2) by linarith
    have val: "a + n mod 128 * 2 ^ (7 * i) + n div 128 * 2 ^ (7 * (i + 1)) = a + n * 2 ^ (7 * i)"
    proof -
      have "n = n div 128 * 128 + n mod 128" by simp
      then have "n * 2 ^ (7 * i) = (n div 128 * 128 + n mod 128) * 2 ^ (7 * i)" by simp
      also have "\<dots> = n div 128 * 2 ^ (7 * (i + 1)) + n mod 128 * 2 ^ (7 * i)" by (simp only: pow distrib_right mult.assoc)
      finally show ?thesis by simp
    qed
    have l: "leb128 n = b # leb128 (n div 128)" using False by (simp add: leb128.simps [of n] b_def)
    have ne: "leb128 (n div 128) \<noteq> []" by (simp add: leb128.simps)
    have "decode_slow_loop max_len last_ok (leb128 n @ rest) i (of_nat a :: 'a word) =
      decode_slow_loop max_len last_ok (leb128 (n div 128) @ rest) (i + 1) (of_nat (a + n mod 128 * 2 ^ (7 * i)))"
      using nb 1(3) len acc by (subst decode_slow_loop.simps) (simp add: l Let_def)
    then show ?thesis using 1(1) [OF False a'] 1(3) len ne unfolding val by (simp add: l)
  qed
qed

text \<open>Reading a chunk that is long enough, or in which the integer ends, does the same as reading byte by byte.\<close>

lemma fast_loop_slow:
  assumes "max_len \<le> length (take c buf) \<or> (\<exists>j. i \<le> j \<and> j < length (take c buf) \<and> take c buf ! j < 0x80)"
  shows "bind_outcome (decode_fast_loop max_len last_ok (take c buf) i v) (\<lambda>r. Done (map_option (\<lambda>(v, n). (v, drop n buf)) r)) =
    Done (decode_slow_loop max_len last_ok (drop i buf) i v)"
  using assms
proof (induction max_len last_ok "take c buf" i v rule: decode_fast_loop.induct)
  case (1 max_len last_ok i v)
  show ?case
  proof (cases "i < max_len")
    case True
    then have i: "i < length (take c buf)" using 1(2) by auto
    then have d: "drop i buf = buf ! i # drop (i + 1) buf" "take c buf ! i = buf ! i" by (simp_all add: Cons_nth_drop_Suc)
    show ?thesis
    proof (cases "buf ! i < 0x80")
      case small: True
      then show ?thesis using True i d
        by (subst decode_fast_loop.simps, subst decode_slow_loop.simps) (auto simp: Let_def)
    next
      case False
      then have "max_len \<le> length (take c buf) \<or> (\<exists>j. i + 1 \<le> j \<and> j < length (take c buf) \<and> take c buf ! j < 0x80)"
        using 1(2) d(2) by (metis Suc_eq_plus1 Suc_leI le_neq_implies_less)
      note ih = 1(1) [OF True i refl refl _ this]
      show ?thesis using ih False True i d
        by (subst decode_fast_loop.simps, subst decode_slow_loop.simps) (simp add: Let_def)
    qed
  qed (subst decode_fast_loop.simps, subst decode_slow_loop.simps, simp)
qed

lemma decode_first_byte:
  "0 < max_len \<Longrightarrow> b < 0x80 \<Longrightarrow> last_ok b \<or> max_len \<noteq> 1 \<Longrightarrow> decode_slow_loop max_len last_ok (b # buf) 0 (0 :: 'a::len word) = Some (ucast b, buf)"
proof -
  assume a: "0 < max_len" "b < 0x80" "last_ok b \<or> max_len \<noteq> 1"
  have "unat b mod 128 = unat b" using a(2) by (simp add: word_less_nat_alt)
  then have "(0 :: 'a word) OR push_bit 0 (ucast (b AND 0x7F)) = ucast b" using accumulate [of 0 0 b, where ?'a = 'a] by simp
  then show ?thesis using a by (subst decode_slow_loop.simps) (auto simp: Let_def)
qed

text \<open>How the buffer is split into chunks does not matter.\<close>

lemma decode_varint64_eq:
  assumes "0 < c \<or> buf = []"
  shows "decode_varint64 c buf = Done (decode_slow_loop VARINT64_MAX_LEN (\<lambda>byte. \<not> byte > 1) buf 0 0)"
proof (cases buf)
  case Nil
  then show ?thesis by (subst decode_slow_loop.simps) (simp add: decode_varint64_def VARINT64_MAX_LEN_def)
next
  case (Cons b rest)
  then have c: "0 < c" using assms by simp
  then have t: "take c buf \<noteq> []" "take c buf ! 0 = b" using Cons by (auto simp: take_Cons')
  show ?thesis
  proof (cases "b < 0x80")
    case True
    then show ?thesis using t Cons decode_first_byte [of VARINT64_MAX_LEN b, where ?'a = 64] by (simp add: decode_varint64_def Let_def VARINT64_MAX_LEN_def)
  next
    case False
    let ?len = "length (take c buf)"
    show ?thesis
    proof (cases "?len \<ge> VARINT64_MAX_LEN \<or> take c buf ! (?len - 1) < 0x80")
      case True
      then have "VARINT64_MAX_LEN \<le> ?len \<or> (\<exists>j. 0 \<le> j \<and> j < ?len \<and> take c buf ! j < 0x80)"
        using t(1) by (metis diff_less le0 length_greater_0_conv less_numeral_extra(1))
      from fast_loop_slow [OF this, of "\<lambda>byte. \<not> byte > 1" 0] show ?thesis using True False t
        by (simp add: decode_varint64_def Let_def decode_varint64_fast_def)
    next
      case slow: False
      then show ?thesis using False t by (auto simp: decode_varint64_def Let_def decode_varint64_slow_def not_less)
    qed
  qed
qed

lemma decode_varint32_eq:
  assumes "0 < c \<or> buf = []"
  shows "decode_varint32 c buf = Done (decode_slow_loop VARINT32_MAX_LEN (\<lambda>byte. \<not> byte > 4) buf 0 0)"
proof (cases buf)
  case Nil
  then show ?thesis by (subst decode_slow_loop.simps) (simp add: decode_varint32_def VARINT32_MAX_LEN_def)
next
  case (Cons b rest)
  then have c: "0 < c" using assms by simp
  then have t: "take c buf \<noteq> []" "take c buf ! 0 = b" using Cons by (auto simp: take_Cons')
  show ?thesis
  proof (cases "b < 0x80")
    case True
    then show ?thesis using t Cons decode_first_byte [of VARINT32_MAX_LEN b, where ?'a = 32] by (simp add: decode_varint32_def Let_def VARINT32_MAX_LEN_def)
  next
    case False
    let ?len = "length (take c buf)"
    show ?thesis
    proof (cases "?len \<ge> VARINT32_MAX_LEN \<or> take c buf ! (?len - 1) < 0x80")
      case True
      then have "VARINT32_MAX_LEN \<le> ?len \<or> (\<exists>j. 0 \<le> j \<and> j < ?len \<and> take c buf ! j < 0x80)"
        using t(1) by (metis diff_less le0 length_greater_0_conv less_numeral_extra(1))
      from fast_loop_slow [OF this, of "\<lambda>byte. \<not> byte > 4" 0] show ?thesis using True False t
        by (simp add: decode_varint32_def Let_def decode_varint32_fast_def)
    next
      case slow: False
      then show ?thesis using False t by (auto simp: decode_varint32_def Let_def decode_varint32_slow_def not_less)
    qed
  qed
qed

lemma last_leb128: "last (leb128 n) = of_nat (n div 128 ^ (leb_len n - 1)) \<and> n div 128 ^ (leb_len n - 1) < 128 \<and> n < 128 ^ leb_len n"
proof (induction n rule: leb128.induct)
  case (1 n)
  show ?case
  proof (cases "n < 128")
    case True
    then show ?thesis by (simp add: leb128.simps [of n] leb_len.simps [of n])
  next
    case False
    let ?m = "n div 128"
    have len: "leb_len n = Suc (leb_len ?m)" using False by (simp add: leb_len.simps [of n])
    have "leb128 ?m \<noteq> []" by (simp add: leb128.simps)
    moreover have "n div 128 ^ leb_len ?m = ?m div 128 ^ (leb_len ?m - 1)"
      by (metis div_mult2_eq leb_len_pos power_eq_if not_gr_zero)
    moreover have "n < 128 * 128 ^ leb_len ?m" using 1 [OF False] by (simp add: div_less_iff_less_mult mult.commute)
    ultimately show ?thesis using 1 [OF False] False by (simp add: leb128.simps [of n] len)
  qed
qed

lemma slow_loop_long: "max_len < i + leb_len n \<Longrightarrow> decode_slow_loop max_len last_ok (leb128 n @ rest) i v = None"
proof (induction n arbitrary: i v rule: leb128.induct)
  case (1 n)
  show ?case
  proof (cases "i < max_len")
    case True
    then have big: "\<not> n < 128" using 1(2) by (auto simp: leb_len.simps [of n])
    have "\<not> (of_nat (n mod 128 + 128) :: u8) < 0x80" unfolding word_less_nat_alt by (subst unat_u8) simp_all
    then show ?thesis using True big 1(1) [OF big, of "i + 1"] 1(2)
      by (subst decode_slow_loop.simps) (simp add: leb128.simps [of n] leb_len.simps [of n] Let_def del: of_nat_add)
  qed (subst decode_slow_loop.simps, simp)
qed

lemma decode_varint64_leb: "decode_varint64 (Suc c) (leb128 (unat v) @ rest) = Done (Some (v, rest))"
proof -
  let ?n = "unat v"
  have n: "?n < 2 ^ 64" using unsigned_less [of v, where ?'a = nat] by simp
  have len: "leb_len ?n \<le> 10" using bit_width_le [OF n] unfolding leb_len_eq by simp
  have ok: "\<not> last (leb128 ?n) > (1 :: u8)" if "leb_len ?n = 10"
  proof -
    have "?n div 2 ^ 63 < 2" using n by (simp add: div_less_iff_less_mult)
    then have "?n div 128 ^ (leb_len ?n - 1) \<le> 1" unfolding that by simp
    then have "unat (last (leb128 ?n)) \<le> 1" using last_leb128 [of ?n] by (simp add: unat_u8 del: One_nat_def)
    then show ?thesis by (simp add: word_less_nat_alt)
  qed
  have "decode_slow_loop 10 (\<lambda>byte. \<not> byte > 1) (leb128 ?n @ rest) 0 (of_nat 0) = Some (v, rest)"
    using slow_loop_leb [of 0 0 ?n 10 "\<lambda>byte. \<not> byte > 1" rest, where ?'a = 64] len ok by simp
  then show ?thesis by (simp add: decode_varint64_eq VARINT64_MAX_LEN_def)
qed

text \<open>(patch/prost-0.14.1/src/encoding/varint.rs, encode_varint64, encoded_len_varint64, decode_varint64): every 64-bit integer is
  written without undefined behaviour, in as many bytes as encoded_len says and whatever space the buffer has, and is read back by
  every path of the decoder, however the buffer is split into chunks.\<close>

theorem varint64_roundtrip:
  "\<exists>bs. encode_varint64 space v = Done bs \<and> encoded_len_varint64 v = Done (length bs) \<and> decode_varint64 (Suc c) (bs @ rest) = Done (Some (v, rest))"
  by (simp add: encode_varint64_eq encoded_len_varint64_eq decode_varint64_leb)

lemma leb_len_five: "leb_len n = 5 \<Longrightarrow> unat (last (leb128 n)) = n div 2 ^ 28"
  using last_leb128 [of n] by (simp add: unat_u8)

lemma leb_len_small: "leb_len n < 5 \<Longrightarrow> n < 2 ^ 28"
proof -
  assume "leb_len n < 5"
  then have "(128 :: nat) ^ leb_len n \<le> 128 ^ 4" by (intro power_increasing) simp_all
  then show ?thesis using last_leb128 [of n] by simp
qed

lemma decode_varint32_leb:
  "decode_varint32 (Suc c) (leb128 (unat v) @ rest) = Done (if v < 0x50000000 then Some (v, rest) else None)"
proof -
  let ?n = "unat v"
  have n: "?n < 2 ^ 32" using unsigned_less [of v, where ?'a = nat] by simp
  have len: "leb_len ?n \<le> 5" using bit_width_le [OF n] unfolding leb_len_eq by simp
  have "leb_len ?n = 5 \<and> \<not> \<not> last (leb128 ?n) > (4 :: u8) \<longleftrightarrow> \<not> v < 0x50000000"
  proof (cases "leb_len ?n = 5")
    case True
    have "last (leb128 ?n) > (4 :: u8) \<longleftrightarrow> 5 \<le> ?n div 2 ^ 28" using leb_len_five [OF True] by (auto simp: word_less_nat_alt)
    then show ?thesis using True by (simp add: word_less_nat_alt less_eq_div_iff_mult_less_eq not_less)
  next
    case False
    then show ?thesis using leb_len_small [of ?n] len by (simp add: word_less_nat_alt)
  qed
  then have "decode_slow_loop 5 (\<lambda>byte. \<not> byte > 4) (leb128 ?n @ rest) 0 (of_nat 0) = (if v < 0x50000000 then Some (v, rest) else None)"
    using slow_loop_leb [of 0 0 ?n 5 "\<lambda>byte. \<not> byte > 4" rest, where ?'a = 32] len by auto
  then show ?thesis by (simp add: decode_varint32_eq VARINT32_MAX_LEN_def)
qed

text \<open>C29: (patch/prost-0.14.1/src/encoding/varint.rs, decode_varint32): the check of the fifth byte rejects bytes above 4, where the
  largest one is 15.  An unsigned 32-bit integer, which is written correctly, is read back exactly when it is below 0x50000000.\<close>

theorem varint32_limit:
  "\<exists>bs. encode_varint32 space v = Done bs \<and> encoded_len_varint32 v = Done (length bs) \<and>
     decode_varint32 (Suc c) (bs @ rest) = Done (if v < 0x50000000 then Some (v, rest) else None)"
  by (simp add: encode_varint32_eq encoded_len_varint32_eq decode_varint32_leb)

lemma take_bit_negative: "- (2 ^ n) \<le> k \<Longrightarrow> k < 0 \<Longrightarrow> take_bit n k = k + (2 ^ n :: int)"
proof -
  assume "- (2 ^ n) \<le> k" "k < 0"
  then have "(k + 2 ^ n) mod 2 ^ n = k + 2 ^ n" by (intro mod_pos_pos_trivial) simp_all
  then show ?thesis by (simp add: take_bit_eq_mod)
qed

text \<open>(patch/prost-0.14.1/src/encoding/varint.rs, the modules int32 and enum): a negative 32-bit integer cannot be read: neither in
  the five bytes in which this library writes it nor in the ten bytes, sign-extended, that the protobuf encoding prescribes.\<close>

theorem negative_int32_unreadable:
  assumes "v <s (0 :: i32)"
  shows "\<exists>bs. encode_varint32 space v = Done bs \<and> decode_varint32 (Suc c) (bs @ rest) = Done None \<and>
    decode_varint32 (Suc c) (leb128 (unat (scast v :: u64)) @ rest) = Done None"
proof -
  have neg: "sint v < 0" using assms by (simp add: word_sless_alt)
  have s: "- (2 ^ 31) \<le> sint v" using sint_greater_eq [of v] by simp
  have "uint v = sint v + 2 ^ 32" using take_bit_negative [of 32 "sint v"] neg s by (simp add: uint_sint)
  then have "\<not> v < 0x50000000" using s by (simp add: word_less_def)
  then have own: "decode_varint32 (Suc c) (leb128 (unat v) @ rest) = Done None" by (simp only: decode_varint32_leb if_False)
  have "5 < leb_len (unat (scast v :: u64))"
  proof (rule ccontr)
    assume "\<not> 5 < leb_len (unat (scast v :: u64))"
    then have "(128 :: nat) ^ leb_len (unat (scast v :: u64)) \<le> 128 ^ 5" by (intro power_increasing) simp_all
    then have small: "unat (scast v :: u64) < 128 ^ 5" using last_leb128 [of "unat (scast v :: u64)"] by simp
    have "uint (scast v :: u64) = take_bit 64 (sint v)" unfolding scast_eq uint_word_of_int_eq by simp
    also have "\<dots> = sint v + 2 ^ 64" by (rule take_bit_negative [OF _ neg]) (use s in simp)
    finally have "uint (scast v :: u64) = sint v + 2 ^ 64" .
    moreover have "int (unat (scast v :: u64)) < int (128 ^ 5)" using small by (simp only: of_nat_less_iff)
    ultimately show False using s by simp
  qed
  then have "decode_slow_loop 5 (\<lambda>byte. \<not> byte > 4) (leb128 (unat (scast v :: u64)) @ rest) 0 (0 :: u32) = None"
    by (intro slow_loop_long) simp
  then have "decode_varint32 (Suc c) (leb128 (unat (scast v :: u64)) @ rest) = Done None" by (simp add: decode_varint32_eq VARINT32_MAX_LEN_def)
  then show ?thesis using own by (simp only: encode_varint32_eq) blast
qed

theorem negative_int32_unreadable_witness:
  "\<exists>bs. encode_varint32 0 (- 1) = Done bs \<and> decode_varint32 1 (bs @ [1]) = Done None \<and>
    decode_varint32 1 (leb128 (unat (scast (- 1 :: i32) :: u64)) @ [1]) = Done None"
  using negative_int32_unreadable [of "- 1" 0 0 "[1]"] by (simp add: word_sless_alt)

text \<open>(patch/prost-0.14.1/src/encoding/varint.rs, decode_varint64, decode_varint32): on every input, valid or not, the fast paths on
  a chunk do what reading byte by byte does; no byte outside of the chunk is read and no assumption given to the compiler is false.\<close>

theorem varint_chunks_irrelevant:
  "decode_varint64 (Suc c) buf = Done (decode_slow_loop VARINT64_MAX_LEN (\<lambda>byte. \<not> byte > 1) buf 0 0) \<and>
   decode_varint32 (Suc c) buf = Done (decode_slow_loop VARINT32_MAX_LEN (\<lambda>byte. \<not> byte > 4) buf 0 0)"
  by (simp add: decode_varint64_eq decode_varint32_eq)

lemma zigzag_generic:
  fixes v :: "'a::len word"
  assumes "e = push_bit 1 v XOR signed_drop_bit (LENGTH('a) - 1) v"
  shows "drop_bit 1 e XOR (- (e AND 1)) = v"
proof -
  let ?sign = "bit v (LENGTH('a) - 1)"
  have e: "bit e n \<longleftrightarrow> (1 \<le> n \<and> bit v (n - 1)) \<noteq> ?sign" if "n < LENGTH('a)" for n
    using that unfolding assms by (cases n) (simp_all only: bit_xor_iff bit_push_bit_iff bit_signed_drop_bit_iff, auto)
  have "bit e 0 \<longleftrightarrow> ?sign" using e [of 0] by simp
  then have low: "- (e AND 1) = (if ?sign then - 1 else 0)" by (simp add: and_one_eq bit_0 mod_2_eq_odd)
  show ?thesis
  proof (rule bit_word_eqI)
    fix n
    assume n: "n < LENGTH('a)"
    have "bit (drop_bit 1 e) n \<longleftrightarrow> bit e (n + 1)" by (simp only: bit_drop_bit_eq o_apply) (simp add: add.commute)
    moreover have "bit (if ?sign then - 1 else 0 :: 'a word) n \<longleftrightarrow> ?sign" using n by simp
    moreover have "bit e (n + 1) \<longleftrightarrow> (if n + 1 < LENGTH('a) then bit v n \<noteq> ?sign else False)"
      using e [of "n + 1"] by (auto dest: bit_imp_le_length)
    moreover have "n = LENGTH('a) - 1" if "\<not> n + 1 < LENGTH('a)" using n that by simp
    ultimately show "bit (drop_bit 1 e XOR - (e AND 1)) n \<longleftrightarrow> bit v n"
      unfolding low bit_xor_iff by (cases "n + 1 < LENGTH('a)") auto
  qed
qed

text \<open>(patch/prost-0.14.1/src/encoding/varint.rs, encode_zigzag32, decode_zigzag32, encode_zigzag64, decode_zigzag64): decoding
  inverts the zigzag encoding of every signed integer.\<close>

theorem zigzag_roundtrip: "decode_zigzag32 (encode_zigzag32 v) = v \<and> decode_zigzag64 (encode_zigzag64 w) = w"
  unfolding decode_zigzag32_def decode_zigzag64_def
  using zigzag_generic [of "encode_zigzag32 v" v] zigzag_generic [of "encode_zigzag64 w" w] by (simp add: encode_zigzag32_def encode_zigzag64_def)

end
