(* ===== verification/Prost_Packed.thy ===== *)
theory Prost_Packed
  imports Prost_Varint
begin

text \<open>
  Packed repeated fields in a vector, from \<open>encode_packed_fast_impl\<close> of \<open>patch/prost-0.14.1/src/encoding/varint.rs\<close>.  The vector is
  an allocation of cells, of which the first \<open>vlen\<close> belong to the contents; a cell that was never written is None.  Growing
  beyond the capacity moves the contents to a new allocation, and pointers into the old one dangle.
\<close>

record raw_vec =
  alloc :: nat
  mem :: "u8 option list"
  vlen :: usize

definition vec_reserve :: "raw_vec \<Rightarrow> usize \<Rightarrow> raw_vec" where
  "vec_reserve v additional =
     (if additional \<le> length (mem v) - vlen v then v
      else let cap = max (max (2 * length (mem v)) (vlen v + additional)) 8
           in v\<lparr>alloc := alloc v + 1, mem := take (vlen v) (mem v) @ replicate (cap - vlen v) None\<rparr>)"

definition write_at :: "u8 option list \<Rightarrow> usize \<Rightarrow> u8 option list \<Rightarrow> u8 option list" where
  "write_at m off cs = take off m @ cs @ drop (off + length cs) m"

definition vec_push :: "raw_vec \<Rightarrow> u8 \<Rightarrow> raw_vec" where
  "vec_push v b = (let v = vec_reserve v 1 in v\<lparr>mem := write_at (mem v) (vlen v) [Some b], vlen := vlen v + 1\<rparr>)"

text \<open>\<open>encode_varint\<close> into a vector: \<open>chunk_mut\<close> makes room for 64 bytes when the vector is full; the fast path writes into the
  free space, the slow one byte by byte.\<close>

definition vec_put_varint :: "raw_vec \<Rightarrow> bytes \<Rightarrow> raw_vec" where
  "vec_put_varint v bs =
     (let v = (if length (mem v) = vlen v then vec_reserve v 64 else v)
      in if length bs \<le> length (mem v) - vlen v
         then v\<lparr>mem := write_at (mem v) (vlen v) (map Some bs), vlen := vlen v + length bs\<rparr>
         else fold (\<lambda>b v. vec_push v b) bs v)"

definition PACKED_VARINT_MAX_LEN :: usize where
  "PACKED_VARINT_MAX_LEN = 9"

text \<open>The pointer to the contents is taken first, and later the length is written where it points and the values are moved behind
  it; \<open>encs\<close> are the values as \<open>encode_varint\<close> writes them.\<close>

definition encode_packed_fast_impl :: "raw_vec \<Rightarrow> bytes list \<Rightarrow> raw_vec outcome" where
  "encode_packed_fast_impl v encs =
     (let start = alloc v;
          v = vec_reserve v PACKED_VARINT_MAX_LEN;
          v = v\<lparr>vlen := vlen v + PACKED_VARINT_MAX_LEN\<rparr>;
          v = fold (\<lambda>enc v. vec_put_varint v enc) encs v;
          len = sum_list (map length encs)
      in if alloc v \<noteq> start then UB
         else bind_outcome (encoded_len_varint64 (of_nat len)) (\<lambda>n.
              if \<not> n \<le> PACKED_VARINT_MAX_LEN then UB
              else bind_outcome (encode_varint64_fast (of_nat len) n PACKED_VARINT_MAX_LEN) (\<lambda>bs.
                   let m = write_at (mem v) 0 (map Some bs);
                       m = write_at m n (take len (drop PACKED_VARINT_MAX_LEN m))
                   in Done (v\<lparr>mem := m, vlen := vlen v - PACKED_VARINT_MAX_LEN + n\<rparr>))))"

definition vec_ok :: "raw_vec \<Rightarrow> bool" where
  "vec_ok v \<longleftrightarrow> vlen v \<le> length (mem v)"

text \<open>The contract of \<open>set_len\<close>: what the vector is said to contain was written.\<close>

definition vec_initialised :: "raw_vec \<Rightarrow> bool" where
  "vec_initialised v \<longleftrightarrow> None \<notin> set (take (vlen v) (mem v))"

lemma vec_hole: "i < vlen v \<Longrightarrow> i < length (mem v) \<Longrightarrow> mem v ! i = None \<Longrightarrow> \<not> vec_initialised v"
  unfolding vec_initialised_def by (auto simp: in_set_conv_nth intro!: exI [of _ i])

definition same_place :: "raw_vec \<Rightarrow> bytes \<Rightarrow> raw_vec \<Rightarrow> bool" where
  "same_place v bs v' \<longleftrightarrow>
     vec_ok v' \<and> alloc v \<le> alloc v' \<and>
     (alloc v' = alloc v \<longrightarrow> mem v' = write_at (mem v) (vlen v) (map Some bs) \<and> vlen v' = vlen v + length bs \<and> length (mem v') = length (mem v))"

lemma same_place_ok: "same_place v bs v' \<Longrightarrow> vec_ok v'"
  by (simp add: same_place_def)

lemma length_write_at [simp]: "off + length cs \<le> length m \<Longrightarrow> length (write_at m off cs) = length m"
  by (simp add: write_at_def)

lemma write_at_append:
  assumes "off + length a + length b \<le> length m"
  shows "write_at (write_at m off a) (off + length a) b = write_at m off (a @ b)"
  using assms by (simp add: write_at_def ac_simps)

lemma write_at_Nil [simp]: "off \<le> length m \<Longrightarrow> write_at m off [] = m"
  by (simp add: write_at_def)

lemma same_place_refl: "vec_ok v \<Longrightarrow> same_place v [] v"
  by (simp add: same_place_def vec_ok_def)

lemma same_place_trans:
  assumes "vec_ok v" and "same_place v a v1" and "same_place v1 b v2"
  shows "same_place v (a @ b) v2"
proof -
  have "mem v2 = write_at (mem v) (vlen v) (map Some (a @ b)) \<and> vlen v2 = vlen v + length (a @ b) \<and> length (mem v2) = length (mem v)"
    if "alloc v2 = alloc v"
  proof -
    have "alloc v1 = alloc v" "alloc v2 = alloc v1" using that assms by (simp_all add: same_place_def)
    then have "mem v1 = write_at (mem v) (vlen v) (map Some a)" "vlen v1 = vlen v + length a" "length (mem v1) = length (mem v)"
      "mem v2 = write_at (mem v1) (vlen v1) (map Some b)" "vlen v2 = vlen v1 + length b" "length (mem v2) = length (mem v1)" "vlen v2 \<le> length (mem v2)"
      using assms by (simp_all add: same_place_def vec_ok_def)
    then show ?thesis using write_at_append [of "vlen v" "map Some a" "map Some b" "mem v"] by simp
  qed
  moreover have "vec_ok v2" "alloc v \<le> alloc v2" using assms by (auto simp: same_place_def)
  ultimately show ?thesis unfolding same_place_def by blast
qed

lemma vec_write_place:
  assumes "vec_ok v" and "length bs \<le> length (mem v) - vlen v"
  shows "same_place v bs (v\<lparr>mem := write_at (mem v) (vlen v) (map Some bs), vlen := vlen v + length bs\<rparr>)"
  using assms by (auto simp: same_place_def vec_ok_def)

lemma vec_reserve_place: "vec_ok v \<Longrightarrow> same_place v [] (vec_reserve v n)"
  by (auto simp: vec_reserve_def same_place_def vec_ok_def Let_def)

lemma vec_reserve_room: "vec_ok v \<Longrightarrow> n \<le> length (mem (vec_reserve v n)) - vlen (vec_reserve v n)"
  by (auto simp: vec_reserve_def vec_ok_def Let_def)

lemma vec_push_place:
  assumes "vec_ok v"
  shows "same_place v [b] (vec_push v b)"
proof -
  let ?r = "vec_reserve v 1"
  have r: "same_place v [] ?r" "vec_ok ?r" using vec_reserve_place [OF assms, of 1] by (auto dest: same_place_ok)
  have "same_place ?r [b] (vec_push v b)" using vec_write_place [OF r(2), of "[b]"] vec_reserve_room [OF assms, of 1] by (simp add: vec_push_def Let_def)
  then show ?thesis using same_place_trans [OF assms r(1)] by simp
qed

lemma vec_pushes_place: "vec_ok v \<Longrightarrow> same_place v bs (fold (\<lambda>b v. vec_push v b) bs v)"
proof (induction bs arbitrary: v)
  case (Cons b bs)
  have "same_place v [b] (vec_push v b)" using Cons(2) by (rule vec_push_place)
  moreover from this have "same_place (vec_push v b) bs (fold (\<lambda>b v. vec_push v b) bs (vec_push v b))" using Cons(1) by (blast dest: same_place_ok)
  ultimately have "same_place v ([b] @ bs) (fold (\<lambda>b v. vec_push v b) bs (vec_push v b))" by (rule same_place_trans [OF Cons(2)])
  then show ?case by simp
qed (simp add: same_place_refl)

lemma vec_put_varint_place:
  assumes "vec_ok v"
  shows "same_place v bs (vec_put_varint v bs)"
proof -
  define r where "r = (if length (mem v) = vlen v then vec_reserve v 64 else v)"
  have r: "same_place v [] r" "vec_ok r" using vec_reserve_place [OF assms, of 64] same_place_refl [OF assms] by (auto simp: r_def dest: same_place_ok)
  have "same_place r bs (vec_put_varint v bs)" unfolding vec_put_varint_def r_def [symmetric] Let_def
    using vec_write_place [OF r(2)] vec_pushes_place [OF r(2)] by simp
  then show ?thesis using same_place_trans [OF assms r(1)] by simp
qed

lemma vec_puts_place: "vec_ok v \<Longrightarrow> same_place v (concat encs) (fold (\<lambda>enc v. vec_put_varint v enc) encs v)"
proof (induction encs arbitrary: v)
  case (Cons e encs)
  have "same_place v e (vec_put_varint v e)" using Cons(2) by (rule vec_put_varint_place)
  moreover from this have "same_place (vec_put_varint v e) (concat encs) (fold (\<lambda>enc v. vec_put_varint v enc) encs (vec_put_varint v e))"
    using Cons(1) by (blast dest: same_place_ok)
  ultimately have "same_place v (e @ concat encs) (fold (\<lambda>enc v. vec_put_varint v enc) encs (vec_put_varint v e))" by (rule same_place_trans [OF Cons(2)])
  then show ?case by simp
qed (simp add: same_place_refl)

lemma packed_stays:
  assumes "vec_ok v" and "w = fold (\<lambda>enc v. vec_put_varint v enc) encs ((vec_reserve v 9)\<lparr>vlen := vlen (vec_reserve v 9) + 9\<rparr>)"
    and "alloc w = alloc v"
  shows "mem w = write_at (mem v) (vlen v + 9) (map Some (concat encs)) \<and> vlen w = vlen v + 9 + length (concat encs) \<and>
    vlen v + 9 + length (concat encs) \<le> length (mem v)"
proof -
  let ?r = "vec_reserve v 9" and ?r9 = "(vec_reserve v 9)\<lparr>vlen := vlen (vec_reserve v 9) + 9\<rparr>"
  have r: "same_place v [] ?r" using assms(1) by (rule vec_reserve_place)
  then have "vec_ok ?r9" using vec_reserve_room [OF assms(1), of 9] by (auto simp: same_place_def vec_ok_def)
  then have w: "same_place ?r9 (concat encs) w" unfolding assms(2) by (rule vec_puts_place)
  have "alloc ?r = alloc v" using assms(3) r w by (simp add: same_place_def)
  then have "?r = v" by (auto simp: vec_reserve_def Let_def split: if_splits)
  then show ?thesis using w assms by (auto simp: same_place_def vec_ok_def)
qed

text \<open>The nine cells that were set aside behind the contents are never written as a whole: one of them survives the writing of the
  length at the start and the moving of the values.\<close>

lemma write_at_nth:
  "off + length cs \<le> length m \<Longrightarrow> i < length m \<Longrightarrow> write_at m off cs ! i = (if off \<le> i \<and> i < off + length cs then cs ! (i - off) else m ! i)"
  by (auto simp: write_at_def nth_append min_def)

lemma packed_hole:
  assumes "1 \<le> p" and cs: "1 \<le> length cs" "length cs \<le> 9" "L = 0 \<Longrightarrow> length cs = 1" and len: "p + 9 + L \<le> length m"
    and none: "\<And>i. p \<le> i \<Longrightarrow> i < p + 9 \<Longrightarrow> m ! i = None"
  shows "\<exists>i < p + L + length cs. write_at (write_at m 0 cs) (length cs) (take L (drop 9 (write_at m 0 cs))) ! i = None"
proof -
  let ?m = "write_at m 0 cs" and ?n = "length cs"
  have lm: "length ?m = length m" using cs(2) len by simp
  define q where "q = (if L = 0 then p else max 9 p)"
  have q: "?n \<le> q" "p \<le> q" "q < p + 9" "q < length m" using assms(1) cs len by (auto simp: q_def)
  then have mq: "?m ! q = None" using none [of q] cs(2) len by (simp add: write_at_nth)
  have moved: "length (take L (drop 9 ?m)) = L" using lm len by simp
  show ?thesis
  proof (cases "9 \<le> q \<and> q < 9 + L")
    case True
    then show ?thesis using mq q moved lm len cs(2) by (intro exI [of _ "q - 9 + ?n"]) (auto simp: write_at_nth)
  next
    case False
    then have "?n + L \<le> q" "q < p + L + ?n" using q cs by (auto simp: q_def split: if_splits)
    then show ?thesis using mq q moved lm len by (intro exI [of _ q]) (simp add: write_at_nth)
  qed
qed

text \<open>(patch/prost-0.14.1/src/encoding/varint.rs, encode_packed_fast_impl): the pointer to which the length is written is that of
  the start of the vector, taken before room is made.  For a packed field in a vector that is not empty (every field has a tag
  before it), with free space that was never written: either the vector moves and the old allocation is written after it was
  freed, or the result contains a byte that was never initialised.\<close>

theorem packed_vector_corrupted:
  assumes "vec_ok v" and "1 \<le> vlen v" and "set (drop (vlen v) (mem v)) \<subseteq> {None}" and "length (concat encs) < 2 ^ 63"
  shows "encode_packed_fast_impl v encs = UB \<or> (\<exists>v'. encode_packed_fast_impl v encs = Done v' \<and> vec_ok v' \<and> \<not> vec_initialised v')"
proof -
  let ?w = "fold (\<lambda>enc v. vec_put_varint v enc) encs ((vec_reserve v 9)\<lparr>vlen := vlen (vec_reserve v 9) + 9\<rparr>)"
  define L where "L = length (concat encs)"
  show ?thesis
  proof (cases "alloc ?w = alloc v")
    case True
    have w: "mem ?w = write_at (mem v) (vlen v + 9) (map Some (concat encs))" "vlen ?w = vlen v + 9 + L" "vlen v + 9 + L \<le> length (mem v)"
      using packed_stays [OF assms(1) refl True] by (simp_all add: L_def)
    have len: "sum_list (map length encs) = L" by (simp add: L_def length_concat)
    have uL: "unat (of_nat L :: u64) = L" using assms(4) by (simp add: L_def unat_of_nat take_bit_nat_eq_self)
    let ?n = "leb_len L" and ?m = "write_at (mem ?w) 0 (map Some (leb128 L))"
    have "bit_width L \<le> 63" using bit_width_le [OF assms(4)] by (simp add: L_def)
    then have n: "1 \<le> ?n" "?n \<le> 9" unfolding leb_len_eq by simp_all
    have "mem v ! i = None" if "vlen v \<le> i" "i < length (mem v)" for i
      using assms(3) that nth_mem [of "i - vlen v" "drop (vlen v) (mem v)"] by (simp add: subset_singleton_iff)
    then have "mem ?w ! i = None" if "vlen v \<le> i" "i < vlen v + 9" for i using that w(1,3) by (simp add: write_at_nth L_def)
    note none = this
    have lens: "length (map Some (leb128 L)) = ?n" "length (mem ?w) = length (mem v)" using w by (simp_all add: L_def)
    have one: "L = 0 \<Longrightarrow> ?n = 1" by (simp add: leb_len.simps)
    obtain i where i: "i < vlen v + L + ?n" "write_at ?m ?n (take L (drop 9 ?m)) ! i = None"
      using packed_hole [OF assms(2), of "map Some (leb128 L)" L "mem ?w", unfolded lens(1,2), OF n one w(3) none] by blast
    let ?v = "?w\<lparr>mem := write_at ?m ?n (take L (drop 9 ?m)), vlen := vlen ?w - 9 + ?n\<rparr>"
    have ok: "length (mem ?v) = length (mem v)" "vlen ?v = vlen v + L + ?n" "vlen ?v \<le> length (mem v)"
      using w n lens by (simp_all add: L_def)
    have "varint_bytes (?n - 1) (of_nat L :: u64) = Done (leb128 L)" using uL varint_bytes_eq [of "?n - 1" "of_nat L :: u64"] by simp
    then have "encode_packed_fast_impl v encs = Done ?v"
      using True n uL unfolding encode_packed_fast_impl_def PACKED_VARINT_MAX_LEN_def Let_def len
      by (simp add: encoded_len_varint64_eq encode_varint64_fast_def)
    moreover have "\<not> vec_initialised ?v" using i ok by (intro vec_hole [of i]) simp_all
    moreover have "vec_ok ?v" using ok by (simp add: vec_ok_def)
    ultimately show ?thesis by blast
  qed (simp add: encode_packed_fast_impl_def PACKED_VARINT_MAX_LEN_def Let_def)
qed

theorem packed_vector_corrupted_witness:
  "encode_packed_fast_impl \<lparr>alloc = 0, mem = [Some 66] @ replicate 31 None, vlen = 1\<rparr> [[1], [2]] = UB \<or>
   (\<exists>v'. encode_packed_fast_impl \<lparr>alloc = 0, mem = [Some 66] @ replicate 31 None, vlen = 1\<rparr> [[1], [2]] = Done v' \<and> vec_ok v' \<and> \<not> vec_initialised v')"
  by (rule packed_vector_corrupted) (simp_all add: vec_ok_def)

end
