(* ===== verification/Prost_Message.thy ===== *)
theory Prost_Message
  imports Prost_Varint
begin

text \<open>
  Messages, from \<open>patch/prost-0.14.1/src/encoding.rs\<close>, \<open>encoding/wire_type.rs\<close>, \<open>encoding/fixed_width.rs\<close> and \<open>message.rs\<close>, and the
  code that \<open>src/core/aiserver/v1/lite.rs\<close> has for every message type.  That code is the same for every type up to the field
  numbers and the types of the fields, so that it is modelled once, for a schema; \<open>Prost_Schemas\<close> has the schemas.  Buffers are
  contiguous.  The integers are read and written without undefined behaviour on every path (\<open>Prost_Varint\<close>), so that only their
  results appear here.  The names of message and field that are pushed onto an error are left out.
\<close>

datatype decode_error =
  InvalidVarint | InvalidWireType | UnexpectedWireType | InvalidFieldNumber | BufferUnderflow | DelimitedLengthExceeded
| RecursionLimitReached | UnexpectedEndGroupTag | InvalidString | OutOfFuel

fun bind_err :: "decode_error + 'a \<Rightarrow> ('a \<Rightarrow> decode_error + 'b) \<Rightarrow> decode_error + 'b" where
  "bind_err (Inl e) f = Inl e"
| "bind_err (Inr x) f = f x"

definition put_varint32 :: "u32 \<Rightarrow> bytes" where
  "put_varint32 v = (case encode_varint32 0 v of Done bs \<Rightarrow> bs | _ \<Rightarrow> [])"

definition put_varint :: "usize \<Rightarrow> bytes" where
  "put_varint n = (case encode_varint64 0 (of_nat n) of Done bs \<Rightarrow> bs | _ \<Rightarrow> [])"

definition get_varint32 :: "bytes \<Rightarrow> decode_error + u32 \<times> bytes" where
  "get_varint32 buf = (case decode_varint32 (length buf) buf of Done (Some r) \<Rightarrow> Inr r | _ \<Rightarrow> Inl InvalidVarint)"

definition get_varint :: "bytes \<Rightarrow> decode_error + usize \<times> bytes" where
  "get_varint buf = (case decode_varint64 (length buf) buf of Done (Some (v, rest)) \<Rightarrow> Inr (unat v, rest) | _ \<Rightarrow> Inl InvalidVarint)"

definition varint_len :: "usize \<Rightarrow> usize" where
  "varint_len n = (case encoded_len_varint64 (of_nat n) of Done k \<Rightarrow> k | _ \<Rightarrow> 0)"

definition varint32_len :: "u32 \<Rightarrow> usize" where
  "varint32_len v = (case encoded_len_varint32 v of Done k \<Rightarrow> k | _ \<Rightarrow> 0)"

section \<open>Wire types and tags\<close>

datatype wire_type = WVarint | SixtyFourBit | LengthDelimited | StartGroup | EndGroup | ThirtyTwoBit

fun wire_type_code :: "wire_type \<Rightarrow> u32" where
  "wire_type_code WVarint = 0"
| "wire_type_code SixtyFourBit = 1"
| "wire_type_code LengthDelimited = 2"
| "wire_type_code StartGroup = 3"
| "wire_type_code EndGroup = 4"
| "wire_type_code ThirtyTwoBit = 5"

definition wire_type_try_from :: "u32 \<Rightarrow> wire_type option" where
  "wire_type_try_from v =
     (if v = 0 then Some WVarint else if v = 1 then Some SixtyFourBit else if v = 2 then Some LengthDelimited
      else if v = 3 then Some StartGroup else if v = 4 then Some EndGroup else if v = 5 then Some ThirtyTwoBit else None)"

definition WireTypeBits :: nat where
  "WireTypeBits = 3"

definition WireTypeMask :: u32 where
  "WireTypeMask = 3"

definition try_from_tag :: "u32 \<Rightarrow> decode_error + wire_type \<times> u32" where
  "try_from_tag tag =
     (case wire_type_try_from (tag AND WireTypeMask) of
        Some wire_type \<Rightarrow> Inr (wire_type, drop_bit WireTypeBits tag)
      | None \<Rightarrow> Inl InvalidWireType)"

definition check_wire_type :: "wire_type \<Rightarrow> wire_type \<Rightarrow> decode_error + unit" where
  "check_wire_type expected actual = (if expected \<noteq> actual then Inl UnexpectedWireType else Inr ())"

definition encode_tag :: "u32 \<Rightarrow> wire_type \<Rightarrow> bytes" where
  "encode_tag number wire_type = put_varint32 (push_bit WireTypeBits number OR wire_type_code wire_type)"

definition decode_tag :: "bytes \<Rightarrow> decode_error + (u32 \<times> wire_type) \<times> bytes" where
  "decode_tag buf =
     bind_err (get_varint32 buf) (\<lambda>(tag, buf).
     bind_err (try_from_tag tag) (\<lambda>(wire_type, number).
       if number \<noteq> 0 then Inr ((number, wire_type), buf) else Inl InvalidFieldNumber))"

definition tag_len :: "u32 \<Rightarrow> usize" where
  "tag_len number = varint32_len (push_bit WireTypeBits number)"

section \<open>Fixed-width numbers\<close>

definition u64_to_le_bytes :: "u64 \<Rightarrow> bytes" where
  "u64_to_le_bytes w = u32_to_le_bytes (ucast w) @ u32_to_le_bytes (ucast (drop_bit 32 w))"

definition u64_from_le_bytes :: "bytes \<Rightarrow> u64" where
  "u64_from_le_bytes bs = ucast (u32_from_le_bytes (take 4 bs)) OR push_bit 32 (ucast (u32_from_le_bytes (drop 4 bs)))"

definition decode_fixed64 :: "bytes \<Rightarrow> decode_error + u64 \<times> bytes" where
  "decode_fixed64 buf = (if 8 \<le> length buf then Inr (u64_from_le_bytes (take 8 buf), drop 8 buf) else Inl BufferUnderflow)"

definition decode_fixed32 :: "bytes \<Rightarrow> decode_error + u32 \<times> bytes" where
  "decode_fixed32 buf = (if 4 \<le> length buf then Inr (u32_from_le_bytes (take 4 buf), drop 4 buf) else Inl BufferUnderflow)"

section \<open>Schemas and values\<close>

datatype label = Implicit | Optional | Repeated | Packed

datatype ftype = TInt32 | TUint32 | TEnum | TBool | TString | TBytes | TDouble | TFloat | TMsg "decl list"
  and decl = Field u32 label ftype | Oneof "(u32 \<times> ftype) list" | StrMap u32

datatype pval = V32 u32 | VBool bool | VStr bytes | VBytes bytes | V64 u64 | VF32 u32 | VMsg "slot list"
  and slot = SOne pval | SOpt "pval option" | SRep "pval list" | SOneof "(u32 \<times> pval) option" | SMap "(bytes \<times> bytes) list"

fun default_val :: "ftype \<Rightarrow> pval" and default_slot :: "decl \<Rightarrow> slot" where
  "default_val TInt32 = V32 0"
| "default_val TUint32 = V32 0"
| "default_val TEnum = V32 0"
| "default_val TBool = VBool False"
| "default_val TString = VStr []"
| "default_val TBytes = VBytes []"
| "default_val TDouble = V64 0"
| "default_val TFloat = VF32 0"
| "default_val (TMsg ds) = VMsg (map default_slot ds)"
| "default_slot (Field _ Implicit t) = SOne (default_val t)"
| "default_slot (Field _ Optional t) = SOpt None"
| "default_slot (Field _ Repeated t) = SRep []"
| "default_slot (Field _ Packed t) = SRep []"
| "default_slot (Oneof alts) = SOneof None"
| "default_slot (StrMap _) = SMap []"

text \<open>A float is compared with 0.0, to which -0.0 is equal.\<close>

fun is_default :: "pval \<Rightarrow> bool" where
  "is_default (V32 w) \<longleftrightarrow> w = 0"
| "is_default (VBool b) \<longleftrightarrow> \<not> b"
| "is_default (VStr s) \<longleftrightarrow> s = []"
| "is_default (VBytes s) \<longleftrightarrow> s = []"
| "is_default (V64 w) \<longleftrightarrow> w = 0 \<or> w = 0x8000000000000000"
| "is_default (VF32 w) \<longleftrightarrow> w = 0 \<or> w = 0x80000000"
| "is_default (VMsg _) \<longleftrightarrow> False"

section \<open>Encoding\<close>

text \<open>The number alone, as in a packed field.\<close>

fun encode_number :: "pval \<Rightarrow> bytes" where
  "encode_number (V32 w) = put_varint32 w"
| "encode_number (VBool b) = encode_varint_bool b"
| "encode_number (V64 w) = u64_to_le_bytes w"
| "encode_number (VF32 w) = u32_to_le_bytes w"
| "encode_number _ = []"

fun number_len :: "pval \<Rightarrow> usize" where
  "number_len (V32 w) = varint32_len w"
| "number_len (VBool b) = 1"
| "number_len (V64 w) = 8"
| "number_len (VF32 w) = 4"
| "number_len _ = 0"

definition string_encode :: "u32 \<Rightarrow> bytes \<Rightarrow> bytes" where
  "string_encode n s = encode_tag n LengthDelimited @ put_varint (length s) @ s"

definition string_encoded_len :: "u32 \<Rightarrow> bytes \<Rightarrow> usize" where
  "string_encoded_len n s = tag_len n + varint_len (length s) + length s"

text \<open>An entry of a map: a message with the key as field 1 and the value as field 2, without those that are empty.\<close>

definition map_entry_len :: "bytes \<times> bytes \<Rightarrow> usize" where
  "map_entry_len kv =
     (if fst kv = [] then 0 else string_encoded_len 1 (fst kv)) + (if snd kv = [] then 0 else string_encoded_len 2 (snd kv))"

definition map_entry_encode :: "u32 \<Rightarrow> bytes \<times> bytes \<Rightarrow> bytes" where
  "map_entry_encode n kv =
     encode_tag n LengthDelimited @ put_varint (map_entry_len kv) @
     (if fst kv = [] then [] else string_encode 1 (fst kv)) @ (if snd kv = [] then [] else string_encode 2 (snd kv))"

text \<open>A packed field, on the path of buffers that are not vectors, which is the one of \<open>encode_message_framed\<close>; \<open>packed_encode_vec\<close> of
  \<open>Prost_Vec\<close> is the other one.\<close>

definition packed_encode :: "u32 \<Rightarrow> pval list \<Rightarrow> bytes" where
  "packed_encode n vs =
     (if vs = [] then []
      else encode_tag n LengthDelimited @ put_varint (sum_list (map number_len vs)) @ concat (map encode_number vs))"

definition packed_len :: "u32 \<Rightarrow> pval list \<Rightarrow> usize" where
  "packed_len n vs = (if vs = [] then 0 else let len = sum_list (map number_len vs) in tag_len n + varint_len len + len)"

fun encoded_len_val :: "u32 \<Rightarrow> ftype \<Rightarrow> pval \<Rightarrow> usize"
  and encoded_len_slot :: "decl \<Rightarrow> slot \<Rightarrow> usize"
  and message_len :: "decl list \<Rightarrow> slot list \<Rightarrow> usize" where
  "encoded_len_val n (TMsg ds) (VMsg ss) = (let len = message_len ds ss in tag_len n + varint_len len + len)"
| "encoded_len_val n t (VStr s) = string_encoded_len n s"
| "encoded_len_val n t (VBytes s) = string_encoded_len n s"
| "encoded_len_val n t v = tag_len n + number_len v"
| "encoded_len_slot (Field n Implicit t) (SOne v) = (if is_default v then 0 else encoded_len_val n t v)"
| "encoded_len_slot (Field n Optional t) (SOpt ov) = (case ov of None \<Rightarrow> 0 | Some v \<Rightarrow> encoded_len_val n t v)"
| "encoded_len_slot (Field n Repeated t) (SRep vs) = sum_list (map (encoded_len_val n t) vs)"
| "encoded_len_slot (Field n Packed t) (SRep vs) = packed_len n vs"
| "encoded_len_slot (Oneof alts) (SOneof ov) =
     (case ov of None \<Rightarrow> 0 | Some (n, v) \<Rightarrow> (case map_of alts n of None \<Rightarrow> 0 | Some t \<Rightarrow> encoded_len_val n t v))"
| "encoded_len_slot (StrMap n) (SMap kvs) =
     tag_len n * length kvs + sum_list (map (\<lambda>kv. varint_len (map_entry_len kv) + map_entry_len kv) kvs)"
| "encoded_len_slot _ _ = 0"
| "message_len (d # ds) (s # ss) = encoded_len_slot d s + message_len ds ss"
| "message_len _ _ = 0"

fun encode_val :: "u32 \<Rightarrow> ftype \<Rightarrow> pval \<Rightarrow> bytes"
  and encode_slot :: "decl \<Rightarrow> slot \<Rightarrow> bytes"
  and encode_raw :: "decl list \<Rightarrow> slot list \<Rightarrow> bytes" where
  "encode_val n (TMsg ds) (VMsg ss) = encode_tag n LengthDelimited @ put_varint (message_len ds ss) @ encode_raw ds ss"
| "encode_val n t (VStr s) = string_encode n s"
| "encode_val n t (VBytes s) = string_encode n s"
| "encode_val n t (V64 w) = encode_tag n SixtyFourBit @ u64_to_le_bytes w"
| "encode_val n t (VF32 w) = encode_tag n ThirtyTwoBit @ u32_to_le_bytes w"
| "encode_val n t v = encode_tag n WVarint @ encode_number v"
| "encode_slot (Field n Implicit t) (SOne v) = (if is_default v then [] else encode_val n t v)"
| "encode_slot (Field n Optional t) (SOpt ov) = (case ov of None \<Rightarrow> [] | Some v \<Rightarrow> encode_val n t v)"
| "encode_slot (Field n Repeated t) (SRep vs) = concat (map (encode_val n t) vs)"
| "encode_slot (Field n Packed t) (SRep vs) = packed_encode n vs"
| "encode_slot (Oneof alts) (SOneof ov) =
     (case ov of None \<Rightarrow> [] | Some (n, v) \<Rightarrow> (case map_of alts n of None \<Rightarrow> [] | Some t \<Rightarrow> encode_val n t v))"
| "encode_slot (StrMap n) (SMap kvs) = concat (map (map_entry_encode n) kvs)"
| "encode_slot _ _ = []"
| "encode_raw (d # ds) (s # ss) = encode_slot d s @ encode_raw ds ss"
| "encode_raw _ _ = []"

section \<open>Decoding\<close>

text \<open>\<open>merge_loop\<close>: a length, then fields until that many bytes are read.  \<open>body\<close> gets the number of bytes that remain after it.\<close>

definition merge_loop :: "bytes \<Rightarrow> (usize \<Rightarrow> bytes \<Rightarrow> decode_error + 'a \<times> bytes) \<Rightarrow> decode_error + 'a \<times> bytes" where
  "merge_loop buf body =
     bind_err (get_varint buf) (\<lambda>(len, buf).
       if len > length buf then Inl BufferUnderflow
       else let limit = length buf - len
       in bind_err (body limit buf) (\<lambda>(r, buf).
            if length buf \<noteq> limit then Inl DelimitedLengthExceeded else Inr (r, buf)))"

text \<open>\<open>skip_field\<close> and its loop over the fields of a group.  Every round of the loop reads a tag, so that more fuel than there are
  bytes is enough (\<open>message_decode_ends\<close>).\<close>

fun skip_field :: "nat \<Rightarrow> nat \<Rightarrow> wire_type \<Rightarrow> u32 \<Rightarrow> bytes \<Rightarrow> decode_error + bytes"
  and skip_group :: "nat \<Rightarrow> nat \<Rightarrow> u32 \<Rightarrow> bytes \<Rightarrow> decode_error + bytes" where
  "skip_field fuel ctx wire_type number buf =
     (if ctx = 0 then Inl RecursionLimitReached
      else bind_err
        (case wire_type of
           WVarint \<Rightarrow> bind_err (get_varint buf) (\<lambda>(_, buf). Inr (0, buf))
         | ThirtyTwoBit \<Rightarrow> Inr (4, buf)
         | SixtyFourBit \<Rightarrow> Inr (8, buf)
         | LengthDelimited \<Rightarrow> get_varint buf
         | StartGroup \<Rightarrow> bind_err (skip_group fuel ctx number buf) (\<lambda>buf. Inr (0, buf))
         | EndGroup \<Rightarrow> Inl UnexpectedEndGroupTag)
        (\<lambda>(len, buf). if len > length buf then Inl BufferUnderflow else Inr (drop len buf)))"
| "skip_group 0 ctx number buf = Inl OutOfFuel"
| "skip_group (Suc fuel) ctx number buf =
     bind_err (decode_tag buf) (\<lambda>((inner_number, inner_wire_type), buf).
       if inner_wire_type = EndGroup
       then if inner_number \<noteq> number then Inl UnexpectedEndGroupTag else Inr buf
       else bind_err (skip_field fuel (ctx - 1) inner_wire_type inner_number buf) (\<lambda>buf. skip_group fuel ctx number buf))"

definition bytes_merge :: "wire_type \<Rightarrow> bytes \<Rightarrow> decode_error + bytes \<times> bytes" where
  "bytes_merge wire_type buf =
     bind_err (check_wire_type LengthDelimited wire_type) (\<lambda>_.
     bind_err (get_varint buf) (\<lambda>(len, buf).
       if len > length buf then Inl BufferUnderflow else Inr (take len buf, drop len buf)))"

definition string_merge :: "wire_type \<Rightarrow> bytes \<Rightarrow> decode_error + bytes \<times> bytes" where
  "string_merge wire_type buf =
     bind_err (bytes_merge wire_type buf) (\<lambda>(s, buf).
       if is_valid_utf8 0 s = Done True then Inr (s, buf) else Inl InvalidString)"

text \<open>A number alone, and its wire type.\<close>

fun number_wire_type :: "ftype \<Rightarrow> wire_type" where
  "number_wire_type TDouble = SixtyFourBit"
| "number_wire_type TFloat = ThirtyTwoBit"
| "number_wire_type _ = WVarint"

fun merge_number :: "ftype \<Rightarrow> bytes \<Rightarrow> decode_error + pval \<times> bytes" where
  "merge_number TBool buf =
     (case decode_varint_bool buf of None \<Rightarrow> Inl InvalidVarint | Some (b, buf) \<Rightarrow> Inr (VBool b, buf))"
| "merge_number TDouble buf = bind_err (decode_fixed64 buf) (\<lambda>(w, buf). Inr (V64 w, buf))"
| "merge_number TFloat buf = bind_err (decode_fixed32 buf) (\<lambda>(w, buf). Inr (VF32 w, buf))"
| "merge_number _ buf = bind_err (get_varint32 buf) (\<lambda>(w, buf). Inr (V32 w, buf))"

text \<open>The loops over a packed field and over an entry of a map.\<close>

fun packed_loop :: "nat \<Rightarrow> ftype \<Rightarrow> pval list \<Rightarrow> usize \<Rightarrow> bytes \<Rightarrow> decode_error + pval list \<times> bytes" where
  "packed_loop fuel t vs limit buf =
     (if length buf > limit
      then case fuel of
             0 \<Rightarrow> Inl OutOfFuel
           | Suc fuel \<Rightarrow> bind_err (merge_number t buf) (\<lambda>(v, buf). packed_loop fuel t (vs @ [v]) limit buf)
      else Inr (vs, buf))"

fun entry_loop :: "nat \<Rightarrow> nat \<Rightarrow> bytes \<times> bytes \<Rightarrow> usize \<Rightarrow> bytes \<Rightarrow> decode_error + (bytes \<times> bytes) \<times> bytes" where
  "entry_loop fuel ctx kv limit buf =
     (if length buf > limit
      then case fuel of
             0 \<Rightarrow> Inl OutOfFuel
           | Suc fuel \<Rightarrow>
               bind_err (decode_tag buf) (\<lambda>((number, wire_type), buf).
               bind_err (if number = 1 then bind_err (string_merge wire_type buf) (\<lambda>(k, buf). Inr ((k, snd kv), buf))
                         else if number = 2 then bind_err (string_merge wire_type buf) (\<lambda>(v, buf). Inr ((fst kv, v), buf))
                         else bind_err (skip_field (Suc (length buf)) ctx wire_type number buf) (\<lambda>buf. Inr (kv, buf)))
                 (\<lambda>(kv, buf). entry_loop fuel ctx kv limit buf))
      else Inr (kv, buf))"

text \<open>\<open>HashMap::insert\<close>, for a map as a list of entries with distinct keys.\<close>

definition map_insert :: "bytes \<times> bytes \<Rightarrow> (bytes \<times> bytes) list \<Rightarrow> (bytes \<times> bytes) list" where
  "map_insert kv kvs =
     (if fst kv \<in> fst ` set kvs then map (\<lambda>e. if fst e = fst kv then kv else e) kvs else kvs @ [kv])"

definition map_merge :: "nat \<Rightarrow> (bytes \<times> bytes) list \<Rightarrow> bytes \<Rightarrow> decode_error + (bytes \<times> bytes) list \<times> bytes" where
  "map_merge ctx kvs buf =
     (if ctx = 0 then Inl RecursionLimitReached
      else bind_err (merge_loop buf (\<lambda>limit buf. entry_loop (length buf) (ctx - 1) ([], []) limit buf)) (\<lambda>(kv, buf).
             Inr (map_insert kv kvs, buf)))"

text \<open>Fields of messages; \<open>rec\<close> is the loop over the fields of a nested message.\<close>

type_synonym field_loop = "nat \<Rightarrow> decl list \<Rightarrow> slot list \<Rightarrow> usize \<Rightarrow> bytes \<Rightarrow> decode_error + slot list \<times> bytes"

definition message_merge :: "field_loop \<Rightarrow> nat \<Rightarrow> decl list \<Rightarrow> slot list \<Rightarrow> wire_type \<Rightarrow> bytes \<Rightarrow> decode_error + slot list \<times> bytes" where
  "message_merge rec ctx ds ss wire_type buf =
     bind_err (check_wire_type LengthDelimited wire_type) (\<lambda>_.
       if ctx = 0 then Inl RecursionLimitReached else merge_loop buf (\<lambda>limit buf. rec (ctx - 1) ds ss limit buf))"

fun merge_val :: "field_loop \<Rightarrow> nat \<Rightarrow> ftype \<Rightarrow> pval \<Rightarrow> wire_type \<Rightarrow> bytes \<Rightarrow> decode_error + pval \<times> bytes" where
  "merge_val rec ctx (TMsg ds) v wire_type buf =
     (case v of VMsg ss \<Rightarrow> bind_err (message_merge rec ctx ds ss wire_type buf) (\<lambda>(ss, buf). Inr (VMsg ss, buf)) | _ \<Rightarrow> Inr (v, buf))"
| "merge_val rec ctx TString v wire_type buf = bind_err (string_merge wire_type buf) (\<lambda>(s, buf). Inr (VStr s, buf))"
| "merge_val rec ctx TBytes v wire_type buf = bind_err (bytes_merge wire_type buf) (\<lambda>(s, buf). Inr (VBytes s, buf))"
| "merge_val rec ctx t v wire_type buf = bind_err (check_wire_type (number_wire_type t) wire_type) (\<lambda>_. merge_number t buf)"

fun merge_slot :: "field_loop \<Rightarrow> nat \<Rightarrow> decl \<Rightarrow> slot \<Rightarrow> u32 \<Rightarrow> wire_type \<Rightarrow> bytes \<Rightarrow> decode_error + slot \<times> bytes" where
  "merge_slot rec ctx (Field n Implicit t) (SOne v) number wire_type buf =
     bind_err (merge_val rec ctx t v wire_type buf) (\<lambda>(v, buf). Inr (SOne v, buf))"
| "merge_slot rec ctx (Field n Optional t) (SOpt ov) number wire_type buf =
     bind_err (merge_val rec ctx t (case ov of Some v \<Rightarrow> v | None \<Rightarrow> default_val t) wire_type buf) (\<lambda>(v, buf). Inr (SOpt (Some v), buf))"
| "merge_slot rec ctx (Field n Repeated t) (SRep vs) number wire_type buf =
     bind_err (merge_val rec ctx t (default_val t) wire_type buf) (\<lambda>(v, buf). Inr (SRep (vs @ [v]), buf))"
| "merge_slot rec ctx (Field n Packed t) (SRep vs) number wire_type buf =
     (if wire_type = LengthDelimited
      then bind_err (merge_loop buf (\<lambda>limit buf. packed_loop (length buf) t vs limit buf)) (\<lambda>(vs, buf). Inr (SRep vs, buf))
      else bind_err (check_wire_type (number_wire_type t) wire_type) (\<lambda>_.
           bind_err (merge_number t buf) (\<lambda>(v, buf). Inr (SRep (vs @ [v]), buf))))"
| "merge_slot rec ctx (Oneof alts) (SOneof ov) number wire_type buf =
     (case map_of alts number of
        None \<Rightarrow> Inr (SOneof ov, buf)
      | Some t \<Rightarrow>
          bind_err (merge_val rec ctx t (case ov of Some (m, v) \<Rightarrow> if m = number then v else default_val t | None \<Rightarrow> default_val t)
                      wire_type buf) (\<lambda>(v, buf). Inr (SOneof (Some (number, v)), buf)))"
| "merge_slot rec ctx (StrMap n) (SMap kvs) number wire_type buf =
     bind_err (map_merge ctx kvs buf) (\<lambda>(kvs, buf). Inr (SMap kvs, buf))"
| "merge_slot rec ctx d s number wire_type buf = Inr (s, buf)"

fun decl_numbers :: "decl \<Rightarrow> u32 list" where
  "decl_numbers (Field n _ _) = [n]"
| "decl_numbers (Oneof alts) = map fst alts"
| "decl_numbers (StrMap n) = [n]"

text \<open>\<open>merge_field\<close>: the arm of the field number, or \<open>skip_field\<close>.\<close>

fun merge_field :: "field_loop \<Rightarrow> nat \<Rightarrow> decl list \<Rightarrow> slot list \<Rightarrow> u32 \<Rightarrow> wire_type \<Rightarrow> bytes \<Rightarrow> decode_error + slot list \<times> bytes" where
  "merge_field rec ctx (d # ds) (s # ss) number wire_type buf =
     (if number \<in> set (decl_numbers d)
      then bind_err (merge_slot rec ctx d s number wire_type buf) (\<lambda>(s, buf). Inr (s # ss, buf))
      else bind_err (merge_field rec ctx ds ss number wire_type buf) (\<lambda>(ss, buf). Inr (s # ss, buf)))"
| "merge_field rec ctx ds ss number wire_type buf =
     bind_err (skip_field (Suc (length buf)) ctx wire_type number buf) (\<lambda>buf. Inr (ss, buf))"

text \<open>The loop over the fields of a message.  Every round reads a tag, so that as much fuel as there are bytes is enough
  (\<open>message_decode_ends\<close>).\<close>

primrec merge_fields :: "nat \<Rightarrow> field_loop" where
  "merge_fields 0 ctx ds ss limit buf = (if length buf > limit then Inl OutOfFuel else Inr (ss, buf))"
| "merge_fields (Suc fuel) ctx ds ss limit buf =
     (if length buf > limit
      then bind_err (decode_tag buf) (\<lambda>((number, wire_type), buf).
           bind_err (merge_field (merge_fields fuel) ctx ds ss number wire_type buf) (\<lambda>(ss, buf).
             merge_fields fuel ctx ds ss limit buf))
      else Inr (ss, buf))"

definition RECURSION_LIMIT :: nat where
  "RECURSION_LIMIT = 100"

definition message_decode :: "decl list \<Rightarrow> bytes \<Rightarrow> decode_error + slot list" where
  "message_decode ds buf =
     bind_err (merge_fields (length buf) RECURSION_LIMIT ds (map default_slot ds) 0 buf) (\<lambda>(ss, _). Inr ss)"

section \<open>Integers and tags\<close>

lemma put_varint32_eq: "put_varint32 v = leb128 (unat v)"
  by (simp add: put_varint32_def encode_varint32_eq)

lemma put_varint_eq: "put_varint n = leb128 (unat (of_nat n :: u64))"
  by (simp add: put_varint_def encode_varint64_eq del: unsigned_of_nat)

lemma leb128_length: "\<exists>c. length (leb128 n @ rest) = Suc c"
  using leb_len_pos [of n] by (cases "leb_len n") simp_all

lemma get_put_varint32: "v < 0x50000000 \<Longrightarrow> get_varint32 (put_varint32 v @ rest) = Inr (v, rest)"
  using leb128_length [of "unat v" rest] by (auto simp: get_varint32_def put_varint32_eq decode_varint32_leb)

lemma get_put_varint: "n < 2 ^ 64 \<Longrightarrow> get_varint (put_varint n @ rest) = Inr (n, rest)"
proof -
  assume n: "n < 2 ^ 64"
  obtain c where c: "length (put_varint n @ rest) = Suc c" using leb128_length unfolding put_varint_eq by blast
  have "decode_varint64 (Suc c) (put_varint n @ rest) = Done (Some (of_nat n, rest))" unfolding put_varint_eq by (rule decode_varint64_leb)
  then show ?thesis using n unfolding get_varint_def c by (simp add: unat_of_nat take_bit_nat_eq_self)
qed

lemma length_put_varint: "length (put_varint n) = varint_len n"
  by (simp add: put_varint_eq varint_len_def encoded_len_varint64_eq del: unsigned_of_nat)

lemma length_put_varint32: "length (put_varint32 v) = varint32_len v"
  by (simp add: put_varint32_eq varint32_len_def encoded_len_varint32_eq)

text \<open>The code of a wire type takes the three bits below the field number.\<close>

fun wire_code_nat :: "wire_type \<Rightarrow> nat" where
  "wire_code_nat WVarint = 0"
| "wire_code_nat SixtyFourBit = 1"
| "wire_code_nat LengthDelimited = 2"
| "wire_code_nat StartGroup = 3"
| "wire_code_nat EndGroup = 4"
| "wire_code_nat ThirtyTwoBit = 5"

lemma wire_code_of_nat: "wire_type_code wt = of_nat (wire_code_nat wt)" "wire_code_nat wt < 8"
  by (cases wt; simp)+

lemma tag_value:
  assumes "unat n < 2 ^ 29"
  shows "unat (push_bit WireTypeBits n OR wire_type_code wt) = 8 * unat n + wire_code_nat wt"
proof -
  have small: "\<not> bit (wire_code_nat wt) m" if "3 \<le> m" for m
  proof -
    have "(2 :: nat) ^ 3 \<le> 2 ^ m" using that by (intro power_increasing) simp_all
    then have "wire_code_nat wt < 2 ^ m" using wire_code_of_nat(2) [of wt] by simp
    then show ?thesis by (simp add: bit_iff_odd)
  qed
  have "push_bit 3 n OR wire_type_code wt = push_bit 3 n + wire_type_code wt"
  proof (rule disjunctive_add [symmetric])
    fix m
    show "\<not> bit (push_bit 3 n) m \<or> \<not> bit (wire_type_code wt) m"
      using small [of m] unfolding wire_code_of_nat(1) by (cases "3 \<le> m") (simp_all only: bit_push_bit_iff bit_of_nat_iff, auto)
  qed
  then have "push_bit 3 n OR wire_type_code wt = of_nat (8 * unat n + wire_code_nat wt)"
    by (simp add: push_bit_eq_mult wire_code_of_nat(1) mult.commute)
  moreover have "8 * unat n + wire_code_nat wt < 2 ^ 32" using assms wire_code_of_nat(2) [of wt] by simp
  ultimately show ?thesis unfolding WireTypeBits_def by (simp add: unat_of_nat take_bit_nat_eq_self del: of_nat_add of_nat_mult)
qed

text \<open>The mask keeps two of the three bits of the wire type.\<close>

fun masked_type :: "wire_type \<Rightarrow> wire_type" where
  "masked_type EndGroup = WVarint"
| "masked_type ThirtyTwoBit = SixtyFourBit"
| "masked_type wt = wt"

lemma word_of_unat: "unat w = k \<Longrightarrow> w = of_nat k"
  by auto

lemma low_two_bits: "unat (t AND WireTypeMask) = unat t mod 4"
proof -
  have "t AND WireTypeMask = take_bit 2 t" by (simp add: WireTypeMask_def take_bit_eq_mask mask_eq_exp_minus_1)
  then show ?thesis by (simp add: take_bit_eq_mod unat_mod_distrib)
qed

lemma high_bits: "unat (drop_bit WireTypeBits t) = unat (t :: u32) div 8"
  by (simp add: WireTypeBits_def drop_bit_eq_div unat_div_distrib)

lemma try_from_tag_value:
  assumes "unat n < 2 ^ 29"
  shows "try_from_tag (push_bit WireTypeBits n OR wire_type_code wt) = Inr (masked_type wt, n)"
proof -
  let ?t = "push_bit WireTypeBits n OR wire_type_code wt"
  have t: "unat ?t = 8 * unat n + wire_code_nat wt" by (rule tag_value [OF assms])
  have "unat (?t AND WireTypeMask) = unat ?t mod 4" by (rule low_two_bits)
  then have "unat (?t AND WireTypeMask) = wire_code_nat wt mod 4" unfolding t using mod_mult_self3 [of "2 * unat n" 4] by simp
  then have m: "?t AND WireTypeMask = of_nat (wire_code_nat wt mod 4)" by (rule word_of_unat)
  have "unat (drop_bit WireTypeBits ?t) = unat n" unfolding high_bits t using wire_code_of_nat(2) [of wt] by simp
  then have d: "drop_bit WireTypeBits ?t = n" by (simp only: word_unat_eq_iff)
  show ?thesis unfolding try_from_tag_def m d by (cases wt) (simp_all add: wire_type_try_from_def)
qed

lemma decode_encode_tag:
  assumes "0 < n" "unat n < 0x0A000000"
  shows "decode_tag (encode_tag n wt @ rest) = Inr ((n, masked_type wt), rest)"
proof -
  have n: "unat n < 2 ^ 29" using assms(2) by simp
  let ?t = "push_bit WireTypeBits n OR wire_type_code wt"
  have "unat ?t < 0x50000000" using tag_value [OF n, of wt] assms(2) wire_code_of_nat(2) [of wt] by linarith
  then have "?t < 0x50000000" by (simp add: word_less_nat_alt)
  then have "get_varint32 (encode_tag n wt @ rest) = Inr (?t, rest)" unfolding encode_tag_def by (rule get_put_varint32)
  then show ?thesis using assms(1) unfolding decode_tag_def by (simp add: try_from_tag_value [OF n] word_gt_0)
qed

lemma tag_value_zero: "unat (n :: u32) < 2 ^ 29 \<Longrightarrow> unat (push_bit WireTypeBits n) = 8 * unat n"
  using tag_value [of n WVarint] by simp

lemma length_encode_tag:
  assumes "unat n < 2 ^ 29"
  shows "length (encode_tag n wt) = tag_len n"
proof -
  have "leb_len (8 * unat n + wire_code_nat wt) = leb_len (8 * unat n)"
    using wire_code_of_nat(2) [of wt] by (subst (1 2) leb_len.simps) (auto simp: div_mult2_eq [of _ 8 16, simplified])
  then show ?thesis
    by (simp add: encode_tag_def tag_len_def put_varint32_eq varint32_len_def encoded_len_varint32_eq tag_value [OF assms] tag_value_zero [OF assms])
qed

end
