(* ===== verification/Prost_Lengths.thy ===== *)
theory Prost_Lengths
  imports Prost_Message
begin

text \<open>
  What holds of every message and every buffer: the length that is computed ahead of encoding is the length that is written, and
  decoding ends on every input.
\<close>

section \<open>The length of an encoded message\<close>

lemma push_bit_high: "push_bit WireTypeBits (take_bit 29 n) = push_bit WireTypeBits (n :: u32)"
  unfolding WireTypeBits_def by (rule bit_word_eqI) (auto simp only: bit_push_bit_iff bit_take_bit_iff size_word.rep_eq, auto)

lemma length_tag: "length (encode_tag n wt) = tag_len n"
proof -
  have "unat (take_bit 29 n) < 2 ^ 29" by (simp add: take_bit_eq_mod unat_mod_distrib)
  then have "length (encode_tag (take_bit 29 n) wt) = tag_len (take_bit 29 n)" by (rule length_encode_tag)
  then show ?thesis unfolding encode_tag_def tag_len_def push_bit_high .
qed

lemma length_number: "length (encode_number v) = number_len v"
  by (cases v) (simp_all add: length_put_varint32 encode_varint_bool_def u64_to_le_bytes_def)

lemma length_string: "length (string_encode n s) = string_encoded_len n s"
  by (simp add: string_encode_def string_encoded_len_def length_tag length_put_varint)

lemma length_entry: "length (map_entry_encode n kv) = tag_len n + (varint_len (map_entry_len kv) + map_entry_len kv)"
  by (auto simp: map_entry_encode_def map_entry_len_def length_tag length_put_varint length_string)

lemma length_numbers: "length (concat (map encode_number vs)) = sum_list (map number_len vs)"
  by (simp add: length_concat o_def length_number)

lemma length_packed: "length (packed_encode n vs) = packed_len n vs"
  using length_numbers [of vs] by (simp add: packed_encode_def packed_len_def Let_def length_tag length_put_varint)

lemma length_entries:
  "length (concat (map (map_entry_encode n) kvs)) = tag_len n * length kvs + sum_list (map (\<lambda>kv. varint_len (map_entry_len kv) + map_entry_len kv) kvs)"
  by (induction kvs) (simp_all add: length_entry)

lemmas lengths = length_tag length_put_varint length_put_varint32 length_string length_number length_packed length_entries [unfolded length_concat map_map o_def]

lemma length_encoded:
  "length (encode_val n t v) = encoded_len_val n t v"
  "length (encode_slot d s) = encoded_len_slot d s"
  "length (encode_raw ds ss) = message_len ds ss"
  by (induction n t v and d s and ds ss rule: encode_val_encode_slot_encode_raw.induct)
    (simp_all add: lengths length_concat o_def Let_def u64_to_le_bytes_def encode_varint_bool_def cong: map_cong split: option.splits prod.splits)

text \<open>C28: (patch/prost-0.14.1/src/encoding.rs and fixed_width.rs, encoded_len, encoded_len_repeated, encoded_len_packed, tag_len;
  src/core/aiserver/v1/lite.rs, encoded_len): for every message of every schema, the length that encoded_len computes without
  encoding, and that is written in front of nested messages and used to size the buffer, is exactly the number of bytes that
  encode_raw writes.\<close>

theorem encoded_len_exact: "message_len ds ss = length (encode_raw ds ss)"
  by (rule length_encoded(3) [symmetric])

section \<open>Decoding ends\<close>

text \<open>The result is not for want of fuel, and \<open>k\<close> bytes at least were read.\<close>

definition reads :: "nat \<Rightarrow> bytes \<Rightarrow> decode_error + 'a \<times> bytes \<Rightarrow> bool" where
  "reads k buf r \<longleftrightarrow> (case r of Inl e \<Rightarrow> e \<noteq> OutOfFuel | Inr p \<Rightarrow> length (snd p) + k \<le> length buf)"

definition skips :: "bytes \<Rightarrow> decode_error + bytes \<Rightarrow> bool" where
  "skips buf r \<longleftrightarrow> (case r of Inl e \<Rightarrow> e \<noteq> OutOfFuel | Inr rest \<Rightarrow> length rest \<le> length buf)"

lemma reads_simps [simp]:
  "reads k buf (Inl e) \<longleftrightarrow> e \<noteq> OutOfFuel" "reads k buf (Inr (x, rest)) \<longleftrightarrow> length rest + k \<le> length buf"
  "skips buf (Inl e) \<longleftrightarrow> e \<noteq> OutOfFuel" "skips buf (Inr rest) \<longleftrightarrow> length rest \<le> length buf"
  by (simp_all add: reads_def skips_def)

lemma reads_bind:
  assumes "reads k buf r" "\<And>x rest. length rest + k \<le> length buf \<Longrightarrow> reads 0 rest (f (x, rest))"
  shows "reads k buf (bind_err r f)"
proof (cases r)
  case (Inr p)
  obtain x rest where p: "p = (x, rest)" by (cases p)
  have "length rest + k \<le> length buf" using assms(1) Inr p by simp
  then have "reads 0 rest (f p)" "length rest + k \<le> length buf" using assms(2) p by auto
  then show ?thesis using Inr by (auto simp: reads_def split: sum.splits)
qed (use assms in simp)

lemma reads_less: "reads k buf r \<Longrightarrow> j \<le> k \<Longrightarrow> reads j buf r"
  by (auto simp: reads_def split: sum.splits)

lemma reads_then: "reads 0 b r \<Longrightarrow> length b + k \<le> length buf \<Longrightarrow> reads k buf r"
  by (auto simp: reads_def split: sum.splits)

lemma slow_loop_shorter: "decode_slow_loop max_len last_ok buf i v = Some (w, rest) \<Longrightarrow> length rest < length buf"
proof (induction max_len last_ok buf i v rule: decode_slow_loop.induct)
  case (1 max_len last_ok buf i v)
  from 1(2) show ?case
  proof (subst (asm) decode_slow_loop.simps, cases buf)
    fix b buf'
    assume c: "buf = b # buf'"
    assume "(if i < max_len
      then case buf of [] \<Rightarrow> None
           | byte # buf' \<Rightarrow>
               (let v = v OR push_bit (i * 7) (ucast (byte AND 0x7F))
                in if byte < 0x80
                   then if i = max_len - 1 \<and> \<not> last_ok byte then None else Some (v, buf')
                   else decode_slow_loop max_len last_ok buf' (i + 1) v)
      else None) = Some (w, rest)"
    then show ?thesis using 1(1) [of b buf'] c by (auto simp: Let_def split: if_splits)
  qed (simp split: if_splits)
qed

lemma get_varint32_reads: "reads 1 buf (get_varint32 buf)"
proof -
  have "decode_varint32 (length buf) buf = Done (decode_slow_loop VARINT32_MAX_LEN (\<lambda>byte. \<not> byte > 4) buf 0 0)"
    by (rule decode_varint32_eq) auto
  then show ?thesis using slow_loop_shorter [of VARINT32_MAX_LEN "\<lambda>byte. \<not> byte > 4" buf 0 0]
    by (auto simp: get_varint32_def Suc_le_eq split: option.splits)
qed

lemma get_varint_reads: "reads 1 buf (get_varint buf)"
proof -
  have "decode_varint64 (length buf) buf = Done (decode_slow_loop VARINT64_MAX_LEN (\<lambda>byte. \<not> byte > 1) buf 0 0)"
    by (rule decode_varint64_eq) auto
  then show ?thesis using slow_loop_shorter [of VARINT64_MAX_LEN "\<lambda>byte. \<not> byte > 1" buf 0 0]
    by (auto simp: get_varint_def Suc_le_eq split: option.splits)
qed

lemma decode_tag_reads: "reads 1 buf (decode_tag buf)"
  unfolding decode_tag_def
  by (rule reads_bind [OF get_varint32_reads]) (auto simp: try_from_tag_def split: option.splits)

lemma skips_bind:
  "reads k buf r \<Longrightarrow> (\<And>x rest. length rest + k \<le> length buf \<Longrightarrow> skips rest (f (x, rest))) \<Longrightarrow> skips buf (bind_err r f)"
  by (cases r) (fastforce simp: reads_def skips_def split: sum.splits)+

lemma bind_skips:
  "skips buf r \<Longrightarrow> (\<And>rest. length rest \<le> length buf \<Longrightarrow> reads 0 rest (g rest)) \<Longrightarrow> reads 0 buf (bind_err r g)"
  "skips buf r \<Longrightarrow> (\<And>rest. length rest \<le> length buf \<Longrightarrow> skips rest (h rest)) \<Longrightarrow> skips buf (bind_err r h)"
  by (cases r; fastforce simp: reads_def skips_def split: sum.splits)+

lemma skip_reads:
  "length buf < fuel \<Longrightarrow> skips buf (skip_field fuel ctx wire_type number buf)"
  "length buf < fuel \<Longrightarrow> skips buf (skip_group fuel ctx number buf)"
proof (induction fuel ctx wire_type number buf and fuel ctx number buf rule: skip_field_skip_group.induct)
  case (1 fuel ctx wire_type number buf)
  show ?case
  proof (cases "ctx = 0")
    case False
    have "wire_type = StartGroup \<Longrightarrow> skips buf (skip_group fuel ctx number buf)" using 1 False by simp
    then have "reads 0 buf (case wire_type of
           WVarint \<Rightarrow> bind_err (get_varint buf) (\<lambda>(_, buf). Inr (0, buf))
         | ThirtyTwoBit \<Rightarrow> Inr (4, buf)
         | SixtyFourBit \<Rightarrow> Inr (8, buf)
         | LengthDelimited \<Rightarrow> get_varint buf
         | StartGroup \<Rightarrow> bind_err (skip_group fuel ctx number buf) (\<lambda>buf. Inr (0, buf))
         | EndGroup \<Rightarrow> Inl UnexpectedEndGroupTag)"
      using reads_less [OF get_varint_reads, of 0 buf]
      by (cases wire_type) (auto intro!: bind_skips(1) reads_bind [of 0])
    from skips_bind [OF this] False show ?thesis by simp
  qed simp
next
  case (3 fuel ctx number buf)
  show ?case unfolding skip_group.simps using 3(3)
    by (intro skips_bind [OF decode_tag_reads]) (auto intro!: bind_skips(2) 3(1) [unfolded One_nat_def] 3(2) [of WVarint] simp del: skip_field.simps)
qed simp

section \<open>Fields\<close>

lemma merge_number_reads: "reads 1 buf (merge_number t buf)"
  by (cases t)
    (auto simp: decode_fixed64_def decode_fixed32_def decode_varint_bool_def simp del: One_nat_def
       intro!: reads_bind [OF get_varint32_reads] split: list.splits)

lemma check_reads: "reads k buf r \<Longrightarrow> reads k buf (bind_err (check_wire_type e a) (\<lambda>_. r))"
  by (simp add: check_wire_type_def)

lemma bytes_merge_reads: "reads 1 buf (bytes_merge wt buf)"
  unfolding bytes_merge_def by (intro check_reads reads_bind [OF get_varint_reads]) auto

lemma string_merge_reads: "reads 1 buf (string_merge wt buf)"
  unfolding string_merge_def by (rule reads_bind [OF bytes_merge_reads]) auto

lemma merge_loop_reads:
  "(\<And>limit b. length b < length buf \<Longrightarrow> reads 0 b (body limit b)) \<Longrightarrow> reads 1 buf (merge_loop buf body)"
  unfolding merge_loop_def by (rule reads_bind [OF get_varint_reads]) (auto simp: Let_def intro!: reads_bind [of 0])

lemma packed_loop_reads: "length buf \<le> fuel \<Longrightarrow> reads 0 buf (packed_loop fuel t vs limit buf)"
proof (induction fuel arbitrary: vs buf)
  case (Suc fuel)
  have "reads 0 buf (bind_err (merge_number t buf) (\<lambda>(v, buf). packed_loop fuel t (vs @ [v]) limit buf))"
    using Suc.prems by (intro reads_less [OF reads_bind [OF merge_number_reads]]) (auto intro!: Suc.IH simp del: packed_loop.simps)
  then show ?case by (subst packed_loop.simps) (simp del: packed_loop.simps)
qed simp

lemma entry_loop_reads: "length buf \<le> fuel \<Longrightarrow> reads 0 buf (entry_loop fuel ctx kv limit buf)"
proof (induction fuel arbitrary: kv buf)
  case (Suc fuel)
  let ?arm = "\<lambda>number wire_type buf. if number = 1 then bind_err (string_merge wire_type buf) (\<lambda>(k, buf). Inr ((k, snd kv), buf))
                         else if number = 2 then bind_err (string_merge wire_type buf) (\<lambda>(v, buf). Inr ((fst kv, v), buf))
                         else bind_err (skip_field (Suc (length buf)) ctx wire_type number buf) (\<lambda>buf. Inr (kv, buf))"
  have arm: "reads 0 b (?arm number wt b)" for number wt b
    using reads_less [OF string_merge_reads, of 0] skip_reads(1) [of b "Suc (length b)"]
    by (auto intro!: reads_bind [of 0] bind_skips(1) simp del: skip_field.simps)
  have "reads 1 buf (bind_err (decode_tag buf) (\<lambda>((number, wire_type), buf).
               bind_err (?arm number wire_type buf) (\<lambda>(kv, buf). entry_loop fuel ctx kv limit buf)))"
    using Suc.prems
    by (intro reads_bind [OF decode_tag_reads]) (auto intro!: reads_bind [OF arm] Suc.IH simp del: entry_loop.simps skip_field.simps)
  then show ?case by (subst entry_loop.simps) (simp add: reads_less del: entry_loop.simps skip_field.simps)
qed simp

lemma map_merge_reads: "reads 0 buf (map_merge ctx kvs buf)"
  unfolding map_merge_def
  by (auto intro!: reads_less [OF reads_bind [OF merge_loop_reads]] entry_loop_reads simp del: entry_loop.simps)

lemma message_merge_reads:
  assumes "\<And>ctx ds ss limit b. length b \<le> fuel \<Longrightarrow> reads 0 b (rec ctx ds ss limit b)" "length buf \<le> fuel"
  shows "reads 0 buf (message_merge rec ctx ds ss wt buf)"
  unfolding message_merge_def using assms
  by (intro check_reads) (auto intro!: reads_less [OF merge_loop_reads])

lemma merge_val_reads:
  assumes "\<And>ctx ds ss limit b. length b \<le> fuel \<Longrightarrow> reads 0 b (rec ctx ds ss limit b)" "length buf \<le> fuel"
  shows "reads 0 buf (merge_val rec ctx t v wt buf)"
proof (cases t)
  case (TMsg ds)
  then show ?thesis using assms
    by (cases v) (auto intro!: reads_bind [of 0] message_merge_reads [of fuel])
qed (auto intro!: reads_bind [of 0] check_reads reads_less [OF string_merge_reads] reads_less [OF bytes_merge_reads]
       reads_less [OF merge_number_reads] simp del: merge_number.simps)

lemma merge_slot_reads:
  assumes "\<And>ctx ds ss limit b. length b \<le> fuel \<Longrightarrow> reads 0 b (rec ctx ds ss limit b)" "length buf \<le> fuel"
  shows "reads 0 buf (merge_slot rec ctx d s number wt buf)"
  using merge_val_reads [OF assms]
  by (cases "(rec, ctx, d, s, number, wt, buf)" rule: merge_slot.cases)
    (auto intro!: reads_bind [of 0] check_reads reads_less [OF merge_number_reads] reads_less [OF merge_loop_reads] packed_loop_reads
       map_merge_reads simp del: packed_loop.simps split: option.splits)

lemma merge_field_reads:
  assumes "\<And>ctx ds ss limit b. length b \<le> fuel \<Longrightarrow> reads 0 b (rec ctx ds ss limit b)" "length buf \<le> fuel"
  shows "reads 0 buf (merge_field rec ctx ds ss number wt buf)"
proof -
  have skip: "reads 0 buf (bind_err (skip_field (Suc (length buf)) ctx wt number buf) (\<lambda>buf. Inr (x, buf)))" for x :: "slot list"
    by (rule bind_skips(1) [OF skip_reads(1)]) simp_all
  show ?thesis using assms skip
    by (induction rec ctx ds ss number wt buf rule: merge_field.induct)
      (auto intro!: reads_bind [of 0] merge_slot_reads [of fuel] simp del: skip_field.simps)
qed

lemma merge_fields_reads: "length buf \<le> fuel \<Longrightarrow> reads 0 buf (merge_fields fuel ctx ds ss limit buf)"
proof (induction fuel arbitrary: ctx ds ss limit buf)
  case (Suc fuel)
  have "reads 1 buf (bind_err (decode_tag buf) (\<lambda>((number, wire_type), buf).
           bind_err (merge_field (merge_fields fuel) ctx ds ss number wire_type buf) (\<lambda>(ss, buf).
             merge_fields fuel ctx ds ss limit buf)))"
    using Suc.prems
    by (intro reads_bind [OF decode_tag_reads]) (auto intro!: reads_bind [of 0] Suc.IH merge_field_reads [of fuel])
  then show ?case by (simp add: reads_less)
qed simp

text \<open>C27: (patch/prost-0.14.1/src/encoding.rs, merge_loop and skip_field; message.rs, Message::decode and Message::merge): decoding
  ends on every sequence of bytes and for every schema, because each round of each loop reads at least one byte and the bound on
  the rounds is the length of the input: the model never runs out of the rounds it is given.\<close>

theorem message_decode_ends: "message_decode ds buf \<noteq> Inl OutOfFuel"
  using merge_fields_reads [of buf "length buf" RECURSION_LIMIT ds "map default_slot ds" 0]
  unfolding message_decode_def
  by (cases "merge_fields (length buf) RECURSION_LIMIT ds (map default_slot ds) 0 buf") auto

end
