(* ===== verification/Prost_Roundtrip.thy ===== *)
theory Prost_Roundtrip
  imports Prost_Lengths
begin

text \<open>
  Decoding what was encoded.  \<open>schema_ok\<close> is what the generated code promises of the field numbers, \<open>readable\<close> what the
  decoder asks of the values: the bounds of 32-bit integers (\<open>varint32_limit\<close>) and the mask of the wire
  type (\<open>float_field_unreadable\<close>) are why it is not true of every value.  A field that holds the default of its type is not written,
  so that a single-precision field is no obstacle as long as it is not set; negative zero, which is not written either,
  would come back as zero.
\<close>

fun type_ok :: "ftype \<Rightarrow> bool" and decl_ok :: "decl \<Rightarrow> bool" and schema_ok :: "decl list \<Rightarrow> bool" where
  "type_ok (TMsg ds) \<longleftrightarrow> schema_ok ds"
| "type_ok _ \<longleftrightarrow> True"
| "decl_ok (Field n l t) \<longleftrightarrow> type_ok t"
| "decl_ok (Oneof alts) \<longleftrightarrow> list_all (\<lambda>a. type_ok (snd a)) alts"
| "decl_ok (StrMap n) \<longleftrightarrow> True"
| "schema_ok ds \<longleftrightarrow>
     list_all decl_ok ds \<and> distinct (concat (map decl_numbers ds)) \<and>
     list_all (\<lambda>n. 0 < n \<and> n < 0x0A000000) (concat (map decl_numbers ds))"

definition valid_string :: "bytes \<Rightarrow> bool" where
  "valid_string s \<longleftrightarrow> is_valid_utf8 0 s = Done True \<and> length s < 2 ^ 64"

fun readable :: "nat \<Rightarrow> ftype \<Rightarrow> pval \<Rightarrow> bool"
  and readable_slot :: "nat \<Rightarrow> decl \<Rightarrow> slot \<Rightarrow> bool"
  and readable_slots :: "nat \<Rightarrow> decl list \<Rightarrow> slot list \<Rightarrow> bool" where
  "readable ctx t (V32 w) \<longleftrightarrow> t \<in> {TInt32, TUint32, TEnum} \<and> w < 0x50000000"
| "readable ctx t (VBool b) \<longleftrightarrow> t = TBool"
| "readable ctx t (VStr s) \<longleftrightarrow> t = TString \<and> valid_string s"
| "readable ctx t (VBytes s) \<longleftrightarrow> t = TBytes \<and> length s < 2 ^ 64"
| "readable ctx t (V64 w) \<longleftrightarrow> t = TDouble"
| "readable ctx t (VF32 w) \<longleftrightarrow> False"
| "readable ctx t (VMsg ss) \<longleftrightarrow>
     (case t of TMsg ds \<Rightarrow> 0 < ctx \<and> readable_slots (ctx - 1) ds ss \<and> length (encode_raw ds ss) < 2 ^ 64 | _ \<Rightarrow> False)"
| "readable_slot ctx d (SOne v) \<longleftrightarrow>
     (case d of Field n Implicit t \<Rightarrow> if is_default v then v = default_val t else readable ctx t v | _ \<Rightarrow> False)"
| "readable_slot ctx d (SOpt ov) \<longleftrightarrow>
     (case d of Field n Optional t \<Rightarrow> (case ov of None \<Rightarrow> True | Some v \<Rightarrow> readable ctx t v) | _ \<Rightarrow> False)"
| "readable_slot ctx d (SRep vs) \<longleftrightarrow>
     (case d of
        Field n Repeated t \<Rightarrow> list_all (readable ctx t) vs
      | Field n Packed t \<Rightarrow>
          t \<in> {TInt32, TUint32, TEnum, TBool, TDouble} \<and> list_all (readable ctx t) vs \<and> length (concat (map encode_number vs)) < 2 ^ 64
      | _ \<Rightarrow> False)"
| "readable_slot ctx d (SOneof ov) \<longleftrightarrow>
     (case d of
        Oneof alts \<Rightarrow> (case ov of None \<Rightarrow> True | Some (n, v) \<Rightarrow> (case map_of alts n of None \<Rightarrow> False | Some t \<Rightarrow> readable ctx t v))
      | _ \<Rightarrow> False)"
| "readable_slot ctx d (SMap kvs) \<longleftrightarrow>
     (case d of
        StrMap n \<Rightarrow>
          0 < ctx \<and> distinct (map fst kvs) \<and>
          list_all (\<lambda>kv. valid_string (fst kv) \<and> valid_string (snd kv) \<and> map_entry_len kv < 2 ^ 64) kvs
      | _ \<Rightarrow> False)"
| "readable_slots ctx [] ss \<longleftrightarrow> ss = []"
| "readable_slots ctx (d # ds) ss \<longleftrightarrow> (case ss of [] \<Rightarrow> False | s # ss \<Rightarrow> readable_slot ctx d s \<and> readable_slots ctx ds ss)"

lemma readable_slots_length: "readable_slots ctx ds ss \<Longrightarrow> length ss = length ds"
  by (induction ds arbitrary: ss) (auto split: list.splits)

lemma encode_raw_append: "length ss1 = length ds1 \<Longrightarrow> encode_raw (ds1 @ ds2) (ss1 @ ss2) = encode_raw ds1 ss1 @ encode_raw ds2 ss2"
  by (induction ss1 ds1 rule: list_induct2) simp_all

section \<open>Values\<close>

fun value_wire :: "ftype \<Rightarrow> wire_type" where
  "value_wire (TMsg _) = LengthDelimited"
| "value_wire TString = LengthDelimited"
| "value_wire TBytes = LengthDelimited"
| "value_wire t = number_wire_type t"

fun payload :: "ftype \<Rightarrow> pval \<Rightarrow> bytes" where
  "payload (TMsg ds) (VMsg ss) = put_varint (length (encode_raw ds ss)) @ encode_raw ds ss"
| "payload t (VStr s) = put_varint (length s) @ s"
| "payload t (VBytes s) = put_varint (length s) @ s"
| "payload t v = encode_number v"

lemma encode_val_payload: "readable ctx t v \<Longrightarrow> encode_val n t v = encode_tag n (value_wire t) @ payload t v"
  by (cases t; cases v) (simp_all add: string_encode_def encoded_len_exact)

lemma masked_value_wire: "readable ctx t v \<Longrightarrow> masked_type (value_wire t) = value_wire t"
  by (cases t; cases v) simp_all

lemma u64_le_roundtrip: "u64_from_le_bytes (u64_to_le_bytes w) = w"
proof -
  have "ucast (ucast w :: u32) OR push_bit 32 (ucast (ucast (drop_bit 32 w) :: u32)) = w"
    by (rule bit_word_eqI) (auto simp add: bit_simps)
  then show ?thesis unfolding u64_from_le_bytes_def u64_to_le_bytes_def by simp
qed

lemma merge_number_roundtrip:
  "readable ctx t v \<Longrightarrow> t \<in> {TInt32, TUint32, TEnum, TBool, TDouble} \<Longrightarrow> merge_number t (encode_number v @ rest) = Inr (v, rest)"
  by (cases t; cases v)
    (simp_all add: get_put_varint32 decode_varint_bool_def encode_varint_bool_def decode_fixed64_def u64_le_roundtrip
       length_number [of "V64 _", simplified])

lemma merge_numeric:
  assumes "readable ctx t v" "t \<in> {TInt32, TUint32, TEnum, TBool, TDouble}"
  shows "merge_val rec ctx t w (value_wire t) (payload t v @ rest) = Inr (v, rest)"
proof -
  have "payload t v = encode_number v" "value_wire t = number_wire_type t"
    and "\<And>wt buf. merge_val rec ctx t w wt buf = bind_err (check_wire_type (number_wire_type t) wt) (\<lambda>_. merge_number t buf)"
    using assms by (cases v; auto)+
  then show ?thesis using merge_number_roundtrip [OF assms] by (simp add: check_wire_type_def)
qed

lemma merge_loop_roundtrip:
  assumes "length p < 2 ^ 64" "body (length rest) (p @ rest) = Inr (r, rest)"
  shows "merge_loop (put_varint (length p) @ p @ rest) body = Inr (r, rest)"
  using assms by (simp add: merge_loop_def get_put_varint Let_def)

lemma bytes_merge_roundtrip: "length s < 2 ^ 64 \<Longrightarrow> bytes_merge LengthDelimited (put_varint (length s) @ s @ rest) = Inr (s, rest)"
  by (simp add: bytes_merge_def check_wire_type_def get_put_varint)

lemma string_merge_roundtrip: "valid_string s \<Longrightarrow> string_merge LengthDelimited (put_varint (length s) @ s @ rest) = Inr (s, rest)"
  by (simp add: string_merge_def valid_string_def bytes_merge_roundtrip)

text \<open>Messages with one level of nesting less are read back.\<close>

definition nested :: "nat \<Rightarrow> bool" where
  "nested ctx \<longleftrightarrow>
     (\<forall>ds ss fuel rest. schema_ok ds \<longrightarrow> readable_slots ctx ds ss \<longrightarrow> length (encode_raw ds ss) \<le> fuel \<longrightarrow>
        merge_fields fuel ctx ds (map default_slot ds) (length rest) (encode_raw ds ss @ rest) = Inr (ss, rest))"

lemma merge_val_roundtrip:
  assumes "readable ctx t v" "type_ok t" "0 < ctx \<Longrightarrow> nested (ctx - 1)" "length (payload t v) \<le> fuel"
  shows "merge_val (merge_fields fuel) ctx t (default_val t) (value_wire t) (payload t v @ rest) = Inr (v, rest)"
proof (cases t)
  case (TMsg ds)
  then obtain ss where v: "v = VMsg ss" "0 < ctx" "readable_slots (ctx - 1) ds ss" "length (encode_raw ds ss) < 2 ^ 64"
    using assms(1) by (cases v) auto
  have "merge_fields fuel (ctx - 1) ds (map default_slot ds) (length rest) (encode_raw ds ss @ rest) = Inr (ss, rest)"
    using assms(2-4) v TMsg unfolding nested_def by simp
  then have "merge_loop (put_varint (length (encode_raw ds ss)) @ encode_raw ds ss @ rest)
     (merge_fields fuel (ctx - 1) ds (map default_slot ds)) = Inr (ss, rest)"
    using v(4) by (intro merge_loop_roundtrip)
  then show ?thesis using v TMsg by (simp add: message_merge_def check_wire_type_def)
next
  case TString
  then show ?thesis using assms(1) by (cases v) (simp_all add: string_merge_roundtrip)
next
  case TBytes
  then show ?thesis using assms(1) by (cases v) (simp_all add: bytes_merge_roundtrip)
next
  case TFloat
  then show ?thesis using assms(1) by (cases v) simp_all
qed (use assms(1) merge_numeric [OF assms(1)] in \<open>simp_all\<close>)

section \<open>One field\<close>

lemma tag_nonempty: "0 < length (encode_tag n wt)"
  by (simp add: encode_tag_def put_varint32_eq)

lemma merge_field_at:
  assumes "length ss1 = length ds1" "n \<notin> set (concat (map decl_numbers ds1))" "n \<in> set (decl_numbers d)"
    "merge_slot rec ctx d s n wt buf = Inr (s', rest)"
  shows "merge_field rec ctx (ds1 @ d # ds2) (ss1 @ s # ss2) n wt buf = Inr (ss1 @ s' # ss2, rest)"
  using assms by (induction ss1 ds1 rule: list_induct2) simp_all

text \<open>Where in the message the loop is: the declarations before the one being read, and what is already known of the slots.\<close>

definition at_field :: "decl list \<Rightarrow> decl \<Rightarrow> decl list \<Rightarrow> slot list \<Rightarrow> bool" where
  "at_field ds1 d ds2 ss1 \<longleftrightarrow> schema_ok (ds1 @ d # ds2) \<and> length ss1 = length ds1"

lemma at_field_number:
  assumes "at_field ds1 d ds2 ss1" "n \<in> set (decl_numbers d)"
  shows "length ss1 = length ds1" "n \<notin> set (concat (map decl_numbers ds1))" "0 < n" "unat n < 0x0A000000"
  using assms by (auto simp: at_field_def list_all_iff word_less_nat_alt)

lemma merge_fields_step:
  assumes at: "at_field ds1 d ds2 ss1" "n \<in> set (decl_numbers d)" and wt: "masked_type wt = wt" and "limit \<le> length rest"
    and m: "merge_slot (merge_fields fuel) ctx d s n wt (p @ rest) = Inr (s', rest)"
  shows "merge_fields (Suc fuel) ctx (ds1 @ d # ds2) (ss1 @ s # ss2) limit (encode_tag n wt @ p @ rest) =
    merge_fields fuel ctx (ds1 @ d # ds2) (ss1 @ s' # ss2) limit rest"
proof -
  note n = at_field_number [OF at]
  have "limit < length (encode_tag n wt @ p @ rest)" using assms(4) tag_nonempty [of n wt] unfolding length_append by linarith
  then show ?thesis
    using decode_encode_tag [OF n(3,4), of wt "p @ rest"] wt merge_field_at [OF n(1,2) at(2) m] by simp
qed

text \<open>The loop takes a slot from \<open>s\<close> to \<open>s'\<close> while it reads \<open>bs\<close>.\<close>

definition slot_read :: "nat \<Rightarrow> decl \<Rightarrow> slot \<Rightarrow> bytes \<Rightarrow> slot \<Rightarrow> bool" where
  "slot_read ctx d s bs s' \<longleftrightarrow>
     (\<forall>ds1 ds2 ss1 ss2 limit rest fuel. at_field ds1 d ds2 ss1 \<longrightarrow> limit \<le> length rest \<longrightarrow> length bs \<le> fuel \<longrightarrow>
        (\<exists>fuel'. fuel \<le> fuel' + length bs \<and>
           merge_fields fuel ctx (ds1 @ d # ds2) (ss1 @ s # ss2) limit (bs @ rest) =
           merge_fields fuel' ctx (ds1 @ d # ds2) (ss1 @ s' # ss2) limit rest))"

lemma slot_read_nothing: "slot_read ctx d s [] s"
  by (auto simp: slot_read_def)

lemma slot_read_trans:
  assumes "slot_read ctx d s bs s'" "slot_read ctx d s' bs' s''"
  shows "slot_read ctx d s (bs @ bs') s''"
  unfolding slot_read_def
proof (intro allI impI)
  fix ds1 ds2 ss1 ss2 limit rest fuel
  assume a: "at_field ds1 d ds2 ss1" "limit \<le> length (rest :: bytes)" "length (bs @ bs') \<le> fuel"
  let ?f = "\<lambda>fuel s buf. merge_fields fuel ctx (ds1 @ d # ds2) (ss1 @ s # ss2) limit buf"
  obtain f1 where f1: "fuel \<le> f1 + length bs" "?f fuel s (bs @ bs' @ rest) = ?f f1 s' (bs' @ rest)"
    using assms(1) a unfolding slot_read_def by (metis length_append trans_le_add2 add_leD1)
  then have "length bs' \<le> f1" using a(3) by simp
  then obtain f2 where f2: "f1 \<le> f2 + length bs'" "?f f1 s' (bs' @ rest) = ?f f2 s'' rest"
    using assms(2) a(1,2) unfolding slot_read_def by metis
  show "\<exists>fuel'. fuel \<le> fuel' + length (bs @ bs') \<and> ?f fuel s ((bs @ bs') @ rest) = ?f fuel' s'' rest"
    using f1 f2 by (intro exI [of _ f2]) simp
qed

lemma slot_read_tagged:
  assumes "n \<in> set (decl_numbers d)" "masked_type wt = wt"
    and "\<And>fuel rest. length p \<le> fuel \<Longrightarrow> merge_slot (merge_fields fuel) ctx d s n wt (p @ rest) = Inr (s', rest)"
  shows "slot_read ctx d s (encode_tag n wt @ p) s'"
  unfolding slot_read_def
proof (intro allI impI)
  fix ds1 ds2 ss1 ss2 limit rest fuel
  assume a: "at_field ds1 d ds2 ss1" "limit \<le> length (rest :: bytes)" "length (encode_tag n wt @ p) \<le> fuel"
  have "fuel = Suc (fuel - 1) \<and> length p \<le> fuel - 1" using a(3) tag_nonempty [of n wt] unfolding length_append by linarith
  then obtain f where f: "fuel = Suc f" "length p \<le> f" by blast
  then show "\<exists>fuel'. fuel \<le> fuel' + length (encode_tag n wt @ p) \<and>
           merge_fields fuel ctx (ds1 @ d # ds2) (ss1 @ s # ss2) limit ((encode_tag n wt @ p) @ rest) =
           merge_fields fuel' ctx (ds1 @ d # ds2) (ss1 @ s' # ss2) limit rest"
    using merge_fields_step [OF a(1) assms(1,2) a(2) assms(3) [OF f(2)]] tag_nonempty [of n wt]
    by (intro exI [of _ f]) (auto simp: Suc_le_eq simp del: length_greater_0_conv)
qed

text \<open>The kinds of fields.\<close>

lemma slot_read_value:
  assumes v: "readable ctx t v" "type_ok t" "0 < ctx \<Longrightarrow> nested (ctx - 1)" and n: "n \<in> set (decl_numbers d)"
    and m: "\<And>rec buf rest. merge_val rec ctx t (default_val t) (value_wire t) buf = Inr (v, rest) \<Longrightarrow>
      merge_slot rec ctx d s n (value_wire t) buf = Inr (s', rest)"
  shows "slot_read ctx d s (encode_val n t v) s'"
  unfolding encode_val_payload [OF v(1)]
  by (rule slot_read_tagged [OF n masked_value_wire [OF v(1)]]) (rule m, rule merge_val_roundtrip [OF v])

lemma slot_read_repeated:
  assumes "list_all (readable ctx t) vs" "type_ok t" "0 < ctx \<Longrightarrow> nested (ctx - 1)"
  shows "slot_read ctx (Field n Repeated t) (SRep us) (concat (map (encode_val n t) vs)) (SRep (us @ vs))"
  using assms(1)
proof (induction vs arbitrary: us)
  case Nil
  then show ?case by (simp add: slot_read_nothing)
next
  case (Cons v vs)
  have "slot_read ctx (Field n Repeated t) (SRep us) (encode_val n t v) (SRep (us @ [v]))"
    using Cons.prems by (intro slot_read_value assms) simp_all
  from slot_read_trans [OF this Cons.IH [of "us @ [v]"]] Cons.prems show ?case by simp
qed

lemma number_nonempty:
  "readable ctx t v \<Longrightarrow> t \<in> {TInt32, TUint32, TEnum, TBool, TDouble} \<Longrightarrow> 0 < length (encode_number v)"
  by (cases v) (auto simp: put_varint32_eq encode_varint_bool_def u64_to_le_bytes_def simp flip: length_greater_0_conv split: ftype.splits)

lemma packed_loop_roundtrip:
  assumes "list_all (readable ctx t) vs" "t \<in> {TInt32, TUint32, TEnum, TBool, TDouble}" "length vs \<le> fuel"
  shows "packed_loop fuel t us (length rest) (concat (map encode_number vs) @ rest) = Inr (us @ vs, rest)"
  using assms
proof (induction vs arbitrary: us fuel)
  case Nil
  then show ?case by (subst packed_loop.simps) simp
next
  case (Cons v vs)
  then obtain f where f: "fuel = Suc f" by (cases fuel) auto
  have "0 < length (encode_number v)" using Cons.prems(1,2) by (intro number_nonempty [of ctx t]) simp_all
  then show ?case using Cons.prems f merge_number_roundtrip [of ctx t v "concat (map encode_number vs) @ rest"]
    by (subst packed_loop.simps) (simp add: Cons.IH del: packed_loop.simps)
qed

lemma length_concat_le: "(\<And>x. x \<in> set xs \<Longrightarrow> 0 < length (f x)) \<Longrightarrow> length xs \<le> length (concat (map f xs))"
proof (induction xs)
  case (Cons x xs)
  have "length xs \<le> length (concat (map f xs))" "0 < length (f x)" using Cons by simp_all
  then show ?case unfolding list.map concat.simps length_append list.size by linarith
qed simp

lemma slot_read_packed:
  assumes vs: "list_all (readable ctx t) vs" and t: "t \<in> {TInt32, TUint32, TEnum, TBool, TDouble}"
    and len: "length (concat (map encode_number vs)) < 2 ^ 64"
  shows "slot_read ctx (Field n Packed t) (SRep []) (packed_encode n vs) (SRep vs)"
proof (cases "vs = []")
  case False
  let ?p = "concat (map encode_number vs)"
  have "length vs \<le> length ?p" using vs t by (intro length_concat_le number_nonempty [of ctx t]) (auto simp: list_all_iff)
  then have "packed_loop (length (?p @ rest)) t [] (length rest) (?p @ rest) = Inr (vs, rest)" for rest
    using packed_loop_roundtrip [OF vs t, of "length (?p @ rest)" "[]" rest] by simp
  then have "merge_loop (put_varint (length ?p) @ ?p @ rest) (\<lambda>limit buf. packed_loop (length buf) t [] limit buf) = Inr (vs, rest)" for rest
    by (intro merge_loop_roundtrip len)
  then have "slot_read ctx (Field n Packed t) (SRep []) (encode_tag n LengthDelimited @ put_varint (length ?p) @ ?p) (SRep vs)"
    by (intro slot_read_tagged) (simp_all del: packed_loop.simps)
  then show ?thesis using False length_numbers [of vs] by (simp add: packed_encode_def)
qed (simp add: packed_encode_def slot_read_nothing)

definition map_entry_bytes :: "bytes \<times> bytes \<Rightarrow> bytes" where
  "map_entry_bytes kv = (if fst kv = [] then [] else string_encode 1 (fst kv)) @ (if snd kv = [] then [] else string_encode 2 (snd kv))"

lemma entry_loop_step:
  assumes "valid_string x" "limit \<le> length rest"
  shows "entry_loop (Suc fuel) ctx kv limit (string_encode 1 x @ rest) = entry_loop fuel ctx (x, snd kv) limit rest"
    and "entry_loop (Suc fuel) ctx kv limit (string_encode 2 x @ rest) = entry_loop fuel ctx (fst kv, x) limit rest"
proof -
  have "limit < length (string_encode n x @ rest)" for n
    using assms(2) tag_nonempty [of n LengthDelimited] unfolding length_append string_encode_def by linarith
  then show "entry_loop (Suc fuel) ctx kv limit (string_encode 1 x @ rest) = entry_loop fuel ctx (x, snd kv) limit rest"
    and "entry_loop (Suc fuel) ctx kv limit (string_encode 2 x @ rest) = entry_loop fuel ctx (fst kv, x) limit rest"
    by (subst entry_loop.simps, simp add: string_encode_def decode_encode_tag string_merge_roundtrip [OF assms(1)]
          del: entry_loop.simps skip_field.simps)+
qed

lemma entry_loop_roundtrip:
  assumes "valid_string k" "valid_string v"
  shows "entry_loop (length (map_entry_bytes (k, v) @ rest)) ctx ([], []) (length rest) (map_entry_bytes (k, v) @ rest) = Inr ((k, v), rest)"
proof -
  have stop: "entry_loop g ctx kv (length rest) rest = Inr (kv, rest)" for g kv by (subst entry_loop.simps) simp
  have len: "2 \<le> length (string_encode n x)" if "x \<noteq> []" for n x
    using that tag_nonempty [of n LengthDelimited] unfolding string_encode_def length_append
    by (cases x) (auto simp: Suc_le_eq simp del: length_greater_0_conv)
  show ?thesis
  proof (cases "k = [] \<and> v = []")
    case False
    then have "2 \<le> length (map_entry_bytes (k, v) @ rest)"
      using len [of k 1] len [of v 2] by (auto simp: map_entry_bytes_def)
    then obtain f where f: "length (map_entry_bytes (k, v) @ rest) = Suc (Suc f)" by (metis add_2_eq_Suc le_Suc_ex)
    show ?thesis using assms unfolding f unfolding map_entry_bytes_def
      by (auto simp: entry_loop_step stop simp del: entry_loop.simps)
  qed (simp add: map_entry_bytes_def stop del: entry_loop.simps)
qed

lemma length_entry_bytes: "length (map_entry_bytes kv) = map_entry_len kv"
  by (simp add: map_entry_bytes_def map_entry_len_def length_string)

lemma map_entry_encode_bytes:
  "map_entry_encode n kv = encode_tag n LengthDelimited @ put_varint (length (map_entry_bytes kv)) @ map_entry_bytes kv"
  unfolding length_entry_bytes by (simp add: map_entry_encode_def map_entry_bytes_def)

lemma slot_read_map:
  assumes "list_all (\<lambda>kv. valid_string (fst kv) \<and> valid_string (snd kv) \<and> map_entry_len kv < 2 ^ 64) kvs" "0 < ctx"
    "distinct (map fst (us @ kvs))"
  shows "slot_read ctx (StrMap n) (SMap us) (concat (map (map_entry_encode n) kvs)) (SMap (us @ kvs))"
  using assms(1,3)
proof (induction kvs arbitrary: us)
  case Nil
  then show ?case by (simp add: slot_read_nothing)
next
  case (Cons kv kvs)
  obtain k v where kv: "kv = (k, v)" by (cases kv)
  have len: "length (map_entry_bytes kv) < 2 ^ 64"
    using Cons.prems(1) by (simp add: length_entry_bytes)
  have "merge_loop (put_varint (length (map_entry_bytes kv)) @ map_entry_bytes kv @ rest)
     (\<lambda>limit buf. entry_loop (length buf) (ctx - 1) ([], []) limit buf) = Inr (kv, rest)" for rest
    using Cons.prems(1) unfolding kv by (intro merge_loop_roundtrip len [unfolded kv] entry_loop_roundtrip) simp_all
  moreover have "map_insert kv us = us @ [kv]" using Cons.prems(2) by (auto simp: map_insert_def)
  ultimately have "slot_read ctx (StrMap n) (SMap us) (map_entry_encode n kv) (SMap (us @ [kv]))"
    using assms(2) unfolding map_entry_encode_bytes
    by (intro slot_read_tagged) (simp_all add: map_merge_def del: entry_loop.simps)
  from slot_read_trans [OF this Cons.IH [of "us @ [kv]"]] Cons.prems show ?case by simp
qed

lemma slot_read_slot:
  assumes s: "readable_slot ctx d s" and d: "decl_ok d" and nest: "0 < ctx \<Longrightarrow> nested (ctx - 1)"
  shows "slot_read ctx d (default_slot d) (encode_slot d s) s"
proof (cases s)
  case (SOne v)
  then obtain n t where "d = Field n Implicit t" using s by (auto split: decl.splits label.splits)
  then show ?thesis using s d SOne nest
    by (auto simp: slot_read_nothing intro!: slot_read_value [of ctx t])
next
  case (SOpt ov)
  then obtain n t where "d = Field n Optional t" using s by (auto split: decl.splits label.splits)
  then show ?thesis using s d SOpt nest
    by (cases ov) (auto simp: slot_read_nothing intro!: slot_read_value [of ctx t])
next
  case (SRep vs)
  then obtain n t where "d = Field n Repeated t \<or> d = Field n Packed t" using s by (auto split: decl.splits label.splits)
  then show ?thesis using s d SRep nest slot_read_repeated [of ctx t vs n "[]"] slot_read_packed [of ctx t vs n] by auto
next
  case (SOneof ov)
  then obtain alts where d_def: "d = Oneof alts" using s by (auto split: decl.splits)
  show ?thesis
  proof (cases ov)
    case (Some p)
    obtain n v where p: "p = (n, v)" by (cases p)
    then obtain t where t: "map_of alts n = Some t" "readable ctx t v" using s SOneof Some d_def by (auto split: option.splits)
    have "type_ok t" "n \<in> set (decl_numbers d)"
      using d map_of_SomeD [OF t(1)] d_def by (force simp: list_all_iff)+
    then show ?thesis using SOneof Some p t(1) d_def
      by (simp add: slot_read_value [OF t(2) _ nest])
  qed (use SOneof d_def in \<open>simp add: slot_read_nothing\<close>)
next
  case (SMap kvs)
  then obtain n where "d = StrMap n" using s by (auto split: decl.splits)
  then show ?thesis using s SMap slot_read_map [of kvs ctx "[]" n] by simp
qed

section \<open>Whole messages\<close>

lemma merge_fields_prefix:
  assumes nest: "0 < ctx \<Longrightarrow> nested (ctx - 1)" and lim: "limit \<le> length rest" and r: "readable_slots ctx ds2 ss2"
    and "schema_ok (ds1 @ ds2 @ ds3)" "length ss1 = length ds1" "length (encode_raw ds2 ss2) \<le> fuel"
  shows "\<exists>fuel'. fuel \<le> fuel' + length (encode_raw ds2 ss2) \<and>
    merge_fields fuel ctx (ds1 @ ds2 @ ds3) (ss1 @ map default_slot ds2 @ ss3) limit (encode_raw ds2 ss2 @ rest) =
    merge_fields fuel' ctx (ds1 @ ds2 @ ds3) (ss1 @ ss2 @ ss3) limit rest"
  using assms(3-)
proof (induction ds2 arbitrary: ds1 ss1 ss2 fuel)
  case Nil
  then show ?case by (intro exI [of _ fuel]) simp
next
  case (Cons d ds2)
  obtain s ss where ss: "ss2 = s # ss" "readable_slot ctx d s" "readable_slots ctx ds2 ss" using Cons.prems(1) by (cases ss2) auto
  let ?ds = "ds1 @ d # ds2 @ ds3" and ?buf = "encode_raw ds2 ss @ rest"
  have d: "decl_ok d" "at_field ds1 d (ds2 @ ds3) ss1" using Cons.prems(2,3) by (simp_all add: at_field_def)
  have len: "length (encode_slot d s) \<le> fuel" "limit \<le> length ?buf" using Cons.prems(4) ss(1) lim by simp_all
  have "slot_read ctx d (default_slot d) (encode_slot d s) s" by (rule slot_read_slot [OF ss(2) d(1) nest])
  then obtain f where f: "fuel \<le> f + length (encode_slot d s)"
    "merge_fields fuel ctx ?ds (ss1 @ default_slot d # map default_slot ds2 @ ss3) limit (encode_slot d s @ ?buf) =
     merge_fields f ctx ?ds (ss1 @ s # map default_slot ds2 @ ss3) limit ?buf"
    unfolding slot_read_def using d(2) len by blast
  have "\<exists>f'. f \<le> f' + length (encode_raw ds2 ss) \<and>
    merge_fields f ctx ((ds1 @ [d]) @ ds2 @ ds3) ((ss1 @ [s]) @ map default_slot ds2 @ ss3) limit ?buf =
    merge_fields f' ctx ((ds1 @ [d]) @ ds2 @ ds3) ((ss1 @ [s]) @ ss @ ss3) limit rest"
    using Cons.prems f(1) ss by (intro Cons.IH) simp_all
  then obtain f' where f': "f \<le> f' + length (encode_raw ds2 ss)"
    "merge_fields f ctx ?ds (ss1 @ s # map default_slot ds2 @ ss3) limit ?buf = merge_fields f' ctx ?ds (ss1 @ s # ss @ ss3) limit rest"
    by auto
  show ?case using f f' ss(1) by (intro exI [of _ f']) simp
qed

lemma merge_fields_roundtrip:
  assumes "0 < ctx \<Longrightarrow> nested (ctx - 1)" "readable_slots ctx ds ss" "schema_ok ds" "length (encode_raw ds ss) \<le> fuel"
  shows "merge_fields fuel ctx ds (map default_slot ds) (length rest) (encode_raw ds ss @ rest) = Inr (ss, rest)"
proof -
  obtain f where "merge_fields fuel ctx ds (map default_slot ds) (length rest) (encode_raw ds ss @ rest) =
    merge_fields f ctx ds ss (length rest) rest"
    using merge_fields_prefix [OF assms(1) order_refl assms(2), of "[]" "[]" "[]" fuel "[]"] assms(3,4) by auto
  then show ?thesis by (cases f) simp_all
qed

lemma nested_all: "nested ctx"
proof (induction ctx)
  case 0
  show ?case unfolding nested_def using merge_fields_roundtrip [of 0] by simp
next
  case (Suc ctx)
  show ?case unfolding nested_def using merge_fields_roundtrip [of "Suc ctx"] Suc by simp
qed

text \<open>A message is decoded from the bytes that \<open>encode_raw\<close> wrote for it.\<close>

lemma message_decode_encode:
  assumes "schema_ok ds" and "readable_slots RECURSION_LIMIT ds ss"
  shows "message_decode ds (encode_raw ds ss) = Inr ss"
  using nested_all [of RECURSION_LIMIT] assms unfolding nested_def message_decode_def
  by (metis append_Nil2 bind_err.simps(2) case_prod_conv list.size(3) order_refl)

end
