(* ===== verification/Prost_Schemas.thy ===== *)
theory Prost_Schemas
  imports Prost_Roundtrip
begin

text \<open>
  The messages of \<open>src/core/aiserver/v1/lite.rs\<close>: for each of them the fields in the order in which \<open>encode_raw\<close> writes them,
  with the numbers, labels and types that \<open>encode_raw\<close>, \<open>encoded_len\<close> and \<open>merge_field\<close> agree on.  A message stands after the
  messages that it contains; no message contains itself.
\<close>

(* CursorPosition: line, column *)
definition CursorPosition_decls :: "decl list" where
  "CursorPosition_decls =
     [Field 1 Implicit TInt32, Field 2 Implicit TInt32]"

(* EnvironmentInfo: exthost_platform, exthost_arch, local_timestamp, cursor_version *)
definition EnvironmentInfo_decls :: "decl list" where
  "EnvironmentInfo_decls =
     [Field 1 Optional TString, Field 2 Optional TString, Field 5 Implicit TString, Field 7 Implicit TBytes]"

(* SimplestRange: start_line, end_line_inclusive *)
definition SimplestRange_decls :: "decl list" where
  "SimplestRange_decls =
     [Field 1 Implicit TInt32, Field 2 Implicit TInt32]"

(* SimpleRange: start_line_number, start_column, end_line_number_inclusive, end_column *)
definition SimpleRange_decls :: "decl list" where
  "SimpleRange_decls =
     [Field 1 Implicit TInt32, Field 2 Implicit TInt32, Field 3 Implicit TInt32, Field 4 Implicit TInt32]"

(* LineRange: start_line_number, end_line_number_inclusive *)
definition LineRange_decls :: "decl list" where
  "LineRange_decls =
     [Field 1 Implicit TInt32, Field 2 Implicit TInt32]"

(* CursorRange: start_position, end_position *)
definition CursorRange_decls :: "decl list" where
  "CursorRange_decls =
     [Field 1 Optional (TMsg CursorPosition_decls), Field 2 Optional (TMsg CursorPosition_decls)]"

(* DetailedLine: text, line_number, is_signature *)
definition DetailedLine_decls :: "decl list" where
  "DetailedLine_decls =
     [Field 1 Implicit TString, Field 2 Implicit TFloat, Field 3 Implicit TBool]"

(* Signatures: ranges *)
definition Signatures_decls :: "decl list" where
  "Signatures_decls =
     [Field 1 Repeated (TMsg CursorRange_decls)]"

(* GitCommit: commit, author, date, message *)
definition GitCommit_decls :: "decl list" where
  "GitCommit_decls =
     [Field 1 Implicit TString, Field 2 Implicit TString, Field 3 Implicit TString, Field 4 Implicit TString]"

(* FileGit: commits *)
definition FileGit_decls :: "decl list" where
  "FileGit_decls =
     [Field 1 Repeated (TMsg GitCommit_decls)]"

(* CodeBlock: relative_workspace_path, file_contents, range, contents, signatures, override_contents, original_contents,
detailed_lines, file_contents_length, file_git_context *)
definition CodeBlock_decls :: "decl list" where
  "CodeBlock_decls =
     [Field 1 Implicit TString, Field 2 Optional TString, Field 3 Optional (TMsg CursorRange_decls), Field 4 Implicit TString,
      Field 5 Optional (TMsg Signatures_decls), Field 6 Optional TString, Field 7 Optional TString,
      Field 8 Repeated (TMsg DetailedLine_decls), Field 9 Optional TInt32, Field 10 Optional (TMsg FileGit_decls)]"

(* RelatedInformation: message, range *)
definition RelatedInformation_decls :: "decl list" where
  "RelatedInformation_decls =
     [Field 1 Implicit TString, Field 2 Optional (TMsg CursorRange_decls)]"

(* Diagnostic: message, range, severity, related_information *)
definition Diagnostic_decls :: "decl list" where
  "Diagnostic_decls =
     [Field 1 Implicit TString, Field 2 Optional (TMsg CursorRange_decls), Field 3 Implicit TEnum,
      Field 4 Repeated (TMsg RelatedInformation_decls)]"

(* Bm25Chunk: content, range, score, relative_path *)
definition Bm25Chunk_decls :: "decl list" where
  "Bm25Chunk_decls =
     [Field 1 Implicit TString, Field 2 Optional (TMsg SimplestRange_decls), Field 3 Implicit TInt32, Field 4 Implicit TString]"

(* Column: key, type *)
definition Column_decls :: "decl list" where
  "Column_decls =
     [Field 1 Implicit TString, Field 2 Implicit TString]"

(* DataframeInfo: name, shape, data_dimensionality, columns, row_count, index_column *)
definition DataframeInfo_decls :: "decl list" where
  "DataframeInfo_decls =
     [Field 1 Implicit TString, Field 2 Implicit TString, Field 3 Implicit TInt32, Field 6 Repeated (TMsg Column_decls),
      Field 7 Implicit TInt32, Field 8 Implicit TString]"

(* CurrentFileInfo: relative_workspace_path, contents, cursor_position, dataframes, language_id, selection, diagnostics,
total_number_of_lines, contents_start_at_line, top_chunks, alternative_version_id, file_version, sha_256_hash, rely_on_filesync,
workspace_root_path, line_ending *)
definition CurrentFileInfo_decls :: "decl list" where
  "CurrentFileInfo_decls =
     [Field 1 Implicit TString, Field 2 Implicit TString, Field 3 Optional (TMsg CursorPosition_decls),
      Field 4 Repeated (TMsg DataframeInfo_decls), Field 5 Implicit TString, Field 6 Optional (TMsg CursorRange_decls),
      Field 7 Repeated (TMsg Diagnostic_decls), Field 8 Implicit TInt32, Field 9 Implicit TInt32,
      Field 10 Repeated (TMsg Bm25Chunk_decls), Field 11 Optional TInt32, Field 14 Optional TInt32, Field 17 Optional TString,
      Field 18 Implicit TBool, Field 19 Implicit TString, Field 20 Optional TString]"

(* AzureState:  *)
definition AzureState_decls :: "decl list" where
  "AzureState_decls =
     []"

(* ModelDetails: model_name, azure_state, enable_slow_pool, max_mode *)
definition ModelDetails_decls :: "decl list" where
  "ModelDetails_decls =
     [Field 1 Optional TString, Field 4 Optional (TMsg AzureState_decls), Field 5 Optional TBool, Field 8 Optional TBool]"

(* LinterError: message, range, source, related_information, severity, is_stale *)
definition LinterError_decls :: "decl list" where
  "LinterError_decls =
     [Field 1 Implicit TString, Field 2 Optional (TMsg CursorRange_decls), Field 3 Optional TString,
      Field 4 Repeated (TMsg RelatedInformation_decls), Field 5 Optional TEnum, Field 6 Optional TBool]"

(* LinterErrors: relative_workspace_path, errors, file_contents *)
definition LinterErrors_decls :: "decl list" where
  "LinterErrors_decls =
     [Field 1 Implicit TString, Field 2 Repeated (TMsg LinterError_decls), Field 3 Implicit TString]"

(* ExplicitContext: context, repo_context, mode_specific_context *)
definition ExplicitContext_decls :: "decl list" where
  "ExplicitContext_decls =
     [Field 1 Implicit TString, Field 2 Optional TString, Field 4 Optional TString]"

(* CustomErrorDetails: title, detail, additional_info *)
definition CustomErrorDetails_decls :: "decl list" where
  "CustomErrorDetails_decls =
     [Field 1 Implicit TString, Field 2 Implicit TString, StrMap 7]"

(* ErrorDetails: error, details, is_expected *)
definition ErrorDetails_decls :: "decl list" where
  "ErrorDetails_decls =
     [Field 1 Implicit TEnum, Field 2 Optional (TMsg CustomErrorDetails_decls), Field 3 Optional TBool]"

(* Dimension: width, height *)
definition Dimension_decls :: "decl list" where
  "Dimension_decls =
     [Field 1 Implicit TInt32, Field 2 Implicit TInt32]"

(* ImageProto: data, dimension, uuid *)
definition ImageProto_decls :: "decl list" where
  "ImageProto_decls =
     [Field 1 Implicit TBytes, Field 2 Optional (TMsg Dimension_decls), Field 3 Implicit TString]"

(* ComposerExternalLink: url, uuid, pdf_content, is_pdf, filename *)
definition ComposerExternalLink_decls :: "decl list" where
  "ComposerExternalLink_decls =
     [Field 1 Implicit TString, Field 2 Implicit TString, Field 3 Implicit TString, Field 4 Implicit TBool,
      Field 5 Implicit TString]"

(* LspSubgraphPosition: line, character *)
definition LspSubgraphPosition_decls :: "decl list" where
  "LspSubgraphPosition_decls =
     [Field 1 Implicit TInt32, Field 2 Implicit TInt32]"

(* LspSubgraphRange: start_line, start_character, end_line, end_character *)
definition LspSubgraphRange_decls :: "decl list" where
  "LspSubgraphRange_decls =
     [Field 1 Implicit TInt32, Field 2 Implicit TInt32, Field 3 Implicit TInt32, Field 4 Implicit TInt32]"

(* LspSubgraphContextItem: uri, type, content, range *)
definition LspSubgraphContextItem_decls :: "decl list" where
  "LspSubgraphContextItem_decls =
     [Field 1 Optional TString, Field 2 Implicit TString, Field 3 Implicit TString, Field 4 Optional (TMsg LspSubgraphRange_decls)]"

(* LspSubgraphFullContext: uri, symbol_name, positions, context_items, score *)
definition LspSubgraphFullContext_decls :: "decl list" where
  "LspSubgraphFullContext_decls =
     [Field 1 Implicit TString, Field 2 Implicit TString, Field 3 Repeated (TMsg LspSubgraphPosition_decls),
      Field 4 Repeated (TMsg LspSubgraphContextItem_decls), Field 5 Implicit TFloat]"

(* FsUploadFileRequest: uuid, relative_workspace_path, contents, model_version, sha256_hash *)
definition FsUploadFileRequest_decls :: "decl list" where
  "FsUploadFileRequest_decls =
     [Field 1 Implicit TString, Field 2 Implicit TString, Field 3 Implicit TString, Field 4 Implicit TInt32,
      Field 5 Optional TString]"

(* FsUploadFileResponse: error *)
definition FsUploadFileResponse_decls :: "decl list" where
  "FsUploadFileResponse_decls =
     [Field 1 Implicit TEnum]"

(* SingleUpdateRequest: start_position, end_position, change_length, replaced_string, range *)
definition SingleUpdateRequest_decls :: "decl list" where
  "SingleUpdateRequest_decls =
     [Field 1 Implicit TInt32, Field 2 Implicit TInt32, Field 3 Implicit TInt32, Field 4 Implicit TString,
      Field 5 Optional (TMsg SimpleRange_decls)]"

(* FilesyncUpdateWithModelVersion: model_version, relative_workspace_path, updates, expected_file_length *)
definition FilesyncUpdateWithModelVersion_decls :: "decl list" where
  "FilesyncUpdateWithModelVersion_decls =
     [Field 1 Implicit TInt32, Field 2 Implicit TString, Field 3 Repeated (TMsg SingleUpdateRequest_decls), Field 4 Implicit TInt32]"

(* FsSyncFileRequest: uuid, relative_workspace_path, model_version, filesync_updates, sha256_hash *)
definition FsSyncFileRequest_decls :: "decl list" where
  "FsSyncFileRequest_decls =
     [Field 1 Implicit TString, Field 2 Implicit TString, Field 3 Implicit TInt32,
      Field 4 Repeated (TMsg FilesyncUpdateWithModelVersion_decls), Field 5 Implicit TString]"

(* FsSyncFileResponse: error *)
definition FsSyncFileResponse_decls :: "decl list" where
  "FsSyncFileResponse_decls =
     [Field 1 Implicit TEnum]"

(* CodeResult: code_block, score *)
definition CodeResult_decls :: "decl list" where
  "CodeResult_decls =
     [Field 1 Optional (TMsg CodeBlock_decls), Field 2 Implicit TFloat]"

(* CppIntentInfo: source *)
definition CppIntentInfo_decls :: "decl list" where
  "CppIntentInfo_decls =
     [Field 1 Implicit TString]"

(* LspSuggestion: label *)
definition LspSuggestion_decls :: "decl list" where
  "LspSuggestion_decls =
     [Field 1 Implicit TString]"

(* LspSuggestedItems: suggestions *)
definition LspSuggestedItems_decls :: "decl list" where
  "LspSuggestedItems_decls =
     [Field 1 Repeated (TMsg LspSuggestion_decls)]"

(* CppFileDiffHistory: file_name, diff_history, diff_history_timestamps *)
definition CppFileDiffHistory_decls :: "decl list" where
  "CppFileDiffHistory_decls =
     [Field 1 Implicit TString, Field 2 Repeated TString, Field 3 Packed TDouble]"

(* ModelWindow: lines, start_line_number, end_line_number *)
definition ModelWindow_decls :: "decl list" where
  "ModelWindow_decls =
     [Field 1 Repeated TString, Field 2 Implicit TInt32, Field 3 Implicit TInt32]"

(* IRange: start_line_number, start_column, end_line_number, end_column *)
definition IRange_decls :: "decl list" where
  "IRange_decls =
     [Field 1 Implicit TInt32, Field 2 Implicit TInt32, Field 3 Implicit TInt32, Field 4 Implicit TInt32]"

(* Change: text, range *)
definition Change_decls :: "decl list" where
  "Change_decls =
     [Field 1 Implicit TString, Field 2 Optional (TMsg IRange_decls)]"

(* BlockDiffPatch: start_model_window, changes, relative_path, start_from_change_index, model_uuid *)
definition BlockDiffPatch_decls :: "decl list" where
  "BlockDiffPatch_decls =
     [Field 1 Optional (TMsg ModelWindow_decls), Field 3 Repeated (TMsg Change_decls), Field 4 Implicit TString,
      Field 5 Implicit TInt32, Field 7 Implicit TString]"

(* CppContextItem: contents, symbol, relative_workspace_path, score *)
definition CppContextItem_decls :: "decl list" where
  "CppContextItem_decls =
     [Field 1 Implicit TString, Field 2 Optional TString, Field 3 Implicit TString, Field 4 Implicit TFloat]"

(* CppParameterHint: label, documentation *)
definition CppParameterHint_decls :: "decl list" where
  "CppParameterHint_decls =
     [Field 1 Implicit TString, Field 2 Optional TString]"

(* AdditionalFile: relative_workspace_path, is_open, visible_range_content, last_viewed_at, start_line_number_one_indexed,
visible_ranges *)
definition AdditionalFile_decls :: "decl list" where
  "AdditionalFile_decls =
     [Field 1 Implicit TString, Field 2 Implicit TBool, Field 3 Repeated TString, Field 4 Optional TDouble, Field 5 Packed TInt32,
      Field 6 Repeated (TMsg LineRange_decls)]"

(* StreamCppRequest: current_file, diff_history, model_name, linter_errors, diff_history_keys, give_debug_output,
file_diff_histories, merged_diff_histories, block_diff_patches, is_nightly, is_debug, immediately_ack, context_items,
parameter_hints, lsp_contexts, cpp_intent_info, enable_more_context, workspace_id, additional_files, control_token, client_time,
filesync_updates, time_since_request_start, time_at_request_send, client_timezone_offset, lsp_suggested_items, supports_cpt,
supports_crlf_cpt, code_results *)
definition StreamCppRequest_decls :: "decl list" where
  "StreamCppRequest_decls =
     [Field 1 Optional (TMsg CurrentFileInfo_decls), Field 2 Repeated TString, Field 3 Optional TString,
      Field 4 Optional (TMsg LinterErrors_decls), Field 5 Repeated TString, Field 6 Optional TBool,
      Field 7 Repeated (TMsg CppFileDiffHistory_decls), Field 8 Repeated (TMsg CppFileDiffHistory_decls),
      Field 9 Repeated (TMsg BlockDiffPatch_decls), Field 10 Optional TBool, Field 11 Optional TBool, Field 12 Optional TBool,
      Field 13 Repeated (TMsg CppContextItem_decls), Field 14 Repeated (TMsg CppParameterHint_decls),
      Field 15 Repeated (TMsg LspSubgraphFullContext_decls), Field 16 Optional (TMsg CppIntentInfo_decls),
      Field 17 Optional TBool, Field 18 Optional TString, Field 19 Repeated (TMsg AdditionalFile_decls), Field 20 Optional TEnum,
      Field 21 Optional TDouble, Field 22 Repeated (TMsg FilesyncUpdateWithModelVersion_decls), Field 23 Implicit TDouble,
      Field 24 Implicit TDouble, Field 25 Optional TDouble, Field 26 Optional (TMsg LspSuggestedItems_decls),
      Field 27 Optional TBool, Field 28 Optional TBool, Field 29 Repeated (TMsg CodeResult_decls)]"

(* CursorPredictionTarget: relative_path, line_number_one_indexed, expected_content, should_retrigger_cpp *)
definition CursorPredictionTarget_decls :: "decl list" where
  "CursorPredictionTarget_decls =
     [Field 1 Implicit TString, Field 2 Implicit TInt32, Field 3 Implicit TString, Field 4 Implicit TBool]"

(* ModelInfo: is_fused_cursor_prediction_model, is_multidiff_model *)
definition ModelInfo_decls :: "decl list" where
  "ModelInfo_decls =
     [Field 1 Implicit TBool, Field 2 Implicit TBool]"

(* StreamCppResponse: text, suggestion_start_line, suggestion_confidence, done_stream, debug_model_output, debug_model_input,
debug_stream_time, debug_total_time, debug_ttft_time, debug_server_timing, range_to_replace, cursor_prediction_target, done_edit,
model_info, begin_edit, should_remove_leading_eol, binding_id *)
definition StreamCppResponse_decls :: "decl list" where
  "StreamCppResponse_decls =
     [Field 1 Implicit TString, Field 2 Optional TInt32, Field 3 Optional TInt32, Field 4 Optional TBool,
      Field 5 Optional TString, Field 6 Optional TString, Field 7 Optional TString, Field 8 Optional TString,
      Field 9 Optional TString, Field 10 Optional TString, Field 11 Optional (TMsg LineRange_decls),
      Field 12 Optional (TMsg CursorPredictionTarget_decls), Field 13 Optional TBool, Field 14 Optional (TMsg ModelInfo_decls),
      Field 15 Optional TBool, Field 16 Optional TBool, Field 17 Optional TString]"

(* CppConfigRequest: is_nightly, model, supports_cpt *)
definition CppConfigRequest_decls :: "decl list" where
  "CppConfigRequest_decls =
     [Field 1 Optional TBool, Field 2 Implicit TString, Field 3 Optional TBool]"

(* ImportPredictionConfig: is_disabled_by_backend, should_turn_on_automatically, python_enabled *)
definition ImportPredictionConfig_decls :: "decl list" where
  "ImportPredictionConfig_decls =
     [Field 1 Implicit TBool, Field 2 Implicit TBool, Field 3 Implicit TBool]"

(* MergeBehavior: type, limit, radius *)
definition MergeBehavior_decls :: "decl list" where
  "MergeBehavior_decls =
     [Field 1 Implicit TString, Field 2 Optional TInt32, Field 3 Optional TInt32]"

(* RecentlyRejectedEditThresholds: hard_reject_threshold, soft_reject_threshold *)
definition RecentlyRejectedEditThresholds_decls :: "decl list" where
  "RecentlyRejectedEditThresholds_decls =
     [Field 1 Implicit TInt32, Field 2 Implicit TInt32]"

(* SuggestionHintConfig: important_lsp_extensions, enabled_for_path_extensions *)
definition SuggestionHintConfig_decls :: "decl list" where
  "SuggestionHintConfig_decls =
     [Field 1 Repeated TString, Field 2 Repeated TString]"

(* CppConfigResponse: above_radius, below_radius, merge_behavior, is_on, is_ghost_text,
should_let_user_enable_cpp_even_if_not_pro, heuristics, exclude_recently_viewed_files_patterns, enable_rvf_tracking,
global_debounce_duration_millis, client_debounce_duration_millis, cpp_url, use_whitespace_diff_history, import_prediction_config,
enable_filesync_debounce_skipping, check_filesync_hash_percent, geo_cpp_backend_url, recently_rejected_edit_thresholds,
is_fused_cursor_prediction_model, include_unchanged_lines, should_fetch_rvf_text,
max_number_of_cleared_suggestions_since_last_accept, suggestion_hint_config, allows_tab_chunks, tab_context_refresh_debounce_ms,
tab_context_refresh_editor_change_debounce_ms *)
definition CppConfigResponse_decls :: "decl list" where
  "CppConfigResponse_decls =
     [Field 1 Optional TInt32, Field 2 Optional TInt32, Field 4 Optional (TMsg MergeBehavior_decls), Field 5 Optional TBool,
      Field 6 Optional TBool, Field 7 Optional TBool, Field 8 Packed TEnum, Field 9 Repeated TString, Field 10 Implicit TBool,
      Field 11 Implicit TInt32, Field 12 Implicit TInt32, Field 13 Implicit TString, Field 14 Implicit TBool,
      Field 15 Optional (TMsg ImportPredictionConfig_decls), Field 16 Implicit TBool, Field 17 Implicit TFloat,
      Field 18 Implicit TString, Field 19 Optional (TMsg RecentlyRejectedEditThresholds_decls), Field 20 Implicit TBool,
      Field 21 Implicit TBool, Field 22 Implicit TBool, Field 23 Optional TInt32,
      Field 24 Optional (TMsg SuggestionHintConfig_decls), Field 25 Implicit TBool, Field 26 Optional TInt32,
      Field 27 Optional TInt32]"

(* AvailableCppModelsResponse: models, default_model *)
definition AvailableCppModelsResponse_decls :: "decl list" where
  "AvailableCppModelsResponse_decls =
     [Field 1 Repeated TString, Field 2 Optional TString]"

(* Tool: name, description, parameters, server_name *)
definition Tool_decls :: "decl list" where
  "Tool_decls =
     [Field 1 Implicit TString, Field 2 Implicit TString, Field 3 Implicit TString, Field 4 Implicit TString]"

(* McpParams: tools *)
definition McpParams_decls :: "decl list" where
  "McpParams_decls =
     [Field 1 Repeated (TMsg Tool_decls)]"

(* ClientSideToolV2Call: tool, tool_call_id, name, raw_args, is_streaming, is_last_message, params, tool_index, model_call_id *)
definition ClientSideToolV2Call_decls :: "decl list" where
  "ClientSideToolV2Call_decls =
     [Field 1 Implicit TEnum, Field 3 Implicit TString, Field 9 Implicit TString, Field 10 Implicit TString,
      Field 14 Implicit TBool, Field 15 Implicit TBool, Oneof [(27, TMsg McpParams_decls)], Field 48 Optional TUint32,
      Field 49 Optional TString]"

(* McpResult: selected_tool, result *)
definition McpResult_decls :: "decl list" where
  "McpResult_decls =
     [Field 1 Implicit TString, Field 2 Implicit TString]"

(* ClientSideToolV2Result: tool, result, tool_call_id, model_call_id, tool_index *)
definition ClientSideToolV2Result_decls :: "decl list" where
  "ClientSideToolV2Result_decls =
     [Field 1 Implicit TEnum, Oneof [(28, TMsg McpResult_decls)], Field 35 Implicit TString, Field 48 Optional TString,
      Field 49 Optional TUint32]"

(* ToolResult: tool_call_id, tool_name, tool_index, raw_args, result, tool_call, model_call_id *)
definition ToolResult_decls :: "decl list" where
  "ToolResult_decls =
     [Field 1 Implicit TString, Field 2 Implicit TString, Field 3 Implicit TUint32, Field 5 Implicit TString,
      Field 8 Optional (TMsg ClientSideToolV2Result_decls), Field 11 Optional (TMsg ClientSideToolV2Call_decls),
      Field 12 Optional TString]"

(* WebReference: url, title, chunk *)
definition WebReference_decls :: "decl list" where
  "WebReference_decls =
     [Field 1 Implicit TString, Field 2 Implicit TString, Field 3 Implicit TString]"

(* Thinking: text, signature, redacted_thinking *)
definition Thinking_decls :: "decl list" where
  "Thinking_decls =
     [Field 1 Implicit TString, Field 2 Implicit TString, Field 3 Implicit TString]"

(* ConversationMessage: text, type, images, bubble_id, tool_results, is_agentic, server_bubble_id, web_references, thinking,
unified_mode, supported_tools, external_links, use_web *)
definition ConversationMessage_decls :: "decl list" where
  "ConversationMessage_decls =
     [Field 1 Implicit TString, Field 2 Implicit TEnum, Field 10 Repeated (TMsg ImageProto_decls), Field 13 Implicit TString,
      Field 18 Repeated (TMsg ToolResult_decls), Field 29 Implicit TBool, Field 32 Optional TString,
      Field 36 Repeated (TMsg WebReference_decls), Field 45 Optional (TMsg Thinking_decls), Field 47 Optional TEnum,
      Field 51 Packed TEnum, Field 62 Repeated (TMsg ComposerExternalLink_decls), Field 63 Optional TBool]"

(* ConversationMessageHeader: bubble_id, server_bubble_id, type *)
definition ConversationMessageHeader_decls :: "decl list" where
  "ConversationMessageHeader_decls =
     [Field 1 Implicit TString, Field 2 Optional TString, Field 3 Implicit TEnum]"

(* StreamUnifiedChatRequest: conversation, explicit_context, model_details, use_web, external_links, should_cache, current_file,
use_new_compression_scheme, is_chat, conversation_id, environment_info, is_agentic, supported_tools,
full_conversation_headers_only, mcp_tools, use_full_inputs_context, allow_model_fallbacks, unified_mode, should_disable_tools,
thinking_level, uses_rules, unified_mode_name *)
definition StreamUnifiedChatRequest_decls :: "decl list" where
  "StreamUnifiedChatRequest_decls =
     [Field 1 Repeated (TMsg ConversationMessage_decls), Field 3 Optional (TMsg ExplicitContext_decls),
      Field 5 Optional (TMsg ModelDetails_decls), Field 8 Optional TString, Field 9 Repeated (TMsg ComposerExternalLink_decls),
      Field 13 Optional TBool, Field 15 Optional (TMsg CurrentFileInfo_decls), Field 19 Optional TBool, Field 22 Implicit TBool,
      Field 23 Implicit TString, Field 26 Optional (TMsg EnvironmentInfo_decls), Field 27 Implicit TBool, Field 29 Packed TEnum,
      Field 30 Repeated (TMsg ConversationMessageHeader_decls), Field 34 Repeated (TMsg Tool_decls), Field 35 Optional TBool,
      Field 37 Optional TBool, Field 46 Optional TEnum, Field 48 Optional TBool, Field 49 Optional TEnum, Field 51 Optional TBool,
      Field 54 Optional TString]"

(* StreamUnifiedChatRequestWithTools: request *)
definition StreamUnifiedChatRequestWithTools_decls :: "decl list" where
  "StreamUnifiedChatRequestWithTools_decls =
     [Oneof [(1, TMsg StreamUnifiedChatRequest_decls), (2, TMsg ClientSideToolV2Result_decls)]]"

(* WebCitation: references *)
definition WebCitation_decls :: "decl list" where
  "WebCitation_decls =
     [Field 1 Repeated (TMsg WebReference_decls)]"

(* StreamUnifiedChatResponse: text, web_citation, thinking *)
definition StreamUnifiedChatResponse_decls :: "decl list" where
  "StreamUnifiedChatResponse_decls =
     [Field 1 Implicit TString, Field 11 Optional (TMsg WebCitation_decls), Field 25 Optional (TMsg Thinking_decls)]"

(* StreamUnifiedChatResponseWithTools: response *)
definition StreamUnifiedChatResponseWithTools_decls :: "decl list" where
  "StreamUnifiedChatResponseWithTools_decls =
     [Oneof [(1, TMsg ClientSideToolV2Call_decls), (2, TMsg StreamUnifiedChatResponse_decls)]]"

(* TokenCount: num_tokens *)
definition TokenCount_decls :: "decl list" where
  "TokenCount_decls =
     [Field 2 Optional TInt32]"

(* GetPromptDryRunResponse: user_message_token_count, full_conversation_token_count *)
definition GetPromptDryRunResponse_decls :: "decl list" where
  "GetPromptDryRunResponse_decls =
     [Field 4 Optional (TMsg TokenCount_decls), Field 5 Optional (TMsg TokenCount_decls)]"

(* AvailableModelsRequest: is_nightly, include_long_context_models, exclude_max_named_models, additional_model_names *)
definition AvailableModelsRequest_decls :: "decl list" where
  "AvailableModelsRequest_decls =
     [Field 1 Implicit TBool, Field 2 Implicit TBool, Field 3 Implicit TBool, Field 4 Repeated TString]"

(* TooltipData: primary_text, secondary_text, secondary_warning_text, icon, tertiary_text, tertiary_text_url, markdown_content *)
definition TooltipData_decls :: "decl list" where
  "TooltipData_decls =
     [Field 1 Implicit TString, Field 2 Implicit TString, Field 3 Implicit TBool, Field 4 Implicit TString,
      Field 5 Implicit TString, Field 6 Implicit TString, Field 7 Optional TString]"

(* AvailableModel: name, default_on, is_long_context_only, is_chat_only, supports_agent, degradation_status, price, tooltip_data,
supports_thinking, supports_images, supports_auto_context, auto_context_max_tokens, auto_context_extended_max_tokens,
supports_max_mode, context_token_limit, context_token_limit_for_max_mode, client_display_name, server_model_name,
supports_non_max_mode, tooltip_data_for_max_mode, is_recommended_for_background_composer, supports_plan_mode, is_user_added,
inputbox_short_model_name, supports_sandboxing, supports_cmd_k, only_supports_cmd_k, background_composer_sort_order *)
definition AvailableModel_decls :: "decl list" where
  "AvailableModel_decls =
     [Field 1 Implicit TString, Field 2 Implicit TBool, Field 3 Optional TBool, Field 4 Optional TBool, Field 5 Optional TBool,
      Field 6 Optional TEnum, Field 7 Optional TDouble, Field 8 Optional (TMsg TooltipData_decls), Field 9 Optional TBool,
      Field 10 Optional TBool, Field 11 Optional TBool, Field 12 Optional TInt32, Field 13 Optional TInt32,
      Field 14 Optional TBool, Field 15 Optional TInt32, Field 16 Optional TInt32, Field 17 Optional TString,
      Field 18 Optional TString, Field 19 Optional TBool, Field 20 Optional (TMsg TooltipData_decls), Field 21 Optional TBool,
      Field 22 Optional TBool, Field 23 Optional TBool, Field 24 Optional TString, Field 25 Optional TBool,
      Field 26 Optional TBool, Field 27 Optional TBool, Field 28 Optional TInt32]"

(* AvailableModelsResponse: models *)
definition AvailableModelsResponse_decls :: "decl list" where
  "AvailableModelsResponse_decls =
     [Field 2 Repeated (TMsg AvailableModel_decls)]"

(* GetServerConfigResponse: config_version *)
definition GetServerConfigResponse_decls :: "decl list" where
  "GetServerConfigResponse_decls =
     [Field 6 Implicit TString]"

definition lite_messages :: "decl list list" where
  "lite_messages =
     [CursorPosition_decls, EnvironmentInfo_decls, SimplestRange_decls, SimpleRange_decls, LineRange_decls, CursorRange_decls,
      DetailedLine_decls, Signatures_decls, GitCommit_decls, FileGit_decls, CodeBlock_decls, RelatedInformation_decls,
      Diagnostic_decls, Bm25Chunk_decls, Column_decls, DataframeInfo_decls, CurrentFileInfo_decls, AzureState_decls,
      ModelDetails_decls, LinterError_decls, LinterErrors_decls, ExplicitContext_decls, CustomErrorDetails_decls,
      ErrorDetails_decls, Dimension_decls, ImageProto_decls, ComposerExternalLink_decls, LspSubgraphPosition_decls,
      LspSubgraphRange_decls, LspSubgraphContextItem_decls, LspSubgraphFullContext_decls, FsUploadFileRequest_decls,
      FsUploadFileResponse_decls, SingleUpdateRequest_decls, FilesyncUpdateWithModelVersion_decls, FsSyncFileRequest_decls,
      FsSyncFileResponse_decls, CodeResult_decls, CppIntentInfo_decls, LspSuggestion_decls, LspSuggestedItems_decls,
      CppFileDiffHistory_decls, ModelWindow_decls, IRange_decls, Change_decls, BlockDiffPatch_decls, CppContextItem_decls,
      CppParameterHint_decls, AdditionalFile_decls, StreamCppRequest_decls, CursorPredictionTarget_decls, ModelInfo_decls,
      StreamCppResponse_decls, CppConfigRequest_decls, ImportPredictionConfig_decls, MergeBehavior_decls,
      RecentlyRejectedEditThresholds_decls, SuggestionHintConfig_decls, CppConfigResponse_decls,
      AvailableCppModelsResponse_decls, Tool_decls, McpParams_decls, ClientSideToolV2Call_decls, McpResult_decls,
      ClientSideToolV2Result_decls, ToolResult_decls, WebReference_decls, Thinking_decls, ConversationMessage_decls,
      ConversationMessageHeader_decls, StreamUnifiedChatRequest_decls, StreamUnifiedChatRequestWithTools_decls,
      WebCitation_decls, StreamUnifiedChatResponse_decls, StreamUnifiedChatResponseWithTools_decls, TokenCount_decls,
      GetPromptDryRunResponse_decls, AvailableModelsRequest_decls, TooltipData_decls, AvailableModel_decls,
      AvailableModelsResponse_decls, GetServerConfigResponse_decls]"

text \<open>The numbers of the fields are distinct and small, in every message.\<close>

lemma lite_messages_ok: "list_all schema_ok lite_messages"
  by code_simp

text \<open>C8: (src/core/aiserver/v1/lite.rs and patch/prost-0.14.1/src/encoding.rs, message.rs): each of the 82 message types of the
  protocol, with its nested messages, optional and repeated fields, packed numbers, oneofs and maps, is decoded from the bytes
  that encode_raw wrote for it, as long as its 32-bit integers are below 0x50000000, its strings are UTF-8, no single-precision
  field of it is set, and messages and lengths fit 64 bits.\<close>

theorem lite_messages_roundtrip:
  assumes "ds \<in> set lite_messages" and "readable_slots RECURSION_LIMIT ds ss"
  shows "message_decode ds (encode_raw ds ss) = Inr ss"
  using lite_messages_ok assms by (intro message_decode_encode) (auto simp: list_all_iff)

text \<open>An error with a title that has two bytes for one character, no detail, and a map with an entry whose value is empty.\<close>

definition sample_error :: "slot list" where
  "sample_error =
     [SOne (V32 7), SOpt (Some (VMsg [SOne (VStr [0x48, 0xC3, 0xA9]), SOne (VStr []), SMap [([0x6B], [])]])), SOpt (Some (VBool True))]"

lemma valid_string_iff: "valid_string s \<longleftrightarrow> valid_prefix s = length s \<and> length s < 2 ^ 64"
  by (simp add: valid_string_def is_valid_utf8_def utf8_valid_up_to_prefix)

lemma varint_len_leb: "varint_len n = leb_len (unat (of_nat n :: u64))" "varint32_len v = leb_len (unat v)"
  by (simp_all add: varint_len_def varint32_len_def encoded_len_varint64_eq encoded_len_varint32_eq del: unsigned_of_nat)

lemma sample_strings: "valid_prefix [0x48, 0xC3, 0xA9] = 3" "valid_prefix [0x6B] = 1" "valid_prefix [] = 0"
  by code_simp+

lemma sample_error_readable: "readable_slots RECURSION_LIMIT ErrorDetails_decls sample_error"
  by (simp add: ErrorDetails_decls_def CustomErrorDetails_decls_def sample_error_def RECURSION_LIMIT_def valid_string_iff sample_strings
    length_string length_entry map_entry_len_def string_encoded_len_def tag_len_def WireTypeBits_def varint_len_leb leb_len.simps)

text \<open>A message type with single-precision fields, none of them set: a line of code with its signature.\<close>

definition sample_line :: "slot list" where
  "sample_line = [SOne (VStr [0x6B]), SOne (VF32 0), SOne (VBool True)]"

lemma sample_line_readable: "readable_slots RECURSION_LIMIT DetailedLine_decls sample_line"
  by (simp add: DetailedLine_decls_def sample_line_def valid_string_iff sample_strings)

theorem lite_messages_roundtrip_witness:
  "ErrorDetails_decls \<in> set lite_messages \<and> readable_slots RECURSION_LIMIT ErrorDetails_decls sample_error \<and>
   message_decode ErrorDetails_decls (encode_raw ErrorDetails_decls sample_error) = Inr sample_error \<and>
   DetailedLine_decls \<in> set lite_messages \<and> readable_slots RECURSION_LIMIT DetailedLine_decls sample_line \<and>
   message_decode DetailedLine_decls (encode_raw DetailedLine_decls sample_line) = Inr sample_line"
proof -
  have m: "ErrorDetails_decls \<in> set lite_messages" "DetailedLine_decls \<in> set lite_messages" by (simp_all add: lite_messages_def)
  show ?thesis
    using m sample_error_readable lite_messages_roundtrip [OF m(1) sample_error_readable]
      sample_line_readable lite_messages_roundtrip [OF m(2) sample_line_readable] by simp
qed

section \<open>The mask of the wire type\<close>

lemma merge_field_error:
  assumes "length ss1 = length ds1" "n \<notin> set (concat (map decl_numbers ds1))" "n \<in> set (decl_numbers d)"
    "merge_slot rec ctx d s n wt buf = Inl e"
  shows "merge_field rec ctx (ds1 @ d # ds2) (ss1 @ s # ss2) n wt buf = Inl e"
  using assms by (induction ss1 ds1 rule: list_induct2) simp_all

text \<open>A field whose merge fails stops the message, whatever readable fields stand before it.\<close>

lemma message_decode_error:
  assumes ds: "schema_ok (ds1 @ ds2)" "readable_slots RECURSION_LIMIT ds1 ss1"
    and buf: "buf \<noteq> []" "decode_tag buf = Inr ((n, wt), b)"
    and err: "\<And>rec ctx. merge_field rec ctx (ds1 @ ds2) (ss1 @ map default_slot ds2) n wt b = Inl e"
  shows "message_decode (ds1 @ ds2) (encode_raw ds1 ss1 @ buf) = Inl e"
proof -
  let ?fuel = "length (encode_raw ds1 ss1 @ buf)"
  obtain f where f: "?fuel \<le> f + length (encode_raw ds1 ss1)"
    "merge_fields ?fuel RECURSION_LIMIT (ds1 @ ds2) (map default_slot ds1 @ map default_slot ds2) 0 (encode_raw ds1 ss1 @ buf) =
     merge_fields f RECURSION_LIMIT (ds1 @ ds2) (ss1 @ map default_slot ds2) 0 buf"
    using merge_fields_prefix [OF nested_all le0 ds(2), of "[]" ds2 "[]" ?fuel "map default_slot ds2" buf] ds(1) by auto
  obtain f' where "f = Suc f'" using f(1) buf(1) by (cases f) auto
  then show ?thesis using f(2) buf err by (simp add: message_decode_def)
qed

text \<open>Whether a slot holds a single-precision number that is written.\<close>

fun float_set :: "label \<Rightarrow> slot \<Rightarrow> bool" where
  "float_set Implicit (SOne (VF32 w)) \<longleftrightarrow> \<not> is_default (VF32 w)"
| "float_set Optional (SOpt (Some (VF32 w))) \<longleftrightarrow> True"
| "float_set Repeated (SRep (VF32 w # vs)) \<longleftrightarrow> True"
| "float_set _ _ \<longleftrightarrow> False"

lemma float_set_bytes: "float_set l s \<Longrightarrow> \<exists>w rest. encode_slot (Field n l TFloat) s = encode_val n TFloat (VF32 w) @ rest"
  by (cases "(l, s)" rule: float_set.cases) auto

text \<open>C37: (patch/prost-0.14.1/src/encoding.rs, const WireTypeMask: u32 = 3, and encoding/wire_type.rs, try_from_tag): the mask keeps
  two of the three bits of the wire type, so that the tag of a 32-bit field is read as that of a 64-bit field.  The encoding of a
  message in which a single-precision field is set, with any readable fields before it and anything after it, cannot be decoded:
  whatever the schema, the error is that of an unexpected wire type.  The fields concerned are score, line_number and
  check_filesync_hash_percent of five messages.\<close>

theorem float_field_unreadable:
  assumes "schema_ok (ds1 @ Field n l TFloat # ds2)" and "readable_slots RECURSION_LIMIT ds1 ss1" and "float_set l s"
  shows "message_decode (ds1 @ Field n l TFloat # ds2) (encode_raw (ds1 @ Field n l TFloat # ds2) (ss1 @ s # ss2) @ more) =
    Inl UnexpectedWireType"
proof -
  let ?d = "Field n l TFloat"
  have len: "length ss1 = length ds1" using assms(2) by (rule readable_slots_length)
  have at: "at_field ds1 ?d ds2 ss1" using assms(1) len by (simp add: at_field_def)
  note n = at_field_number [OF at, of n, simplified]
  obtain w rest where w: "encode_slot ?d s = encode_val n TFloat (VF32 w) @ rest" using float_set_bytes [OF assms(3)] by blast
  let ?buf = "encode_val n TFloat (VF32 w) @ rest @ encode_raw ds2 ss2 @ more"
  have "merge_slot rec ctx ?d (default_slot ?d) n SixtyFourBit buf = Inl UnexpectedWireType" for rec ctx buf
    by (cases l) (simp_all add: check_wire_type_def)
  then have "merge_field rec ctx (ds1 @ ?d # ds2) (ss1 @ map default_slot (?d # ds2)) n SixtyFourBit buf = Inl UnexpectedWireType"
    for rec ctx buf using merge_field_error [of ss1 ds1 n ?d] n(2) len by simp
  moreover have "decode_tag ?buf = Inr ((n, SixtyFourBit), u32_to_le_bytes w @ rest @ encode_raw ds2 ss2 @ more)"
    using decode_encode_tag [of n ThirtyTwoBit] n(3,4) by simp
  moreover have "?buf \<noteq> []" using tag_nonempty [of n ThirtyTwoBit] by auto
  ultimately have "message_decode (ds1 @ ?d # ds2) (encode_raw ds1 ss1 @ ?buf) = Inl UnexpectedWireType"
    by (intro message_decode_error [OF assms(1,2)])
  then show ?thesis using w len by (simp add: encode_raw_append)
qed

theorem float_field_unreadable_witness:
  "message_decode DetailedLine_decls (encode_raw DetailedLine_decls [SOne (VStr [0x6B]), SOne (VF32 0x3F800000), SOne (VBool True)]) =
     Inl UnexpectedWireType"
proof -
  have d: "DetailedLine_decls = [Field 1 Implicit TString] @ Field 2 Implicit TFloat # [Field 3 Implicit TBool]"
    by (simp add: DetailedLine_decls_def)
  have "message_decode ([Field 1 Implicit TString] @ Field 2 Implicit TFloat # [Field 3 Implicit TBool])
      (encode_raw ([Field 1 Implicit TString] @ Field 2 Implicit TFloat # [Field 3 Implicit TBool])
         ([SOne (VStr [0x6B])] @ SOne (VF32 0x3F800000) # [SOne (VBool True)]) @ []) = Inl UnexpectedWireType"
    by (rule float_field_unreadable) (simp_all add: valid_string_iff sample_strings)
  then show ?thesis unfolding d by simp
qed

end
