(* ===== verification/Message_Stream.thy ===== *)
theory Message_Stream
  imports Grpc_Decoder Prost_Schemas
begin

text \<open>
  The frames of \<open>src/common/utils/proto_encode.rs\<close> and \<open>grpc-stream\<close> around the messages of \<open>src/core/aiserver/v1/lite.rs\<close>: the
  contract that the framing relies on holds of every message type, so that only the deflate codec remains a parameter.
\<close>

definition prost_decode :: "decl list \<Rightarrow> bytes \<Rightarrow> slot list option" where
  "prost_decode ds data = (case message_decode ds data of Inr message \<Rightarrow> Some message | Inl _ \<Rightarrow> None)"

lemma lite_prost_contract:
  assumes "ds \<in> set lite_messages"
  shows "prost_contract (readable_slots RECURSION_LIMIT ds) (message_len ds) (encode_raw ds) (prost_decode ds)"
  using lite_messages_ok assms
  by (auto simp: prost_contract_def length_encoded prost_decode_def list_all_iff message_decode_encode)

text \<open>C7: (src/common/utils/proto_encode.rs, encode_message_framed; grpc-stream, decoder.rs and compression.rs; lite.rs; patch/prost):
  whatever sequence of messages of one of the 82 types is framed by the encoder, compressed or not, and however the frames are
  cut into chunks on the way, the default decoder delivers exactly that sequence and keeps no byte back.  The messages are ones that
  the decoder can read: 32-bit numbers in them are below 0x50000000, texts are UTF-8, no single-precision field is set.  What is relied on of
  the deflate codec is RFC 1952.\<close>

theorem framed_messages_roundtrip:
  assumes "ds \<in> set lite_messages" and "gzip_contract gz_encode gz_read_to_end"
    and "list_all2 (\<lambda>m f. encode_message_framed gz_encode (message_len ds) (encode_raw ds) m = Inr f) ms fs"
    and "list_all (readable_slots RECURSION_LIMIT ds) ms" and "concat cs = concat fs"
  shows "fst (run_chunks (decode_default gz_read_to_end (prost_decode ds)) stream_decoder_new cs) = ms \<and>
    sd_pending (snd (run_chunks (decode_default gz_read_to_end (prost_decode ds)) stream_decoder_new cs)) = []"
  using framed_stream_decode [OF lite_prost_contract [OF assms(1)] assms(2-5)] .

text \<open>The frame of the sample error, cut in two.\<close>

definition sample_frame :: bytes where
  "sample_frame = [0, 0, 0, 0, 16, 8, 7, 18, 10, 10, 3, 72, 195, 169, 58, 3, 10, 1, 107, 24, 1]"

lemma leb128_small: "n < 128 \<Longrightarrow> leb128 n = [of_nat n]"
  by (subst leb128.simps) simp

lemma sample_bytes: "encode_raw ErrorDetails_decls sample_error = drop 5 sample_frame" "message_len ErrorDetails_decls sample_error = 16"
  by (simp_all add: ErrorDetails_decls_def CustomErrorDetails_decls_def sample_error_def sample_frame_def string_encode_def encode_tag_def
    put_varint32_eq put_varint_eq WireTypeBits_def leb128_small map_entry_encode_def map_entry_len_def string_encoded_len_def tag_len_def
    varint_len_leb leb_len.simps encode_varint_bool_def)

lemma sample_framed:
  "encode_message_framed stored_gz_encode (message_len ErrorDetails_decls) (encode_raw ErrorDetails_decls) sample_error = Inr sample_frame"
  by (simp add: encode_message_framed_def sample_bytes try_compress_if_beneficial_def u32_to_be_bytes_def
    MAX_DECOMPRESSED_SIZE_BYTES_def COMPRESSION_THRESHOLD_def) (simp add: sample_frame_def)

theorem framed_messages_roundtrip_witness:
  "fst (run_chunks (decode_default stored_gz_read (prost_decode ErrorDetails_decls)) stream_decoder_new
     [take 3 sample_frame, drop 3 sample_frame]) = [sample_error]"
proof -
  have m: "ErrorDetails_decls \<in> set lite_messages" by (simp add: lite_messages_def)
  show ?thesis
    using framed_messages_roundtrip [OF m stored_gz_contract, of "[sample_error]" "[sample_frame]" "[take 3 sample_frame, drop 3 sample_frame]"]
      sample_framed sample_error_readable by simp
qed

text \<open>(src/common/utils/proto_encode.rs, encode_message_framed): framing fails exactly on messages above 4 MiB.  Otherwise the body
  of encoded_len bytes that is set up uninitialised is written completely by encode_raw, or replaced by a shorter compressed one;
  the frame is never longer than header plus encoded message and its length field counts the bytes after the header.  This holds
  for every message of every schema and whatever the compression returns.\<close>

theorem framed_size_bound:
  "(encode_message_framed gz_encode (message_len ds) (encode_raw ds) m = Inl ExceedSizeLimit \<longleftrightarrow> message_len ds m > MAX_DECOMPRESSED_SIZE_BYTES) \<and>
   (\<forall>f. encode_message_framed gz_encode (message_len ds) (encode_raw ds) m = Inr f \<longrightarrow>
      length f = 5 + frame_len_at f 0 \<and> length f \<le> 5 + message_len ds m)"
proof -
  have "prost_contract (\<lambda>_. False) (message_len ds) (encode_raw ds) (prost_decode ds)" by (simp add: prost_contract_def length_encoded)
  then show ?thesis by (rule framed_size)
qed

theorem framed_size_bound_witness:
  "encode_message_framed stored_gz_encode (message_len ErrorDetails_decls) (encode_raw ErrorDetails_decls) sample_error = Inr sample_frame \<and>
   length sample_frame = 5 + frame_len_at sample_frame 0 \<and> length sample_frame \<le> 5 + message_len ErrorDetails_decls sample_error"
  using framed_size_bound [of stored_gz_encode ErrorDetails_decls sample_error] sample_framed by blast

end
