(* ===== verification/Prost_Vec.thy ===== *)
theory Prost_Vec
  imports Prost_Packed Message_Stream
begin

text \<open>
  Messages that write themselves into a vector, as \<open>encode_message\<close> of \<open>src/common/utils/proto_encode.rs\<close> asks them to: the
  same functions of \<open>patch/prost-0.14.1\<close> as in \<open>Prost_Message\<close>, but packed numbers take the path of \<open>Prost_Packed\<close>.
\<close>

text \<open>\<open>Vec::with_capacity\<close>, and appending bytes.  The pieces of a field are appended together: where the vector grows in between
  does not show in its contents.\<close>

definition vec_with_capacity :: "usize \<Rightarrow> raw_vec" where
  "vec_with_capacity cap = \<lparr>alloc = 0, mem = replicate cap None, vlen = 0\<rparr>"

definition vec_put_slice :: "raw_vec \<Rightarrow> bytes \<Rightarrow> raw_vec" where
  "vec_put_slice v bs =
     (let v = vec_reserve v (length bs) in v\<lparr>mem := write_at (mem v) (vlen v) (map Some bs), vlen := vlen v + length bs\<rparr>)"

text \<open>\<open>encode_packed\<close> of the varint types; the vector it hands back is checked against the contract of its last \<open>set_len\<close>.  Packed
  doubles are written one by one.\<close>

definition packed_encode_vec :: "u32 \<Rightarrow> ftype \<Rightarrow> pval list \<Rightarrow> raw_vec \<Rightarrow> raw_vec outcome" where
  "packed_encode_vec n t vs v =
     (if vs = [] then Done v
      else if t = TDouble then Done (vec_put_slice v (packed_encode n vs))
      else bind_outcome (encode_packed_fast_impl (vec_put_slice v (encode_tag n LengthDelimited)) (map encode_number vs)) (\<lambda>v.
             if vec_initialised v then Done v else UB))"

fun vec_val :: "u32 \<Rightarrow> ftype \<Rightarrow> pval \<Rightarrow> raw_vec \<Rightarrow> raw_vec outcome"
  and vec_vals :: "u32 \<Rightarrow> ftype \<Rightarrow> pval list \<Rightarrow> raw_vec \<Rightarrow> raw_vec outcome"
  and vec_slot :: "decl \<Rightarrow> slot \<Rightarrow> raw_vec \<Rightarrow> raw_vec outcome"
  and vec_raw :: "decl list \<Rightarrow> slot list \<Rightarrow> raw_vec \<Rightarrow> raw_vec outcome" where
  "vec_val n t x v =
     (case (t, x) of
        (TMsg ds, VMsg ss) \<Rightarrow> vec_raw ds ss (vec_put_slice v (encode_tag n LengthDelimited @ put_varint (message_len ds ss)))
      | _ \<Rightarrow> Done (vec_put_slice v (encode_val n t x)))"
| "vec_vals n t [] v = Done v"
| "vec_vals n t (x # xs) v = bind_outcome (vec_val n t x v) (\<lambda>v. vec_vals n t xs v)"
| "vec_slot (Field n Implicit t) (SOne x) v = (if is_default x then Done v else vec_val n t x v)"
| "vec_slot (Field n Optional t) (SOpt ox) v = (case ox of None \<Rightarrow> Done v | Some x \<Rightarrow> vec_val n t x v)"
| "vec_slot (Field n Repeated t) (SRep xs) v = vec_vals n t xs v"
| "vec_slot (Field n Packed t) (SRep xs) v = packed_encode_vec n t xs v"
| "vec_slot (Oneof alts) (SOneof ox) v =
     (case ox of None \<Rightarrow> Done v | Some (n, x) \<Rightarrow> (case map_of alts n of None \<Rightarrow> Done v | Some t \<Rightarrow> vec_val n t x v))"
| "vec_slot (StrMap n) (SMap kvs) v = Done (vec_put_slice v (concat (map (map_entry_encode n) kvs)))"
| "vec_slot _ _ v = Done v"
| "vec_raw (d # ds) (s # ss) v = bind_outcome (vec_slot d s v) (\<lambda>v. vec_raw ds ss v)"
| "vec_raw _ _ v = Done v"

definition encode_raw_vec :: "decl list \<Rightarrow> slot list \<Rightarrow> bytes outcome" where
  "encode_raw_vec ds ss =
     bind_outcome (vec_raw ds ss (vec_with_capacity (message_len ds ss))) (\<lambda>v. Done (map the (take (vlen v) (mem v))))"

section \<open>What the vector holds\<close>

text \<open>Messages without packed integers, here or in a message inside.\<close>

fun plain_val :: "ftype \<Rightarrow> pval \<Rightarrow> bool" and plain_slot :: "decl \<Rightarrow> slot \<Rightarrow> bool" and plain_message :: "decl list \<Rightarrow> slot list \<Rightarrow> bool" where
  "plain_val (TMsg ds) (VMsg ss) \<longleftrightarrow> plain_message ds ss"
| "plain_val _ _ \<longleftrightarrow> True"
| "plain_slot (Field n Implicit t) (SOne x) \<longleftrightarrow> is_default x \<or> plain_val t x"
| "plain_slot (Field n Optional t) (SOpt ox) \<longleftrightarrow> (case ox of None \<Rightarrow> True | Some x \<Rightarrow> plain_val t x)"
| "plain_slot (Field n Repeated t) (SRep xs) \<longleftrightarrow> list_all (plain_val t) xs"
| "plain_slot (Field n Packed t) (SRep xs) \<longleftrightarrow> xs = [] \<or> t = TDouble"
| "plain_slot (Oneof alts) (SOneof ox) \<longleftrightarrow>
     (case ox of None \<Rightarrow> True | Some (n, x) \<Rightarrow> (case map_of alts n of None \<Rightarrow> True | Some t \<Rightarrow> plain_val t x))"
| "plain_slot (StrMap n) (SMap kvs) \<longleftrightarrow> True"
| "plain_slot _ _ \<longleftrightarrow> True"
| "plain_message (d # ds) (s # ss) \<longleftrightarrow> plain_slot d s \<and> plain_message ds ss"
| "plain_message _ _ \<longleftrightarrow> True"

text \<open>A vector with the bytes \<open>bs\<close>, and free space that was never written.\<close>

definition vec_holds :: "raw_vec \<Rightarrow> bytes \<Rightarrow> bool" where
  "vec_holds v bs \<longleftrightarrow> vlen v = length bs \<and> (\<exists>k. mem v = map Some bs @ replicate k None)"

lemma vec_holds_new: "vec_holds (vec_with_capacity cap) []"
  by (simp add: vec_holds_def vec_with_capacity_def)

lemma vec_holdsD: "vec_holds v bs \<Longrightarrow> vlen v = length bs" "vec_holds v bs \<Longrightarrow> vec_ok v"
  "vec_holds v bs \<Longrightarrow> take (vlen v) (mem v) = map Some bs" "vec_holds v bs \<Longrightarrow> set (drop (vlen v) (mem v)) \<subseteq> {None}"
  by (auto simp: vec_holds_def vec_ok_def)

lemma vec_reserve_holds: "vec_holds v bs \<Longrightarrow> vec_holds (vec_reserve v n) bs"
  by (auto simp: vec_holds_def vec_reserve_def Let_def)

lemma vec_put_slice_holds:
  assumes "vec_holds v bs"
  shows "vec_holds (vec_put_slice v cs) (bs @ cs)"
proof -
  let ?r = "vec_reserve v (length cs)"
  have r: "vec_holds ?r bs" using assms by (rule vec_reserve_holds)
  then obtain k where k: "vlen ?r = length bs" "mem ?r = map Some bs @ replicate k None" by (auto simp: vec_holds_def)
  have "length cs \<le> k" using vec_reserve_room [of v "length cs"] vec_holdsD(2) [OF assms] k by simp
  then show ?thesis using k by (simp add: vec_put_slice_def vec_holds_def write_at_def Let_def)
qed

lemma packed_encode_vec_exact:
  assumes v: "vec_holds v bs" and len: "length (packed_encode n vs) < 2 ^ 63"
  shows "if vs = [] \<or> t = TDouble then \<exists>v'. packed_encode_vec n t vs v = Done v' \<and> vec_holds v' (bs @ packed_encode n vs)
    else packed_encode_vec n t vs v = UB"
proof (cases "vs = [] \<or> t = TDouble")
  case True
  then show ?thesis using v vec_put_slice_holds [OF v, of "packed_encode n vs"]
    by (cases "vs = []") (auto simp: packed_encode_vec_def packed_encode_def)
next
  case False
  let ?t = "encode_tag n LengthDelimited" and ?encs = "map encode_number vs"
  let ?v = "vec_put_slice v ?t"
  have h: "vec_holds ?v (bs @ ?t)" using v by (rule vec_put_slice_holds)
  have "1 \<le> vlen ?v" using vec_holdsD(1) [OF h] tag_nonempty [of n LengthDelimited] by (simp del: length_greater_0_conv)
  moreover have "length (concat ?encs) < 2 ^ 63" using len False by (simp add: packed_encode_def)
  ultimately consider "encode_packed_fast_impl ?v ?encs = UB"
    | v' where "encode_packed_fast_impl ?v ?encs = Done v'" "\<not> vec_initialised v'"
    using packed_vector_corrupted [OF vec_holdsD(2) [OF h] _ vec_holdsD(4) [OF h]] by blast
  then show ?thesis
  proof cases
    case 2
    then have "packed_encode_vec n t vs v = (if vec_initialised v' then Done v' else UB)" using False by (simp add: packed_encode_vec_def)
    then show ?thesis using 2 False by simp
  qed (use False in \<open>simp add: packed_encode_vec_def\<close>)
qed

text \<open>What writing comes to, for a part of a message with the encoding \<open>bs\<close>: it is appended, or there were packed integers in
  it.\<close>

definition writes :: "bool \<Rightarrow> bytes \<Rightarrow> (raw_vec \<Rightarrow> raw_vec outcome) \<Rightarrow> bool" where
  "writes plain bs put \<longleftrightarrow>
     (length bs < 2 ^ 63 \<longrightarrow>
      (\<forall>v cs. vec_holds v cs \<longrightarrow> (if plain then \<exists>v'. put v = Done v' \<and> vec_holds v' (cs @ bs) else put v = UB)))"

lemma writes_nothing: "writes True [] Done"
  by (auto simp: writes_def)

lemma writes_slice: "writes True bs (\<lambda>v. Done (vec_put_slice v bs))"
  by (auto simp: writes_def vec_put_slice_holds)

lemma writes_packed: "writes (vs = [] \<or> t = TDouble) (packed_encode n vs) (packed_encode_vec n t vs)"
  unfolding writes_def using packed_encode_vec_exact by blast

lemma writes_then:
  assumes "writes p bs f" "writes q cs g"
  shows "writes (p \<and> q) (bs @ cs) (\<lambda>v. bind_outcome (f v) (\<lambda>v. g v))"
  unfolding writes_def
proof (intro impI allI)
  fix v ds
  assume len: "length (bs @ cs) < 2 ^ 63" and v: "vec_holds v ds"
  then have f: "if p then \<exists>v'. f v = Done v' \<and> vec_holds v' (ds @ bs) else f v = UB" using assms(1) by (simp add: writes_def)
  have g: "if q then \<exists>v'. g u = Done v' \<and> vec_holds v' ((ds @ bs) @ cs) else g u = UB" if "vec_holds u (ds @ bs)" for u
    using assms(2) that len unfolding writes_def length_append by (meson add_lessD1 le_add2 le_less_trans)
  show "if p \<and> q then \<exists>v'. bind_outcome (f v) (\<lambda>v. g v) = Done v' \<and> vec_holds v' (ds @ bs @ cs)
    else bind_outcome (f v) (\<lambda>v. g v) = UB"
    using f g by (cases p; cases q) auto
qed

lemma writes_after: "writes q cs g \<Longrightarrow> writes q (bs @ cs) (\<lambda>v. g (vec_put_slice v bs))"
  using writes_then [OF writes_slice, of q cs g bs] by simp

lemma vec_equations:
  "vec_vals n t [] = Done"
  "vec_vals n t (x # xs) = (\<lambda>v. bind_outcome (vec_val n t x v) (vec_vals n t xs))"
  "vec_slot (Field n Implicit t) (SOne x) = (if is_default x then Done else vec_val n t x)"
  "vec_slot (Field n Optional t) (SOpt ox) = (case ox of None \<Rightarrow> Done | Some x \<Rightarrow> vec_val n t x)"
  "vec_slot (Field n Repeated t) (SRep xs) = vec_vals n t xs"
  "vec_slot (Field n Packed t) (SRep xs) = packed_encode_vec n t xs"
  "vec_slot (Oneof alts) (SOneof oy) =
     (case oy of None \<Rightarrow> Done | Some (n, x) \<Rightarrow> (case map_of alts n of None \<Rightarrow> Done | Some t \<Rightarrow> vec_val n t x))"
  "vec_slot (StrMap n) (SMap kvs) = (\<lambda>v. Done (vec_put_slice v (concat (map (map_entry_encode n) kvs))))"
  "vec_raw (d # ds) (s # ss) = (\<lambda>v. bind_outcome (vec_slot d s v) (vec_raw ds ss))"
  by (rule ext, simp split: option.splits)+

lemmas writes_rules = writes_nothing writes_slice writes_packed writes_then

lemma writes_vals: "(\<And>x. x \<in> set xs \<Longrightarrow> writes (plain_val t x) (encode_val n t x) (vec_val n t x)) \<Longrightarrow>
  writes (list_all (plain_val t) xs) (concat (map (encode_val n t) xs)) (vec_vals n t xs)"
  by (induction xs) (simp_all add: vec_equations writes_rules del: vec_val.simps)

lemma vec_writes:
  "\<And>n. writes (plain_val t x) (encode_val n t x) (vec_val n t x)"
  "writes (plain_slot d s) (encode_slot d s) (vec_slot d s)"
  "writes (plain_message ds ss) (encode_raw ds ss) (vec_raw ds ss)"
proof (induction t x and d s and ds ss rule: plain_val_plain_slot_plain_message.induct)
  case (1 ds ss)
  have "vec_val n (TMsg ds) (VMsg ss) =
    (\<lambda>v. vec_raw ds ss (vec_put_slice v (encode_tag n LengthDelimited @ put_varint (message_len ds ss))))" for n by (rule ext) simp
  then show ?case using writes_after [OF 1, of "encode_tag _ LengthDelimited @ put_varint (message_len ds ss)"] by simp
next
  case (3 n t x)
  then show ?case by (simp add: vec_equations writes_rules del: vec_val.simps)
next
  case (4 n t ox)
  then show ?case by (cases ox) (simp_all add: vec_equations writes_rules del: vec_val.simps)
next
  case (5 n t xs)
  then show ?case using writes_vals [of xs t n] by (simp add: vec_equations del: vec_val.simps)
next
  case (6 n t xs)
  then show ?case by (simp add: vec_equations writes_rules del: vec_val.simps)
next
  case (7 alts ox)
  then show ?case by (auto simp: vec_equations writes_rules simp del: vec_val.simps split: option.splits)
next
  case (8 n kvs)
  then show ?case by (simp add: vec_equations writes_rules)
next
  fix d ds s ss
  assume "writes (plain_slot d s) (encode_slot d s) (vec_slot d s)" "writes (plain_message ds ss) (encode_raw ds ss) (vec_raw ds ss)"
  then show "writes (plain_message (d # ds) (s # ss)) (encode_raw (d # ds) (s # ss)) (vec_raw (d # ds) (s # ss))"
    by (simp add: vec_equations writes_then)
qed (simp_all add: writes_def vec_put_slice_holds split: ftype.split)

lemma encode_raw_vec_exact:
  "length (encode_raw ds ss) < 2 ^ 63 \<Longrightarrow> encode_raw_vec ds ss = (if plain_message ds ss then Done (encode_raw ds ss) else UB)"
  using vec_writes(3) [of ds ss] vec_holds_new [of "message_len ds ss"]
  by (fastforce simp: writes_def encode_raw_vec_def vec_holdsD(3) split: if_splits)

text \<open>C9: (src/common/utils/proto_encode.rs, encode_message; patch/prost-0.14.1, encode_packed into a vector): encode_message refuses
  exactly the messages above 4 MiB.  A message without packed integers, neither its own nor in a message inside, comes out as its
  encoding, or as the compression of it when that is shorter.  A message with a packed integer field that is not empty has
  undefined behaviour: the length is written to the start of the vector, which may have moved, and the vector is handed back
  with bytes that were never written.  This holds for every schema and every message.\<close>

theorem encode_message_exact:
  "encode_message gz_encode (message_len ds) (encode_raw_vec ds) m =
     (if message_len ds m > MAX_DECOMPRESSED_SIZE_BYTES then Done (Inl ExceedSizeLimit)
      else if \<not> plain_message ds m then UB
      else Done (Inr (if COMPRESSION_THRESHOLD < length (encode_raw ds m) \<and>
                         length (compress_gzip gz_encode (encode_raw ds m)) < length (encode_raw ds m)
                      then (compress_gzip gz_encode (encode_raw ds m), True) else (encode_raw ds m, False))))"
proof (cases "message_len ds m > MAX_DECOMPRESSED_SIZE_BYTES")
  case False
  then have "length (encode_raw ds m) < 2 ^ 63" by (simp add: length_encoded MAX_DECOMPRESSED_SIZE_BYTES_def)
  then show ?thesis using False
    by (simp add: encode_message_def encode_raw_vec_exact try_compress_if_beneficial_def Let_def)
qed (simp add: encode_message_def)

end
