(* ===== verification/Direct_Decode.thy ===== *)
theory Direct_Decode
  imports Message_Stream
begin

text \<open>
  Answers that are not streams: \<open>src/core/stream/decoder/direct.rs\<close> with \<open>types.rs\<close> and \<open>string_from_utf8\<close> of \<open>utils.rs\<close>.  An answer is
  a message in a frame, a message without one, or a text.
\<close>

datatype 'm decoded_message = Protobuf 'm | DecodedText str

datatype decoder_error = Internal str

definition string_from_utf8 :: "bytes \<Rightarrow> str option" where
  "string_from_utf8 v = (if is_valid_utf8 0 v = Done True then Some v else None)"

text \<open>The last lines of \<open>decode\<close>, which are those inside the frame as well.\<close>

definition parse_payload :: "decl list \<Rightarrow> bytes \<Rightarrow> slot list decoded_message option" where
  "parse_payload ds data =
     (case message_decode ds data of Inr msg \<Rightarrow> Some (Protobuf msg) | Inl _ \<Rightarrow> map_option DecodedText (string_from_utf8 data))"

definition direct_decode :: "(bytes \<Rightarrow> bytes option) \<Rightarrow> decl list \<Rightarrow> bytes \<Rightarrow> decoder_error + slot list decoded_message" where
  "direct_decode gz_read_to_end ds data =
     (let framed =
        (if 5 \<le> length data \<and> data ! 0 \<le> 1
         then let is_compressed = (data ! 0 = 1); msg_len = unat (u32_from_be_bytes [data ! 1, data ! 2, data ! 3, data ! 4])
              in if length data = 5 + msg_len
                 then let payload = drop 5 data
                      in case (if is_compressed then decompress_gzip gz_read_to_end payload else Some payload) of
                           None \<Rightarrow> Some (Inl (Internal (bytes_of ''decompress error'')))
                         | Some decompressed \<Rightarrow> map_option Inr (parse_payload ds decompressed)
                 else None
         else None)
      in case framed of
           Some r \<Rightarrow> r
         | None \<Rightarrow> (case parse_payload ds data of Some r \<Rightarrow> Inr r | None \<Rightarrow> Inl (Internal (bytes_of ''decode error''))))"

section \<open>The first byte of a message\<close>

lemma leb128_head: "8 \<le> n \<Longrightarrow> n < 2 ^ 32 \<Longrightarrow> \<exists>b bs. leb128 n = b # bs \<and> (1 :: u8) < b"
proof (cases "n < 128")
  case True
  assume "8 \<le> n"
  then show ?thesis using True by (subst leb128.simps) (simp add: word_less_nat_alt unat_of_nat take_bit_nat_eq_self)
next
  case False
  have "n mod 128 + 128 < 2 ^ 8" using mod_less_divisor [of 128 n] by simp
  then have "unat (of_nat (n mod 128 + 128) :: u8) = n mod 128 + 128" unfolding unat_of_nat by (simp add: take_bit_nat_eq_self)
  then have "(1 :: u8) < of_nat (n mod 128 + 128)" unfolding word_less_nat_alt by simp
  then show ?thesis using False by (subst leb128.simps) simp
qed

lemma encode_tag_head:
  assumes "0 < n" "unat n < 0x0A000000"
  shows "\<exists>b bs. encode_tag n wt = b # bs \<and> 1 < b"
proof -
  have n: "unat n < 2 ^ 29" using assms(2) by simp
  have "0 < unat n" using assms(1) by (simp add: word_less_nat_alt)
  then have "8 \<le> 8 * unat n + wire_code_nat wt" by linarith
  moreover have "8 * unat n + wire_code_nat wt < 2 ^ 32" using assms(2) wire_code_of_nat(2) [of wt] by simp
  ultimately show ?thesis using leb128_head unfolding encode_tag_def put_varint32_eq tag_value [OF n] by blast
qed

lemma encode_val_head: "\<exists>wt bs. encode_val n t v = encode_tag n wt @ bs"
  by (cases t; cases v) (auto simp: string_encode_def)

lemma concat_map_head: "concat (map f xs) = [] \<or> (\<exists>x bs. x \<in> set xs \<and> concat (map f xs) = f x @ bs)"
  by (cases xs) auto

text \<open>Either nothing, or something that starts with a tag of these numbers.\<close>

definition starts_with_tag :: "u32 set \<Rightarrow> bytes \<Rightarrow> bool" where
  "starts_with_tag ns bs \<longleftrightarrow> bs = [] \<or> (\<exists>n wt rest. n \<in> ns \<and> bs = encode_tag n wt @ rest)"

lemma starts_with_tag_val: "n \<in> ns \<Longrightarrow> starts_with_tag ns (encode_val n t v)"
  using encode_val_head [of n t v] by (auto simp: starts_with_tag_def)

lemma starts_with_tag_more: "n \<in> ns \<Longrightarrow> starts_with_tag ns (encode_tag n wt @ rest)"
  by (auto simp: starts_with_tag_def)

lemma starts_with_tag_append:
  assumes "starts_with_tag ns a" "starts_with_tag ns b"
  shows "starts_with_tag ns (a @ b)"
proof (cases "a = []")
  case False
  then obtain n wt r where "n \<in> ns" "a = encode_tag n wt @ r" using assms(1) by (auto simp: starts_with_tag_def)
  then show ?thesis using starts_with_tag_more [of n ns wt "r @ b"] by simp
qed (use assms in simp)

lemma starts_with_tag_mono: "starts_with_tag ns a \<Longrightarrow> ns \<subseteq> ms \<Longrightarrow> starts_with_tag ms a"
  unfolding starts_with_tag_def by blast

lemma starts_with_tag_concat: "(\<And>x. x \<in> set xs \<Longrightarrow> starts_with_tag ns (f x)) \<Longrightarrow> starts_with_tag ns (concat (map f xs))"
  by (induction xs) (simp_all add: starts_with_tag_append, simp add: starts_with_tag_def)

lemma encode_slot_head: "starts_with_tag (set (decl_numbers d)) (encode_slot d s)"
proof (cases d)
  case (Field n l t)
  have "starts_with_tag {n} (packed_encode n vs)" for vs
    by (auto simp: packed_encode_def starts_with_tag_def)
  moreover have "starts_with_tag {n} []" by (simp add: starts_with_tag_def)
  ultimately show ?thesis unfolding Field
    by (cases l; cases s) (auto intro!: starts_with_tag_val starts_with_tag_concat split: option.splits)
next
  case (Oneof alts)
  have "starts_with_tag ns []" for ns by (simp add: starts_with_tag_def)
  then show ?thesis unfolding Oneof
    by (cases s) (auto intro!: starts_with_tag_val split: option.splits, metis domI dom_map_of_conv_image_fst)
next
  case (StrMap n)
  have "starts_with_tag {n} (map_entry_encode n kv)" for kv unfolding map_entry_encode_def by (rule starts_with_tag_more) simp
  moreover have "starts_with_tag {n} []" by (simp add: starts_with_tag_def)
  ultimately show ?thesis unfolding StrMap by (cases s) (auto intro!: starts_with_tag_concat)
qed

lemma encode_raw_head: "starts_with_tag (set (concat (map decl_numbers ds))) (encode_raw ds ss)"
proof (induction ds arbitrary: ss)
  case (Cons d ds)
  show ?case
  proof (cases ss)
    case (Cons s ss')
    show ?thesis unfolding Cons
      by (simp, rule starts_with_tag_append) (rule starts_with_tag_mono [OF encode_slot_head], simp, rule starts_with_tag_mono [OF Cons.IH], simp)
  qed (simp add: starts_with_tag_def)
qed (simp add: starts_with_tag_def)

text \<open>So that a message is never taken for a frame.\<close>

lemma encode_raw_no_frame:
  assumes "schema_ok ds" "encode_raw ds ss \<noteq> []"
  shows "1 < encode_raw ds ss ! 0"
proof -
  obtain n wt rest where n: "n \<in> set (concat (map decl_numbers ds))" "encode_raw ds ss = encode_tag n wt @ rest"
    using encode_raw_head [of ds ss] assms(2) by (auto simp: starts_with_tag_def)
  have "0 < n" "unat n < 0x0A000000" using assms(1) n(1) by (auto simp: list_all_iff word_less_nat_alt)
  then show ?thesis using encode_tag_head [of n wt] n(2) by auto
qed

section \<open>Groups\<close>

text \<open>Because of the mask, the end of a group is never seen, and skipping one fails.\<close>

lemma decode_tag_no_end: "decode_tag buf = Inr ((n, EndGroup), rest) \<Longrightarrow> False"
proof -
  assume "decode_tag buf = Inr ((n, EndGroup), rest)"
  then obtain tag where t: "wire_type_try_from (tag AND WireTypeMask) = Some EndGroup"
    by (cases "get_varint32 buf") (auto simp: decode_tag_def try_from_tag_def split: option.splits if_splits)
  have "unat (tag AND WireTypeMask) < 4" unfolding low_two_bits by simp
  moreover have "unat (tag AND WireTypeMask) = 4" using t by (auto simp: wire_type_try_from_def split: if_splits)
  ultimately show False by simp
qed

lemma skip_group_fails: "\<exists>e. skip_group fuel ctx number buf = Inl e"
proof (induction fuel arbitrary: buf)
  case (Suc fuel)
  show ?case
  proof (cases "decode_tag buf")
    case (Inr p)
    obtain n wt b where p: "p = ((n, wt), b)" by (metis prod.exhaust)
    have "wt \<noteq> EndGroup" using Inr p decode_tag_no_end by blast
    then show ?thesis using Inr p Suc.IH by (cases "skip_field fuel (ctx - 1) wt n b") (simp_all del: skip_field.simps)
  qed simp
qed simp

lemma skip_start_group_fails: "\<exists>e. skip_field fuel ctx StartGroup number buf = Inl e"
  using skip_group_fails [of fuel ctx number buf] by auto

lemma merge_val_group_fails: "\<exists>e. merge_val rec ctx t (default_val t) StartGroup buf = Inl e"
  by (cases t) (simp_all add: message_merge_def string_merge_def bytes_merge_def check_wire_type_def)

lemma merge_slot_group_fails:
  "n \<in> set (decl_numbers d) \<Longrightarrow> d \<noteq> StrMap n \<Longrightarrow> \<exists>e. merge_slot rec ctx d (default_slot d) n StartGroup buf = Inl e"
proof (cases d)
  case (Field m l t)
  then show ?thesis using merge_val_group_fails [of rec ctx t buf]
    by (cases l; cases t) (auto simp: check_wire_type_def)
next
  case (Oneof alts)
  assume "n \<in> set (decl_numbers d)"
  then obtain t where "map_of alts n = Some t" using Oneof by (cases "map_of alts n") (auto simp: map_of_eq_None_iff)
  then show ?thesis using Oneof merge_val_group_fails [of rec ctx t buf] by auto
qed auto

lemma merge_field_group_fails:
  "StrMap n \<notin> set ds \<Longrightarrow> \<exists>e. merge_field rec ctx ds (map default_slot ds) n StartGroup buf = Inl e"
proof (induction ds)
  case Nil
  then show ?case using skip_start_group_fails [of "Suc (length buf)" ctx n buf] by auto
next
  case (Cons d ds)
  show ?case
  proof (cases "n \<in> set (decl_numbers d)")
    case True
    then show ?thesis using merge_slot_group_fails [OF True, of rec ctx buf] Cons.prems by auto
  qed (use Cons in auto)
qed

lemma decode_tag_brace: "decode_tag (0x7B # s) = Inr ((15, StartGroup), s)"
proof -
  have "get_varint32 (0x7B # s) = Inr (0x7B, s)" by (simp add: get_varint32_def decode_varint32_def)
  then show ?thesis by (simp add: decode_tag_def try_from_tag_def WireTypeMask_def WireTypeBits_def wire_type_try_from_def)
qed

lemma brace_no_message:
  assumes "StrMap 15 \<notin> set ds"
  shows "\<exists>e. message_decode ds (0x7B # s) = Inl e"
proof -
  obtain e where "merge_field (merge_fields (length s)) RECURSION_LIMIT ds (map default_slot ds) 15 StartGroup s = Inl e"
    using merge_field_group_fails [OF assms] by blast
  then show ?thesis by (simp add: message_decode_def decode_tag_brace)
qed

section \<open>What is decoded\<close>

text \<open>C21: (src/core/stream/decoder/direct.rs, decode): a message of the protocol is recognised both as it is and in the frame that
  encode_message_framed puts it in, compressed or not, although nothing says which of the two it is: no message starts with the
  byte 0 or 1 that starts a frame.  The message is one that the decoder can read: 32-bit numbers in it are below 0x50000000, texts
  are UTF-8, and no single-precision field is set.\<close>

theorem direct_decode_roundtrip:
  assumes "ds \<in> set lite_messages" and "readable_slots RECURSION_LIMIT ds m" and "gzip_contract gz_encode gz_read_to_end"
    and "encode_message_framed gz_encode (message_len ds) (encode_raw ds) m = Inr f"
  shows "direct_decode gz_read_to_end ds (encode_raw ds m) = Inr (Protobuf m) \<and> direct_decode gz_read_to_end ds f = Inr (Protobuf m)"
proof
  have ok: "schema_ok ds" using assms(1) lite_messages_ok by (simp add: list_all_iff)
  have dec: "message_decode ds (encode_raw ds m) = Inr m" by (rule message_decode_encode [OF ok assms(2)])
  have "\<not> (5 \<le> length (encode_raw ds m) \<and> encode_raw ds m ! 0 \<le> 1)" using encode_raw_no_frame [OF ok, of m] by fastforce
  then show "direct_decode gz_read_to_end ds (encode_raw ds m) = Inr (Protobuf m)"
    by (simp add: direct_decode_def parse_payload_def dec)
  show "direct_decode gz_read_to_end ds f = Inr (Protobuf m)"
  proof (rule encode_message_framed_frame [OF lite_prost_contract [OF assms(1)] assms(4)])
    fix ty body
    assume *: "f = frame_bytes \<lparr>msg_type = ty, msg_data = body\<rparr>" "length body \<le> MAX_DECOMPRESSED_SIZE_BYTES"
      "ty = 0 \<and> body = encode_raw ds m \<or> ty = 1 \<and> body = compress_gzip gz_encode (encode_raw ds m)"
      "length (encode_raw ds m) \<le> MAX_DECOMPRESSED_SIZE_BYTES"
    obtain a b c d where l: "u32_to_be_bytes (of_nat (length body)) = [a, b, c, d]" by (simp add: u32_to_be_bytes_def)
    have f: "f = ty # a # b # c # d # body" using *(1) l by (simp add: frame_bytes_def)
    have "u32_from_be_bytes [a, b, c, d] = of_nat (length body)" using l u32_be_roundtrip by metis
    then have "unat (u32_from_be_bytes [a, b, c, d]) = length body"
      using *(2) by (simp add: unat_of_nat take_bit_nat_eq_self MAX_DECOMPRESSED_SIZE_BYTES_def)
    then show ?thesis using *(3) gzip_contractD [OF assms(3) *(4)]
      by (auto simp: f direct_decode_def parse_payload_def dec numeral_eq_Suc)
  qed
qed

text \<open>C22: (src/core/stream/decoder/direct.rs, decode; patch/prost, skip_field): an answer that is a JSON object, as the backend sends for
  errors, is delivered as a text exactly when it is UTF-8, whatever it contains and whichever message was expected: it is never
  mistaken for a message, because its first character starts a group.\<close>

theorem json_answer_is_text:
  assumes "ds \<in> set lite_messages"
  shows "direct_decode gz_read_to_end ds (0x7B # s) =
    (if is_valid_utf8 0 (0x7B # s) = Done True then Inr (DecodedText (0x7B # s)) else Inl (Internal (bytes_of ''decode error'')))"
proof -
  have "list_all (\<lambda>ds. StrMap 15 \<notin> set ds) lite_messages" by code_simp
  then have "StrMap 15 \<notin> set ds" using assms by (auto simp: list_all_iff)
  from brace_no_message [OF this, of s] obtain e where "message_decode ds (0x7B # s) = Inl e" by blast
  moreover have "\<not> (0x7B :: u8) \<le> 1" by (simp add: word_le_nat_alt)
  ultimately show ?thesis by (simp add: direct_decode_def parse_payload_def string_from_utf8_def)
qed

theorem json_answer_is_text_witness:
  "ErrorDetails_decls \<in> set lite_messages \<and>
   direct_decode stored_gz_read ErrorDetails_decls [0x7B, 0x7D] = Inr (DecodedText [0x7B, 0x7D])"
proof -
  have m: "ErrorDetails_decls \<in> set lite_messages" by (simp add: lite_messages_def)
  have "valid_prefix [0x7B, 0x7D] = 2" by code_simp
  then have "is_valid_utf8 0 [0x7B, 0x7D] = Done True" by (simp add: is_valid_utf8_def utf8_valid_up_to_prefix)
  then show ?thesis using m json_answer_is_text [OF m, of stored_gz_read "[0x7D]"] by simp
qed

theorem direct_decode_roundtrip_witness:
  "direct_decode stored_gz_read ErrorDetails_decls (drop 5 sample_frame) = Inr (Protobuf sample_error) \<and>
   direct_decode stored_gz_read ErrorDetails_decls sample_frame = Inr (Protobuf sample_error)"
proof -
  have m: "ErrorDetails_decls \<in> set lite_messages" by (simp add: lite_messages_def)
  show ?thesis using direct_decode_roundtrip [OF m sample_error_readable stored_gz_contract sample_framed] unfolding sample_bytes .
qed

end
