(* ===== verification/Upstream_Errors.thy ===== *)
theory Upstream_Errors
  imports Prost_Schemas Log_Manager
begin

text \<open>
  Errors of the backend: \<open>src/core/error.rs\<close>, \<open>src/core/error/canonical.rs\<close>, \<open>cursor.rs\<close> and \<open>cpp.rs\<close>, the numbers of errors in
  \<open>src/core/aiserver/v1/lite.rs\<close>, and what \<open>src/core/aiserver/v1.rs\<close> makes of them.  JSON and Base64 are parameters.
\<close>

section \<open>The kinds of errors\<close>

datatype (plugins only: code size) error_kind =
  Unspecified | BadApiKey | BadUserApiKey | NotLoggedIn | InvalidAuthId | NotHighEnoughPermissions | AgentRequiresLogin
  | BadModelName | NotFound | Deprecated | UserNotFound | FreeUserRateLimitExceeded | ProUserRateLimitExceeded
  | FreeUserUsageLimit | ProUserUsageLimit | ResourceExhausted | AuthTokenNotFound | AuthTokenExpired | Openai
  | OpenaiRateLimitExceeded | OpenaiAccountLimitExceeded | TaskUuidNotFound | TaskNoPermissions | AgentEngineNotFound
  | MaxTokens | ProUserOnly | ApiKeyNotSupported | UserAbortedRequest | Timeout | GenericRateLimitExceeded
  | SlashEditFileTooLong | FileUnsupported | Gpt4VisionPreviewRateLimit | CustomMessage | OutdatedClient | ClaudeImageTooLarge
  | GitgraphNotFound | FileNotFound | ApiKeyRateLimit | Debounced | BadRequest | RepositoryServiceRepositoryIsNotInitialized
  | Unauthorized | ConversationTooLong | UsagePricingRequired | UsagePricingRequiredChangeable | GithubNoUserCredentials
  | GithubUserNoAccess | GithubAppNoAccess | GithubMultipleOwners | RateLimited | RateLimitedChangeable | Custom | HooksBlocked

primrec error_number :: "error_kind \<Rightarrow> i32" where
  "error_number Unspecified = 0"
| "error_number BadApiKey = 1"
| "error_number BadUserApiKey = 42"
| "error_number NotLoggedIn = 2"
| "error_number InvalidAuthId = 3"
| "error_number NotHighEnoughPermissions = 4"
| "error_number AgentRequiresLogin = 18"
| "error_number BadModelName = 5"
| "error_number NotFound = 39"
| "error_number Deprecated = 40"
| "error_number UserNotFound = 6"
| "error_number FreeUserRateLimitExceeded = 7"
| "error_number ProUserRateLimitExceeded = 8"
| "error_number FreeUserUsageLimit = 9"
| "error_number ProUserUsageLimit = 10"
| "error_number ResourceExhausted = 41"
| "error_number AuthTokenNotFound = 11"
| "error_number AuthTokenExpired = 12"
| "error_number Openai = 13"
| "error_number OpenaiRateLimitExceeded = 14"
| "error_number OpenaiAccountLimitExceeded = 15"
| "error_number TaskUuidNotFound = 16"
| "error_number TaskNoPermissions = 17"
| "error_number AgentEngineNotFound = 19"
| "error_number MaxTokens = 20"
| "error_number ProUserOnly = 23"
| "error_number ApiKeyNotSupported = 24"
| "error_number UserAbortedRequest = 21"
| "error_number Timeout = 25"
| "error_number GenericRateLimitExceeded = 22"
| "error_number SlashEditFileTooLong = 26"
| "error_number FileUnsupported = 27"
| "error_number Gpt4VisionPreviewRateLimit = 28"
| "error_number CustomMessage = 29"
| "error_number OutdatedClient = 30"
| "error_number ClaudeImageTooLarge = 31"
| "error_number GitgraphNotFound = 32"
| "error_number FileNotFound = 33"
| "error_number ApiKeyRateLimit = 34"
| "error_number Debounced = 35"
| "error_number BadRequest = 36"
| "error_number RepositoryServiceRepositoryIsNotInitialized = 37"
| "error_number Unauthorized = 38"
| "error_number ConversationTooLong = 43"
| "error_number UsagePricingRequired = 44"
| "error_number UsagePricingRequiredChangeable = 45"
| "error_number GithubNoUserCredentials = 46"
| "error_number GithubUserNoAccess = 47"
| "error_number GithubAppNoAccess = 48"
| "error_number GithubMultipleOwners = 49"
| "error_number RateLimited = 50"
| "error_number RateLimitedChangeable = 51"
| "error_number Custom = 52"
| "error_number HooksBlocked = 53"

definition error_numbers :: "(i32 \<times> error_kind) list" where
  "error_numbers =
     [(0, Unspecified), (1, BadApiKey), (42, BadUserApiKey), (2, NotLoggedIn), (3, InvalidAuthId), (4, NotHighEnoughPermissions)
      , (18, AgentRequiresLogin), (5, BadModelName), (39, NotFound), (40, Deprecated), (6, UserNotFound)
      , (7, FreeUserRateLimitExceeded), (8, ProUserRateLimitExceeded), (9, FreeUserUsageLimit), (10, ProUserUsageLimit)
      , (41, ResourceExhausted), (11, AuthTokenNotFound), (12, AuthTokenExpired), (13, Openai), (14, OpenaiRateLimitExceeded)
      , (15, OpenaiAccountLimitExceeded), (16, TaskUuidNotFound), (17, TaskNoPermissions), (19, AgentEngineNotFound)
      , (20, MaxTokens), (23, ProUserOnly), (24, ApiKeyNotSupported), (21, UserAbortedRequest), (25, Timeout)
      , (22, GenericRateLimitExceeded), (26, SlashEditFileTooLong), (27, FileUnsupported), (28, Gpt4VisionPreviewRateLimit)
      , (29, CustomMessage), (30, OutdatedClient), (31, ClaudeImageTooLarge), (32, GitgraphNotFound), (33, FileNotFound)
      , (34, ApiKeyRateLimit), (35, Debounced), (36, BadRequest), (37, RepositoryServiceRepositoryIsNotInitialized)
      , (38, Unauthorized), (43, ConversationTooLong), (44, UsagePricingRequired), (45, UsagePricingRequiredChangeable)
      , (46, GithubNoUserCredentials), (47, GithubUserNoAccess), (48, GithubAppNoAccess), (49, GithubMultipleOwners)
      , (50, RateLimited), (51, RateLimitedChangeable), (52, Custom), (53, HooksBlocked)]"

definition error_try_from :: "i32 \<Rightarrow> error_kind option" where
  "error_try_from value = map_of error_numbers value"

primrec error_status :: "error_kind \<Rightarrow> u16" where
  "error_status BadRequest = 400"
| "error_status BadModelName = 400"
| "error_status SlashEditFileTooLong = 400"
| "error_status FileUnsupported = 400"
| "error_status ClaudeImageTooLarge = 400"
| "error_status ConversationTooLong = 400"
| "error_status BadApiKey = 401"
| "error_status BadUserApiKey = 401"
| "error_status InvalidAuthId = 401"
| "error_status AuthTokenNotFound = 401"
| "error_status AuthTokenExpired = 401"
| "error_status Unauthorized = 401"
| "error_status GithubNoUserCredentials = 401"
| "error_status UsagePricingRequired = 402"
| "error_status UsagePricingRequiredChangeable = 402"
| "error_status NotLoggedIn = 403"
| "error_status NotHighEnoughPermissions = 403"
| "error_status AgentRequiresLogin = 403"
| "error_status ProUserOnly = 403"
| "error_status TaskNoPermissions = 403"
| "error_status GithubUserNoAccess = 403"
| "error_status GithubAppNoAccess = 403"
| "error_status HooksBlocked = 403"
| "error_status NotFound = 404"
| "error_status UserNotFound = 404"
| "error_status TaskUuidNotFound = 404"
| "error_status AgentEngineNotFound = 404"
| "error_status GitgraphNotFound = 404"
| "error_status FileNotFound = 404"
| "error_status GithubMultipleOwners = 409"
| "error_status Deprecated = 410"
| "error_status OutdatedClient = 410"
| "error_status ApiKeyNotSupported = 422"
| "error_status FreeUserRateLimitExceeded = 429"
| "error_status ProUserRateLimitExceeded = 429"
| "error_status OpenaiRateLimitExceeded = 429"
| "error_status OpenaiAccountLimitExceeded = 429"
| "error_status GenericRateLimitExceeded = 429"
| "error_status Gpt4VisionPreviewRateLimit = 429"
| "error_status ApiKeyRateLimit = 429"
| "error_status RateLimited = 429"
| "error_status RateLimitedChangeable = 429"
| "error_status UserAbortedRequest = 499"
| "error_status FreeUserUsageLimit = 503"
| "error_status ProUserUsageLimit = 503"
| "error_status ResourceExhausted = 503"
| "error_status MaxTokens = 503"
| "error_status Timeout = 504"
| "error_status Unspecified = 533"
| "error_status Openai = 533"
| "error_status CustomMessage = 533"
| "error_status Debounced = 533"
| "error_status RepositoryServiceRepositoryIsNotInitialized = 533"
| "error_status Custom = 533"

definition status_code :: "i32 \<Rightarrow> u16" where
  "status_code error = (case error_try_from error of Some e \<Rightarrow> error_status e | None \<Rightarrow> 500)"

definition UNKNOWN :: str where
  "UNKNOWN = bytes_of ''unknown''"

primrec error_name :: "error_kind \<Rightarrow> str" where
  "error_name Unspecified = bytes_of ''unspecified''"
| "error_name BadApiKey = bytes_of ''bad_api_key''"
| "error_name BadUserApiKey = bytes_of ''bad_user_api_key''"
| "error_name NotLoggedIn = bytes_of ''not_logged_in''"
| "error_name InvalidAuthId = bytes_of ''invalid_auth_id''"
| "error_name NotHighEnoughPermissions = bytes_of ''not_high_enough_permissions''"
| "error_name AgentRequiresLogin = bytes_of ''agent_requires_login''"
| "error_name BadModelName = bytes_of ''bad_model_name''"
| "error_name NotFound = bytes_of ''not_found''"
| "error_name Deprecated = bytes_of ''deprecated''"
| "error_name UserNotFound = bytes_of ''user_not_found''"
| "error_name FreeUserRateLimitExceeded = bytes_of ''free_user_rate_limit_exceeded''"
| "error_name ProUserRateLimitExceeded = bytes_of ''pro_user_rate_limit_exceeded''"
| "error_name FreeUserUsageLimit = bytes_of ''free_user_usage_limit''"
| "error_name ProUserUsageLimit = bytes_of ''pro_user_usage_limit''"
| "error_name ResourceExhausted = bytes_of ''resource_exhausted''"
| "error_name AuthTokenNotFound = bytes_of ''auth_token_not_found''"
| "error_name AuthTokenExpired = bytes_of ''auth_token_expired''"
| "error_name Openai = bytes_of ''openai''"
| "error_name OpenaiRateLimitExceeded = bytes_of ''openai_rate_limit_exceeded''"
| "error_name OpenaiAccountLimitExceeded = bytes_of ''openai_account_limit_exceeded''"
| "error_name TaskUuidNotFound = bytes_of ''task_uuid_not_found''"
| "error_name TaskNoPermissions = bytes_of ''task_no_permissions''"
| "error_name AgentEngineNotFound = bytes_of ''agent_engine_not_found''"
| "error_name MaxTokens = bytes_of ''max_tokens''"
| "error_name ProUserOnly = bytes_of ''pro_user_only''"
| "error_name ApiKeyNotSupported = bytes_of ''api_key_not_supported''"
| "error_name UserAbortedRequest = bytes_of ''user_aborted_request''"
| "error_name Timeout = bytes_of ''timeout''"
| "error_name GenericRateLimitExceeded = bytes_of ''generic_rate_limit_exceeded''"
| "error_name SlashEditFileTooLong = bytes_of ''slash_edit_file_too_long''"
| "error_name FileUnsupported = bytes_of ''file_unsupported''"
| "error_name Gpt4VisionPreviewRateLimit = bytes_of ''gpt4_vision_preview_rate_limit''"
| "error_name CustomMessage = bytes_of ''custom_message''"
| "error_name OutdatedClient = bytes_of ''outdated_client''"
| "error_name ClaudeImageTooLarge = bytes_of ''claude_image_too_large''"
| "error_name GitgraphNotFound = bytes_of ''gitgraph_not_found''"
| "error_name FileNotFound = bytes_of ''file_not_found''"
| "error_name ApiKeyRateLimit = bytes_of ''api_key_rate_limit''"
| "error_name Debounced = bytes_of ''debounced''"
| "error_name BadRequest = bytes_of ''bad_request''"
| "error_name RepositoryServiceRepositoryIsNotInitialized = bytes_of ''repository_service_repository_is_not_initialized''"
| "error_name Unauthorized = bytes_of ''unauthorized''"
| "error_name ConversationTooLong = bytes_of ''conversation_too_long''"
| "error_name UsagePricingRequired = bytes_of ''usage_pricing_required''"
| "error_name UsagePricingRequiredChangeable = bytes_of ''usage_pricing_required_changeable''"
| "error_name GithubNoUserCredentials = bytes_of ''github_no_user_credentials''"
| "error_name GithubUserNoAccess = bytes_of ''github_user_no_access''"
| "error_name GithubAppNoAccess = bytes_of ''github_app_no_access''"
| "error_name GithubMultipleOwners = bytes_of ''github_multiple_owners''"
| "error_name RateLimited = bytes_of ''rate_limited''"
| "error_name RateLimitedChangeable = bytes_of ''rate_limited_changeable''"
| "error_name Custom = bytes_of ''custom''"
| "error_name HooksBlocked = bytes_of ''hooks_blocked''"

definition error_type :: "i32 \<Rightarrow> str" where
  "error_type error = (case error_try_from error of Some e \<Rightarrow> error_name e | None \<Rightarrow> UNKNOWN)"

section \<open>Details of an error\<close>

record custom_error_details =
  ced_title :: str
  ced_detail :: str
  ced_additional_info :: "str \<rightharpoonup> str"

record error_details =
  ed_error :: i32
  ed_details :: "custom_error_details option"
  ed_is_expected :: "bool option"

definition add_string :: "str \<Rightarrow> str \<Rightarrow> str" where
  "add_string a b = a @ bytes_of ''&'' @ b"

definition details_add :: "custom_error_details \<Rightarrow> custom_error_details \<Rightarrow> custom_error_details" where
  "details_add self rhs =
     \<lparr>ced_title = add_string (ced_title self) (ced_title rhs), ced_detail = add_string (ced_detail self) (ced_detail rhs),
      ced_additional_info = ced_additional_info self ++ ced_additional_info rhs\<rparr>"

section \<open>The canonical error\<close>

record canonical_error =
  ce_code :: "str option"
  ce_details :: "custom_error_details option"
  ce_status_code :: u16
  ce_type :: str

definition canonical_from :: "error_details \<Rightarrow> canonical_error" where
  "canonical_from error =
     \<lparr>ce_code = None, ce_details = ed_details error, ce_status_code = status_code (ed_error error), ce_type = error_type (ed_error error)\<rparr>"

definition canonical_unknown :: canonical_error where
  "canonical_unknown = \<lparr>ce_code = None, ce_details = None, ce_status_code = 500, ce_type = UNKNOWN\<rparr>"

definition with_code :: "canonical_error \<Rightarrow> str \<Rightarrow> canonical_error" where
  "with_code self code = self\<lparr>ce_code := Some code\<rparr>"

text \<open>The body of the loop of \<open>Sum::sum\<close>.\<close>

definition sum_step :: "canonical_error \<Rightarrow> canonical_error \<Rightarrow> canonical_error" where
  "sum_step acc e =
     (let acc = (case ce_code e of
                   None \<Rightarrow> acc
                 | Some acode \<Rightarrow> acc\<lparr>ce_code := Some (case ce_code acc of Some code \<Rightarrow> code @ acode | None \<Rightarrow> acode)\<rparr>);
          acc = (case ce_details e of
                   None \<Rightarrow> acc
                 | Some adetails \<Rightarrow>
                     acc\<lparr>ce_details := Some (case ce_details acc of Some details \<Rightarrow> details_add details adetails | None \<Rightarrow> adetails)\<rparr>)
      in if ce_status_code acc < ce_status_code e then acc\<lparr>ce_status_code := ce_status_code e, ce_type := ce_type e\<rparr> else acc)"

definition canonical_sum :: "canonical_error list \<Rightarrow> canonical_error" where
  "canonical_sum es = foldl sum_step \<lparr>ce_code = None, ce_details = None, ce_status_code = 100, ce_type = UNKNOWN\<rparr> es"

definition error_title :: "canonical_error \<Rightarrow> str option" where
  "error_title self =
     (case ce_details self of
        Some details \<Rightarrow> Some (ced_title details)
      | None \<Rightarrow> map_option (map (\<lambda>b. if b = of_char (CHR ''_'') then of_char (CHR '' '') else b)) (ce_code self))"

definition error_detail :: "canonical_error \<Rightarrow> str option" where
  "error_detail self = map_option ced_detail (ce_details self)"

text \<open>The number becomes an \<open>http::StatusCode\<close> without a check: that is defined from 100 to 999.\<close>

definition http_status :: "canonical_error \<Rightarrow> u16 outcome" where
  "http_status self = (if 100 \<le> ce_status_code self \<and> ce_status_code self < 1000 then Done (ce_status_code self) else UB)"

text \<open>\<open>to_json\<close> is \<open>serde_json::to_string\<close>, of the details alone and of the code with the details.\<close>

record openai_error_inner =
  oa_code :: "str option"
  oa_message :: str

definition into_openai :: "(custom_error_details \<Rightarrow> str) \<Rightarrow> canonical_error \<Rightarrow> openai_error_inner" where
  "into_openai to_json self =
     \<lparr>oa_code = ce_code self, oa_message = (case ce_details self of Some details \<Rightarrow> to_json details | None \<Rightarrow> UNKNOWN)\<rparr>"

record anthropic_error_inner =
  an_type :: str
  an_message :: str

definition into_anthropic :: "(str \<times> custom_error_details \<Rightarrow> str) \<Rightarrow> canonical_error \<Rightarrow> anthropic_error_inner" where
  "into_anthropic to_json self =
     (let code = (case ce_code self of Some code \<Rightarrow> code | None \<Rightarrow> UNKNOWN)
      in \<lparr>an_type = ce_type self, an_message = (case ce_details self of Some details \<Rightarrow> to_json (code, details) | None \<Rightarrow> code)\<rparr>)"

definition to_error_info :: "canonical_error \<Rightarrow> error_info" where
  "to_error_info self = error_info_new (case error_title self of Some t \<Rightarrow> t | None \<Rightarrow> UNKNOWN) (error_detail self)"

record cpp_error =
  cpp_code :: u16
  cpp_type :: str
  cpp_details :: "custom_error_details option"

definition cpp_error_from :: "canonical_error \<Rightarrow> cpp_error" where
  "cpp_error_from error = \<lparr>cpp_code = ce_status_code error, cpp_type = ce_type error, cpp_details = ce_details error\<rparr>"

section \<open>The fields of a decoded message\<close>

text \<open>The decoder gives every slot the shape of its declaration; the last equations are never used.\<close>

fun one_text :: "slot \<Rightarrow> str" where
  "one_text (SOne (VStr s)) = s"
| "one_text _ = []"

fun one_32 :: "slot \<Rightarrow> u32" where
  "one_32 (SOne (V32 w)) = w"
| "one_32 _ = 0"

fun one_bool :: "slot \<Rightarrow> bool" where
  "one_bool (SOne (VBool b)) = b"
| "one_bool _ = False"

fun opt_text :: "slot \<Rightarrow> str option" where
  "opt_text (SOpt (Some (VStr s))) = Some s"
| "opt_text _ = None"

fun opt_bool :: "slot \<Rightarrow> bool option" where
  "opt_bool (SOpt (Some (VBool b))) = Some b"
| "opt_bool _ = None"

fun opt_slots :: "slot \<Rightarrow> slot list option" where
  "opt_slots (SOpt (Some (VMsg ss))) = Some ss"
| "opt_slots _ = None"

fun map_entries :: "slot \<Rightarrow> (str \<times> str) list" where
  "map_entries (SMap kvs) = kvs"
| "map_entries _ = []"

section \<open>Errors as the backend sends them\<close>

record cursor_error =
  err_code :: str
  err_details :: "error_details list"

text \<open>The value of a detail: Base64 of a message \<open>ErrorDetails\<close>.  \<open>b64\<close> decodes Base64 without padding.\<close>

definition custom_error_details_of :: "slot list \<Rightarrow> custom_error_details" where
  "custom_error_details_of ss = \<lparr>ced_title = one_text (ss ! 0), ced_detail = one_text (ss ! 1), ced_additional_info = map_of (map_entries (ss ! 2))\<rparr>"

definition error_details_of :: "slot list \<Rightarrow> error_details" where
  "error_details_of ss =
     \<lparr>ed_error = one_32 (ss ! 0), ed_details = map_option custom_error_details_of (opt_slots (ss ! 1)), ed_is_expected = opt_bool (ss ! 2)\<rparr>"

definition decode_base64_error_details :: "(str \<Rightarrow> bytes option) \<Rightarrow> str \<Rightarrow> error_details option" where
  "decode_base64_error_details b64 s =
     (case b64 s of
        None \<Rightarrow> None
      | Some buf \<Rightarrow> (case message_decode ErrorDetails_decls buf of Inl e \<Rightarrow> None | Inr ss \<Rightarrow> Some (error_details_of ss)))"

text \<open>\<open>json\<close> reads an object with a code and the values of its details.\<close>

definition cursor_error_from_slice :: "(bytes \<Rightarrow> (str \<times> str list) option) \<Rightarrow> (str \<Rightarrow> bytes option) \<Rightarrow> bytes \<Rightarrow> cursor_error option" where
  "cursor_error_from_slice json b64 v =
     (case json v of
        None \<Rightarrow> None
      | Some (code, values) \<Rightarrow>
          (let details = map (decode_base64_error_details b64) values
           in if None \<in> set details then None else Some \<lparr>err_code = code, err_details = map the details\<rparr>))"

definition cursor_error_kind :: "cursor_error \<Rightarrow> error_kind option" where
  "cursor_error_kind self = (case err_details self of [] \<Rightarrow> None | d # _ \<Rightarrow> error_try_from (ed_error d))"

definition canonical :: "cursor_error \<Rightarrow> canonical_error" where
  "canonical self =
     (let e = (case err_details self of
                 [d] \<Rightarrow> canonical_from d
               | [] \<Rightarrow> canonical_unknown
               | ds \<Rightarrow> canonical_sum (map canonical_from ds))
      in with_code e (err_code self))"

datatype stream_error = Upstream cursor_error | EmptyStream

fun stream_error_text :: "stream_error \<Rightarrow> str" where
  "stream_error_text (Upstream error) = err_code error"
| "stream_error_text EmptyStream = bytes_of ''empty stream''"

section \<open>The enumeration\<close>

text \<open>The two tables of numbers agree.\<close>

lemma error_numbers_exact: "map_of error_numbers (error_number e) = Some e"
  by (cases e) (simp_all add: error_numbers_def)

lemma error_numbers_sound: "list_all (\<lambda>(n, e). error_number e = n) error_numbers"
  by (simp add: error_numbers_def)

lemma error_try_from_iff: "error_try_from v = Some e \<longleftrightarrow> v = error_number e"
  using error_numbers_sound map_of_SomeD [of error_numbers v e] error_numbers_exact [of e]
  by (auto simp: error_try_from_def list_all_iff)

lemma error_status_range: "400 \<le> error_status e \<and> error_status e \<le> 533"
  by (cases e) simp_all

lemma status_code_range: "400 \<le> status_code n \<and> status_code n \<le> 533"
  using error_status_range by (auto simp: status_code_def split: option.splits)

section \<open>The canonical error of several\<close>

fun join_strings :: "str list \<Rightarrow> str" where
  "join_strings [] = []"
| "join_strings [x] = x"
| "join_strings (x # xs) = x @ bytes_of ''&'' @ join_strings xs"

definition join_details :: "custom_error_details list \<Rightarrow> custom_error_details option" where
  "join_details ds =
     (if ds = [] then None
      else Some \<lparr>ced_title = join_strings (map ced_title ds), ced_detail = join_strings (map ced_detail ds),
        ced_additional_info = foldl (++) Map.empty (map ced_additional_info ds)\<rparr>)"

text \<open>The first of the worst.\<close>

definition worst :: "error_details list \<Rightarrow> error_details option" where
  "worst ds = find (\<lambda>d. list_all (\<lambda>d'. status_code (ed_error d') \<le> status_code (ed_error d)) ds) ds"

lemma join_strings_snoc: "xs \<noteq> [] \<Longrightarrow> join_strings (xs @ [y]) = add_string (join_strings xs) y"
  by (induction xs rule: join_strings.induct) (simp_all add: add_string_def)

lemma join_details_snoc:
  "join_details (ds @ [d]) = Some (case join_details ds of Some ds' \<Rightarrow> details_add ds' d | None \<Rightarrow> d)"
  by (simp add: join_details_def join_strings_snoc details_add_def)

lemma join_details_Nil: "join_details [] = None"
  by (simp add: join_details_def)

lemma join_details_single: "join_details [d] = Some d"
  by (cases d) (simp add: join_details_def)

lemma find_snoc: "find P (xs @ [x]) = (case find P xs of None \<Rightarrow> if P x then Some x else None | s \<Rightarrow> s)"
  by (induction xs) auto

lemma worst_bound: "worst ds = Some d \<Longrightarrow> d' \<in> set ds \<Longrightarrow> status_code (ed_error d') \<le> status_code (ed_error d)"
  by (auto simp: worst_def find_Some_iff list_all_iff)

lemma worst_None: "worst ds = None \<longleftrightarrow> ds = []"
proof -
  let ?f = "\<lambda>d. status_code (ed_error d)"
  have "worst ds \<noteq> None" if "ds \<noteq> []"
  proof -
    have "Max (?f ` set ds) \<in> ?f ` set ds" using that by (intro Max_in) simp_all
    then obtain d where d: "d \<in> set ds" "?f d = Max (?f ` set ds)" by auto
    then have "list_all (\<lambda>d'. ?f d' \<le> ?f d) ds" by (simp add: list_all_iff)
    then show ?thesis using d(1) unfolding worst_def find_None_iff by blast
  qed
  moreover have "worst [] = None" by (simp add: worst_def)
  ultimately show ?thesis by blast
qed

lemma worst_snoc:
  "worst (ds @ [d]) =
     (case worst ds of
        None \<Rightarrow> Some d
      | Some w \<Rightarrow> if status_code (ed_error w) < status_code (ed_error d) then Some d else Some w)"
proof (cases "worst ds")
  case None
  then have "ds = []" by (simp add: worst_None)
  then show ?thesis by (simp add: worst_def)
next
  case (Some w)
  let ?f = "\<lambda>d. status_code (ed_error d)"
  let ?P = "\<lambda>d'. list_all (\<lambda>d''. ?f d'' \<le> ?f d') (ds @ [d])"
  show ?thesis
  proof (cases "?f w < ?f d")
    case True
    have below: "?f x < ?f d" if "x \<in> set ds" for x using worst_bound [OF Some that] True by (rule order.strict_trans1)
    then have "find ?P ds = None" by (fastforce simp: find_None_iff list_all_iff)
    moreover have "?P d" using below by (fastforce simp: list_all_iff)
    ultimately show ?thesis using Some True by (simp add: worst_def find_snoc)
  next
    case False
    have w: "w \<in> set ds" using Some by (auto simp: worst_def find_Some_iff)
    have "find ?P ds = worst ds" unfolding worst_def
    proof (rule find_cong [OF refl])
      fix x
      assume "x \<in> set ds"
      have "?f d \<le> ?f x" if "list_all (\<lambda>d''. ?f d'' \<le> ?f x) ds"
        using that w False by (meson list_all_iff not_le order.trans)
      then show "?P x \<longleftrightarrow> list_all (\<lambda>d'. ?f d' \<le> ?f x) ds" by auto
    qed
    then show ?thesis using Some False by (simp add: worst_def find_snoc)
  qed
qed

lemma canonical_sum_exact:
  "canonical_sum (map canonical_from ds) =
     \<lparr>ce_code = None, ce_details = join_details (List.map_filter ed_details ds),
      ce_status_code = (case worst ds of Some d \<Rightarrow> status_code (ed_error d) | None \<Rightarrow> 100),
      ce_type = (case worst ds of Some d \<Rightarrow> error_type (ed_error d) | None \<Rightarrow> UNKNOWN)\<rparr>"
proof (induction ds rule: rev_induct)
  case (snoc d ds)
  have "400 \<le> status_code (ed_error d)" using status_code_range by blast
  then have "100 < status_code (ed_error d)" by (rule order.strict_trans2 [rotated]) simp
  then show ?case using snoc
    by (auto simp: canonical_sum_def sum_step_def canonical_from_def map_filter_def join_details_snoc worst_snoc split: option.splits)
qed (simp add: canonical_sum_def map_filter_def join_details_def worst_def)

text \<open>C20: (src/core/error/cursor.rs, canonical; canonical.rs, From and Sum; src/core/aiserver/v1.rs, status_code, type and add): the
  canonical form of an error of the backend has its code, the status and the type of the first of its details with the highest
  status (500 and "unknown" when it has none), and the titles and texts of all details joined in order, with later entries of the
  additional information replacing earlier ones.  The shortcut for one detail agrees with the general case, and the status that
  is turned into an HTTP status without a check is always one.\<close>

theorem canonical_exact:
  "canonical e =
     \<lparr>ce_code = Some (err_code e), ce_details = join_details (List.map_filter ed_details (err_details e)),
      ce_status_code = (case worst (err_details e) of Some d \<Rightarrow> status_code (ed_error d) | None \<Rightarrow> 500),
      ce_type = (case worst (err_details e) of Some d \<Rightarrow> error_type (ed_error d) | None \<Rightarrow> UNKNOWN)\<rparr> \<and>
   http_status (canonical e) = Done (ce_status_code (canonical e))"
proof -
  have "canonical e = with_code (if err_details e = [] then canonical_unknown else canonical_sum (map canonical_from (err_details e))) (err_code e)"
    using canonical_sum_exact [of "err_details e"]
    by (auto simp: canonical_def Let_def canonical_from_def map_filter_def join_details_single join_details_Nil worst_def
      split: list.splits option.splits)
  then have eq: "canonical e =
     \<lparr>ce_code = Some (err_code e), ce_details = join_details (List.map_filter ed_details (err_details e)),
      ce_status_code = (case worst (err_details e) of Some d \<Rightarrow> status_code (ed_error d) | None \<Rightarrow> 500),
      ce_type = (case worst (err_details e) of Some d \<Rightarrow> error_type (ed_error d) | None \<Rightarrow> UNKNOWN)\<rparr>"
    using worst_None [of "err_details e"]
    by (auto simp: canonical_sum_exact with_code_def canonical_unknown_def map_filter_def join_details_def split: option.splits)
  have "100 \<le> ce_status_code (canonical e) \<and> ce_status_code (canonical e) < 1000"
  proof (cases "worst (err_details e)")
    case (Some d)
    have "400 \<le> status_code (ed_error d)" "status_code (ed_error d) \<le> 533" using status_code_range by blast+
    then show ?thesis using eq Some by (simp add: word_le_nat_alt word_less_nat_alt)
  qed (use eq in simp)
  then show ?thesis using eq by (simp add: http_status_def)
qed

end
