(* ===== verification/Cpp_Stream.thy ===== *)
theory Cpp_Stream
  imports Upstream_Errors Message_Stream
begin

text \<open>
  Code completion: the decoder of \<open>src/core/stream/decoder/cpp.rs\<close> and the stream that \<open>handle_stream_cpp\<close> of
  \<open>src/core/service/cpp.rs\<close> sends.  Deflate, JSON and Base64 are parameters.
\<close>

section \<open>Messages\<close>

record cpp_line_range =
  start_line_number :: i32
  end_line_number_inclusive :: i32

record cpp_target =
  relative_path :: str
  line_number_one_indexed :: i32
  expected_content :: str
  should_retrigger_cpp :: bool

record cpp_model_info =
  is_fused_cursor_prediction_model :: bool
  is_multidiff_model :: bool

record stream_cpp_response =
  r_text :: str
  r_done_stream :: "bool option"
  r_debug_model_output :: "str option"
  r_debug_model_input :: "str option"
  r_debug_stream_time :: "str option"
  r_debug_total_time :: "str option"
  r_debug_ttft_time :: "str option"
  r_debug_server_timing :: "str option"
  r_range_to_replace :: "cpp_line_range option"
  r_cursor_prediction_target :: "cpp_target option"
  r_done_edit :: "bool option"
  r_model_info :: "cpp_model_info option"
  r_begin_edit :: "bool option"
  r_should_remove_leading_eol :: "bool option"
  r_binding_id :: "str option"

text \<open>The decoded message, by the order of \<open>StreamCppResponse_decls\<close>; the suggestion (slots 1 and 2) is never used.\<close>

definition cpp_line_range_of :: "slot list \<Rightarrow> cpp_line_range" where
  "cpp_line_range_of ss = \<lparr>start_line_number = one_32 (ss ! 0), end_line_number_inclusive = one_32 (ss ! 1)\<rparr>"

definition cpp_target_of :: "slot list \<Rightarrow> cpp_target" where
  "cpp_target_of ss =
     \<lparr>relative_path = one_text (ss ! 0), line_number_one_indexed = one_32 (ss ! 1), expected_content = one_text (ss ! 2),
      should_retrigger_cpp = one_bool (ss ! 3)\<rparr>"

definition cpp_model_info_of :: "slot list \<Rightarrow> cpp_model_info" where
  "cpp_model_info_of ss = \<lparr>is_fused_cursor_prediction_model = one_bool (ss ! 0), is_multidiff_model = one_bool (ss ! 1)\<rparr>"

definition stream_cpp_response_of :: "slot list \<Rightarrow> stream_cpp_response" where
  "stream_cpp_response_of ss =
     \<lparr>r_text = one_text (ss ! 0), r_done_stream = opt_bool (ss ! 3), r_debug_model_output = opt_text (ss ! 4),
      r_debug_model_input = opt_text (ss ! 5), r_debug_stream_time = opt_text (ss ! 6), r_debug_total_time = opt_text (ss ! 7),
      r_debug_ttft_time = opt_text (ss ! 8), r_debug_server_timing = opt_text (ss ! 9),
      r_range_to_replace = map_option cpp_line_range_of (opt_slots (ss ! 10)),
      r_cursor_prediction_target = map_option cpp_target_of (opt_slots (ss ! 11)), r_done_edit = opt_bool (ss ! 12),
      r_model_info = map_option cpp_model_info_of (opt_slots (ss ! 13)), r_begin_edit = opt_bool (ss ! 14),
      r_should_remove_leading_eol = opt_bool (ss ! 15), r_binding_id = opt_text (ss ! 16)\<rparr>"

datatype cpp_message =
  ModelInfo bool bool
| BeginEdit
| RangeReplace i32 i32 "str option" "bool option"
| CppText str
| CursorPrediction str i32 str bool "str option"
| DoneEdit
| DoneStream
| Debug "str option" "str option" "str option" "str option" "str option" "str option"
| CppErr cpp_error
| StreamEnd

fun type_name :: "cpp_message \<Rightarrow> str" where
  "type_name (ModelInfo _ _) = bytes_of ''model_info''"
| "type_name BeginEdit = bytes_of ''begin_edit''"
| "type_name (RangeReplace _ _ _ _) = bytes_of ''range_replace''"
| "type_name (CppText _) = bytes_of ''text''"
| "type_name (CursorPrediction _ _ _ _ _) = bytes_of ''cursor_prediction''"
| "type_name DoneEdit = bytes_of ''done_edit''"
| "type_name DoneStream = bytes_of ''done_stream''"
| "type_name (Debug _ _ _ _ _ _) = bytes_of ''debug''"
| "type_name (CppErr _) = bytes_of ''error''"
| "type_name StreamEnd = bytes_of ''stream_end''"

definition process_protobuf_message :: "stream_cpp_response \<Rightarrow> cpp_message list" where
  "process_protobuf_message response =
     (let is_plain_text = (r_model_info response = None \<and> r_range_to_replace response = None)
      in (case r_model_info response of
            Some info \<Rightarrow> [ModelInfo (is_fused_cursor_prediction_model info) (is_multidiff_model info)] | None \<Rightarrow> []) @
         (case r_range_to_replace response of
            Some lines \<Rightarrow> [RangeReplace (start_line_number lines) (end_line_number_inclusive lines) (r_binding_id response)
                              (r_should_remove_leading_eol response)]
          | None \<Rightarrow> []) @
         (if is_plain_text \<and> r_text response \<noteq> [] then [CppText (r_text response)] else []) @
         (case r_cursor_prediction_target response of
            Some cursor \<Rightarrow> [CursorPrediction (relative_path cursor) (line_number_one_indexed cursor) (expected_content cursor)
                               (should_retrigger_cpp cursor) (r_binding_id response)]
          | None \<Rightarrow> []) @
         (if r_done_edit response = Some True then [DoneEdit] else []) @
         (if r_begin_edit response = Some True then [BeginEdit] else []) @
         (if r_done_stream response = Some True then [DoneStream] else []) @
         (if r_debug_model_input response \<noteq> None \<or> r_debug_model_output response \<noteq> None \<or> r_debug_stream_time response \<noteq> None \<or>
             r_debug_total_time response \<noteq> None \<or> r_debug_ttft_time response \<noteq> None \<or> r_debug_server_timing response \<noteq> None
          then [Debug (r_debug_model_input response) (r_debug_model_output response) (r_debug_stream_time response)
                  (r_debug_total_time response) (r_debug_ttft_time response) (r_debug_server_timing response)]
          else []))"

section \<open>The decoder\<close>

text \<open>The libraries: deflate, JSON of an error, Base64, and JSON of an event.\<close>

record cpp_env =
  gz_read :: "bytes \<Rightarrow> bytes option"
  json_error :: "bytes \<Rightarrow> (str \<times> str list) option"
  base64 :: "str \<Rightarrow> bytes option"
  to_json :: "cpp_message \<Rightarrow> bytes"

text \<open>The body of the loop over the frames.\<close>

definition frame_events :: "cpp_env \<Rightarrow> raw_message \<Rightarrow> cpp_message list" where
  "frame_events env raw_msg =
     (if msg_data raw_msg = [] then []
      else case (if msg_type raw_msg AND 1 \<noteq> 0 then decompress_gzip (gz_read env) (msg_data raw_msg) else Some (msg_data raw_msg)) of
             None \<Rightarrow> []
           | Some data \<Rightarrow>
               (let mt = drop_bit 1 (msg_type raw_msg)
                in if mt = 0
                   then (case message_decode StreamCppResponse_decls data of
                           Inr response \<Rightarrow> process_protobuf_message (stream_cpp_response_of response) | Inl _ \<Rightarrow> [])
                   else if mt = 1
                   then (if length data = 2 then [StreamEnd]
                         else case cursor_error_from_slice (json_error env) (base64 env) data of
                                Some error \<Rightarrow> [CppErr (cpp_error_from (canonical error))] | None \<Rightarrow> [])
                   else []))"

record cpp_decoder =
  cpp_buffer :: buffer
  empty_stream_count :: usize

definition cpp_decoder_new :: cpp_decoder where
  "cpp_decoder_new = \<lparr>cpp_buffer = buffer_with_capacity 64, empty_stream_count = 0\<rparr>"

definition reset_empty_stream_count :: "cpp_decoder \<Rightarrow> cpp_decoder" where
  "reset_empty_stream_count self = (if empty_stream_count self > 0 then self\<lparr>empty_stream_count := 0\<rparr> else self)"

definition cpp_decode :: "cpp_env \<Rightarrow> cpp_decoder \<Rightarrow> bytes \<Rightarrow> (unit + cpp_message list) \<times> cpp_decoder" where
  "cpp_decode env self data =
     (let self' = (if data = [] then self else self\<lparr>cpp_buffer := extend_from_slice (cpp_buffer self) data\<rparr>)
      in if data = [] \<or> buffer_len (cpp_buffer self') < 5
         then (Inl (), self'\<lparr>empty_stream_count := empty_stream_count self' + 1\<rparr>)
         else let self' = reset_empty_stream_count self';
                  (events, iter) = decode_loop (\<lambda>raw_msg. Some (frame_events env raw_msg)) (buffer_into_iter (cpp_buffer self')) []
              in (Inr (concat events), self'\<lparr>cpp_buffer := advance_unchecked (cpp_buffer self') (it_offset iter)\<rparr>))"

section \<open>The stream of the handler\<close>

definition format_sse_event :: "cpp_env \<Rightarrow> cpp_message \<Rightarrow> bytes" where
  "format_sse_event env message =
     bytes_of ''event: '' @ type_name message @ [0x0A] @ bytes_of ''data: '' @ to_json env message @ [0x0A, 0x0A]"

definition cpp_process_messages :: "cpp_env \<Rightarrow> cpp_message list \<Rightarrow> bytes" where
  "cpp_process_messages env messages = concat (map (format_sse_event env) messages)"

definition empty_stream_event :: bytes where
  "empty_stream_event =
     bytes_of ''event: error'' @ [0x0A] @
     bytes_of ''data: {\"type\":\"error\",\"error\":{\"code\":533,\"type\":\"unknown\",\"details\":{\"title\":\"Empty\",\"detail\":\"Empty stream\"}}}'' @
     [0x0A, 0x0A]"

text \<open>A chunk that the transport failed to deliver is None.\<close>

definition on_chunk :: "cpp_env \<Rightarrow> cpp_decoder \<Rightarrow> bytes option \<Rightarrow> bytes \<times> cpp_decoder" where
  "on_chunk env decoder chunk =
     (case chunk of
        None \<Rightarrow> ([], decoder)
      | Some c \<Rightarrow>
          (case cpp_decode env decoder c of
             (Inl _, decoder) \<Rightarrow> (if empty_stream_count decoder > 1 then empty_stream_event else [], decoder)
           | (Inr messages, decoder) \<Rightarrow> (if messages = [] then [] else cpp_process_messages env messages, decoder)))"

fun cpp_stream :: "cpp_env \<Rightarrow> cpp_decoder \<Rightarrow> bytes option list \<Rightarrow> bytes list" where
  "cpp_stream env decoder [] = []"
| "cpp_stream env decoder (c # cs) = (let (out, decoder) = on_chunk env decoder c in out # cpp_stream env decoder cs)"

section \<open>What the decoder delivers\<close>

definition cpp_pending :: "cpp_decoder \<Rightarrow> bytes" where
  "cpp_pending d = buffer_as_ref (cpp_buffer d)"

definition cpp_invar :: "cpp_decoder \<Rightarrow> bool" where
  "cpp_invar d \<longleftrightarrow> buffer_wf (cpp_buffer d) \<and> parse_frames (cpp_pending d) = ([], cpp_pending d)"

text \<open>The events of a chunk, none when the decoder reports an empty stream.\<close>

definition cpp_feed :: "cpp_env \<Rightarrow> cpp_decoder \<Rightarrow> bytes \<Rightarrow> cpp_message list \<times> cpp_decoder" where
  "cpp_feed env d data = (case cpp_decode env d data of (Inr events, d') \<Rightarrow> (events, d') | (Inl _, d') \<Rightarrow> ([], d'))"

definition cpp_parse :: "cpp_env \<Rightarrow> bytes \<Rightarrow> cpp_message list \<times> bytes" where
  "cpp_parse env bs = (let (ms, rest) = parse_frames bs in (concat (map (frame_events env) ms), rest))"

lemma map_filter_Some_fun: "List.map_filter (\<lambda>x. Some (f x)) xs = map f xs"
  by (simp add: map_filter_def)

lemma cpp_feed_eq:
  assumes d: "cpp_invar d" and p: "parse_frames (cpp_pending d @ data) = (ms, rest)"
  shows "\<exists>d'. cpp_feed env d data = (concat (map (frame_events env) ms), d') \<and> cpp_pending d' = rest \<and> buffer_wf (cpp_buffer d')"
proof (cases "data = []")
  case True
  then show ?thesis using d p by (simp add: cpp_feed_def cpp_decode_def cpp_invar_def cpp_pending_def)
next
  case False
  let ?b = "extend_from_slice (cpp_buffer d) data"
  have wf: "buffer_wf (cpp_buffer d)" using d by (simp add: cpp_invar_def)
  have b: "buffer_as_ref ?b = cpp_pending d @ data" "buffer_wf ?b" using wf by (simp_all add: cpp_pending_def buffer_wf_extend)
  have len: "buffer_len ?b = length (cpp_pending d @ data)" unfolding buffer_len_ref b(1) ..
  show ?thesis
  proof (cases "buffer_len ?b < 5")
    case True
    then have "parse_frames (cpp_pending d @ data) = ([], cpp_pending d @ data)" using len by (simp add: parse_frames_short)
    then show ?thesis using False True p b by (auto simp: cpp_feed_def cpp_decode_def cpp_pending_def)
  next
    case long: False
    let ?it = "buffer_into_iter ?b"
    have it: "it_buffer ?it = cpp_pending d @ data" "it_offset ?it = 0" using b by (simp_all add: buffer_into_iter_def)
    have "decode_loop (\<lambda>raw_msg. Some (frame_events env raw_msg)) ?it [] =
        (map (frame_events env) ms, ?it\<lparr>it_offset := length (cpp_pending d @ data) - length rest\<rparr>)"
      using decode_loop_eq [of ?it ms rest "\<lambda>raw_msg. Some (frame_events env raw_msg)" "[]"] p it by (simp add: map_filter_Some_fun)
    then show ?thesis using False long parse_frames_suffix [OF p] b
      by (auto simp: cpp_feed_def cpp_decode_def reset_empty_stream_count_def cpp_pending_def Let_def intro!: buffer_wf_advance)
  qed
qed

interpretation cpp: incremental_decoder "cpp_feed env" cpp_pending cpp_invar "cpp_parse env"
  for env :: cpp_env
proof unfold_locales
  fix s d os s'
  assume s: "cpp_invar s" and f: "cpp_feed env s d = (os, s')"
  obtain ms rest where pf: "parse_frames (cpp_pending s @ d) = (ms, rest)" by fastforce
  with cpp_feed_eq [OF s pf, of env] f
  have *: "os = concat (map (frame_events env) ms)" "cpp_pending s' = rest" "buffer_wf (cpp_buffer s')" by auto
  with pf show "cpp_parse env (cpp_pending s @ d) = (os, cpp_pending s')" by (simp add: cpp_parse_def)
  from * pf show "cpp_invar s'" by (simp add: cpp_invar_def parse_frames_rest_stuck)
next
  fix xs os r ys os' r'
  assume "cpp_parse env xs = (os, r)" and "cpp_parse env (r @ ys) = (os', r')"
  then show "cpp_parse env (xs @ ys) = (os @ os', r')"
    using parse_frames_append [of xs _ r ys _ r'] by (fastforce simp: cpp_parse_def split: prod.splits)
next
  fix s assume "cpp_invar s"
  then show "cpp_parse env (cpp_pending s) = ([], cpp_pending s)" by (simp add: cpp_parse_def cpp_invar_def)
qed

lemma cpp_decoder_new_simps [simp]: "cpp_invar cpp_decoder_new" "cpp_pending cpp_decoder_new = []"
  by (simp_all add: cpp_invar_def cpp_pending_def cpp_decoder_new_def buffer_with_capacity_def buffer_as_ref_def buffer_wf_def parse_frames_short)

text \<open>(src/core/stream/decoder/cpp.rs, decode): the completion events that a fresh decoder delivers, and the bytes that it keeps,
  do not depend on how the transport cuts the stream into chunks; they are those of the frames of the whole stream, in order.\<close>

theorem cpp_chunking:
  "fst (run_chunks (cpp_feed env) cpp_decoder_new cs) = fst (cpp_parse env (concat cs)) \<and>
   cpp_pending (snd (run_chunks (cpp_feed env) cpp_decoder_new cs)) = snd (cpp_parse env (concat cs))"
proof -
  obtain os s where r: "run_chunks (cpp_feed env) cpp_decoder_new cs = (os, s)" by fastforce
  from cpp.run_chunks_parse [OF cpp_decoder_new_simps(1) r] show ?thesis using r by simp
qed

lemma on_chunk_long:
  assumes "cpp_invar d" "5 \<le> length c"
  shows "on_chunk env d (Some c) = (cpp_process_messages env (fst (cpp_feed env d c)), snd (cpp_feed env d c))"
proof -
  have "buffer_wf (cpp_buffer d)" using assms(1) by (simp add: cpp_invar_def)
  then have "\<not> buffer_len (extend_from_slice (cpp_buffer d) c) < 5" using assms(2) by (simp add: buffer_len_ref)
  moreover have "c \<noteq> []" using assms(2) by auto
  ultimately have "\<exists>events d'. cpp_decode env d c = (Inr events, d')" by (simp add: cpp_decode_def Let_def case_prod_beta)
  then obtain events d' where "cpp_decode env d c = (Inr events, d')" by blast
  then show ?thesis by (cases "events = []") (simp_all add: on_chunk_def cpp_feed_def cpp_process_messages_def)
qed

lemma cpp_stream_events:
  assumes "cpp_invar d" "list_all (\<lambda>c. 5 \<le> length c) cs"
  shows "concat (cpp_stream env d (map Some cs)) = cpp_process_messages env (fst (run_chunks (cpp_feed env) d cs))"
  using assms
proof (induction cs arbitrary: d)
  case (Cons c cs)
  obtain os d' where f: "cpp_feed env d c = (os, d')" by fastforce
  have "cpp_invar d'" by (rule cpp.feed_invar [OF Cons.prems(1) f])
  then show ?case using Cons on_chunk_long [of d c env] f by (simp add: cpp_process_messages_def case_prod_beta)
qed (simp add: cpp_process_messages_def)

section \<open>From the messages of the backend to the events of the client\<close>

lemma StreamCppResponse_lite: "StreamCppResponse_decls \<in> set lite_messages"
  by (simp add: lite_messages_def)

lemma default_response_silent: "process_protobuf_message (stream_cpp_response_of (map default_slot StreamCppResponse_decls)) = []"
  by (simp add: StreamCppResponse_decls_def stream_cpp_response_of_def process_protobuf_message_def numeral_eq_Suc)

lemma frame_events_message:
  assumes gz: "gzip_contract gz_encode (gz_read env)" and m: "readable_slots RECURSION_LIMIT StreamCppResponse_decls m"
    and f: "encode_message_framed gz_encode (message_len StreamCppResponse_decls) (encode_raw StreamCppResponse_decls) m = Inr f"
  obtains r where "f = frame_bytes r" "length (msg_data r) < 2 ^ 32"
    "frame_events env r = process_protobuf_message (stream_cpp_response_of m)"
proof (rule encode_message_framed_frame [OF lite_prost_contract [OF StreamCppResponse_lite] f])
  fix ty body
  let ?raw = "encode_raw StreamCppResponse_decls m" and ?r = "\<lparr>msg_type = ty, msg_data = body\<rparr>"
  assume *: "f = frame_bytes ?r" "length body \<le> MAX_DECOMPRESSED_SIZE_BYTES"
    "ty = 0 \<and> body = ?raw \<or> ty = 1 \<and> body = compress_gzip gz_encode ?raw" "length ?raw \<le> MAX_DECOMPRESSED_SIZE_BYTES"
  have dec: "message_decode StreamCppResponse_decls ?raw = Inr m"
    using lite_messages_ok StreamCppResponse_lite m by (intro message_decode_encode) (auto simp: list_all_iff)
  have silent: "process_protobuf_message (stream_cpp_response_of m) = []" if "?raw = []"
    using dec default_response_silent that by (simp add: message_decode_def)
  have "20 \<le> length (compress_gzip gz_encode ?raw)" using gz by (simp add: gzip_contract_def compress_gzip_def)
  then have "compress_gzip gz_encode ?raw \<noteq> []" by auto
  then have "frame_events env ?r = process_protobuf_message (stream_cpp_response_of m)"
    using * dec silent gzip_contractD [OF gz *(4)] by (auto simp: frame_events_def)
  with * show thesis by (intro that) (auto simp: MAX_DECOMPRESSED_SIZE_BYTES_def)
qed

lemma framed_stream_events:
  assumes gz: "gzip_contract gz_encode (gz_read env)"
    and "list_all2 (\<lambda>m f. encode_message_framed gz_encode (message_len StreamCppResponse_decls) (encode_raw StreamCppResponse_decls) m = Inr f) ms fs"
    and "list_all (readable_slots RECURSION_LIMIT StreamCppResponse_decls) ms"
  obtains rs where "fs = map frame_bytes rs" "list_all (\<lambda>r. length (msg_data r) < 2 ^ 32) rs"
    "map (frame_events env) rs = map (\<lambda>m. process_protobuf_message (stream_cpp_response_of m)) ms"
  using assms(2,3)
proof (induction ms fs arbitrary: thesis rule: list_all2_induct)
  case Nil
  show ?case by (rule Nil(1) [of "[]"]) simp_all
next
  case (Cons m ms f fs)
  obtain rs where "fs = map frame_bytes rs" "list_all (\<lambda>r. length (msg_data r) < 2 ^ 32) rs"
    "map (frame_events env) rs = map (\<lambda>m. process_protobuf_message (stream_cpp_response_of m)) ms"
    using Cons.IH Cons.prems(2) by auto
  moreover obtain r where "f = frame_bytes r" "length (msg_data r) < 2 ^ 32"
    "frame_events env r = process_protobuf_message (stream_cpp_response_of m)"
    using frame_events_message [OF gz _ Cons.hyps(1)] Cons.prems(2) by auto
  ultimately show ?case by (intro Cons.prems(1) [of "r # rs"]) simp_all
qed

text \<open>C19: (src/core/service/cpp.rs, handle_stream_cpp; src/core/stream/decoder/cpp.rs; grpc-stream; lite.rs; patch/prost): when the
  backend frames completion messages, compressed or not, and the frames arrive in chunks of at least five bytes, the handler sends
  exactly the events of these messages, in order, each formatted once.  The messages are ones that the decoder can read: 32-bit
  numbers in them are below 0x50000000, texts are UTF-8.\<close>

theorem cpp_events_exact:
  assumes "gzip_contract gz_encode (gz_read env)"
    and "list_all2 (\<lambda>m f. encode_message_framed gz_encode (message_len StreamCppResponse_decls) (encode_raw StreamCppResponse_decls) m = Inr f) ms fs"
    and "list_all (readable_slots RECURSION_LIMIT StreamCppResponse_decls) ms"
    and "concat cs = concat fs" and "list_all (\<lambda>c. 5 \<le> length c) cs"
  shows "concat (cpp_stream env cpp_decoder_new (map Some cs)) =
    concat (map (format_sse_event env) (concat (map (\<lambda>m. process_protobuf_message (stream_cpp_response_of m)) ms)))"
proof -
  obtain rs where rs: "fs = map frame_bytes rs" "list_all (\<lambda>r. length (msg_data r) < 2 ^ 32) rs"
    "map (frame_events env) rs = map (\<lambda>m. process_protobuf_message (stream_cpp_response_of m)) ms"
    using framed_stream_events [OF assms(1-3)] by blast
  obtain os s where r: "run_chunks (cpp_feed env) cpp_decoder_new cs = (os, s)" by fastforce
  have "parse_frames (concat cs) = (rs, [])" using rs assms(4) by (simp add: parse_frames_frames)
  then have "cpp_parse env (concat cs) = (concat (map (frame_events env) rs), [])" by (simp add: cpp_parse_def)
  then have "fst (run_chunks (cpp_feed env) cpp_decoder_new cs) = concat (map (frame_events env) rs)"
    using cpp.run_chunks_parse [OF cpp_decoder_new_simps(1) r] r by simp
  then show ?thesis using cpp_stream_events [OF cpp_decoder_new_simps(1) assms(5), of env] rs(3) by (simp add: cpp_process_messages_def)
qed

text \<open>A message with the text "hi", in one frame.\<close>

definition sample_completion :: "slot list" where
  "sample_completion = SOne (VStr [0x68, 0x69]) # map default_slot (tl StreamCppResponse_decls)"

definition sample_cpp_env :: cpp_env where
  "sample_cpp_env = \<lparr>gz_read = stored_gz_read, json_error = (\<lambda>_. None), base64 = (\<lambda>_. None), to_json = (\<lambda>_. [0x7B, 0x7D])\<rparr>"

lemma sample_completion_text: "valid_prefix [0x68, 0x69] = 2"
  by code_simp

lemma sample_completion_readable: "readable_slots RECURSION_LIMIT StreamCppResponse_decls sample_completion"
  by (simp add: StreamCppResponse_decls_def sample_completion_def valid_string_iff sample_completion_text)

lemma sample_completion_bytes:
  "encode_raw StreamCppResponse_decls sample_completion = [10, 2, 0x68, 0x69]" "message_len StreamCppResponse_decls sample_completion = 4"
  by (simp_all add: StreamCppResponse_decls_def sample_completion_def string_encode_def encode_tag_def put_varint32_eq put_varint_eq
    WireTypeBits_def leb128_small string_encoded_len_def tag_len_def varint_len_leb leb_len.simps)

lemma sample_completion_framed:
  "encode_message_framed stored_gz_encode (message_len StreamCppResponse_decls) (encode_raw StreamCppResponse_decls) sample_completion =
   Inr [0, 0, 0, 0, 4, 10, 2, 0x68, 0x69]"
  by (simp add: encode_message_framed_def sample_completion_bytes try_compress_if_beneficial_def u32_to_be_bytes_def
    MAX_DECOMPRESSED_SIZE_BYTES_def COMPRESSION_THRESHOLD_def)

lemma sample_completion_events: "process_protobuf_message (stream_cpp_response_of sample_completion) = [CppText [0x68, 0x69]]"
  by (simp add: sample_completion_def StreamCppResponse_decls_def stream_cpp_response_of_def process_protobuf_message_def numeral_eq_Suc)

theorem cpp_events_exact_witness:
  "concat (cpp_stream sample_cpp_env cpp_decoder_new [Some [0, 0, 0, 0, 4, 10, 2, 0x68, 0x69]]) =
   bytes_of ''event: text'' @ [0x0A] @ bytes_of ''data: '' @ [0x7B, 0x7D, 0x0A, 0x0A]"
  using cpp_events_exact [of stored_gz_encode sample_cpp_env "[sample_completion]" "[[0, 0, 0, 0, 4, 10, 2, 0x68, 0x69]]" "[[0, 0, 0, 0, 4, 10, 2, 0x68, 0x69]]"]
    stored_gz_contract sample_completion_framed sample_completion_readable
  by (simp add: sample_completion_events format_sse_event_def sample_cpp_env_def bytes_of_def)


end
