(* ===== verification/Spec2Isabelle.thy ===== *)
theory Spec2Isabelle
  imports Grpc_Decoder Base62_Codec Token_Routes Log_Routes Token_Cache Chat_Answers Conversation Models_Proofs Debug_Logger Ntp_Clock Proxy_Pool Natural_Args Duration_Fmt Interned_Str Byte_Str Prost_Vec Direct_Decode Cpp_Stream
begin

text \<open>
  cursor-api is an HTTP server that accepts chat requests in the formats of OpenAI and Anthropic, translates them to the
  protocol of the Cursor backend, and translates the backend's stream back.  It keeps a table of tokens, from which
  requests are served in turn, and a log of requests.  This development models the logic of the server itself; paths are
  relative to \<open>src/\<close>.

  \<^bold>\<open>A request on its way.\<close>  A handler of \<open>src/core/service.rs\<close> selects a token (\<open>Token_Manager\<close>, \<open>Token_Queue\<close>), converts
  the messages (\<open>Chat_Request\<close>), frames the request (\<open>Grpc_Decoder\<close>), reads the answer as frames (\<open>Grpc_Buffer\<close>) and
  messages (\<open>Stream_Decoder\<close>), and sends events or chunks (\<open>Chat_Stream\<close>).  Each request is logged (\<open>Log_Manager\<close>).
  Administrators change tokens and read logs through routes (\<open>Token_Routes\<close>, \<open>Log_Routes\<close>).

  \<^bold>\<open>Conventions.\<close>  Texts and bytes are lists of \<open>8 word\<close>; machine integers are words where the code relies on their
  width, and \<open>nat\<close> for lengths and positions in memory.  An operation that can fail returns an option or a sum with the
  error on the left.  Where the code has unchecked operations the model returns an \<open>outcome\<close>: \<open>UB\<close> where the condition
  of an unchecked operation does not hold, \<open>Panic\<close> where the code panics, and \<open>Done\<close> otherwise.  Libraries (gzip, JSON, URLs, images, clocks, random numbers, hash seeds) are arguments of the definitions, and what the code relies on
  is a hypothesis of the theorems, with witnesses.  Concurrency is an interleaving of atomic steps; a lock makes a step of
  what it protects.

  \<^bold>\<open>Theories.\<close>
  \<^item> \<open>Prelude\<close>: words, bytes and texts, \<open>outcome\<close>, the interface of state machines, and what the components share.
    \<open>Text_Utils\<close>: the operations of \<open>str\<close> that the code uses, on UTF-8 bytes.
  \<^item> \<open>Grpc_Buffer\<close>, \<open>Grpc_Decoder\<close>: \<open>crates/grpc-stream\<close> and \<open>src/common/utils/proto_encode.rs\<close>.  The receive buffer with
    its cursor and the iterator over frames; a stream decodes to the same messages however it is cut into chunks, and
    what was framed comes back.
  \<^item> \<open>Codec_Tables\<close>, \<open>Base64_Codec\<close>, \<open>Base62_Codec\<close>, \<open>Ulid_Codec\<close>, \<open>Hash_Hex\<close>, \<open>Checksum\<close>: the codecs of \<open>src/common/utils\<close>
    and \<open>src/app/model\<close> (\<open>base64.rs\<close>, \<open>base62.rs\<close>, \<open>ulid.rs\<close>, \<open>hex.rs\<close>, \<open>hash.rs\<close>, \<open>checksum.rs\<close>, \<open>timestamp_header.rs\<close>) with their
    lookup tables: round trips, what the decoders accept, and the division by multiplication in base 62.
  \<^item> \<open>Token_Identity\<close>, \<open>Token_Types\<close>: token parsing, user ids, keys and the data of a token (\<open>src/app/model/token.rs\<close>,
    \<open>src/app/model/token/provider.rs\<close>, \<open>src/common/model/token.rs\<close>).
  \<^item> \<open>Token_Queue\<close>, \<open>Token_Manager\<close>, \<open>Token_Routes\<close>: \<open>src/app/model/state/token.rs\<close> with its queue and
    \<open>src/core/route/tokens.rs\<close>.  The manager's tables agree in every reachable state; ids are reused in order; selection
    is fair; saving and loading keeps the tokens.
  \<^item> \<open>Token_Cache\<close>: \<open>src/app/model/token/cache.rs\<close>, reference counts over an explicit heap with interleaved threads.
  \<^item> \<open>Log_Manager\<close>, \<open>Log_Routes\<close>: \<open>src/app/model/log\<close> and \<open>src/core/route/logs.rs\<close>.  The actor and its commands, the window of
    the newest logs, reference counts of their tokens, queries and who may see what.
  \<^item> \<open>Stream_Decoder\<close>: \<open>src/core/stream/decoder.rs\<close>.  Frames to messages, tool calls that arrive as growing snapshots.
  \<^item> \<open>Chat_Stream\<close>, \<open>Chat_Answers\<close>: the response halves of the two chat handlers of \<open>src/core/service.rs\<close>.  The interface
    \<open>message_processor\<close> is interpreted for both; answers contain every message once, in order, and Anthropic events
    follow their protocol; several ways in which an answer loses something are proved as well, and one in which the handler waits
    for ever for a lock it holds, which is the value \<open>None\<close> of \<open>then_step\<close>.
  \<^item> \<open>Chat_Tools\<close>, \<open>Web_Links\<close>, \<open>Instructions\<close>, \<open>Chat_Request\<close>, \<open>Conversation\<close>: \<open>src/core/adapter\<close> with
    \<open>src/app/model/default_instructions.rs\<close>, \<open>src/app/model/context_fill_mode.rs\<close> and \<open>crates/rep_move\<close>.  Tool names and
    results, web references, instructions, and the conversion of both kinds of request: it is total, consistent, and the
    same for both protocols.
  \<^item> \<open>Model_Names\<close>, \<open>Models\<close>, \<open>Models_Proofs\<close>: \<open>src/core/constant.rs\<close>, \<open>src/core/constant/leak_ids.rs\<close> and
    \<open>src/core/model/resolver.rs\<close>.  The table of models, interned names, updates from the backend and the lookup of requested
    names; the index stays in bounds, the listed names resolve, and some names go wrong.
  \<^item> \<open>Debug_Logger\<close>: the task of \<open>src/app/lazy/log.rs\<close> that writes the debug log.  Messages are numbered and may arrive in any
    order; each is written once, and in order within the limits; late messages go wrong.
  \<^item> \<open>Ntp_Clock\<close>: \<open>src/common/model/ntp.rs\<close>.  Time stamps and their round trip; the offset that is measured is half the
    delay of the network.
  \<^item> \<open>Proxy_Pool\<close>: \<open>src/app/model/proxy_pool.rs\<close> and \<open>src/core/route/proxies.rs\<close>.  Operations are programs over atomic loads
    and stores, run alone or interleaved.  One at a time the routes refine a table of proxies, with one client each;
    empty tables and concurrent requests are undefined behaviour.
  \<^item> \<open>Natural_Args\<close>: \<open>src/natural_args.rs\<close>, the command line.  The phrases of the help page are understood in any sequence;
    some others are misunderstood.
  \<^item> \<open>Duration_Fmt\<close>: \<open>src/common/utils/duration_fmt.rs\<close>.  Parts of a duration, eight formats in five languages; the numeric format
    can be read back, the fuzzy one is close.
  \<^item> \<open>Interned_Str\<close>: \<open>crates/interned\<close>.  Reference-counted texts in a pool, with interleaved threads: safe, and equal texts have
    equal addresses, unless a text is asked for while its last reference is dropped.
  \<^item> \<open>Utf8\<close>, \<open>Byte_Str\<close>: \<open>crates/byte_str\<close>.  The vectorised validation accepts exactly the encodings of Unicode scalar values and
    agrees with the standard library; the type \<open>ByteStr\<close> keeps its invariant, except through \<open>Buf\<close>.
  \<^item> \<open>Prost_Varint\<close>, \<open>Prost_Packed\<close>: \<open>patch/prost-0.14.1/src/encoding/varint.rs\<close>.  Variable-length integers: 64-bit ones are read back
    on every path; 32-bit ones only below 0x50000000; packed fields in a vector are corrupted (\<open>Prost_Vec\<close>: \<open>encode_message\<close>, which
    encodes into a vector, is undefined exactly for the messages that have them).
  \<^item> \<open>Prost_Message\<close>, \<open>Prost_Lengths\<close>, \<open>Prost_Roundtrip\<close>, \<open>Prost_Schemas\<close>, \<open>Message_Stream\<close>: \<open>patch/prost-0.14.1/src/encoding.rs\<close>,
    \<open>encoding/\<close>, \<open>message.rs\<close> and \<open>src/core/aiserver/v1/lite.rs\<close>.  Encoding and decoding of messages for a schema, and the schemas
    of the 82 message types.  The announced length is exact, decoding ends on every input, and what was encoded is decoded,
    through the framing as well; a set single-precision field is not.
  \<^item> \<open>Upstream_Errors\<close>: \<open>src/core/error.rs\<close>, \<open>src/core/error/\<close> and \<open>src/core/aiserver/v1.rs\<close>.  What becomes of the errors of the backend:
    the worst of the details decides, and the status is always valid.
  \<^item> \<open>Cpp_Stream\<close>: \<open>src/core/stream/decoder/cpp.rs\<close> and the stream of \<open>src/core/service/cpp.rs\<close>, from framed messages to events;
    \<open>Direct_Decode\<close>: \<open>src/core/stream/decoder/direct.rs\<close>, answers that are a message, a framed message or a text.
  \<^bold>\<open>Bounds and fuel.\<close>  Loops over data are structural or have a measure, so the functions are total.  Where the code may
  loop for ever the model says so (\<open>add_log\<close> with a limit of zero).  The loops of the protobuf decoder take as fuel the number of
  bytes there are to read, which is enough because every round reads one (\<open>message_decode_ends\<close>).

  \<^bold>\<open>Not modelled.\<close>  \<open>patch/\<close> is third-party code with small changes (HTTP/2, TLS, HTTP client, dates, compression, hash
  tables), of which only the encoding of protobuf is modelled; of the generated code of \<open>src/core/aiserver/v1\<close> the one that is
  built, \<open>lite.rs\<close>, is.  Who may call a route is not modelled (\<open>src/core/auth\<close>, \<open>src/core/config\<close>, \<open>src/app/model/config.rs\<close>,
  \<open>src/app/model/dynamic_key.rs\<close>).  Left out as input and output or glue: HTTP routing and
  middleware, the embedded frontend, the HTTP client's headers, serialisation to JSON, files, the environment, build
  scripts.  \<open>src/common/utils/{checksum,token,delayed_task}.rs\<close> and \<open>src/app/model/state/log.rs\<close> are not part of the
  build.
\<close>

end
